(* ===== verification/Prelude.thy ===== *)
theory Prelude
  imports Complex_Main "HOL-Library.Char_ord" "HOL-Library.List_Lexorder"
    "HOL-Library.Product_Lexorder" "HOL-Library.Multiset"
begin

text \<open>
  Shared vocabulary of the development: the error values of the modelled packages, Go's string
  helpers on ASCII text, the insertion sort behind \<open>sort.Slice\<close>, index maps, and generic lemmas.

  Errors. Every sentinel \<open>errors.New\<close> variable of the modelled packages is a constructor of
  \<open>go_error\<close>; \<open>fmt.Errorf("%w: ...", Err, ...)\<close> is the constructor it wraps, its message text is
  not modelled. An anonymous error is \<open>ErrOther\<close> with a tag; a Go panic is \<open>Panic\<close> with a tag.
  A function returning \<open>(T, error)\<close> is a function into \<open>go_error + T\<close>.
\<close>

section \<open>Errors and results\<close>

datatype go_error =
    ErrInvalidPolicySpecs
  | ErrHOSViolation
  | ErrSimulatorNilClocks
  | ErrInvalidConfig
  | ErrFacilityNotFound
  | ErrInvalidInformationState
  | ErrNilStateComponent
  | ErrDriverNotFound
  | ErrLoadNotFound
  | ErrDriverAlreadyAssigned
  | ErrDuplicateMatch
  | ErrInvalidBidPrice
  | ErrDuplicateBid
  | ErrBeliefDimensionMismatch
  | ErrBeliefEmpty
  | ErrDuplicateStateKey
  | ErrFilterDegenerateObservation
  | ErrTransitionMatrixDimensionMismatch
  | ErrTransitionMatrixRowSimplex
  | ErrLAPEmptyMatrix
  | ErrLAPNonFinite
  | ErrDimensionMismatch
  | ErrNotSquare
  | ErrNotPositiveDefinite
  | ErrSingularMatrix
  | ErrSimplexEmpty
  | ErrSimplexNegative
  | ErrSimplexNonFinite
  | ErrSimplexSumMismatch
  | ErrEmptySlice
  | ErrInvalidLogDomain
  | ErrZeroProbabilityMass
  | ErrInvalidKernelParams
  | ErrInvalidCKGDimension
  | ErrInvalidPiecewiseSlopes
  | ErrEmptyDriverID
  | ErrEmptyLoadID
  | ErrInvalidCoordinates
  | ErrInvalidHOS
  | ErrInvalidRevenue
  | ErrRecordNotFound
  | ErrCorruptedChain
  | ErrDuplicateRecord
  | ErrEmptyTour
  | ErrTourDiscontinuousSpatial
  | ErrTourDiscontinuousTemporal
  | ErrRelayInfeasible
  | ErrRelaySameDriver
  | ErrOther string
  | Panic string

type_synonym 'a result = "go_error + 'a"

named_theorems wf_intro \<open>preservation of the well-formedness invariants\<close>
named_theorems model_simps \<open>equations that unfold a modelled operation one step\<close>

lemma Inr_case_sumE:
  assumes "(case r of Inl e \<Rightarrow> Inl e | Inr x \<Rightarrow> f x) = Inr y"
  obtains x where "r = Inr x" and "f x = Inr y"
  using assms by (cases r) auto

lemma Some_case_optionE:
  assumes "(case r of None \<Rightarrow> None | Some x \<Rightarrow> f x) = Some y"
  obtains x where "r = Some x" and "f x = Some y"
  using assms by (cases r) auto

section \<open>Strings\<close>

text \<open>
  A Go string is a byte sequence; \<open><\<close> on strings is the bytewise lexicographic order, which is
  the order of \<open>List_Lexorder\<close> over \<open>Char_ord\<close>. \<open>strings.ToUpper\<close>, \<open>strings.EqualFold\<close> and
  \<open>strings.TrimSpace\<close> are modelled on ASCII text: bytes above 127 are left alone.
\<close>

definition ascii_upper :: "char \<Rightarrow> char" where
  "ascii_upper c = (if CHR ''a'' \<le> c \<and> c \<le> CHR ''z'' then char_of ((of_char c :: nat) - 32) else c)"

definition ToUpper :: "string \<Rightarrow> string" where
  "ToUpper s = map ascii_upper s"

definition EqualFold :: "string \<Rightarrow> string \<Rightarrow> bool" where
  "EqualFold s t = (ToUpper s = ToUpper t)"

definition is_space :: "char \<Rightarrow> bool" where
  "is_space c = ((of_char c :: nat) \<in> {9, 10, 11, 12, 13, 32})"

definition TrimSpace :: "string \<Rightarrow> string" where
  "TrimSpace s = rev (dropWhile is_space (rev (dropWhile is_space s)))"

lemma EqualFold_refl [simp]: "EqualFold s s"
  by (simp add: EqualFold_def)

lemma EqualFold_sym: "EqualFold s t \<Longrightarrow> EqualFold t s"
  by (simp add: EqualFold_def)

lemma EqualFold_trans: "EqualFold s t \<Longrightarrow> EqualFold t u \<Longrightarrow> EqualFold s u"
  by (simp add: EqualFold_def)

section \<open>sort.Slice\<close>

text \<open>
  \<open>sort.Slice\<close> sorts by a strict order \<open>lt\<close>. The model is the insertion sort Go runs on short
  slices: each element moves left while it is less than its left neighbour. The locale \<open>slice_order\<close>
  states what the callers rely on; inside it the result is shown to be sorted, a permutation of
  the input and, when distinct elements are comparable, the only sorted permutation, so the
  choice of sorting algorithm is not observable there.
\<close>

fun insert_slice :: "('a \<Rightarrow> 'a \<Rightarrow> bool) \<Rightarrow> 'a \<Rightarrow> 'a list \<Rightarrow> 'a list" where
  "insert_slice lt x [] = [x]"
| "insert_slice lt x (y # ys) = (if lt x y then x # y # ys else y # insert_slice lt x ys)"

definition sort_slice :: "('a \<Rightarrow> 'a \<Rightarrow> bool) \<Rightarrow> 'a list \<Rightarrow> 'a list" where
  "sort_slice lt xs = fold (insert_slice lt) xs []"

lemma mset_insert_slice [simp]: "mset (insert_slice lt x xs) = add_mset x (mset xs)"
  by (induction xs) auto

lemma mset_fold_insert_slice: "mset (fold (insert_slice lt) xs ys) = mset xs + mset ys"
  by (induction xs arbitrary: ys) auto

lemma mset_sort_slice [simp]: "mset (sort_slice lt xs) = mset xs"
  by (simp add: sort_slice_def mset_fold_insert_slice)

lemma set_sort_slice [simp]: "set (sort_slice lt xs) = set xs"
  by (rule mset_eq_setD) simp

lemma length_sort_slice [simp]: "length (sort_slice lt xs) = length xs"
  by (rule mset_eq_length) simp

lemma sort_slice_Nil [simp]: "sort_slice lt [] = []"
  by (simp add: sort_slice_def)

lemma distinct_map_sort_slice [simp]: "distinct (map f (sort_slice lt xs)) = distinct (map f xs)"
  by (metis mset_eq_imp_distinct_iff mset_map mset_sort_slice)

locale slice_order =
  fixes lt :: "'a \<Rightarrow> 'a \<Rightarrow> bool" and A :: "'a set"
  assumes less_asym: "a \<in> A \<Longrightarrow> b \<in> A \<Longrightarrow> lt a b \<Longrightarrow> \<not> lt b a"
    and less_negtrans: "a \<in> A \<Longrightarrow> b \<in> A \<Longrightarrow> c \<in> A \<Longrightarrow> \<not> lt a b \<Longrightarrow> \<not> lt b c \<Longrightarrow> \<not> lt a c"
begin

text \<open>No later element is less than an earlier one.\<close>

lemma sorted_insert_slice:
  assumes "x \<in> A" and "set xs \<subseteq> A" and "sorted_wrt (\<lambda>a b. \<not> lt b a) xs"
  shows "sorted_wrt (\<lambda>a b. \<not> lt b a) (insert_slice lt x xs)"
  using assms
proof (induction xs)
  case Nil
  then show ?case by simp
next
  case (Cons y ys)
  show ?case
  proof (cases "lt x y")
    case True
    have "\<not> lt z x" if "z \<in> set ys" for z
    proof
      assume "lt z x"
      have A: "z \<in> A" "y \<in> A" using Cons.prems(2) that by auto
      from \<open>lt z x\<close> A(1) Cons.prems(1) have "\<not> lt x z" by (rule less_asym [rotated 2])
      moreover have "\<not> lt z y" using Cons.prems(3) that by simp
      ultimately have "\<not> lt x y" using True less_negtrans [of x z y] A Cons.prems(1) by blast
      with True show False by simp
    qed
    with True Cons.prems show ?thesis by (auto dest: less_asym)
  next
    case False
    with Cons show ?thesis
      by (auto simp: set_mset_mset [symmetric] simp del: set_mset_mset)
  qed
qed

lemma sorted_fold_insert_slice:
  "set xs \<subseteq> A \<Longrightarrow> set ys \<subseteq> A \<Longrightarrow> sorted_wrt (\<lambda>a b. \<not> lt b a) ys \<Longrightarrow>
    sorted_wrt (\<lambda>a b. \<not> lt b a) (fold (insert_slice lt) xs ys)"
proof (induction xs arbitrary: ys)
  case Nil
  then show ?case by simp
next
  case (Cons x xs)
  have "set (insert_slice lt x ys) \<subseteq> A"
    using Cons.prems by (metis mset_insert_slice set_mset_mset set_mset_add_mset_insert
        insert_subset list.set_intros(1) subset_iff)
  then show ?case
    using Cons by (auto intro: sorted_insert_slice)
qed

lemma sorted_sort_slice: "set xs \<subseteq> A \<Longrightarrow> sorted_wrt (\<lambda>a b. \<not> lt b a) (sort_slice lt xs)"
  by (simp add: sort_slice_def sorted_fold_insert_slice)

lemma sorted_unique:
  assumes "mset xs = mset ys" and "set xs \<subseteq> A"
    and tot: "\<And>a b. a \<in> set xs \<Longrightarrow> b \<in> set xs \<Longrightarrow> \<not> lt a b \<Longrightarrow> \<not> lt b a \<Longrightarrow> a = b"
    and "sorted_wrt (\<lambda>a b. \<not> lt b a) xs" and "sorted_wrt (\<lambda>a b. \<not> lt b a) ys"
  shows "xs = ys"
  using assms
proof (induction xs arbitrary: ys)
  case Nil
  then show ?case by simp
next
  case (Cons x xs)
  then obtain y ys' where ys: "ys = y # ys'" by (cases ys) auto
  have in_ys: "x \<in> set ys" and in_xs: "y \<in> set (x # xs)"
    using Cons.prems(1) ys by (metis list.set_intros(1) set_mset_mset)+
  have "x = y"
  proof (rule ccontr)
    assume ne: "x \<noteq> y"
    with in_ys ys Cons.prems(5) have "\<not> lt x y" by auto
    moreover from ne in_xs Cons.prems(4) have "\<not> lt y x" by auto
    ultimately show False using Cons.prems(3) [of x y] in_xs ne by auto
  qed
  with Cons.prems ys have "xs = ys'" by (intro Cons.IH) auto
  with \<open>x = y\<close> ys show ?case by simp
qed

text \<open>Two orders of the same elements sort to the same slice when the order is total on them.\<close>

lemma sort_slice_perm_invariant:
  assumes "mset xs = mset ys" and "set xs \<subseteq> A"
    and "\<And>a b. a \<in> set xs \<Longrightarrow> b \<in> set xs \<Longrightarrow> \<not> lt a b \<Longrightarrow> \<not> lt b a \<Longrightarrow> a = b"
  shows "sort_slice lt xs = sort_slice lt ys"
proof (rule sorted_unique)
  show "mset (sort_slice lt xs) = mset (sort_slice lt ys)" using assms(1) by simp
  show "set (sort_slice lt xs) \<subseteq> A" using assms(2) by simp
  show "sorted_wrt (\<lambda>a b. \<not> lt b a) (sort_slice lt xs)" using assms(2) by (rule sorted_sort_slice)
  have "set ys \<subseteq> A" using assms(1,2) by (metis mset_eq_setD)
  then show "sorted_wrt (\<lambda>a b. \<not> lt b a) (sort_slice lt ys)" by (rule sorted_sort_slice)
qed (use assms(3) in auto)

lemma sort_slice_sorted_id:
  assumes "set xs \<subseteq> A" and "sorted_wrt (\<lambda>a b. \<not> lt b a) xs"
    and "\<And>a b. a \<in> set xs \<Longrightarrow> b \<in> set xs \<Longrightarrow> \<not> lt a b \<Longrightarrow> \<not> lt b a \<Longrightarrow> a = b"
  shows "sort_slice lt xs = xs"
  using sorted_unique [of "sort_slice lt xs" xs] sorted_sort_slice [of xs] assms by simp

end

text \<open>The comparators of the code compare a key of a linear order (an ID, or a pair of IDs).\<close>

lemma slice_order_key: "slice_order (\<lambda>a b. f a < (f b :: 'k::linorder)) A"
  by unfold_locales auto

interpretation by_key: slice_order "\<lambda>a b. f a < (f b :: 'k::linorder)" UNIV for f
  by (rule slice_order_key)

lemma sort_slice_key_sorted: "sorted (map f (sort_slice (\<lambda>a b. f a < (f b :: 'k::linorder)) xs))"
  using by_key.sorted_sort_slice [of xs f] by (simp add: sorted_map not_less)

lemma sort_slice_key_strict:
  assumes "distinct (map f xs)"
  shows "sorted_wrt (<) (map f (sort_slice (\<lambda>a b. f a < (f b :: 'k::linorder)) xs))"
  using assms sort_slice_key_sorted [of f xs] by (simp add: strict_sorted_iff)

lemma sort_slice_key_perm:
  assumes "mset xs = mset ys" and "distinct (map f xs)"
  shows "sort_slice (\<lambda>a b. f a < (f b :: 'k::linorder)) xs = sort_slice (\<lambda>a b. f a < f b) ys"
proof (rule by_key.sort_slice_perm_invariant [OF assms(1)])
  fix a b
  assume "a \<in> set xs" "b \<in> set xs" "\<not> f a < f b" "\<not> f b < f a"
  then show "a = b" using assms(2) by (metis distinct_map inj_onD linorder_neqE)
qed simp

lemma sort_slice_key_id:
  assumes "sorted_wrt (<) (map f xs)"
  shows "sort_slice (\<lambda>a b. f a < (f b :: 'k::linorder)) xs = xs"
proof (rule by_key.sort_slice_sorted_id)
  have s: "sorted_wrt (\<lambda>a b. f a < f b) xs" using assms by (simp add: sorted_wrt_map)
  then show "sorted_wrt (\<lambda>a b. \<not> f b < f a) xs"
    by (rule sorted_wrt_mono_rel [rotated]) auto
  have "distinct (map f xs)" using assms strict_sorted_iff by blast
  then show "\<And>a b. a \<in> set xs \<Longrightarrow> b \<in> set xs \<Longrightarrow> \<not> f a < f b \<Longrightarrow> \<not> f b < f a \<Longrightarrow> a = b"
    by (metis distinct_map inj_onD linorder_neqE)
qed simp

section \<open>Index maps\<close>

text \<open>
  The loop \<open>for i, x := range xs { index[x.ID] = i }\<close>: the last position of a repeated key wins.
\<close>

fun index_ids :: "nat \<Rightarrow> 'k list \<Rightarrow> ('k \<rightharpoonup> nat) \<Rightarrow> ('k \<rightharpoonup> nat)" where
  "index_ids i [] m = m"
| "index_ids i (k # ks) m = index_ids (Suc i) ks (m(k \<mapsto> i))"

lemma index_ids_None: "index_ids i ks m k = None \<longleftrightarrow> k \<notin> set ks \<and> m k = None"
  by (induction ks arbitrary: i m) auto

lemma index_ids_notin: "k \<notin> set ks \<Longrightarrow> index_ids i ks m k = m k"
  by (induction ks arbitrary: i m) auto

lemma index_ids_Some:
  "index_ids i ks m k = Some n \<Longrightarrow> k \<in> set ks \<Longrightarrow> i \<le> n \<and> n < i + length ks \<and> ks ! (n - i) = k"
proof (induction ks arbitrary: i m)
  case Nil
  then show ?case by simp
next
  case (Cons a ks)
  show ?case
  proof (cases "k \<in> set ks")
    case True
    from Cons.prems(1) have "index_ids (Suc i) ks (m(a \<mapsto> i)) k = Some n" by simp
    from Cons.IH [OF this True] have n: "Suc i \<le> n" "n < Suc i + length ks" "ks ! (n - Suc i) = k"
      by blast+
    then have "(a # ks) ! (n - i) = k" by (simp add: nth_Cons' Suc_diff_le)
    with n show ?thesis by simp
  next
    case False
    with Cons.prems show ?thesis by (auto simp: index_ids_notin)
  qed
qed

lemma index_ids_empty_Some: "index_ids 0 ks Map.empty k = Some n \<Longrightarrow> n < length ks \<and> ks ! n = k"
proof -
  assume a: "index_ids 0 ks Map.empty k = Some n"
  then have "k \<in> set ks" using index_ids_None [of 0 ks Map.empty k] by auto
  with index_ids_Some [OF a] show ?thesis by simp
qed

lemma index_ids_empty_None: "index_ids 0 ks Map.empty k = None \<longleftrightarrow> k \<notin> set ks"
  by (simp add: index_ids_None)

lemma index_ids_nth:
  assumes "distinct ks" and "i < length ks"
  shows "index_ids 0 ks Map.empty (ks ! i) = Some i"
proof -
  obtain n where n: "index_ids 0 ks Map.empty (ks ! i) = Some n"
    using assms(2) index_ids_empty_None [of ks "ks ! i"] by (meson not_None_eq nth_mem)
  have "n = i"
    using index_ids_empty_Some [OF n] assms nth_eq_iff_index_eq [OF assms(1)] by blast
  with n show ?thesis by simp
qed

section \<open>Lists\<close>

lemma list_update_sum_list:
  fixes xs :: "'a::ab_group_add list"
  assumes "i < length xs"
  shows "sum_list (xs[i := y]) = sum_list xs - xs ! i + y"
  using assms
proof (induction xs arbitrary: i)
  case Nil
  then show ?case by simp
next
  case (Cons x xs)
  then show ?case by (cases i) (auto simp: algebra_simps)
qed

lemma map_list_update_id:
  "f y = f (xs ! i) \<Longrightarrow> map f (xs[i := y]) = map f xs"
  by (cases "i < length xs")
    (auto simp: map_update list_update_beyond intro: list_update_same_conv [THEN iffD2])

end
