(* ===== verification/Float64.thy ===== *)
theory Float64
  imports Prelude "HOL-Library.Word" "HOL-Library.Numeral_Type"
begin

text \<open>
  Go's \<open>float64\<close>. A value is \<open>NaN\<close>, one of the two infinities, or a finite rational. The type
  \<open>'p fl\<close> carries the number of significand bits in its phantom parameter: \<open>53 fl\<close> is IEEE
  binary64 (round to nearest, ties to even, gradual underflow below \<open>2 ^ -1022\<close>, overflow to an
  infinity at \<open>2 ^ 1024\<close>) and is the type of every float of the modelled program; \<open>0 fl\<close> is the same
  arithmetic without rounding, the arithmetic in which the algorithms of the numeric kernels are
  proved. The kernels are defined once, for every \<open>'p\<close>. The two zeros of IEEE are one value here: the
  modelled code never divides by a zero without a guard and never inspects a sign bit.
\<close>

section \<open>Rounding\<close>

function bits :: "int \<Rightarrow> int" where
  "bits n = (if n \<le> 0 then 0 else 1 + bits (n div 2))"
  by pat_completeness auto
termination
  by (relation "measure nat") auto

declare bits.simps [simp del]

definition pow2 :: "int \<Rightarrow> rat" where
  "pow2 k = (if 0 \<le> k then 2 ^ nat k else 1 / 2 ^ nat (- k))"

text \<open>\<open>ilog2 q\<close> is the exponent of a positive rational: \<open>2 ^ ilog2 q \<le> q < 2 ^ (ilog2 q + 1)\<close>.\<close>

definition ilog2 :: "rat \<Rightarrow> int" where
  "ilog2 q = (case quotient_of q of (a, b) \<Rightarrow>
     let k = bits a - bits b in if pow2 k \<le> q then k else k - 1)"

definition round_even :: "rat \<Rightarrow> int" where
  "round_even q = (let f = \<lfloor>q\<rfloor>; d = q - of_int f in
     if d < 1 / 2 then f else if 1 / 2 < d then f + 1 else if even f then f else f + 1)"

definition round_sig :: "nat \<Rightarrow> rat \<Rightarrow> rat" where
  "round_sig p q = (if p = 0 \<or> q = 0 then q else
     let u = pow2 (max (ilog2 \<bar>q\<bar>) (- 1022) - int p + 1) in of_int (round_even (q / u)) * u)"

lemma pow2_pos [simp]: "0 < pow2 k"
  by (simp add: pow2_def)

lemma pow2_nonneg [simp]: "0 \<le> pow2 k"
  using pow2_pos [of k] by linarith

lemma pow2_neq_0 [simp]: "pow2 k \<noteq> 0"
  using pow2_pos [of k] by linarith

lemma pow2_add: "pow2 (a + b) = pow2 a * pow2 b"
proof -
  have e: "nat (a + b) + nat (- b) = nat a" if "0 \<le> a" "b < 0" "0 \<le> a + b" for a b :: int
    using that by linarith
  have f: "nat (- (a + b)) + nat a = nat (- b)" if "0 \<le> a" "b < 0" "a + b < 0" for a b :: int
    using that by linarith
  have g: "nat (- a) + nat (- b) = nat (- (a + b))" if "a < 0" "b < 0" for a b :: int
    using that by linarith
  have mixed: "pow2 (a + b) = pow2 a * pow2 b" if "0 \<le> a" "b < 0" for a b :: int
  proof (cases "0 \<le> a + b")
    case True
    then show ?thesis using that
      by (simp add: pow2_def e [OF that True, symmetric] power_add field_simps)
  next
    case False
    then have n: "a + b < 0" by simp
    show ?thesis using that n
      by (simp add: pow2_def f [OF that n, symmetric] power_add field_simps)
  qed
  consider "0 \<le> a" "0 \<le> b" | "0 \<le> a" "b < 0" | "a < 0" "0 \<le> b" | "a < 0" "b < 0" by linarith
  then show ?thesis
  proof cases
    case 1
    then show ?thesis by (simp add: pow2_def nat_add_distrib power_add)
  next
    case 2
    then show ?thesis by (rule mixed)
  next
    case 3
    then show ?thesis using mixed [of b a] by (simp add: ac_simps)
  next
    case 4
    have "nat (- (a + b)) = nat (- a) + nat (- b)" by (rule g [OF 4, symmetric])
    with 4 show ?thesis unfolding pow2_def by (simp only:) (simp add: power_add)
  qed
qed

lemma pow2_nat: "pow2 (int n) = 2 ^ n"
  by (simp add: pow2_def)

lemma pow2_mono: "a \<le> b \<Longrightarrow> pow2 a \<le> pow2 b"
proof -
  assume "a \<le> b"
  then have "a + int (nat (b - a)) = b" by simp
  then have "pow2 b = pow2 a * pow2 (int (nat (b - a)))" by (metis pow2_add)
  moreover have "1 \<le> pow2 (int (nat (b - a)))" unfolding pow2_nat by simp
  ultimately show ?thesis
    using mult_left_mono [of 1 "pow2 (int (nat (b - a)))" "pow2 a"] by (metis mult.right_neutral pow2_nonneg)
qed

text \<open>Powers of two computed on \<open>int\<close>, for evaluation.\<close>

function ipow2 :: "int \<Rightarrow> int" where
  "ipow2 k = (if k \<le> 0 then 1 else 2 * ipow2 (k - 1))"
  by pat_completeness auto
termination
  by (relation "measure nat") auto

declare ipow2.simps [simp del]

lemma ipow2_eq: "ipow2 k = 2 ^ nat k"
proof (induction k rule: ipow2.induct)
  case (1 k)
  show ?case
  proof (cases "k \<le> 0")
    case False
    then have "nat k = Suc (nat (k - 1))" by linarith
    with 1 False show ?thesis by (simp add: ipow2.simps [of k])
  qed (simp add: ipow2.simps [of k])
qed

lemma pow2_code [code]: "pow2 k = (if 0 \<le> k then of_int (ipow2 k) else 1 / of_int (ipow2 (- k)))"
  by (simp add: pow2_def ipow2_eq)

lemma pow2_succ: "pow2 (k + 1) = 2 * pow2 k"
  using pow2_add [of k 1] by (simp add: pow2_def [of 1])

lemma pow2_less_iff: "pow2 a < pow2 b \<longleftrightarrow> a < b"
proof
  assume "pow2 a < pow2 b"
  then show "a < b" using pow2_mono [of b a] by linarith
next
  assume "a < b"
  then have "pow2 (a + 1) \<le> pow2 b" by (intro pow2_mono) simp
  then show "pow2 a < pow2 b" unfolding pow2_succ using pow2_pos [of a] by linarith
qed

lemma bits_nonneg: "0 \<le> bits n"
  by (induction n rule: bits.induct) (subst bits.simps, auto)

lemma bits_bounds: "0 < n \<Longrightarrow> pow2 (bits n - 1) \<le> of_int n \<and> of_int n < pow2 (bits n)"
proof (induction n rule: bits.induct)
  case (1 n)
  show ?case
  proof (cases "n = 1")
    case True
    then show ?thesis by (simp add: bits.simps [of 1] bits.simps [of 0] pow2_def)
  next
    case False
    with 1 have IH: "pow2 (bits (n div 2) - 1) \<le> of_int (n div 2)" "of_int (n div 2) < pow2 (bits (n div 2))"
      by auto
    have b: "bits n = bits (n div 2) + 1" using 1 by (simp add: bits.simps [of n])
    have b': "pow2 (bits n - 1) = 2 * pow2 (bits (n div 2) - 1)" "pow2 (bits n) = 2 * pow2 (bits (n div 2))"
      using pow2_succ [of "bits (n div 2) - 1"] pow2_succ [of "bits (n div 2)"] by (simp_all add: b)
    have n: "2 * (n div 2) \<le> n" "n < 2 * (n div 2) + 2" by linarith+
    have "2 * of_int (n div 2) \<le> (of_int n :: rat)" 
      using of_int_le_iff [where 'a = rat, THEN iffD2, OF n(1)] by simp
    moreover have "(of_int (n div 2) :: rat) + 1 \<le> pow2 (bits (n div 2))"
    proof -
      have P: "pow2 (bits (n div 2)) = of_int (2 ^ nat (bits (n div 2)))"
        by (simp add: pow2_def bits_nonneg)
      have step: "of_int i + 1 \<le> (of_int j :: rat)" if "of_int i < (of_int j :: rat)" for i j
        using that of_int_le_iff [where 'a = rat, of "i + 1" j] by simp
      show ?thesis using IH(2) unfolding P by (rule step)
    qed
    moreover have "(of_int n :: rat) < 2 * of_int (n div 2) + 2"
      using of_int_less_iff [where 'a = rat, THEN iffD2, OF n(2)] by simp
    ultimately show ?thesis unfolding b' using IH(1) by linarith
  qed
qed

lemma ilog2_bounds:
  assumes "0 < q"
  shows "pow2 (ilog2 q) \<le> q \<and> q < pow2 (ilog2 q + 1)"
proof -
  obtain a b where q: "quotient_of q = (a, b)" by fastforce
  have b: "0 < b" using quotient_of_denom_pos [OF q] .
  have eq: "q = of_int a / of_int b" using quotient_of_div [OF q] .
  with assms b have a: "0 < a" by (simp add: zero_less_divide_iff)
  let ?k = "bits a - bits b"
  note ba = bits_bounds [OF a] and bb = bits_bounds [OF b]
  have ub: "q < pow2 (?k + 1)"
  proof -
    have "of_int a < pow2 (bits a)" using ba by simp
    also have "\<dots> = pow2 (?k + 1) * pow2 (bits b - 1)" by (simp flip: pow2_add)
    also have "\<dots> \<le> pow2 (?k + 1) * of_int b" using bb by (intro mult_left_mono) auto
    finally show ?thesis using b by (simp add: eq divide_less_eq)
  qed
  have lb: "pow2 (?k - 1) \<le> q"
  proof -
    have "pow2 (?k - 1) * of_int b \<le> pow2 (?k - 1) * pow2 (bits b)" using bb by (intro mult_left_mono) auto
    also have "\<dots> = pow2 (bits a - 1)" by (simp flip: pow2_add)
    also have "\<dots> \<le> of_int a" using ba by simp
    finally show ?thesis using b by (simp add: eq le_divide_eq)
  qed
  show ?thesis using ub lb by (auto simp: ilog2_def q Let_def)
qed

lemma round_even_of_int [simp]: "round_even (of_int n) = n"
  by (simp add: round_even_def)

lemma round_even_bounds: "of_int (round_even q) \<le> q + 1 / 2 \<and> q - 1 / 2 \<le> of_int (round_even q)"
proof -
  have b: "of_int \<lfloor>q\<rfloor> \<le> q" "q < of_int \<lfloor>q\<rfloor> + 1" by linarith+
  then have "of_int \<lfloor>q\<rfloor> \<le> q + 1 / 2" by linarith
  with b show ?thesis by (auto simp: round_even_def Let_def)
qed

lemma round_even_mono: "q \<le> r \<Longrightarrow> round_even q \<le> round_even r"
proof -
  assume le: "q \<le> r"
  then have fl: "\<lfloor>q\<rfloor> \<le> \<lfloor>r\<rfloor>" by (rule floor_mono)
  show ?thesis
  proof (cases "\<lfloor>q\<rfloor> = \<lfloor>r\<rfloor>")
    case True
    with le show ?thesis by (auto simp: round_even_def Let_def)
  next
    case False
    with fl have "\<lfloor>q\<rfloor> + 1 \<le> \<lfloor>r\<rfloor>" by linarith
    moreover have "round_even q \<le> \<lfloor>q\<rfloor> + 1" "\<lfloor>r\<rfloor> \<le> round_even r"
      by (auto simp: round_even_def Let_def)
    ultimately show ?thesis by linarith
  qed
qed

lemma round_even_nonneg: "0 \<le> q \<Longrightarrow> 0 \<le> round_even q"
  using round_even_mono [of 0 q] round_even_of_int [of 0] by simp

lemma round_even_minus: "round_even (- q) = - round_even q"
proof (cases "q \<in> \<int>")
  case True
  then obtain n where "q = of_int n" by (auto elim: Ints_cases)
  then show ?thesis by (metis of_int_minus round_even_of_int)
next
  case False
  then have "of_int \<lfloor>q\<rfloor> \<noteq> q" by (metis Ints_of_int)
  moreover have "of_int \<lfloor>q\<rfloor> \<le> q" "q < of_int \<lfloor>q\<rfloor> + 1" by linarith+
  ultimately have "of_int \<lfloor>q\<rfloor> < q" "q < of_int \<lfloor>q\<rfloor> + 1" by linarith+
  then have fl: "\<lfloor>- q\<rfloor> = - \<lfloor>q\<rfloor> - 1" by (intro floor_unique) simp_all
  show ?thesis unfolding round_even_def Let_def fl by (auto simp: algebra_simps)
qed

lemma round_sig_0 [simp]: "round_sig p 0 = 0"
  by (simp add: round_sig_def)

lemma round_sig_exact [simp]: "round_sig 0 q = q"
  by (simp add: round_sig_def)

lemma round_sig_nonneg: "0 \<le> q \<Longrightarrow> 0 \<le> round_sig p q"
  by (auto simp: round_sig_def Let_def round_even_nonneg intro!: mult_nonneg_nonneg)

lemma round_sig_minus: "round_sig p (- q) = - round_sig p q"
  by (simp add: round_sig_def Let_def round_even_minus)

lemma round_sig_nonpos: "q \<le> 0 \<Longrightarrow> round_sig p q \<le> 0"
  using round_sig_nonneg [of "- q" p] by (simp add: round_sig_minus)

section \<open>Values and operations\<close>

datatype 'p fl = NaN | NInf | PInf | Fin rat

type_synonym f64 = "53 fl"

definition rnd :: "rat \<Rightarrow> 'p::len0 fl" where
  "rnd q = (let r = round_sig LENGTH('p) q in
     if LENGTH('p) = 0 then Fin r
     else if pow2 1024 \<le> r then PInf else if r \<le> - pow2 1024 then NInf else Fin r)"

fun is_nan :: "'p fl \<Rightarrow> bool" where
  "is_nan NaN = True"
| "is_nan _ = False"

fun is_inf :: "'p fl \<Rightarrow> bool" where
  "is_inf PInf = True"
| "is_inf NInf = True"
| "is_inf _ = False"

fun is_fin :: "'p fl \<Rightarrow> bool" where
  "is_fin (Fin _) = True"
| "is_fin _ = False"

fun fin_val :: "'p fl \<Rightarrow> rat" where
  "fin_val (Fin q) = q"
| "fin_val _ = 0"

instantiation fl :: (len0) "{zero, one, plus, uminus, minus, times, inverse, abs, ord}"
begin

definition zero_fl :: "'a fl" where "zero_fl = Fin 0"

definition one_fl :: "'a fl" where "one_fl = Fin 1"

fun plus_fl :: "'a fl \<Rightarrow> 'a fl \<Rightarrow> 'a fl" where
  "plus_fl (Fin a) (Fin b) = rnd (a + b)"
| "plus_fl NaN y = NaN"
| "plus_fl x NaN = NaN"
| "plus_fl PInf NInf = NaN"
| "plus_fl NInf PInf = NaN"
| "plus_fl PInf y = PInf"
| "plus_fl NInf y = NInf"
| "plus_fl x PInf = PInf"
| "plus_fl x NInf = NInf"

fun uminus_fl :: "'a fl \<Rightarrow> 'a fl" where
  "uminus_fl (Fin a) = Fin (- a)"
| "uminus_fl NaN = NaN"
| "uminus_fl PInf = NInf"
| "uminus_fl NInf = PInf"

definition minus_fl :: "'a fl \<Rightarrow> 'a fl \<Rightarrow> 'a fl" where
  "minus_fl x y = x + - y"

definition inf_sgn :: "rat \<Rightarrow> 'a fl" where
  "inf_sgn s = (if 0 < s then PInf else if s < 0 then NInf else NaN)"

fun times_fl :: "'a fl \<Rightarrow> 'a fl \<Rightarrow> 'a fl" where
  "times_fl (Fin a) (Fin b) = rnd (a * b)"
| "times_fl NaN y = NaN"
| "times_fl x NaN = NaN"
| "times_fl PInf PInf = PInf"
| "times_fl NInf NInf = PInf"
| "times_fl PInf NInf = NInf"
| "times_fl NInf PInf = NInf"
| "times_fl PInf (Fin b) = inf_sgn b"
| "times_fl NInf (Fin b) = inf_sgn (- b)"
| "times_fl (Fin a) PInf = inf_sgn a"
| "times_fl (Fin a) NInf = inf_sgn (- a)"

text \<open>\<open>x / y\<close> abbreviates \<open>divide x y\<close>; \<open>inverse\<close> comes with the class of the notation.\<close>

fun divide_fl :: "'a fl \<Rightarrow> 'a fl \<Rightarrow> 'a fl" where
  "divide_fl (Fin a) (Fin b) = (if b = 0 then inf_sgn a else rnd (a / b))"
| "divide_fl NaN y = NaN"
| "divide_fl x NaN = NaN"
| "divide_fl (Fin a) _ = Fin 0"
| "divide_fl PInf (Fin b) = (if b < 0 then NInf else PInf)"
| "divide_fl NInf (Fin b) = (if b < 0 then PInf else NInf)"
| "divide_fl _ _ = NaN"

definition inverse_fl :: "'a fl \<Rightarrow> 'a fl" where
  "inverse_fl x = Fin 1 div x"

fun abs_fl :: "'a fl \<Rightarrow> 'a fl" where
  "abs_fl (Fin a) = Fin \<bar>a\<bar>"
| "abs_fl NaN = NaN"
| "abs_fl _ = PInf"

text \<open>\<open><\<close> and \<open>\<le>\<close> are the IEEE comparisons: false whenever an operand is \<open>NaN\<close>.\<close>

fun less_fl :: "'a fl \<Rightarrow> 'a fl \<Rightarrow> bool" where
  "less_fl (Fin a) (Fin b) = (a < b)"
| "less_fl NInf (Fin b) = True"
| "less_fl NInf PInf = True"
| "less_fl (Fin a) PInf = True"
| "less_fl _ _ = False"

definition less_eq_fl :: "'a fl \<Rightarrow> 'a fl \<Rightarrow> bool" where
  "less_eq_fl x y = (x < y \<or> (x = y \<and> \<not> is_nan x))"

instance ..

end

text \<open>\<open>==\<close> on floats, which is false on \<open>NaN\<close>, and the conversions and builtins the code uses.\<close>

definition feq :: "'p fl \<Rightarrow> 'p fl \<Rightarrow> bool" where
  "feq x y = (x = y \<and> \<not> is_nan x)"

definition of_int_fl :: "int \<Rightarrow> 'p::len0 fl" where
  "of_int_fl n = rnd (of_int n)"

definition go_max :: "'p::len0 fl \<Rightarrow> 'p fl \<Rightarrow> 'p fl" where
  "go_max x y = (if is_nan x \<or> is_nan y then NaN else if x < y then y else x)"

fun Ceil :: "'p fl \<Rightarrow> 'p fl" where
  "Ceil (Fin q) = Fin (of_int \<lceil>q\<rceil>)"
| "Ceil x = x"

fun Floor :: "'p fl \<Rightarrow> 'p fl" where
  "Floor (Fin q) = Fin (of_int \<lfloor>q\<rfloor>)"
| "Floor x = x"

text \<open>
  \<open>int(x)\<close> truncates towards zero. Go leaves the conversion of a value outside \<open>int64\<close> to the
  implementation; the model takes the one of amd64, which returns the least \<open>int64\<close>.
\<close>

definition trunc_rat :: "rat \<Rightarrow> int" where
  "trunc_rat q = (if 0 \<le> q then \<lfloor>q\<rfloor> else \<lceil>q\<rceil>)"

fun to_int :: "'p fl \<Rightarrow> int" where
  "to_int (Fin q) = (let n = trunc_rat q in if - (2 ^ 63) \<le> n \<and> n < 2 ^ 63 then n else - (2 ^ 63))"
| "to_int _ = - (2 ^ 63)"

text \<open>
  The transcendental functions of package \<open>math\<close>. Go specifies their special cases but not their
  bits (they differ between architectures), so they are a parameter of the model.
\<close>

record libm =
  m_sin :: "f64 \<Rightarrow> f64"
  m_cos :: "f64 \<Rightarrow> f64"
  m_atan2 :: "f64 \<Rightarrow> f64 \<Rightarrow> f64"
  m_sqrt :: "f64 \<Rightarrow> f64"
  m_exp :: "f64 \<Rightarrow> f64"
  m_log :: "f64 \<Rightarrow> f64"
  m_log1p :: "f64 \<Rightarrow> f64"
  m_pow :: "f64 \<Rightarrow> f64 \<Rightarrow> f64"

section \<open>Facts\<close>

text \<open>Rounding is exact on the numbers of the format: \<open>p\<close>-bit multiples of a power of two.\<close>

lemma round_sig_representable:
  assumes "\<bar>of_int m\<bar> < pow2 (int p)" and "- 1022 - int p + 1 \<le> k"
  shows "round_sig p (of_int m * pow2 k) = of_int m * pow2 k"
proof (cases "p = 0 \<or> m = 0")
  case False
  let ?q = "of_int m * pow2 k" and ?e = "ilog2 \<bar>of_int m * pow2 k\<bar>"
  have q0: "0 < \<bar>?q\<bar>" using False by simp
  have "pow2 ?e \<le> \<bar>?q\<bar>" using ilog2_bounds [OF q0] by simp
  also have "\<dots> = \<bar>of_int m\<bar> * pow2 k" by (simp add: abs_mult)
  also have "\<dots> < pow2 (int p) * pow2 k" using assms(1) by (intro mult_strict_right_mono) auto
  finally have "?e < int p + k" by (simp add: pow2_less_iff flip: pow2_add)
  then have le: "max ?e (- 1022) - int p + 1 \<le> k" using assms(2) by simp
  let ?u = "max ?e (- 1022) - int p + 1"
  have "pow2 k = pow2 (k - ?u) * pow2 ?u" by (simp flip: pow2_add)
  moreover have "pow2 (k - ?u) = of_int (2 ^ nat (k - ?u))" using le by (simp add: pow2_def)
  ultimately have "?q = of_int (m * 2 ^ nat (k - ?u)) * pow2 ?u" by (metis mult.assoc of_int_mult)
  then have "?q / pow2 ?u = of_int (m * 2 ^ nat (k - ?u))" by (metis nonzero_mult_div_cancel_right pow2_neq_0)
  then have "round_even (?q / pow2 ?u) = m * 2 ^ nat (k - ?u)" by (simp only: round_even_of_int)
  then have "round_sig p ?q = of_int (m * 2 ^ nat (k - ?u)) * pow2 ?u"
    using False by (simp only: round_sig_def Let_def) simp
  also have "\<dots> = ?q" by (rule \<open>?q = of_int (m * 2 ^ nat (k - ?u)) * pow2 ?u\<close> [symmetric])
  finally show ?thesis .
qed auto

lemma rnd_of_int: "\<bar>n\<bar> < 2 ^ 53 \<Longrightarrow> (rnd (of_int n) :: f64) = Fin (of_int n)"
proof -
  assume n: "\<bar>n\<bar> < 2 ^ 53"
  have p: "pow2 53 = of_int (2 ^ 53)" by (simp add: pow2_def)
  have b: "\<bar>of_int n\<bar> < pow2 53" unfolding p using n by (metis of_int_abs of_int_less_iff)
  then have r: "round_sig 53 (of_int n) = of_int n"
    using round_sig_representable [of n 53 0] by (simp add: pow2_def)
  have "pow2 53 \<le> pow2 1024" by (intro pow2_mono) simp
  with b have "\<not> pow2 1024 \<le> of_int n" "\<not> of_int n \<le> - pow2 1024" by linarith+
  then show ?thesis by (simp add: rnd_def r Let_def)
qed

lemma of_int_f64 [simp]: "\<bar>n\<bar> < 2 ^ 53 \<Longrightarrow> (of_int_fl n :: f64) = Fin (of_int n)"
  by (simp add: of_int_fl_def rnd_of_int)

lemma rnd_numeral_f64 [simp]:
  "(numeral k :: int) < 2 ^ 53 \<Longrightarrow> (rnd (numeral k) :: f64) = Fin (numeral k)"
  "(numeral k :: int) < 2 ^ 53 \<Longrightarrow> (rnd (- numeral k) :: f64) = Fin (- numeral k)"
  "(rnd 1 :: f64) = Fin 1"
  using rnd_of_int [of "numeral k"] rnd_of_int [of "- numeral k"] rnd_of_int [of 1] by simp_all

lemma rnd_0 [simp]: "rnd 0 = Fin 0"
proof -
  have "\<not> pow2 1024 \<le> 0" "\<not> 0 \<le> - pow2 1024" using pow2_pos [of 1024] by linarith+
  then show ?thesis by (simp add: rnd_def)
qed

lemma rnd_exact [simp]: "(rnd q :: 0 fl) = Fin q"
  by (simp add: rnd_def)

lemma rnd_not_nan [simp]: "\<not> is_nan (rnd q)"
  by (simp add: rnd_def Let_def)

lemma is_fin_iff: "is_fin x \<longleftrightarrow> (\<exists>q. x = Fin q)"
  by (cases x) auto

lemma fin_not_nan: "is_fin x \<Longrightarrow> \<not> is_nan x"
  by (cases x) auto

lemma less_fl_nan [simp]: "\<not> (NaN :: 'p::len0 fl) < x" "\<not> x < (NaN :: 'p::len0 fl)"
  by (cases x; simp)+

lemma le_fl_nan [simp]: "\<not> (NaN :: 'p::len0 fl) \<le> x" "\<not> x \<le> (NaN :: 'p::len0 fl)"
  by (cases x; simp add: less_eq_fl_def)+

lemma le_fl_Fin [simp]: "(Fin a :: 'p::len0 fl) \<le> Fin b \<longleftrightarrow> a \<le> b"
  by (auto simp: less_eq_fl_def)

lemma less_fl_irrefl [simp]: "\<not> x < (x :: 'p::len0 fl)"
  by (cases x) auto

lemma less_fl_trans: "x < y \<Longrightarrow> y < z \<Longrightarrow> x < (z :: 'p::len0 fl)"
  by (cases x; cases y; cases z) auto

lemma less_fl_asym: "x < y \<Longrightarrow> \<not> y < (x :: 'p::len0 fl)"
  by (cases x; cases y) auto

lemma not_less_fl: "\<not> is_nan x \<Longrightarrow> \<not> is_nan y \<Longrightarrow> \<not> x < y \<longleftrightarrow> y \<le> (x :: 'p::len0 fl)"
  by (cases x; cases y) (auto simp: less_eq_fl_def)

lemma le_fl_refl: "\<not> is_nan x \<Longrightarrow> x \<le> (x :: 'p::len0 fl)"
  by (simp add: less_eq_fl_def)

lemma le_fl_trans: "x \<le> y \<Longrightarrow> y \<le> z \<Longrightarrow> x \<le> (z :: 'p::len0 fl)"
  by (auto simp: less_eq_fl_def intro: less_fl_trans)

lemma le_fl_antisym: "x \<le> y \<Longrightarrow> y \<le> x \<Longrightarrow> x = (y :: 'p::len0 fl)"
  by (auto simp: less_eq_fl_def dest: less_fl_asym)

lemma less_imp_le_fl: "x < y \<Longrightarrow> x \<le> (y :: 'p::len0 fl)"
  by (simp add: less_eq_fl_def)

lemma le_fl_not_nan: "x \<le> y \<Longrightarrow> \<not> is_nan x \<and> \<not> is_nan (y :: 'p::len0 fl)"
  by (cases x; cases y) (auto simp: less_eq_fl_def)

lemma less_fl_not_nan: "x < y \<Longrightarrow> \<not> is_nan x \<and> \<not> is_nan (y :: 'p::len0 fl)"
  by (cases x; cases y) auto

lemma le_less_fl_trans: "x \<le> y \<Longrightarrow> y < z \<Longrightarrow> x < (z :: 'p::len0 fl)"
  by (auto simp: less_eq_fl_def intro: less_fl_trans)

lemma less_le_fl_trans: "x < y \<Longrightarrow> y \<le> z \<Longrightarrow> x < (z :: 'p::len0 fl)"
  by (auto simp: less_eq_fl_def intro: less_fl_trans)

lemma minus_fl_exact [simp]: "(Fin a :: 0 fl) - Fin b = Fin (a - b)"
  by (simp add: minus_fl_def)

text \<open>Exact arithmetic has every law of the rationals on its finite values.\<close>

lemmas exact_arith = plus_fl.simps(1) times_fl.simps(1) minus_fl_exact rnd_exact

lemma go_max_zero_nonneg: "\<not> is_nan x \<Longrightarrow> (0 :: 'p::len0 fl) \<le> go_max 0 x"
  by (cases x) (auto simp: go_max_def zero_fl_def less_eq_fl_def)

end
