(* ===== verification/GoTime.thy ===== *)
theory GoTime
  imports Float64
begin

text \<open>
  Package \<open>time\<close>. A \<open>time.Time\<close> is its instant in nanoseconds from the Unix epoch; the zero \<open>Time\<close> is
  January 1, year 1. A \<open>time.Duration\<close> is an \<open>int64\<close> of nanoseconds, so a product with
  \<open>time.Minute\<close> wraps and a difference saturates. Minute counters, epochs and other \<open>int\<close> values of
  the program are unbounded here; only durations leave the range of \<open>int64\<close> at magnitudes (292
  years) that an input can reach.
\<close>

type_synonym time = int
type_synonym duration = int

definition wrap64 :: "int \<Rightarrow> int" where
  "wrap64 x = (x + 2 ^ 63) mod 2 ^ 64 - 2 ^ 63"

definition Minute :: duration where
  "Minute = 60000000000"

definition Second :: duration where
  "Second = 1000000000"

text \<open>\<open>time.Duration(n) * time.Minute\<close>\<close>

definition minutes_dur :: "int \<Rightarrow> duration" where
  "minutes_dur n = wrap64 (n * Minute)"

definition zero_time :: time where
  "zero_time = - 62135596800 * Second"

definition IsZero :: "time \<Rightarrow> bool" where
  "IsZero t = (t = zero_time)"

definition time_Add :: "time \<Rightarrow> duration \<Rightarrow> time" where
  "time_Add t d = t + d"

definition time_Sub :: "time \<Rightarrow> time \<Rightarrow> duration" where
  "time_Sub t u = max (- (2 ^ 63)) (min (2 ^ 63 - 1) (t - u))"

definition time_Unix :: "int \<Rightarrow> time" where
  "time_Unix sec = sec * Second"

definition Unix_of :: "time \<Rightarrow> int" where
  "Unix_of t = t div Second"

text \<open>Go's \<open>/\<close> and \<open>%\<close> on integers truncate towards zero.\<close>

definition go_quot :: "int \<Rightarrow> int \<Rightarrow> int" where
  "go_quot a b = sgn a * sgn b * (\<bar>a\<bar> div \<bar>b\<bar>)"

definition go_rem :: "int \<Rightarrow> int \<Rightarrow> int" where
  "go_rem a b = a - b * go_quot a b"

text \<open>\<open>Duration.Minutes\<close>\<close>

definition dur_Minutes :: "duration \<Rightarrow> f64" where
  "dur_Minutes d = of_int_fl (go_quot d Minute) + of_int_fl (go_rem d Minute) / of_int_fl Minute"

lemma wrap64_id: "- (2 ^ 63) \<le> x \<Longrightarrow> x < 2 ^ 63 \<Longrightarrow> wrap64 x = x"
  by (simp add: wrap64_def)

lemma minutes_dur_eq: "\<bar>n\<bar> \<le> 153722867 \<Longrightarrow> minutes_dur n = n * Minute"
  unfolding minutes_dur_def by (rule wrap64_id) (auto simp: Minute_def)

lemma minutes_dur_0 [simp]: "minutes_dur 0 = 0"
  by (simp add: minutes_dur_def wrap64_def)

lemma time_Unix_not_zero: "0 < sec \<Longrightarrow> \<not> IsZero (time_Unix sec)"
  by (simp add: IsZero_def time_Unix_def zero_time_def Second_def)

lemma Unix_of_time_Unix [simp]: "Unix_of (time_Unix sec) = sec"
  by (simp add: Unix_of_def time_Unix_def Second_def)

lemma dur_Minutes_whole:
  assumes "\<bar>n\<bar> < 2 ^ 53"
  shows "dur_Minutes (n * Minute) = Fin (of_int n)"
proof -
  have q: "go_quot (n * Minute) Minute = n"
    by (auto simp: go_quot_def Minute_def abs_mult sgn_if)
  then have "go_rem (n * Minute) Minute = 0" by (simp add: go_rem_def)
  with q assms show ?thesis
    using of_int_f64 [of 0] of_int_f64 [of Minute]
    by (simp add: dur_Minutes_def Minute_def rnd_of_int)
qed

lemma to_int_Ceil_of_int: "\<bar>n\<bar> < 2 ^ 63 \<Longrightarrow> to_int (Ceil (Fin (of_int n))) = n"
  by (auto simp: Let_def trunc_rat_def)

end
