(* ===== verification/Geo.thy ===== *)
theory Geo
  imports Float64 GoTime
begin

text \<open>
  \<open>internal/domain/model\<close>: \<open>equipment.go\<close>, the \<open>Location\<close> of \<open>resource.go\<close>, \<open>facility.go\<close> and
  \<open>region.go\<close>. The stores sort by ID and look up through an ID-to-index map; the interface their
  clients rely on is the locale \<open>id_lookup\<close>. The trigonometric functions come from the parameter
  \<open>L :: libm\<close>; \<open>time.Time.Hour\<close> depends on the zone of the time, whose UTC offset in seconds is the
  parameter \<open>zone\<close>.
\<close>

section \<open>Equipment\<close>

text \<open>\<open>EquipmentType\<close>, \<open>Endorsement\<close> and \<open>FacilityType\<close> are strings with named constants.\<close>

type_synonym EquipmentType = string
type_synonym Endorsement = string

definition EquipDryVan :: EquipmentType where "EquipDryVan = ''VAN_53''"
definition EquipReefer :: EquipmentType where "EquipReefer = ''REEFER_53''"
definition EquipFlatbed :: EquipmentType where "EquipFlatbed = ''FLATBED_53''"
definition EquipTanker :: EquipmentType where "EquipTanker = ''TANKER''"
definition EquipStepDeck :: EquipmentType where "EquipStepDeck = ''STEP_DECK''"
definition EquipAny :: EquipmentType where "EquipAny = ''ANY''"

lemmas equip_defs = EquipDryVan_def EquipReefer_def EquipFlatbed_def EquipTanker_def EquipStepDeck_def
  EquipAny_def

record Equipment =
  EqType :: EquipmentType
  EqEndorsements :: "Endorsement list"

definition HasEndorsement :: "Equipment \<Rightarrow> Endorsement \<Rightarrow> bool" where
  "HasEndorsement e target = (\<exists>end\<in>set (EqEndorsements e). EqualFold end target)"

definition CanHandle :: "Equipment \<Rightarrow> EquipmentType \<Rightarrow> Endorsement list \<Rightarrow> bool" where
  "CanHandle e requiredType requiredEndorsements =
     ((if requiredType \<noteq> '''' \<and> requiredType \<noteq> EquipAny then
         (if requiredType = EquipDryVan then EqType e = EquipDryVan \<or> EqType e = EquipReefer
          else EqType e = requiredType)
       else True)
      \<and> (\<forall>req\<in>set requiredEndorsements. HasEndorsement e req))"

section \<open>Locations\<close>

definition EarthRadiusMiles :: f64 where
  "EarthRadiusMiles = rnd (39588 / 10)"

text \<open>\<open>math.Pi / 180.0\<close>, a constant expression: exact, then rounded once.\<close>

definition deg_rad :: f64 where
  "deg_rad = rnd (17453292519943295769236907684886 / 1000000000000000000000000000000000)"

record Location =
  NodeID :: string
  Lat :: f64
  Lon :: f64

definition DistanceMiles :: "libm \<Rightarrow> Location \<Rightarrow> Location \<Rightarrow> f64" where
  "DistanceMiles L l other =
     (if feq (Lat l) (Lat other) \<and> feq (Lon l) (Lon other) then 0
      else let
        lat1Rad = Lat l * deg_rad;
        lon1Rad = Lon l * deg_rad;
        lat2Rad = Lat other * deg_rad;
        lon2Rad = Lon other * deg_rad;
        dLat = lat2Rad - lat1Rad;
        dLon = lon2Rad - lon1Rad;
        sinDLatHalf = m_sin L (dLat / Fin 2);
        sinDLonHalf = m_sin L (dLon / Fin 2);
        a = sinDLatHalf * sinDLatHalf + m_cos L lat1Rad * m_cos L lat2Rad * sinDLonHalf * sinDLonHalf;
        c = Fin 2 * m_atan2 L (m_sqrt L a) (m_sqrt L (1 - a))
      in EarthRadiusMiles * c)"

lemma DistanceMiles_self: "\<not> is_nan (Lat l) \<Longrightarrow> \<not> is_nan (Lon l) \<Longrightarrow> DistanceMiles L l l = 0"
  by (simp add: DistanceMiles_def feq_def)

section \<open>Lookup by ID\<close>

text \<open>
  \<open>id_index key xs\<close> is the map built by the constructor loops, \<open>lookup_id\<close> the guarded access
  \<open>idx, ok := index[id]; if !ok ...; xs[idx]\<close>.
\<close>

definition id_index :: "('a \<Rightarrow> string) \<Rightarrow> 'a list \<Rightarrow> (string \<rightharpoonup> nat)" where
  "id_index key xs = index_ids 0 (map key xs) Map.empty"

definition lookup_id :: "(string \<rightharpoonup> nat) \<Rightarrow> 'a list \<Rightarrow> string \<Rightarrow> 'a option" where
  "lookup_id index xs k = (case index k of None \<Rightarrow> None | Some i \<Rightarrow> Some (xs ! i))"

text \<open>What a client of a store knows of its lookup.\<close>

locale id_lookup =
  fixes items :: "'s \<Rightarrow> 'a list" and key :: "'a \<Rightarrow> string" and get :: "'s \<Rightarrow> string \<Rightarrow> 'a option"
    and wf :: "'s \<Rightarrow> bool"
  assumes get_Some: "wf s \<Longrightarrow> get s k = Some x \<Longrightarrow> x \<in> set (items s) \<and> key x = k"
    and get_None: "wf s \<Longrightarrow> get s k = None \<longleftrightarrow> k \<notin> key ` set (items s)"
begin

lemma get_iff:
  assumes "wf s" and "distinct (map key (items s))"
  shows "get s k = Some x \<longleftrightarrow> x \<in> set (items s) \<and> key x = k"
proof
  assume "x \<in> set (items s) \<and> key x = k"
  then obtain y where y: "get s k = Some y" using get_None [OF assms(1), of k] by fastforce
  with get_Some [OF assms(1) y] \<open>x \<in> set (items s) \<and> key x = k\<close> assms(2) show "get s k = Some x"
    by (metis distinct_map inj_onD)
qed (rule get_Some [OF assms(1)])

text \<open>Two stores with the same items answer alike.\<close>

lemma get_cong:
  assumes "wf s" and "wf t" and "set (items s) = set (items t)" and "distinct (map key (items s))"
    and "distinct (map key (items t))"
  shows "get s = get t"
proof
  fix k show "get s k = get t k"
    using get_iff [OF assms(1,4)] get_iff [OF assms(2,5)] assms(3) by (metis option.exhaust)
qed

end

lemma lookup_id_Some:
  "lookup_id (id_index key xs) xs k = Some x \<Longrightarrow> x \<in> set xs \<and> key x = k"
  by (auto simp: lookup_id_def id_index_def split: option.splits dest!: index_ids_empty_Some)

lemma lookup_id_None: "lookup_id (id_index key xs) xs k = None \<longleftrightarrow> k \<notin> key ` set xs"
  by (auto simp: lookup_id_def id_index_def index_ids_empty_None split: option.splits)
    (metis index_ids_empty_None list.set_map option.distinct(1))

section \<open>Facilities\<close>

record Facility =
  FacID :: string
  FacName :: string
  FacLocation :: Location
  FacType :: string
  OpenMinutesOfDay :: int
  CloseMinutesOfDay :: int
  AverageDwellMinutes :: int
  RequiresAppointment :: bool

definition time_Hour :: "int \<Rightarrow> time \<Rightarrow> int" where
  "time_Hour zone t = ((t div Second + zone) mod 86400) div 3600"

definition time_Minute :: "int \<Rightarrow> time \<Rightarrow> int" where
  "time_Minute zone t = ((t div Second + zone) mod 3600) div 60"

definition IsOpenAt :: "int \<Rightarrow> Facility \<Rightarrow> time \<Rightarrow> bool" where
  "IsOpenAt zone f t =
     (if OpenMinutesOfDay f = 0 \<and> (CloseMinutesOfDay f = 0 \<or> CloseMinutesOfDay f \<ge> 1440) then True
      else let minuteOfDay = time_Hour zone t * 60 + time_Minute zone t in
      if OpenMinutesOfDay f \<le> CloseMinutesOfDay f
      then minuteOfDay \<ge> OpenMinutesOfDay f \<and> minuteOfDay \<le> CloseMinutesOfDay f
      else minuteOfDay \<ge> OpenMinutesOfDay f \<or> minuteOfDay \<le> CloseMinutesOfDay f)"

record FacilityStore =
  fs_facilities :: "Facility list"
  fs_byID :: "string \<rightharpoonup> nat"

definition NewFacilityStore :: "Facility list \<Rightarrow> FacilityStore" where
  "NewFacilityStore facilities =
     (let copied = sort_slice (\<lambda>a b. FacID a < FacID b) facilities in
      \<lparr>fs_facilities = copied, fs_byID = id_index FacID copied\<rparr>)"

definition GetFacility :: "FacilityStore \<Rightarrow> string \<Rightarrow> Facility result" where
  "GetFacility fs k = (case lookup_id (fs_byID fs) (fs_facilities fs) k of
     None \<Rightarrow> Inl ErrFacilityNotFound | Some f \<Rightarrow> Inr f)"

definition Facility_Count :: "FacilityStore \<Rightarrow> nat" where
  "Facility_Count fs = length (fs_facilities fs)"

definition Facilities :: "FacilityStore \<Rightarrow> Facility list" where
  "Facilities fs = fs_facilities fs"

definition mathMaxFloat :: f64 where
  "mathMaxFloat = Fin ((2 ^ 53 - 1) * 2 ^ 971)"

text \<open>The state of the scan is \<open>(best, bestDist)\<close>, \<open>None\<close> while nothing was found.\<close>

definition nearest_step ::
  "libm \<Rightarrow> Location \<Rightarrow> string \<Rightarrow> Facility \<Rightarrow> Facility option \<times> f64 \<Rightarrow> Facility option \<times> f64" where
  "nearest_step L loc facType f acc =
     (case acc of (best, bestDist) \<Rightarrow>
       if facType \<noteq> '''' \<and> FacType f \<noteq> facType then acc
       else let d = DistanceMiles L loc (FacLocation f) in
         if d < bestDist then (Some f, d) else acc)"

definition FindNearest :: "libm \<Rightarrow> FacilityStore \<Rightarrow> Location \<Rightarrow> string \<Rightarrow> (Facility \<times> f64) result" where
  "FindNearest L fs loc facType =
     (if fs_facilities fs = [] then Inl ErrFacilityNotFound
      else case fold (nearest_step L loc facType) (fs_facilities fs) (None, mathMaxFloat) of
        (None, _) \<Rightarrow> Inl ErrFacilityNotFound
      | (Some best, bestDist) \<Rightarrow> Inr (best, bestDist))"

definition fs_wf :: "FacilityStore \<Rightarrow> bool" where
  "fs_wf fs \<longleftrightarrow> sorted (map FacID (fs_facilities fs)) \<and> fs_byID fs = id_index FacID (fs_facilities fs)"

lemma NewFacilityStore_wf [simp, wf_intro]: "fs_wf (NewFacilityStore fs)"
  by (simp add: fs_wf_def NewFacilityStore_def Let_def sort_slice_key_sorted)

interpretation facility_lookup: id_lookup fs_facilities FacID
  "\<lambda>fs. lookup_id (fs_byID fs) (fs_facilities fs)" fs_wf
  by unfold_locales (auto simp: fs_wf_def lookup_id_None dest: lookup_id_Some)

text \<open>The scan keeps the first facility of least distance among those it has seen.\<close>

definition eligible :: "string \<Rightarrow> Facility \<Rightarrow> bool" where
  "eligible facType f \<longleftrightarrow> facType = '''' \<or> FacType f = facType"

lemma nearest_step_eq:
  "nearest_step L loc ty f (b, d) =
     (if eligible ty f \<and> DistanceMiles L loc (FacLocation f) < d
      then (Some f, DistanceMiles L loc (FacLocation f)) else (b, d))"
  by (auto simp: nearest_step_def eligible_def Let_def)

lemma nearest_fold:
  assumes "fold (nearest_step L loc ty) fs (b, d) = (b', d')" and "\<not> is_nan d"
    and "b = None \<longrightarrow> d = mathMaxFloat" and "\<forall>f. b = Some f \<longrightarrow> d = DistanceMiles L loc (FacLocation f)"
  shows "d' \<le> d \<and>
    (\<forall>f\<in>set fs. eligible ty f \<longrightarrow> \<not> DistanceMiles L loc (FacLocation f) < d') \<and>
    (case b' of None \<Rightarrow> b = None \<and> d' = mathMaxFloat
     | Some f \<Rightarrow> d' = DistanceMiles L loc (FacLocation f) \<and>
         (b = b' \<or> (d' < d \<and> f \<in> set fs \<and> eligible ty f)))"
  using assms
proof (induction fs arbitrary: b d)
  case Nil
  then show ?case by (auto simp: le_fl_refl split: option.splits)
next
  case (Cons f fs)
  let ?dist = "DistanceMiles L loc (FacLocation f)"
  show ?case
  proof (cases "eligible ty f \<and> ?dist < d")
    case True
    then have nn: "\<not> is_nan ?dist" using less_fl_not_nan by blast
    from True Cons.prems(1) have "fold (nearest_step L loc ty) fs (Some f, ?dist) = (b', d')"
      by (simp add: nearest_step_eq)
    note step = this
    have p: "Some f = None \<longrightarrow> ?dist = mathMaxFloat"
      "\<forall>g. Some f = Some g \<longrightarrow> ?dist = DistanceMiles L loc (FacLocation g)" by simp_all
    note all_IH = Cons.IH [OF step nn p]
    note IH = all_IH [THEN conjunct1] all_IH [THEN conjunct2, THEN conjunct1]
      all_IH [THEN conjunct2, THEN conjunct2]
    have lt: "d' < d" using le_less_fl_trans [OF IH(1)] True by blast
    have "\<not> ?dist < d'" using le_less_fl_trans [OF IH(1)] less_fl_irrefl by blast
    have all: "\<forall>g\<in>set (f # fs). eligible ty g \<longrightarrow> \<not> DistanceMiles L loc (FacLocation g) < d'"
      using IH(2) \<open>\<not> ?dist < d'\<close> by simp
    show ?thesis
    proof (cases b')
      case None
      with IH(3) show ?thesis by simp
    next
      case (Some g)
      with IH(3) have "d' = DistanceMiles L loc (FacLocation g)" "g \<in> set (f # fs)" "eligible ty g"
        using True by auto
      with all lt Some less_imp_le_fl [OF lt] show ?thesis by (simp only: option.case simp_thms)
    qed
  next
    case False
    with Cons.prems(1) have "fold (nearest_step L loc ty) fs (b, d) = (b', d')"
      by (simp add: nearest_step_eq split: if_splits)
    note IH = Cons.IH [OF this Cons.prems(2-4)]
    have "\<not> ?dist < d'" if "eligible ty f"
      using IH False that less_le_fl_trans by blast
    with IH show ?thesis by (cases b') auto
  qed
qed

text \<open>
  \<open>FindNearest\<close> returns a facility of the requested type, with its distance, that no
  facility of that type is nearer than; it fails exactly when no facility of the type has a distance
  below the largest float.
\<close>

theorem FindNearest_nearest:
  "case FindNearest L fs loc ty of
     Inl e \<Rightarrow> e = ErrFacilityNotFound \<and> (\<forall>f\<in>set (fs_facilities fs). (ty = '''' \<or> FacType f = ty) \<longrightarrow>
       \<not> DistanceMiles L loc (FacLocation f) < mathMaxFloat)
   | Inr (best, d) \<Rightarrow> best \<in> set (fs_facilities fs) \<and> (ty = '''' \<or> FacType best = ty) \<and>
       d = DistanceMiles L loc (FacLocation best) \<and> d < mathMaxFloat \<and>
       (\<forall>f\<in>set (fs_facilities fs). (ty = '''' \<or> FacType f = ty) \<longrightarrow>
         \<not> DistanceMiles L loc (FacLocation f) < d)"
proof -
  obtain b d where f: "fold (nearest_step L loc ty) (fs_facilities fs) (None, mathMaxFloat) = (b, d)"
    by fastforce
  have nf: "\<not> is_nan mathMaxFloat" by (simp add: mathMaxFloat_def)
  note n = nearest_fold [OF f nf]
  show ?thesis
  proof (cases b)
    case None
    with n f show ?thesis by (auto simp: FindNearest_def eligible_def)
  next
    case (Some g)
    then have "fs_facilities fs \<noteq> []" using f by auto
    with Some n f show ?thesis by (auto simp: FindNearest_def eligible_def)
  qed
qed

definition demo_loc :: "string \<Rightarrow> rat \<Rightarrow> rat \<Rightarrow> Location" where
  "demo_loc nid lat lon = \<lparr>NodeID = nid, Lat = Fin lat, Lon = Fin lon\<rparr>"

abbreviation demo_A :: Location where "demo_A \<equiv> demo_loc ''A'' 41 (- 88)"

abbreviation demo_B :: Location where "demo_B \<equiv> demo_loc ''B'' 40 (- 80)"

text \<open>A concrete library for the witnesses: truncated series.\<close>

definition demo_libm :: libm where
  "demo_libm = \<lparr>m_sin = (\<lambda>x. x), m_cos = (\<lambda>x. 1), m_atan2 = (\<lambda>y x. y), m_sqrt = (\<lambda>x. x),
     m_exp = (\<lambda>x. 1 + x), m_log = (\<lambda>x. x - 1), m_log1p = (\<lambda>x. x), m_pow = (\<lambda>x y. x)\<rparr>"

definition demo_facility :: "string \<Rightarrow> Location \<Rightarrow> Facility" where
  "demo_facility fid loc = \<lparr>FacID = fid, FacName = fid, FacLocation = loc, FacType = ''TERMINAL'',
     OpenMinutesOfDay = 480, CloseMinutesOfDay = 1020, AverageDwellMinutes = 30, RequiresAppointment = False\<rparr>"

definition demo_store :: FacilityStore where
  "demo_store = NewFacilityStore [demo_facility ''F1'' (demo_loc ''A'' 41 (- 88))]"

lemma FindNearest_demo:
  "FindNearest L demo_store (demo_loc ''A'' 41 (- 88)) ''TERMINAL'' =
     Inr (demo_facility ''F1'' (demo_loc ''A'' 41 (- 88)), 0)"
  by (simp add: FindNearest_def demo_store_def NewFacilityStore_def sort_slice_def nearest_step_eq
      eligible_def DistanceMiles_def feq_def demo_loc_def demo_facility_def mathMaxFloat_def zero_fl_def
      Let_def)

lemma FindNearest_nearest_witness:
  "demo_facility ''F1'' (demo_loc ''A'' 41 (- 88)) \<in> set (fs_facilities demo_store) \<and> (0 :: f64) < mathMaxFloat"
proof -
  fix L
  show ?thesis
    using FindNearest_nearest [where L = L and fs = demo_store and loc = "demo_loc ''A'' 41 (- 88)"
        and ty = "''TERMINAL''"]
    unfolding FindNearest_demo by simp
qed

text \<open>
  A store answers by identity: with distinct IDs, \<open>GetFacility\<close> returns exactly the
  facility that was registered under the ID, in whatever order the facilities were supplied, and
  \<open>ErrFacilityNotFound\<close> when there is none.
\<close>

theorem GetFacility_registered:
  assumes "distinct (map FacID facilities)"
  shows "GetFacility (NewFacilityStore facilities) k =
    (case find (\<lambda>f. FacID f = k) facilities of None \<Rightarrow> Inl ErrFacilityNotFound | Some f \<Rightarrow> Inr f)"
proof -
  let ?fs = "NewFacilityStore facilities"
  have s: "set (fs_facilities ?fs) = set facilities" "distinct (map FacID (fs_facilities ?fs))"
    using assms by (simp_all add: NewFacilityStore_def Let_def)
  note get = facility_lookup.get_iff [OF NewFacilityStore_wf s(2), of k]
  note none = facility_lookup.get_None [OF NewFacilityStore_wf, of facilities k]
  show ?thesis
  proof (cases "find (\<lambda>f. FacID f = k) facilities")
    case None
    then have "k \<notin> FacID ` set facilities" by (auto simp: find_None_iff)
    with none s None show ?thesis by (simp add: GetFacility_def)
  next
    case (Some f)
    then have "f \<in> set facilities \<and> FacID f = k" by (auto simp: find_Some_iff in_set_conv_nth)
    with get [of f] s(1) Some show ?thesis by (simp add: GetFacility_def)
  qed
qed

lemma GetFacility_registered_witness:
  "GetFacility (NewFacilityStore [demo_facility ''F2'' (demo_loc ''B'' 40 (- 80)),
     demo_facility ''F1'' (demo_loc ''A'' 41 (- 88))]) ''F2'' = Inr (demo_facility ''F2'' (demo_loc ''B'' 40 (- 80)))"
  by (subst GetFacility_registered) (simp_all add: demo_facility_def)

end
