(* ===== verification/Text.thy ===== *)
theory Text
  imports Float64
begin

text \<open>
  Decimal text as \<open>fmt\<close> prints and scans it: the verbs \<open>%d\<close>, \<open>%04d\<close> and \<open>%.Nf\<close>, and \<open>%d\<close> of \<open>Sscanf\<close>
  (blanks skipped before a number, an optional sign, the range of \<open>int64\<close>), with the round trip of
  printing and scanning.
\<close>

section \<open>Decimal text\<close>

definition digit_char :: "nat \<Rightarrow> char" where
  "digit_char d = char_of (48 + d)"

definition is_digit :: "char \<Rightarrow> bool" where
  "is_digit c = (48 \<le> (of_char c :: nat) \<and> (of_char c :: nat) \<le> 57)"

fun show_nat :: "nat \<Rightarrow> string" where
  "show_nat n = (if n < 10 then [digit_char n] else show_nat (n div 10) @ [digit_char (n mod 10)])"

declare show_nat.simps [simp del]

definition show_int :: "int \<Rightarrow> string" where
  "show_int n = (if n < 0 then CHR ''-'' # show_nat (nat (- n)) else show_nat (nat n))"

definition digits_val :: "string \<Rightarrow> nat" where
  "digits_val ds = foldl (\<lambda>v c. 10 * v + (of_char c - 48)) 0 ds"

definition is_blank :: "char \<Rightarrow> bool" where
  "is_blank c = ((of_char c :: nat) \<in> {9, 11, 12, 13, 32})"

text \<open>The verb \<open>%d\<close> of \<open>Sscanf\<close>: the number read and the rest of the input.\<close>

definition scan_int :: "string \<Rightarrow> (int \<times> string) option" where
  "scan_int s =
     (let s = dropWhile is_blank s;
          neg = (case s of c # _ \<Rightarrow> c = CHR ''-'' | [] \<Rightarrow> False);
          s = (case s of c # r \<Rightarrow> if c = CHR ''-'' \<or> c = CHR ''+'' then r else s | [] \<Rightarrow> s);
          ds = takeWhile is_digit s;
          v = (if neg then - int (digits_val ds) else int (digits_val ds)) in
      if ds = [] \<or> v < - (2 ^ 63) \<or> 2 ^ 63 \<le> v then None
      else Some (v, dropWhile is_digit s))"

lemma of_char_digit [simp]: "d < 10 \<Longrightarrow> (of_char (digit_char d) :: nat) = 48 + d"
  by (simp add: digit_char_def)

lemma is_digit_digit_char [simp]: "d < 10 \<Longrightarrow> is_digit (digit_char d)"
  by (simp add: is_digit_def)

lemma show_nat_digits: "c \<in> set (show_nat n) \<Longrightarrow> is_digit c"
proof (induction n rule: show_nat.induct)
  case (1 n)
  from "1.prems" show ?case
    by (subst (asm) show_nat.simps) (auto split: if_splits intro: "1.IH")
qed

lemma show_nat_not_Nil [simp]: "show_nat n \<noteq> []"
  by (subst show_nat.simps) simp

lemma digits_val_show_nat [simp]: "digits_val (show_nat n) = n"
proof (induction n rule: show_nat.induct)
  case (1 n)
  show ?case
    by (subst show_nat.simps) (use 1 in \<open>auto simp: digits_val_def\<close>)
qed

lemma span_digits:
  assumes "\<forall>c\<in>set ds. is_digit c" and "rest = [] \<or> \<not> is_digit (hd rest)"
  shows "takeWhile is_digit (ds @ rest) = ds" "dropWhile is_digit (ds @ rest) = rest"
  using assms by (cases rest; auto simp: takeWhile_append dropWhile_append)+

lemma scan_show_int:
  assumes "- (2 ^ 63) \<le> n" and "n < 2 ^ 63" and "rest = [] \<or> \<not> is_digit (hd rest)"
  shows "scan_int (show_int n @ rest) = Some (n, rest)"
proof -
  obtain c cs where cs: "show_nat (nat \<bar>n\<bar>) = c # cs" by (meson neq_Nil_conv show_nat_not_Nil)
  have c: "is_digit c" using show_nat_digits [of c "nat \<bar>n\<bar>"] cs by simp
  then have nb: "\<not> is_blank c" "c \<noteq> CHR ''-''" "c \<noteq> CHR ''+''"
    by (auto simp: is_digit_def is_blank_def)
  have span: "takeWhile is_digit ((c # cs) @ rest) = c # cs" "dropWhile is_digit ((c # cs) @ rest) = rest"
    using span_digits [of "c # cs" rest] show_nat_digits [of _ "nat \<bar>n\<bar>"] cs assms(3) by auto
  have v: "int (digits_val (c # cs)) = \<bar>n\<bar>" using digits_val_show_nat [of "nat \<bar>n\<bar>"] cs by simp
  show ?thesis
  proof (cases "n < 0")
    case True
    then have s: "show_int n = CHR ''-'' # c # cs" using cs by (simp add: show_int_def)
    have "\<not> is_blank CHR ''-''" by (simp add: is_blank_def)
    then show ?thesis using span v True assms(1,2) by (simp add: scan_int_def s Let_def)
  next
    case False
    then have s: "show_int n = c # cs" using cs by (simp add: show_int_def)
    then show ?thesis using span v False assms(1,2) nb by (simp add: scan_int_def s Let_def)
  qed
qed

section \<open>Padding and fixed decimals\<close>

text \<open>The digits of \<open>n\<close>, filled up with zeros on the left to at least \<open>k\<close> of them.\<close>

definition show_pad :: "nat \<Rightarrow> nat \<Rightarrow> string" where
  "show_pad k n = (let s = show_nat n in replicate (k - length s) (CHR ''0'') @ s)"

text \<open>The verb \<open>%.Nf\<close>: the exact value rounded to \<open>k\<close> decimals, ties to even.\<close>

definition fmt_fixed :: "nat \<Rightarrow> f64 \<Rightarrow> string" where
  "fmt_fixed k x = (case x of
     NaN \<Rightarrow> ''NaN'' | PInf \<Rightarrow> ''+Inf'' | NInf \<Rightarrow> ''-Inf''
   | Fin q \<Rightarrow>
       (let n = nat (round_even (\<bar>q\<bar> * 10 ^ k)) in
        (if q < 0 then ''-'' else '''') @ show_nat (n div 10 ^ k) @ ''.'' @ show_pad k (n mod 10 ^ k)))"

end
