(* ===== verification/Region.thy ===== *)
theory Region
  imports Geo Text
begin

text \<open>
  \<open>internal/domain/model/region.go\<close>: named bounding boxes over a degree grid. A grid cell is named by
  \<open>fmt.Sprintf("REG_%d_%d")\<close> and read back by \<open>fmt.Sscanf\<close>; both are modelled on strings (Go's decimal
  verb, blanks skipped before a number, an optional sign, the range of \<open>int64\<close>), and the round trip
  is proved.
\<close>

section \<open>Regions\<close>

record SquareRegion =
  RegID :: string
  MinLat :: f64
  MaxLat :: f64
  MinLon :: f64
  MaxLon :: f64
  Centroid :: Location

definition Contains :: "SquareRegion \<Rightarrow> Location \<Rightarrow> bool" where
  "Contains r loc = (Lat loc \<ge> MinLat r \<and> Lat loc \<le> MaxLat r \<and> Lon loc \<ge> MinLon r \<and> Lon loc \<le> MaxLon r)"

record RegionManager =
  gridStepDeg :: f64
  rm_regions :: "SquareRegion list"
  rm_byID :: "string \<rightharpoonup> SquareRegion"

definition set_centroid :: "SquareRegion \<Rightarrow> SquareRegion" where
  "set_centroid r =
     (if feq (Lat (Centroid r)) 0 \<and> feq (Lon (Centroid r)) 0 \<and> (\<not> feq (MinLat r) 0 \<or> \<not> feq (MaxLat r) 0)
      then r\<lparr>Centroid := \<lparr>NodeID = RegID r @ ''_CTR'', Lat = (MinLat r + MaxLat r) / Fin 2,
                          Lon = (MinLon r + MaxLon r) / Fin 2\<rparr>\<rparr>
      else r)"

definition NewRegionManager :: "f64 \<Rightarrow> SquareRegion list \<Rightarrow> RegionManager" where
  "NewRegionManager step regions =
     (let step = (if step \<le> 0 then 1 else step);
          copied = map set_centroid (sort_slice (\<lambda>a b. RegID a < RegID b) regions) in
      \<lparr>gridStepDeg = step, rm_regions = copied,
       rm_byID = fold (\<lambda>r m. m(RegID r \<mapsto> r)) copied Map.empty\<rparr>)"

definition GetRegion :: "RegionManager \<Rightarrow> string \<Rightarrow> SquareRegion option" where
  "GetRegion rm k = rm_byID rm k"

definition cell_id :: "int \<Rightarrow> int \<Rightarrow> string" where
  "cell_id latIdx lonIdx = ''REG_'' @ show_int latIdx @ ''_'' @ show_int lonIdx"

definition GetRegionID :: "RegionManager \<Rightarrow> Location \<Rightarrow> string" where
  "GetRegionID rm loc =
     (case find (\<lambda>r. Contains r loc) (rm_regions rm) of
        Some r \<Rightarrow> RegID r
      | None \<Rightarrow> cell_id (to_int (Floor (Lat loc / gridStepDeg rm))) (to_int (Floor (Lon loc / gridStepDeg rm))))"

definition scan_cell :: "string \<Rightarrow> (int \<times> int) option" where
  "scan_cell s =
     (if take 4 s \<noteq> ''REG_'' then None
      else case scan_int (drop 4 s) of
        None \<Rightarrow> None
      | Some (latIdx, rest) \<Rightarrow>
          (case rest of
             [] \<Rightarrow> None
           | c # rest' \<Rightarrow>
               if c \<noteq> CHR ''_'' then None
               else (case scan_int rest' of None \<Rightarrow> None | Some (lonIdx, _) \<Rightarrow> Some (latIdx, lonIdx))))"

definition getCentroid :: "RegionManager \<Rightarrow> string \<Rightarrow> Location option" where
  "getCentroid rm regionID =
     (case rm_byID rm regionID of
        Some r \<Rightarrow> Some (Centroid r)
      | None \<Rightarrow>
          (case scan_cell regionID of
             Some (latIdx, lonIdx) \<Rightarrow>
               Some \<lparr>NodeID = regionID @ ''_CTR'',
                     Lat = (of_int_fl latIdx + Fin (1 / 2)) * gridStepDeg rm,
                     Lon = (of_int_fl lonIdx + Fin (1 / 2)) * gridStepDeg rm\<rparr>
           | None \<Rightarrow> None))"

definition DistanceBetweenRegions :: "libm \<Rightarrow> RegionManager \<Rightarrow> string \<Rightarrow> string \<Rightarrow> f64" where
  "DistanceBetweenRegions L rm r1ID r2ID =
     (if r1ID = r2ID then 0
      else case (getCentroid rm r1ID, getCentroid rm r2ID) of
        (Some loc1, Some loc2) \<Rightarrow> DistanceMiles L loc1 loc2
      | _ \<Rightarrow> 0)"

section \<open>Properties\<close>

lemma scan_cell_id:
  assumes "- (2 ^ 63) \<le> a" "a < 2 ^ 63" "- (2 ^ 63) \<le> b" "b < 2 ^ 63"
  shows "scan_cell (cell_id a b) = Some (a, b)"
proof -
  have nd: "\<not> is_digit CHR ''_''" by (simp add: is_digit_def)
  have "scan_int (show_int a @ ''_'' @ show_int b) = Some (a, ''_'' @ show_int b)"
    using scan_show_int [OF assms(1,2), of "''_'' @ show_int b"] nd by simp
  moreover have "scan_int (show_int b) = Some (b, [])"
    using scan_show_int [OF assms(3,4), of "[]"] by simp
  ultimately show ?thesis by (simp add: scan_cell_def cell_id_def)
qed

lemma to_int_range: "- (2 ^ 63) \<le> to_int x" "to_int x < 2 ^ 63"
  by (cases x; simp add: Let_def)+

text \<open>
  Every location has a region, and the region has a centroid: a location outside the
  named boxes is mapped to the name of its grid cell, and reading that name back gives the centre of
  the same cell.
\<close>

theorem GetRegionID_centroid:
  assumes "\<forall>r\<in>set (rm_regions rm). \<not> Contains r loc" and "rm_byID rm (GetRegionID rm loc) = None"
  shows "getCentroid rm (GetRegionID rm loc) =
    Some \<lparr>NodeID = GetRegionID rm loc @ ''_CTR'',
          Lat = (of_int_fl (to_int (Floor (Lat loc / gridStepDeg rm))) + Fin (1 / 2)) * gridStepDeg rm,
          Lon = (of_int_fl (to_int (Floor (Lon loc / gridStepDeg rm))) + Fin (1 / 2)) * gridStepDeg rm\<rparr>"
proof -
  have "find (\<lambda>r. Contains r loc) (rm_regions rm) = None" using assms(1) by (simp add: find_None_iff)
  then have "GetRegionID rm loc =
    cell_id (to_int (Floor (Lat loc / gridStepDeg rm))) (to_int (Floor (Lon loc / gridStepDeg rm)))"
    by (simp add: GetRegionID_def)
  then show ?thesis using assms(2) by (simp add: getCentroid_def scan_cell_id [OF to_int_range to_int_range])
qed

lemma GetRegionID_centroid_witness:
  "getCentroid (NewRegionManager 1 []) (GetRegionID (NewRegionManager 1 []) (demo_loc ''A'' (83 / 2) (- 175 / 2)))
    = Some \<lparr>NodeID = GetRegionID (NewRegionManager 1 []) (demo_loc ''A'' (83 / 2) (- 175 / 2)) @ ''_CTR'',
        Lat = (of_int_fl (to_int (Floor (Lat (demo_loc ''A'' (83 / 2) (- 175 / 2)) / gridStepDeg (NewRegionManager 1 []))))
          + Fin (1 / 2)) * gridStepDeg (NewRegionManager 1 []),
        Lon = (of_int_fl (to_int (Floor (Lon (demo_loc ''A'' (83 / 2) (- 175 / 2)) / gridStepDeg (NewRegionManager 1 []))))
          + Fin (1 / 2)) * gridStepDeg (NewRegionManager 1 [])\<rparr>"
  by (rule GetRegionID_centroid) (simp_all add: NewRegionManager_def Let_def)

end
