(* ===== verification/HosPolicy.thy ===== *)
theory HosPolicy
  imports GoTime
begin

text \<open>
  \<open>internal/domain/model/hos/policy.go\<close> and \<open>events.go\<close>: the statutory parameters, their
  validation and the four canonical rule sets, the dispatch events and their constructors.
\<close>

section \<open>Policy specifications\<close>

record PolicySpecs =
  SpecsName :: string
  RestBreakMin :: int
  DailyResetMin :: int
  WeeklyResetMin :: int
  MaxHygieneMin :: int
  MaxDrivingMin :: int
  MaxShiftMin :: int
  MaxCycleMin :: int
  CycleLengthDays :: int
  MinSleeperBerthBreakMin :: int
  MinSleeperBerthResetMin :: int
  AdverseConditionsExtensionMin :: int

definition ValidatePolicy :: "PolicySpecs \<Rightarrow> unit result" where
  "ValidatePolicy ps =
     (if RestBreakMin ps \<le> 0 \<or> DailyResetMin ps \<le> 0 \<or> WeeklyResetMin ps \<le> 0
      then Inl ErrInvalidPolicySpecs
      else if MaxHygieneMin ps \<le> 0 \<or> MaxDrivingMin ps \<le> 0 \<or> MaxShiftMin ps \<le> 0 \<or> MaxCycleMin ps \<le> 0
      then Inl ErrInvalidPolicySpecs
      else if CycleLengthDays ps \<le> 0
      then Inl ErrInvalidPolicySpecs
      else if MaxDrivingMin ps > MaxShiftMin ps
      then Inl ErrInvalidPolicySpecs
      else Inr ())"

text \<open>The zero value of \<open>PolicySpecs\<close>, which a driver literal without that field has.\<close>

definition NoPolicySpecs :: PolicySpecs where
  "NoPolicySpecs = \<lparr>SpecsName = '''', RestBreakMin = 0, DailyResetMin = 0, WeeklyResetMin = 0, MaxHygieneMin = 0,
     MaxDrivingMin = 0, MaxShiftMin = 0, MaxCycleMin = 0, CycleLengthDays = 0, MinSleeperBerthBreakMin = 0,
     MinSleeperBerthResetMin = 0, AdverseConditionsExtensionMin = 0\<rparr>"

definition USPolicySpecs :: PolicySpecs where
  "USPolicySpecs = \<lparr>SpecsName = ''US_SOLO_70_8'', RestBreakMin = 30, DailyResetMin = 600,
     WeeklyResetMin = 2040, MaxHygieneMin = 480, MaxDrivingMin = 660, MaxShiftMin = 840,
     MaxCycleMin = 4200, CycleLengthDays = 8, MinSleeperBerthBreakMin = 120,
     MinSleeperBerthResetMin = 420, AdverseConditionsExtensionMin = 120\<rparr>"

definition USTeamPolicySpecs :: PolicySpecs where
  "USTeamPolicySpecs = \<lparr>SpecsName = ''US_TEAM_140_8'', RestBreakMin = 30, DailyResetMin = 120,
     WeeklyResetMin = 1560, MaxHygieneMin = 480, MaxDrivingMin = 1320, MaxShiftMin = 1680,
     MaxCycleMin = 8400, CycleLengthDays = 8, MinSleeperBerthBreakMin = 120,
     MinSleeperBerthResetMin = 420, AdverseConditionsExtensionMin = 120\<rparr>"

definition CanadianPolicySpecs :: PolicySpecs where
  "CanadianPolicySpecs = \<lparr>SpecsName = ''CANADIAN_SOLO_70_7'', RestBreakMin = 480, DailyResetMin = 480,
     WeeklyResetMin = 2160, MaxHygieneMin = 840, MaxDrivingMin = 780, MaxShiftMin = 960,
     MaxCycleMin = 4200, CycleLengthDays = 7, MinSleeperBerthBreakMin = 120,
     MinSleeperBerthResetMin = 480, AdverseConditionsExtensionMin = 120\<rparr>"

definition CanadianTeamPolicySpecs :: PolicySpecs where
  "CanadianTeamPolicySpecs = \<lparr>SpecsName = ''CANADIAN_TEAM_140_7'', RestBreakMin = 30, DailyResetMin = 30,
     WeeklyResetMin = 2160, MaxHygieneMin = 480, MaxDrivingMin = 480, MaxShiftMin = 480,
     MaxCycleMin = 8400, CycleLengthDays = 7, MinSleeperBerthBreakMin = 120,
     MinSleeperBerthResetMin = 480, AdverseConditionsExtensionMin = 120\<rparr>"

lemma ValidatePolicy_ok_iff:
  "ValidatePolicy ps = Inr u \<longleftrightarrow>
     0 < RestBreakMin ps \<and> 0 < DailyResetMin ps \<and> 0 < WeeklyResetMin ps \<and> 0 < MaxHygieneMin ps \<and>
     0 < MaxDrivingMin ps \<and> 0 < MaxShiftMin ps \<and> 0 < MaxCycleMin ps \<and> 0 < CycleLengthDays ps \<and>
     MaxDrivingMin ps \<le> MaxShiftMin ps"
  by (auto simp: ValidatePolicy_def)

lemma US_specs_valid: "ValidatePolicy USPolicySpecs = Inr ()"
  by (simp add: ValidatePolicy_ok_iff USPolicySpecs_def)

section \<open>Events\<close>

text \<open>\<open>EventOther n\<close> stands for an \<open>EventType\<close> integer outside the declared constants.\<close>

datatype EventType =
    EventDrive | EventLoading | EventUnloading | EventRest | EventHold | EventBorderCrossing
  | EventOther int

fun EventType_String :: "EventType \<Rightarrow> string" where
  "EventType_String EventDrive = ''DRIVE''"
| "EventType_String EventLoading = ''LOADING''"
| "EventType_String EventUnloading = ''UNLOADING''"
| "EventType_String EventRest = ''REST''"
| "EventType_String EventHold = ''HOLD''"
| "EventType_String EventBorderCrossing = ''BORDER_CROSSING''"
| "EventType_String (EventOther _) = ''UNKNOWN''"

record Event =
  EvType :: EventType
  DurationMin :: int
  DistanceMi :: f64
  IsSleeper :: bool
  EvLocationID :: string
  Description :: string

definition DriveEvent :: "int \<Rightarrow> f64 \<Rightarrow> string \<Rightarrow> Event" where
  "DriveEvent d miles loc = \<lparr>EvType = EventDrive, DurationMin = d, DistanceMi = miles, IsSleeper = False,
     EvLocationID = loc, Description = ''Commercial Driving''\<rparr>"

definition LoadingEvent :: "int \<Rightarrow> string \<Rightarrow> Event" where
  "LoadingEvent d loc = \<lparr>EvType = EventLoading, DurationMin = d, DistanceMi = 0, IsSleeper = False,
     EvLocationID = loc, Description = ''Freight Loading''\<rparr>"

definition UnloadingEvent :: "int \<Rightarrow> string \<Rightarrow> Event" where
  "UnloadingEvent d loc = \<lparr>EvType = EventUnloading, DurationMin = d, DistanceMi = 0, IsSleeper = False,
     EvLocationID = loc, Description = ''Freight Unloading''\<rparr>"

definition RestEvent :: "int \<Rightarrow> bool \<Rightarrow> string \<Rightarrow> Event" where
  "RestEvent d sl loc = \<lparr>EvType = EventRest, DurationMin = d, DistanceMi = 0, IsSleeper = sl,
     EvLocationID = loc, Description = (if sl then ''Sleeper Berth Rest'' else ''Off-Duty Rest'')\<rparr>"

definition HoldEvent :: "int \<Rightarrow> string \<Rightarrow> Event" where
  "HoldEvent d loc = \<lparr>EvType = EventHold, DurationMin = d, DistanceMi = 0, IsSleeper = False,
     EvLocationID = loc, Description = ''Facility Hold''\<rparr>"

definition BorderCrossingEvent :: "int \<Rightarrow> string \<Rightarrow> Event" where
  "BorderCrossingEvent d loc = \<lparr>EvType = EventBorderCrossing, DurationMin = d, DistanceMi = 0,
     IsSleeper = False, EvLocationID = loc, Description = ''Border Crossing''\<rparr>"

lemmas event_defs = DriveEvent_def LoadingEvent_def UnloadingEvent_def RestEvent_def HoldEvent_def
  BorderCrossingEvent_def

end
