(* ===== verification/HosClocks.thy ===== *)
theory HosClocks
  imports HosPolicy
begin

text \<open>
  \<open>internal/domain/model/hos/clocks.go\<close>: the regulatory clocks of a driver and the three duty
  operations. \<open>Clone\<close> is the identity on values. \<open>clocks_legal\<close> is the statutory invariant: every
  remaining clock lies between zero and its limit, and the driving done since the last qualifying
  break plus the hygiene clock is exactly the continuous-driving limit.
\<close>

section \<open>State and operations\<close>

datatype DutyStatus = StatusOffDuty | StatusSleeperBerth | StatusDriving | StatusOnDutyNotDriving

fun DutyStatus_String :: "DutyStatus \<Rightarrow> string" where
  "DutyStatus_String StatusOffDuty = ''OFF_DUTY''"
| "DutyStatus_String StatusSleeperBerth = ''SLEEPER_BERTH''"
| "DutyStatus_String StatusDriving = ''DRIVING''"
| "DutyStatus_String StatusOnDutyNotDriving = ''ON_DUTY_NOT_DRIVING''"

record DriverClocks =
  now :: time
  remainingHygieneMin :: int
  remainingDrivingMin :: int
  remainingShiftMin :: int
  remainingCycleMin :: int
  currentDutyStatus :: DutyStatus
  consecutiveOffDutyMin :: int
  consecutiveDrivingMin :: int
  dutyMinutesByDay :: "int list"
  currentDayIndex :: int
  hasPendingSplit :: bool
  pendingSplitMin :: int
  pendingSplitIsSleeper :: bool
  hasAdverseConditions :: bool
  drivingCeilingExtension :: int

definition NewDriverClocks :: "PolicySpecs \<Rightarrow> time \<Rightarrow> DriverClocks" where
  "NewDriverClocks specs startTime =
     (let cycleDays = (if CycleLengthDays specs \<le> 0 then 8 else CycleLengthDays specs) in
      \<lparr>now = startTime,
       remainingHygieneMin = MaxHygieneMin specs,
       remainingDrivingMin = MaxDrivingMin specs,
       remainingShiftMin = MaxShiftMin specs,
       remainingCycleMin = MaxCycleMin specs,
       currentDutyStatus = StatusOffDuty,
       consecutiveOffDutyMin = DailyResetMin specs,
       consecutiveDrivingMin = 0,
       dutyMinutesByDay = replicate (nat cycleDays) 0,
       currentDayIndex = 0,
       hasPendingSplit = False, pendingSplitMin = 0, pendingSplitIsSleeper = False,
       hasAdverseConditions = False, drivingCeilingExtension = 0\<rparr>)"

definition MaxImmediateDriveMin :: "DriverClocks \<Rightarrow> int" where
  "MaxImmediateDriveMin c =
     (let m = remainingHygieneMin c;
          m = (if remainingDrivingMin c < m then remainingDrivingMin c else m);
          m = (if remainingShiftMin c < m then remainingShiftMin c else m);
          m = (if remainingCycleMin c < m then remainingCycleMin c else m)
      in if m < 0 then 0 else m)"

text \<open>\<open>next.dutyMinutesByDay[next.currentDayIndex] += d\<close>, which panics out of range.\<close>

definition add_duty_today :: "int \<Rightarrow> DriverClocks \<Rightarrow> DriverClocks result" where
  "add_duty_today d c =
     (let i = currentDayIndex c in
      if 0 \<le> i \<and> i < int (length (dutyMinutesByDay c))
      then Inr (c\<lparr>dutyMinutesByDay := (dutyMinutesByDay c)[nat i := dutyMinutesByDay c ! nat i + d]\<rparr>)
      else Inl (Panic ''index out of range''))"

definition ApplyDrive :: "DriverClocks \<Rightarrow> int \<Rightarrow> PolicySpecs \<Rightarrow> DriverClocks result" where
  "ApplyDrive c d specs =
     (if d \<le> 0 then Inr c
      else if d > MaxImmediateDriveMin c then Inl ErrHOSViolation
      else add_duty_today d
        (c\<lparr>now := time_Add (now c) (minutes_dur d),
          currentDutyStatus := StatusDriving,
          consecutiveOffDutyMin := 0,
          consecutiveDrivingMin := consecutiveDrivingMin c + d,
          remainingHygieneMin := remainingHygieneMin c - d,
          remainingDrivingMin := remainingDrivingMin c - d,
          remainingShiftMin := remainingShiftMin c - d,
          remainingCycleMin := remainingCycleMin c - d\<rparr>))"

definition ApplyOnDutyNotDriving :: "DriverClocks \<Rightarrow> int \<Rightarrow> PolicySpecs \<Rightarrow> DriverClocks result" where
  "ApplyOnDutyNotDriving c d specs =
     (if d \<le> 0 then Inr c
      else let maxDuty = (if remainingCycleMin c < remainingShiftMin c
                          then remainingCycleMin c else remainingShiftMin c) in
      if d > maxDuty then Inl ErrHOSViolation
      else add_duty_today d
        (c\<lparr>now := time_Add (now c) (minutes_dur d),
          currentDutyStatus := StatusOnDutyNotDriving,
          consecutiveOffDutyMin := 0,
          remainingShiftMin := remainingShiftMin c - d,
          remainingCycleMin := remainingCycleMin c - d\<rparr>))"

text \<open>
  \<open>ApplyOffDuty\<close> always returns a nil error; \<open>off_duty\<close> is the clocks it returns. The steps are
  numbered as in the source: cycle restart, daily reset, sleeper-berth split, short break.
\<close>

definition off_duty :: "DriverClocks \<Rightarrow> int \<Rightarrow> bool \<Rightarrow> PolicySpecs \<Rightarrow> DriverClocks" where
  "off_duty c d isSleeper specs =
     (if d \<le> 0 then c
      else let next = c\<lparr>now := time_Add (now c) (minutes_dur d),
          currentDutyStatus := (if isSleeper then StatusSleeperBerth else StatusOffDuty),
          consecutiveOffDutyMin := consecutiveOffDutyMin c + d\<rparr>;
        isLongSleeper = (isSleeper \<and> d \<ge> MinSleeperBerthResetMin specs);
        isShortBreak = (d \<ge> MinSleeperBerthBreakMin specs)
      in
      if consecutiveOffDutyMin next \<ge> WeeklyResetMin specs then
        next\<lparr>remainingCycleMin := MaxCycleMin specs,
          remainingDrivingMin := MaxDrivingMin specs + drivingCeilingExtension next,
          remainingShiftMin := MaxShiftMin specs, remainingHygieneMin := MaxHygieneMin specs,
          consecutiveDrivingMin := 0, hasPendingSplit := False, pendingSplitMin := 0,
          pendingSplitIsSleeper := False\<rparr>
      else if consecutiveOffDutyMin next \<ge> DailyResetMin specs then
        next\<lparr>remainingDrivingMin := MaxDrivingMin specs + drivingCeilingExtension next,
          remainingShiftMin := MaxShiftMin specs, remainingHygieneMin := MaxHygieneMin specs,
          consecutiveDrivingMin := 0, hasPendingSplit := False, pendingSplitMin := 0,
          pendingSplitIsSleeper := False\<rparr>
      else if isLongSleeper \<or> isShortBreak then
        (let hasLong = (pendingSplitIsSleeper next \<and> pendingSplitMin next \<ge> MinSleeperBerthResetMin specs)
               \<or> isLongSleeper;
             hasShort = (pendingSplitMin next \<ge> MinSleeperBerthBreakMin specs) \<and> isShortBreak;
             totalCombined = pendingSplitMin next + d
         in if hasPendingSplit next \<and> hasLong \<and> hasShort \<and> totalCombined \<ge> DailyResetMin specs then
           next\<lparr>remainingDrivingMin := MaxDrivingMin specs + drivingCeilingExtension next,
             remainingShiftMin := MaxShiftMin specs, remainingHygieneMin := MaxHygieneMin specs,
             consecutiveDrivingMin := 0, hasPendingSplit := True, pendingSplitMin := d,
             pendingSplitIsSleeper := isSleeper\<rparr>
         else
           next\<lparr>hasPendingSplit := True, pendingSplitMin := d, pendingSplitIsSleeper := isSleeper,
             remainingHygieneMin := MaxHygieneMin specs, consecutiveDrivingMin := 0\<rparr>)
      else
        (let next = (if d \<ge> RestBreakMin specs
                     then next\<lparr>remainingHygieneMin := MaxHygieneMin specs, consecutiveDrivingMin := 0\<rparr>
                     else next)
         in next\<lparr>remainingShiftMin := max 0 (remainingShiftMin next - d)\<rparr>))"

definition ApplyOffDuty :: "DriverClocks \<Rightarrow> int \<Rightarrow> bool \<Rightarrow> PolicySpecs \<Rightarrow> DriverClocks result" where
  "ApplyOffDuty c d isSleeper specs = Inr (off_duty c d isSleeper specs)"

section \<open>Invariants\<close>

definition clocks_safe :: "DriverClocks \<Rightarrow> bool" where
  "clocks_safe c \<longleftrightarrow> 0 \<le> currentDayIndex c \<and> currentDayIndex c < int (length (dutyMinutesByDay c)) \<and>
     0 \<le> drivingCeilingExtension c \<and> 0 \<le> consecutiveOffDutyMin c"

definition clocks_legal :: "PolicySpecs \<Rightarrow> DriverClocks \<Rightarrow> bool" where
  "clocks_legal specs c \<longleftrightarrow> clocks_safe c \<and>
     0 \<le> remainingHygieneMin c \<and>
     consecutiveDrivingMin c + remainingHygieneMin c = MaxHygieneMin specs \<and> 0 \<le> consecutiveDrivingMin c \<and>
     0 \<le> remainingDrivingMin c \<and>
     remainingDrivingMin c \<le> MaxDrivingMin specs + drivingCeilingExtension c \<and>
     0 \<le> remainingShiftMin c \<and> remainingShiftMin c \<le> MaxShiftMin specs \<and>
     0 \<le> remainingCycleMin c \<and> remainingCycleMin c \<le> MaxCycleMin specs"

lemma clocks_legal_safe: "clocks_legal specs c \<Longrightarrow> clocks_safe c"
  by (simp add: clocks_legal_def)

lemma MaxImmediateDriveMin_min:
  "MaxImmediateDriveMin c = max 0 (min (min (remainingHygieneMin c) (remainingDrivingMin c))
     (min (remainingShiftMin c) (remainingCycleMin c)))"
  by (simp add: MaxImmediateDriveMin_def Let_def min_def max_def)

lemma MaxImmediateDriveMin_nonneg [simp]: "0 \<le> MaxImmediateDriveMin c"
  by (simp add: MaxImmediateDriveMin_min)

lemma le_MaxImmediateDriveMin:
  "0 < d \<Longrightarrow> d \<le> MaxImmediateDriveMin c \<longleftrightarrow>
     d \<le> remainingHygieneMin c \<and> d \<le> remainingDrivingMin c \<and> d \<le> remainingShiftMin c \<and> d \<le> remainingCycleMin c"
  by (auto simp: MaxImmediateDriveMin_min)

lemma NewDriverClocks_legal:
  "ValidatePolicy specs = Inr u \<Longrightarrow> clocks_legal specs (NewDriverClocks specs t)"
  by (simp add: ValidatePolicy_ok_iff clocks_legal_def clocks_safe_def NewDriverClocks_def)

text \<open>A successful drive is within every limit and moves every clock by exactly its duration.\<close>

lemma ApplyDrive_Inr:
  assumes "ApplyDrive c d specs = Inr c'" and "0 < d"
  shows "d \<le> MaxImmediateDriveMin c"
    and "now c' = now c + minutes_dur d"
    and "remainingHygieneMin c' = remainingHygieneMin c - d"
    and "remainingDrivingMin c' = remainingDrivingMin c - d"
    and "remainingShiftMin c' = remainingShiftMin c - d"
    and "remainingCycleMin c' = remainingCycleMin c - d"
    and "consecutiveDrivingMin c' = consecutiveDrivingMin c + d"
    and "consecutiveOffDutyMin c' = 0"
    and "drivingCeilingExtension c' = drivingCeilingExtension c"
    and "currentDayIndex c' = currentDayIndex c"
    and "length (dutyMinutesByDay c') = length (dutyMinutesByDay c)"
  using assms by (auto simp: ApplyDrive_def add_duty_today_def time_Add_def Let_def split: if_splits)

lemma ApplyDrive_total:
  "clocks_safe c \<Longrightarrow> d \<le> MaxImmediateDriveMin c \<Longrightarrow> \<exists>c'. ApplyDrive c d specs = Inr c'"
  by (auto simp: ApplyDrive_def add_duty_today_def clocks_safe_def Let_def)

lemma ApplyDrive_safe: "ApplyDrive c d specs = Inr c' \<Longrightarrow> clocks_safe c \<Longrightarrow> clocks_safe c'"
  by (auto simp: ApplyDrive_def add_duty_today_def clocks_safe_def Let_def split: if_splits)

lemma ApplyDrive_legal [wf_intro]:
  assumes "ApplyDrive c d specs = Inr c'" and "clocks_legal specs c"
  shows "clocks_legal specs c'"
proof (cases "0 < d")
  case True
  note f = ApplyDrive_Inr [OF assms(1) True]
  have "d \<le> remainingHygieneMin c" "d \<le> remainingDrivingMin c" "d \<le> remainingShiftMin c"
    "d \<le> remainingCycleMin c"
    using f(1) le_MaxImmediateDriveMin [OF True] by auto
  with assms(2) ApplyDrive_safe [OF assms(1)] f True show ?thesis by (simp add: clocks_legal_def)
qed (use assms in \<open>simp add: ApplyDrive_def\<close>)

lemma ApplyOnDuty_Inr:
  assumes "ApplyOnDutyNotDriving c d specs = Inr c'" and "0 < d"
  shows "d \<le> min (remainingShiftMin c) (remainingCycleMin c)"
    and "now c' = now c + minutes_dur d"
    and "remainingHygieneMin c' = remainingHygieneMin c"
    and "remainingDrivingMin c' = remainingDrivingMin c"
    and "remainingShiftMin c' = remainingShiftMin c - d"
    and "remainingCycleMin c' = remainingCycleMin c - d"
    and "consecutiveDrivingMin c' = consecutiveDrivingMin c"
    and "consecutiveOffDutyMin c' = 0"
    and "drivingCeilingExtension c' = drivingCeilingExtension c"
    and "currentDayIndex c' = currentDayIndex c"
    and "length (dutyMinutesByDay c') = length (dutyMinutesByDay c)"
  using assms
  by (auto simp: ApplyOnDutyNotDriving_def add_duty_today_def time_Add_def Let_def split: if_splits)

lemma ApplyOnDuty_total:
  "clocks_safe c \<Longrightarrow> d \<le> min (remainingShiftMin c) (remainingCycleMin c) \<Longrightarrow>
     \<exists>c'. ApplyOnDutyNotDriving c d specs = Inr c'"
  by (auto simp: ApplyOnDutyNotDriving_def add_duty_today_def clocks_safe_def Let_def)

lemma ApplyOnDuty_safe: "ApplyOnDutyNotDriving c d specs = Inr c' \<Longrightarrow> clocks_safe c \<Longrightarrow> clocks_safe c'"
  by (auto simp: ApplyOnDutyNotDriving_def add_duty_today_def clocks_safe_def Let_def split: if_splits)

lemma ApplyOnDuty_legal [wf_intro]:
  assumes "ApplyOnDutyNotDriving c d specs = Inr c'" and "clocks_legal specs c"
  shows "clocks_legal specs c'"
proof (cases "0 < d")
  case True
  with assms(2) ApplyOnDuty_safe [OF assms(1)] ApplyOnDuty_Inr [OF assms(1) True]
  show ?thesis by (simp add: clocks_legal_def)
qed (use assms in \<open>simp add: ApplyOnDutyNotDriving_def\<close>)

lemma off_duty_frame [simp]:
  "drivingCeilingExtension (off_duty c d sl specs) = drivingCeilingExtension c"
  "currentDayIndex (off_duty c d sl specs) = currentDayIndex c"
  "dutyMinutesByDay (off_duty c d sl specs) = dutyMinutesByDay c"
  by (simp_all add: off_duty_def Let_def)

lemma off_duty_now: "0 < d \<Longrightarrow> now (off_duty c d sl specs) = now c + minutes_dur d"
  by (simp add: off_duty_def Let_def time_Add_def)

lemma off_duty_consec: "0 < d \<Longrightarrow> consecutiveOffDutyMin (off_duty c d sl specs) = consecutiveOffDutyMin c + d"
  by (simp add: off_duty_def Let_def)

lemma off_duty_noop [simp]: "d \<le> 0 \<Longrightarrow> off_duty c d sl specs = c"
  by (simp add: off_duty_def)

lemma off_duty_safe: "clocks_safe c \<Longrightarrow> clocks_safe (off_duty c d sl specs)"
  by (cases "0 < d") (simp_all add: clocks_safe_def off_duty_consec)

lemma off_duty_cycle_mono:
  "remainingCycleMin c \<le> MaxCycleMin specs \<Longrightarrow> remainingCycleMin c \<le> remainingCycleMin (off_duty c d sl specs)"
  by (simp add: off_duty_def Let_def)

lemma off_duty_cycle: "remainingCycleMin (off_duty c d sl specs) \<in> {remainingCycleMin c, MaxCycleMin specs}"
  by (simp add: off_duty_def Let_def)

text \<open>A rest that completes the cycle restart or the daily reset restores the clocks.\<close>

lemma off_duty_weekly:
  assumes "0 < d" and "WeeklyResetMin specs \<le> consecutiveOffDutyMin c + d"
  shows "remainingCycleMin (off_duty c d sl specs) = MaxCycleMin specs"
    and "remainingDrivingMin (off_duty c d sl specs) = MaxDrivingMin specs + drivingCeilingExtension c"
    and "remainingShiftMin (off_duty c d sl specs) = MaxShiftMin specs"
    and "remainingHygieneMin (off_duty c d sl specs) = MaxHygieneMin specs"
  using assms by (simp_all add: off_duty_def Let_def)

lemma off_duty_daily:
  assumes "0 < d" and "DailyResetMin specs \<le> consecutiveOffDutyMin c + d"
  shows "remainingDrivingMin (off_duty c d sl specs) = MaxDrivingMin specs + drivingCeilingExtension c"
    and "remainingShiftMin (off_duty c d sl specs) = MaxShiftMin specs"
    and "remainingHygieneMin (off_duty c d sl specs) = MaxHygieneMin specs"
  using assms by (simp_all add: off_duty_def Let_def)

lemma off_duty_break:
  assumes "0 < d" and "RestBreakMin specs \<le> d"
  shows "remainingHygieneMin (off_duty c d sl specs) = MaxHygieneMin specs"
    and "remainingDrivingMin (off_duty c d sl specs) \<in>
      {remainingDrivingMin c, MaxDrivingMin specs + drivingCeilingExtension c}"
  using assms by (simp_all add: off_duty_def Let_def)

lemma off_duty_legal [wf_intro]:
  assumes "ValidatePolicy specs = Inr u" and "clocks_legal specs c"
  shows "clocks_legal specs (off_duty c d sl specs)"
proof -
  have s: "clocks_safe (off_duty c d sl specs)" using assms(2) by (simp add: clocks_legal_safe off_duty_safe)
  show ?thesis using assms s unfolding ValidatePolicy_ok_iff clocks_legal_def
    by (simp add: off_duty_def Let_def clocks_safe_def)
qed

text \<open>The sleeper-berth split: a pending and a current period that pair restore the daily clocks.\<close>

lemma off_duty_split_pair:
  assumes "0 < d" and "consecutiveOffDutyMin c + d < DailyResetMin specs"
    and "consecutiveOffDutyMin c + d < WeeklyResetMin specs"
    and "hasPendingSplit c" and "MinSleeperBerthBreakMin specs \<le> pendingSplitMin c"
    and "MinSleeperBerthBreakMin specs \<le> d"
    and "(pendingSplitIsSleeper c \<and> MinSleeperBerthResetMin specs \<le> pendingSplitMin c) \<or>
         (sl \<and> MinSleeperBerthResetMin specs \<le> d)"
    and "DailyResetMin specs \<le> pendingSplitMin c + d"
  shows "remainingDrivingMin (off_duty c d sl specs) = MaxDrivingMin specs + drivingCeilingExtension c \<and>
    remainingShiftMin (off_duty c d sl specs) = MaxShiftMin specs \<and>
    remainingCycleMin (off_duty c d sl specs) = remainingCycleMin c \<and>
    hasPendingSplit (off_duty c d sl specs) \<and> pendingSplitMin (off_duty c d sl specs) = d"
  using assms by (simp add: off_duty_def Let_def)

end
