(* ===== verification/HosSim.thy ===== *)
theory HosSim
  imports HosClocks
begin

text \<open>
  \<open>internal/domain/model/hos/simulator.go\<close>, \<open>Simulate\<close> and \<open>insertRequiredReset\<close>: the events of a
  dispatch are executed against the clocks, each duty event in chunks that fit the clocks, with
  statutory rests inserted when a limit is reached. The local variables of \<open>Simulate\<close> are the record
  \<open>sim_state\<close>. The chunk loops end only when every reset makes progress, so they are
  \<open>partial_function\<close>s into \<open>option\<close> (\<open>None\<close>: the loop does not end), and their termination under valid
  specifications is a theorem. The loop for driving and the loop for on-duty work share the locale
  \<open>chunk_loop\<close>, in which totality and the invariants of the run are proved once.
\<close>

section \<open>The simulator\<close>

record TimelineEntry =
  StartTime :: time
  EndTime :: time
  TEvent :: Event
  ClocksSnapshot :: DriverClocks

record sim_state =
  clocks :: DriverClocks
  timeline :: "TimelineEntry list"
  totalDuration :: int
  totalDrive :: int
  totalRest :: int
  totalDuty :: int
  totalDistance :: f64

record SimulationResult =
  InitialClocks :: DriverClocks
  FinalClocks :: DriverClocks
  Timeline :: "TimelineEntry list"
  TotalDurationMin :: int
  TotalDriveMin :: int
  TotalRestMin :: int
  TotalDutyMin :: int
  TotalDistanceMiles :: f64

definition log_entry :: "Event \<Rightarrow> DriverClocks \<Rightarrow> sim_state \<Rightarrow> sim_state" where
  "log_entry ev next s = s\<lparr>timeline := timeline s @
     [\<lparr>StartTime = now (clocks s), EndTime = now next, TEvent = ev, ClocksSnapshot = next\<rparr>],
     clocks := next\<rparr>"

definition required_reset :: "DriverClocks \<Rightarrow> PolicySpecs \<Rightarrow> int \<times> bool \<times> string" where
  "required_reset c specs =
     (if remainingCycleMin c \<le> 0 then
        (WeeklyResetMin specs, False, ''Mandatory 34-Hour Weekly Cycle Restart'')
      else if remainingDrivingMin c \<le> 0 \<or> remainingShiftMin c \<le> 0 then
        (DailyResetMin specs, True, ''Mandatory 10-Hour Daily Off-Duty Reset'')
      else if remainingHygieneMin c \<le> 0 then
        (RestBreakMin specs, False, ''Mandatory 30-Minute Rest Break (Hygiene)'')
      else (DailyResetMin specs, True, ''Mandatory Daily Off-Duty Reset''))"

definition insertRequiredReset :: "PolicySpecs \<Rightarrow> string \<Rightarrow> sim_state \<Rightarrow> sim_state" where
  "insertRequiredReset specs locID s =
     (case required_reset (clocks s) specs of (restDuration, isSleeper, desc) \<Rightarrow>
        let next = off_duty (clocks s) restDuration isSleeper specs;
            restEvent = (RestEvent restDuration isSleeper locID)\<lparr>Description := desc\<rparr>;
            s = log_entry restEvent next s
        in s\<lparr>totalDuration := totalDuration s + restDuration, totalRest := totalRest s + restDuration\<rparr>)"

text \<open>The \<open>EventDrive\<close> case: drive in chunks up to the immediate limit.\<close>

definition book_drive :: "int \<Rightarrow> sim_state \<Rightarrow> sim_state" where
  "book_drive chunk s = s\<lparr>totalDuration := totalDuration s + chunk, totalDrive := totalDrive s + chunk,
     totalDuty := totalDuty s + chunk\<rparr>"

partial_function (option) drive_loop ::
  "f64 \<Rightarrow> string \<Rightarrow> PolicySpecs \<Rightarrow> bool \<Rightarrow> int \<Rightarrow> sim_state \<Rightarrow> sim_state result option" where
  "drive_loop distPerMin locID specs autoInsertRests remDuration s =
     (if remDuration \<le> 0 then Some (Inr s)
      else let availDrive = MaxImmediateDriveMin (clocks s) in
      if availDrive \<le> 0 then
        (if \<not> autoInsertRests then Some (Inl ErrHOSViolation)
         else drive_loop distPerMin locID specs autoInsertRests remDuration
                (insertRequiredReset specs locID s))
      else let driveChunk = min remDuration availDrive in
        (case ApplyDrive (clocks s) driveChunk specs of
           Inl e \<Rightarrow> Some (Inl e)
         | Inr next \<Rightarrow>
             drive_loop distPerMin locID specs autoInsertRests (remDuration - driveChunk)
               (book_drive driveChunk
                 (log_entry (DriveEvent driveChunk (distPerMin * of_int_fl driveChunk) locID) next s))))"

text \<open>
  The \<open>EventLoading\<close>, \<open>EventUnloading\<close> and \<open>EventBorderCrossing\<close> cases: work in chunks up to the
  shift and cycle clocks. They differ in the event they log, \<open>mk chunk\<close>.
\<close>

definition book_duty :: "int \<Rightarrow> sim_state \<Rightarrow> sim_state" where
  "book_duty chunk s = s\<lparr>totalDuration := totalDuration s + chunk, totalDuty := totalDuty s + chunk\<rparr>"

partial_function (option) duty_loop ::
  "(int \<Rightarrow> Event) \<Rightarrow> string \<Rightarrow> PolicySpecs \<Rightarrow> bool \<Rightarrow> int \<Rightarrow> sim_state \<Rightarrow> sim_state result option" where
  "duty_loop mk locID specs autoInsertRests remDuration s =
     (if remDuration \<le> 0 then Some (Inr s)
      else let availDuty = min (remainingShiftMin (clocks s)) (remainingCycleMin (clocks s)) in
      if availDuty \<le> 0 then
        (if \<not> autoInsertRests then Some (Inl ErrHOSViolation)
         else duty_loop mk locID specs autoInsertRests remDuration (insertRequiredReset specs locID s))
      else let dutyChunk = min remDuration availDuty in
        (case ApplyOnDutyNotDriving (clocks s) dutyChunk specs of
           Inl e \<Rightarrow> Some (Inl e)
         | Inr next \<Rightarrow>
             duty_loop mk locID specs autoInsertRests (remDuration - dutyChunk)
               (book_duty dutyChunk (log_entry (mk dutyChunk) next s))))"

definition book_rest :: "int \<Rightarrow> sim_state \<Rightarrow> sim_state" where
  "book_rest chunk s = s\<lparr>totalDuration := totalDuration s + chunk, totalRest := totalRest s + chunk\<rparr>"

text \<open>The \<open>EventHold\<close> case: waiting time is taken as off-duty time, in reset-sized chunks.\<close>

definition hold_chunk :: "PolicySpecs \<Rightarrow> DriverClocks \<Rightarrow> int \<Rightarrow> int" where
  "hold_chunk specs c remDuration =
     (if remDuration \<ge> DailyResetMin specs then
        (if remDuration \<ge> WeeklyResetMin specs \<and> remainingCycleMin c \<le> 0
         then WeeklyResetMin specs else DailyResetMin specs)
      else remDuration)"

partial_function (option) hold_loop ::
  "string \<Rightarrow> PolicySpecs \<Rightarrow> int \<Rightarrow> sim_state \<Rightarrow> sim_state result option" where
  "hold_loop locID specs remDuration s =
     (if remDuration \<le> 0 then Some (Inr s)
      else let isReset = (remDuration \<ge> DailyResetMin specs);
               chunk = hold_chunk specs (clocks s) remDuration in
        (case ApplyOffDuty (clocks s) chunk isReset specs of
           Inl e \<Rightarrow> Some (Inl e)
         | Inr next \<Rightarrow> hold_loop locID specs (remDuration - chunk)
             (book_rest chunk (log_entry (HoldEvent chunk locID) next s))))"

declare drive_loop.simps [code] duty_loop.simps [code] hold_loop.simps [code]

definition dist_per_min :: "Event \<Rightarrow> f64" where
  "dist_per_min ev = (if DurationMin ev > 0 then DistanceMi ev / of_int_fl (DurationMin ev) else 0)"

definition sim_event :: "PolicySpecs \<Rightarrow> bool \<Rightarrow> Event \<Rightarrow> sim_state \<Rightarrow> sim_state result option" where
  "sim_event specs autoInsertRests ev s =
     (case EvType ev of
        EventDrive \<Rightarrow>
          drive_loop (dist_per_min ev) (EvLocationID ev) specs autoInsertRests (DurationMin ev)
            (s\<lparr>totalDistance := totalDistance s + DistanceMi ev\<rparr>)
      | EventLoading \<Rightarrow>
          duty_loop (\<lambda>chunk. \<lparr>EvType = EventLoading, DurationMin = chunk, DistanceMi = 0,
              IsSleeper = False, EvLocationID = EvLocationID ev, Description = Description ev\<rparr>)
            (EvLocationID ev) specs autoInsertRests (DurationMin ev) s
      | EventUnloading \<Rightarrow>
          duty_loop (\<lambda>chunk. \<lparr>EvType = EventUnloading, DurationMin = chunk, DistanceMi = 0,
              IsSleeper = False, EvLocationID = EvLocationID ev, Description = Description ev\<rparr>)
            (EvLocationID ev) specs autoInsertRests (DurationMin ev) s
      | EventRest \<Rightarrow>
          (case ApplyOffDuty (clocks s) (DurationMin ev) (IsSleeper ev) specs of
             Inl e \<Rightarrow> Some (Inl e)
           | Inr next \<Rightarrow> Some (Inr (book_rest (DurationMin ev) (log_entry ev next s))))
      | EventHold \<Rightarrow> hold_loop (EvLocationID ev) specs (DurationMin ev) s
      | EventBorderCrossing \<Rightarrow>
          duty_loop (\<lambda>chunk. BorderCrossingEvent chunk (EvLocationID ev))
            (EvLocationID ev) specs autoInsertRests (DurationMin ev) s
      | EventOther _ \<Rightarrow> Some (Inr s))"

fun sim_events :: "PolicySpecs \<Rightarrow> bool \<Rightarrow> Event list \<Rightarrow> sim_state \<Rightarrow> sim_state result option" where
  "sim_events specs auto [] s = Some (Inr s)"
| "sim_events specs auto (ev # evs) s =
     (case sim_event specs auto ev s of
        None \<Rightarrow> None
      | Some (Inl e) \<Rightarrow> Some (Inl e)
      | Some (Inr s') \<Rightarrow> sim_events specs auto evs s')"

definition init_sim :: "DriverClocks \<Rightarrow> sim_state" where
  "init_sim c = \<lparr>clocks = c, timeline = [], totalDuration = 0, totalDrive = 0, totalRest = 0,
     totalDuty = 0, totalDistance = 0\<rparr>"

definition sim_result :: "DriverClocks \<Rightarrow> sim_state \<Rightarrow> SimulationResult" where
  "sim_result c s = \<lparr>InitialClocks = c, FinalClocks = clocks s, Timeline = timeline s,
     TotalDurationMin = totalDuration s, TotalDriveMin = totalDrive s, TotalRestMin = totalRest s,
     TotalDutyMin = totalDuty s, TotalDistanceMiles = totalDistance s\<rparr>"

definition Simulate ::
  "DriverClocks option \<Rightarrow> Event list \<Rightarrow> PolicySpecs \<Rightarrow> bool \<Rightarrow> SimulationResult result option" where
  "Simulate initialClocks events specs autoInsertRests =
     (case initialClocks of
        None \<Rightarrow> Some (Inl ErrSimulatorNilClocks)
      | Some c \<Rightarrow>
          (case ValidatePolicy specs of
             Inl e \<Rightarrow> Some (Inl e)
           | Inr _ \<Rightarrow>
               (case sim_events specs autoInsertRests events (init_sim c) of
                  None \<Rightarrow> None
                | Some (Inl e) \<Rightarrow> Some (Inl e)
                | Some (Inr s) \<Rightarrow> Some (Inr (sim_result c s)))))"


section \<open>Resets make progress\<close>

definition reset_clocks :: "PolicySpecs \<Rightarrow> DriverClocks \<Rightarrow> DriverClocks" where
  "reset_clocks specs c = (case required_reset c specs of (d, sl, _) \<Rightarrow> off_duty c d sl specs)"

lemma clocks_log_entry [simp]: "clocks (log_entry ev next s) = next"
  by (simp add: log_entry_def)

lemma clocks_book [simp]:
  "clocks (book_drive d s) = clocks s" "clocks (book_duty d s) = clocks s" "clocks (book_rest d s) = clocks s"
  by (simp_all add: book_drive_def book_duty_def book_rest_def)

lemma clocks_insertRequiredReset [simp]:
  "clocks (insertRequiredReset specs loc s) = reset_clocks specs (clocks s)"
  by (simp add: insertRequiredReset_def reset_clocks_def Let_def split: prod.splits)

lemma required_reset_pos:
  "ValidatePolicy specs = Inr u \<Longrightarrow> required_reset c specs = (d, sl, desc) \<Longrightarrow> 0 < d"
  by (auto simp: required_reset_def ValidatePolicy_ok_iff split: if_splits)

lemma reset_clocks_safe: "clocks_safe c \<Longrightarrow> clocks_safe (reset_clocks specs c)"
  by (simp add: reset_clocks_def off_duty_safe split: prod.splits)

lemma reset_clocks_legal [wf_intro]:
  "ValidatePolicy specs = Inr u \<Longrightarrow> clocks_legal specs c \<Longrightarrow> clocks_legal specs (reset_clocks specs c)"
  by (simp add: reset_clocks_def off_duty_legal split: prod.splits)

definition reset_rank :: "(DriverClocks \<Rightarrow> int) \<Rightarrow> DriverClocks \<Rightarrow> nat" where
  "reset_rank avail c =
     (if 0 < avail c then 0
      else if remainingCycleMin c \<le> 0 \<or> remainingDrivingMin c \<le> 0 \<or> remainingShiftMin c \<le> 0 then 1 else 2)"

definition duty_avail :: "DriverClocks \<Rightarrow> int" where
  "duty_avail c = min (remainingShiftMin c) (remainingCycleMin c)"

lemma reset_full:
  assumes v: "ValidatePolicy specs = Inr u" and s: "clocks_safe c"
    and r: "remainingCycleMin c \<le> 0 \<or> remainingDrivingMin c \<le> 0 \<or> remainingShiftMin c \<le> 0"
  shows "0 < remainingCycleMin (reset_clocks specs c)" "0 < remainingDrivingMin (reset_clocks specs c)"
    "0 < remainingShiftMin (reset_clocks specs c)" "0 < remainingHygieneMin (reset_clocks specs c)"
proof -
  note pos = v [unfolded ValidatePolicy_ok_iff]
  have ext: "0 \<le> drivingCeilingExtension c" "0 \<le> consecutiveOffDutyMin c" using s by (auto simp: clocks_safe_def)
  have "0 < remainingCycleMin (reset_clocks specs c) \<and> 0 < remainingDrivingMin (reset_clocks specs c) \<and>
    0 < remainingShiftMin (reset_clocks specs c) \<and> 0 < remainingHygieneMin (reset_clocks specs c)"
  proof (cases "remainingCycleMin c \<le> 0")
    case True
    then have "reset_clocks specs c = off_duty c (WeeklyResetMin specs) False specs"
      by (simp add: reset_clocks_def required_reset_def)
    with pos ext off_duty_weekly [of "WeeklyResetMin specs" specs c False] show ?thesis by simp
  next
    case False
    with r have e: "reset_clocks specs c = off_duty c (DailyResetMin specs) True specs"
      by (auto simp: reset_clocks_def required_reset_def)
    have "0 < remainingCycleMin (reset_clocks specs c)"
      using off_duty_cycle [of c "DailyResetMin specs" True specs] False pos unfolding e by auto
    with e pos ext off_duty_daily [of "DailyResetMin specs" specs c True] show ?thesis by simp
  qed
  then show "0 < remainingCycleMin (reset_clocks specs c)" "0 < remainingDrivingMin (reset_clocks specs c)"
    "0 < remainingShiftMin (reset_clocks specs c)" "0 < remainingHygieneMin (reset_clocks specs c)" by blast+
qed

lemma reset_break:
  assumes v: "ValidatePolicy specs = Inr u" and s: "clocks_safe c"
    and r: "0 < remainingCycleMin c" "0 < remainingDrivingMin c" "0 < remainingShiftMin c"
      "remainingHygieneMin c \<le> 0"
  shows "0 < remainingCycleMin (reset_clocks specs c)" "0 < remainingDrivingMin (reset_clocks specs c)"
    "0 < remainingHygieneMin (reset_clocks specs c)"
proof -
  note pos = v [unfolded ValidatePolicy_ok_iff]
  have e: "reset_clocks specs c = off_duty c (RestBreakMin specs) False specs"
    using r by (simp add: reset_clocks_def required_reset_def)
  have ext: "0 \<le> drivingCeilingExtension c" using s by (auto simp: clocks_safe_def)
  show "0 < remainingCycleMin (reset_clocks specs c)"
    using off_duty_cycle [of c "RestBreakMin specs" False specs] r pos unfolding e by auto
  show "0 < remainingDrivingMin (reset_clocks specs c)" "0 < remainingHygieneMin (reset_clocks specs c)"
    using off_duty_break [of "RestBreakMin specs" specs c False] r pos ext unfolding e by auto
qed

lemma drive_reset_rank:
  assumes "ValidatePolicy specs = Inr u" "clocks_safe c" "MaxImmediateDriveMin c \<le> 0"
  shows "reset_rank MaxImmediateDriveMin (reset_clocks specs c) < reset_rank MaxImmediateDriveMin c"
proof (cases "remainingCycleMin c \<le> 0 \<or> remainingDrivingMin c \<le> 0 \<or> remainingShiftMin c \<le> 0")
  case True
  with assms show ?thesis using reset_full [OF assms(1,2) True]
    by (simp add: reset_rank_def MaxImmediateDriveMin_min)
next
  case False
  with assms(3) have "remainingHygieneMin c \<le> 0" by (auto simp: MaxImmediateDriveMin_min min_le_iff_disj)
  with False reset_break [OF assms(1,2)] assms(3) show ?thesis
    by (auto simp: reset_rank_def MaxImmediateDriveMin_min)
qed

lemma duty_reset_rank:
  assumes "ValidatePolicy specs = Inr u" "clocks_safe c" "duty_avail c \<le> 0"
  shows "reset_rank duty_avail (reset_clocks specs c) < reset_rank duty_avail c"
proof -
  from assms(3) have r: "remainingCycleMin c \<le> 0 \<or> remainingDrivingMin c \<le> 0 \<or> remainingShiftMin c \<le> 0"
    by (auto simp: duty_avail_def)
  with assms(3) reset_full [OF assms(1,2) r] show ?thesis by (auto simp: reset_rank_def duty_avail_def)
qed

section \<open>The chunked duty loop\<close>

locale chunk_loop =
  fixes loop :: "string \<Rightarrow> PolicySpecs \<Rightarrow> bool \<Rightarrow> int \<Rightarrow> sim_state \<Rightarrow> sim_state result option"
    and avail :: "DriverClocks \<Rightarrow> int"
    and apply_duty :: "DriverClocks \<Rightarrow> int \<Rightarrow> PolicySpecs \<Rightarrow> DriverClocks result"
    and book :: "string \<Rightarrow> int \<Rightarrow> DriverClocks \<Rightarrow> sim_state \<Rightarrow> sim_state"
  assumes loop_unfold: "loop locID specs auto remD s =
      (if remD \<le> 0 then Some (Inr s)
       else if avail (clocks s) \<le> 0 then
         (if \<not> auto then Some (Inl ErrHOSViolation)
          else loop locID specs auto remD (insertRequiredReset specs locID s))
       else (case apply_duty (clocks s) (min remD (avail (clocks s))) specs of
          Inl e \<Rightarrow> Some (Inl e)
        | Inr next \<Rightarrow> loop locID specs auto (remD - min remD (avail (clocks s)))
            (book locID (min remD (avail (clocks s))) next s)))"
    and apply_total: "clocks_safe c \<Longrightarrow> d \<le> avail c \<Longrightarrow> \<exists>c'. apply_duty c d specs = Inr c'"
    and apply_safe: "apply_duty c d specs = Inr c' \<Longrightarrow> clocks_safe c \<Longrightarrow> clocks_safe c'"
    and book_clocks: "clocks (book locID d next s) = next"
    and reset_decreases: "ValidatePolicy specs = Inr u \<Longrightarrow> clocks_safe c \<Longrightarrow> avail c \<le> 0 \<Longrightarrow>
      reset_rank avail (reset_clocks specs c) < reset_rank avail c"
begin

definition loop_measure :: "int \<Rightarrow> sim_state \<Rightarrow> nat" where
  "loop_measure remD s = 3 * nat remD + reset_rank avail (clocks s)"

lemma measure_reset:
  "ValidatePolicy specs = Inr u \<Longrightarrow> clocks_safe (clocks s) \<Longrightarrow> avail (clocks s) \<le> 0 \<Longrightarrow>
    loop_measure remD (insertRequiredReset specs locID s) < loop_measure remD s"
  using reset_decreases [of specs u "clocks s"] by (simp add: loop_measure_def)

lemma measure_work: "0 < d \<Longrightarrow> d \<le> remD \<Longrightarrow> loop_measure (remD - d) s' < loop_measure remD s"
proof -
  assume "0 < d" "d \<le> remD"
  then have "nat (remD - d) < nat remD" by linarith
  moreover have "reset_rank avail (clocks s') \<le> 2" by (simp add: reset_rank_def)
  ultimately show ?thesis unfolding loop_measure_def by linarith
qed

text \<open>
  The invariant rule of the loop. \<open>P remD s\<close> is kept by a reset and by a chunk of work; then it holds
  at the end with nothing remaining, and with automatic rests the loop always ends without error.
\<close>

lemma loop_invariant:
  assumes v: "ValidatePolicy specs = Inr u" and "clocks_safe (clocks s)" and "P remD s"
    and reset: "\<And>remD s. P remD s \<Longrightarrow> clocks_safe (clocks s) \<Longrightarrow> 0 < remD \<Longrightarrow> avail (clocks s) \<le> 0 \<Longrightarrow>
      P remD (insertRequiredReset specs locID s)"
    and work: "\<And>remD s d next. P remD s \<Longrightarrow> clocks_safe (clocks s) \<Longrightarrow> 0 < d \<Longrightarrow> d \<le> remD \<Longrightarrow>
      d \<le> avail (clocks s) \<Longrightarrow> apply_duty (clocks s) d specs = Inr next \<Longrightarrow> P (remD - d) (book locID d next s)"
  shows "loop locID specs auto remD s = Some (Inl ErrHOSViolation) \<and> \<not> auto \<or>
    (\<exists>s'. loop locID specs auto remD s = Some (Inr s') \<and> clocks_safe (clocks s') \<and> P (min remD 0) s')"
  using assms(2,3)
proof (induction "loop_measure remD s" arbitrary: remD s rule: less_induct)
  case less
  let ?d = "min remD (avail (clocks s))"
  consider (finished) "remD \<le> 0" | (blocked) "0 < remD" "avail (clocks s) \<le> 0"
    | (busy) "0 < remD" "0 < avail (clocks s)" by linarith
  then show ?case
  proof cases
    case finished
    with less.prems show ?thesis by (auto simp: loop_unfold [of locID specs auto remD s] min_def)
  next
    case blocked
    show ?thesis
    proof (cases auto)
      case True
      let ?s = "insertRequiredReset specs locID s"
      have eq: "loop locID specs auto remD s = loop locID specs auto remD ?s"
        using blocked True by (subst loop_unfold) simp
      show ?thesis unfolding eq
        using less.hyps [of remD ?s] blocked less.prems reset [of remD s] measure_reset [OF v, of s remD locID]
        by (simp add: reset_clocks_safe)
    next
      case False
      with blocked have "loop locID specs auto remD s = Some (Inl ErrHOSViolation)"
        by (subst loop_unfold) simp
      with False show ?thesis by simp
    qed
  next
    case busy
    then have d: "0 < ?d" "?d \<le> remD" "?d \<le> avail (clocks s)" by auto
    obtain c' where c': "apply_duty (clocks s) ?d specs = Inr c'"
      using apply_total [OF less.prems(1) d(3)] by blast
    let ?s = "book locID ?d c' s"
    have eq: "loop locID specs auto remD s = loop locID specs auto (remD - ?d) ?s"
      using busy c' by (simp add: loop_unfold [of locID specs auto remD s])
    have "clocks_safe (clocks ?s)" using apply_safe [OF c' less.prems(1)] by (simp add: book_clocks)
    moreover have "P (remD - ?d) ?s" using assms(5) [OF less.prems(2,1) d c'] .
    ultimately have "loop locID specs auto (remD - ?d) ?s = Some (Inl ErrHOSViolation) \<and> \<not> auto \<or>
      (\<exists>s'. loop locID specs auto (remD - ?d) ?s = Some (Inr s') \<and> clocks_safe (clocks s') \<and>
        P (min (remD - ?d) 0) s')"
      using less.hyps [of "remD - ?d" ?s] measure_work [OF d(1,2)] by blast
    moreover have "min (remD - ?d) 0 = min remD 0" using d busy by simp
    ultimately show ?thesis unfolding eq by simp
  qed
qed

lemma loop_total:
  assumes "ValidatePolicy specs = Inr u" and "clocks_safe (clocks s)"
  shows "loop locID specs auto remD s = Some (Inl ErrHOSViolation) \<and> \<not> auto \<or>
    (\<exists>s'. loop locID specs auto remD s = Some (Inr s') \<and> clocks_safe (clocks s'))"
  using loop_invariant [of specs u s "\<lambda>_ _. True" remD locID auto] assms by blast

text \<open>A run that needs no rest does not depend on whether rests may be inserted.\<close>

lemma loop_without_rests:
  assumes v: "ValidatePolicy specs = Inr u" and "clocks_safe (clocks s)"
    and "loop locID specs False remD s = Some (Inr s')"
  shows "loop locID specs True remD s = Some (Inr s')"
  using assms(2,3)
proof (induction "loop_measure remD s" arbitrary: remD s rule: less_induct)
  case less
  let ?d = "min remD (avail (clocks s))"
  consider (finished) "remD \<le> 0" | (blocked) "0 < remD" "avail (clocks s) \<le> 0"
    | (busy) "0 < remD" "0 < avail (clocks s)" by linarith
  then show ?case
  proof cases
    case busy
    then have d: "0 < ?d" "?d \<le> remD" "?d \<le> avail (clocks s)" by auto
    obtain c' where c': "apply_duty (clocks s) ?d specs = Inr c'"
      using apply_total [OF less.prems(1) d(3)] by blast
    let ?s = "book locID ?d c' s"
    have eq: "loop locID specs auto remD s = loop locID specs auto (remD - ?d) ?s" for auto
      using busy c' by (simp add: loop_unfold [of locID specs auto remD s])
    have "clocks_safe (clocks ?s)" using apply_safe [OF c' less.prems(1)] by (simp add: book_clocks)
    then show ?thesis
      using less.hyps [of "remD - ?d" ?s] measure_work [OF d(1,2)] less.prems(2) unfolding eq by blast
  next
    case finished
    then have "loop locID specs auto remD s = Some (Inr s)" for auto by (subst loop_unfold) simp
    with less.prems(2) show ?thesis by simp
  next
    case blocked
    then have "loop locID specs False remD s = Some (Inl ErrHOSViolation)" by (subst loop_unfold) simp
    with less.prems(2) show ?thesis by simp
  qed
qed

end

interpretation drive: chunk_loop "drive_loop dpm" MaxImmediateDriveMin ApplyDrive
  "\<lambda>locID d next s. book_drive d (log_entry (DriveEvent d (dpm * of_int_fl d) locID) next s)" for dpm
proof unfold_locales
  show "drive_loop dpm locID specs auto remD s =
      (if remD \<le> 0 then Some (Inr s)
       else if MaxImmediateDriveMin (clocks s) \<le> 0 then
         (if \<not> auto then Some (Inl ErrHOSViolation)
          else drive_loop dpm locID specs auto remD (insertRequiredReset specs locID s))
       else (case ApplyDrive (clocks s) (min remD (MaxImmediateDriveMin (clocks s))) specs of
          Inl e \<Rightarrow> Some (Inl e)
        | Inr next \<Rightarrow> drive_loop dpm locID specs auto (remD - min remD (MaxImmediateDriveMin (clocks s)))
            (book_drive (min remD (MaxImmediateDriveMin (clocks s)))
              (log_entry (DriveEvent (min remD (MaxImmediateDriveMin (clocks s)))
                (dpm * of_int_fl (min remD (MaxImmediateDriveMin (clocks s)))) locID) next s))))"
    for locID specs auto remD s
    by (subst drive_loop.simps) (simp add: Let_def)
qed (auto intro: ApplyDrive_total ApplyDrive_safe drive_reset_rank)

interpretation duty: chunk_loop "duty_loop mk" duty_avail ApplyOnDutyNotDriving
  "\<lambda>locID d next s. book_duty d (log_entry (mk d) next s)" for mk
proof unfold_locales
  show "duty_loop mk locID specs auto remD s =
      (if remD \<le> 0 then Some (Inr s)
       else if duty_avail (clocks s) \<le> 0 then
         (if \<not> auto then Some (Inl ErrHOSViolation)
          else duty_loop mk locID specs auto remD (insertRequiredReset specs locID s))
       else (case ApplyOnDutyNotDriving (clocks s) (min remD (duty_avail (clocks s))) specs of
          Inl e \<Rightarrow> Some (Inl e)
        | Inr next \<Rightarrow> duty_loop mk locID specs auto (remD - min remD (duty_avail (clocks s)))
            (book_duty (min remD (duty_avail (clocks s)))
              (log_entry (mk (min remD (duty_avail (clocks s)))) next s))))"
    for locID specs auto remD s
    unfolding duty_avail_def by (subst duty_loop.simps) (simp add: Let_def)
qed (auto intro: ApplyOnDuty_total ApplyOnDuty_safe duty_reset_rank simp: duty_avail_def)

end
