(* ===== verification/HosRun.thy ===== *)
theory HosRun
  imports HosSim "HOL-Library.Transitive_Closure_Table"
begin

text \<open>
  What a run of \<open>Simulate\<close> does. Every run is a sequence of \<open>sim_step\<close>s, the atomic transitions of the
  simulator (a statutory rest, a chunk of driving, a chunk of on-duty work, off-duty time), and the
  invariants are proved for one step and lifted to runs by rule induction: legality of every
  logged clock, contiguity of the timeline, the accounting of the totals, and the continuous-driving
  law measured on the timeline alone.
\<close>

section \<open>Runs as step sequences\<close>

inductive sim_step :: "PolicySpecs \<Rightarrow> sim_state \<Rightarrow> sim_state \<Rightarrow> bool" for specs where
  step_reset: "sim_step specs s (insertRequiredReset specs loc s)"
| step_drive: "0 < d \<Longrightarrow> ApplyDrive (clocks s) d specs = Inr next \<Longrightarrow>
    sim_step specs s (book_drive d (log_entry (DriveEvent d miles loc) next s))"
| step_duty: "0 < d \<Longrightarrow> ApplyOnDutyNotDriving (clocks s) d specs = Inr next \<Longrightarrow> DurationMin ev = d \<Longrightarrow>
    EvType ev \<in> {EventLoading, EventUnloading, EventBorderCrossing} \<Longrightarrow>
    sim_step specs s (book_duty d (log_entry ev next s))"
| step_off: "0 \<le> d \<Longrightarrow> DurationMin ev = d \<Longrightarrow> EvType ev \<in> {EventRest, EventHold} \<Longrightarrow>
    (IsSleeper ev \<longrightarrow> sl) \<Longrightarrow> (sl \<longrightarrow> IsSleeper ev \<or> DailyResetMin specs \<le> d \<or> WeeklyResetMin specs \<le> d) \<Longrightarrow>
    sim_step specs s (book_rest d (log_entry ev (off_duty (clocks s) d sl specs) s))"
| step_miles: "sim_step specs s (s\<lparr>totalDistance := miles\<rparr>)"

definition rests_nonneg :: "Event list \<Rightarrow> bool" where
  "rests_nonneg evs \<longleftrightarrow> (\<forall>ev\<in>set evs. EvType ev = EventRest \<longrightarrow> 0 \<le> DurationMin ev)"

lemma hold_chunk_bounds:
  "ValidatePolicy specs = Inr u \<Longrightarrow> 0 < remD \<Longrightarrow> 0 < hold_chunk specs c remD \<and> hold_chunk specs c remD \<le> remD"
  by (auto simp: hold_chunk_def ValidatePolicy_ok_iff)

lemma hold_unfold:
  "hold_loop loc specs remD s =
     (if remD \<le> 0 then Some (Inr s)
      else hold_loop loc specs (remD - hold_chunk specs (clocks s) remD)
        (book_rest (hold_chunk specs (clocks s) remD)
          (log_entry (HoldEvent (hold_chunk specs (clocks s) remD) loc)
            (off_duty (clocks s) (hold_chunk specs (clocks s) remD) (DailyResetMin specs \<le> remD) specs) s)))"
  by (subst hold_loop.simps) (simp add: Let_def ApplyOffDuty_def)

lemma hold_invariant:
  assumes v: "ValidatePolicy specs = Inr u" and "clocks_safe (clocks s)" and "P remD s"
    and work: "\<And>remD s d sl. P remD s \<Longrightarrow> clocks_safe (clocks s) \<Longrightarrow> 0 < d \<Longrightarrow> d \<le> remD \<Longrightarrow>
      d \<le> max (DailyResetMin specs) (WeeklyResetMin specs) \<Longrightarrow>
      (sl \<longrightarrow> DailyResetMin specs \<le> d \<or> WeeklyResetMin specs \<le> d) \<Longrightarrow>
      P (remD - d) (book_rest d (log_entry (HoldEvent d loc) (off_duty (clocks s) d sl specs) s))"
  shows "\<exists>s'. hold_loop loc specs remD s = Some (Inr s') \<and> clocks_safe (clocks s') \<and> P (min remD 0) s'"
  using assms(2,3)
proof (induction "nat remD" arbitrary: remD s rule: less_induct)
  case less
  show ?case
  proof (cases "remD \<le> 0")
    case True
    with less.prems show ?thesis by (subst hold_unfold) (simp add: min_def)
  next
    case False
    let ?d = "hold_chunk specs (clocks s) remD"
    let ?s = "book_rest ?d (log_entry (HoldEvent ?d loc)
      (off_duty (clocks s) ?d (DailyResetMin specs \<le> remD) specs) s)"
    have d: "0 < ?d" "?d \<le> remD" using hold_chunk_bounds [OF v, of remD "clocks s"] False by auto
    have eq: "hold_loop loc specs remD s = hold_loop loc specs (remD - ?d) ?s"
      using False by (subst hold_unfold) simp
    have "DailyResetMin specs \<le> remD \<longrightarrow> DailyResetMin specs \<le> ?d \<or> WeeklyResetMin specs \<le> ?d"
      by (simp add: hold_chunk_def)
    moreover have "?d \<le> max (DailyResetMin specs) (WeeklyResetMin specs)" by (auto simp: hold_chunk_def)
    ultimately have "P (remD - ?d) ?s" using work [OF less.prems(2,1) d] by blast
    moreover have "clocks_safe (clocks ?s)" using less.prems(1) by (simp add: off_duty_safe)
    moreover have "nat (remD - ?d) < nat remD" "min (remD - ?d) 0 = min remD 0" using d False by auto
    ultimately show ?thesis using less.hyps [of "remD - ?d" ?s] unfolding eq by simp
  qed
qed

lemma sim_step_safe: "sim_step specs s s' \<Longrightarrow> clocks_safe (clocks s) \<Longrightarrow> clocks_safe (clocks s')"
  by (induction rule: sim_step.induct)
    (auto simp: reset_clocks_safe off_duty_safe intro: ApplyDrive_safe ApplyOnDuty_safe)

lemma steps_reset: "(sim_step specs)\<^sup>*\<^sup>* s t \<Longrightarrow> (sim_step specs)\<^sup>*\<^sup>* s (insertRequiredReset specs loc t)"
  by (erule rtranclp.rtrancl_into_rtrancl) (rule step_reset)

lemma steps_drive:
  "(sim_step specs)\<^sup>*\<^sup>* s t \<Longrightarrow> 0 < d \<Longrightarrow> ApplyDrive (clocks t) d specs = Inr c \<Longrightarrow>
    (sim_step specs)\<^sup>*\<^sup>* s (book_drive d (log_entry (DriveEvent d miles loc) c t))"
  by (erule rtranclp.rtrancl_into_rtrancl) (rule step_drive)

lemma steps_duty:
  "(sim_step specs)\<^sup>*\<^sup>* s t \<Longrightarrow> 0 < d \<Longrightarrow> ApplyOnDutyNotDriving (clocks t) d specs = Inr c \<Longrightarrow>
    DurationMin ev = d \<Longrightarrow> EvType ev \<in> {EventLoading, EventUnloading, EventBorderCrossing} \<Longrightarrow>
    (sim_step specs)\<^sup>*\<^sup>* s (book_duty d (log_entry ev c t))"
  by (erule rtranclp.rtrancl_into_rtrancl) (rule step_duty)

lemma steps_off:
  "(sim_step specs)\<^sup>*\<^sup>* s t \<Longrightarrow> 0 \<le> d \<Longrightarrow> DurationMin ev = d \<Longrightarrow> EvType ev \<in> {EventRest, EventHold} \<Longrightarrow>
    (IsSleeper ev \<longrightarrow> sl) \<Longrightarrow> (sl \<longrightarrow> IsSleeper ev \<or> DailyResetMin specs \<le> d \<or> WeeklyResetMin specs \<le> d) \<Longrightarrow>
    (sim_step specs)\<^sup>*\<^sup>* s (book_rest d (log_entry ev (off_duty (clocks t) d sl specs) t))"
  by (erule rtranclp.rtrancl_into_rtrancl) (rule step_off)

text \<open>One event is a sequence of steps; with automatic rests it always completes.\<close>

lemma sim_event_steps:
  assumes v: "ValidatePolicy specs = Inr u" and safe: "clocks_safe (clocks s)"
    and nn: "EvType ev = EventRest \<Longrightarrow> 0 \<le> DurationMin ev"
  shows "sim_event specs auto ev s = Some (Inl ErrHOSViolation) \<and> \<not> auto \<or>
    (\<exists>s'. sim_event specs auto ev s = Some (Inr s') \<and> clocks_safe (clocks s') \<and> (sim_step specs)\<^sup>*\<^sup>* s s')"
proof -
  have duty: "duty_loop mk loc specs auto remD s = Some (Inl ErrHOSViolation) \<and> \<not> auto \<or>
      (\<exists>s'. duty_loop mk loc specs auto remD s = Some (Inr s') \<and> clocks_safe (clocks s') \<and> (sim_step specs)\<^sup>*\<^sup>* s s')"
    if "\<And>d. DurationMin (mk d) = d"
      "\<And>d. EvType (mk d) \<in> {EventLoading, EventUnloading, EventBorderCrossing}" for mk loc remD
    by (rule duty.loop_invariant [OF v safe, where P = "\<lambda>_ t. (sim_step specs)\<^sup>*\<^sup>* s t"])
      (simp_all add: steps_reset steps_duty that del: insert_iff)
  let ?s0 = "s\<lparr>totalDistance := totalDistance s + DistanceMi ev\<rparr>"
  have s0: "clocks_safe (clocks ?s0)" "(sim_step specs)\<^sup>*\<^sup>* s ?s0"
    using safe by (auto intro: step_miles)
  show ?thesis
  proof (cases "EvType ev")
    case EventDrive
    have "drive_loop (dist_per_min ev) (EvLocationID ev) specs auto (DurationMin ev) ?s0
        = Some (Inl ErrHOSViolation) \<and> \<not> auto \<or>
      (\<exists>s'. drive_loop (dist_per_min ev) (EvLocationID ev) specs auto (DurationMin ev) ?s0 = Some (Inr s') \<and>
        clocks_safe (clocks s') \<and> (sim_step specs)\<^sup>*\<^sup>* s s')"
      by (rule drive.loop_invariant [OF v s0(1), where P = "\<lambda>_ t. (sim_step specs)\<^sup>*\<^sup>* s t"])
        (simp_all add: steps_reset steps_drive s0(2))
    with EventDrive show ?thesis by (simp add: sim_event_def)
  next
    case EventRest
    then show ?thesis using nn safe
      by (auto simp: sim_event_def ApplyOffDuty_def off_duty_safe intro!: r_into_rtranclp step_off)
  next
    case EventHold
    have "\<exists>s'. hold_loop (EvLocationID ev) specs (DurationMin ev) s = Some (Inr s') \<and>
        clocks_safe (clocks s') \<and> (sim_step specs)\<^sup>*\<^sup>* s s'"
      by (rule hold_invariant [OF v safe, where P = "\<lambda>_ t. (sim_step specs)\<^sup>*\<^sup>* s t"])
        (simp_all add: steps_off HoldEvent_def)
    with EventHold show ?thesis by (simp add: sim_event_def)
  next
    case EventLoading
    then show ?thesis by (simp add: sim_event_def duty)
  next
    case EventUnloading
    then show ?thesis by (simp add: sim_event_def duty)
  next
    case EventBorderCrossing
    then show ?thesis by (simp add: sim_event_def duty BorderCrossingEvent_def)
  qed (use safe in \<open>simp add: sim_event_def\<close>)
qed

lemma sim_events_steps:
  assumes v: "ValidatePolicy specs = Inr u" and "clocks_safe (clocks s)" and "rests_nonneg evs"
  shows "sim_events specs auto evs s = Some (Inl ErrHOSViolation) \<and> \<not> auto \<or>
    (\<exists>s'. sim_events specs auto evs s = Some (Inr s') \<and> clocks_safe (clocks s') \<and> (sim_step specs)\<^sup>*\<^sup>* s s')"
  using assms(2,3)
proof (induction evs arbitrary: s)
  case Nil
  then show ?case by simp
next
  case (Cons ev evs)
  have nn: "EvType ev = EventRest \<Longrightarrow> 0 \<le> DurationMin ev" "rests_nonneg evs"
    using Cons.prems(2) by (auto simp: rests_nonneg_def)
  from sim_event_steps [OF v Cons.prems(1), of ev auto] nn(1)
  have "sim_event specs auto ev s = Some (Inl ErrHOSViolation) \<and> \<not> auto \<or>
    (\<exists>s'. sim_event specs auto ev s = Some (Inr s') \<and> clocks_safe (clocks s') \<and> (sim_step specs)\<^sup>*\<^sup>* s s')"
    by blast
  then show ?case
  proof (elim disjE exE conjE)
    fix s1
    assume e: "sim_event specs auto ev s = Some (Inr s1)" and s1: "clocks_safe (clocks s1)"
      "(sim_step specs)\<^sup>*\<^sup>* s s1"
    from Cons.IH [OF s1(1) nn(2)] s1(2) show ?thesis by (auto simp: e intro: rtranclp_trans)
  qed simp
qed

lemma Simulate_cases:
  assumes "ValidatePolicy specs = Inr u" and "clocks_safe c" and "rests_nonneg evs"
  shows "Simulate (Some c) evs specs auto = Some (Inl ErrHOSViolation) \<and> \<not> auto \<or>
    (\<exists>s. Simulate (Some c) evs specs auto = Some (Inr (sim_result c s)) \<and> clocks_safe (clocks s) \<and>
      (sim_step specs)\<^sup>*\<^sup>* (init_sim c) s)"
proof -
  have "clocks_safe (clocks (init_sim c))" using assms(2) by (simp add: init_sim_def)
  from sim_events_steps [OF assms(1) this assms(3), of auto] show ?thesis
    by (auto simp: Simulate_def assms(1))
qed

lemma Simulate_steps:
  assumes "ValidatePolicy specs = Inr u" and "clocks_safe c" and "rests_nonneg evs"
    and "Simulate (Some c) evs specs auto = Some (Inr r)"
  obtains s where "r = sim_result c s" and "(sim_step specs)\<^sup>*\<^sup>* (init_sim c) s"
  using Simulate_cases [OF assms(1-3), of auto] assms(4) by auto

lemma steps_invariant:
  assumes "(sim_step specs)\<^sup>*\<^sup>* s s'" and "P s" and "\<And>s s'. sim_step specs s s' \<Longrightarrow> P s \<Longrightarrow> P s'"
  shows "P s'"
  using assms(1,2) by (induction rule: rtranclp_induct) (auto intro: assms(3))

section \<open>The timeline\<close>

definition is_off :: "TimelineEntry \<Rightarrow> bool" where
  "is_off e \<longleftrightarrow> EvType (TEvent e) \<in> {EventRest, EventHold}"

definition is_drive :: "TimelineEntry \<Rightarrow> bool" where
  "is_drive e \<longleftrightarrow> EvType (TEvent e) = EventDrive"

definition minutes_of :: "(TimelineEntry \<Rightarrow> bool) \<Rightarrow> TimelineEntry list \<Rightarrow> int" where
  "minutes_of P es = sum_list (map (DurationMin \<circ> TEvent) (filter P es))"

fun chained :: "time \<Rightarrow> TimelineEntry list \<Rightarrow> bool" where
  "chained t [] = True"
| "chained t (e # es) = (StartTime e = t \<and> chained (EndTime e) es)"

fun timeline_end :: "time \<Rightarrow> TimelineEntry list \<Rightarrow> time" where
  "timeline_end t [] = t"
| "timeline_end t (e # es) = timeline_end (EndTime e) es"

definition entry_ok :: "PolicySpecs \<Rightarrow> TimelineEntry \<Rightarrow> bool" where
  "entry_ok specs e \<longleftrightarrow> clocks_legal specs (ClocksSnapshot e) \<and> EndTime e = now (ClocksSnapshot e) \<and>
     EndTime e = StartTime e + minutes_dur (DurationMin (TEvent e)) \<and> 0 \<le> DurationMin (TEvent e)"

definition sim_inv :: "PolicySpecs \<Rightarrow> time \<Rightarrow> sim_state \<Rightarrow> bool" where
  "sim_inv specs t s \<longleftrightarrow> clocks_legal specs (clocks s) \<and> (\<forall>e\<in>set (timeline s). entry_ok specs e) \<and>
     chained t (timeline s) \<and> now (clocks s) = timeline_end t (timeline s) \<and>
     totalDuration s = minutes_of (\<lambda>_. True) (timeline s) \<and> totalDrive s = minutes_of is_drive (timeline s) \<and>
     totalRest s = minutes_of is_off (timeline s) \<and>
     totalDuty s = minutes_of (\<lambda>e. \<not> is_off e) (timeline s)"

lemma minutes_of_append [simp]: "minutes_of P (xs @ ys) = minutes_of P xs + minutes_of P ys"
  by (simp add: minutes_of_def)

lemma minutes_of_single [simp]: "minutes_of P [e] = (if P e then DurationMin (TEvent e) else 0)"
  by (simp add: minutes_of_def)

lemma minutes_of_Nil [simp]: "minutes_of P [] = 0"
  by (simp add: minutes_of_def)

lemma timeline_end_append [simp]: "timeline_end t (xs @ ys) = timeline_end (timeline_end t xs) ys"
  by (induction xs arbitrary: t) auto

lemma chained_append [simp]: "chained t (xs @ ys) \<longleftrightarrow> chained t xs \<and> chained (timeline_end t xs) ys"
  by (induction xs arbitrary: t) auto

lemma sim_inv_init: "clocks_legal specs c \<Longrightarrow> sim_inv specs (now c) (init_sim c)"
  by (simp add: sim_inv_def init_sim_def)

lemma sim_inv_log:
  assumes "sim_inv specs t s" and "clocks_legal specs c"
    and "now c = now (clocks s) + minutes_dur (DurationMin ev)" and "0 \<le> DurationMin ev"
    and "clocks s' = c"
    and "timeline s' = timeline (log_entry ev c s)"
    and "totalDuration s' = totalDuration s + DurationMin ev"
    and "totalDrive s' = totalDrive s + (if EvType ev = EventDrive then DurationMin ev else 0)"
    and "totalRest s' = totalRest s + (if EvType ev \<in> {EventRest, EventHold} then DurationMin ev else 0)"
    and "totalDuty s' = totalDuty s + (if EvType ev \<in> {EventRest, EventHold} then 0 else DurationMin ev)"
  shows "sim_inv specs t s'"
  using assms by (auto simp: sim_inv_def log_entry_def entry_ok_def is_off_def is_drive_def)

lemma off_duty_now_nonneg: "0 \<le> d \<Longrightarrow> now (off_duty c d sl specs) = now c + minutes_dur d"
  by (cases "d = 0") (auto simp: off_duty_now)

lemma sim_step_inv:
  assumes v: "ValidatePolicy specs = Inr u" and "sim_step specs s s'" and inv: "sim_inv specs t s"
  shows "sim_inv specs t s'"
  using assms(2) inv
proof (cases rule: sim_step.cases)
  case (step_reset loc)
  obtain d sl desc where r: "required_reset (clocks s) specs = (d, sl, desc)" by (metis prod_cases3)
  show ?thesis
    by (rule sim_inv_log [OF inv, where ev = "(RestEvent d sl loc)\<lparr>Description := desc\<rparr>"
          and c = "off_duty (clocks s) d sl specs"])
      (use r inv v required_reset_pos [OF v r] in
        \<open>auto simp: step_reset insertRequiredReset_def Let_def log_entry_def RestEvent_def off_duty_now
          sim_inv_def off_duty_legal\<close>)
next
  case (step_drive d c' miles loc)
  show ?thesis
    by (rule sim_inv_log [OF inv, where ev = "DriveEvent d miles loc" and c = c'])
      (use step_drive inv ApplyDrive_Inr(2) [OF step_drive(3,2)] in
        \<open>auto simp: book_drive_def log_entry_def DriveEvent_def sim_inv_def intro: ApplyDrive_legal\<close>)
next
  case (step_duty d c' ev)
  show ?thesis
    by (rule sim_inv_log [OF inv, where ev = ev and c = c'])
      (use step_duty inv ApplyOnDuty_Inr(2) [OF step_duty(3,2)] in
        \<open>auto simp: book_duty_def log_entry_def sim_inv_def intro: ApplyOnDuty_legal\<close>)
next
  case (step_off d ev sl)
  show ?thesis
    by (rule sim_inv_log [OF inv, where ev = ev and c = "off_duty (clocks s) d sl specs"])
      (use step_off inv v in
        \<open>auto simp: book_rest_def log_entry_def sim_inv_def off_duty_now_nonneg off_duty_legal\<close>)
next
  case (step_miles miles)
  with inv show ?thesis by (simp add: sim_inv_def)
qed

lemma Simulate_inv:
  assumes "ValidatePolicy specs = Inr u" and "clocks_legal specs c" and "rests_nonneg evs"
    and "Simulate (Some c) evs specs auto = Some (Inr r)"
  obtains s where "r = sim_result c s" and "sim_inv specs (now c) s" and "(sim_step specs)\<^sup>*\<^sup>* (init_sim c) s"
proof -
  from Simulate_steps [OF assms(1) clocks_legal_safe [OF assms(2)] assms(3,4)]
  obtain s where s: "r = sim_result c s" "(sim_step specs)\<^sup>*\<^sup>* (init_sim c) s" .
  have "sim_inv specs (now c) s"
    using steps_invariant [OF s(2), of "sim_inv specs (now c)"] sim_inv_init [OF assms(2)]
      sim_step_inv [OF assms(1)] by blast
  with s that show thesis by blast
qed


section \<open>Totality\<close>

lemma sim_event_total:
  assumes v: "ValidatePolicy specs = Inr u" and safe: "clocks_safe (clocks s)"
  shows "\<exists>s'. sim_event specs True ev s = Some (Inr s') \<and> clocks_safe (clocks s')"
proof (cases "EvType ev")
  case EventDrive
  have "clocks_safe (clocks (s\<lparr>totalDistance := totalDistance s + DistanceMi ev\<rparr>))" using safe by simp
  from drive.loop_total [OF v this, of "dist_per_min ev" "EvLocationID ev" True "DurationMin ev"]
  show ?thesis by (simp add: sim_event_def EventDrive)
next
  case EventHold
  then show ?thesis
    using hold_invariant [OF v safe, of "\<lambda>_ _. True" "DurationMin ev"] by (simp add: sim_event_def)
next
  case EventRest
  then show ?thesis using safe by (simp add: sim_event_def ApplyOffDuty_def off_duty_safe)
qed (use duty.loop_total [OF v safe, where auto = True] safe in \<open>auto simp: sim_event_def\<close>)

lemma sim_events_total:
  assumes v: "ValidatePolicy specs = Inr u"
  shows "clocks_safe (clocks s) \<Longrightarrow> \<exists>s'. sim_events specs True evs s = Some (Inr s')"
proof (induction evs arbitrary: s)
  case (Cons ev evs)
  obtain s1 where "sim_event specs True ev s = Some (Inr s1)" "clocks_safe (clocks s1)"
    using sim_event_total [OF v Cons.prems] by blast
  with Cons.IH [of s1] show ?case by simp
qed simp

lemma NewDriverClocks_safe: "ValidatePolicy specs = Inr u \<Longrightarrow> clocks_safe (NewDriverClocks specs t)"
  by (rule clocks_legal_safe) (rule NewDriverClocks_legal)

text \<open>
  Property C3. With valid specifications and automatic rest insertion, \<open>Simulate\<close> terminates without
  error on every list of events: each statutory reset makes progress, so no chunk loop runs forever.
\<close>

theorem Simulate_total:
  assumes "ValidatePolicy specs = Inr ()" and "clocks_safe c"
  shows "\<exists>r. Simulate (Some c) evs specs True = Some (Inr r)"
proof -
  have "clocks_safe (clocks (init_sim c))" using assms(2) by (simp add: init_sim_def)
  from sim_events_total [OF assms(1) this, of evs] show ?thesis by (auto simp: Simulate_def assms(1))
qed

lemma Simulate_total_witness:
  "\<exists>r. Simulate (Some (NewDriverClocks USPolicySpecs 0)) [DriveEvent 1500 (Fin 1250) ''LANE'', LoadingEvent 60 ''DOCK'']
     USPolicySpecs True = Some (Inr r)"
  using Simulate_total [OF US_specs_valid NewDriverClocks_safe [OF US_specs_valid, of 0]] by blast

lemma US_run:
  obtains r where "Simulate (Some (NewDriverClocks USPolicySpecs 0)) [DriveEvent 1500 (Fin 1250) ''LANE'']
    USPolicySpecs True = Some (Inr r)"
proof -
  have "\<exists>s'. sim_events USPolicySpecs True [DriveEvent 1500 (Fin 1250) ''LANE'']
      (init_sim (NewDriverClocks USPolicySpecs 0)) = Some (Inr s')"
    by (rule sim_events_total [OF US_specs_valid])
      (simp add: init_sim_def NewDriverClocks_safe [OF US_specs_valid])
  with that show thesis by (auto simp: Simulate_def US_specs_valid)
qed

lemma US_run_nonneg [simp]: "rests_nonneg [DriveEvent d miles loc]"
  by (simp add: rests_nonneg_def DriveEvent_def)

lemma US_short_drive:
  "\<exists>c. ApplyDrive (NewDriverClocks USPolicySpecs 0) 60 USPolicySpecs = Inr c \<and>
     clocks_legal USPolicySpecs c \<and> MaxImmediateDriveMin (NewDriverClocks USPolicySpecs 0) = 480"
proof -
  have m: "MaxImmediateDriveMin (NewDriverClocks USPolicySpecs 0) = 480"
    by (simp add: MaxImmediateDriveMin_min NewDriverClocks_def USPolicySpecs_def)
  note legal = NewDriverClocks_legal [OF US_specs_valid, of 0]
  have "\<exists>c. ApplyDrive (NewDriverClocks USPolicySpecs 0) 60 USPolicySpecs = Inr c"
    by (rule ApplyDrive_total [OF clocks_legal_safe [OF legal]]) (simp add: m)
  with m legal show ?thesis by (blast intro: ApplyDrive_legal)
qed

lemma US_short_run:
  obtains r where "Simulate (Some (NewDriverClocks USPolicySpecs 0)) [DriveEvent 60 (Fin 50) ''LANE'']
      USPolicySpecs auto = Some (Inr r)" and "map (\<lambda>e. DurationMin (TEvent e)) (Timeline r) = [60]"
proof -
  obtain c where c: "ApplyDrive (NewDriverClocks USPolicySpecs 0) 60 USPolicySpecs = Inr c"
    "MaxImmediateDriveMin (NewDriverClocks USPolicySpecs 0) = 480" using US_short_drive by blast
  have zero: "drive_loop dpm loc specs a 0 s = Some (Inr s)" for dpm loc specs a s
    by (subst drive_loop.simps) simp
  have one: "drive_loop dpm loc USPolicySpecs auto 60 s = Some (Inr (book_drive 60
      (log_entry (DriveEvent 60 (dpm * of_int_fl 60) loc) c s)))"
    if "clocks s = NewDriverClocks USPolicySpecs 0" for dpm loc s
    by (subst drive_loop.simps) (simp add: c that zero)
  show thesis
    by (rule that, simp add: one Simulate_def US_specs_valid sim_event_def DriveEvent_def init_sim_def sim_result_def
        log_entry_def book_drive_def, simp)
qed

section \<open>Legality and accounting\<close>

text \<open>
  Property C1. From legal clocks, every clock the simulation logs is legal: no remaining clock is
  negative or above its statutory limit, and at most \<open>MaxHygieneMin\<close> minutes are driven without a
  qualifying break, at most \<open>MaxDrivingMin\<close> (plus the adverse-conditions extension) per shift.
\<close>

theorem Simulate_legal:
  assumes "ValidatePolicy specs = Inr ()" and "clocks_legal specs c" and "rests_nonneg evs"
    and "Simulate (Some c) evs specs auto = Some (Inr r)" and "e \<in> set (Timeline r)"
  shows "consecutiveDrivingMin (ClocksSnapshot e) \<le> MaxHygieneMin specs \<and>
    0 \<le> remainingHygieneMin (ClocksSnapshot e) \<and>
    0 \<le> remainingDrivingMin (ClocksSnapshot e) \<and>
    remainingDrivingMin (ClocksSnapshot e) \<le> MaxDrivingMin specs + drivingCeilingExtension (ClocksSnapshot e) \<and>
    0 \<le> remainingShiftMin (ClocksSnapshot e) \<and> remainingShiftMin (ClocksSnapshot e) \<le> MaxShiftMin specs \<and>
    0 \<le> remainingCycleMin (ClocksSnapshot e) \<and> remainingCycleMin (ClocksSnapshot e) \<le> MaxCycleMin specs"
proof -
  obtain s where s: "r = sim_result c s" "sim_inv specs (now c) s" using Simulate_inv [OF assms(1-4)] .
  with assms(5) have "entry_ok specs e" by (simp add: sim_inv_def sim_result_def)
  then have "clocks_legal specs (ClocksSnapshot e)" by (simp add: entry_ok_def)
  then show ?thesis by (auto simp: clocks_legal_def)
qed

lemma Simulate_legal_witness:
  "\<exists>r. Simulate (Some (NewDriverClocks USPolicySpecs 0)) [DriveEvent 1500 (Fin 1250) ''LANE''] USPolicySpecs True
      = Some (Inr r) \<and> (\<forall>e\<in>set (Timeline r). consecutiveDrivingMin (ClocksSnapshot e) \<le> 480)"
proof -
  obtain r where r: "Simulate (Some (NewDriverClocks USPolicySpecs 0)) [DriveEvent 1500 (Fin 1250) ''LANE'']
    USPolicySpecs True = Some (Inr r)" using US_run .
  have "consecutiveDrivingMin (ClocksSnapshot e) \<le> 480" if "e \<in> set (Timeline r)" for e
    using Simulate_legal [OF US_specs_valid NewDriverClocks_legal [OF US_specs_valid] US_run_nonneg r that]
    by (simp add: USPolicySpecs_def)
  with r show ?thesis by blast
qed

text \<open>
  The timeline is contiguous from the initial to the final clock, and the totals are its
  minutes: duty and rest partition the duration, and driving is part of duty.
\<close>

theorem Simulate_accounting:
  assumes "ValidatePolicy specs = Inr ()" and "clocks_legal specs c" and "rests_nonneg evs"
    and "Simulate (Some c) evs specs auto = Some (Inr r)"
  shows "chained (now c) (Timeline r) \<and> now (FinalClocks r) = timeline_end (now c) (Timeline r) \<and>
    TotalDurationMin r = minutes_of (\<lambda>_. True) (Timeline r) \<and>
    TotalRestMin r = minutes_of is_off (Timeline r) \<and>
    TotalDutyMin r = minutes_of (\<lambda>e. \<not> is_off e) (Timeline r) \<and>
    TotalDriveMin r = minutes_of is_drive (Timeline r) \<and>
    TotalDurationMin r = TotalDutyMin r + TotalRestMin r"
proof -
  have split: "minutes_of (\<lambda>_. True) es = minutes_of (\<lambda>e. \<not> is_off e) es + minutes_of is_off es" for es
    by (induction es) (simp_all add: minutes_of_def)
  obtain s where "r = sim_result c s" "sim_inv specs (now c) s" using Simulate_inv [OF assms] .
  then show ?thesis by (simp add: sim_inv_def sim_result_def split)
qed

lemma Simulate_accounting_witness:
  "\<exists>r. Simulate (Some (NewDriverClocks USPolicySpecs 0)) [DriveEvent 1500 (Fin 1250) ''LANE''] USPolicySpecs True
      = Some (Inr r) \<and> chained 0 (Timeline r) \<and> TotalDurationMin r = TotalDutyMin r + TotalRestMin r"
proof -
  obtain r where r: "Simulate (Some (NewDriverClocks USPolicySpecs 0)) [DriveEvent 1500 (Fin 1250) ''LANE'']
    USPolicySpecs True = Some (Inr r)" using US_run .
  from Simulate_accounting [OF US_specs_valid NewDriverClocks_legal [OF US_specs_valid] US_run_nonneg r] r
  show ?thesis by (auto simp: NewDriverClocks_def)
qed

lemma timeline_end_minutes:
  "\<forall>e\<in>set es. entry_ok specs e \<and> DurationMin (TEvent e) \<le> 153722867 \<Longrightarrow> chained t es \<Longrightarrow>
    timeline_end t es = t + minutes_of (\<lambda>_. True) es * Minute"
proof (induction es arbitrary: t)
  case (Cons e es)
  then have "EndTime e = t + DurationMin (TEvent e) * Minute"
    using minutes_dur_eq [of "DurationMin (TEvent e)"] by (simp add: entry_ok_def)
  moreover have "timeline_end (EndTime e) es = EndTime e + minutes_of (\<lambda>_. True) es * Minute"
    using Cons by simp
  moreover have "minutes_of (\<lambda>_. True) (e # es) = DurationMin (TEvent e) + minutes_of (\<lambda>_. True) es"
    by (simp add: minutes_of_def)
  ultimately show ?case by (simp add: algebra_simps)
qed simp

text \<open>
  The final clock is the initial one advanced by \<open>TotalDurationMin\<close> minutes, as long as
  no single chunk exceeds the 153722867 minutes (292 years) at which a \<open>time.Duration\<close> wraps.
\<close>

theorem Simulate_final_time:
  assumes "ValidatePolicy specs = Inr ()" and "clocks_legal specs c" and "rests_nonneg evs"
    and "Simulate (Some c) evs specs auto = Some (Inr r)"
    and "\<forall>e\<in>set (Timeline r). DurationMin (TEvent e) \<le> 153722867"
  shows "now (FinalClocks r) = now c + TotalDurationMin r * Minute"
proof -
  obtain s where s: "r = sim_result c s" "sim_inv specs (now c) s" using Simulate_inv [OF assms(1-4)] .
  with assms(5) timeline_end_minutes [of "timeline s" specs "now c"] show ?thesis
    by (simp add: sim_inv_def sim_result_def)
qed

lemma Simulate_final_time_witness:
  "\<exists>r. Simulate (Some (NewDriverClocks USPolicySpecs 0)) [DriveEvent 60 (Fin 50) ''LANE''] USPolicySpecs False
      = Some (Inr r) \<and> now (FinalClocks r) = TotalDurationMin r * Minute"
proof -
  obtain r where r: "Simulate (Some (NewDriverClocks USPolicySpecs 0)) [DriveEvent 60 (Fin 50) ''LANE'']
    USPolicySpecs False = Some (Inr r)" "map (\<lambda>e. DurationMin (TEvent e)) (Timeline r) = [60]"
    using US_short_run .
  have "\<forall>e\<in>set (Timeline r). DurationMin (TEvent e) \<le> 153722867" using r(2) by auto
  from Simulate_final_time [OF US_specs_valid NewDriverClocks_legal [OF US_specs_valid] US_run_nonneg r(1) this]
  have "now (FinalClocks r) = TotalDurationMin r * Minute" by (simp add: NewDriverClocks_def)
  with r(1) show ?thesis by blast
qed

section \<open>All requested work is done\<close>

definition drive_work :: "Event \<Rightarrow> int" where
  "drive_work ev = (if EvType ev = EventDrive then max 0 (DurationMin ev) else 0)"

lemma totalDrive_simps [simp]:
  "totalDrive (insertRequiredReset specs loc s) = totalDrive s"
  "totalDrive (log_entry ev c s) = totalDrive s"
  "totalDrive (book_drive d s) = totalDrive s + d"
  "totalDrive (book_duty d s) = totalDrive s"
  "totalDrive (book_rest d s) = totalDrive s"
  by (auto simp: insertRequiredReset_def log_entry_def book_drive_def book_duty_def book_rest_def Let_def
      split: prod.splits)

lemma sim_event_drive_work:
  assumes v: "ValidatePolicy specs = Inr u" and safe: "clocks_safe (clocks s)"
    and r: "sim_event specs auto ev s = Some (Inr s')"
  shows "clocks_safe (clocks s') \<and> totalDrive s' = totalDrive s + drive_work ev"
proof -
  have duty: "clocks_safe (clocks s') \<and> totalDrive s' = totalDrive s"
    if "duty_loop mk loc specs auto remD s = Some (Inr s')" for mk loc remD
    using duty.loop_invariant [OF v safe, of "\<lambda>_ t. totalDrive t = totalDrive s" remD loc mk auto] that by auto
  show ?thesis
  proof (cases "EvType ev")
    case EventDrive
    let ?s = "s\<lparr>totalDistance := totalDistance s + DistanceMi ev\<rparr>"
    have "clocks_safe (clocks ?s)" using safe by simp
    from drive.loop_invariant [OF v this, of "\<lambda>remD t. totalDrive t + remD = totalDrive s + DurationMin ev"
        "DurationMin ev" "EvLocationID ev" "dist_per_min ev" auto]
    have "clocks_safe (clocks s')"
      "totalDrive s' + min (DurationMin ev) 0 = totalDrive s + DurationMin ev"
      using r EventDrive by (auto simp: sim_event_def)
    then show ?thesis by (cases "DurationMin ev \<le> 0") (simp_all add: drive_work_def EventDrive)
  next
    case EventHold
    with r hold_invariant [OF v safe, of "\<lambda>_ t. totalDrive t = totalDrive s" "DurationMin ev" "EvLocationID ev"]
    show ?thesis by (auto simp: sim_event_def drive_work_def)
  qed (use r safe duty in \<open>auto simp: sim_event_def drive_work_def ApplyOffDuty_def off_duty_safe\<close>)
qed

lemma sim_events_drive_work:
  assumes v: "ValidatePolicy specs = Inr u"
  shows "clocks_safe (clocks s) \<Longrightarrow> sim_events specs auto evs s = Some (Inr s') \<Longrightarrow>
    totalDrive s' = totalDrive s + sum_list (map drive_work evs)"
proof (induction evs arbitrary: s)
  case (Cons ev evs)
  then obtain s1 where s1: "sim_event specs auto ev s = Some (Inr s1)" "sim_events specs auto evs s1 = Some (Inr s')"
    by (auto split: option.splits sum.splits)
  from sim_event_drive_work [OF v Cons.prems(1) s1(1)] Cons.IH [OF _ s1(2)] show ?case by simp
qed simp

text \<open>
  A completed simulation has driven exactly the minutes its drive events ask for: rests
  are inserted around the work and never replace it.
\<close>

theorem Simulate_drives_all:
  assumes "ValidatePolicy specs = Inr ()" and "clocks_safe c"
    and "Simulate (Some c) evs specs auto = Some (Inr r)"
  shows "TotalDriveMin r = (\<Sum>ev\<leftarrow>evs. if EvType ev = EventDrive then max 0 (DurationMin ev) else 0)"
proof -
  from assms(1,3) obtain s where s: "sim_events specs auto evs (init_sim c) = Some (Inr s)" "r = sim_result c s"
    by (auto simp: Simulate_def split: option.splits sum.splits)
  have "clocks_safe (clocks (init_sim c))" using assms(2) by (simp add: init_sim_def)
  from sim_events_drive_work [OF assms(1) this s(1)] show ?thesis
    by (simp add: s(2) sim_result_def init_sim_def drive_work_def [abs_def])
qed

lemma Simulate_drives_all_witness:
  "\<exists>r. Simulate (Some (NewDriverClocks USPolicySpecs 0)) [DriveEvent 1500 (Fin 1250) ''LANE''] USPolicySpecs True
      = Some (Inr r) \<and> TotalDriveMin r = 1500"
proof -
  obtain r where r: "Simulate (Some (NewDriverClocks USPolicySpecs 0)) [DriveEvent 1500 (Fin 1250) ''LANE'']
    USPolicySpecs True = Some (Inr r)" using US_run .
  from Simulate_drives_all [OF US_specs_valid NewDriverClocks_safe [OF US_specs_valid] r] r
  show ?thesis by (auto simp: DriveEvent_def)
qed

section \<open>Rest insertion is conservative\<close>

lemma sim_event_without_rests:
  assumes v: "ValidatePolicy specs = Inr u" and safe: "clocks_safe (clocks s)"
    and r: "sim_event specs False ev s = Some (Inr s')"
  shows "sim_event specs True ev s = Some (Inr s')"
proof (cases "EvType ev")
  case EventDrive
  have "clocks_safe (clocks (s\<lparr>totalDistance := totalDistance s + DistanceMi ev\<rparr>))" using safe by simp
  from drive.loop_without_rests [OF v this] r EventDrive show ?thesis by (simp add: sim_event_def)
qed (use r duty.loop_without_rests [OF v safe] in \<open>auto simp: sim_event_def\<close>)

lemma sim_events_without_rests:
  assumes v: "ValidatePolicy specs = Inr u"
  shows "clocks_safe (clocks s) \<Longrightarrow> sim_events specs False evs s = Some (Inr s') \<Longrightarrow>
    sim_events specs True evs s = Some (Inr s')"
proof (induction evs arbitrary: s)
  case (Cons ev evs)
  then obtain s1 where s1: "sim_event specs False ev s = Some (Inr s1)" "sim_events specs False evs s1 = Some (Inr s')"
    by (auto split: option.splits sum.splits)
  from sim_event_without_rests [OF v Cons.prems(1) s1(1)] sim_event_drive_work [OF v Cons.prems(1) s1(1)]
    Cons.IH [OF _ s1(2)] show ?case by simp
qed simp

text \<open>
  If the events fit the driver's clocks without any inserted rest, automatic insertion
  changes nothing: both modes return the same timeline and totals.
\<close>

theorem Simulate_rests_conservative:
  assumes "ValidatePolicy specs = Inr ()" and "clocks_safe c"
    and "Simulate (Some c) evs specs False = Some (Inr r)"
  shows "Simulate (Some c) evs specs True = Some (Inr r)"
proof -
  from assms(1,3) obtain s where s: "sim_events specs False evs (init_sim c) = Some (Inr s)" "r = sim_result c s"
    by (auto simp: Simulate_def split: option.splits sum.splits)
  have "clocks_safe (clocks (init_sim c))" using assms(2) by (simp add: init_sim_def)
  from sim_events_without_rests [OF assms(1) this s(1)] s(2) show ?thesis by (simp add: Simulate_def assms(1))
qed

lemma Simulate_rests_conservative_witness:
  "\<exists>r. Simulate (Some (NewDriverClocks USPolicySpecs 0)) [DriveEvent 60 (Fin 50) ''LANE''] USPolicySpecs True
      = Some (Inr r) \<and> map (\<lambda>e. DurationMin (TEvent e)) (Timeline r) = [60]"
proof -
  obtain r where r: "Simulate (Some (NewDriverClocks USPolicySpecs 0)) [DriveEvent 60 (Fin 50) ''LANE'']
    USPolicySpecs False = Some (Inr r)" "map (\<lambda>e. DurationMin (TEvent e)) (Timeline r) = [60]"
    using US_short_run .
  show ?thesis
    by (intro exI conjI)
      (rule Simulate_rests_conservative [OF US_specs_valid NewDriverClocks_safe [OF US_specs_valid] r(1)], rule r(2))
qed

section \<open>The statutory limits on the timeline\<close>

text \<open>
  The limits restated without the clocks: an observer of the timeline counts the current off-duty
  stretch, the driving since the last qualifying break and the duty since the last cycle restart.
\<close>

fun law_step :: "PolicySpecs \<Rightarrow> int \<times> int \<times> int \<Rightarrow> TimelineEntry \<Rightarrow> int \<times> int \<times> int" where
  "law_step specs (off, driven, duty) e =
     (let d = DurationMin (TEvent e) in
      if d \<le> 0 then (off, driven, duty)
      else if is_off e then
        (off + d,
         if off + d \<ge> WeeklyResetMin specs \<or> off + d \<ge> DailyResetMin specs \<or> d \<ge> RestBreakMin specs \<or>
            d \<ge> MinSleeperBerthBreakMin specs \<or> (IsSleeper (TEvent e) \<and> d \<ge> MinSleeperBerthResetMin specs)
         then 0 else driven,
         if off + d \<ge> WeeklyResetMin specs then 0 else duty)
      else (0, if is_drive e then driven + d else driven, duty + d))"

definition law_view :: "PolicySpecs \<Rightarrow> DriverClocks \<Rightarrow> int \<times> int \<times> int" where
  "law_view specs c = (consecutiveOffDutyMin c, consecutiveDrivingMin c, MaxCycleMin specs - remainingCycleMin c)"

definition law_ok :: "PolicySpecs \<Rightarrow> int \<times> int \<times> int \<Rightarrow> bool" where
  "law_ok specs l = (case l of (off, driven, duty) \<Rightarrow> driven \<le> MaxHygieneMin specs \<and> duty \<le> MaxCycleMin specs)"

definition law_inv :: "PolicySpecs \<Rightarrow> DriverClocks \<Rightarrow> sim_state \<Rightarrow> bool" where
  "law_inv specs c s \<longleftrightarrow> clocks_legal specs (clocks s) \<and>
     foldl (law_step specs) (law_view specs c) (timeline s) = law_view specs (clocks s) \<and>
     (\<forall>n. law_ok specs (foldl (law_step specs) (law_view specs c) (take n (timeline s))))"

lemma law_ok_view: "clocks_legal specs c \<Longrightarrow> law_ok specs (law_view specs c)"
  by (auto simp: law_ok_def law_view_def clocks_legal_def)

lemma law_inv_log:
  assumes "law_inv specs c s" and "clocks_legal specs c'"
    and "timeline s' = timeline s @ [e]" and "clocks s' = c'"
    and "law_step specs (law_view specs (clocks s)) e = law_view specs c'"
  shows "law_inv specs c s'"
proof -
  have all: "foldl (law_step specs) (law_view specs c) (timeline s') = law_view specs c'"
    using assms(1,3,5) by (simp add: law_inv_def)
  have "law_ok specs (foldl (law_step specs) (law_view specs c) (take n (timeline s')))" for n
  proof (cases "n \<le> length (timeline s)")
    case True
    with assms(1,3) show ?thesis by (simp add: law_inv_def)
  next
    case False
    then have "take n (timeline s') = timeline s'" by (simp add: assms(3))
    with all show ?thesis by (simp add: law_ok_view assms(2))
  qed
  with all show ?thesis using assms(2,4) by (simp add: law_inv_def)
qed

lemma law_step_off:
  assumes "is_off e" and "DurationMin (TEvent e) = d" and "0 \<le> d" and "IsSleeper (TEvent e) \<longrightarrow> sl"
    and "sl \<longrightarrow> IsSleeper (TEvent e) \<or> DailyResetMin specs \<le> d \<or> WeeklyResetMin specs \<le> d"
    and "clocks_legal specs c"
  shows "law_step specs (law_view specs c) e = law_view specs (off_duty c d sl specs)"
  using assms unfolding law_view_def clocks_legal_def clocks_safe_def
  by (cases "d \<le> 0") (auto simp: off_duty_def Let_def)

lemma law_step_drive:
  assumes "ApplyDrive c d specs = Inr c'" and "0 < d" and "is_drive e" and "DurationMin (TEvent e) = d"
  shows "law_step specs (law_view specs c) e = law_view specs c'"
  using ApplyDrive_Inr [OF assms(1,2)] assms(2-4)
  by (simp add: law_view_def is_off_def is_drive_def)

lemma law_step_duty:
  assumes "ApplyOnDutyNotDriving c d specs = Inr c'" and "0 < d" and "\<not> is_off e" and "\<not> is_drive e"
    and "DurationMin (TEvent e) = d"
  shows "law_step specs (law_view specs c) e = law_view specs c'"
  using ApplyOnDuty_Inr [OF assms(1,2)] assms(2-5) by (simp add: law_view_def)

lemma sim_step_law:
  assumes v: "ValidatePolicy specs = Inr u" and "sim_step specs s s'" and inv: "law_inv specs c s"
  shows "law_inv specs c s'"
proof -
  have legal: "clocks_legal specs (clocks s)" using inv by (simp add: law_inv_def)
  from assms(2) show ?thesis
  proof (cases rule: sim_step.cases)
    case (step_reset loc)
    obtain d sl desc where r: "required_reset (clocks s) specs = (d, sl, desc)" by (metis prod_cases3)
    let ?c = "off_duty (clocks s) d sl specs"
    let ?ev = "(RestEvent d sl loc)\<lparr>Description := desc\<rparr>"
    show ?thesis
      by (rule law_inv_log [OF inv, where c' = ?c and
            e = "\<lparr>StartTime = now (clocks s), EndTime = now ?c, TEvent = ?ev, ClocksSnapshot = ?c\<rparr>"])
        (use r required_reset_pos [OF v r] legal v in
          \<open>simp_all add: step_reset insertRequiredReset_def Let_def log_entry_def off_duty_legal
            law_step_off RestEvent_def is_off_def\<close>)
  next
    case (step_drive d c' miles loc)
    show ?thesis
      by (rule law_inv_log [OF inv ApplyDrive_legal [OF step_drive(3) legal]])
        (auto simp: step_drive(1) book_drive_def log_entry_def is_drive_def DriveEvent_def
          intro!: law_step_drive [OF step_drive(3,2)])
  next
    case (step_duty d c' ev)
    show ?thesis
      by (rule law_inv_log [OF inv ApplyOnDuty_legal [OF step_duty(3) legal]])
        (use step_duty in \<open>auto simp: book_duty_def log_entry_def is_off_def is_drive_def
          intro!: law_step_duty\<close>)
  next
    case (step_off d ev sl)
    show ?thesis
      by (rule law_inv_log [OF inv off_duty_legal [OF v legal, where d = d and sl = sl]])
        (use step_off legal in \<open>auto simp: book_rest_def log_entry_def is_off_def intro!: law_step_off\<close>)
  next
    case (step_miles miles)
    with inv show ?thesis by (simp add: law_inv_def)
  qed
qed

text \<open>
  Property C2. Read off the timeline alone: at no point of a simulated trip have more than
  \<open>MaxHygieneMin\<close> minutes been driven since the last qualifying break, nor more than \<open>MaxCycleMin\<close>
  minutes of duty been worked since the last cycle restart.
\<close>

theorem Simulate_statutory_limits:
  assumes "ValidatePolicy specs = Inr ()" and "clocks_legal specs c" and "rests_nonneg evs"
    and "Simulate (Some c) evs specs auto = Some (Inr r)"
    and "foldl (law_step specs)
      (consecutiveOffDutyMin c, consecutiveDrivingMin c, MaxCycleMin specs - remainingCycleMin c)
      (take n (Timeline r)) = (off, driven, duty)"
  shows "driven \<le> MaxHygieneMin specs \<and> duty \<le> MaxCycleMin specs"
proof -
  obtain s where s: "r = sim_result c s" "(sim_step specs)\<^sup>*\<^sup>* (init_sim c) s"
    using Simulate_inv [OF assms(1-4)] .
  have "law_inv specs c (init_sim c)" using assms(2) by (simp add: law_inv_def init_sim_def law_ok_view)
  with steps_invariant [OF s(2), of "law_inv specs c"] sim_step_law [OF assms(1)]
  have "law_inv specs c s" by blast
  then have "law_ok specs (foldl (law_step specs) (law_view specs c) (take n (Timeline r)))"
    by (simp add: s(1) sim_result_def law_inv_def)
  with assms(5) show ?thesis by (simp add: law_view_def law_ok_def)
qed

lemma Simulate_statutory_limits_witness:
  "\<exists>r. Simulate (Some (NewDriverClocks USPolicySpecs 0)) [DriveEvent 1500 (Fin 1250) ''LANE''] USPolicySpecs True
      = Some (Inr r) \<and> fst (snd (foldl (law_step USPolicySpecs) (600, 0, 0) (Timeline r))) \<le> 480"
proof -
  obtain r where r: "Simulate (Some (NewDriverClocks USPolicySpecs 0)) [DriveEvent 1500 (Fin 1250) ''LANE'']
    USPolicySpecs True = Some (Inr r)" using US_run .
  obtain off driven duty where
    f: "foldl (law_step USPolicySpecs) (600, 0, 0) (take (length (Timeline r)) (Timeline r)) = (off, driven, duty)"
    by (metis prod_cases3)
  have "driven \<le> 480"
    using Simulate_statutory_limits [OF US_specs_valid NewDriverClocks_legal [OF US_specs_valid] US_run_nonneg r,
        of "length (Timeline r)" off driven duty] f
    by (simp add: NewDriverClocks_def USPolicySpecs_def)
  with r f show ?thesis by auto
qed

end
