(* ===== verification/HosTrip.thy ===== *)
theory HosTrip
  imports HosRun
begin

text \<open>
  \<open>internal/domain/model/hos/simulator.go\<close>, \<open>EvaluateTripFeasibility\<close>: deadhead, early dwell,
  loading, linehaul, early dwell and unloading, each a run of \<open>Simulate\<close>, then the check of the
  pickup and delivery windows. The texts of \<open>InfeasibilityReason\<close> are the constructors of
  \<open>trip_reason\<close>, which carry the two times the text prints.
\<close>

section \<open>Trip evaluation\<close>

datatype trip_reason =
    NoReason
  | PickupAfterLatest time time
  | DeliveryAfterLatest time time

record TripFeasibilityResult =
  IsFeasible :: bool
  PickupArrivalTime :: time
  LoadingEndTime :: time
  DeliveryArrivalTime :: time
  UnloadingEndTime :: time
  DeadheadDriveMin :: int
  LoadedDriveMin :: int
  InsertedRestMin :: int
  InsertedDwellMin :: int
  TotalTripDurationMin :: int
  InfeasibilityReason :: trip_reason
  TripFinalClocks :: DriverClocks

text \<open>\<open>x, err := call(); if err != nil { return nil, err }\<close> for a call that may not return.\<close>

definition on_ok :: "'a result option \<Rightarrow> ('a \<Rightarrow> 'b result option) \<Rightarrow> 'b result option" where
  "on_ok m k = (case m of None \<Rightarrow> None | Some (Inl e) \<Rightarrow> Some (Inl e) | Some (Inr x) \<Rightarrow> k x)"

text \<open>\<open>int(math.Ceil((miles / avgSpeedMPH) * 60.0))\<close>\<close>

definition drive_minutes :: "f64 \<Rightarrow> f64 \<Rightarrow> int" where
  "drive_minutes miles speed = to_int (Ceil ((miles / speed) * Fin 60))"

text \<open>Steps 2 and 5: an early arrival holds until the window opens. Result: clocks, dwell, rest.\<close>

definition early_dwell ::
  "DriverClocks \<Rightarrow> time \<Rightarrow> string \<Rightarrow> PolicySpecs \<Rightarrow> (DriverClocks \<times> int \<times> int) result option" where
  "early_dwell c earliest locID specs =
     (if \<not> IsZero earliest \<and> now c < earliest then
        (let dwell = to_int (Ceil (dur_Minutes (time_Sub earliest (now c)))) in
         if dwell > 0 then
           on_ok (Simulate (Some c) [HoldEvent dwell locID] specs True)
             (\<lambda>resDwell. Some (Inr (FinalClocks resDwell, dwell, TotalRestMin resDwell)))
         else Some (Inr (c, 0, 0)))
      else Some (Inr (c, 0, 0)))"

definition check_windows :: "time \<Rightarrow> time \<Rightarrow> TripFeasibilityResult \<Rightarrow> TripFeasibilityResult" where
  "check_windows pickupLatest deliveryLatest result =
     (if \<not> IsZero pickupLatest \<and> PickupArrivalTime result > pickupLatest then
        result\<lparr>IsFeasible := False,
          InfeasibilityReason := PickupAfterLatest (PickupArrivalTime result) pickupLatest\<rparr>
      else if \<not> IsZero deliveryLatest \<and> DeliveryArrivalTime result > deliveryLatest then
        result\<lparr>IsFeasible := False,
          InfeasibilityReason := DeliveryAfterLatest (DeliveryArrivalTime result) deliveryLatest\<rparr>
      else result)"

definition EvaluateTripFeasibility ::
  "DriverClocks option \<Rightarrow> f64 \<Rightarrow> f64 \<Rightarrow> int \<Rightarrow> int \<Rightarrow> f64 \<Rightarrow> time \<Rightarrow> time \<Rightarrow> time \<Rightarrow> time \<Rightarrow>
    PolicySpecs \<Rightarrow> TripFeasibilityResult result option" where
  "EvaluateTripFeasibility initialClocks deadheadMiles loadedMiles loadingMin unloadingMin avgSpeedMPH
       pickupEarliest pickupLatest deliveryEarliest deliveryLatest specs =
     (let avgSpeedMPH = (if avgSpeedMPH \<le> 0 then Fin 50 else avgSpeedMPH);
          deadheadDriveMin = drive_minutes deadheadMiles avgSpeedMPH;
          loadedDriveMin = drive_minutes loadedMiles avgSpeedMPH in
      on_ok (Simulate initialClocks [DriveEvent deadheadDriveMin deadheadMiles ''ORIGIN_DEADHEAD''] specs True)
       (\<lambda>res1. let pickupArrival = now (FinalClocks res1) in
      on_ok (early_dwell (FinalClocks res1) pickupEarliest ''ORIGIN_EARLY_ARRIVAL_DWELL'' specs)
       (\<lambda>(clocksAfterPickup, dwell1, dwellRest1).
      on_ok (Simulate (Some clocksAfterPickup) [LoadingEvent loadingMin ''ORIGIN_FACILITY''] specs True)
       (\<lambda>resLoading. let loadingEnd = now (FinalClocks resLoading) in
      on_ok (Simulate (Some (FinalClocks resLoading))
              [DriveEvent loadedDriveMin loadedMiles ''LINEHAUL_TRANSIT''] specs True)
       (\<lambda>resLinehaul. let deliveryArrival = now (FinalClocks resLinehaul) in
      on_ok (early_dwell (FinalClocks resLinehaul) deliveryEarliest ''DEST_EARLY_ARRIVAL_DWELL'' specs)
       (\<lambda>(clocksAfterDelivery, dwell2, dwellRest2).
      on_ok (Simulate (Some clocksAfterDelivery) [UnloadingEvent unloadingMin ''DEST_FACILITY''] specs True)
       (\<lambda>resUnloading. let unloadingEnd = now (FinalClocks resUnloading) in
        case initialClocks of
          None \<Rightarrow> Some (Inl (Panic ''nil pointer dereference''))
        | Some c0 \<Rightarrow>
          Some (Inr (check_windows pickupLatest deliveryLatest
            \<lparr>IsFeasible = True,
             PickupArrivalTime = pickupArrival,
             LoadingEndTime = loadingEnd,
             DeliveryArrivalTime = deliveryArrival,
             UnloadingEndTime = unloadingEnd,
             DeadheadDriveMin = deadheadDriveMin,
             LoadedDriveMin = loadedDriveMin,
             InsertedRestMin = TotalRestMin res1 + TotalRestMin resLoading + TotalRestMin resLinehaul +
               TotalRestMin resUnloading + (dwellRest1 + dwellRest2),
             InsertedDwellMin = dwell1 + dwell2,
             TotalTripDurationMin = to_int (Ceil (dur_Minutes (time_Sub unloadingEnd (now c0)))),
             InfeasibilityReason = NoReason,
             TripFinalClocks = FinalClocks resUnloading\<rparr>)))))))))"

lemma on_ok_simps [simp]:
  "on_ok None k = None" "on_ok (Some (Inl e)) k = Some (Inl e)" "on_ok (Some (Inr x)) k = k x"
  by (simp_all add: on_ok_def)

lemma on_ok_InrE:
  assumes "on_ok m k = Some (Inr y)"
  obtains x where "m = Some (Inr x)" and "k x = Some (Inr y)"
  using assms by (auto simp: on_ok_def split: option.splits sum.splits)

section \<open>Simulated time moves forward\<close>

text \<open>
  Specifications with limits below 292 years; under them every chunk of a run is short enough for
  its \<open>time.Duration\<close>.
\<close>

definition specs_small :: "PolicySpecs \<Rightarrow> bool" where
  "specs_small specs \<longleftrightarrow> MaxHygieneMin specs \<le> 153722867 \<and> MaxShiftMin specs \<le> 153722867 \<and>
     RestBreakMin specs \<le> 153722867 \<and> DailyResetMin specs \<le> 153722867 \<and> WeeklyResetMin specs \<le> 153722867"

definition whole_after :: "time \<Rightarrow> time \<Rightarrow> bool" where
  "whole_after t u \<longleftrightarrow> t \<le> u \<and> Minute dvd u - t"

lemma whole_after_refl [simp]: "whole_after t t"
  by (simp add: whole_after_def)

lemma whole_after_trans: "whole_after t u \<Longrightarrow> whole_after u v \<Longrightarrow> whole_after t v"
  using dvd_add [of Minute "u - t" "v - u"] by (auto simp: whole_after_def)

lemma whole_after_minutes:
  "0 \<le> n \<Longrightarrow> n \<le> 153722867 \<Longrightarrow> whole_after t u \<Longrightarrow> whole_after t (u + minutes_dur n)"
  by (rule whole_after_trans, assumption) (simp add: whole_after_def minutes_dur_eq Minute_def)

definition fwd_inv :: "PolicySpecs \<Rightarrow> time \<Rightarrow> sim_state \<Rightarrow> bool" where
  "fwd_inv specs t s \<longleftrightarrow> clocks_legal specs (clocks s) \<and> whole_after t (now (clocks s))"

lemma fwd_invI:
  "fwd_inv specs t s \<Longrightarrow> clocks_legal specs (clocks s') \<Longrightarrow> 0 \<le> d \<Longrightarrow> d \<le> 153722867 \<Longrightarrow>
    now (clocks s') = now (clocks s) + minutes_dur d \<Longrightarrow> fwd_inv specs t s'"
  by (simp add: fwd_inv_def whole_after_minutes)

lemma fwd_reset:
  assumes v: "ValidatePolicy specs = Inr u" and small: "specs_small specs" and inv: "fwd_inv specs t s"
  shows "fwd_inv specs t (insertRequiredReset specs loc s)"
proof -
  obtain d sl desc where r: "required_reset (clocks s) specs = (d, sl, desc)" by (metis prod_cases3)
  have "0 < d" using required_reset_pos [OF v r] .
  moreover have "d \<le> 153722867"
    using r small by (auto simp: required_reset_def specs_small_def split: if_splits)
  ultimately show ?thesis using inv v
    by (intro fwd_invI [OF inv, where d = d])
      (auto simp: reset_clocks_def r off_duty_now fwd_inv_def intro: off_duty_legal)
qed

lemma fwd_drive:
  assumes small: "specs_small specs" and a: "ApplyDrive (clocks s) d specs = Inr c" and d: "0 < d"
    and inv: "fwd_inv specs t s" and "clocks s' = c"
  shows "fwd_inv specs t s'"
proof -
  have "d \<le> MaxHygieneMin specs"
    using ApplyDrive_Inr(1) [OF a d] d inv
    by (auto simp: le_MaxImmediateDriveMin fwd_inv_def clocks_legal_def)
  with small d have "d \<le> 153722867" by (simp add: specs_small_def)
  with assms ApplyDrive_Inr(2) [OF a d] ApplyDrive_legal [OF a] show ?thesis
    by (intro fwd_invI [OF inv, where d = d]) (auto simp: fwd_inv_def)
qed

lemma fwd_duty:
  assumes small: "specs_small specs" and a: "ApplyOnDutyNotDriving (clocks s) d specs = Inr c" and d: "0 < d"
    and inv: "fwd_inv specs t s" and "clocks s' = c"
  shows "fwd_inv specs t s'"
proof -
  have "d \<le> MaxShiftMin specs"
    using ApplyOnDuty_Inr(1) [OF a d] inv by (auto simp: fwd_inv_def clocks_legal_def)
  with small d have "d \<le> 153722867" by (simp add: specs_small_def)
  with assms ApplyOnDuty_Inr(2) [OF a d] ApplyOnDuty_legal [OF a] show ?thesis
    by (intro fwd_invI [OF inv, where d = d]) (auto simp: fwd_inv_def)
qed

lemma fwd_off:
  assumes "ValidatePolicy specs = Inr u" and small: "specs_small specs" and inv: "fwd_inv specs t s" and "0 < d"
    and "d \<le> max (DailyResetMin specs) (WeeklyResetMin specs)" and "clocks s' = off_duty (clocks s) d sl specs"
  shows "fwd_inv specs t s'"
  using assms
  by (intro fwd_invI [OF inv, where d = d])
    (auto simp: fwd_inv_def off_duty_now specs_small_def intro: off_duty_legal)

lemma sim_event_forward:
  assumes v: "ValidatePolicy specs = Inr u" and small: "specs_small specs" and inv: "fwd_inv specs t s"
    and nr: "EvType ev \<noteq> EventRest"
  shows "\<exists>s'. sim_event specs True ev s = Some (Inr s') \<and> fwd_inv specs t s'"
proof -
  have safe: "clocks_safe (clocks s)" using inv by (auto simp: fwd_inv_def intro: clocks_legal_safe)
  have duty: "\<exists>s'. duty_loop mk loc specs True remD s = Some (Inr s') \<and> fwd_inv specs t s'" for mk loc remD
  proof -
    have "duty_loop mk loc specs True remD s = Some (Inl ErrHOSViolation) \<and> \<not> True \<or>
      (\<exists>s'. duty_loop mk loc specs True remD s = Some (Inr s') \<and> clocks_safe (clocks s') \<and> fwd_inv specs t s')"
      by (rule duty.loop_invariant [OF v safe, where P = "\<lambda>_. fwd_inv specs t"])
        (simp_all add: inv fwd_reset [OF v small] fwd_duty [OF small])
    then show ?thesis by blast
  qed
  show ?thesis
  proof (cases "EvType ev")
    case EventDrive
    let ?s = "s\<lparr>totalDistance := totalDistance s + DistanceMi ev\<rparr>"
    have s: "clocks_safe (clocks ?s)" "fwd_inv specs t ?s" using safe inv by (simp_all add: fwd_inv_def)
    have "drive_loop (dist_per_min ev) (EvLocationID ev) specs True (DurationMin ev) ?s
        = Some (Inl ErrHOSViolation) \<and> \<not> True \<or>
      (\<exists>s'. drive_loop (dist_per_min ev) (EvLocationID ev) specs True (DurationMin ev) ?s = Some (Inr s') \<and>
        clocks_safe (clocks s') \<and> fwd_inv specs t s')"
      by (rule drive.loop_invariant [OF v s(1), where P = "\<lambda>_. fwd_inv specs t"])
        (simp_all add: s(2) fwd_reset [OF v small] fwd_drive [OF small])
    with EventDrive show ?thesis by (auto simp: sim_event_def)
  next
    case EventHold
    have "\<exists>s'. hold_loop (EvLocationID ev) specs (DurationMin ev) s = Some (Inr s') \<and>
        clocks_safe (clocks s') \<and> fwd_inv specs t s'"
    proof (rule hold_invariant [OF v safe, where P = "\<lambda>_. fwd_inv specs t"])
      show "fwd_inv specs t (book_rest d (log_entry (HoldEvent d (EvLocationID ev)) (off_duty (clocks s) d sl specs) s))"
        if "fwd_inv specs t s" "0 < d" "d \<le> max (DailyResetMin specs) (WeeklyResetMin specs)" for s d sl
        by (rule fwd_off [OF v small that]) simp
    qed (rule inv)
    with EventHold show ?thesis by (auto simp: sim_event_def)
  qed (use nr inv duty in \<open>auto simp: sim_event_def\<close>)
qed

lemma Simulate_one_total:
  assumes "ValidatePolicy specs = Inr u" and "clocks_safe c"
  obtains r where "Simulate (Some c) [ev] specs True = Some (Inr r)" and "clocks_safe (FinalClocks r)"
  using sim_event_total [OF assms(1), of "init_sim c" ev] assms
  by (auto simp: Simulate_def init_sim_def sim_result_def)

lemma Simulate_one_forward:
  assumes "ValidatePolicy specs = Inr u" and "specs_small specs" and "clocks_legal specs c"
    and "EvType ev \<noteq> EventRest" and "Simulate (Some c) [ev] specs True = Some (Inr r)"
  shows "clocks_legal specs (FinalClocks r) \<and> whole_after (now c) (now (FinalClocks r))"
proof -
  have "fwd_inv specs (now c) (init_sim c)" using assms(3) by (simp add: fwd_inv_def init_sim_def)
  from sim_event_forward [OF assms(1,2) this assms(4)] assms(5) show ?thesis
    by (auto simp: Simulate_def assms(1) sim_result_def fwd_inv_def)
qed

lemma hold_advances:
  assumes v: "ValidatePolicy specs = Inr u" and small: "specs_small specs" and safe: "clocks_safe c"
    and "0 < n" and r: "Simulate (Some c) [HoldEvent n loc] specs True = Some (Inr r)"
  shows "now (FinalClocks r) = now c + n * Minute"
proof -
  have s: "clocks_safe (clocks (init_sim c))" using safe by (simp add: init_sim_def)
  have "\<exists>s'. hold_loop loc specs n (init_sim c) = Some (Inr s') \<and> clocks_safe (clocks s') \<and>
    now (clocks s') + min n 0 * Minute = now c + n * Minute"
    by (rule hold_invariant [OF v s, of "\<lambda>remD s. now (clocks s) + remD * Minute = now c + n * Minute"])
      (use small in \<open>auto simp: init_sim_def off_duty_now specs_small_def minutes_dur_eq algebra_simps\<close>)
  with r \<open>0 < n\<close> show ?thesis
    by (auto simp: Simulate_def v sim_event_def HoldEvent_def sim_result_def)
qed

lemma early_dwell_total:
  assumes "ValidatePolicy specs = Inr u" and "clocks_safe c"
  obtains c' d r where "early_dwell c t loc specs = Some (Inr (c', d, r))" and "clocks_safe c'"
proof -
  let ?n = "to_int (Ceil (dur_Minutes (time_Sub t (now c))))"
  obtain r where r: "Simulate (Some c) [HoldEvent ?n loc] specs True = Some (Inr r)" "clocks_safe (FinalClocks r)"
    using Simulate_one_total [OF assms] .
  show thesis
  proof (cases "\<not> IsZero t \<and> now c < t \<and> 0 < ?n")
    case True
    with r show thesis by (intro that) (auto simp: early_dwell_def)
  next
    case False
    with assms(2) show thesis by (intro that) (auto simp: early_dwell_def Let_def)
  qed
qed

text \<open>
  The dwell never moves time back, and it reaches the opening of the window when the driver is a
  whole number of minutes early.
\<close>

lemma early_dwell_forward:
  assumes v: "ValidatePolicy specs = Inr u" and small: "specs_small specs" and legal: "clocks_legal specs c"
    and e: "early_dwell c t loc specs = Some (Inr (c', d, r))"
  shows "clocks_legal specs c' \<and> whole_after (now c) (now c') \<and>
    (\<not> IsZero t \<longrightarrow> Minute dvd t - now c \<longrightarrow> t - now c \<le> 153722867 * Minute \<longrightarrow> t \<le> now c')"
proof (cases "c' = c \<and> (IsZero t \<or> t \<le> now c)")
  case True
  with legal show ?thesis by auto
next
  case False
  let ?n = "to_int (Ceil (dur_Minutes (time_Sub t (now c))))"
  have whole: "t = now c + ?n * Minute" "0 < ?n"
    if dvd: "Minute dvd t - now c" and "t - now c \<le> 153722867 * Minute" and "now c < t"
  proof -
    obtain n where n: "t - now c = n * Minute" using dvd by (metis dvdE mult.commute)
    with that have "0 < n" "n \<le> 153722867" by (auto simp: Minute_def)
    moreover have "time_Sub t (now c) = n * Minute"
      using \<open>0 < n\<close> \<open>n \<le> 153722867\<close> by (simp add: time_Sub_def n Minute_def min_def max_def)
    ultimately have "?n = n" by (simp add: dur_Minutes_whole to_int_Ceil_of_int del: Ceil.simps to_int.simps)
    with n \<open>0 < n\<close> show "t = now c + ?n * Minute" "0 < ?n" by auto
  qed
  show ?thesis
  proof (cases "\<not> IsZero t \<and> now c < t \<and> 0 < ?n")
    case True
    then obtain q where q: "Simulate (Some c) [HoldEvent ?n loc] specs True = Some (Inr q)" "c' = FinalClocks q"
      using e unfolding early_dwell_def Let_def by (auto elim: on_ok_InrE)
    have "clocks_legal specs c' \<and> whole_after (now c) (now c')"
      using Simulate_one_forward [OF v small legal _ q(1)] q(2) by (simp add: HoldEvent_def)
    moreover have "now c' = now c + ?n * Minute"
      using hold_advances [OF v small clocks_legal_safe [OF legal] _ q(1)] True q(2) by simp
    ultimately show ?thesis using whole(1) True by (metis order_refl)
  next
    case False
    with e have "c' = c" by (auto simp: early_dwell_def Let_def split: if_splits)
    with legal False whole(2) show ?thesis by (cases "now c < t") auto
  qed
qed

section \<open>Properties of a trip\<close>

lemma trip_returns:
  assumes v: "ValidatePolicy specs = Inr ()" and safe: "clocks_safe c"
  shows "\<exists>r. EvaluateTripFeasibility (Some c) deadhead loaded loadingMin unloadingMin speed pe pl de dl specs
    = Some (Inr r)"
proof -
  let ?speed = "if speed \<le> 0 then Fin 50 else speed"
  obtain r1 where 1: "Simulate (Some c) [DriveEvent (drive_minutes deadhead ?speed) deadhead ''ORIGIN_DEADHEAD'']
    specs True = Some (Inr r1)" "clocks_safe (FinalClocks r1)" using Simulate_one_total [OF v safe] .
  obtain c2 d2 q2 where 2: "early_dwell (FinalClocks r1) pe ''ORIGIN_EARLY_ARRIVAL_DWELL'' specs
    = Some (Inr (c2, d2, q2))" "clocks_safe c2" using early_dwell_total [OF v 1(2)] .
  obtain r3 where 3: "Simulate (Some c2) [LoadingEvent loadingMin ''ORIGIN_FACILITY''] specs True = Some (Inr r3)"
    "clocks_safe (FinalClocks r3)" using Simulate_one_total [OF v 2(2)] .
  obtain r4 where 4: "Simulate (Some (FinalClocks r3))
    [DriveEvent (drive_minutes loaded ?speed) loaded ''LINEHAUL_TRANSIT''] specs True = Some (Inr r4)"
    "clocks_safe (FinalClocks r4)" using Simulate_one_total [OF v 3(2)] .
  obtain c5 d5 q5 where 5: "early_dwell (FinalClocks r4) de ''DEST_EARLY_ARRIVAL_DWELL'' specs
    = Some (Inr (c5, d5, q5))" "clocks_safe c5" using early_dwell_total [OF v 4(2)] .
  obtain r6 where "Simulate (Some c5) [UnloadingEvent unloadingMin ''DEST_FACILITY''] specs True = Some (Inr r6)"
    using Simulate_one_total [OF v 5(2)] .
  with 1 2 3 4 5 show ?thesis unfolding EvaluateTripFeasibility_def Let_def by simp
qed

text \<open>
  With valid specifications the evaluation of a trip always returns a result: none of
  its six simulated legs can fail or run forever, whatever the miles, speed and windows.
\<close>

theorem EvaluateTripFeasibility_total:
  assumes v: "ValidatePolicy specs = Inr ()" and safe: "clocks_safe c"
  shows "\<exists>r. EvaluateTripFeasibility (Some c) deadhead loaded loadingMin unloadingMin speed pe pl de dl specs
    = Some (Inr r)"
  by (rule trip_returns [OF assms])

lemma EvaluateTripFeasibility_total_witness:
  "\<exists>r. EvaluateTripFeasibility (Some (NewDriverClocks USPolicySpecs 0)) (Fin 120) (Fin 900) 60 60 (Fin 50)
     (3600 * Second) (90000 * Second) (90000 * Second) (400000 * Second) USPolicySpecs = Some (Inr r)"
  by (rule EvaluateTripFeasibility_total [OF US_specs_valid NewDriverClocks_safe [OF US_specs_valid]])

lemma EvaluateTrip_legs:
  assumes "EvaluateTripFeasibility (Some c) deadhead loaded loadingMin unloadingMin speed pe pl de dl specs
    = Some (Inr r)"
  obtains r1 p2 r3 r4 p5 r6 r0 m1 m2 where
    "Simulate (Some c) [DriveEvent m1 deadhead ''ORIGIN_DEADHEAD''] specs True = Some (Inr r1)"
    "early_dwell (FinalClocks r1) pe ''ORIGIN_EARLY_ARRIVAL_DWELL'' specs = Some (Inr p2)"
    "Simulate (Some (fst p2)) [LoadingEvent loadingMin ''ORIGIN_FACILITY''] specs True = Some (Inr r3)"
    "Simulate (Some (FinalClocks r3)) [DriveEvent m2 loaded ''LINEHAUL_TRANSIT''] specs True = Some (Inr r4)"
    "early_dwell (FinalClocks r4) de ''DEST_EARLY_ARRIVAL_DWELL'' specs = Some (Inr p5)"
    "Simulate (Some (fst p5)) [UnloadingEvent unloadingMin ''DEST_FACILITY''] specs True = Some (Inr r6)"
    "r = check_windows pl dl r0" "IsFeasible r0"
    "PickupArrivalTime r0 = now (FinalClocks r1)" "LoadingEndTime r0 = now (FinalClocks r3)"
    "DeliveryArrivalTime r0 = now (FinalClocks r4)" "UnloadingEndTime r0 = now (FinalClocks r6)"
    "TripFinalClocks r0 = FinalClocks r6"
  using assms unfolding EvaluateTripFeasibility_def Let_def case_prod_beta option.case
  by (elim on_ok_InrE, simp only: option.inject sum.inject) (rule that, assumption+, erule sym, simp_all)

lemma check_windows_times [simp]:
  "PickupArrivalTime (check_windows pl dl r) = PickupArrivalTime r"
  "LoadingEndTime (check_windows pl dl r) = LoadingEndTime r"
  "DeliveryArrivalTime (check_windows pl dl r) = DeliveryArrivalTime r"
  "UnloadingEndTime (check_windows pl dl r) = UnloadingEndTime r"
  "TripFinalClocks (check_windows pl dl r) = TripFinalClocks r"
  by (simp_all add: check_windows_def)

lemma check_windows_feasible:
  "IsFeasible r \<Longrightarrow> IsFeasible (check_windows pl dl r) \<longleftrightarrow>
    (IsZero pl \<or> PickupArrivalTime r \<le> pl) \<and> (IsZero dl \<or> DeliveryArrivalTime r \<le> dl)"
  by (auto simp: check_windows_def)

lemma EvaluateTripFeasibility_sound_spec:
  assumes v: "ValidatePolicy specs = Inr ()" and small: "specs_small specs" and legal: "clocks_legal specs c"
    and r: "EvaluateTripFeasibility (Some c) deadhead loaded loadingMin unloadingMin speed pe pl de dl specs
      = Some (Inr r)"
  shows "now c \<le> PickupArrivalTime r \<and> PickupArrivalTime r \<le> LoadingEndTime r \<and>
    LoadingEndTime r \<le> DeliveryArrivalTime r \<and> DeliveryArrivalTime r \<le> UnloadingEndTime r \<and>
    UnloadingEndTime r = now (TripFinalClocks r) \<and> clocks_legal specs (TripFinalClocks r) \<and>
    (IsFeasible r \<longleftrightarrow> (IsZero pl \<or> PickupArrivalTime r \<le> pl) \<and> (IsZero dl \<or> DeliveryArrivalTime r \<le> dl))"
proof -
  note sim = Simulate_one_forward [OF v small] and dwell = early_dwell_forward [OF v small]
  from r show ?thesis
  proof (cases rule: EvaluateTrip_legs)
    case (1 r1 p2 r3 r4 p5 r6 r0 m1 m2)
    have a: "clocks_legal specs (FinalClocks r1)" "now c \<le> now (FinalClocks r1)"
      using sim [OF legal _ 1(1)] by (auto simp: DriveEvent_def whole_after_def)
    have b: "clocks_legal specs (fst p2)" "now (FinalClocks r1) \<le> now (fst p2)"
      using dwell [OF a(1), of pe _ "fst p2" "fst (snd p2)" "snd (snd p2)"] 1(2) by (auto simp: whole_after_def)
    have c: "clocks_legal specs (FinalClocks r3)" "now (fst p2) \<le> now (FinalClocks r3)"
      using sim [OF b(1) _ 1(3)] by (auto simp: LoadingEvent_def whole_after_def)
    have d: "clocks_legal specs (FinalClocks r4)" "now (FinalClocks r3) \<le> now (FinalClocks r4)"
      using sim [OF c(1) _ 1(4)] by (auto simp: DriveEvent_def whole_after_def)
    have e: "clocks_legal specs (fst p5)" "now (FinalClocks r4) \<le> now (fst p5)"
      using dwell [OF d(1), of de _ "fst p5" "fst (snd p5)" "snd (snd p5)"] 1(5) by (auto simp: whole_after_def)
    have f: "clocks_legal specs (FinalClocks r6)" "now (fst p5) \<le> now (FinalClocks r6)"
      using sim [OF e(1) _ 1(6)] by (auto simp: UnloadingEvent_def whole_after_def)
    show ?thesis using a(2) b(2) c(2) d(2) e(2) f check_windows_feasible [OF 1(8)]
      by (simp add: 1(7,9-13))
  qed
qed

text \<open>
  Property C20. A trip result is physical: its four times are in order from the driver's clock to the
  final clock, the final clock is legal, and it is reported feasible exactly when both arrivals meet
  the latest times that are set.
\<close>

theorem EvaluateTripFeasibility_sound:
  assumes v: "ValidatePolicy specs = Inr ()" and small: "specs_small specs" and legal: "clocks_legal specs c"
    and r: "EvaluateTripFeasibility (Some c) deadhead loaded loadingMin unloadingMin speed pe pl de dl specs
      = Some (Inr r)"
  shows "now c \<le> PickupArrivalTime r \<and> PickupArrivalTime r \<le> LoadingEndTime r \<and>
    LoadingEndTime r \<le> DeliveryArrivalTime r \<and> DeliveryArrivalTime r \<le> UnloadingEndTime r \<and>
    UnloadingEndTime r = now (TripFinalClocks r) \<and> clocks_legal specs (TripFinalClocks r) \<and>
    (IsFeasible r \<longleftrightarrow> (IsZero pl \<or> PickupArrivalTime r \<le> pl) \<and> (IsZero dl \<or> DeliveryArrivalTime r \<le> dl))"
  using assms by (rule EvaluateTripFeasibility_sound_spec)

lemma US_specs_small [simp]: "specs_small USPolicySpecs"
  by (simp add: specs_small_def USPolicySpecs_def)

lemma EvaluateTripFeasibility_sound_witness:
  "\<exists>r. EvaluateTripFeasibility (Some (NewDriverClocks USPolicySpecs 0)) (Fin 120) (Fin 900) 60 60 (Fin 50)
      0 0 0 0 USPolicySpecs = Some (Inr r) \<and> 0 \<le> PickupArrivalTime r \<and> PickupArrivalTime r \<le> UnloadingEndTime r"
proof -
  let ?c = "NewDriverClocks USPolicySpecs 0"
  note legal = NewDriverClocks_legal [OF US_specs_valid, of 0]
  obtain r where r: "EvaluateTripFeasibility (Some ?c) (Fin 120) (Fin 900) 60 60 (Fin 50) 0 0 0 0 USPolicySpecs
    = Some (Inr r)" using trip_returns [OF US_specs_valid clocks_legal_safe [OF legal]] by blast
  from EvaluateTripFeasibility_sound [OF US_specs_valid US_specs_small legal r] r show ?thesis
    by (auto simp: NewDriverClocks_def)
qed

lemma dvd_shift: "Minute dvd t - c \<Longrightarrow> whole_after c u \<Longrightarrow> Minute dvd t - u"
  using dvd_diff [of Minute "t - c" "u - c"] by (simp add: whole_after_def)

text \<open>
  An early driver waits for the windows: when the openings are a whole number of minutes
  (at most 292 years) from the driver's clock, loading ends no earlier than \<open>pickupEarliest\<close> and
  unloading no earlier than \<open>deliveryEarliest\<close>.
\<close>

theorem EvaluateTripFeasibility_waits:
  assumes v: "ValidatePolicy specs = Inr ()" and small: "specs_small specs" and legal: "clocks_legal specs c"
    and r: "EvaluateTripFeasibility (Some c) deadhead loaded loadingMin unloadingMin speed pe pl de dl specs
      = Some (Inr r)"
    and pe: "\<not> IsZero pe" "Minute dvd pe - now c" "pe - now c \<le> 153722867 * Minute"
    and de: "\<not> IsZero de" "Minute dvd de - now c" "de - now c \<le> 153722867 * Minute"
  shows "pe \<le> LoadingEndTime r \<and> de \<le> UnloadingEndTime r"
proof -
  note sim = Simulate_one_forward [OF v small] and dwell = early_dwell_forward [OF v small]
  from r show ?thesis
  proof (cases rule: EvaluateTrip_legs)
    case (1 r1 p2 r3 r4 p5 r6 r0 m1 m2)
    have a: "clocks_legal specs (FinalClocks r1)" "whole_after (now c) (now (FinalClocks r1))"
      using sim [OF legal _ 1(1)] by (auto simp: DriveEvent_def)
    have b: "clocks_legal specs (fst p2)" "whole_after (now (FinalClocks r1)) (now (fst p2))" "pe \<le> now (fst p2)"
      using dwell [OF a(1), of pe _ "fst p2" "fst (snd p2)" "snd (snd p2)"] 1(2) pe a(2) dvd_shift [OF pe(2) a(2)]
      by (auto simp: whole_after_def [of "now c"])
    have c: "clocks_legal specs (FinalClocks r3)" "whole_after (now (fst p2)) (now (FinalClocks r3))"
      using sim [OF b(1) _ 1(3)] by (auto simp: LoadingEvent_def)
    have d: "clocks_legal specs (FinalClocks r4)" "whole_after (now (FinalClocks r3)) (now (FinalClocks r4))"
      using sim [OF c(1) _ 1(4)] by (auto simp: DriveEvent_def)
    have w: "whole_after (now c) (now (FinalClocks r4))"
      using a(2) b(2) c(2) d(2) whole_after_trans by blast
    have e: "clocks_legal specs (fst p5)" "de \<le> now (fst p5)"
      using dwell [OF d(1), of de _ "fst p5" "fst (snd p5)" "snd (snd p5)"] 1(5) de w dvd_shift [OF de(2) w]
      by (auto simp: whole_after_def [of "now c"])
    have f: "whole_after (now (fst p5)) (now (FinalClocks r6))"
      using sim [OF e(1) _ 1(6)] by (auto simp: UnloadingEvent_def)
    show ?thesis using b(3) c(2) e(2) f by (auto simp: 1(7,9-13) whole_after_def)
  qed
qed

lemma EvaluateTripFeasibility_waits_witness:
  "\<exists>r. EvaluateTripFeasibility (Some (NewDriverClocks USPolicySpecs 0)) (Fin 120) (Fin 900) 60 60 (Fin 50)
      (1000 * Minute) 0 (5000 * Minute) 0 USPolicySpecs = Some (Inr r) \<and> 5000 * Minute \<le> UnloadingEndTime r"
proof -
  let ?c = "NewDriverClocks USPolicySpecs 0"
  note legal = NewDriverClocks_legal [OF US_specs_valid, of 0]
  obtain r where r: "EvaluateTripFeasibility (Some ?c) (Fin 120) (Fin 900) 60 60 (Fin 50)
      (1000 * Minute) 0 (5000 * Minute) 0 USPolicySpecs = Some (Inr r)"
    using trip_returns [OF US_specs_valid clocks_legal_safe [OF legal]] by blast
  have "1000 * Minute \<le> LoadingEndTime r \<and> 5000 * Minute \<le> UnloadingEndTime r"
    by (rule EvaluateTripFeasibility_waits [OF US_specs_valid US_specs_small legal r])
      (simp_all add: NewDriverClocks_def IsZero_def zero_time_def Second_def Minute_def)
  with r show ?thesis by blast
qed

end
