(* ===== verification/Resource.thy ===== *)
theory Resource
  imports Geo HosTrip
begin

text \<open>
  \<open>internal/domain/model/resource.go\<close>: drivers, loads and the resource state \<open>R_t\<close>. \<open>Clone\<close> and the
  copying getters are identities on values. \<open>Transition\<close> validates a set of matches, moves each
  matched driver to the destination of the load with its hours-of-service clocks advanced by a
  simulated trip, removes the matched loads and adds the new ones. \<open>None\<close> is a simulation that does
  not end; it is excluded by a theorem.
\<close>

section \<open>Drivers, loads and the resource state\<close>

record Driver =
  DrvID :: string
  CurrentLocation :: Location
  HomeLocation :: Location
  AvailableEpoch :: int
  DutyHoursRemaining :: f64
  DriveHoursRemaining :: f64
  AssignedLoadID :: string
  DrvEquipment :: Equipment
  DrvEndorsements :: "Endorsement list"
  Clocks :: "DriverClocks option"
  DrvPolicySpecs :: PolicySpecs

definition IsIdle :: "Driver \<Rightarrow> bool" where
  "IsIdle d = (AssignedLoadID d = '''')"

record Load =
  LdID :: string
  Origin :: Location
  Destination :: Location
  PickupEarliestEpoch :: int
  PickupLatestEpoch :: int
  DeliveryEarliestEpoch :: int
  DeliveryLatestEpoch :: int
  RequiredEquipment :: EquipmentType
  RequiredEndorsements :: "Endorsement list"
  Revenue :: f64
  EstimatedTransitEpochs :: int

record ResourceState =
  rs_drivers :: "Driver list"
  rs_loads :: "Load list"
  driverIndex :: "string \<rightharpoonup> nat"
  loadIndex :: "string \<rightharpoonup> nat"

definition NewResourceState :: "Driver list \<Rightarrow> Load list \<Rightarrow> ResourceState" where
  "NewResourceState drivers loads =
     (let copiedDrivers = sort_slice (\<lambda>a b. DrvID a < DrvID b) drivers;
          copiedLoads = sort_slice (\<lambda>a b. LdID a < LdID b) loads in
      \<lparr>rs_drivers = copiedDrivers, rs_loads = copiedLoads,
       driverIndex = id_index DrvID copiedDrivers, loadIndex = id_index LdID copiedLoads\<rparr>)"

definition rs_Clone :: "ResourceState option \<Rightarrow> ResourceState option" where
  "rs_Clone rs = (case rs of None \<Rightarrow> None | Some r \<Rightarrow> Some (NewResourceState (rs_drivers r) (rs_loads r)))"

definition GetDriver :: "ResourceState \<Rightarrow> string \<Rightarrow> Driver option" where
  "GetDriver rs k = lookup_id (driverIndex rs) (rs_drivers rs) k"

definition GetLoad :: "ResourceState \<Rightarrow> string \<Rightarrow> Load option" where
  "GetLoad rs k = lookup_id (loadIndex rs) (rs_loads rs) k"

record DriverLoadMatch =
  MDriverID :: string
  MLoadID :: string
  DispatchEpoch :: int
  EstimatedContribution :: f64

text \<open>The validation loop; \<open>sd\<close> and \<open>sl\<close> are \<open>seenDrivers\<close> and \<open>seenLoads\<close>.\<close>

fun validate_matches :: "ResourceState \<Rightarrow> string set \<Rightarrow> string set \<Rightarrow> DriverLoadMatch list \<Rightarrow> unit result" where
  "validate_matches rs sd sl [] = Inr ()"
| "validate_matches rs sd sl (m # ms) =
     (if MDriverID m \<in> sd then Inl ErrDuplicateMatch
      else if MLoadID m \<in> sl then Inl ErrDuplicateMatch
      else case GetDriver rs (MDriverID m) of
        None \<Rightarrow> Inl ErrDriverNotFound
      | Some d \<Rightarrow>
          if \<not> IsIdle d then Inl ErrDriverAlreadyAssigned
          else case GetLoad rs (MLoadID m) of
            None \<Rightarrow> Inl ErrLoadNotFound
          | Some _ \<Rightarrow> validate_matches rs (insert (MDriverID m) sd) (insert (MLoadID m) sl) ms)"

definition trip_events :: "f64 \<Rightarrow> f64 \<Rightarrow> Event list" where
  "trip_events deadheadMiles loadedMiles =
     [DriveEvent (to_int (Ceil (deadheadMiles / Fin 50 * Fin 60))) deadheadMiles ''DEADHEAD'',
      LoadingEvent 60 ''ORIGIN'',
      DriveEvent (to_int (Ceil (loadedMiles / Fin 50 * Fin 60))) loadedMiles ''LINEHAUL'',
      UnloadingEvent 60 ''DESTINATION'']"

text \<open>The body of the driver update; an error of the simulation leaves the clocks as they were.\<close>

definition dispatch_driver :: "libm \<Rightarrow> DriverLoadMatch \<Rightarrow> Load \<Rightarrow> Driver \<Rightarrow> Driver option" where
  "dispatch_driver L m load d =
     (let priorLoc = CurrentLocation d;
          transitHours = of_int_fl (EstimatedTransitEpochs load);
          d = d\<lparr>CurrentLocation := Destination load,
                AvailableEpoch := DispatchEpoch m + EstimatedTransitEpochs load,
                AssignedLoadID := '''',
                DriveHoursRemaining := go_max 0 (DriveHoursRemaining d - transitHours),
                DutyHoursRemaining := go_max 0 (DutyHoursRemaining d - transitHours)\<rparr> in
      case Clocks d of
        None \<Rightarrow> Some d
      | Some c \<Rightarrow>
          (case Simulate (Some c)
             (trip_events (DistanceMiles L priorLoc (Origin load))
                (DistanceMiles L (Origin load) (Destination load))) (DrvPolicySpecs d) True of
             None \<Rightarrow> None
           | Some (Inl _) \<Rightarrow> Some d
           | Some (Inr simRes) \<Rightarrow> Some (d\<lparr>Clocks := Some (FinalClocks simRes)\<rparr>)))"

text \<open>A missing map key reads as the index zero, as in Go.\<close>

definition idx_or_0 :: "nat option \<Rightarrow> nat" where
  "idx_or_0 i = (case i of None \<Rightarrow> 0 | Some n \<Rightarrow> n)"

fun dispatch_all ::
  "libm \<Rightarrow> ResourceState \<Rightarrow> DriverLoadMatch list \<Rightarrow> Driver list \<Rightarrow> Driver list option" where
  "dispatch_all L rs [] next = Some next"
| "dispatch_all L rs (m # ms) next =
     (let idx = idx_or_0 (driverIndex rs (MDriverID m));
          load = rs_loads rs ! idx_or_0 (loadIndex rs (MLoadID m)) in
      case dispatch_driver L m load (next ! idx) of
        None \<Rightarrow> None
      | Some d \<Rightarrow> dispatch_all L rs ms (next[idx := d]))"

definition Transition ::
  "libm \<Rightarrow> ResourceState \<Rightarrow> DriverLoadMatch list \<Rightarrow> Load list \<Rightarrow> ResourceState result option" where
  "Transition L rs matches newLoads =
     (case validate_matches rs {} {} matches of
        Inl e \<Rightarrow> Some (Inl e)
      | Inr _ \<Rightarrow>
          (case dispatch_all L rs matches (rs_drivers rs) of
             None \<Rightarrow> None
           | Some nextDrivers \<Rightarrow>
               Some (Inr (NewResourceState nextDrivers
                 (filter (\<lambda>l. LdID l \<notin> MLoadID ` set matches) (rs_loads rs) @ newLoads)))))"

section \<open>Canonical states\<close>

definition rs_wf :: "ResourceState \<Rightarrow> bool" where
  "rs_wf rs \<longleftrightarrow> sorted (map DrvID (rs_drivers rs)) \<and> sorted (map LdID (rs_loads rs)) \<and>
     driverIndex rs = id_index DrvID (rs_drivers rs) \<and> loadIndex rs = id_index LdID (rs_loads rs)"

lemma NewResourceState_wf [simp, wf_intro]: "rs_wf (NewResourceState ds ls)"
  by (simp add: rs_wf_def NewResourceState_def Let_def sort_slice_key_sorted)

interpretation driver_lookup: id_lookup rs_drivers DrvID GetDriver rs_wf
  by unfold_locales (auto simp: rs_wf_def GetDriver_def lookup_id_None dest: lookup_id_Some)

interpretation load_lookup: id_lookup rs_loads LdID GetLoad rs_wf
  by unfold_locales (auto simp: rs_wf_def GetLoad_def lookup_id_None dest: lookup_id_Some)

lemma set_NewResourceState [simp]:
  "set (rs_drivers (NewResourceState ds ls)) = set ds" "set (rs_loads (NewResourceState ds ls)) = set ls"
  "mset (rs_drivers (NewResourceState ds ls)) = mset ds" "mset (rs_loads (NewResourceState ds ls)) = mset ls"
  by (simp_all add: NewResourceState_def Let_def)

text \<open>
  A resource state does not depend on the order in which the drivers and loads were
  supplied, as long as their IDs are distinct: the constructor produces identical states.
\<close>

theorem NewResourceState_order_independent:
  assumes "mset ds = mset ds'" and "distinct (map DrvID ds)" and "mset ls = mset ls'" and "distinct (map LdID ls)"
  shows "NewResourceState ds ls = NewResourceState ds' ls'"
  using sort_slice_key_perm [OF assms(1,2)] sort_slice_key_perm [OF assms(3,4)]
  by (simp add: NewResourceState_def)

definition demo_driver :: "string \<Rightarrow> Location \<Rightarrow> Driver" where
  "demo_driver did loc = \<lparr>DrvID = did, CurrentLocation = loc, HomeLocation = loc, AvailableEpoch = 0,
     DutyHoursRemaining = Fin 14, DriveHoursRemaining = Fin 11, AssignedLoadID = '''',
     DrvEquipment = \<lparr>EqType = EquipDryVan, EqEndorsements = []\<rparr>, DrvEndorsements = [],
     Clocks = Some (NewDriverClocks USPolicySpecs 0), DrvPolicySpecs = USPolicySpecs\<rparr>"

definition demo_load :: "string \<Rightarrow> Location \<Rightarrow> Location \<Rightarrow> Load" where
  "demo_load lid orig dest = \<lparr>LdID = lid, Origin = orig, Destination = dest, PickupEarliestEpoch = 0,
     PickupLatestEpoch = 0, DeliveryEarliestEpoch = 0, DeliveryLatestEpoch = 0, RequiredEquipment = EquipDryVan,
     RequiredEndorsements = [], Revenue = Fin 1000, EstimatedTransitEpochs = 2\<rparr>"

lemma NewResourceState_order_independent_witness:
  "NewResourceState [demo_driver ''D2'' demo_A, demo_driver ''D1'' demo_A] [demo_load ''L1'' demo_A demo_B] =
   NewResourceState [demo_driver ''D1'' demo_A, demo_driver ''D2'' demo_A] [demo_load ''L1'' demo_A demo_B]"
  by (rule NewResourceState_order_independent) (simp_all add: demo_driver_def)

section \<open>Validation\<close>

lemma validate_matches_iff:
  "validate_matches rs sd sl ms = Inr () \<longleftrightarrow>
     distinct (map MDriverID ms) \<and> distinct (map MLoadID ms) \<and>
     MDriverID ` set ms \<inter> sd = {} \<and> MLoadID ` set ms \<inter> sl = {} \<and>
     (\<forall>m\<in>set ms. (\<exists>d. GetDriver rs (MDriverID m) = Some d \<and> IsIdle d) \<and> GetLoad rs (MLoadID m) \<noteq> None)"
  by (induction ms arbitrary: sd sl) (auto split: option.splits)

lemma validate_matches_unit: "validate_matches rs sd sl ms = Inr u \<longleftrightarrow> validate_matches rs sd sl ms = Inr ()"
  by simp

section \<open>Dispatch\<close>

definition driver_ok :: "Driver \<Rightarrow> bool" where
  "driver_ok d \<longleftrightarrow> (case Clocks d of None \<Rightarrow> True
     | Some c \<Rightarrow> clocks_safe c)"

lemma trip_events_no_rest [simp]: "rests_nonneg (trip_events a b)"
  by (simp add: rests_nonneg_def trip_events_def event_defs)

lemma Simulate_safe_total:
  assumes "clocks_safe c"
  shows "\<exists>r. Simulate (Some c) evs specs True = Some r"
  using sim_events_total [of specs "()" "init_sim c" evs] assms
  by (cases "ValidatePolicy specs") (auto simp: Simulate_def init_sim_def)

lemma Simulate_result_safe:
  assumes "clocks_safe c" and "rests_nonneg evs" and "Simulate (Some c) evs specs auto = Some (Inr r)"
  shows "clocks_safe (FinalClocks r)"
proof -
  have v: "ValidatePolicy specs = Inr ()"
    using assms(3) by (cases "ValidatePolicy specs") (auto simp: Simulate_def)
  show ?thesis using Simulate_cases [OF v assms(1,2), of auto] assms(3) by (auto simp: sim_result_def)
qed

lemma Simulate_result_legal:
  assumes "clocks_legal specs c" and "rests_nonneg evs" and "Simulate (Some c) evs specs auto = Some (Inr r)"
  shows "clocks_legal specs (FinalClocks r)"
proof -
  have v: "ValidatePolicy specs = Inr ()"
    using assms(3) by (cases "ValidatePolicy specs") (auto simp: Simulate_def)
  obtain s where "r = sim_result c s" "sim_inv specs (now c) s" using Simulate_inv [OF v assms] .
  then show ?thesis by (simp add: sim_result_def sim_inv_def)
qed

lemma dispatch_driver_total:
  assumes "driver_ok d"
  obtains d' where "dispatch_driver L m load d = Some d'" and "driver_ok d'" and "DrvID d' = DrvID d"
    and "CurrentLocation d' = Destination load" and "IsIdle d'"
    and "AvailableEpoch d' = DispatchEpoch m + EstimatedTransitEpochs load"
    and "DrvPolicySpecs d' = DrvPolicySpecs d"
proof (cases "Clocks d")
  case None
  with assms that show thesis by (auto simp: dispatch_driver_def Let_def driver_ok_def IsIdle_def)
next
  case (Some c)
  let ?evs = "trip_events (DistanceMiles L (CurrentLocation d) (Origin load))
    (DistanceMiles L (Origin load) (Destination load))"
  have safe: "clocks_safe c" using assms Some by (simp add: driver_ok_def)
  obtain q where q: "Simulate (Some c) ?evs (DrvPolicySpecs d) True = Some q"
    using Simulate_safe_total [OF safe] by blast
  show thesis
  proof (cases q)
    case (Inl e)
    with q Some assms that show thesis by (auto simp: dispatch_driver_def Let_def driver_ok_def IsIdle_def)
  next
    case (Inr r)
    have "clocks_safe (FinalClocks r)" using Simulate_result_safe [OF safe _ q [unfolded Inr]] by simp
    with q Inr Some that show thesis by (auto simp: dispatch_driver_def Let_def driver_ok_def IsIdle_def)
  qed
qed

definition match_idx :: "ResourceState \<Rightarrow> DriverLoadMatch \<Rightarrow> nat" where
  "match_idx rs m = idx_or_0 (driverIndex rs (MDriverID m))"

definition match_load :: "ResourceState \<Rightarrow> DriverLoadMatch \<Rightarrow> Load" where
  "match_load rs m = rs_loads rs ! idx_or_0 (loadIndex rs (MLoadID m))"

lemma dispatch_all_spec:
  assumes "distinct (map (match_idx rs) ms)" and "\<forall>m\<in>set ms. match_idx rs m < length ds"
    and "\<forall>d\<in>set ds. driver_ok d"
  shows "\<exists>ds'. dispatch_all L rs ms ds = Some ds' \<and> map DrvID ds' = map DrvID ds \<and>
    (\<forall>i<length ds. i \<notin> match_idx rs ` set ms \<longrightarrow> ds' ! i = ds ! i) \<and>
    (\<forall>m\<in>set ms. dispatch_driver L m (match_load rs m) (ds ! match_idx rs m) = Some (ds' ! match_idx rs m))"
  using assms
proof (induction ms arbitrary: ds)
  case Nil
  then show ?case by simp
next
  case (Cons m ms)
  let ?i = "match_idx rs m"
  have i: "?i < length ds" using Cons.prems(2) by simp
  have "driver_ok (ds ! ?i)" using Cons.prems(3) i by simp
  then obtain d where d: "dispatch_driver L m (match_load rs m) (ds ! ?i) = Some d" "driver_ok d"
    "DrvID d = DrvID (ds ! ?i)" by (rule dispatch_driver_total)
  let ?ds = "ds[?i := d]"
  have ok: "\<forall>x\<in>set ?ds. driver_ok x"
    using Cons.prems(3) d(2) set_update_subset_insert [of ds ?i d] by blast
  obtain ds' where ds': "dispatch_all L rs ms ?ds = Some ds'" "map DrvID ds' = map DrvID ?ds"
    "\<forall>j<length ds. j \<notin> match_idx rs ` set ms \<longrightarrow> ds' ! j = ?ds ! j"
    "\<forall>m\<in>set ms. dispatch_driver L m (match_load rs m) (?ds ! match_idx rs m) = Some (ds' ! match_idx rs m)"
    using Cons.IH [of ?ds] Cons.prems(1,2) ok by auto
  have run: "dispatch_all L rs (m # ms) ds = Some ds'"
    using ds'(1) d(1) by (simp add: match_idx_def match_load_def Let_def)
  have fresh: "?i \<notin> match_idx rs ` set ms" using Cons.prems(1) by simp
  have "ds' ! ?i = d" using ds'(3) i fresh by simp
  moreover have "ds ! match_idx rs m' = ?ds ! match_idx rs m'" if "m' \<in> set ms" for m'
    using fresh that by (metis imageI nth_list_update_neq)
  moreover have "map DrvID ds' = map DrvID ds" using ds'(2) d(3) by (simp add: map_list_update_id)
  ultimately show ?case using run ds'(3,4) d(1) by auto
qed

lemma rs_index_driver:
  assumes "rs_wf rs" and "GetDriver rs k = Some d"
  shows "idx_or_0 (driverIndex rs k) < length (rs_drivers rs) \<and> rs_drivers rs ! idx_or_0 (driverIndex rs k) = d \<and>
    DrvID d = k"
  using assms
  by (auto simp: rs_wf_def GetDriver_def lookup_id_def id_index_def idx_or_0_def split: option.splits
      dest!: index_ids_empty_Some)

lemma rs_index_load:
  assumes "rs_wf rs" and "GetLoad rs (MLoadID m) = Some l"
  shows "match_load rs m = l"
  using assms by (auto simp: GetLoad_def lookup_id_def match_load_def idx_or_0_def split: option.splits)

lemma validated_idx:
  assumes "rs_wf rs" and "validate_matches rs {} {} ms = Inr ()"
  shows "distinct (map (match_idx rs) ms)" and "\<forall>m\<in>set ms. match_idx rs m < length (rs_drivers rs)"
    and "\<forall>m\<in>set ms. DrvID (rs_drivers rs ! match_idx rs m) = MDriverID m"
proof -
  have v: "distinct (map MDriverID ms)" "\<forall>m\<in>set ms. \<exists>d. GetDriver rs (MDriverID m) = Some d"
    using assms(2) by (auto simp: validate_matches_iff)
  show a: "\<forall>m\<in>set ms. match_idx rs m < length (rs_drivers rs)"
    "\<forall>m\<in>set ms. DrvID (rs_drivers rs ! match_idx rs m) = MDriverID m"
    using v(2) rs_index_driver [OF assms(1)] unfolding match_idx_def by blast+
  have "inj_on (match_idx rs) (set ms)"
    using a(2) v(1) by (intro inj_onI) (metis distinct_map inj_onD)
  with v(1) show "distinct (map (match_idx rs) ms)" by (simp add: distinct_map)
qed

lemma resorted_drivers:
  assumes "rs_wf rs" and "distinct (map DrvID (rs_drivers rs))" and "map DrvID ds = map DrvID (rs_drivers rs)"
  shows "rs_drivers (NewResourceState ds ls) = ds"
proof -
  have "sorted_wrt (<) (map DrvID ds)" using assms by (simp add: rs_wf_def strict_sorted_iff)
  then show ?thesis by (simp add: NewResourceState_def Let_def sort_slice_key_id)
qed

lemma resorted_index:
  assumes "rs_wf rs" and "distinct (map DrvID (rs_drivers rs))" and "map DrvID ds = map DrvID (rs_drivers rs)"
  shows "driverIndex (NewResourceState ds ls) = driverIndex rs"
  using assms resorted_drivers [OF assms] NewResourceState_wf [of ds ls]
  by (simp add: rs_wf_def id_index_def)

lemma Transition_total:
  assumes wf: "rs_wf rs" and "distinct (map DrvID (rs_drivers rs))" and "\<forall>d\<in>set (rs_drivers rs). driver_ok d"
    and "validate_matches rs {} {} ms = Inr ()"
  obtains ds where "dispatch_all L rs ms (rs_drivers rs) = Some ds" and "map DrvID ds = map DrvID (rs_drivers rs)"
    and "Transition L rs ms new = Some (Inr (NewResourceState ds
          (filter (\<lambda>l. LdID l \<notin> MLoadID ` set ms) (rs_loads rs) @ new)))"
    and "\<forall>i<length (rs_drivers rs). i \<notin> match_idx rs ` set ms \<longrightarrow> ds ! i = rs_drivers rs ! i"
    and "\<forall>m\<in>set ms. dispatch_driver L m (match_load rs m) (rs_drivers rs ! match_idx rs m)
          = Some (ds ! match_idx rs m)"
  using dispatch_all_spec [OF validated_idx(1,2) [OF wf assms(4)] assms(3), of L] assms(4) that
  by (auto simp: Transition_def)

text \<open>
  Property C12. A transition with valid matches always succeeds: every matched driver is idle at the
  destination of its load and available when the trip is over, every other driver is untouched, and
  the inventory is the unmatched loads plus the new ones.
\<close>

theorem Transition_correct:
  assumes wf: "rs_wf rs" and dist: "distinct (map DrvID (rs_drivers rs))"
    and ok: "\<forall>d\<in>set (rs_drivers rs). driver_ok d" and v: "validate_matches rs {} {} ms = Inr ()"
  shows "\<exists>rs'. Transition L rs ms new = Some (Inr rs') \<and> rs_wf rs' \<and>
    map DrvID (rs_drivers rs') = map DrvID (rs_drivers rs) \<and>
    (\<forall>k. k \<notin> MDriverID ` set ms \<longrightarrow> GetDriver rs' k = GetDriver rs k) \<and>
    (\<forall>m\<in>set ms. \<exists>d l. GetDriver rs' (MDriverID m) = Some d \<and> GetLoad rs (MLoadID m) = Some l \<and>
      CurrentLocation d = Destination l \<and> IsIdle d \<and>
      AvailableEpoch d = DispatchEpoch m + EstimatedTransitEpochs l) \<and>
    mset (rs_loads rs') = mset (filter (\<lambda>l. LdID l \<notin> MLoadID ` set ms) (rs_loads rs)) + mset new"
proof -
  obtain ds where ds: "map DrvID ds = map DrvID (rs_drivers rs)"
    "Transition L rs ms new = Some (Inr (NewResourceState ds
      (filter (\<lambda>l. LdID l \<notin> MLoadID ` set ms) (rs_loads rs) @ new)))" (is "_ = Some (Inr ?rs')")
    "\<forall>i<length (rs_drivers rs). i \<notin> match_idx rs ` set ms \<longrightarrow> ds ! i = rs_drivers rs ! i"
    "\<forall>m\<in>set ms. dispatch_driver L m (match_load rs m) (rs_drivers rs ! match_idx rs m) = Some (ds ! match_idx rs m)"
    using Transition_total [OF assms] by metis
  note D = resorted_drivers [OF wf dist ds(1)] and I = resorted_index [OF wf dist ds(1)]
  have idx: "driverIndex rs = id_index DrvID (rs_drivers rs)" using wf by (simp add: rs_wf_def)
  have un: "GetDriver ?rs' k = GetDriver rs k" if "k \<notin> MDriverID ` set ms" for k
  proof (cases "driverIndex rs k")
    case None
    then show ?thesis by (simp add: GetDriver_def lookup_id_def I)
  next
    case (Some i)
    then have i: "i < length (rs_drivers rs)" "DrvID (rs_drivers rs ! i) = k"
      using index_ids_empty_Some [of "map DrvID (rs_drivers rs)" k i] by (auto simp: idx id_index_def)
    have "i \<notin> match_idx rs ` set ms"
      using that i(2) validated_idx(3) [OF wf v] by (auto simp: image_iff)
    with ds(3) i(1) Some show ?thesis by (simp add: GetDriver_def lookup_id_def I D)
  qed
  have mt: "\<exists>d l. GetDriver ?rs' (MDriverID m) = Some d \<and> GetLoad rs (MLoadID m) = Some l \<and>
      CurrentLocation d = Destination l \<and> IsIdle d \<and>
      AvailableEpoch d = DispatchEpoch m + EstimatedTransitEpochs l" if m: "m \<in> set ms" for m
  proof -
    obtain d0 l where l: "GetDriver rs (MDriverID m) = Some d0" "GetLoad rs (MLoadID m) = Some l"
      using v m by (auto simp: validate_matches_iff)
    have "match_load rs m = l" by (rule rs_index_load [OF wf l(2)])
    have i: "match_idx rs m < length (rs_drivers rs)" "rs_drivers rs ! match_idx rs m = d0"
      using rs_index_driver [OF wf l(1)] by (auto simp: match_idx_def)
    have "driver_ok d0" using ok i by (metis nth_mem)
    then obtain d where d: "dispatch_driver L m l d0 = Some d" "CurrentLocation d = Destination l" "IsIdle d"
      "AvailableEpoch d = DispatchEpoch m + EstimatedTransitEpochs l" by (rule dispatch_driver_total)
    have "ds ! match_idx rs m = d" using ds(4) m d(1) i(2) \<open>match_load rs m = l\<close> by fastforce
    moreover obtain j where "driverIndex rs (MDriverID m) = Some j"
      using l(1) by (auto simp: GetDriver_def lookup_id_def split: option.splits)
    ultimately have "GetDriver ?rs' (MDriverID m) = Some d"
      by (simp add: GetDriver_def lookup_id_def I D match_idx_def idx_or_0_def)
    with d l show ?thesis by blast
  qed
  show ?thesis using ds(1,2) un mt by (intro exI [of _ ?rs']) (auto simp: D)
qed

lemma demo_driver_ok [simp]: "driver_ok (demo_driver k loc)"
  by (simp add: driver_ok_def demo_driver_def NewDriverClocks_safe [OF US_specs_valid])

definition demo_match :: "string \<Rightarrow> string \<Rightarrow> DriverLoadMatch" where
  "demo_match d l = \<lparr>MDriverID = d, MLoadID = l, DispatchEpoch = 5, EstimatedContribution = 0\<rparr>"

definition demo_rs :: "Location \<Rightarrow> Location \<Rightarrow> ResourceState" where
  "demo_rs a b = NewResourceState [demo_driver ''D2'' a, demo_driver ''D1'' b] [demo_load ''L1'' a b]"

lemma demo_rs_facts [simp]:
  "rs_wf (demo_rs a b)" "distinct (map DrvID (rs_drivers (demo_rs a b)))"
  "\<forall>d\<in>set (rs_drivers (demo_rs a b)). driver_ok d"
  by (auto simp: demo_rs_def) (simp add: NewResourceState_def Let_def demo_driver_def)

lemma demo_rs_lookup [simp]:
  "GetDriver (demo_rs a b) ''D2'' = Some (demo_driver ''D2'' a)"
  "GetLoad (demo_rs a b) ''L1'' = Some (demo_load ''L1'' a b)"
proof -
  have l: "rs_loads (demo_rs a b) = [demo_load ''L1'' a b]"
    by (simp add: demo_rs_def NewResourceState_def sort_slice_def Let_def)
  show "GetDriver (demo_rs a b) ''D2'' = Some (demo_driver ''D2'' a)"
    unfolding driver_lookup.get_iff [OF demo_rs_facts(1,2)] by (simp add: demo_rs_def) (simp add: demo_driver_def)
  show "GetLoad (demo_rs a b) ''L1'' = Some (demo_load ''L1'' a b)"
    using load_lookup.get_iff [OF demo_rs_facts(1), where k = "''L1''" and x = "demo_load ''L1'' a b"]
    by (simp add: l demo_load_def)
qed

lemma demo_valid [simp]: "validate_matches (demo_rs a b) {} {} [demo_match ''D2'' ''L1''] = Inr ()"
  by (simp add: demo_match_def) (simp add: IsIdle_def demo_driver_def)

lemma Transition_correct_witness:
  "\<exists>rs'. Transition demo_libm (demo_rs demo_A demo_B) [demo_match ''D2'' ''L1''] [] = Some (Inr rs') \<and> rs_loads rs' = []"
  using Transition_correct [OF demo_rs_facts demo_valid, of demo_libm demo_A demo_B "[]"]
  by (auto simp: demo_rs_def demo_match_def demo_load_def NewResourceState_def Let_def)

section \<open>Legality across transitions\<close>

definition driver_legal :: "Driver \<Rightarrow> bool" where
  "driver_legal d \<longleftrightarrow> (case Clocks d of None \<Rightarrow> True | Some c \<Rightarrow> clocks_legal (DrvPolicySpecs d) c)"

lemma dispatch_driver_legal:
  assumes "dispatch_driver L m load d = Some d'" and "driver_legal d"
  shows "driver_legal d'"
  using assms
  by (auto simp: dispatch_driver_def driver_legal_def Let_def split: option.splits sum.splits
      intro: Simulate_result_legal [OF _ trip_events_no_rest])

lemma dispatch_all_legal:
  assumes "dispatch_all L rs ms ds = Some ds'" and "\<forall>m\<in>set ms. match_idx rs m < length ds"
    and "\<forall>d\<in>set ds. driver_legal d"
  shows "\<forall>d\<in>set ds'. driver_legal d"
  using assms
proof (induction ms arbitrary: ds)
  case (Cons m ms)
  let ?i = "match_idx rs m"
  obtain d where d: "dispatch_driver L m (match_load rs m) (ds ! ?i) = Some d"
    "dispatch_all L rs ms (ds[?i := d]) = Some ds'"
    using Cons.prems(1) by (auto simp: Let_def match_idx_def match_load_def split: option.splits)
  have "driver_legal d" using dispatch_driver_legal [OF d(1)] Cons.prems(2,3) by simp
  then have "\<forall>x\<in>set (ds[?i := d]). driver_legal x"
    using Cons.prems(3) set_update_subset_insert [of ds ?i d] by blast
  with Cons.IH [OF d(2)] Cons.prems(2) show ?case by simp
qed simp

text \<open>
  Transitions keep every driver legal: if the hours-of-service clocks of all drivers
  respect their policies before a transition, they do so after it.
\<close>

theorem Transition_legal:
  assumes "rs_wf rs" and "\<forall>d\<in>set (rs_drivers rs). driver_legal d"
    and "Transition L rs ms new = Some (Inr rs')"
  shows "\<forall>d\<in>set (rs_drivers rs'). driver_legal d"
proof -
  from assms(3) obtain ds where ds: "validate_matches rs {} {} ms = Inr ()"
    "dispatch_all L rs ms (rs_drivers rs) = Some ds" "set (rs_drivers rs') = set ds"
    by (auto simp: Transition_def split: sum.splits option.splits)
  with dispatch_all_legal [OF ds(2) validated_idx(2) [OF assms(1) ds(1)] assms(2)] show ?thesis by simp
qed

lemma Transition_legal_witness:
  "\<exists>rs'. Transition demo_libm (demo_rs demo_A demo_B) [demo_match ''D2'' ''L1''] [] = Some (Inr rs') \<and>
    (\<forall>d\<in>set (rs_drivers rs'). driver_legal d)"
proof -
  obtain rs' where r: "Transition demo_libm (demo_rs demo_A demo_B) [demo_match ''D2'' ''L1''] [] = Some (Inr rs')"
    using Transition_total [OF demo_rs_facts demo_valid, where L = demo_libm and new = "[]"] by metis
  have "\<forall>d\<in>set (rs_drivers (demo_rs demo_A demo_B)). driver_legal d"
    by (simp add: demo_rs_def driver_legal_def demo_driver_def NewDriverClocks_legal [OF US_specs_valid])
  from Transition_legal [OF demo_rs_facts(1) this r] r show ?thesis by blast
qed

end
