(* ===== verification/Action.thy ===== *)
theory Action
  imports Resource
begin

text \<open>
  \<open>internal/domain/model\<close>: \<open>action.go\<close> (the joint action of dispatch matches and spot bids and its
  feasibility check), \<open>information.go\<close>, \<open>config.go\<close> and the generic part of \<open>state.go\<close>.
\<close>

section \<open>Actions\<close>

record SpotPriceBid =
  BidLoadID :: string
  BidPrice :: f64

record Action =
  act_matches :: "DriverLoadMatch list"
  act_bids :: "SpotPriceBid list"

definition match_less :: "DriverLoadMatch \<Rightarrow> DriverLoadMatch \<Rightarrow> bool" where
  "match_less a b = (if MDriverID a = MDriverID b then MLoadID a < MLoadID b else MDriverID a < MDriverID b)"

definition NewAction :: "DriverLoadMatch list \<Rightarrow> SpotPriceBid list \<Rightarrow> Action" where
  "NewAction matches bids =
     \<lparr>act_matches = sort_slice match_less matches,
      act_bids = sort_slice (\<lambda>a b. BidLoadID a < BidLoadID b) bids\<rparr>"

definition NewEmptyAction :: Action where
  "NewEmptyAction = \<lparr>act_matches = [], act_bids = []\<rparr>"

definition Action_IsEmpty :: "Action \<Rightarrow> bool" where
  "Action_IsEmpty a = (length (act_matches a) = 0 \<and> length (act_bids a) = 0)"

fun validate_bids :: "ResourceState \<Rightarrow> string set \<Rightarrow> SpotPriceBid list \<Rightarrow> unit result" where
  "validate_bids rs seen [] = Inr ()"
| "validate_bids rs seen (b # bs) =
     (if BidLoadID b \<in> seen then Inl ErrDuplicateBid
      else if BidPrice b \<le> 0 then Inl ErrInvalidBidPrice
      else case GetLoad rs (BidLoadID b) of
        None \<Rightarrow> Inl ErrLoadNotFound
      | Some _ \<Rightarrow> validate_bids rs (insert (BidLoadID b) seen) bs)"

text \<open>The loop over the matches performs the checks of \<open>Transition\<close> in the same order.\<close>

fun check_matches :: "ResourceState \<Rightarrow> string set \<Rightarrow> string set \<Rightarrow> DriverLoadMatch list \<Rightarrow> unit result" where
  "check_matches rs sd sl [] = Inr ()"
| "check_matches rs sd sl (m # ms) =
     (if MDriverID m \<in> sd then Inl ErrDuplicateMatch
      else if MLoadID m \<in> sl then Inl ErrDuplicateMatch
      else case GetDriver rs (MDriverID m) of
        None \<Rightarrow> Inl ErrDriverNotFound
      | Some driver \<Rightarrow>
          if \<not> IsIdle driver then Inl ErrDriverAlreadyAssigned
          else case GetLoad rs (MLoadID m) of
            None \<Rightarrow> Inl ErrLoadNotFound
          | Some _ \<Rightarrow> check_matches rs (insert (MDriverID m) sd) (insert (MLoadID m) sl) ms)"

definition ValidateFeasibility :: "Action \<Rightarrow> ResourceState option \<Rightarrow> unit result" where
  "ValidateFeasibility a resource =
     (case resource of
        None \<Rightarrow> Inl (ErrOther ''nil ResourceState'')
      | Some rs \<Rightarrow>
          (case check_matches rs {} {} (act_matches a) of
             Inl e \<Rightarrow> Inl e
           | Inr _ \<Rightarrow> validate_bids rs {} (act_bids a)))"

lemma match_less_key: "match_less a b \<longleftrightarrow> (MDriverID a, MLoadID a) < (MDriverID b, MLoadID b)"
  by (auto simp: match_less_def)

lemma match_less_by_key: "match_less = (\<lambda>a b. (MDriverID a, MLoadID a) < (MDriverID b, MLoadID b))"
  by (intro ext) (simp add: match_less_key)

lemma NewAction_sorted: "sorted (map (\<lambda>m. (MDriverID m, MLoadID m)) (act_matches (NewAction ms bs)))"
  by (simp only: NewAction_def match_less_by_key Action.simps sort_slice_key_sorted)

lemma set_NewAction [simp]:
  "set (act_matches (NewAction ms bs)) = set ms" "set (act_bids (NewAction ms bs)) = set bs"
  "mset (act_matches (NewAction ms bs)) = mset ms" "mset (act_bids (NewAction ms bs)) = mset bs"
  by (simp_all add: NewAction_def)

lemma check_matches_validate: "check_matches rs sd sl ms = validate_matches rs sd sl ms"
  by (induction ms arbitrary: sd sl) (auto split: option.splits)

lemma validate_bids_iff:
  "validate_bids rs seen bs = Inr u \<longleftrightarrow>
     distinct (map BidLoadID bs) \<and> BidLoadID ` set bs \<inter> seen = {} \<and>
     (\<forall>b\<in>set bs. \<not> BidPrice b \<le> 0 \<and> GetLoad rs (BidLoadID b) \<noteq> None)"
  by (induction bs arbitrary: seen) (auto split: option.splits)

lemma ValidateFeasibility_split:
  "ValidateFeasibility a (Some rs) = Inr () \<longleftrightarrow>
    validate_matches rs {} {} (act_matches a) = Inr () \<and> validate_bids rs {} (act_bids a) = Inr ()"
  by (simp add: ValidateFeasibility_def check_matches_validate split: sum.splits)

text \<open>
  The feasibility check decides exactly its specification: every matched driver exists,
  is idle and is matched once, every matched load exists and is matched once, and every bid names an
  existing load once with a price that is not below or equal to zero. A \<open>NaN\<close> price passes.
\<close>

theorem ValidateFeasibility_iff:
  "ValidateFeasibility (NewAction ms bs) (Some rs) = Inr () \<longleftrightarrow>
    distinct (map MDriverID ms) \<and> distinct (map MLoadID ms) \<and>
    (\<forall>m\<in>set ms. (\<exists>d. GetDriver rs (MDriverID m) = Some d \<and> IsIdle d) \<and> GetLoad rs (MLoadID m) \<noteq> None) \<and>
    distinct (map BidLoadID bs) \<and>
    (\<forall>b\<in>set bs. \<not> BidPrice b \<le> 0 \<and> GetLoad rs (BidLoadID b) \<noteq> None)"
proof -
  have d: "distinct (map MDriverID (act_matches (NewAction ms bs))) = distinct (map MDriverID ms)"
    "distinct (map MLoadID (act_matches (NewAction ms bs))) = distinct (map MLoadID ms)"
    "distinct (map BidLoadID (act_bids (NewAction ms bs))) = distinct (map BidLoadID bs)"
    by (simp_all add: NewAction_def)
  show ?thesis
    unfolding ValidateFeasibility_split validate_matches_iff validate_bids_iff d set_NewAction by simp
qed

lemma ValidateFeasibility_iff_witness:
  "ValidateFeasibility (NewAction [demo_match ''D2'' ''L1''] [\<lparr>BidLoadID = ''L1'', BidPrice = NaN\<rparr>])
     (Some (demo_rs demo_A demo_B)) = Inr ()"
  unfolding ValidateFeasibility_iff by (simp add: demo_match_def) (simp add: IsIdle_def demo_driver_def)

text \<open>
  Property C13. An action that passes the feasibility check can be executed: the resource transition
  of its matches succeeds.
\<close>

theorem feasible_action_executes:
  assumes "rs_wf rs" and "distinct (map DrvID (rs_drivers rs))" and "\<forall>d\<in>set (rs_drivers rs). driver_ok d"
    and "ValidateFeasibility a (Some rs) = Inr ()"
  shows "\<exists>rs'. Transition L rs (act_matches a) newLoads = Some (Inr rs')"
proof -
  from assms(4) have "validate_matches rs {} {} (act_matches a) = Inr ()"
    by (simp only: ValidateFeasibility_split)
  from Transition_total [OF assms(1-3) this] show ?thesis by metis
qed

lemma feasible_action_executes_witness:
  "\<exists>rs'. Transition demo_libm (demo_rs demo_A demo_B) [demo_match ''D2'' ''L1''] [] = Some (Inr rs')"
proof -
  let ?a = "\<lparr>act_matches = [demo_match ''D2'' ''L1''], act_bids = []\<rparr>"
  have "ValidateFeasibility ?a (Some (demo_rs demo_A demo_B)) = Inr ()"
    by (simp only: ValidateFeasibility_split Action.simps demo_valid) simp
  from feasible_action_executes [OF demo_rs_facts this, of demo_libm "[]"] show ?thesis by simp
qed

section \<open>Information state\<close>

record InformationState =
  epoch :: int
  fuelPriceIndex :: f64
  nationalSpotRateIndex :: f64
  weatherAlertCount :: int

definition NewInformationState :: "int \<Rightarrow> f64 \<Rightarrow> f64 \<Rightarrow> int \<Rightarrow> InformationState result" where
  "NewInformationState ep fuel spot weather =
     (if ep < 0 then Inl ErrInvalidInformationState
      else if fuel < 0 \<or> is_nan fuel \<or> is_inf fuel then Inl ErrInvalidInformationState
      else if spot < 0 \<or> is_nan spot \<or> is_inf spot then Inl ErrInvalidInformationState
      else if weather < 0 then Inl ErrInvalidInformationState
      else Inr \<lparr>epoch = ep, fuelPriceIndex = fuel, nationalSpotRateIndex = spot, weatherAlertCount = weather\<rparr>)"

definition Info_Transition ::
  "InformationState \<Rightarrow> int \<Rightarrow> f64 \<Rightarrow> f64 \<Rightarrow> int \<Rightarrow> InformationState result" where
  "Info_Transition is nextEpoch fuel spot weather =
     (if nextEpoch \<le> epoch is then Inl ErrInvalidInformationState
      else NewInformationState nextEpoch fuel spot weather)"

definition info_wf :: "InformationState \<Rightarrow> bool" where
  "info_wf i \<longleftrightarrow> 0 \<le> epoch i \<and> 0 \<le> weatherAlertCount i \<and>
     is_fin (fuelPriceIndex i) \<and> 0 \<le> fuelPriceIndex i \<and>
     is_fin (nationalSpotRateIndex i) \<and> 0 \<le> nationalSpotRateIndex i"

lemma nonneg_finite: "\<not> x < (0 :: f64) \<and> \<not> is_nan x \<and> \<not> is_inf x \<longleftrightarrow> is_fin x \<and> 0 \<le> x"
  by (cases x) (auto simp: zero_fl_def)

lemma NewInformationState_iff:
  "NewInformationState ep fuel spot weather = Inr i \<longleftrightarrow>
    i = \<lparr>epoch = ep, fuelPriceIndex = fuel, nationalSpotRateIndex = spot, weatherAlertCount = weather\<rparr> \<and> info_wf i"
  using nonneg_finite [of fuel] nonneg_finite [of spot]
  by (auto simp: NewInformationState_def info_wf_def)

section \<open>Configuration\<close>

record SimulationConfig =
  CfgStartTime :: time
  CfgEndTime :: time
  TimeStepDuration :: duration
  PlanningHorizon :: duration
  RandomSeed :: nat
  EnableCompetitors :: bool
  CompetitorPostures :: int

definition SimulationConfig_Validate :: "SimulationConfig \<Rightarrow> unit result" where
  "SimulationConfig_Validate c =
     (if IsZero (CfgStartTime c) \<or> IsZero (CfgEndTime c) then Inl ErrInvalidConfig
      else if \<not> CfgEndTime c > CfgStartTime c then Inl ErrInvalidConfig
      else if TimeStepDuration c \<le> 0 then Inl ErrInvalidConfig
      else if PlanningHorizon c \<le> 0 then Inl ErrInvalidConfig
      else Inr ())"

record CostConfig =
  FixedCostPerLoad :: f64
  LoadedMileRate :: f64
  EmptyMileRate :: f64
  EmptyToHomeRate :: f64
  LateDeliveryPerHour :: f64
  EarlyArrivalPerHour :: f64
  DriverBonusWeight :: f64
  OpportunityCostRatio :: f64

definition DefaultCostConfig :: CostConfig where
  "DefaultCostConfig = \<lparr>FixedCostPerLoad = Fin 50, LoadedMileRate = rnd (185 / 100),
     EmptyMileRate = rnd (145 / 100), EmptyToHomeRate = rnd (165 / 100), LateDeliveryPerHour = Fin 100,
     EarlyArrivalPerHour = Fin 25, DriverBonusWeight = 1, OpportunityCostRatio = rnd (15 / 100)\<rparr>"

definition CostConfig_Validate :: "CostConfig \<Rightarrow> unit result" where
  "CostConfig_Validate c =
     (if FixedCostPerLoad c < 0 \<or> LoadedMileRate c < 0 \<or> EmptyMileRate c < 0 \<or> EmptyToHomeRate c < 0
      then Inl ErrInvalidConfig
      else if LateDeliveryPerHour c < 0 \<or> EarlyArrivalPerHour c < 0 then Inl ErrInvalidConfig
      else Inr ())"

record FeasibilityConfig =
  MaxDeadheadMiles :: f64
  MaxEarlyDwellHours :: f64
  MaxLateDeliveryHours :: f64
  AverageSpeedMPH :: f64
  EarlyArrivalSentinelMin :: int
  HOSPolicySpecs :: PolicySpecs

definition FeasibilityConfig_Validate :: "FeasibilityConfig \<Rightarrow> unit result" where
  "FeasibilityConfig_Validate f =
     (if AverageSpeedMPH f \<le> 0 then Inl ErrInvalidConfig
      else if MaxDeadheadMiles f < 0 then Inl ErrInvalidConfig
      else Inr ())"

definition DefaultFeasibilityConfig :: FeasibilityConfig where
  "DefaultFeasibilityConfig = \<lparr>MaxDeadheadMiles = Fin 250, MaxEarlyDwellHours = Fin 12,
     MaxLateDeliveryHours = Fin 2, AverageSpeedMPH = Fin 50, EarlyArrivalSentinelMin = 99999,
     HOSPolicySpecs = USPolicySpecs\<rparr>"

section \<open>The factored state\<close>

record 'b State =
  st_resource :: ResourceState
  st_information :: InformationState
  st_belief :: 'b

definition NewState :: "ResourceState option \<Rightarrow> InformationState option \<Rightarrow> 'b option \<Rightarrow> 'b State result" where
  "NewState resource info belief =
     (case resource of None \<Rightarrow> Inl ErrNilStateComponent | Some r \<Rightarrow>
      (case info of None \<Rightarrow> Inl ErrNilStateComponent | Some i \<Rightarrow>
       (case belief of None \<Rightarrow> Inl ErrNilStateComponent | Some b \<Rightarrow>
        Inr \<lparr>st_resource = r, st_information = i, st_belief = b\<rparr>)))"

definition State_Transition ::
  "libm \<Rightarrow> 'b State \<Rightarrow> Action option \<Rightarrow> Load list \<Rightarrow> 'b State result option" where
  "State_Transition L s action newLoads =
     (let a = (case action of None \<Rightarrow> NewAction [] [] | Some a \<Rightarrow> a) in
      case Transition L (st_resource s) (act_matches a) newLoads of
        None \<Rightarrow> None
      | Some (Inl e) \<Rightarrow> Some (Inl e)
      | Some (Inr nextRes) \<Rightarrow>
          Some (NewState (Some nextRes) (Some (st_information s)) (Some (st_belief s))))"

end
