(* ===== verification/Feasibility.thy ===== *)
theory Feasibility
  imports Action "HOL-Library.Sublist"
begin

text \<open>
  \<open>internal/domain/model/feasibility/filter.go\<close>: the evaluation of a driver-load pair, and the
  concurrent filter. The worker pool is the step relation \<open>pool_step\<close>: a step is one worker taking a
  driver from the job channel and evaluating it against all loads, a worker finding the channel closed
  and sending its arcs, a worker seeing the cancelled context, or the cancellation itself. Workers
  share nothing but the two channels, and the results channel holds one result of each, so a step of
  one worker is atomic for the others. Tracing is not modelled.
\<close>

section \<open>One pair\<close>

record CandidateArc =
  ArcDriverID :: string
  ArcLoadID :: string
  DeadheadMiles :: f64
  LoadedMiles :: f64
  ArcDeadheadDriveMin :: int
  ArcLoadedDriveMin :: int
  ArcInsertedRestMin :: int
  ArcInsertedDwellMin :: int
  TotalTripMin :: int
  ArcPickupArrivalTime :: time
  ArcLoadingEndTime :: time
  ArcDeliveryArrivalTime :: time
  ArcUnloadingEndTime :: time

text \<open>\<open>specs.Name == ""\<close> falls back to the configured specifications, then to the US ones.\<close>

definition pick_specs :: "Driver \<Rightarrow> FeasibilityConfig \<Rightarrow> PolicySpecs" where
  "pick_specs driver cfg =
     (let specs = DrvPolicySpecs driver;
          specs = (if SpecsName specs = '''' then HOSPolicySpecs cfg else specs)
      in if SpecsName specs = '''' then USPolicySpecs else specs)"

definition pick_clocks :: "Driver \<Rightarrow> PolicySpecs \<Rightarrow> DriverClocks" where
  "pick_clocks driver specs = (case Clocks driver of
     Some c \<Rightarrow> c | None \<Rightarrow> NewDriverClocks specs (time_Unix (AvailableEpoch driver)))"

definition epoch_time :: "int \<Rightarrow> time" where
  "epoch_time e = (if e > 0 then time_Unix e else zero_time)"

text \<open>\<open>Inr None\<close> is an infeasible pair.\<close>

definition evaluatePair ::
  "libm \<Rightarrow> FeasibilityConfig \<Rightarrow> Driver \<Rightarrow> Load \<Rightarrow> CandidateArc option result option" where
  "evaluatePair L cfg driver load =
     (if \<not> CanHandle (DrvEquipment driver) (RequiredEquipment load) (RequiredEndorsements load)
      then Some (Inr None)
      else let deadheadMiles = DistanceMiles L (CurrentLocation driver) (Origin load) in
      if MaxDeadheadMiles cfg > 0 \<and> deadheadMiles > MaxDeadheadMiles cfg then Some (Inr None)
      else let
        loadedMiles = DistanceMiles L (Origin load) (Destination load);
        specs = pick_specs driver cfg;
        clocks = pick_clocks driver specs
      in on_ok (EvaluateTripFeasibility (Some clocks) deadheadMiles loadedMiles 60 60 (AverageSpeedMPH cfg)
           (epoch_time (PickupEarliestEpoch load)) (epoch_time (PickupLatestEpoch load))
           (epoch_time (DeliveryEarliestEpoch load)) (epoch_time (DeliveryLatestEpoch load)) specs)
         (\<lambda>tripRes.
            if \<not> IsFeasible tripRes then Some (Inr None)
            else Some (Inr (Some
              \<lparr>ArcDriverID = DrvID driver, ArcLoadID = LdID load,
               DeadheadMiles = deadheadMiles, LoadedMiles = loadedMiles,
               ArcDeadheadDriveMin = DeadheadDriveMin tripRes, ArcLoadedDriveMin = LoadedDriveMin tripRes,
               ArcInsertedRestMin = InsertedRestMin tripRes, ArcInsertedDwellMin = InsertedDwellMin tripRes,
               TotalTripMin = TotalTripDurationMin tripRes,
               ArcPickupArrivalTime = PickupArrivalTime tripRes, ArcLoadingEndTime = LoadingEndTime tripRes,
               ArcDeliveryArrivalTime = DeliveryArrivalTime tripRes,
               ArcUnloadingEndTime = UnloadingEndTime tripRes\<rparr>))))"

text \<open>The inner loop of a worker: one driver against every load.\<close>

fun eval_driver ::
  "libm \<Rightarrow> FeasibilityConfig \<Rightarrow> Load list \<Rightarrow> Driver \<Rightarrow> CandidateArc list result option" where
  "eval_driver L cfg [] d = Some (Inr [])"
| "eval_driver L cfg (l # ls) d =
     on_ok (evaluatePair L cfg d l) (\<lambda>arc.
     on_ok (eval_driver L cfg ls d) (\<lambda>arcs.
       Some (Inr (case arc of None \<Rightarrow> arcs | Some a \<Rightarrow> a # arcs))))"

section \<open>The worker pool\<close>

datatype worker = Busy "CandidateArc list" | Exited

record pool =
  jobs :: "Driver list"
  pool_workers :: "worker list"
  results :: "CandidateArc list result list"
  cancelled :: bool

definition ctx_err :: go_error where
  "ctx_err = ErrOther ''context canceled''"

inductive pool_step :: "libm \<Rightarrow> FeasibilityConfig \<Rightarrow> Load list \<Rightarrow> pool \<Rightarrow> pool \<Rightarrow> bool" for L cfg loads where
  step_job: "i < length (pool_workers s) \<Longrightarrow> pool_workers s ! i = Busy arcs \<Longrightarrow> jobs s = d # q \<Longrightarrow>
    \<not> cancelled s \<Longrightarrow> eval_driver L cfg loads d = Some (Inr new) \<Longrightarrow>
    pool_step L cfg loads s (s\<lparr>jobs := q, pool_workers := (pool_workers s)[i := Busy (arcs @ new)]\<rparr>)"
| step_error: "i < length (pool_workers s) \<Longrightarrow> pool_workers s ! i = Busy arcs \<Longrightarrow> jobs s = d # q \<Longrightarrow>
    \<not> cancelled s \<Longrightarrow> eval_driver L cfg loads d = Some (Inl e) \<Longrightarrow>
    pool_step L cfg loads s (s\<lparr>jobs := q, pool_workers := (pool_workers s)[i := Exited],
      results := results s @ [Inl e]\<rparr>)"
| step_send: "i < length (pool_workers s) \<Longrightarrow> pool_workers s ! i = Busy arcs \<Longrightarrow> jobs s = [] \<Longrightarrow>
    pool_step L cfg loads s (s\<lparr>pool_workers := (pool_workers s)[i := Exited],
      results := results s @ [Inr arcs]\<rparr>)"
| step_abort: "i < length (pool_workers s) \<Longrightarrow> pool_workers s ! i = Busy arcs \<Longrightarrow> jobs s = d # q \<Longrightarrow>
    cancelled s \<Longrightarrow>
    pool_step L cfg loads s (s\<lparr>jobs := q, pool_workers := (pool_workers s)[i := Exited],
      results := results s @ [Inl ctx_err]\<rparr>)"
| step_drop: "i < length (pool_workers s) \<Longrightarrow> pool_workers s ! i = Busy arcs \<Longrightarrow> jobs s = [] \<Longrightarrow>
    cancelled s \<Longrightarrow>
    pool_step L cfg loads s (s\<lparr>pool_workers := (pool_workers s)[i := Exited]\<rparr>)"
| step_cancel: "pool_step L cfg loads s (s\<lparr>cancelled := True\<rparr>)"

definition worker_count :: "int \<Rightarrow> nat \<Rightarrow> Driver list \<Rightarrow> nat" where
  "worker_count configured ncpu drivers =
     (let n = (if configured \<le> 0 then ncpu else nat configured) in min n (length drivers))"

definition init_pool :: "nat \<Rightarrow> Driver list \<Rightarrow> pool" where
  "init_pool n drivers = \<lparr>jobs = drivers, pool_workers = replicate n (Busy []), results = [], cancelled = False\<rparr>"

definition all_exited :: "pool \<Rightarrow> bool" where
  "all_exited s \<longleftrightarrow> (\<forall>w\<in>set (pool_workers s). w = Exited)"

definition arc_less :: "CandidateArc \<Rightarrow> CandidateArc \<Rightarrow> bool" where
  "arc_less a b = (if ArcDriverID a \<noteq> ArcDriverID b then ArcDriverID a < ArcDriverID b
                   else ArcLoadID a < ArcLoadID b)"

text \<open>The collecting loop and the final sort.\<close>

fun collect_results :: "CandidateArc list \<Rightarrow> CandidateArc list result list \<Rightarrow> CandidateArc list result" where
  "collect_results acc [] = Inr acc"
| "collect_results acc (Inl e # rs) = Inl e"
| "collect_results acc (Inr arcs # rs) = collect_results (acc @ arcs) rs"

definition pool_result :: "pool \<Rightarrow> CandidateArc list result" where
  "pool_result s =
     (case collect_results [] (results s) of
        Inl e \<Rightarrow> Inl e
      | Inr allArcs \<Rightarrow> if cancelled s then Inl ctx_err else Inr (sort_slice arc_less allArcs))"

text \<open>
  \<open>FilterCandidates\<close> relates its arguments to the results its schedules can produce.
\<close>

definition FilterCandidates ::
  "libm \<Rightarrow> FeasibilityConfig \<Rightarrow> int \<Rightarrow> nat \<Rightarrow> Driver list \<Rightarrow> Load list \<Rightarrow> pool option \<Rightarrow>
    CandidateArc list result \<Rightarrow> bool" where
  "FilterCandidates L cfg configured ncpu drivers loads final r =
     (if drivers = [] \<or> loads = [] then final = None \<and> r = Inr []
      else \<exists>s. final = Some s \<and>
        (pool_step L cfg loads)\<^sup>*\<^sup>* (init_pool (worker_count configured ncpu drivers) drivers) s \<and>
        all_exited s \<and> r = pool_result s)"

section \<open>Schedules\<close>

definition no_error :: "CandidateArc list result list \<Rightarrow> bool" where
  "no_error rs \<longleftrightarrow> (\<forall>r\<in>set rs. \<exists>a. r = Inr a)"

fun worker_arcs :: "worker \<Rightarrow> CandidateArc list" where
  "worker_arcs (Busy arcs) = arcs"
| "worker_arcs Exited = []"

fun result_arcs :: "CandidateArc list result \<Rightarrow> CandidateArc list" where
  "result_arcs (Inl _) = []"
| "result_arcs (Inr arcs) = arcs"

definition held_arcs :: "pool \<Rightarrow> CandidateArc multiset" where
  "held_arcs s = sum_list (map (mset \<circ> worker_arcs) (pool_workers s)) + sum_list (map (mset \<circ> result_arcs) (results s))"

definition driver_arcs :: "libm \<Rightarrow> FeasibilityConfig \<Rightarrow> Load list \<Rightarrow> Driver \<Rightarrow> CandidateArc list" where
  "driver_arcs L cfg loads d = (case eval_driver L cfg loads d of Some (Inr arcs) \<Rightarrow> arcs | _ \<Rightarrow> [])"

definition busy :: "pool \<Rightarrow> nat" where
  "busy s = sum_list (map (\<lambda>w. if w = Exited then 0 else 1) (pool_workers s))"

text \<open>The invariant of an uncancelled run over \<open>drivers\<close> by \<open>n\<close> workers.\<close>

definition pool_inv :: "libm \<Rightarrow> FeasibilityConfig \<Rightarrow> Load list \<Rightarrow> Driver list \<Rightarrow> nat \<Rightarrow> pool \<Rightarrow> bool" where
  "pool_inv L cfg loads drivers n s \<longleftrightarrow> cancelled s \<or>
     (busy s + length (results s) = n \<and>
      (\<forall>e. Inl e \<in> set (results s) \<longrightarrow> (\<exists>d\<in>set drivers. eval_driver L cfg loads d = Some (Inl e))) \<and>
      (\<forall>a. Inr a \<in> set (results s) \<longrightarrow> jobs s = []) \<and>
      (\<exists>finished. drivers = finished @ jobs s \<and>
        (no_error (results s) \<longrightarrow>
          (\<forall>d\<in>set finished. \<exists>arcs. eval_driver L cfg loads d = Some (Inr arcs)) \<and>
          held_arcs s = mset (concat (map (driver_arcs L cfg loads) finished)))))"

lemma sum_list_map_update:
  fixes f :: "'a \<Rightarrow> 'b::comm_monoid_add"
  assumes "i < length ws"
  shows "f (ws ! i) + sum_list (map f (ws[i := w])) = f w + sum_list (map f ws)"
  using assms
proof (induction ws arbitrary: i)
  case (Cons x xs)
  then show ?case by (cases i) (auto simp: ac_simps)
qed simp

lemma busy_exit:
  assumes "i < length (pool_workers s)" and "pool_workers s ! i = Busy arcs"
    and "pool_workers s' = (pool_workers s)[i := Exited]"
  shows "busy s = Suc (busy s')"
  using sum_list_map_update [OF assms(1), of "\<lambda>w. if w = Exited then 0 else (1::nat)" Exited] assms(2,3)
  by (simp add: busy_def)

lemma busy_keep:
  assumes "i < length (pool_workers s)" and "pool_workers s ! i = Busy arcs"
    and "pool_workers s' = (pool_workers s)[i := Busy arcs']"
  shows "busy s' = busy s"
  using sum_list_map_update [OF assms(1), of "\<lambda>w. if w = Exited then 0 else (1::nat)" "Busy arcs'"] assms(2,3)
  by (simp add: busy_def)

lemma held_update:
  assumes "i < length (pool_workers s)" and "pool_workers s ! i = Busy arcs"
    and "pool_workers s' = (pool_workers s)[i := w]" and "results s' = results s @ rs"
  shows "mset arcs + held_arcs s' =
    mset (worker_arcs w) + sum_list (map (mset \<circ> result_arcs) rs) + held_arcs s"
  using sum_list_map_update [OF assms(1), of "mset \<circ> worker_arcs" w] assms(2-4)
  by (simp add: held_arcs_def ac_simps)

lemma init_pool_inv: "pool_inv L cfg loads drivers n (init_pool n drivers)"
proof -
  have "sum_list (map (mset \<circ> worker_arcs) (replicate n (Busy []))) = {#}" by (induction n) auto
  moreover have "busy (init_pool n drivers) = n" by (induction n) (auto simp: busy_def init_pool_def)
  ultimately show ?thesis by (simp add: pool_inv_def init_pool_def no_error_def held_arcs_def)
qed

lemma pool_step_inv:
  assumes "pool_step L cfg loads s s'" and inv: "pool_inv L cfg loads drivers n s"
  shows "pool_inv L cfg loads drivers n s'"
proof (cases "cancelled s'")
  case True
  then show ?thesis by (simp add: pool_inv_def)
next
  case nc: False
  from assms(1) show ?thesis
  proof cases
    case (step_job i arcs d q new)
    from inv nc step_job obtain fin where f: "drivers = fin @ d # q" "busy s + length (results s) = n"
      "\<forall>e. Inl e \<in> set (results s) \<longrightarrow> (\<exists>d\<in>set drivers. eval_driver L cfg loads d = Some (Inl e))"
      "\<forall>a. Inr a \<notin> set (results s)"
      "no_error (results s) \<longrightarrow> (\<forall>d\<in>set fin. \<exists>arcs. eval_driver L cfg loads d = Some (Inr arcs)) \<and>
          held_arcs s = mset (concat (map (driver_arcs L cfg loads) fin))"
      by (auto simp: pool_inv_def)
    have "busy s' = busy s" by (rule busy_keep [OF step_job(2,3)]) (simp add: step_job(1))
    moreover have "held_arcs s' = mset new + held_arcs s"
      using held_update [OF step_job(2,3), of s' "Busy (arcs @ new)" "[]"] by (simp add: step_job(1))
    moreover have "driver_arcs L cfg loads d = new" using step_job by (simp add: driver_arcs_def)
    moreover have "results s' = results s" "jobs s' = q" using step_job(1) by simp_all
    moreover have "\<exists>arcs. eval_driver L cfg loads d = Some (Inr arcs)" using step_job by simp
    ultimately show ?thesis unfolding pool_inv_def
      by (intro disjI2 conjI) (use f in \<open>auto intro!: exI [of _ "fin @ [d]"] simp: ac_simps\<close>)
  next
    case (step_error i arcs d q e)
    from inv nc step_error obtain fin where f: "drivers = fin @ d # q" "busy s + length (results s) = n"
      "\<forall>e. Inl e \<in> set (results s) \<longrightarrow> (\<exists>d\<in>set drivers. eval_driver L cfg loads d = Some (Inl e))"
      "\<forall>a. Inr a \<notin> set (results s)"
      by (auto simp: pool_inv_def)
    have b: "busy s = Suc (busy s')" by (rule busy_exit [OF step_error(2,3)]) (simp add: step_error(1))
    have r: "results s' = results s @ [Inl e]" "jobs s' = q" using step_error(1) by simp_all
    have "\<not> no_error (results s')" by (auto simp: no_error_def r)
    moreover have "\<exists>d\<in>set drivers. eval_driver L cfg loads d = Some (Inl e)" using step_error f(1) by auto
    ultimately show ?thesis unfolding pool_inv_def
      by (intro disjI2 conjI) (use f b in \<open>auto intro!: exI [of _ "fin @ [d]"] simp: r\<close>)
  next
    case (step_send i arcs)
    from inv nc step_send obtain fin where f: "drivers = fin" "busy s + length (results s) = n"
      "\<forall>e. Inl e \<in> set (results s) \<longrightarrow> (\<exists>d\<in>set drivers. eval_driver L cfg loads d = Some (Inl e))"
      "no_error (results s) \<longrightarrow> (\<forall>d\<in>set fin. \<exists>arcs. eval_driver L cfg loads d = Some (Inr arcs)) \<and>
          held_arcs s = mset (concat (map (driver_arcs L cfg loads) fin))"
      by (auto simp: pool_inv_def)
    have b: "busy s = Suc (busy s')" by (rule busy_exit [OF step_send(2,3)]) (simp add: step_send(1))
    have r: "results s' = results s @ [Inr arcs]" "jobs s' = []" using step_send by simp_all
    have "held_arcs s' = held_arcs s"
      using held_update [OF step_send(2,3), of s' Exited "[Inr arcs]"] by (simp add: step_send(1))
    then show ?thesis unfolding pool_inv_def
      by (intro disjI2 conjI) (use f b in \<open>auto simp: r no_error_def\<close>)
  qed (use nc in auto)
qed

lemma pool_run_inv:
  assumes "(pool_step L cfg loads)\<^sup>*\<^sup>* (init_pool n drivers) s"
  shows "pool_inv L cfg loads drivers n s"
  using assms by (induction rule: rtranclp_induct) (auto intro: init_pool_inv pool_step_inv)

lemma collect_no_error:
  "no_error rs \<Longrightarrow> collect_results acc rs = Inr (acc @ concat (map result_arcs rs))"
  by (induction rs arbitrary: acc) (auto simp: no_error_def)

lemma collect_error:
  "\<not> no_error rs \<Longrightarrow> \<exists>e. Inl e \<in> set rs \<and> collect_results acc rs = Inl e"
proof (induction rs arbitrary: acc)
  case (Cons r rs)
  then show ?case by (cases r) (auto simp: no_error_def)
qed (simp add: no_error_def)

lemma exited_arcs: "all_exited s \<Longrightarrow> held_arcs s = mset (concat (map result_arcs (results s))) \<and> busy s = 0"
proof -
  assume a: "all_exited s"
  have "(\<forall>w\<in>set ws. w = Exited) \<Longrightarrow> sum_list (map (mset \<circ> worker_arcs) ws) = {#} \<and>
    sum_list (map (\<lambda>w. if w = Exited then 0 else (1::nat)) ws) = 0" for ws
    by (induction ws) auto
  moreover have "sum_list (map (mset \<circ> result_arcs) rs) = mset (concat (map result_arcs rs))" for rs
    by (induction rs) auto
  ultimately show ?thesis using a by (simp add: all_exited_def held_arcs_def busy_def)
qed

section \<open>Arcs of a driver\<close>

lemma evaluatePair_arc:
  assumes "evaluatePair L cfg d l = Some (Inr (Some a))"
  shows "ArcDriverID a = DrvID d \<and> ArcLoadID a = LdID l \<and>
    CanHandle (DrvEquipment d) (RequiredEquipment l) (RequiredEndorsements l) \<and>
    \<not> (MaxDeadheadMiles cfg > 0 \<and> DistanceMiles L (CurrentLocation d) (Origin l) > MaxDeadheadMiles cfg) \<and>
    (IsZero (epoch_time (PickupLatestEpoch l)) \<or> ArcPickupArrivalTime a \<le> epoch_time (PickupLatestEpoch l)) \<and>
    (IsZero (epoch_time (DeliveryLatestEpoch l)) \<or> ArcDeliveryArrivalTime a \<le> epoch_time (DeliveryLatestEpoch l))"
proof -
  let ?dead = "DistanceMiles L (CurrentLocation d) (Origin l)"
  have guards: "CanHandle (DrvEquipment d) (RequiredEquipment l) (RequiredEndorsements l)"
    "\<not> (MaxDeadheadMiles cfg > 0 \<and> ?dead > MaxDeadheadMiles cfg)"
    using assms by (auto simp: evaluatePair_def Let_def split: if_splits)
  then obtain t where t: "EvaluateTripFeasibility (Some (pick_clocks d (pick_specs d cfg))) ?dead
      (DistanceMiles L (Origin l) (Destination l)) 60 60 (AverageSpeedMPH cfg)
      (epoch_time (PickupEarliestEpoch l)) (epoch_time (PickupLatestEpoch l))
      (epoch_time (DeliveryEarliestEpoch l)) (epoch_time (DeliveryLatestEpoch l)) (pick_specs d cfg) = Some (Inr t)"
    "IsFeasible t" "ArcDriverID a = DrvID d" "ArcLoadID a = LdID l"
    "ArcPickupArrivalTime a = PickupArrivalTime t" "ArcDeliveryArrivalTime a = DeliveryArrivalTime t"
    using assms unfolding evaluatePair_def Let_def by (auto elim!: on_ok_InrE split: if_splits)
  from t(1) show ?thesis
  proof (cases rule: EvaluateTrip_legs)
    case (1 r1 p2 r3 r4 p5 r6 r0 m1 m2)
    with t(2) check_windows_feasible [OF 1(8)] guards t(3-6) show ?thesis by auto
  qed
qed

lemma eval_driver_arcs:
  assumes "eval_driver L cfg ls d = Some (Inr arcs)"
  shows "(\<forall>a\<in>set arcs. \<exists>l\<in>set ls. evaluatePair L cfg d l = Some (Inr (Some a))) \<and>
    subseq (map ArcLoadID arcs) (map LdID ls)"
  using assms
proof (induction ls arbitrary: arcs)
  case (Cons l ls)
  then obtain x rest where x: "evaluatePair L cfg d l = Some (Inr x)" "eval_driver L cfg ls d = Some (Inr rest)"
    "arcs = (case x of None \<Rightarrow> rest | Some a \<Rightarrow> a # rest)"
    by (auto elim!: on_ok_InrE)
  with Cons.IH [OF x(2)] evaluatePair_arc [of L cfg d l] show ?case by (cases x) auto
qed simp

lemma eval_driver_cases:
  assumes "ValidatePolicy (pick_specs d cfg) = Inr ()" and "clocks_safe (pick_clocks d (pick_specs d cfg))"
  obtains arcs where "eval_driver L cfg ls d = Some (Inr arcs)"
proof -
  have pair: "\<exists>x. evaluatePair L cfg d l = Some (Inr x)" for l
  proof -
    obtain t where "EvaluateTripFeasibility (Some (pick_clocks d (pick_specs d cfg)))
      (DistanceMiles L (CurrentLocation d) (Origin l)) (DistanceMiles L (Origin l) (Destination l)) 60 60
      (AverageSpeedMPH cfg) (epoch_time (PickupEarliestEpoch l)) (epoch_time (PickupLatestEpoch l))
      (epoch_time (DeliveryEarliestEpoch l)) (epoch_time (DeliveryLatestEpoch l)) (pick_specs d cfg) = Some (Inr t)"
      using trip_returns [OF assms] by blast
    then show ?thesis by (simp add: evaluatePair_def Let_def)
  qed
  have "\<exists>arcs. eval_driver L cfg ls d = Some (Inr arcs)"
  proof (induction ls)
    case (Cons l ls)
    then show ?case using pair [of l] by auto
  qed simp
  with that show thesis by blast
qed

definition arc_key :: "CandidateArc \<Rightarrow> string \<times> string" where
  "arc_key a = (ArcDriverID a, ArcLoadID a)"

lemma arc_less_key: "arc_less = (\<lambda>a b. arc_key a < arc_key b)"
  by (intro ext) (auto simp: arc_less_def arc_key_def)

lemma driver_arcs_keys:
  assumes "distinct (map LdID loads)"
  shows "distinct (map ArcLoadID (driver_arcs L cfg loads d)) \<and>
    (\<forall>a\<in>set (driver_arcs L cfg loads d). ArcDriverID a = DrvID d)"
proof (cases "\<exists>arcs. eval_driver L cfg loads d = Some (Inr arcs)")
  case True
  then obtain arcs where a: "eval_driver L cfg loads d = Some (Inr arcs)" by blast
  have "distinct (map ArcLoadID arcs)"
    using eval_driver_arcs [OF a] assms by (metis distinct_nthsI subseq_conv_nths)
  with eval_driver_arcs [OF a] evaluatePair_arc [of L cfg d] show ?thesis
    by (auto simp: driver_arcs_def a)
next
  case False
  then show ?thesis by (auto simp: driver_arcs_def split: option.splits sum.splits)
qed

lemma all_arcs_distinct:
  assumes "distinct (map DrvID drivers)" and "distinct (map LdID loads)"
  shows "distinct (map arc_key (concat (map (driver_arcs L cfg loads) drivers)))"
  using assms(1)
proof (induction drivers)
  case (Cons d ds)
  let ?A = "driver_arcs L cfg loads"
  have "inj_on arc_key (set (?A d))" "distinct (?A d)"
    using driver_arcs_keys [OF assms(2), of L cfg d] by (auto simp: distinct_map arc_key_def inj_on_def)
  note front = this
  have ne: "arc_key a \<noteq> arc_key b" if "a \<in> set (?A d)" "x \<in> set ds" "b \<in> set (?A x)" for a b x
    using driver_arcs_keys [OF assms(2)] that Cons.prems by (auto simp: arc_key_def)
  note front
  moreover have "arc_key ` set (?A d) \<inter> arc_key ` set (concat (map ?A ds)) = {}"
  proof (rule equals0I, elim IntE imageE)
    fix k a b
    assume "k = arc_key a" "a \<in> set (?A d)" "k = arc_key b" "b \<in> set (concat (map ?A ds))"
    then show False using ne [of a _ b] by auto
  qed
  moreover have "distinct (map arc_key (concat (map ?A ds)))" using Cons by simp
  ultimately show ?case
    by (simp only: list.map concat.simps map_append distinct_append set_map distinct_map [of arc_key "?A d"])
qed simp

section \<open>The filter is deterministic\<close>

text \<open>
  Property C10. The filter is independent of its concurrency: however many workers run and however
  they interleave, an uncancelled run returns the arcs that a sequential evaluation of the drivers
  yields, in canonical order; if some driver's evaluation fails, it returns such a failure.
\<close>

theorem FilterCandidates_deterministic:
  assumes "loads \<noteq> []" and "drivers \<noteq> []" and "0 < ncpu"
    and dist: "distinct (map DrvID drivers)" "distinct (map LdID loads)"
    and run: "FilterCandidates L cfg configured ncpu drivers loads (Some s) r" and nc: "\<not> cancelled s"
  shows "if \<exists>d\<in>set drivers. \<exists>e. eval_driver L cfg loads d = Some (Inl e)
    then \<exists>d\<in>set drivers. \<exists>e. eval_driver L cfg loads d = Some (Inl e) \<and> r = Inl e
    else r = Inr (sort_slice arc_less (concat (map (driver_arcs L cfg loads) drivers)))"
proof -
  let ?n = "worker_count configured ncpu drivers"
  from run assms(1,2) have s: "(pool_step L cfg loads)\<^sup>*\<^sup>* (init_pool ?n drivers) s" "all_exited s" "r = pool_result s"
    by (auto simp: FilterCandidates_def)
  have n: "0 < ?n" using assms(2,3) by (auto simp: worker_count_def Let_def)
  note inv = pool_run_inv [OF s(1)] and ex = exited_arcs [OF s(2)]
  show ?thesis
  proof (cases "no_error (results s)")
    case False
    then obtain e where e: "Inl e \<in> set (results s)" "collect_results [] (results s) = Inl e"
      using collect_error by blast
    with s(3) have "r = Inl e" by (simp add: pool_result_def)
    moreover have "\<exists>d\<in>set drivers. eval_driver L cfg loads d = Some (Inl e)"
      using inv nc e(1) unfolding pool_inv_def by blast
    ultimately show ?thesis by auto
  next
    case True
    have len: "length (results s) = ?n" using inv nc ex by (simp add: pool_inv_def)
    with n True have "\<exists>a. Inr a \<in> set (results s)" by (cases "results s") (auto simp: no_error_def)
    then have fin: "jobs s = []" using inv nc by (auto simp: pool_inv_def)
    then have all: "\<forall>d\<in>set drivers. \<exists>arcs. eval_driver L cfg loads d = Some (Inr arcs)"
      "held_arcs s = mset (concat (map (driver_arcs L cfg loads) drivers))"
      using inv nc True by (auto simp: pool_inv_def)
    have "mset (concat (map result_arcs (results s))) = mset (concat (map (driver_arcs L cfg loads) drivers))"
      using ex all(2) by simp
    from sort_slice_key_perm [OF this [symmetric] all_arcs_distinct [OF dist]]
    have "r = Inr (sort_slice arc_less (concat (map (driver_arcs L cfg loads) drivers)))"
      using s(3) nc True by (simp add: pool_result_def collect_no_error arc_less_key)
    with all(1) show ?thesis by fastforce
  qed
qed

section \<open>Progress\<close>

lemma pool_finish_step:
  assumes "\<forall>d\<in>set (jobs s). eval_driver L cfg loads d \<noteq> None" and "\<not> all_exited s"
  obtains s' where "pool_step L cfg loads s s'" and "busy s' + length (jobs s') < busy s + length (jobs s)"
    and "cancelled s' = cancelled s" and "set (jobs s') \<subseteq> set (jobs s)"
proof -
  obtain i arcs where i: "i < length (pool_workers s)" "pool_workers s ! i = Busy arcs"
    using assms(2) unfolding all_exited_def by (metis in_set_conv_nth worker.exhaust)
  have exit: "busy s = Suc (busy s')" if "pool_workers s' = (pool_workers s)[i := Exited]" for s'
    by (rule busy_exit [OF i that])
  have keep: "busy s' = busy s" if "pool_workers s' = (pool_workers s)[i := Busy a]" for s' a
    by (rule busy_keep [OF i that])
  show thesis
  proof (cases "jobs s")
    case Nil
    let ?s = "s\<lparr>pool_workers := (pool_workers s)[i := Exited], results := results s @ [Inr arcs]\<rparr>"
    show thesis
      by (rule that [OF step_send [OF i Nil]]) (use exit [of ?s] Nil in auto)
  next
    case (Cons d q)
    show thesis
    proof (cases "cancelled s")
      case True
      show thesis
        by (rule that [OF step_abort [OF i Cons True]])
          (use exit [of "s\<lparr>jobs := q, pool_workers := (pool_workers s)[i := Exited],
             results := results s @ [Inl ctx_err]\<rparr>"] Cons in auto)
    next
      case nc: False
      obtain x where x: "eval_driver L cfg loads d = Some x" using assms(1) Cons by auto
      show thesis
      proof (cases x)
        case (Inl e)
        show thesis
          by (rule that [OF step_error [OF i Cons nc x [unfolded Inl]]])
            (use exit [of "s\<lparr>jobs := q, pool_workers := (pool_workers s)[i := Exited],
               results := results s @ [Inl e]\<rparr>"] Cons in auto)
      next
        case (Inr new)
        show thesis
          by (rule that [OF step_job [OF i Cons nc x [unfolded Inr]]])
            (use keep [of "s\<lparr>jobs := q, pool_workers := (pool_workers s)[i := Busy (arcs @ new)]\<rparr>"] Cons in auto)
      qed
    qed
  qed
qed

lemma pool_can_finish:
  assumes "\<forall>d\<in>set (jobs s). eval_driver L cfg loads d \<noteq> None"
  shows "\<exists>s'. (pool_step L cfg loads)\<^sup>*\<^sup>* s s' \<and> all_exited s' \<and> cancelled s' = cancelled s"
  using assms
proof (induction "busy s + length (jobs s)" arbitrary: s rule: less_induct)
  case less
  show ?case
  proof (cases "all_exited s")
    case False
    with less.prems obtain s1 where s1: "pool_step L cfg loads s s1"
      "busy s1 + length (jobs s1) < busy s + length (jobs s)" "cancelled s1 = cancelled s"
      "set (jobs s1) \<subseteq> set (jobs s)" by (rule pool_finish_step)
    with less.hyps [OF s1(2)] less.prems obtain s2 where
      "(pool_step L cfg loads)\<^sup>*\<^sup>* s1 s2" "all_exited s2" "cancelled s2 = cancelled s1" by blast
    with s1 show ?thesis by (metis converse_rtranclp_into_rtranclp)
  qed auto
qed

lemma pool_jobs_subset:
  assumes "(pool_step L cfg loads)\<^sup>*\<^sup>* (init_pool n drivers) s"
  shows "set (jobs s) \<subseteq> set drivers"
  using assms
proof (induction rule: rtranclp_induct)
  case (step s s')
  from step.hyps(2) step.IH show ?case by (cases rule: pool_step.cases) auto
qed (simp add: init_pool_def)


lemma demo_driver_specs [simp]:
  "pick_specs (demo_driver k a) cfg = USPolicySpecs"
  "clocks_safe (pick_clocks (demo_driver k a) USPolicySpecs)"
  by (simp_all add: pick_specs_def pick_clocks_def demo_driver_def USPolicySpecs_def Let_def)
    (simp add: NewDriverClocks_safe [OF US_specs_valid, unfolded USPolicySpecs_def])


lemma FilterCandidates_deterministic_witness:
  "\<exists>s r. FilterCandidates demo_libm DefaultFeasibilityConfig 0 4 [demo_driver ''D2'' demo_A, demo_driver ''D1'' demo_B]
      [demo_load ''L1'' demo_A demo_B] (Some s) r \<and>
    r = Inr (sort_slice arc_less (concat (map (driver_arcs demo_libm DefaultFeasibilityConfig [demo_load ''L1'' demo_A demo_B])
      [demo_driver ''D2'' demo_A, demo_driver ''D1'' demo_B])))"
proof -
  let ?ds = "[demo_driver ''D2'' demo_A, demo_driver ''D1'' demo_B]" and ?ls = "[demo_load ''L1'' demo_A demo_B]"
  let ?c = DefaultFeasibilityConfig
  have ok: "\<exists>arcs. eval_driver demo_libm ?c ?ls d = Some (Inr arcs)" if "d \<in> set ?ds" for d
  proof -
    have "ValidatePolicy (pick_specs d ?c) = Inr ()" "clocks_safe (pick_clocks d (pick_specs d ?c))"
      using that by (auto simp: US_specs_valid)
    then obtain arcs where "eval_driver demo_libm ?c ?ls d = Some (Inr arcs)" by (rule eval_driver_cases)
    then show ?thesis by blast
  qed
  have jobs: "\<forall>d\<in>set (jobs (init_pool (worker_count 0 4 ?ds) ?ds)). eval_driver demo_libm ?c ?ls d \<noteq> None"
  proof
    fix d assume "d \<in> set (jobs (init_pool (worker_count 0 4 ?ds) ?ds))"
    then have "d \<in> set ?ds" by (simp add: init_pool_def)
    from ok [OF this] show "eval_driver demo_libm ?c ?ls d \<noteq> None" by (elim exE) (simp only: option.distinct not_False_eq_True)
  qed
  obtain s where s: "(pool_step demo_libm ?c ?ls)\<^sup>*\<^sup>* (init_pool (worker_count 0 4 ?ds) ?ds) s" "all_exited s"
    "cancelled s = cancelled (init_pool (worker_count 0 4 ?ds) ?ds)"
    using pool_can_finish [OF jobs] by blast
  have nc: "\<not> cancelled s" using s(3) by (simp add: init_pool_def)
  have f: "FilterCandidates demo_libm ?c 0 4 ?ds ?ls (Some s) (pool_result s)"
    unfolding FilterCandidates_def using s(1,2) by simp
  have no: "\<not> (\<exists>d\<in>set ?ds. \<exists>e. eval_driver demo_libm ?c ?ls d = Some (Inl e))"
  proof
    assume "\<exists>d\<in>set ?ds. \<exists>e. eval_driver demo_libm ?c ?ls d = Some (Inl e)"
    then obtain d e where d: "d \<in> set ?ds" "eval_driver demo_libm ?c ?ls d = Some (Inl e)" by blast
    from ok [OF d(1)] d(2) show False by (elim exE) (simp only: option.inject sum.distinct)
  qed
  have dist: "distinct (map DrvID ?ds)" "distinct (map LdID ?ls)" by (simp_all add: demo_driver_def)
  from FilterCandidates_deterministic [OF list.distinct(2) list.distinct(2) zero_less_numeral dist f nc]
  have "pool_result s = Inr (sort_slice arc_less (concat (map (driver_arcs demo_libm ?c ?ls) ?ds)))"
    unfolding if_not_P [OF no] .
  with f show ?thesis by blast
qed

lemma FilterCandidates_sound_spec:
  assumes "FilterCandidates L cfg configured ncpu drivers loads final (Inr arcs)" and "a \<in> set arcs"
  shows "\<exists>d\<in>set drivers. \<exists>l\<in>set loads. ArcDriverID a = DrvID d \<and> ArcLoadID a = LdID l \<and>
    CanHandle (DrvEquipment d) (RequiredEquipment l) (RequiredEndorsements l) \<and>
    \<not> (MaxDeadheadMiles cfg > 0 \<and> DistanceMiles L (CurrentLocation d) (Origin l) > MaxDeadheadMiles cfg) \<and>
    (PickupLatestEpoch l > 0 \<longrightarrow> ArcPickupArrivalTime a \<le> time_Unix (PickupLatestEpoch l)) \<and>
    (DeliveryLatestEpoch l > 0 \<longrightarrow> ArcDeliveryArrivalTime a \<le> time_Unix (DeliveryLatestEpoch l))"
proof -
  have ne: "drivers \<noteq> [] \<and> loads \<noteq> []"
    using assms by (auto simp: FilterCandidates_def split: if_splits)
  then obtain s where s: "(pool_step L cfg loads)\<^sup>*\<^sup>* (init_pool (worker_count configured ncpu drivers) drivers) s"
    "all_exited s" "pool_result s = Inr arcs"
    using assms(1) by (auto simp: FilterCandidates_def)
  have ok: "no_error (results s)" "\<not> cancelled s"
    using s(3) collect_error [of "results s" "[]"] by (auto simp: pool_result_def split: sum.splits if_splits)
  then have "set arcs = set (concat (map result_arcs (results s)))"
    using s(3) by (auto simp: pool_result_def collect_no_error)
  then have "a \<in># held_arcs s" using assms(2) exited_arcs [OF s(2)] by auto
  moreover obtain fin where fin: "drivers = fin @ jobs s"
    "held_arcs s = mset (concat (map (driver_arcs L cfg loads) fin))"
    using pool_run_inv [OF s(1)] ok unfolding pool_inv_def by blast
  ultimately have "a \<in> set (concat (map (driver_arcs L cfg loads) fin))" by simp
  then obtain d where d: "d \<in> set drivers" "a \<in> set (driver_arcs L cfg loads d)"
    unfolding fin(1) by auto
  obtain as where as: "eval_driver L cfg loads d = Some (Inr as)" "a \<in> set as"
    using d(2) unfolding driver_arcs_def by (cases "eval_driver L cfg loads d") (auto split: sum.splits)
  with eval_driver_arcs obtain l where l: "l \<in> set loads" "evaluatePair L cfg d l = Some (Inr (Some a))" by blast
  have e: "epoch_time k = time_Unix k \<and> \<not> IsZero (time_Unix k)" if "0 < k" for k
    using that by (simp add: epoch_time_def time_Unix_not_zero)
  from evaluatePair_arc [OF l(2)] e [of "PickupLatestEpoch l"] e [of "DeliveryLatestEpoch l"] d(1) l(1)
  show ?thesis by metis
qed

text \<open>
  Property C11. Every arc the filter returns is a feasible assignment: it joins a driver and a load of
  the input, the driver's equipment can carry the load, the deadhead respects the configured limit, and
  the projected arrivals meet the latest pickup and delivery times that the load sets.
\<close>

theorem FilterCandidates_sound:
  assumes "FilterCandidates L cfg configured ncpu drivers loads final (Inr arcs)" and "a \<in> set arcs"
  shows "\<exists>d\<in>set drivers. \<exists>l\<in>set loads. ArcDriverID a = DrvID d \<and> ArcLoadID a = LdID l \<and>
    CanHandle (DrvEquipment d) (RequiredEquipment l) (RequiredEndorsements l) \<and>
    \<not> (MaxDeadheadMiles cfg > 0 \<and> DistanceMiles L (CurrentLocation d) (Origin l) > MaxDeadheadMiles cfg) \<and>
    (PickupLatestEpoch l > 0 \<longrightarrow> ArcPickupArrivalTime a \<le> time_Unix (PickupLatestEpoch l)) \<and>
    (DeliveryLatestEpoch l > 0 \<longrightarrow> ArcDeliveryArrivalTime a \<le> time_Unix (DeliveryLatestEpoch l))"
  using assms by (rule FilterCandidates_sound_spec)

lemma demo_pair:
  "\<exists>arc. evaluatePair L DefaultFeasibilityConfig (demo_driver k (demo_loc n x y)) (demo_load l (demo_loc n x y) b)
    = Some (Inr (Some arc))"
proof -
  let ?d = "demo_driver k (demo_loc n x y)" and ?l = "demo_load l (demo_loc n x y) b"
  let ?c = DefaultFeasibilityConfig
  have dist: "DistanceMiles L (CurrentLocation ?d) (Origin ?l) = 0"
    by (simp add: demo_driver_def demo_load_def DistanceMiles_self demo_loc_def)
  have win: "epoch_time (PickupEarliestEpoch ?l) = zero_time" "epoch_time (PickupLatestEpoch ?l) = zero_time"
    "epoch_time (DeliveryEarliestEpoch ?l) = zero_time" "epoch_time (DeliveryLatestEpoch ?l) = zero_time"
    by (simp_all add: demo_load_def epoch_time_def)
  have can: "CanHandle (DrvEquipment ?d) (RequiredEquipment ?l) (RequiredEndorsements ?l)"
    by (simp add: demo_driver_def demo_load_def CanHandle_def equip_defs)
  have lim: "\<not> (MaxDeadheadMiles ?c > 0 \<and> 0 > MaxDeadheadMiles ?c)"
    by (simp add: DefaultFeasibilityConfig_def zero_fl_def)
  obtain t where t: "EvaluateTripFeasibility (Some (pick_clocks ?d USPolicySpecs)) 0
    (DistanceMiles L (Origin ?l) (Destination ?l)) 60 60 (AverageSpeedMPH ?c) zero_time zero_time zero_time zero_time
    USPolicySpecs = Some (Inr t)"
    using trip_returns [OF US_specs_valid demo_driver_specs(2)] by blast
  then have "IsFeasible t"
  proof (cases rule: EvaluateTrip_legs)
    case (1 r1 p2 r3 r4 p5 r6 r0 m1 m2)
    then show ?thesis using check_windows_feasible [OF 1(8)] by (simp add: IsZero_def)
  qed
  with t can lim show ?thesis by (simp add: evaluatePair_def Let_def dist win)
qed

lemma FilterCandidates_sound_witness:
  "\<exists>s arcs a. FilterCandidates demo_libm DefaultFeasibilityConfig 0 4 [demo_driver ''D1'' (demo_loc ''A'' 41 (- 88))]
      [demo_load ''L1'' (demo_loc ''A'' 41 (- 88)) demo_B] (Some s) (Inr arcs) \<and> a \<in> set arcs \<and> ArcDriverID a = ''D1''"
proof -
  let ?c = DefaultFeasibilityConfig
  let ?d = "demo_driver ''D1'' (demo_loc ''A'' 41 (- 88))" and ?l = "demo_load ''L1'' (demo_loc ''A'' 41 (- 88)) demo_B"
  obtain arc where "evaluatePair demo_libm ?c ?d ?l = Some (Inr (Some arc))" using demo_pair by blast
  then have e: "eval_driver demo_libm ?c [?l] ?d = Some (Inr [arc])" by simp
  have st: "(pool_step demo_libm ?c [?l])\<^sup>*\<^sup>* (init_pool 1 [?d])
    \<lparr>jobs = [], pool_workers = [Exited], results = [Inr [arc]], cancelled = False\<rparr>"
    using step_job [of 0 "init_pool 1 [?d]" "[]" ?d "[]" demo_libm ?c "[?l]" "[arc]"] e
      step_send [of 0 "\<lparr>jobs = [], pool_workers = [Busy [arc]], results = [], cancelled = False\<rparr>" "[arc]" demo_libm ?c "[?l]"]
    by (intro rtranclp.rtrancl_into_rtrancl [OF r_into_rtranclp])
      (auto simp: init_pool_def simp del: eval_driver.simps)
  let ?s = "\<lparr>jobs = [], pool_workers = [Exited], results = [Inr [arc]], cancelled = False\<rparr>"
  have "FilterCandidates demo_libm ?c 0 4 [?d] [?l] (Some ?s) (Inr [arc])"
    using st by (simp add: FilterCandidates_def worker_count_def all_exited_def pool_result_def sort_slice_def)
  moreover from FilterCandidates_sound [OF this, of arc] have "ArcDriverID arc = ''D1''" by (simp add: demo_driver_def)
  ultimately show ?thesis by (meson list.set_intros(1))
qed

end
