(* ===== verification/Rng.thy ===== *)
theory Rng
  imports Float64
begin

text \<open>
  \<open>pkg/math/rng.go\<close>: the SplitMix64 generator on 64-bit words. A method that advances the receiver
  returns its result with the new state. \<open>uint64(n)\<close> of an \<open>int\<close> is \<open>word_of_int\<close>, \<open>int(w)\<close> of a word
  is \<open>sint\<close>, shifts are \<open>drop_bit\<close>.
\<close>

unbundle bit_operations_syntax

section \<open>The generator\<close>

type_synonym u64 = "64 word"

record RNG =
  rng_state :: u64

definition NewRNG :: "u64 \<Rightarrow> RNG" where
  "NewRNG seed = \<lparr>rng_state = seed\<rparr>"

definition golden :: u64 where
  "golden = 0x9e3779b97f4a7c15"

definition mix64 :: "u64 \<Rightarrow> u64" where
  "mix64 z =
     (let z = (z XOR drop_bit 30 z) * 0xbf58476d1ce4e5b9;
          z = (z XOR drop_bit 27 z) * 0x94d049bb133111eb
      in z XOR drop_bit 31 z)"

definition NextUint64 :: "RNG \<Rightarrow> u64 \<times> RNG" where
  "NextUint64 r = (let s = rng_state r + golden in (mix64 s, r\<lparr>rng_state := s\<rparr>))"

definition RNG_Float64 :: "RNG \<Rightarrow> f64 \<times> RNG" where
  "RNG_Float64 r = (case NextUint64 r of (x, r') \<Rightarrow> (of_int_fl (uint (drop_bit 11 x)) / Fin (2 ^ 53), r'))"

definition Intn :: "RNG \<Rightarrow> int \<Rightarrow> (int \<times> RNG) result" where
  "Intn r n =
     (if n \<le> 0 then Inl (Panic ''RNG.Intn called with non-positive bound'')
      else case NextUint64 r of (x, r') \<Rightarrow>
        Inr (sint (drop_bit 32 (drop_bit 32 x * word_of_int n)), r'))"

definition Bernoulli :: "RNG \<Rightarrow> f64 \<Rightarrow> (bool \<times> RNG) result" where
  "Bernoulli r p =
     (if p < 0 \<or> p > 1 \<or> is_nan p then Inl (Panic ''RNG.Bernoulli called with invalid probability'')
      else if feq p 0 then Inr (False, r)
      else if feq p 1 then Inr (True, r)
      else case RNG_Float64 r of (x, r') \<Rightarrow> Inr (x < p, r'))"

definition Rademacher :: "RNG \<Rightarrow> f64 \<times> RNG" where
  "Rademacher r = (case NextUint64 r of (x, r') \<Rightarrow> (if x AND 1 = 1 then 1 else - 1, r'))"

text \<open>The Fisher-Yates loop, \<open>i\<close> counting down from \<open>n - 1\<close> to 1.\<close>

fun shuffle :: "nat \<Rightarrow> RNG \<Rightarrow> int list \<Rightarrow> (int list \<times> RNG) result" where
  "shuffle 0 r xs = Inr (xs, r)"
| "shuffle (Suc i) r xs =
     (case Intn r (int (Suc i) + 1) of
        Inl e \<Rightarrow> Inl e
      | Inr (j, r') \<Rightarrow>
          shuffle i r' (xs[Suc i := xs ! nat j, nat j := xs ! Suc i]))"

definition Perm :: "RNG \<Rightarrow> int \<Rightarrow> (int list \<times> RNG) result" where
  "Perm r n =
     (if n < 0 then Inl (Panic ''RNG.Perm called with negative length'')
      else shuffle (nat (n - 1)) r (map int [0..<nat n]))"

definition Split :: "RNG \<Rightarrow> u64 \<Rightarrow> u64 \<Rightarrow> u64 \<Rightarrow> RNG \<times> RNG" where
  "Split r ep branchID goroutineID =
     (case NextUint64 r of (x, r') \<Rightarrow>
        let mix = x XOR (ep * 0x517cc1b727220a95) XOR (branchID * 0x6c62272e07bb0142) XOR
                    (goroutineID * 0x9e3779b97f4a7c15)
        in (NewRNG (mix64 mix), r'))"

section \<open>The output function is a bijection\<close>

text \<open>The inverse of the finalizer: undo each xor-shift and multiply by the inverse constants.\<close>

definition unmix64 :: "u64 \<Rightarrow> u64" where
  "unmix64 y =
     (let z = (y XOR drop_bit 31 y XOR drop_bit 62 y) * 0x319642b2d24d8ec3;
          z = (z XOR drop_bit 27 z XOR drop_bit 54 z) * 0x96de1b173f119089
      in z XOR drop_bit 30 z XOR drop_bit 60 z)"

lemma drop_bit_out [simp]: "64 \<le> n \<Longrightarrow> drop_bit n (w :: u64) = 0"
  by (rule bit_eqI) (auto simp: bit_drop_bit_eq dest: bit_imp_le_length)

lemma unshift:
  fixes z :: u64
  assumes "64 \<le> 3 * k"
  shows "(z XOR drop_bit k z) XOR drop_bit k (z XOR drop_bit k z) XOR drop_bit (2 * k) (z XOR drop_bit k z) = z"
proof (rule bit_word_eqI)
  fix n
  have "\<not> bit z (k + (k + k + n))"
    using assms bit_imp_le_length [of z "k + (k + k + n)"] by auto
  then show "bit ((z XOR drop_bit k z) XOR drop_bit k (z XOR drop_bit k z) XOR drop_bit (2 * k) (z XOR drop_bit k z)) n
    = bit z n"
    by (simp add: bit_simps mult_2 add.assoc) blast
qed

lemma unmix_mix: "unmix64 (mix64 z) = z"
proof -
  have c1: "(0x94d049bb133111eb :: u64) * 0x319642b2d24d8ec3 = 1" by simp
  have c2: "(0xbf58476d1ce4e5b9 :: u64) * 0x96de1b173f119089 = 1" by simp
  have s31: "(z XOR drop_bit 31 z) XOR drop_bit 31 (z XOR drop_bit 31 z) XOR drop_bit 62 (z XOR drop_bit 31 z) = z"
    for z :: u64 using unshift [of 31 z] by simp
  have s27: "(z XOR drop_bit 27 z) XOR drop_bit 27 (z XOR drop_bit 27 z) XOR drop_bit 54 (z XOR drop_bit 27 z) = z"
    for z :: u64 using unshift [of 27 z] by simp
  have s30: "(z XOR drop_bit 30 z) XOR drop_bit 30 (z XOR drop_bit 30 z) XOR drop_bit 60 (z XOR drop_bit 30 z) = z"
    for z :: u64 using unshift [of 30 z] by simp
  show ?thesis
    unfolding mix64_def unmix64_def Let_def
    by (simp only: s31 s27 s30 mult.assoc c1 c2 mult_1_right)
qed

lemma mix_inj: "mix64 x = mix64 y \<longleftrightarrow> x = y"
  by (metis unmix_mix)

fun rng_outputs :: "nat \<Rightarrow> RNG \<Rightarrow> u64 list" where
  "rng_outputs 0 r = []"
| "rng_outputs (Suc k) r = (case NextUint64 r of (x, r') \<Rightarrow> x # rng_outputs k r')"

lemma rng_outputs_eq: "rng_outputs k r = map (\<lambda>i. mix64 (rng_state r + of_nat (Suc i) * golden)) [0..<k]"
proof (induction k arbitrary: r)
  case (Suc k)
  have "rng_outputs (Suc k) r = mix64 (rng_state r + golden) #
    map (\<lambda>i. mix64 (rng_state r + golden + of_nat (Suc i) * golden)) [0..<k]"
    by (simp add: NextUint64_def Let_def Suc.IH)
  also have "\<dots> = map (\<lambda>i. mix64 (rng_state r + of_nat (Suc i) * golden)) [0..<Suc k]"
    by (simp add: upt_conv_Cons map_Suc_upt [symmetric] algebra_simps del: upt_Suc)
  finally show ?case .
qed simp

lemma golden_inverse: "golden * 0xf1de83e19937733d = 1"
  by (simp add: golden_def)

text \<open>
  Property C22. The generator has full period: any \<open>2 ^ 64\<close> consecutive outputs are pairwise distinct,
  whatever the seed, so every 64-bit value occurs exactly once per period.
\<close>

theorem NextUint64_full_period:
  "distinct (rng_outputs (2 ^ 64) r)"
proof -
  have "i = j" if "i < 2 ^ 64" "j < 2 ^ 64" "of_nat (Suc i) * golden = of_nat (Suc j) * golden" for i j
  proof -
    have "of_nat (Suc i) * (golden * 0xf1de83e19937733d) = of_nat (Suc j) * (golden * 0xf1de83e19937733d)"
      using that(3) by (simp only: mult.assoc [symmetric])
    then have "(of_nat i :: u64) = of_nat j" by (simp add: golden_inverse)
    with that(1,2) show "i = j" by (simp add: word_of_nat_eq_iff take_bit_nat_eq_self)
  qed
  then show ?thesis unfolding rng_outputs_eq
    by (auto simp: distinct_map inj_on_def mix_inj simp del: of_nat_Suc)
qed

section \<open>Ranges\<close>

lemma uint_shr: "uint (drop_bit n (w :: u64)) = uint w div 2 ^ n"
  by (simp only: unsigned_drop_bit_eq take_bit_int_eq_self [OF unsigned_greater_eq unsigned_less])
    (simp add: drop_bit_eq_div [of n "uint w"] take_bit_int_eq_self)

lemma int_div_less: "0 < q \<Longrightarrow> m < n * q \<Longrightarrow> m div q < (n :: int)"
proof -
  assume q: "0 < q" and m: "m < n * q"
  have "m div q * q \<le> m" using pos_mod_sign [OF q, of m] div_mult_mod_eq [of m q] by linarith
  with m have "m div q * q < n * q" by linarith
  with q show ?thesis by simp
qed

lemma sint_small: "uint (w :: u64) < 2 ^ 63 \<Longrightarrow> sint w = uint w"
  by (simp add: sint_uint signed_take_bit_int_eq_self_iff order_trans [OF _ unsigned_greater_eq])

lemma shr_bound: "uint (drop_bit n (w :: u64)) < 2 ^ (64 - n)" if "n \<le> 64"
proof -
  have "uint w < 2 ^ (64 - n) * 2 ^ n" using uint_bounded [of w] that by (simp flip: power_add)
  then show ?thesis unfolding uint_shr by (intro int_div_less) simp_all
qed

lemma Intn_value:
  assumes "0 < n" and "n < 2 ^ 63"
  shows "0 \<le> sint (drop_bit 32 (drop_bit 32 x * word_of_int n :: u64)) \<and>
    sint (drop_bit 32 (drop_bit 32 x * word_of_int n :: u64)) < n"
proof -
  let ?a = "uint (drop_bit 32 x)" and ?w = "drop_bit 32 x * word_of_int n :: u64"
  have a: "0 \<le> ?a" "?a < 2 ^ 32"
    using shr_bound [of 32 x] by auto
  have w: "uint (drop_bit 32 ?w) = uint ?w div 2 ^ 32" by (rule uint_shr)
  have r: "uint (drop_bit 32 ?w) < 2 ^ 32" using shr_bound [of 32 ?w] by simp
  then have s: "sint (drop_bit 32 ?w) = uint (drop_bit 32 ?w)" by (intro sint_small) simp
  have "uint (drop_bit 32 ?w) < n"
  proof (cases "n \<le> 2 ^ 32")
    case True
    have "?a * n < 2 ^ 32 * n" using a(2) assms(1) by simp
    also have "\<dots> \<le> 2 ^ 64" using True by simp
    finally have "uint ?w = ?a * n"
      using a assms by (simp add: uint_word_ariths uint_word_of_int)
    with \<open>?a * n < 2 ^ 32 * n\<close> show ?thesis unfolding w by (intro int_div_less) (simp_all add: mult.commute)
  qed (use r in simp)
  with s show ?thesis by simp
qed

lemma Intn_ok:
  assumes "0 < n" and "n < 2 ^ 63"
  obtains j r' where "Intn r n = Inr (j, r')" and "0 \<le> j" and "j < n"
proof -
  obtain x r' where x: "NextUint64 r = (x, r')" by fastforce
  with Intn_value [OF assms, of x] assms(1) that show thesis by (auto simp: Intn_def)
qed

text \<open>
  \<open>Intn\<close> returns a number below its bound for every positive bound of type \<open>int\<close>: the
  128-bit product it avoids never matters to the range.
\<close>

theorem Intn_range:
  assumes "0 < n" and "n < 2 ^ 63"
  shows "\<exists>j r'. Intn r n = Inr (j, r') \<and> 0 \<le> j \<and> j < n"
  using Intn_ok [OF assms, of r] by metis

lemma Intn_range_witness:
  "\<exists>j r'. Intn (NewRNG 42) 6 = Inr (j, r') \<and> 0 \<le> j \<and> j < 6"
  using Intn_range [of 6 "NewRNG 42"] by simp

lemma shuffle_mset:
  assumes "i < length xs" and "int (length xs) < 2 ^ 63"
  shows "\<exists>ys r'. shuffle i r xs = Inr (ys, r') \<and> mset ys = mset xs"
  using assms
proof (induction i arbitrary: r xs)
  case (Suc i)
  have b: "0 < int (Suc i) + 1" "int (Suc i) + 1 < 2 ^ 63" using Suc.prems by linarith+
  obtain j r' where j: "Intn r (int (Suc i) + 1) = Inr (j, r')" "0 \<le> j" "j < int (Suc i) + 1"
    using Intn_ok [OF b] .
  let ?xs = "xs[Suc i := xs ! nat j, nat j := xs ! Suc i]"
  have "nat j < length xs" using j Suc.prems(1) by linarith
  then have m: "mset ?xs = mset xs" using mset_swap [of "nat j" xs "Suc i"] Suc.prems(1) by simp
  have "i < length ?xs" "int (length ?xs) < 2 ^ 63" using Suc.prems by simp_all
  from Suc.IH [OF this, of r'] m j(1) show ?case by simp
qed simp

text \<open>
  \<open>Perm n\<close> is a permutation of \<open>0, ..., n - 1\<close>, for every length and every state of the
  generator.
\<close>

theorem Perm_permutation:
  assumes "0 \<le> n" and "n < 2 ^ 63"
  shows "\<exists>xs r'. Perm r n = Inr (xs, r') \<and> mset xs = mset (map int [0..<nat n])"
proof (cases "n = 0")
  case False
  with assms shuffle_mset [of "nat (n - 1)" "map int [0..<nat n]" r] show ?thesis by (simp add: Perm_def)
qed (simp add: Perm_def)

lemma Perm_permutation_witness:
  "\<exists>xs r'. Perm (NewRNG 7) 5 = Inr (xs, r') \<and> mset xs = mset (map int [0..<5])"
  using Perm_permutation [of 5 "NewRNG 7"] by simp

lemma rnd_53_fraction: "0 \<le> k \<Longrightarrow> k < 2 ^ 53 \<Longrightarrow> (rnd (of_int k / 2 ^ 53) :: f64) = Fin (of_int k / 2 ^ 53)"
proof -
  assume k: "0 \<le> k" "k < 2 ^ 53"
  have e: "of_int k / 2 ^ 53 = of_int k * pow2 (- 53)" by (simp add: pow2_def)
  have p: "pow2 (int 53) = of_int (2 ^ 53)" by (simp add: pow2_def)
  have "\<bar>of_int k\<bar> < pow2 (int 53)" unfolding p using k by (simp only: of_int_abs [symmetric] of_int_less_iff abs_of_nonneg)
  then have r: "round_sig 53 (of_int k / 2 ^ 53) = of_int k / 2 ^ 53"
    unfolding e by (rule round_sig_representable) simp
  have "of_int k / 2 ^ 53 < (1 :: rat)" using k(2) by (simp add: of_int_less_iff [of k "2 ^ 53", where 'a = rat, symmetric] del: of_int_less_iff)
  moreover have "1 \<le> pow2 1024" using pow2_mono [of 0 1024] by (simp add: pow2_def)
  moreover have "0 \<le> of_int k / (2 ^ 53 :: rat)" using k(1) by simp
  ultimately have "\<not> pow2 1024 \<le> of_int k / 2 ^ 53" "\<not> of_int k / 2 ^ 53 \<le> - pow2 1024" by linarith+
  with r show ?thesis by (simp add: rnd_def Let_def)
qed

text \<open>
  \<open>Float64\<close> is exact and lies in the half-open unit interval: it is the top 53 bits of the
  next output, divided by \<open>2 ^ 53\<close> without rounding.
\<close>

theorem RNG_Float64_range:
  "\<exists>k. 0 \<le> k \<and> k < 2 ^ 53 \<and> k = uint (drop_bit 11 (fst (NextUint64 r))) \<and>
    fst (RNG_Float64 r) = Fin (of_int k / 2 ^ 53)"
proof -
  let ?k = "uint (drop_bit 11 (fst (NextUint64 r)))"
  have k: "0 \<le> ?k" "?k < 2 ^ 53" using shr_bound [of 11 "fst (NextUint64 r)"] by simp_all
  then have "(of_int_fl ?k :: f64) = Fin (of_int ?k)" by (intro of_int_f64) simp
  moreover obtain x r' where "NextUint64 r = (x, r')" by fastforce
  ultimately have "fst (RNG_Float64 r) = Fin (of_int ?k / 2 ^ 53)"
    using rnd_53_fraction [OF k] by (simp add: RNG_Float64_def)
  with k show ?thesis by blast
qed

lemma xor_cancel_mid: "x XOR e XOR b XOR g = x XOR e XOR b' XOR g \<longleftrightarrow> b = (b' :: u64)"
  by (auto simp: bit_eq_iff bit_simps)

text \<open>
  Lookahead branches do not share a stream: children split from the same generator state
  in the same epoch and goroutine have different seeds for different branch numbers below \<open>2 ^ 63\<close>.
  (The branch multiplier is even, so the bound is sharp: \<open>b\<close> and \<open>b + 2 ^ 63\<close> collide.)
\<close>

theorem Split_branches_distinct:
  assumes "uint b < 2 ^ 63" and "uint b' < 2 ^ 63" and "b \<noteq> b'"
  shows "fst (Split r ep b g) \<noteq> fst (Split r ep b' g)"
proof
  assume eq: "fst (Split r ep b g) = fst (Split r ep b' g)"
  obtain x r' where x: "NextUint64 r = (x, r')" by fastforce
  have "b * 0x6c62272e07bb0142 = b' * 0x6c62272e07bb0142"
    using eq unfolding Split_def x prod.case Let_def fst_conv NewRNG_def RNG.ext_inject mix_inj xor_cancel_mid
    by (rule conjunct1)
  then have "b * (0x6c62272e07bb0142 * 0xebce78ed7bd46361) = b' * (0x6c62272e07bb0142 * 0xebce78ed7bd46361)"
    by (simp only: mult.assoc [symmetric])
  moreover have "(0x6c62272e07bb0142 :: u64) * 0xebce78ed7bd46361 = 2" by simp
  ultimately have "b * 2 = b' * 2" by (simp only:)
  moreover have "uint (w * 2) = uint w * 2" if "uint w < 2 ^ 63" for w :: u64
    using that by (simp add: uint_word_ariths)
  ultimately have "uint b * 2 = uint b' * 2" using assms(1,2) by metis
  then have "uint b = uint b'" by simp
  then have "b = b'" by (simp add: unsigned_word_eqI)
  with assms(3) show False by simp
qed

lemma Split_branches_distinct_witness:
  "fst (Split (NewRNG 42) 3 0 1) \<noteq> fst (Split (NewRNG 42) 3 1 1)"
  by (rule Split_branches_distinct) simp_all

end
