(* ===== verification/Lap.thy ===== *)
theory Lap
  imports Float64
begin

text \<open>
  \<open>pkg/math/lap.go\<close>: the rectangular assignment solver (successive shortest paths with dual
  potentials). The arrays of the function are the record \<open>lap_state\<close>, 1-indexed as in the code, with
  the column 0 holding the row being inserted. The two unbounded \<open>for\<close> loops are
  \<open>partial_function\<close>s: with rounding or overflow the search need not end, in exact arithmetic
  (\<open>0 fl\<close>) it does, as proved in \<open>Lap_Correct\<close>.
\<close>

section \<open>The solver\<close>

record 'p LAPAssignment =
  RowToCol :: "int list"
  ColToRow :: "int list"
  TotalWeight :: "'p fl"
  MatchCount :: nat
  RowDuals :: "'p fl list"
  ColDuals :: "'p fl list"

record 'p lap_state =
  lu :: "'p fl list"
  lv :: "'p fl list"
  lp :: "nat list"
  lway :: "nat list"
  lminv :: "'p fl list"
  lused :: "bool list"

text \<open>One column of the scan for the closest unused column; the accumulator adds \<open>delta\<close> and \<open>j1\<close>.\<close>

definition scan_col ::
  "'p::len0 fl list list \<Rightarrow> nat \<Rightarrow> nat \<Rightarrow> nat \<Rightarrow> 'p lap_state \<times> 'p fl \<times> nat \<Rightarrow> 'p lap_state \<times> 'p fl \<times> nat" where
  "scan_col cost i0 j0 j acc =
     (case acc of (s, delta, j1) \<Rightarrow>
       if lused s ! j then acc
       else let
         cur = cost ! i0 ! j - lu s ! i0 - lv s ! j;
         s = (if cur < lminv s ! j then s\<lparr>lminv := (lminv s)[j := cur], lway := (lway s)[j := j0]\<rparr> else s)
       in if lminv s ! j < delta then (s, lminv s ! j, j) else (s, delta, j1))"

text \<open>One column of the potential update.\<close>

definition shift_col :: "'p::len0 fl \<Rightarrow> nat \<Rightarrow> 'p lap_state \<Rightarrow> 'p lap_state" where
  "shift_col delta j s =
     (if lused s ! j
      then s\<lparr>lu := (lu s)[lp s ! j := lu s ! (lp s ! j) + delta], lv := (lv s)[j := lv s ! j - delta]\<rparr>
      else s\<lparr>lminv := (lminv s)[j := lminv s ! j - delta]\<rparr>)"

text \<open>The body of the search loop: mark \<open>j0\<close>, scan, update; the result is \<open>j1\<close> and the state.\<close>

definition search_step :: "'p::len0 fl list list \<Rightarrow> nat \<Rightarrow> nat \<Rightarrow> 'p lap_state \<Rightarrow> nat \<times> 'p lap_state" where
  "search_step cost m j0 s =
     (let s = s\<lparr>lused := (lused s)[j0 := True]\<rparr>;
          i0 = lp s ! j0 in
      case fold (scan_col cost i0 j0) [1..<m+1] (s, PInf, 0) of
        (s, delta, j1) \<Rightarrow> (j1, fold (shift_col delta) [0..<m+1] s))"

partial_function (option) lap_search ::
  "'p::len0 fl list list \<Rightarrow> nat \<Rightarrow> nat \<Rightarrow> 'p lap_state \<Rightarrow> (nat \<times> 'p lap_state) option" where
  "lap_search cost m j0 s =
     (case search_step cost m j0 s of
        (j1, s') \<Rightarrow> if lp s' ! j1 = 0 then Some (j1, s') else lap_search cost m j1 s')"

partial_function (option) lap_augment :: "nat list \<Rightarrow> nat \<Rightarrow> nat list \<Rightarrow> nat list option" where
  "lap_augment way j0 p =
     (let j1 = way ! j0; p = p[j0 := p ! j1] in if j1 = 0 then Some p else lap_augment way j1 p)"

declare lap_search.simps [code] lap_augment.simps [code]

text \<open>The insertion of row \<open>i\<close>.\<close>

definition lap_row :: "'p::len0 fl list list \<Rightarrow> nat \<Rightarrow> nat \<Rightarrow> 'p lap_state \<Rightarrow> 'p lap_state option" where
  "lap_row cost m i s =
     (let s = s\<lparr>lp := (lp s)[0 := i], lminv := replicate (m + 1) PInf, lused := replicate (m + 1) False\<rparr> in
      case lap_search cost m 0 s of
        None \<Rightarrow> None
      | Some (j0, s) \<Rightarrow>
          (case lap_augment (lway s) j0 (lp s) of None \<Rightarrow> None | Some p \<Rightarrow> Some (s\<lparr>lp := p\<rparr>)))"

fun lap_rows :: "'p::len0 fl list list \<Rightarrow> nat \<Rightarrow> nat list \<Rightarrow> 'p lap_state \<Rightarrow> 'p lap_state option" where
  "lap_rows cost m [] s = Some s"
| "lap_rows cost m (i # is) s =
     (case lap_row cost m i s of None \<Rightarrow> None | Some s' \<Rightarrow> lap_rows cost m is s')"

definition lap_init :: "nat \<Rightarrow> nat \<Rightarrow> 'p::len0 lap_state" where
  "lap_init n m = \<lparr>lu = replicate (n + 1) 0, lv = replicate (m + 1) 0, lp = replicate (m + 1) 0,
     lway = replicate (m + 1) 0, lminv = replicate (m + 1) 0, lused = replicate (m + 1) False\<rparr>"

definition lap_valid :: "'p::len0 fl list list \<Rightarrow> unit result" where
  "lap_valid matrix =
     (if length matrix = 0 then Inl ErrLAPEmptyMatrix
      else if length (matrix ! 0) = 0 then Inl ErrLAPEmptyMatrix
      else foldr (\<lambda>row rest.
          if length row \<noteq> length (matrix ! 0) then Inl ErrDimensionMismatch
          else if \<exists>x\<in>set row. is_nan x \<or> is_inf x then Inl ErrLAPNonFinite
          else rest) matrix (Inr ()))"

text \<open>The 1-indexed cost matrix for minimization, transposed when there are more rows than columns.\<close>

definition lap_cost :: "'p::len0 fl list list \<Rightarrow> bool \<Rightarrow> bool \<Rightarrow> nat \<Rightarrow> nat \<Rightarrow> 'p fl list list" where
  "lap_cost matrix maximize transposed n m =
     map (\<lambda>i. map (\<lambda>j.
         if i = 0 \<or> j = 0 then 0
         else let raw = (if transposed then matrix ! (j - 1) ! (i - 1) else matrix ! (i - 1) ! (j - 1))
              in if maximize then - raw else raw) [0..<m+1]) [0..<n+1]"

text \<open>The solution back in 0-indexed form, \<open>-1\<close> for unassigned.\<close>

definition extract_col :: "bool \<Rightarrow> nat \<Rightarrow> nat list \<Rightarrow> nat \<Rightarrow> int list \<times> int list \<Rightarrow> int list \<times> int list" where
  "extract_col transposed n p j acc =
     (case acc of (rowToCol, colToRow) \<Rightarrow>
       if p ! j > 0 \<and> p ! j \<le> n then
         (if \<not> transposed then (rowToCol[p ! j - 1 := int (j - 1)], colToRow[j - 1 := int (p ! j - 1)])
          else (rowToCol[j - 1 := int (p ! j - 1)], colToRow[p ! j - 1 := int (j - 1)]))
       else acc)"

text \<open>The pruning loop with the accumulators \<open>totalWeight\<close> and \<open>matchCount\<close>.\<close>

definition prune_row ::
  "'p::len0 fl list list \<Rightarrow> bool \<Rightarrow> bool \<Rightarrow> nat \<Rightarrow> int list \<times> int list \<times> 'p fl \<times> nat \<Rightarrow> int list \<times> int list \<times> 'p fl \<times> nat" where
  "prune_row matrix maximize allowNegative r acc =
     (case acc of (rowToCol, colToRow, totalWeight, matchCount) \<Rightarrow>
       let c = rowToCol ! r in
       if c = - 1 then acc
       else let weight = matrix ! r ! nat c in
         if \<not> allowNegative \<and> maximize \<and> weight < 0
         then (rowToCol[r := - 1], colToRow[nat c := - 1], totalWeight, matchCount)
         else (rowToCol, colToRow, totalWeight + weight, matchCount + 1))"

definition SolveLAP :: "'p::len0 fl list list \<Rightarrow> bool \<Rightarrow> bool \<Rightarrow> 'p LAPAssignment result option" where
  "SolveLAP matrix maximize allowNegative =
     (case lap_valid matrix of
        Inl e \<Rightarrow> Some (Inl e)
      | Inr _ \<Rightarrow>
          (let rows = length matrix;
               cols = length (matrix ! 0);
               transposed = (rows > cols);
               n = (if transposed then cols else rows);
               m = (if transposed then rows else cols);
               cost = lap_cost matrix maximize transposed n m in
           case lap_rows cost m [1..<n+1] (lap_init n m) of
             None \<Rightarrow> None
           | Some s \<Rightarrow>
               (case fold (extract_col transposed n (lp s)) [1..<m+1]
                       (replicate rows (- 1), replicate cols (- 1)) of (rowToCol, colToRow) \<Rightarrow>
                case fold (prune_row matrix maximize allowNegative) [0..<rows] (rowToCol, colToRow, 0, 0) of
                  (rowToCol, colToRow, totalWeight, matchCount) \<Rightarrow>
                let sgn = (\<lambda>x. if maximize then - x else x);
                    us = map sgn (tl (lu s));
                    vs = map sgn (tl (lv s)) in
                Some (Inr \<lparr>RowToCol = rowToCol, ColToRow = colToRow, TotalWeight = totalWeight,
                   MatchCount = matchCount,
                   RowDuals = (if \<not> transposed then us else vs),
                   ColDuals = (if \<not> transposed then vs else us)\<rparr>))))"

end
