(* ===== verification/Lap_Correct.thy ===== *)
theory Lap_Correct
  imports Lap
begin

text \<open>
  Correctness of the assignment solver in exact arithmetic. The loops are characterised entry by entry
  (\<open>scan_fold\<close>, \<open>shift_fold\<close>); \<open>search_inv\<close> is the invariant of the shortest-path search (a tree of
  tight edges over the used columns, in the order \<open>ord\<close> of their insertion), \<open>lap_inv\<close> the invariant
  of the row loop (a tight matching of the rows inserted so far with feasible potentials), and the
  potentials certify optimality by linear programming duality.
\<close>

section \<open>The loops, entry by entry\<close>

definition lap_shape :: "nat \<Rightarrow> nat \<Rightarrow> 'p lap_state \<Rightarrow> bool" where
  "lap_shape n m s \<longleftrightarrow> length (lu s) = n + 1 \<and> length (lv s) = m + 1 \<and> length (lp s) = m + 1 \<and>
     length (lway s) = m + 1 \<and> length (lminv s) = m + 1 \<and> length (lused s) = m + 1"

definition red :: "'p::len0 fl list list \<Rightarrow> 'p lap_state \<Rightarrow> nat \<Rightarrow> nat \<Rightarrow> 'p fl" where
  "red cost s i j = cost ! i ! j - lu s ! i - lv s ! j"

lemma scan_col_simps:
  "scan_col cost i0 j0 j (s, delta, j1) =
     (if lused s ! j then (s, delta, j1)
      else let s' = (if red cost s i0 j < lminv s ! j
                     then s\<lparr>lminv := (lminv s)[j := red cost s i0 j], lway := (lway s)[j := j0]\<rparr> else s)
      in if lminv s' ! j < delta then (s', lminv s' ! j, j) else (s', delta, j1))"
  by (simp add: scan_col_def red_def Let_def)

lemma scan_fold:
  assumes "fold (scan_col cost i0 j0) js (s, PInf, 0) = (s', delta, j1)" and "distinct js"
    and "lap_shape n m s" and "\<forall>j\<in>set js. j \<le> m"
  shows "lap_shape n m s' \<and> lu s' = lu s \<and> lv s' = lv s \<and> lp s' = lp s \<and> lused s' = lused s \<and>
    (\<forall>j\<le>m. lminv s' ! j = (if j \<in> set js \<and> \<not> lused s ! j \<and> red cost s i0 j < lminv s ! j
       then red cost s i0 j else lminv s ! j)) \<and>
    (\<forall>j\<le>m. lway s' ! j = (if j \<in> set js \<and> \<not> lused s ! j \<and> red cost s i0 j < lminv s ! j
       then j0 else lway s ! j)) \<and>
    (\<forall>j\<in>set js. \<not> lused s ! j \<longrightarrow> \<not> lminv s' ! j < delta) \<and>
    (delta = PInf \<and> j1 = 0 \<or> j1 \<in> set js \<and> \<not> lused s ! j1 \<and> delta = lminv s' ! j1 \<and> delta < PInf)"
  using assms(1,2,4)
proof (induction js arbitrary: s' delta j1 rule: rev_induct)
  case Nil
  with assms(3) show ?case by auto
next
  case (snoc x js)
  obtain t d k where t: "fold (scan_col cost i0 j0) js (s, PInf, 0) = (t, d, k)" by (metis prod_cases3)
  note IH = snoc.IH [OF t]
  have x: "x \<notin> set js" "x \<le> m" using snoc.prems by auto
  have IH: "lap_shape n m t" "lu t = lu s" "lv t = lv s" "lp t = lp s" "lused t = lused s"
    "\<forall>j\<le>m. lminv t ! j = (if j \<in> set js \<and> \<not> lused s ! j \<and> red cost s i0 j < lminv s ! j
       then red cost s i0 j else lminv s ! j)"
    "\<forall>j\<le>m. lway t ! j = (if j \<in> set js \<and> \<not> lused s ! j \<and> red cost s i0 j < lminv s ! j
       then j0 else lway s ! j)"
    "\<forall>j\<in>set js. \<not> lused s ! j \<longrightarrow> \<not> lminv t ! j < d"
    "d = PInf \<and> k = 0 \<or> k \<in> set js \<and> \<not> lused s ! k \<and> d = lminv t ! k \<and> d < PInf"
    using IH snoc.prems by auto
  have eq: "scan_col cost i0 j0 x (t, d, k) = (s', delta, j1)" using snoc.prems(1) t by simp
  have red: "red cost t i0 x = red cost s i0 x" by (simp add: red_def IH)
  have min: "lminv t ! x = lminv s ! x" "lway t ! x = lway s ! x" using IH(6,7) x by auto
  show ?case
  proof (cases "lused s ! x")
    case True
    with eq have "s' = t \<and> delta = d \<and> j1 = k" by (simp add: scan_col_simps IH)
    with IH True show ?thesis by auto
  next
    case False
    let ?c = "red cost s i0 x < lminv s ! x"
    let ?t = "if ?c then t\<lparr>lminv := (lminv t)[x := red cost s i0 x], lway := (lway t)[x := j0]\<rparr> else t"
    have len: "x < length (lminv t)" "x < length (lway t)" using IH(1) x(2) by (auto simp: lap_shape_def)
    have s': "s' = ?t" and d: "delta = (if lminv ?t ! x < d then lminv ?t ! x else d)"
      and k: "j1 = (if lminv ?t ! x < d then x else k)"
      using eq False unfolding scan_col_simps IH(5) red min Let_def by (auto split: if_splits)
    have frame: "lap_shape n m s'" "lu s' = lu s" "lv s' = lv s" "lp s' = lp s" "lused s' = lused s"
      using IH(1-5) by (auto simp: s' lap_shape_def)
    have m1: "\<forall>j\<le>m. lminv s' ! j = (if j \<in> set (js @ [x]) \<and> \<not> lused s ! j \<and> red cost s i0 j < lminv s ! j
       then red cost s i0 j else lminv s ! j)"
      using IH(6) False len x by (auto simp: s' nth_list_update)
    have m2: "\<forall>j\<le>m. lway s' ! j = (if j \<in> set (js @ [x]) \<and> \<not> lused s ! j \<and> red cost s i0 j < lminv s ! j
       then j0 else lway s ! j)"
      using IH(7) False len x by (auto simp: s' nth_list_update)
    have same: "lminv s' ! j = lminv t ! j" if "j \<in> set js" for j
    proof -
      have "j \<noteq> x" using that x(1) by auto
      then show ?thesis by (simp add: s')
    qed
    have m3: "\<forall>j\<in>set (js @ [x]). \<not> lused s ! j \<longrightarrow> \<not> lminv s' ! j < delta"
      using IH(8) same d unfolding s' by (auto intro: less_fl_asym dest: less_fl_trans)
    have m4: "delta = PInf \<and> j1 = 0 \<or>
      j1 \<in> set (js @ [x]) \<and> \<not> lused s ! j1 \<and> delta = lminv s' ! j1 \<and> delta < PInf"
    proof (cases "lminv ?t ! x < d")
      case True
      then have "delta = lminv s' ! x" "j1 = x" using d k s' by auto
      moreover have "lminv ?t ! x < PInf" using True IH(9) less_fl_trans by auto
      ultimately show ?thesis using False s' by auto
    next
      case False
      then have "delta = d" "j1 = k" using d k by auto
      with IH(9) same show ?thesis by auto
    qed
    show ?thesis using frame m1 m2 m3 m4 by blast
  qed
qed

lemma shift_fold:
  assumes "distinct js" and "lap_shape n m s" and "\<forall>j\<in>set js. j \<le> m"
    and "\<forall>j\<in>set js. lused s ! j \<longrightarrow> lp s ! j \<le> n" and "inj_on ((!) (lp s)) {j \<in> set js. lused s ! j}"
  shows "lap_shape n m (fold (shift_col delta) js s) \<and> lp (fold (shift_col delta) js s) = lp s \<and>
    lway (fold (shift_col delta) js s) = lway s \<and> lused (fold (shift_col delta) js s) = lused s \<and>
    (\<forall>r\<le>n. lu (fold (shift_col delta) js s) ! r =
       (if \<exists>j\<in>set js. lused s ! j \<and> lp s ! j = r then lu s ! r + delta else lu s ! r)) \<and>
    (\<forall>j\<le>m. lv (fold (shift_col delta) js s) ! j =
       (if j \<in> set js \<and> lused s ! j then lv s ! j - delta else lv s ! j)) \<and>
    (\<forall>j\<le>m. lminv (fold (shift_col delta) js s) ! j =
       (if j \<in> set js \<and> \<not> lused s ! j then lminv s ! j - delta else lminv s ! j))"
  using assms(1,3-5)
proof (induction js rule: rev_induct)
  case Nil
  with assms(2) show ?case by simp
next
  case (snoc x js)
  let ?t = "fold (shift_col delta) js s"
  have "inj_on ((!) (lp s)) {j \<in> set js. lused s ! j}"
    by (rule inj_on_subset [OF snoc.prems(4)]) auto
  with snoc have IH: "lap_shape n m ?t" "lp ?t = lp s" "lway ?t = lway s" "lused ?t = lused s"
    "\<forall>r\<le>n. lu ?t ! r = (if \<exists>j\<in>set js. lused s ! j \<and> lp s ! j = r then lu s ! r + delta else lu s ! r)"
    "\<forall>j\<le>m. lv ?t ! j = (if j \<in> set js \<and> lused s ! j then lv s ! j - delta else lv s ! j)"
    "\<forall>j\<le>m. lminv ?t ! j = (if j \<in> set js \<and> \<not> lused s ! j then lminv s ! j - delta else lminv s ! j)"
    by auto
  have x: "x \<notin> set js" "x \<le> m" using snoc.prems by auto
  show ?case
  proof (cases "lused s ! x")
    case True
    have px: "lp s ! x \<le> n" using snoc.prems(3) True by simp
    have new: "\<not> (\<exists>j\<in>set js. lused s ! j \<and> lp s ! j = lp s ! x)"
      using inj_onD [OF snoc.prems(4), of _ x] True x(1) by auto
    have eq: "fold (shift_col delta) (js @ [x]) s =
      ?t\<lparr>lu := (lu ?t)[lp s ! x := lu ?t ! (lp s ! x) + delta], lv := (lv ?t)[x := lv ?t ! x - delta]\<rparr>"
      using True by (simp add: shift_col_def IH)
    have len: "lp s ! x < length (lu ?t)" "x < length (lv ?t)" using IH(1) px x(2) by (auto simp: lap_shape_def)
    show ?thesis unfolding eq using IH True x new len px
      by (auto simp: lap_shape_def nth_list_update)
  next
    case False
    have eq: "fold (shift_col delta) (js @ [x]) s = ?t\<lparr>lminv := (lminv ?t)[x := lminv ?t ! x - delta]\<rparr>"
      using False by (simp add: shift_col_def IH)
    have len: "x < length (lminv ?t)" using IH(1) x(2) by (auto simp: lap_shape_def)
    show ?thesis unfolding eq using IH False x len
      by (auto simp: lap_shape_def nth_list_update)
  qed
qed

section \<open>The search invariant\<close>

definition uval :: "'p lap_state \<Rightarrow> nat \<Rightarrow> rat" where "uval s i = fin_val (lu s ! i)"
definition vval :: "'p lap_state \<Rightarrow> nat \<Rightarrow> rat" where "vval s j = fin_val (lv s ! j)"

definition rc :: "(nat \<Rightarrow> nat \<Rightarrow> rat) \<Rightarrow> 'p lap_state \<Rightarrow> nat \<Rightarrow> nat \<Rightarrow> rat" where
  "rc C s i j = C i j - uval s i - vval s j"

definition fin_state :: "nat \<Rightarrow> nat \<Rightarrow> 'p lap_state \<Rightarrow> bool" where
  "fin_state n m s \<longleftrightarrow> (\<forall>r\<le>n. is_fin (lu s ! r)) \<and> (\<forall>j\<le>m. is_fin (lv s ! j))"

definition cost_is :: "'p::len0 fl list list \<Rightarrow> (nat \<Rightarrow> nat \<Rightarrow> rat) \<Rightarrow> nat \<Rightarrow> nat \<Rightarrow> bool" where
  "cost_is cost C n m \<longleftrightarrow> (\<forall>i\<in>{1..n}. \<forall>j\<in>{1..m}. cost ! i ! j = Fin (C i j))"

lemma red_rc:
  fixes cost :: "0 fl list list"
  assumes "cost_is cost C n m" and "fin_state n m s" and "i \<in> {1..n}" and "j \<in> {1..m}"
  shows "red cost s i j = Fin (rc C s i j)"
proof -
  have "is_fin (lu s ! i)" "is_fin (lv s ! j)" using assms(2-4) by (auto simp: fin_state_def)
  then obtain a b where "lu s ! i = Fin a" "lv s ! j = Fin b" by (auto simp: is_fin_iff)
  with assms(1,3,4) show ?thesis by (simp add: red_def rc_def uval_def vval_def cost_is_def)
qed

text \<open>The matching part of the state: rows \<open>1, ..., i\<close> are held by distinct columns of \<open>0, ..., m\<close>.\<close>

definition holds_rows :: "nat \<Rightarrow> nat \<Rightarrow> nat list \<Rightarrow> nat set \<Rightarrow> bool" where
  "holds_rows m i p A \<longleftrightarrow> inj_on ((!) p) {j \<in> A. p ! j \<noteq> 0} \<and> (!) p ` {j \<in> A. p ! j \<noteq> 0} = {1..i}"

definition duals_ok :: "(nat \<Rightarrow> nat \<Rightarrow> rat) \<Rightarrow> nat \<Rightarrow> nat set \<Rightarrow> 'p lap_state \<Rightarrow> bool" where
  "duals_ok C m R s \<longleftrightarrow> (\<forall>r\<in>R. \<forall>j\<in>{1..m}. 0 \<le> rc C s r j) \<and>
     (\<forall>j\<in>{1..m}. lp s ! j \<noteq> 0 \<longrightarrow> rc C s (lp s ! j) j = 0) \<and>
     (\<forall>j\<in>{1..m}. vval s j \<le> 0 \<and> (lp s ! j = 0 \<longrightarrow> vval s j = 0))"

definition tree_ok :: "(nat \<Rightarrow> nat \<Rightarrow> rat) \<Rightarrow> nat list \<Rightarrow> 'p lap_state \<Rightarrow> bool" where
  "tree_ok C ord s \<longleftrightarrow> (\<forall>k<length ord. if k = 0 then ord ! k = 0
     else lway s ! (ord ! k) \<in> set (take k ord) \<and> rc C s (lp s ! (lway s ! (ord ! k))) (ord ! k) = 0)"

definition minv_ok :: "(nat \<Rightarrow> nat \<Rightarrow> rat) \<Rightarrow> nat \<Rightarrow> nat set \<Rightarrow> 'p lap_state \<Rightarrow> bool" where
  "minv_ok C m S s \<longleftrightarrow> (\<forall>j\<in>{1..m} - S.
     if S = {} then lminv s ! j = PInf
     else lway s ! j \<in> S \<and> lminv s ! j = Fin (rc C s (lp s ! (lway s ! j)) j) \<and>
       (\<forall>y\<in>S. rc C s (lp s ! (lway s ! j)) j \<le> rc C s (lp s ! y) j))"

definition search_inv ::
  "(nat \<Rightarrow> nat \<Rightarrow> rat) \<Rightarrow> nat \<Rightarrow> nat \<Rightarrow> nat \<Rightarrow> nat list \<Rightarrow> nat \<Rightarrow> 'p lap_state \<Rightarrow> bool" where
  "search_inv C n m i ord j0 s \<longleftrightarrow>
     lap_shape n m s \<and> fin_state n m s \<and> 1 \<le> i \<and> i \<le> n \<and> n \<le> m \<and>
     (\<forall>j\<le>m. lused s ! j = (j \<in> set ord)) \<and> distinct ord \<and> set ord \<subseteq> {0..m} \<and> j0 \<le> m \<and> j0 \<notin> set ord \<and>
     (ord = [] \<longleftrightarrow> j0 = 0) \<and> lp s ! 0 = i \<and> holds_rows m i (lp s) {0..m} \<and> (\<forall>j\<in>set ord. lp s ! j \<noteq> 0) \<and>
     tree_ok C ord s \<and> (j0 \<noteq> 0 \<longrightarrow> lway s ! j0 \<in> set ord \<and> rc C s (lp s ! (lway s ! j0)) j0 = 0) \<and>
     minv_ok C m (set ord) s \<and> duals_ok C m (if ord = [] then {1..<i} else {1..i}) s"

lemma free_column:
  assumes "holds_rows m i p {0..m}" and "p ! 0 = i" and "1 \<le> i" and "i \<le> m"
  obtains j where "j \<in> {1..m}" and "p ! j = 0"
proof -
  have "\<exists>j\<in>{1..m}. p ! j = 0"
  proof (rule ccontr)
    assume "\<not> ?thesis"
    then have "{j \<in> {0..m}. p ! j \<noteq> 0} = {0..m}" using assms(2,3) by (auto simp: not_le)
    then have "card {0..m} = card {1..i}"
      using assms(1) unfolding holds_rows_def by (metis card_image)
    with assms(4) show False by simp
  qed
  with that show thesis by blast
qed

lemma scan_phase:
  fixes cost :: "0 fl list list"
  assumes cost: "cost_is cost C n m" and inv: "search_inv C n m i ord j0 s" and p0: "lp s ! j0 \<noteq> 0"
    and scan: "fold (scan_col cost (lp s ! j0) j0) [1..<m+1] (s\<lparr>lused := (lused s)[j0 := True]\<rparr>, PInf, 0)
      = (t, delta, j1)"
  shows "\<exists>d. delta = Fin d \<and> j1 \<in> {1..m} - insert j0 (set ord) \<and> lminv t ! j1 = Fin d \<and>
    (\<forall>j\<in>{1..m} - insert j0 (set ord). \<forall>x\<in>insert j0 (set ord). d \<le> rc C s (lp s ! x) j) \<and>
    minv_ok C m (insert j0 (set ord)) t \<and> lap_shape n m t \<and> lu t = lu s \<and> lv t = lv s \<and> lp t = lp s \<and>
    (\<forall>j\<le>m. lused t ! j = (j \<in> insert j0 (set ord))) \<and>
    (\<forall>j\<in>insert j0 (set ord). j \<noteq> 0 \<longrightarrow> lway t ! j = lway s ! j)"
proof -
  note I = inv [unfolded search_inv_def]
  let ?S = "insert j0 (set ord)"
  let ?s1 = "s\<lparr>lused := (lused s)[j0 := True]\<rparr>"
  let ?i0 = "lp s ! j0"
  have j0: "j0 \<le> m" "j0 \<notin> set ord" using I by auto
  have shape: "lap_shape n m s" "lap_shape n m ?s1" using I by (auto simp: lap_shape_def)
  have holds: "holds_rows m i (lp s) {0..m}" using I by blast
  have pS: "\<forall>j\<in>?S. lp s ! j \<noteq> 0" using I p0 by auto
  have pr: "lp s ! j \<in> {1..i}" if "j \<le> m" "lp s ! j \<noteq> 0" for j
    using holds that unfolding holds_rows_def by force
  have i0: "?i0 \<in> {1..n}" using pr [OF j0(1) p0] I by auto
  have used: "lused ?s1 ! j = (j \<in> ?S)" if "j \<le> m" for j
    using I that j0(1) by (auto simp: lap_shape_def nth_list_update)
  have r0: "red cost ?s1 ?i0 j = Fin (rc C s ?i0 j)" if "j \<in> {1..m}" for j
    using red_rc [OF cost _ i0 that, of s] I by (simp add: red_def)
  have "\<forall>j\<in>set [1..<m+1]. j \<le> m" by auto
  note sc = scan_fold [OF scan distinct_upt shape(2) this]
  have frame: "lap_shape n m t" "lu t = lu s" "lv t = lv s" "lp t = lp s" "lused t = lused ?s1"
    using sc by auto
  have ut: "lused t ! j = (j \<in> ?S)" if "j \<le> m" for j using used [OF that] frame(5) by simp
  have rct: "rc C t = rc C s" by (intro ext) (simp add: rc_def uval_def vval_def frame)
  have mt: "lminv t ! j = (if j \<notin> ?S \<and> Fin (rc C s ?i0 j) < lminv s ! j then Fin (rc C s ?i0 j) else lminv s ! j)"
    "lway t ! j = (if j \<notin> ?S \<and> Fin (rc C s ?i0 j) < lminv s ! j then j0 else lway s ! j)" if "j \<in> {1..m}" for j
    using sc that used [of j] r0 [OF that] by auto
  have way_used: "lway t ! j = lway s ! j" if "j \<in> ?S" "j \<noteq> 0" for j
  proof -
    have "j \<in> {1..m}" using I that by auto
    with mt(2) [of j] that show ?thesis by auto
  qed
  have A: "minv_ok C m ?S t"
    unfolding minv_ok_def
  proof (intro ballI)
    fix j assume j: "j \<in> {1..m} - ?S"
    have m0: "if set ord = {} then lminv s ! j = PInf
      else lway s ! j \<in> set ord \<and> lminv s ! j = Fin (rc C s (lp s ! (lway s ! j)) j) \<and>
       (\<forall>y\<in>set ord. rc C s (lp s ! (lway s ! j)) j \<le> rc C s (lp s ! y) j)"
      using I j unfolding minv_ok_def by blast
    show "if ?S = {} then lminv t ! j = PInf
      else lway t ! j \<in> ?S \<and> lminv t ! j = Fin (rc C t (lp t ! (lway t ! j)) j) \<and>
       (\<forall>y\<in>?S. rc C t (lp t ! (lway t ! j)) j \<le> rc C t (lp t ! y) j)"
      using m0 mt [of j] j unfolding rct frame(4) by (auto split: if_splits)
  qed
  obtain d where d: "delta = Fin d" and j1S: "j1 \<in> {1..m}" "j1 \<notin> ?S" "lminv t ! j1 = Fin d"
    and dmin: "\<And>j x. j \<in> {1..m} - ?S \<Longrightarrow> x \<in> ?S \<Longrightarrow> d \<le> rc C s (lp s ! x) j"
  proof -
    obtain f where f: "f \<in> {1..m}" "lp s ! f = 0"
      using free_column [OF holds] I by (metis order_trans)
    then have fS: "f \<notin> ?S" using pS by auto
    have sc_low: "\<forall>j\<in>set [1..<m+1]. \<not> lused ?s1 ! j \<longrightarrow> \<not> lminv t ! j < delta"
      and sc_delta: "delta = PInf \<and> j1 = 0 \<or>
        j1 \<in> set [1..<m+1] \<and> \<not> lused ?s1 ! j1 \<and> delta = lminv t ! j1 \<and> delta < PInf"
      using sc by blast+
    have lower: "\<not> lminv t ! j < delta" if "j \<in> {1..m} - ?S" for j
    proof -
      have "\<not> lused ?s1 ! j" using used [of j] that by auto
      moreover have "j \<in> set [1..<m+1]" using that by auto
      ultimately show ?thesis using sc_low by blast
    qed
    have fin: "\<exists>x\<in>?S. lminv t ! j = Fin (rc C s (lp s ! x) j) \<and> (\<forall>y\<in>?S. rc C s (lp s ! x) j \<le> rc C s (lp s ! y) j)"
      if "j \<in> {1..m} - ?S" for j
    proof -
      have "?S \<noteq> {}" by simp
      with A that show ?thesis unfolding minv_ok_def rct frame(4) by (metis (no_types, lifting))
    qed
    have fm: "f \<in> {1..m} - ?S" using f(1) fS by blast
    obtain x where "lminv t ! f = Fin (rc C s (lp s ! x) f)" using fin [OF fm] by blast
    with lower [OF fm] have "delta \<noteq> PInf" by auto
    with sc_delta have jj: "j1 \<in> set [1..<m+1]" "\<not> lused ?s1 ! j1" "delta = lminv t ! j1" by blast+
    then have j1m: "j1 \<in> {1..m}" by auto
    then have js: "j1 \<notin> ?S" using used [of j1] jj(2) by auto
    with j1m have "j1 \<in> {1..m} - ?S" by blast
    from fin [OF this] jj(3) obtain d where d: "delta = Fin d" by auto
    have "d \<le> rc C s (lp s ! x) j" if "j \<in> {1..m} - ?S" "x \<in> ?S" for j x
    proof -
      note jx = that
      obtain y where "lminv t ! j = Fin (rc C s (lp s ! y) j)" "rc C s (lp s ! y) j \<le> rc C s (lp s ! x) j"
        using fin [OF jx(1)] jx(2) by blast
      with lower [OF jx(1)] d show ?thesis by simp
    qed
    with that d jj(3) j1m js show thesis by metis
  qed
  show ?thesis using d j1S dmin A frame(1-4) ut way_used by blast
qed

lemma search_step_inv:
  fixes cost :: "0 fl list list"
  assumes cost: "cost_is cost C n m" and inv: "search_inv C n m i ord j0 s" and p0: "lp s ! j0 \<noteq> 0"
    and step: "search_step cost m j0 s = (j1, s')"
  shows "search_inv C n m i (ord @ [j0]) j1 s' \<and> lp s' = lp s"
proof -
  let ?S = "insert j0 (set ord)"
  obtain t delta k where scan: "fold (scan_col cost (lp s ! j0) j0) [1..<m+1]
      (s\<lparr>lused := (lused s)[j0 := True]\<rparr>, PInf, 0) = (t, delta, k)" by (metis prod_cases3)
  have s': "s' = fold (shift_col delta) [0..<m+1] t" "k = j1"
    using step scan by (simp_all add: search_step_def Let_def del: upt_Suc)
  note I = inv [unfolded search_inv_def]
  obtain d where d: "delta = Fin d" and j1: "j1 \<in> {1..m} - ?S" and mj1: "lminv t ! j1 = Fin d"
    and dmin: "\<And>j x. j \<in> {1..m} - ?S \<Longrightarrow> x \<in> ?S \<Longrightarrow> d \<le> rc C s (lp s ! x) j"
    and mt: "minv_ok C m ?S t" and tf: "lap_shape n m t" "lu t = lu s" "lv t = lv s" "lp t = lp s"
    and ut: "\<And>j. j \<le> m \<Longrightarrow> lused t ! j = (j \<in> ?S)"
    and wt: "\<And>j. j \<in> ?S \<Longrightarrow> j \<noteq> 0 \<Longrightarrow> lway t ! j = lway s ! j"
    using scan_phase [OF cost inv p0 scan [unfolded s'(2)]] by blast
  have rct: "rc C t = rc C s" by (intro ext) (simp add: rc_def uval_def vval_def tf)
  have j0m: "j0 \<le> m" "j0 \<notin> set ord" and Sm: "?S \<subseteq> {0..m}" using I by auto
  have holds: "holds_rows m i (lp s) {0..m}" and i: "1 \<le> i" "i \<le> n" and p0i: "lp s ! 0 = i"
    using I by blast+
  have pS: "\<And>j. j \<in> ?S \<Longrightarrow> lp s ! j \<noteq> 0" using I p0 by auto
  have inj: "x = y" if "x \<le> m" "y \<le> m" "lp s ! x = lp s ! y" "lp s ! x \<noteq> 0" for x y
    using holds that unfolding holds_rows_def inj_on_def by simp
  have pr: "lp s ! j \<in> {1..i}" if "j \<le> m" "lp s ! j \<noteq> 0" for j
    using holds that unfolding holds_rows_def by force
  have rows: "\<exists>x\<le>m. lp s ! x = r" if "r \<in> {1..i}" for r
  proof -
    have "r \<in> (!) (lp s) ` {j \<in> {0..m}. lp s ! j \<noteq> 0}" using holds that unfolding holds_rows_def by simp
    then show ?thesis by auto
  qed
  have sets: "{j \<in> set [0..<m+1]. lused t ! j} = ?S" using Sm ut by (auto simp: less_Suc_eq_le subset_iff)
  have h1: "\<forall>j\<in>set [0..<m+1]. lused t ! j \<longrightarrow> lp t ! j \<le> n"
  proof (intro ballI impI)
    fix j assume "j \<in> set [0..<m+1]" "lused t ! j"
    then have "j \<in> ?S" "j \<le> m" using sets by auto
    then show "lp t ! j \<le> n" using pr [of j] pS [of j] i(2) tf(4) by simp
  qed
  have h2: "inj_on ((!) (lp t)) {j \<in> set [0..<m+1]. lused t ! j}"
    unfolding sets tf(4)
  proof (rule inj_onI)
    fix x y assume xy: "x \<in> ?S" "y \<in> ?S" "lp s ! x = lp s ! y"
    then have "x \<le> m" "y \<le> m" using Sm by auto
    then show "x = y" using inj xy(3) pS [OF xy(1)] by blast
  qed
  have h3: "\<forall>j\<in>set [0..<m+1]. j \<le> m" by auto
  have sf: "lap_shape n m s'" "lp s' = lp s" "lway s' = lway t" "lused s' = lused t"
    "\<forall>r\<le>n. lu s' ! r = (if \<exists>j\<in>set [0..<m+1]. lused t ! j \<and> lp s ! j = r then lu s ! r + Fin d else lu s ! r)"
    "\<forall>j\<le>m. lv s' ! j = (if j \<in> set [0..<m+1] \<and> lused t ! j then lv s ! j - Fin d else lv s ! j)"
    "\<forall>j\<le>m. lminv s' ! j = (if j \<in> set [0..<m+1] \<and> \<not> lused t ! j then lminv t ! j - Fin d else lminv t ! j)"
    using shift_fold [OF distinct_upt tf(1) h3 h1 h2, of delta] unfolding s'(1) d tf by blast+
  have ex: "(\<exists>j\<in>set [0..<m+1]. lused t ! j \<and> lp s ! j = r) = (\<exists>j\<in>?S. lp s ! j = r)" for r
    using sets by blast
  have fs: "fin_state n m s" using I by blast
  have u': "is_fin (lu s' ! r) \<and> uval s' r = uval s r + (if \<exists>j\<in>?S. lp s ! j = r then d else 0)"
    if "r \<le> n" for r
  proof -
    note idx = that
    obtain a where "lu s ! r = Fin a" using fs idx unfolding fin_state_def is_fin_iff by blast
    with sf(5) idx show ?thesis unfolding ex uval_def by (auto simp: is_fin_iff)
  qed
  have v': "is_fin (lv s' ! j) \<and> vval s' j = vval s j - (if j \<in> ?S then d else 0)" if "j \<le> m" for j
  proof -
    note idx = that
    obtain a where "lv s ! j = Fin a" using fs idx unfolding fin_state_def is_fin_iff by blast
    with sf(6) idx ut [OF idx] show ?thesis unfolding vval_def by (auto simp: is_fin_iff)
  qed
  have exx: "(\<exists>y\<in>?S. lp s ! y = lp s ! x) = (x \<in> ?S)" if "x \<le> m" "lp s ! x \<noteq> 0" for x
    using inj [of x] that Sm by (metis atLeastAtMost_iff subsetD)
  have rc': "rc C s' (lp s ! x) j = rc C s (lp s ! x) j - (if x \<in> ?S then d else 0) + (if j \<in> ?S then d else 0)"
    if "x \<le> m" "lp s ! x \<noteq> 0" "j \<le> m" for x j
  proof -
    have "lp s ! x \<le> n" using pr [OF that(1,2)] i(2) by simp
    with u' v' [OF that(3)] exx [OF that(1,2)] show ?thesis by (simp add: rc_def)
  qed
  have nn: "0 \<le> rc C s r j" if "r \<in> (if ord = [] then {1..<i} else {1..i})" "j \<in> {1..m}" for r j
    using I that unfolding duals_ok_def by blast
  have way1: "lway t ! j \<in> ?S" "lminv t ! j = Fin (rc C s (lp s ! (lway t ! j)) j)"
    "\<forall>y\<in>?S. rc C s (lp s ! (lway t ! j)) j \<le> rc C s (lp s ! y) j" if "j \<in> {1..m} - ?S" for j
    using mt that unfolding minv_ok_def rct tf(4) by (metis empty_iff insertI1)+
  have d_eq: "rc C s (lp s ! (lway t ! j1)) j1 = d" using way1(2) [OF j1] mj1 by simp
  have dpos: "0 \<le> d" if "ord \<noteq> []"
  proof -
    have "lp s ! (lway t ! j1) \<in> {1..i}" using way1(1) [OF j1] pS pr Sm by (meson atLeastAtMost_iff subsetD)
    with nn [of _ j1] that j1 d_eq show ?thesis by auto
  qed
  have one: "ord \<noteq> []" if "j \<in> ?S" "j \<noteq> 0" for j using that I by auto
  have duals: "duals_ok C m {1..i} s'"
    unfolding duals_ok_def sf(2)
  proof (intro conjI ballI impI)
    fix r j assume r: "r \<in> {1..i}" and j: "j \<in> {1..m}"
    obtain x where x: "x \<le> m" "lp s ! x = r" using rows [OF r] by blast
    have px: "lp s ! x \<noteq> 0" using x r by simp
    have jm: "j \<le> m" "j \<noteq> 0" using j by auto
    have eq: "rc C s' r j = rc C s r j - (if x \<in> ?S then d else 0) + (if j \<in> ?S then d else 0)"
      using rc' [OF x(1) px jm(1)] x(2) by simp
    show "0 \<le> rc C s' r j"
    proof (cases "x \<in> ?S \<and> j \<notin> ?S")
      case True
      with dmin [of j x] j x(2) eq show ?thesis by simp
    next
      case False
      have "0 \<le> rc C s r j"
      proof (cases "ord = []")
        case True
        then have "x \<noteq> 0" using False one [OF _ jm(2)] I by auto
        then have "r \<noteq> i" using inj [OF x(1), of 0] x px p0i by auto
        with nn [of r j] True r j show ?thesis by simp
      qed (use nn r j in simp)
      moreover have "j \<in> ?S \<Longrightarrow> 0 \<le> d" using one [OF _ jm(2)] dpos by simp
      ultimately show ?thesis using eq False by auto
    qed
  next
    fix j assume j: "j \<in> {1..m}" and p: "lp s ! j \<noteq> 0"
    have "rc C s (lp s ! j) j = 0" using I j p unfolding duals_ok_def by blast
    with rc' [of j j] j p show "rc C s' (lp s ! j) j = 0" by simp
  next
    fix j assume j: "j \<in> {1..m}"
    have v0: "vval s j \<le> 0" using I j unfolding duals_ok_def by blast
    have jm: "j \<le> m" "j \<noteq> 0" using j by auto
    show "vval s' j \<le> 0" using v' [OF jm(1)] v0 one [OF _ jm(2)] dpos by (auto split: if_splits)
  next
    fix j assume j: "j \<in> {1..m}" and p: "lp s ! j = 0"
    have "vval s j = 0" using I j p unfolding duals_ok_def by blast
    moreover have "j \<notin> ?S" using pS p by blast
    ultimately show "vval s' j = 0" using v' [of j] j by simp
  qed
  have o0: "ord ! k \<noteq> 0" if "0 < k" "k < length ord" for k
  proof -
    have "ord ! 0 = 0" using I that unfolding tree_ok_def by (metis length_pos_if_in_set nth_mem)
    moreover have "distinct ord" using I by blast
    ultimately show ?thesis using that by (metis less_trans nth_eq_iff_index_eq neq0_conv)
  qed
  have tree: "tree_ok C (ord @ [j0]) s'"
    unfolding tree_ok_def sf(2,3)
  proof (intro allI impI)
    fix k assume k: "k < length (ord @ [j0])"
    let ?x = "(ord @ [j0]) ! k"
    have x: "?x \<in> ?S" using k by (auto simp: nth_append)
    have old: "lway s ! ?x \<in> set (take k (ord @ [j0])) \<and> rc C s (lp s ! (lway s ! ?x)) ?x = 0 \<and> ?x \<noteq> 0"
      if "k \<noteq> 0"
    proof (cases "k < length ord")
      case True
      have "lway s ! (ord ! k) \<in> set (take k ord) \<and> rc C s (lp s ! (lway s ! (ord ! k))) (ord ! k) = 0"
        using I True that unfolding tree_ok_def by presburger
      with o0 [of k] True that show ?thesis by (simp add: nth_append)
    next
      case False
      then have "k = length ord" "?x = j0" using k by (auto simp: nth_append)
      with I that show ?thesis by auto
    qed
    show "if k = 0 then ?x = 0
      else lway t ! ?x \<in> set (take k (ord @ [j0])) \<and> rc C s' (lp s ! (lway t ! ?x)) ?x = 0"
    proof (cases "k = 0")
      case True
      have "ord \<noteq> [] \<Longrightarrow> ord ! 0 = 0" using I unfolding tree_ok_def by (metis length_greater_0_conv)
      with True I show ?thesis by (cases ord) auto
    next
      case False
      note o = old [OF False]
      have w: "lway s ! ?x \<in> ?S" using o by (auto dest: in_set_takeD)
      then have "lway s ! ?x \<le> m" "?x \<le> m" using x Sm by auto
      then have "rc C s' (lp s ! (lway s ! ?x)) ?x = 0" using rc' [of "lway s ! ?x" ?x] pS [OF w] o w x by simp
      with False o wt [OF x] show ?thesis by simp
    qed
  qed
  have j1m: "j1 \<le> m" "j1 \<noteq> 0" "j1 \<notin> ?S" using j1 by auto
  have leaf: "lway t ! j1 \<in> ?S \<and> rc C s' (lp s ! (lway t ! j1)) j1 = 0"
  proof -
    have w: "lway t ! j1 \<in> ?S" by (rule way1(1) [OF j1])
    then have "lway t ! j1 \<le> m" using Sm by auto
    with rc' [of "lway t ! j1" j1] pS [OF w] w j1m d_eq show ?thesis by simp
  qed
  have minv: "minv_ok C m ?S s'"
    unfolding minv_ok_def sf(2,3)
  proof (intro ballI)
    fix j assume j: "j \<in> {1..m} - ?S"
    have jm: "j \<le> m" "j \<notin> ?S" using j by auto
    note w = way1 [OF j]
    have rs: "rc C s' (lp s ! y) j = rc C s (lp s ! y) j - d" if "y \<in> ?S" for y
      using rc' [of y j] that pS [OF that] jm Sm by auto
    have "lminv s' ! j = Fin (rc C s' (lp s ! (lway t ! j)) j)"
      using sf(7) jm ut [OF jm(1)] w(2) rs [OF w(1)] by simp
    moreover have "\<forall>y\<in>?S. rc C s' (lp s ! (lway t ! j)) j \<le> rc C s' (lp s ! y) j"
      using rs w by auto
    ultimately show "if ?S = {} then lminv s' ! j = PInf
      else lway t ! j \<in> ?S \<and> lminv s' ! j = Fin (rc C s' (lp s ! (lway t ! j)) j) \<and>
       (\<forall>y\<in>?S. rc C s' (lp s ! (lway t ! j)) j \<le> rc C s' (lp s ! y) j)" using w(1) by simp
  qed
  have so: "set (ord @ [j0]) = ?S" by auto
  have fin: "fin_state n m s'" using u' v' unfolding fin_state_def by blast
  have base: "lap_shape n m s' \<and> fin_state n m s' \<and> 1 \<le> i \<and> i \<le> n \<and> n \<le> m" using sf(1) fin I by blast
  have used: "\<forall>j\<le>m. lused s' ! j = (j \<in> ?S)" using sf(4) ut by simp
  have dist: "distinct (ord @ [j0])" using I by simp
  have rest: "j1 \<le> m \<and> j1 \<notin> ?S \<and> (ord @ [j0] = [] \<longleftrightarrow> j1 = 0) \<and> lp s ! 0 = i"
    using j1m p0i by simp
  have pS': "\<forall>j\<in>?S. lp s ! j \<noteq> 0" using pS by blast
  have du: "duals_ok C m (if ord @ [j0] = [] then {1..<i} else {1..i}) s'" using duals by simp
  show ?thesis unfolding search_inv_def so sf(2,3)
    using base used dist Sm rest holds pS' tree leaf minv du by blast
qed

lemma lap_search_ok:
  fixes cost :: "0 fl list list"
  assumes cost: "cost_is cost C n m"
  shows "search_inv C n m i ord j0 s \<Longrightarrow> lp s ! j0 \<noteq> 0 \<Longrightarrow>
    \<exists>ord' j1 s'. lap_search cost m j0 s = Some (j1, s') \<and> search_inv C n m i ord' j1 s' \<and>
      lp s' ! j1 = 0 \<and> lp s' = lp s \<and> ord' \<noteq> []"
proof (induction "m + 1 - length ord" arbitrary: ord j0 s rule: less_induct)
  case less
  obtain j1 s1 where step: "search_step cost m j0 s = (j1, s1)" by fastforce
  have inv: "search_inv C n m i (ord @ [j0]) j1 s1" and lp: "lp s1 = lp s"
    using search_step_inv [OF cost less.prems step] by auto
  show ?case
  proof (cases "lp s1 ! j1 = 0")
    case True
    then have "lap_search cost m j0 s = Some (j1, s1)" by (simp add: lap_search.simps step)
    with inv lp True show ?thesis by (intro exI [of _ "ord @ [j0]"] exI [of _ j1] exI [of _ s1]) simp
  next
    case False
    have eq: "lap_search cost m j0 s = lap_search cost m j1 s1" using False
      by (subst lap_search.simps) (simp add: step)
    have "distinct (ord @ [j0])" "set (ord @ [j0]) \<subseteq> {0..m}" using inv unfolding search_inv_def by blast+
    then have "card (set (ord @ [j0])) \<le> card {0..m}" "card (set (ord @ [j0])) = length (ord @ [j0])"
      by (rule_tac card_mono, simp, blast, rule_tac distinct_card, blast)
    then have "length (ord @ [j0]) \<le> m + 1" by simp
    then have "m + 1 - length (ord @ [j0]) < m + 1 - length ord" by simp
    from less.hyps [OF this inv False] eq lp show ?thesis by auto
  qed
qed

section \<open>The augmentation\<close>

lemma holds_rows_move:
  assumes h: "holds_rows m i p (A - {c})" and j: "j \<in> A" "j \<noteq> c" "p ! j \<noteq> 0"
    and c: "c \<in> A" "c < length p"
  shows "holds_rows m i (p[c := p ! j]) (A - {j})"
proof -
  let ?p = "p[c := p ! j]"
  let ?B = "{x \<in> A - {c}. p ! x \<noteq> 0}"
  have new: "{x \<in> A - {j}. ?p ! x \<noteq> 0} = insert c (?B - {j})"
    using j c by (auto simp: nth_list_update)
  have same: "?p ! x = p ! x" if "x \<in> ?B - {j}" for x using that by auto
  have pc: "?p ! c = p ! j" using c(2) by simp
  have inj: "inj_on ((!) p) ?B" and img: "(!) p ` ?B = {1..i}" using h unfolding holds_rows_def by blast+
  have jB: "j \<in> ?B" using j by simp
  have im: "(!) ?p ` (?B - {j}) = (!) p ` (?B - {j})" by (rule image_cong) (use same in auto)
  have inj': "inj_on ((!) ?p) (?B - {j})"
  proof -
    have "inj_on ((!) ?p) (?B - {j}) = inj_on ((!) p) (?B - {j})" by (rule inj_on_cong) (rule same)
    with inj_on_subset [OF inj, of "?B - {j}"] show ?thesis by blast
  qed
  have "p ! j \<notin> (!) p ` (?B - {j})" using inj jB by (auto simp: inj_on_def)
  then have "inj_on ((!) ?p) (insert c (?B - {j}))" using inj' im pc by auto
  moreover have "(!) ?p ` insert c (?B - {j}) = {1..i}"
  proof -
    have "?B = insert j (?B - {j})" using jB by blast
    then have "(!) p ` ?B = insert (p ! j) ((!) p ` (?B - {j}))" by (metis image_insert)
    then show ?thesis unfolding image_insert im pc img by simp
  qed
  ultimately show ?thesis unfolding holds_rows_def new by (rule conjI)
qed

lemma lap_augment_ok:
  fixes D :: "nat \<Rightarrow> nat \<Rightarrow> rat"
  assumes ord: "distinct ord" "set ord \<subseteq> {0..m}" "\<forall>x\<in>set ord. p0 ! x \<noteq> 0"
    and tree: "\<forall>k<length ord. if k = 0 then ord ! k = 0
      else way ! (ord ! k) \<in> set (take k ord) \<and> D (p0 ! (way ! (ord ! k))) (ord ! k) = 0"
  shows "k \<le> length ord \<Longrightarrow> length p = m + 1 \<Longrightarrow> c \<in> {1..m} \<Longrightarrow> c \<notin> set (take k ord) \<Longrightarrow>
    way ! c \<in> set (take k ord) \<Longrightarrow> D (p0 ! (way ! c)) c = 0 \<Longrightarrow>
    (\<forall>x\<in>set (take k ord). p ! x = p0 ! x) \<Longrightarrow> holds_rows m i p ({0..m} - {c}) \<Longrightarrow>
    (\<forall>j\<in>{1..m} - {c}. p ! j \<noteq> 0 \<longrightarrow> D (p ! j) j = 0) \<Longrightarrow>
    \<exists>p'. lap_augment way c p = Some p' \<and> length p' = m + 1 \<and> holds_rows m i p' {1..m} \<and>
      (\<forall>j\<in>{1..m}. p' ! j \<noteq> 0 \<longrightarrow> D (p' ! j) j = 0) \<and> (\<forall>j\<in>{1..m} - {c}. p' ! j = 0 \<longrightarrow> p ! j = 0) \<and> p' ! c \<noteq> 0"
proof (induction k arbitrary: p c rule: less_induct)
  case (less k)
  let ?j = "way ! c"
  let ?p = "p[c := p ! ?j]"
  from less.prems(5) obtain l where l: "l < k" "l < length ord" "ord ! l = ?j"
    by (auto simp: in_set_conv_nth)
  have jo: "?j \<in> set ord" using l nth_mem by metis
  have jm: "?j \<le> m" using jo ord(2) by auto
  have jc: "?j \<noteq> c" using less.prems(4,5) by metis
  have pj: "p ! ?j = p0 ! ?j" "p ! ?j \<noteq> 0" using less.prems(5,7) ord(3) jo by auto
  have clen: "c < length p" using less.prems(2,3) by simp
  have h: "holds_rows m i ?p ({0..m} - {?j})"
    by (rule holds_rows_move [OF less.prems(8) _ jc pj(2) _ clen]) (use jm less.prems(3) in auto)
  have pc: "?p ! c = p0 ! ?j" using clen pj by simp
  have tight: "\<forall>j\<in>{1..m} - {?j}. ?p ! j \<noteq> 0 \<longrightarrow> D (?p ! j) j = 0"
  proof (intro ballI impI)
    fix j assume j: "j \<in> {1..m} - {?j}" "?p ! j \<noteq> 0"
    show "D (?p ! j) j = 0"
    proof (cases "j = c")
      case True
      with pc less.prems(6) show ?thesis by simp
    next
      case False
      then have "?p ! j = p ! j" by simp
      with less.prems(9) j False show ?thesis by auto
    qed
  qed
  show ?case
  proof (cases "?j = 0")
    case True
    have "lap_augment way c p = Some ?p" by (subst lap_augment.simps) (simp add: True)
    moreover have "{0..m} - {?j} = {1..m}" using True by auto
    moreover have "{1..m} - {?j} = {1..m}" using True by auto
    moreover have "\<forall>j\<in>{1..m} - {c}. ?p ! j = 0 \<longrightarrow> p ! j = 0" by auto
    moreover have "?p ! c \<noteq> 0" using clen pj(2) by simp
    ultimately show ?thesis using h tight less.prems(2) by (intro exI [of _ ?p]) simp
  next
    case False
    have eq: "lap_augment way c p = lap_augment way ?j ?p" using False
      by (subst lap_augment.simps) (simp add: Let_def)
    have l0: "l \<noteq> 0" using tree l(2,3) False by (metis (full_types))
    have jm1: "?j \<in> {1..m}" using jm False by auto
    have jl: "?j \<notin> set (take l ord)"
    proof
      assume "?j \<in> set (take l ord)"
      then obtain q where "q < l" "ord ! q = ?j" by (auto simp: in_set_conv_nth)
      then show False using l(2,3) ord(1) by (metis less_trans nat_neq_iff nth_eq_iff_index_eq)
    qed
    have way: "way ! ?j \<in> set (take l ord)" "D (p0 ! (way ! ?j)) ?j = 0"
      using tree [rule_format, OF l(2)] l0 unfolding l(3) by auto
    have sub: "set (take l ord) \<subseteq> set (take k ord)" using l(1) by (simp add: set_take_subset_set_take)
    have keep: "\<forall>x\<in>set (take l ord). ?p ! x = p0 ! x"
    proof
      fix x assume "x \<in> set (take l ord)"
      then have x: "x \<in> set (take k ord)" using sub by blast
      then have "x \<noteq> c" using less.prems(4) by metis
      then show "?p ! x = p0 ! x" using less.prems(7) x by simp
    qed
    have lo: "l \<le> length ord" and lenp: "length ?p = m + 1" using l(2) less.prems(2) by auto
    from less.IH [OF l(1) lo lenp jm1 jl way keep h tight] obtain p' where
      p': "lap_augment way ?j ?p = Some p'" "length p' = m + 1" "holds_rows m i p' {1..m}"
      "\<forall>j\<in>{1..m}. p' ! j \<noteq> 0 \<longrightarrow> D (p' ! j) j = 0"
      "\<forall>j\<in>{1..m} - {?j}. p' ! j = 0 \<longrightarrow> ?p ! j = 0" "p' ! ?j \<noteq> 0" by blast
    have z: "\<forall>j\<in>{1..m} - {c}. p' ! j = 0 \<longrightarrow> p ! j = 0"
    proof (intro ballI impI)
      fix j assume j: "j \<in> {1..m} - {c}" "p' ! j = 0"
      then have "j \<noteq> ?j" "j \<noteq> c" using p'(6) by auto
      then have "j \<in> {1..m} - {?j}" "?p ! j = p ! j" using j by auto
      with p'(5) j(2) show "p ! j = 0" by metis
    qed
    have "p' ! c \<noteq> 0"
    proof
      assume "p' ! c = 0"
      moreover have "c \<in> {1..m} - {?j}" using less.prems(3) jc by auto
      ultimately have "?p ! c = 0" using p'(5) by blast
      then show False using clen pj(2) by simp
    qed
    with eq p' z show ?thesis by metis
  qed
qed

section \<open>The row loop\<close>

definition lap_inv :: "(nat \<Rightarrow> nat \<Rightarrow> rat) \<Rightarrow> nat \<Rightarrow> nat \<Rightarrow> nat \<Rightarrow> 'p lap_state \<Rightarrow> bool" where
  "lap_inv C n m i s \<longleftrightarrow> lap_shape n m s \<and> fin_state n m s \<and> holds_rows m i (lp s) {1..m} \<and> duals_ok C m {1..i} s"

lemma lap_init_inv: "lap_inv C n m 0 (lap_init n m :: 0 lap_state)"
proof -
  let ?s = "lap_init n m :: 0 lap_state"
  have p: "lp ?s ! j = 0" if "j \<le> m" for j
    using that by (simp add: lap_init_def del: replicate.simps replicate_Suc)
  have v: "lv ?s ! j = Fin 0" if "j \<le> m" for j
    using that by (simp add: lap_init_def zero_fl_def del: replicate.simps replicate_Suc)
  have u: "lu ?s ! r = Fin 0" if "r \<le> n" for r
    using that by (simp add: lap_init_def zero_fl_def del: replicate.simps replicate_Suc)
  have emp: "{j \<in> {1..m}. lp ?s ! j \<noteq> 0} = {}" using p by auto
  have "holds_rows m 0 (lp ?s) {1..m}" unfolding holds_rows_def emp by simp
  moreover have "duals_ok C m {1..0} ?s" using p v by (simp add: duals_ok_def vval_def)
  moreover have "fin_state n m ?s" using u v by (simp add: fin_state_def is_fin_iff)
  moreover have "lap_shape n m ?s" by (simp add: lap_shape_def lap_init_def)
  ultimately show ?thesis unfolding lap_inv_def by blast
qed

lemma holds_rows_insert:
  assumes "holds_rows m i p {1..m}" and "length p = m + 1"
  shows "holds_rows m (Suc i) (p[0 := Suc i]) {0..m}"
proof -
  let ?p = "p[0 := Suc i]"
  let ?B = "{j \<in> {1..m}. p ! j \<noteq> 0}"
  have new: "{j \<in> {0..m}. ?p ! j \<noteq> 0} = insert 0 ?B" using assms(2) by (auto simp: nth_list_update)
  have same: "?p ! x = p ! x" if "x \<in> ?B" for x using that by auto
  have img: "(!) p ` ?B = {1..i}" and inj: "inj_on ((!) p) ?B" using assms(1) unfolding holds_rows_def by blast+
  have im: "(!) ?p ` ?B = {1..i}" using img same by (metis (no_types, lifting) image_cong)
  have "inj_on ((!) ?p) ?B = inj_on ((!) p) ?B" by (rule inj_on_cong) (rule same)
  then have inj': "inj_on ((!) ?p) ?B" using inj by blast
  have p0: "?p ! 0 = Suc i" using assms(2) by simp
  have "0 \<notin> ?B" by simp
  then have "inj_on ((!) ?p) (insert 0 ?B)" using inj' im p0 by simp
  moreover have "(!) ?p ` insert 0 ?B = {1..Suc i}" unfolding image_insert im p0 by auto
  ultimately show ?thesis unfolding holds_rows_def new by (rule conjI)
qed

lemma lap_row_ok:
  fixes cost :: "0 fl list list"
  assumes cost: "cost_is cost C n m" and inv: "lap_inv C n m i s" and "Suc i \<le> n" and "n \<le> m"
  shows "\<exists>s'. lap_row cost m (Suc i) s = Some s' \<and> lap_inv C n m (Suc i) s'"
proof -
  let ?s = "s\<lparr>lp := (lp s)[0 := Suc i], lminv := replicate (m + 1) PInf, lused := replicate (m + 1) False\<rparr>"
  note I = inv [unfolded lap_inv_def]
  have len: "length (lp s) = m + 1" using I unfolding lap_shape_def by blast
  have dual: "duals_ok C m {1..i} ?s"
    using I by (auto simp: duals_ok_def rc_def uval_def vval_def)
  have rep: "replicate (m + 1) x ! j = x" if "j \<le> m" for x :: "'a" and j
    using that by (simp del: replicate.simps)
  have minv: "minv_ok C m {} ?s" using rep unfolding minv_ok_def by (simp del: replicate.simps)
  have used: "\<forall>j\<le>m. lused ?s ! j = (j \<in> set [])" using rep by (simp del: replicate.simps)
  have shape: "lap_shape n m ?s" and fin: "fin_state n m ?s" using I by (auto simp: lap_shape_def fin_state_def)
  have holds: "holds_rows m (Suc i) (lp ?s) {0..m}" using holds_rows_insert [OF _ len] I by simp
  have l0: "lp ?s ! 0 = Suc i" using len by simp
  have "search_inv C n m (Suc i) [] 0 ?s"
    unfolding search_inv_def using shape fin assms(3,4) used holds l0 minv dual
    by (auto simp: tree_ok_def atLeastLessThanSuc_atLeastAtMost)
  from lap_search_ok [OF cost this] l0 obtain ord j1 t where
    t: "lap_search cost m 0 ?s = Some (j1, t)" "search_inv C n m (Suc i) ord j1 t" "lp t ! j1 = 0" "lp t = lp ?s" "ord \<noteq> []"
    by auto
  note J = t(2) [unfolded search_inv_def]
  have j1: "j1 \<in> {1..m}" "j1 \<notin> set ord" "lway t ! j1 \<in> set ord" "rc C t (lp t ! (lway t ! j1)) j1 = 0"
    using J t(5) by auto
  have od: "distinct ord" "set ord \<subseteq> {0..m}" "\<forall>x\<in>set ord. lp t ! x \<noteq> 0" "tree_ok C ord t" using J by blast+
  have lt: "length (lp t) = m + 1" using t(4) len by simp
  have hole: "{j \<in> {0..m} - {j1}. lp t ! j \<noteq> 0} = {j \<in> {0..m}. lp t ! j \<noteq> 0}" using t(3) by auto
  have ht: "holds_rows m (Suc i) (lp t) {0..m}" using J by blast
  then have h: "holds_rows m (Suc i) (lp t) ({0..m} - {j1})" unfolding holds_rows_def hole .
  have dt: "duals_ok C m {1..Suc i} t" using J t(5) by presburger
  then have dt1: "\<forall>j\<in>{1..m} - {j1}. lp t ! j \<noteq> 0 \<longrightarrow> rc C t (lp t ! j) j = 0" unfolding duals_ok_def by blast
  from lap_augment_ok [OF od(1-3) od(4) [unfolded tree_ok_def] le_refl lt j1(1) _ _ j1(4) _ h dt1] j1(2,3)
  obtain p' where p': "lap_augment (lway t) j1 (lp t) = Some p'" "length p' = m + 1" "holds_rows m (Suc i) p' {1..m}"
    "\<forall>j\<in>{1..m}. p' ! j \<noteq> 0 \<longrightarrow> rc C t (p' ! j) j = 0" "\<forall>j\<in>{1..m} - {j1}. p' ! j = 0 \<longrightarrow> lp t ! j = 0" "p' ! j1 \<noteq> 0"
    by auto
  let ?t = "t\<lparr>lp := p'\<rparr>"
  have run: "lap_row cost m (Suc i) s = Some ?t" unfolding lap_row_def Let_def using t(1) p'(1) by simp
  have rct: "rc C ?t = rc C t" "vval ?t = vval t" by (intro ext, simp add: rc_def uval_def vval_def)+
  have "duals_ok C m {1..Suc i} ?t"
  proof -
    have "\<forall>j\<in>{1..m}. p' ! j = 0 \<longrightarrow> lp t ! j = 0" using p'(5,6) by (metis Diff_iff singletonD)
    with dt p'(4) show ?thesis unfolding duals_ok_def rct by simp
  qed
  moreover have "lap_shape n m ?t" "fin_state n m ?t" using J p'(2) by (auto simp: lap_shape_def fin_state_def)
  ultimately have "lap_inv C n m (Suc i) ?t" using p'(3) unfolding lap_inv_def by simp
  with run show ?thesis by blast
qed

lemma lap_rows_ok:
  fixes cost :: "0 fl list list"
  assumes cost: "cost_is cost C n m" and "n \<le> m"
  shows "lap_inv C n m i s \<Longrightarrow> i \<le> n \<Longrightarrow> \<exists>s'. lap_rows cost m [Suc i..<n+1] s = Some s' \<and> lap_inv C n m n s'"
proof (induction "n - i" arbitrary: i s)
  case 0
  then show ?case by auto
next
  case (Suc k)
  then have i: "Suc i \<le> n" "k = n - Suc i" by auto
  obtain s1 where s1: "lap_row cost m (Suc i) s = Some s1" "lap_inv C n m (Suc i) s1"
    using lap_row_ok [OF cost Suc.prems(1) i(1) assms(2)] by blast
  have "[Suc i..<n+1] = Suc i # [Suc (Suc i)..<n+1]" using i(1) by (subst upt_conv_Cons) auto
  with Suc.hyps(1) [OF i(2) s1(2) i(1)] s1(1) show ?case by (simp del: upt_Suc)
qed

end
