(* ===== verification/Lap_Solve.thy ===== *)
theory Lap_Solve
  imports Lap_Correct
begin

text \<open>
  From the row loop to the result of \<open>SolveLAP\<close>: the potentials bound the cost of every complete
  assignment from below and meet it on the computed one (\<open>lap_certificate\<close>), the extraction and the
  pruning produce two mirrored index arrays (\<open>mirror\<close>) of a set of row/column pairs.
\<close>

section \<open>The certificate\<close>

definition is_matching :: "nat \<Rightarrow> nat \<Rightarrow> (nat \<times> nat) set \<Rightarrow> bool" where
  "is_matching rows cols M \<longleftrightarrow> M \<subseteq> {..<rows} \<times> {..<cols} \<and> inj_on fst M \<and> inj_on snd M"

text \<open>A complete matching uses every row or every column, whichever are fewer.\<close>

definition complete_matching :: "nat \<Rightarrow> nat \<Rightarrow> (nat \<times> nat) set \<Rightarrow> bool" where
  "complete_matching rows cols M \<longleftrightarrow> is_matching rows cols M \<and> card M = min rows cols"

definition weight_of :: "'p::len0 fl list list \<Rightarrow> (nat \<times> nat) set \<Rightarrow> rat" where
  "weight_of matrix M = (\<Sum>(r, c)\<in>M. fin_val (matrix ! r ! c))"

definition lap_pairs :: "nat \<Rightarrow> 'p lap_state \<Rightarrow> (nat \<times> nat) set" where
  "lap_pairs m s = (\<lambda>j. (lp s ! j, j)) ` {j \<in> {1..m}. lp s ! j \<noteq> 0}"

lemma is_matching_finite: "is_matching rows cols M \<Longrightarrow> finite M"
  unfolding is_matching_def by (meson finite_SigmaI finite_lessThan finite_subset)

lemma lap_pairs_holds:
  assumes "holds_rows m n (lp s) {1..m}"
  shows "lap_pairs m s \<subseteq> {1..n} \<times> {1..m} \<and> inj_on fst (lap_pairs m s) \<and> inj_on snd (lap_pairs m s) \<and>
    card (lap_pairs m s) = n"
proof -
  let ?B = "{j \<in> {1..m}. lp s ! j \<noteq> 0}"
  have inj: "inj_on ((!) (lp s)) ?B" and img: "(!) (lp s) ` ?B = {1..n}"
    using assms unfolding holds_rows_def by blast+
  have c: "card ?B = n" using card_image [OF inj] unfolding img by simp
  have i: "inj_on (\<lambda>j. (lp s ! j, j)) ?B" by (rule inj_onI) simp
  have "lap_pairs m s \<subseteq> {1..n} \<times> {1..m}" using img unfolding lap_pairs_def by blast
  moreover have "inj_on fst (lap_pairs m s)" using inj unfolding lap_pairs_def inj_on_def by auto
  moreover have "inj_on snd (lap_pairs m s)" unfolding lap_pairs_def inj_on_def by auto
  moreover have "card (lap_pairs m s) = n" unfolding lap_pairs_def card_image [OF i] c ..
  ultimately show ?thesis by blast
qed

lemma lap_pairs_ok:
  assumes "lap_inv C n m n s"
  shows "lap_pairs m s \<subseteq> {1..n} \<times> {1..m} \<and> inj_on fst (lap_pairs m s) \<and> inj_on snd (lap_pairs m s) \<and>
    card (lap_pairs m s) = n"
  using assms by (intro lap_pairs_holds) (simp add: lap_inv_def)

lemma split_sum:
  fixes f g :: "nat \<Rightarrow> rat"
  assumes "inj_on fst N" and "inj_on snd N"
  shows "(\<Sum>(i, j)\<in>N. f i + g j) = sum f (fst ` N) + sum g (snd ` N)"
  by (simp add: sum.reindex [OF assms(1)] sum.reindex [OF assms(2)] sum.distrib case_prod_unfold)

lemma lap_certificate:
  assumes inv: "lap_inv C n m n s" and N: "N \<subseteq> {1..n} \<times> {1..m}" "inj_on fst N" "inj_on snd N" "card N = n"
  shows "(\<Sum>(i, j)\<in>lap_pairs m s. C i j) \<le> (\<Sum>(i, j)\<in>N. C i j)"
proof -
  let ?P = "lap_pairs m s"
  note P = lap_pairs_ok [OF inv]
  have du: "\<And>r j. r \<in> {1..n} \<Longrightarrow> j \<in> {1..m} \<Longrightarrow> 0 \<le> rc C s r j"
    "\<And>j. j \<in> {1..m} \<Longrightarrow> lp s ! j \<noteq> 0 \<Longrightarrow> rc C s (lp s ! j) j = 0"
    "\<And>j. j \<in> {1..m} \<Longrightarrow> vval s j \<le> 0" "\<And>j. j \<in> {1..m} \<Longrightarrow> lp s ! j = 0 \<Longrightarrow> vval s j = 0"
    using inv unfolding lap_inv_def duals_ok_def by blast+
  have rows: "fst ` M = {1..n}" if "M \<subseteq> {1..n} \<times> {1..m}" "inj_on fst M" "card M = n" for M
  proof (rule card_subset_eq)
    show "card (fst ` M) = card {1..n}" using card_image [OF that(2)] that(3) by simp
  qed (use that(1) in auto)
  have "(\<Sum>(i, j)\<in>?P. C i j) = (\<Sum>(i, j)\<in>?P. uval s i + vval s j)"
    by (rule sum.cong [OF refl]) (use du(2) in \<open>auto simp: lap_pairs_def rc_def diff_diff_eq\<close>)
  also have "\<dots> = sum (uval s) {1..n} + sum (vval s) (snd ` ?P)"
    using split_sum [of ?P] P rows [of ?P] by simp
  also have "sum (vval s) (snd ` ?P) = sum (vval s) {1..m}"
    by (rule sum.mono_neutral_left) (use du(4) in \<open>auto simp: lap_pairs_def image_image\<close>)
  also have "sum (vval s) {1..m} \<le> sum (vval s) (snd ` N)"
  proof -
    have sub: "snd ` N \<subseteq> {1..m}" using N(1) by auto
    have "sum (vval s) {1..m} = sum (vval s) (snd ` N) + sum (vval s) ({1..m} - snd ` N)"
      using sum.subset_diff [OF sub, of "vval s"] by simp
    moreover have "sum (vval s) ({1..m} - snd ` N) \<le> 0" by (rule sum_nonpos) (use du(3) in auto)
    ultimately show ?thesis by simp
  qed
  also have "sum (uval s) {1..n} + sum (vval s) (snd ` N) = (\<Sum>(i, j)\<in>N. uval s i + vval s j)"
    using split_sum [OF N(2,3)] rows [OF N(1,2,4)] by simp
  also have "\<dots> \<le> (\<Sum>(i, j)\<in>N. C i j)"
    by (rule sum_mono) (use du(1) N(1) in \<open>fastforce simp: rc_def\<close>)
  finally show ?thesis by simp
qed

section \<open>Extraction and pruning\<close>

definition mirror :: "nat \<Rightarrow> nat \<Rightarrow> (nat \<times> nat) set \<Rightarrow> int list \<Rightarrow> int list \<Rightarrow> bool" where
  "mirror rows cols M R K \<longleftrightarrow> length R = rows \<and> length K = cols \<and>
     (\<forall>r<rows. R ! r = - 1 \<and> r \<notin> fst ` M \<or> (\<exists>c. R ! r = int c \<and> (r, c) \<in> M)) \<and>
     (\<forall>c<cols. K ! c = - 1 \<and> c \<notin> snd ` M \<or> (\<exists>r. K ! c = int r \<and> (r, c) \<in> M))"

lemma mirror_pairs:
  assumes "mirror rows cols M R K" and "is_matching rows cols M"
  shows "M = {(r, nat (R ! r)) |r. r < rows \<and> R ! r \<noteq> - 1}" and "(r, c) \<in> M \<Longrightarrow> R ! r = int c \<and> K ! c = int r"
proof -
  have M: "M \<subseteq> {..<rows} \<times> {..<cols}" "inj_on fst M" "inj_on snd M" using assms(2) unfolding is_matching_def by blast+
  have row: "R ! r = int c" if "(r, c) \<in> M" for r c
  proof -
    have "r < rows" "r \<in> fst ` M" using M(1) that by force+
    with assms(1) obtain d where d: "R ! r = int d" "(r, d) \<in> M" unfolding mirror_def by blast
    with inj_onD [OF M(2) _ that d(2)] show ?thesis by simp
  qed
  have col: "K ! c = int r" if "(r, c) \<in> M" for r c
  proof -
    have "c < cols" "c \<in> snd ` M" using M(1) that by force+
    with assms(1) obtain d where d: "K ! c = int d" "(d, c) \<in> M" unfolding mirror_def by blast
    with inj_onD [OF M(3) _ that d(2)] show ?thesis by simp
  qed
  show "(r, c) \<in> M \<Longrightarrow> R ! r = int c \<and> K ! c = int r" using row col by blast
  show "M = {(r, nat (R ! r)) |r. r < rows \<and> R ! r \<noteq> - 1}"
  proof (intro set_eqI iffI)
    fix x assume x: "x \<in> M"
    obtain r c where rc: "x = (r, c)" by (cases x)
    then have "R ! r = int c" "r < rows" using row M(1) x by auto
    with rc show "x \<in> {(r, nat (R ! r)) |r. r < rows \<and> R ! r \<noteq> - 1}" by auto
  next
    fix x assume "x \<in> {(r, nat (R ! r)) |r. r < rows \<and> R ! r \<noteq> - 1}"
    then obtain r where r: "x = (r, nat (R ! r))" "r < rows" "R ! r \<noteq> - 1" by blast
    with assms(1) obtain c where "R ! r = int c" "(r, c) \<in> M" unfolding mirror_def by blast
    with r show "x \<in> M" by simp
  qed
qed

definition set_pair :: "nat \<times> nat \<Rightarrow> int list \<times> int list \<Rightarrow> int list \<times> int list" where
  "set_pair q acc = ((fst acc)[fst q := int (snd q)], (snd acc)[snd q := int (fst q)])"

lemma mirror_insert:
  assumes "mirror rows cols M R K" and "r < rows" "c < cols" "r \<notin> fst ` M" "c \<notin> snd ` M"
  shows "mirror rows cols (insert (r, c) M) (R[r := int c]) (K[c := int r])"
  using assms unfolding mirror_def by (auto simp: nth_list_update)

lemma mirror_remove:
  assumes "mirror rows cols M R K" and M: "is_matching rows cols M" and rc: "(r, c) \<in> M"
  shows "mirror rows cols (M - {(r, c)}) (R[r := - 1]) (K[c := - 1])"
proof -
  have inj: "inj_on fst M" "inj_on snd M" and lt: "r < rows" "c < cols"
    using M rc unfolding is_matching_def by auto
  have r: "x = (r, c)" if "x \<in> M" "fst x = r" for x using inj_onD [OF inj(1) _ that(1) rc] that(2) by simp
  have c: "x = (r, c)" if "x \<in> M" "snd x = c" for x using inj_onD [OF inj(2) _ that(1) rc] that(2) by simp
  have len: "length R = rows" "length K = cols" using assms(1) unfolding mirror_def by blast+
  have "R[r := - 1] ! x = - 1 \<and> x \<notin> fst ` (M - {(r, c)}) \<or> (\<exists>d. R[r := - 1] ! x = int d \<and> (x, d) \<in> M - {(r, c)})"
    if "x < rows" for x
  proof (cases "x = r")
    case True
    with r len lt show ?thesis by auto
  next
    case False
    with assms(1) that have "R ! x = - 1 \<and> x \<notin> fst ` M \<or> (\<exists>d. R ! x = int d \<and> (x, d) \<in> M)"
      unfolding mirror_def by blast
    with False show ?thesis by auto
  qed
  moreover have "K[c := - 1] ! x = - 1 \<and> x \<notin> snd ` (M - {(r, c)}) \<or> (\<exists>d. K[c := - 1] ! x = int d \<and> (d, x) \<in> M - {(r, c)})"
    if "x < cols" for x
  proof (cases "x = c")
    case True
    with c len lt show ?thesis by auto
  next
    case False
    with assms(1) that have "K ! x = - 1 \<and> x \<notin> snd ` M \<or> (\<exists>d. K ! x = int d \<and> (d, x) \<in> M)"
      unfolding mirror_def by blast
    with False show ?thesis by auto
  qed
  ultimately show ?thesis using len unfolding mirror_def by simp
qed

lemma mirror_fold:
  assumes "distinct (map fst ps)" and "distinct (map snd ps)" and "set ps \<subseteq> {..<rows} \<times> {..<cols}"
  shows "case fold set_pair ps (replicate rows (- 1), replicate cols (- 1)) of (R, K) \<Rightarrow> mirror rows cols (set ps) R K"
  using assms
proof (induction ps rule: rev_induct)
  case Nil
  then show ?case by (simp add: mirror_def)
next
  case (snoc q ps)
  obtain R K where RK: "fold set_pair ps (replicate rows (- 1), replicate cols (- 1)) = (R, K)" by fastforce
  with snoc have m: "mirror rows cols (set ps) R K" by simp
  obtain r c where q: "q = (r, c)" by (cases q)
  have "r \<notin> fst ` set ps" "c \<notin> snd ` set ps" "r < rows" "c < cols" using snoc.prems q by auto
  note mi = mirror_insert [OF m this(3,4,1,2)]
  have "set_pair (r, c) (R, K) = (R[r := int c], K[c := int r])" by (simp add: set_pair_def)
  with mi RK q show ?case by simp
qed

definition keeps :: "'p::len0 fl list list \<Rightarrow> bool \<Rightarrow> bool \<Rightarrow> nat \<times> nat \<Rightarrow> bool" where
  "keeps matrix maximize allowNegative q \<longleftrightarrow>
     allowNegative \<or> \<not> maximize \<or> \<not> matrix ! fst q ! snd q < 0"

lemma keep_step:
  assumes inj: "inj_on fst M" and cM: "(k, c) \<in> M"
  shows "P (k, c) \<Longrightarrow> {q \<in> M. fst q < Suc k \<longrightarrow> P q} = {q \<in> M. fst q < k \<longrightarrow> P q}"
    and "P (k, c) \<Longrightarrow> {q \<in> M. fst q < Suc k \<and> P q} = insert (k, c) {q \<in> M. fst q < k \<and> P q}"
    and "\<not> P (k, c) \<Longrightarrow> {q \<in> M. fst q < Suc k \<longrightarrow> P q} = {q \<in> M. fst q < k \<longrightarrow> P q} - {(k, c)}"
    and "\<not> P (k, c) \<Longrightarrow> {q \<in> M. fst q < Suc k \<and> P q} = {q \<in> M. fst q < k \<and> P q}"
proof -
  have only: "q = (k, c)" if "q \<in> M" "fst q = k" for q using inj_onD [OF inj _ that(1) cM] that(2) by simp
  have split: "fst q < Suc k \<longleftrightarrow> fst q < k \<or> q = (k, c)" if "q \<in> M" for q
    using only [OF that] by (metis fst_conv lessI less_Suc_eq)
  have kc: "\<not> fst (k, c) < k" by simp
  show "P (k, c) \<Longrightarrow> {q \<in> M. fst q < Suc k \<longrightarrow> P q} = {q \<in> M. fst q < k \<longrightarrow> P q}"
    using split by blast
  show "P (k, c) \<Longrightarrow> {q \<in> M. fst q < Suc k \<and> P q} = insert (k, c) {q \<in> M. fst q < k \<and> P q}"
    using split cM by blast
  show "\<not> P (k, c) \<Longrightarrow> {q \<in> M. fst q < Suc k \<longrightarrow> P q} = {q \<in> M. fst q < k \<longrightarrow> P q} - {(k, c)}"
    using split by blast
  show "\<not> P (k, c) \<Longrightarrow> {q \<in> M. fst q < Suc k \<and> P q} = {q \<in> M. fst q < k \<and> P q}"
    using split kc by blast
qed

lemma no_step:
  assumes "k \<notin> fst ` M"
  shows "{q \<in> M. fst q < Suc k \<longrightarrow> P q} = {q \<in> M. fst q < k \<longrightarrow> P q}"
    "{q \<in> M. fst q < Suc k \<and> P q} = {q \<in> M. fst q < k \<and> P q}"
proof -
  have "fst q < Suc k \<longleftrightarrow> fst q < k" if "q \<in> M" for q
    using assms that by (metis imageI less_Suc_eq)
  then show "{q \<in> M. fst q < Suc k \<longrightarrow> P q} = {q \<in> M. fst q < k \<longrightarrow> P q}"
    "{q \<in> M. fst q < Suc k \<and> P q} = {q \<in> M. fst q < k \<and> P q}" by blast+
qed

text \<open>One step of the pruning on a mirrored pair of arrays: the row is free, kept or dropped.\<close>

lemma prune_row_cases:
  fixes matrix :: "'p::len0 fl list list"
  assumes mir: "mirror rows cols {q \<in> M. fst q < k \<longrightarrow> keeps matrix maximize allowNegative q} R K"
    and M: "is_matching rows cols M" and k: "k < rows"
  obtains (free) "k \<notin> fst ` M" "prune_row matrix maximize allowNegative k (R, K, tot, cnt) = (R, K, tot, cnt)"
  | (kept) c where "(k, c) \<in> M" "keeps matrix maximize allowNegative (k, c)"
      "prune_row matrix maximize allowNegative k (R, K, tot, cnt) = (R, K, tot + matrix ! k ! c, cnt + 1)"
  | (dropped) c where "(k, c) \<in> M" "\<not> keeps matrix maximize allowNegative (k, c)"
      "prune_row matrix maximize allowNegative k (R, K, tot, cnt) = (R[k := - 1], K[c := - 1], tot, cnt)"
proof -
  let ?A = "{q \<in> M. fst q < k \<longrightarrow> keeps matrix maximize allowNegative q}"
  have MA: "is_matching rows cols ?A" using M unfolding is_matching_def by (auto intro: inj_on_subset)
  show thesis
  proof (cases "R ! k = - 1")
    case True
    have "k \<notin> fst ` M"
    proof
      assume "k \<in> fst ` M"
      then obtain c where "(k, c) \<in> M" by auto
      then have "(k, c) \<in> ?A" by simp
      from mirror_pairs(2) [OF mir MA this] True show False by simp
    qed
    with True show thesis by (intro free) (auto simp: prune_row_def)
  next
    case False
    then obtain c where c: "R ! k = int c" "(k, c) \<in> ?A" using mir k unfolding mirror_def by blast
    show thesis
    proof (cases "keeps matrix maximize allowNegative (k, c)")
      case True
      then have "prune_row matrix maximize allowNegative k (R, K, tot, cnt) = (R, K, tot + matrix ! k ! c, cnt + 1)"
        using False c(1) by (auto simp: prune_row_def keeps_def Let_def)
      with True c(2) show thesis by (intro kept [of c]) simp_all
    next
      case drop: False
      then have "prune_row matrix maximize allowNegative k (R, K, tot, cnt) = (R[k := - 1], K[c := - 1], tot, cnt)"
        using False c(1) by (auto simp: prune_row_def keeps_def Let_def)
      with drop c(2) show thesis by (intro dropped [of c]) simp_all
    qed
  qed
qed

lemma prune_fold:
  fixes matrix :: "'p::len0 fl list list"
  assumes M: "is_matching rows cols M" and mir: "mirror rows cols M R K"
    and run: "fold (prune_row matrix maximize allowNegative) [0..<k] (R, K, 0, 0) = (R', K', tot, cnt)" and "k \<le> rows"
  shows "mirror rows cols {q \<in> M. fst q < k \<longrightarrow> keeps matrix maximize allowNegative q} R' K' \<and>
    cnt = card {q \<in> M. fst q < k \<and> keeps matrix maximize allowNegative q}"
  using run \<open>k \<le> rows\<close>
proof (induction k arbitrary: R' K' tot cnt)
  case 0
  with mir show ?case by simp
next
  case (Suc k)
  let ?keep = "keeps matrix maximize allowNegative"
  obtain R1 K1 t1 c1 where s1: "fold (prune_row matrix maximize allowNegative) [0..<k] (R, K, 0, 0) = (R1, K1, t1, c1)"
    by (metis prod_cases4)
  have IH: "mirror rows cols {q \<in> M. fst q < k \<longrightarrow> ?keep q} R1 K1" "c1 = card {q \<in> M. fst q < k \<and> ?keep q}"
    using Suc.IH [OF s1] Suc.prems(2) by auto
  have step: "prune_row matrix maximize allowNegative k (R1, K1, t1, c1) = (R', K', tot, cnt)"
    using Suc.prems(1) s1 by simp
  have inj: "inj_on fst M" using M unfolding is_matching_def by blast
  have MA: "is_matching rows cols {q \<in> M. fst q < k \<longrightarrow> ?keep q}" using M unfolding is_matching_def by (auto intro: inj_on_subset)
  have k: "k < rows" using Suc.prems(2) by simp
  have fin: "finite {q \<in> M. fst q < k \<and> ?keep q}" using is_matching_finite [OF M] by simp
  from IH(1) M k show ?case
  proof (cases rule: prune_row_cases [where tot = t1 and cnt = c1])
    case free
    with step IH show ?thesis by (simp add: no_step)
  next
    case (kept c)
    have "(k, c) \<notin> {q \<in> M. fst q < k \<and> ?keep q}" by simp
    with kept step IH fin show ?thesis by (simp add: keep_step(1,2) [OF inj kept(1), of ?keep, OF kept(2)])
  next
    case (dropped c)
    have "(k, c) \<in> {q \<in> M. fst q < k \<longrightarrow> ?keep q}" using dropped(1) by simp
    from mirror_remove [OF IH(1) MA this] dropped step IH(2) show ?thesis
      by (simp add: keep_step(3,4) [OF inj dropped(1), of ?keep, OF dropped(2)])
  qed
qed

lemma prune_total:
  fixes matrix :: "0 fl list list"
  assumes M: "is_matching rows cols M" and mir: "mirror rows cols M R K"
    and fin: "\<And>r c. r < rows \<Longrightarrow> c < cols \<Longrightarrow> is_fin (matrix ! r ! c)"
    and run: "fold (prune_row matrix maximize allowNegative) [0..<k] (R, K, 0, 0) = (R', K', tot, cnt)" and "k \<le> rows"
  shows "tot = Fin (weight_of matrix {q \<in> M. fst q < k \<and> keeps matrix maximize allowNegative q})"
  using run \<open>k \<le> rows\<close>
proof (induction k arbitrary: R' K' tot cnt)
  case 0
  then show ?case by (simp add: weight_of_def zero_fl_def)
next
  case (Suc k)
  let ?keep = "keeps matrix maximize allowNegative"
  let ?B = "{q \<in> M. fst q < k \<and> ?keep q}"
  obtain R1 K1 t1 c1 where s1: "fold (prune_row matrix maximize allowNegative) [0..<k] (R, K, 0, 0) = (R1, K1, t1, c1)"
    by (metis prod_cases4)
  have k: "k \<le> rows" "k < rows" using Suc.prems(2) by auto
  have IH: "t1 = Fin (weight_of matrix ?B)" by (rule Suc.IH [OF s1 k(1)])
  have step: "prune_row matrix maximize allowNegative k (R1, K1, t1, c1) = (R', K', tot, cnt)"
    using Suc.prems(1) s1 by simp
  have inj: "inj_on fst M" and sub: "M \<subseteq> {..<rows} \<times> {..<cols}" using M unfolding is_matching_def by blast+
  have finB: "finite ?B" using is_matching_finite [OF M] by simp
  from conjunct1 [OF prune_fold [OF M mir s1 k(1)]] M k(2) show ?case
  proof (cases rule: prune_row_cases [where tot = t1 and cnt = c1])
    case free
    with step IH show ?thesis by (simp add: no_step)
  next
    case (kept c)
    obtain w where w: "matrix ! k ! c = Fin w" using fin [of k c] kept(1) sub by (auto simp: is_fin_iff)
    have "(k, c) \<notin> ?B" by simp
    with kept step IH finB w show ?thesis
      by (auto simp: keep_step(2) [OF inj kept(1), of ?keep, OF kept(2)] weight_of_def add.commute)
  next
    case (dropped c)
    with step IH show ?thesis by (simp add: keep_step(4) [OF inj dropped(1), of ?keep, OF dropped(2)])
  qed
qed

section \<open>The solver\<close>

definition orient :: "bool \<Rightarrow> nat \<times> nat \<Rightarrow> nat \<times> nat" where
  "orient transposed q = (if transposed then (snd q - 1, fst q - 1) else (fst q - 1, snd q - 1))"

definition lap_sgn :: "bool \<Rightarrow> rat" where
  "lap_sgn maximize = (if maximize then - 1 else 1)"

definition lap_C :: "0 fl list list \<Rightarrow> bool \<Rightarrow> bool \<Rightarrow> nat \<Rightarrow> nat \<Rightarrow> rat" where
  "lap_C matrix maximize transposed i j = (case orient transposed (i, j) of
     (r, c) \<Rightarrow> lap_sgn maximize * fin_val (matrix ! r ! c))"

lemma lap_valid_ok:
  "lap_valid matrix = Inr () \<longleftrightarrow> matrix \<noteq> [] \<and> length (matrix ! 0) \<noteq> 0 \<and>
     (\<forall>row\<in>set matrix. length row = length (matrix ! 0) \<and> (\<forall>x\<in>set row. \<not> is_nan x \<and> \<not> is_inf x))"
proof -
  have "foldr (\<lambda>row rest. if length row \<noteq> k then Inl ErrDimensionMismatch
          else if \<exists>x\<in>set row. is_nan x \<or> is_inf x then Inl ErrLAPNonFinite else rest) rows (Inr ()) = (Inr () :: unit result)
    \<longleftrightarrow> (\<forall>row\<in>set rows. length row = k \<and> (\<forall>x\<in>set row. \<not> is_nan x \<and> \<not> is_inf x))" for k and rows :: "'a fl list list"
    by (induction rows) auto
  then show ?thesis unfolding lap_valid_def by auto
qed

lemma lap_cost_is:
  fixes matrix :: "0 fl list list"
  assumes fin: "\<And>r c. r < rows \<Longrightarrow> c < cols \<Longrightarrow> is_fin (matrix ! r ! c)"
    and dims: "n = (if tr then cols else rows)" "m = (if tr then rows else cols)"
  shows "cost_is (lap_cost matrix maximize tr n m) (lap_C matrix maximize tr) n m"
  unfolding cost_is_def
proof (intro ballI)
  fix i j assume ij: "i \<in> {1..n}" "j \<in> {1..m}"
  obtain r c where rc: "orient tr (i, j) = (r, c)" by fastforce
  have b: "r < rows" "c < cols" using rc ij dims by (auto simp: orient_def split: if_splits)
  obtain w where w: "matrix ! r ! c = Fin w" using fin [OF b] by (auto simp: is_fin_iff)
  have raw: "(if tr then matrix ! (j - 1) ! (i - 1) else matrix ! (i - 1) ! (j - 1)) = Fin w"
    using rc w by (auto simp: orient_def split: if_splits)
  have "lap_cost matrix maximize tr n m ! i ! j = (if maximize then - Fin w else Fin w)"
    using ij by (simp add: lap_cost_def nth_append raw [symmetric] Let_def del: upt_Suc)
  also have "\<dots> = Fin (lap_C matrix maximize tr i j)"
    using w by (simp add: lap_C_def rc lap_sgn_def)
  finally show "lap_cost matrix maximize tr n m ! i ! j = Fin (lap_C matrix maximize tr i j)" .
qed

lemma extract_eq:
  "fold (extract_col tr n p) js acc =
   fold set_pair (map (\<lambda>j. orient tr (p ! j, j)) (filter (\<lambda>j. p ! j > 0 \<and> p ! j \<le> n) js)) acc"
proof (induction js arbitrary: acc)
  case (Cons j js)
  then show ?case
    by (cases acc) (auto simp: extract_col_def set_pair_def orient_def)
qed simp

lemma orient_inj: "inj_on (orient tr) ({1..} \<times> {1..})"
  by (auto simp: inj_on_def orient_def split: if_splits)

lemma orient_matching:
  assumes N: "N \<subseteq> {1..n} \<times> {1..m}" "inj_on fst N" "inj_on snd N"
    and dims: "n = (if tr then cols else rows)" "m = (if tr then rows else cols)"
  shows "is_matching rows cols (orient tr ` N) \<and> card (orient tr ` N) = card N \<and>
    lap_sgn maximize * weight_of matrix (orient tr ` N) = (\<Sum>(i, j)\<in>N. lap_C matrix maximize tr i j)"
proof -
  have inj: "inj_on (orient tr) N" by (rule inj_on_subset [OF orient_inj]) (use N(1) in auto)
  have b: "0 < fst q \<and> fst q \<le> n \<and> 0 < snd q \<and> snd q \<le> m" if "q \<in> N" for q using N(1) that by force
  have sub: "orient tr ` N \<subseteq> {..<rows} \<times> {..<cols}"
  proof
    fix x assume "x \<in> orient tr ` N"
    then obtain q where q: "q \<in> N" "x = orient tr q" by blast
    with b [OF q(1)] dims show "x \<in> {..<rows} \<times> {..<cols}" by (auto simp: orient_def)
  qed
  have fs: "fst x = fst y" if "x \<in> N" "y \<in> N" "fst x - 1 = fst y - 1" for x y
    using b [OF that(1)] b [OF that(2)] that(3) by linarith
  have sn: "snd x = snd y" if "x \<in> N" "y \<in> N" "snd x - 1 = snd y - 1" for x y
    using b [OF that(1)] b [OF that(2)] that(3) by linarith
  have f: "x = y" if "x \<in> N" "y \<in> N" "fst x - 1 = fst y - 1" for x y using fs that N(2) by (meson inj_onD)
  have s: "x = y" if "x \<in> N" "y \<in> N" "snd x - 1 = snd y - 1" for x y using sn that N(3) by (meson inj_onD)
  have "inj_on fst (orient tr ` N)"
  proof (rule inj_onI)
    fix x y assume "x \<in> orient tr ` N" "y \<in> orient tr ` N" and eq: "fst x = fst y"
    then obtain q t where q: "q \<in> N" "t \<in> N" "x = orient tr q" "y = orient tr t" by blast
    have "q = t" using eq f [OF q(1,2)] s [OF q(1,2)] by (simp add: q orient_def split: if_splits)
    with q show "x = y" by simp
  qed
  moreover have "inj_on snd (orient tr ` N)"
  proof (rule inj_onI)
    fix x y assume "x \<in> orient tr ` N" "y \<in> orient tr ` N" and eq: "snd x = snd y"
    then obtain q t where q: "q \<in> N" "t \<in> N" "x = orient tr q" "y = orient tr t" by blast
    have "q = t" using eq f [OF q(1,2)] s [OF q(1,2)] by (simp add: q orient_def split: if_splits)
    with q show "x = y" by simp
  qed
  moreover have "lap_sgn maximize * weight_of matrix (orient tr ` N) = (\<Sum>(i, j)\<in>N. lap_C matrix maximize tr i j)"
    unfolding weight_of_def sum.reindex [OF inj] sum_distrib_left
    by (rule sum.cong [OF refl]) (simp add: lap_C_def case_prod_unfold)
  ultimately show ?thesis using sub card_image [OF inj] unfolding is_matching_def by blast
qed

lemma orient_surj:
  assumes M: "is_matching rows cols M" and dims: "n = (if tr then cols else rows)" "m = (if tr then rows else cols)"
  obtains N where "N \<subseteq> {1..n} \<times> {1..m}" "inj_on fst N" "inj_on snd N" "M = orient tr ` N" "card N = card M"
proof -
  let ?g = "\<lambda>q. if tr then (snd q + 1, fst q + 1) else (fst q + 1, snd q + 1)"
  let ?N = "?g ` M"
  have inv: "orient tr (?g q) = q" for q by (cases q) (simp add: orient_def)
  have M': "M \<subseteq> {..<rows} \<times> {..<cols}" "inj_on fst M" "inj_on snd M" using M unfolding is_matching_def by blast+
  have b: "fst q < rows \<and> snd q < cols" if "q \<in> M" for q using M'(1) that by force
  have "?N \<subseteq> {1..n} \<times> {1..m}"
  proof
    fix x assume "x \<in> ?N"
    then obtain q where q: "q \<in> M" "x = ?g q" by blast
    with b [OF q(1)] dims show "x \<in> {1..n} \<times> {1..m}" by auto
  qed
  moreover have "inj_on fst ?N"
  proof (rule inj_onI)
    fix x y assume "x \<in> ?N" "y \<in> ?N" and eq: "fst x = fst y"
    then obtain q t where q: "q \<in> M" "t \<in> M" "x = ?g q" "y = ?g t" by blast
    have "q = t" using eq inj_onD [OF M'(2) _ q(1,2)] inj_onD [OF M'(3) _ q(1,2)] by (simp add: q(3,4) split: if_splits)
    with q show "x = y" by simp
  qed
  moreover have "inj_on snd ?N"
  proof (rule inj_onI)
    fix x y assume "x \<in> ?N" "y \<in> ?N" and eq: "snd x = snd y"
    then obtain q t where q: "q \<in> M" "t \<in> M" "x = ?g q" "y = ?g t" by blast
    have "q = t" using eq inj_onD [OF M'(2) _ q(1,2)] inj_onD [OF M'(3) _ q(1,2)] by (simp add: q(3,4) split: if_splits)
    with q show "x = y" by simp
  qed
  moreover have "M = orient tr ` ?N" unfolding image_image inv by simp
  moreover have "card ?N = card M" by (rule card_image, rule inj_on_inverseI, rule inv)
  ultimately show thesis by (rule that)
qed

text \<open>What a successful run computes, \<open>M\<close> being the assignment before the pruning.\<close>

text \<open>
  The extraction: whatever the search has left in \<open>p\<close>, provided each of the rows \<open>1..n\<close> holds one
  column, the index arrays mirror a complete matching, and pruning keeps them a mirror.
\<close>

lemma extract_mirror:
  assumes holds: "holds_rows m n (lp s) {1..m}"
    and dims: "tr \<longleftrightarrow> rows > cols" "n = (if tr then cols else rows)" "m = (if tr then rows else cols)"
    and ext: "fold (extract_col tr n (lp s)) [1..<m+1] (replicate rows (- 1), replicate cols (- 1)) = (R, K)"
  shows "complete_matching rows cols (orient tr ` lap_pairs m s) \<and> mirror rows cols (orient tr ` lap_pairs m s) R K"
proof -
  let ?M = "orient tr ` lap_pairs m s"
  note P = lap_pairs_holds [OF holds]
  have nm: "min rows cols = n" using dims by auto
  have M: "is_matching rows cols ?M" "card ?M = n"
    using orient_matching [of "lap_pairs m s" n m tr cols rows] P dims(2,3) by auto
  let ?ps = "map (\<lambda>j. orient tr (lp s ! j, j)) (filter (\<lambda>j. lp s ! j > 0 \<and> lp s ! j \<le> n) [1..<m+1])"
  have flt: "set (filter (\<lambda>j. lp s ! j > 0 \<and> lp s ! j \<le> n) [1..<m+1]) = {j \<in> {1..m}. lp s ! j \<noteq> 0}"
    using P unfolding lap_pairs_def by (auto simp: less_Suc_eq_le simp del: upt_Suc)
  have ps: "set ?ps = ?M" unfolding set_map flt lap_pairs_def image_image ..
  have "inj_on (\<lambda>j. orient tr (lp s ! j, j)) {j \<in> {1..m}. lp s ! j \<noteq> 0}" by (auto simp: inj_on_def orient_def)
  then have di: "distinct ?ps" unfolding distinct_map flt by simp
  have ps_inj: "inj_on fst (set ?ps)" "inj_on snd (set ?ps)" "set ?ps \<subseteq> {..<rows} \<times> {..<cols}"
    using M(1) unfolding ps is_matching_def by blast+
  have "distinct (map fst ?ps)" "distinct (map snd ?ps)" using di ps_inj(1,2) by (simp_all only: distinct_map)
  from mirror_fold [OF this ps_inj(3)] ext have "mirror rows cols ?M R K" unfolding extract_eq ps by simp
  with M nm show ?thesis unfolding complete_matching_def by simp
qed

lemma prune_rows:
  fixes matrix :: "'p::len0 fl list list"
  assumes M: "is_matching rows cols M" and mir: "mirror rows cols M R K"
    and run: "fold (prune_row matrix maximize allowNegative) [0..<rows] (R, K, 0, 0) = (R', K', tot, cnt)"
  shows "mirror rows cols {q \<in> M. keeps matrix maximize allowNegative q} R' K' \<and>
    cnt = card {q \<in> M. keeps matrix maximize allowNegative q}"
proof -
  have "{q \<in> M. fst q < rows \<and> keeps matrix maximize allowNegative q} = {q \<in> M. keeps matrix maximize allowNegative q}"
    "{q \<in> M. fst q < rows \<longrightarrow> keeps matrix maximize allowNegative q} = {q \<in> M. keeps matrix maximize allowNegative q}"
    using M unfolding is_matching_def by fastforce+
  with prune_fold [OF M mir run le_refl] show ?thesis by simp
qed

definition assigned_pairs :: "'p LAPAssignment \<Rightarrow> (nat \<times> nat) set" where
  "assigned_pairs a = {(r, nat (RowToCol a ! r)) |r. r < length (RowToCol a) \<and> RowToCol a ! r \<noteq> - 1}"

definition lap_result :: "0 fl list list \<Rightarrow> bool \<Rightarrow> bool \<Rightarrow> 0 LAPAssignment \<Rightarrow> (nat \<times> nat) set \<Rightarrow> bool" where
  "lap_result matrix maximize allowNegative a M \<longleftrightarrow>
     (let rows = length matrix; cols = length (matrix ! 0); K = {q \<in> M. keeps matrix maximize allowNegative q} in
      complete_matching rows cols M \<and>
      (\<forall>N. complete_matching rows cols N \<longrightarrow>
         lap_sgn maximize * weight_of matrix M \<le> lap_sgn maximize * weight_of matrix N) \<and>
      mirror rows cols K (RowToCol a) (ColToRow a) \<and> TotalWeight a = Fin (weight_of matrix K) \<and>
      MatchCount a = card K \<and> length (RowDuals a) = rows \<and> length (ColDuals a) = cols \<and>
      (\<forall>r<rows. \<forall>c<cols. \<exists>x y. RowDuals a ! r = Fin x \<and> ColDuals a ! c = Fin y \<and>
         lap_sgn maximize * (x + y) \<le> lap_sgn maximize * fin_val (matrix ! r ! c) \<and>
         ((r, c) \<in> M \<longrightarrow> x + y = fin_val (matrix ! r ! c))))"

lemma lap_valid_fin:
  fixes matrix :: "0 fl list list"
  assumes "lap_valid matrix = Inr ()" and "r < length matrix" and "c < length (matrix ! 0)"
  shows "is_fin (matrix ! r ! c)"
proof -
  have "matrix ! r \<in> set matrix" using assms(2) by simp
  with assms(1) have row: "length (matrix ! r) = length (matrix ! 0)" "\<forall>x\<in>set (matrix ! r). \<not> is_nan x \<and> \<not> is_inf x"
    unfolding lap_valid_ok by blast+
  then have "matrix ! r ! c \<in> set (matrix ! r)" using assms(3) by simp
  with row(2) have "\<not> is_nan (matrix ! r ! c) \<and> \<not> is_inf (matrix ! r ! c)" by blast
  then show ?thesis by (cases "matrix ! r ! c") auto
qed

lemma SolveLAP_run:
  fixes matrix :: "0 fl list list"
  assumes valid: "lap_valid matrix = Inr ()"
  shows "\<exists>a M. SolveLAP matrix maximize allowNegative = Some (Inr a) \<and> lap_result matrix maximize allowNegative a M"
proof -
  let ?rows = "length matrix" and ?cols = "length (matrix ! 0)"
  let ?tr = "?rows > ?cols"
  let ?n = "if ?tr then ?cols else ?rows" and ?m = "if ?tr then ?rows else ?cols"
  let ?C = "lap_C matrix maximize ?tr"
  let ?sg = "\<lambda>x :: 0 fl. if maximize then - x else x"
  note fin = lap_valid_fin [OF valid]
  have nm: "?n \<le> ?m" by auto
  have cost: "cost_is (lap_cost matrix maximize ?tr ?n ?m) ?C ?n ?m"
    by (rule lap_cost_is [OF fin]) auto
  obtain s where s: "lap_rows (lap_cost matrix maximize ?tr ?n ?m) ?m [1..<?n+1] (lap_init ?n ?m) = Some s"
    and inv: "lap_inv ?C ?n ?m ?n s"
    using lap_rows_ok [OF cost nm(1) lap_init_inv] by auto
  let ?P = "lap_pairs ?m s"
  let ?M = "orient ?tr ` ?P"
  note P = lap_pairs_ok [OF inv]
  have M: "is_matching ?rows ?cols ?M" "card ?M = card ?P"
    and wM: "lap_sgn maximize * weight_of matrix ?M = (\<Sum>(i, j)\<in>?P. ?C i j)"
    using orient_matching [of ?P ?n ?m ?tr ?cols ?rows maximize matrix] P by blast+
  obtain R K where RK: "fold (extract_col ?tr ?n (lp s)) [1..<?m+1] (replicate ?rows (- 1), replicate ?cols (- 1)) = (R, K)"
    by fastforce
  have "holds_rows ?m ?n (lp s) {1..?m}" using inv unfolding lap_inv_def by blast
  from extract_mirror [OF this refl refl refl RK] have cM: "complete_matching ?rows ?cols ?M"
    and mir: "mirror ?rows ?cols ?M R K" by blast+
  have opt: "lap_sgn maximize * weight_of matrix ?M \<le> lap_sgn maximize * weight_of matrix N"
    if N: "complete_matching ?rows ?cols N" for N
  proof -
    have N': "is_matching ?rows ?cols N" "card N = ?n" using N unfolding complete_matching_def by auto
    obtain Q where Q: "Q \<subseteq> {1..?n} \<times> {1..?m}" "inj_on fst Q" "inj_on snd Q" "N = orient ?tr ` Q" "card Q = card N"
      using orient_surj [OF N'(1) refl refl] by blast
    have wN: "lap_sgn maximize * weight_of matrix N = (\<Sum>(i, j)\<in>Q. ?C i j)"
      using orient_matching [OF Q(1-3), of ?tr ?cols ?rows maximize matrix] Q(4) by blast
    have "card Q = ?n" using Q(5) N'(2) by simp
    from lap_certificate [OF inv Q(1-3) this] wM wN show ?thesis by simp
  qed
  obtain R' K' tot cnt where
    pr: "fold (prune_row matrix maximize allowNegative) [0..<?rows] (R, K, 0, 0) = (R', K', tot, cnt)"
    by (metis prod_cases4)
  have all: "{q \<in> ?M. fst q < ?rows \<and> keeps matrix maximize allowNegative q} = {q \<in> ?M. keeps matrix maximize allowNegative q}"
    using M(1) unfolding is_matching_def by fastforce
  note fold = prune_rows [OF M(1) mir pr] prune_total [OF M(1) mir fin pr le_refl, unfolded all]
  let ?us = "map ?sg (tl (lu s))" and ?vs = "map ?sg (tl (lv s))"
  let ?a = "\<lparr>RowToCol = R', ColToRow = K', TotalWeight = tot, MatchCount = cnt,
     RowDuals = (if \<not> ?tr then ?us else ?vs), ColDuals = (if \<not> ?tr then ?vs else ?us)\<rparr>"
  have run: "SolveLAP matrix maximize allowNegative = Some (Inr ?a)"
    unfolding SolveLAP_def valid Let_def using s RK pr by (simp del: upt_Suc fold_simps)
  have shape: "length (lu s) = ?n + 1" "length (lv s) = ?m + 1" and fs: "fin_state ?n ?m s"
    using inv unfolding lap_inv_def lap_shape_def by blast+
  have lens: "length (RowDuals ?a) = ?rows" "length (ColDuals ?a) = ?cols" using shape by auto
  have duals: "\<exists>x y. RowDuals ?a ! r = Fin x \<and> ColDuals ?a ! c = Fin y \<and>
       lap_sgn maximize * (x + y) \<le> lap_sgn maximize * fin_val (matrix ! r ! c) \<and>
       ((r, c) \<in> ?M \<longrightarrow> x + y = fin_val (matrix ! r ! c))" if rc: "r < ?rows" "c < ?cols" for r c
  proof -
    define i j where "i = (if ?tr then c + 1 else r + 1)" and "j = (if ?tr then r + 1 else c + 1)"
    have ij: "i \<in> {1..?n}" "j \<in> {1..?m}" and o: "orient ?tr (i, j) = (r, c)"
      using rc by (auto simp: i_def j_def orient_def)
    obtain u v where uv: "lu s ! i = Fin u" "lv s ! j = Fin v"
      using fs ij unfolding fin_state_def is_fin_iff by (meson atLeastAtMost_iff)
    have usi: "?us ! (i - 1) = Fin (lap_sgn maximize * u)" "?vs ! (j - 1) = Fin (lap_sgn maximize * v)"
      using uv ij shape by (auto simp: nth_tl lap_sgn_def)
    have C: "?C i j = lap_sgn maximize * fin_val (matrix ! r ! c)" by (simp add: lap_C_def o)
    have "0 \<le> rc ?C s i j" using inv ij unfolding lap_inv_def duals_ok_def by blast
    then have le: "u + v \<le> lap_sgn maximize * fin_val (matrix ! r ! c)"
      using uv by (simp add: rc_def uval_def vval_def C)
    have tight: "u + v = lap_sgn maximize * fin_val (matrix ! r ! c)" if "(r, c) \<in> ?M"
    proof -
      from that obtain q where q: "(r, c) = orient ?tr q" "q \<in> ?P" by (rule imageE)
      have "q \<in> {1..} \<times> {1..}" "(i, j) \<in> {1..} \<times> {1..}" using q(2) P ij by auto
      with inj_onD [OF orient_inj [of ?tr], of q "(i, j)"] have "q = (i, j)" using q(1) o by simp
      then have "lp s ! j = i" "lp s ! j \<noteq> 0" using q(2) ij unfolding lap_pairs_def by auto
      then have "rc ?C s i j = 0" using inv ij unfolding lap_inv_def duals_ok_def by blast
      then show ?thesis using uv by (simp add: rc_def uval_def vval_def C)
    qed
    have sq: "lap_sgn maximize * (lap_sgn maximize * z) = z" for z by (simp add: lap_sgn_def)
    let ?x = "lap_sgn maximize * (if ?tr then v else u)" and ?y = "lap_sgn maximize * (if ?tr then u else v)"
    have "RowDuals ?a ! r = Fin ?x" "ColDuals ?a ! c = Fin ?y"
      using usi by (auto simp: i_def j_def)
    moreover have "lap_sgn maximize * (?x + ?y) = u + v" by (simp add: distrib_left [symmetric] sq add.commute)
    moreover have "(r, c) \<in> ?M \<longrightarrow> ?x + ?y = fin_val (matrix ! r ! c)"
      using tight by (auto simp: distrib_left [symmetric] sq add.commute)
    ultimately show ?thesis using le by (intro exI [of _ ?x] exI [of _ ?y]) simp
  qed
  have "lap_result matrix maximize allowNegative ?a ?M"
    unfolding lap_result_def Let_def using cM opt fold lens duals by simp
  with run show ?thesis by blast
qed

section \<open>What SolveLAP promises\<close>

lemma lap_result_pairs:
  assumes "lap_result matrix maximize allowNegative a M"
  shows "assigned_pairs a = {q \<in> M. keeps matrix maximize allowNegative q} \<and>
    is_matching (length matrix) (length (matrix ! 0)) (assigned_pairs a) \<and>
    length (RowToCol a) = length matrix \<and> length (ColToRow a) = length (matrix ! 0) \<and>
    (\<forall>(r, c)\<in>assigned_pairs a. RowToCol a ! r = int c \<and> ColToRow a ! c = int r) \<and>
    TotalWeight a = Fin (weight_of matrix (assigned_pairs a)) \<and> MatchCount a = card (assigned_pairs a)"
proof -
  let ?K = "{q \<in> M. keeps matrix maximize allowNegative q}"
  have M: "is_matching (length matrix) (length (matrix ! 0)) M"
    and mir: "mirror (length matrix) (length (matrix ! 0)) ?K (RowToCol a) (ColToRow a)"
    and w: "TotalWeight a = Fin (weight_of matrix ?K)" "MatchCount a = card ?K"
    using assms unfolding lap_result_def Let_def complete_matching_def by blast+
  have K: "is_matching (length matrix) (length (matrix ! 0)) ?K"
    using M unfolding is_matching_def by (auto intro: inj_on_subset)
  have len: "length (RowToCol a) = length matrix" "length (ColToRow a) = length (matrix ! 0)"
    using mir unfolding mirror_def by blast+
  have eq: "assigned_pairs a = ?K"
    unfolding assigned_pairs_def len using mirror_pairs(1) [OF mir K] by simp
  have "\<forall>(r, c)\<in>?K. RowToCol a ! r = int c \<and> ColToRow a ! c = int r"
    using mirror_pairs(2) [OF mir K] by blast
  with w K len show ?thesis unfolding eq by blast
qed

text \<open>
  Property C14. In exact arithmetic \<open>SolveLAP\<close> without pruning terminates on every valid matrix and
  returns a complete assignment (every row or every column, whichever are fewer, is matched) whose
  total weight no complete assignment beats: it is the maximum when maximizing, else the minimum.
\<close>

theorem SolveLAP_optimal:
  fixes matrix :: "0 fl list list"
  assumes "lap_valid matrix = Inr ()" and "allowNegative \<or> \<not> maximize"
  shows "\<exists>a. SolveLAP matrix maximize allowNegative = Some (Inr a) \<and>
    complete_matching (length matrix) (length (matrix ! 0)) (assigned_pairs a) \<and>
    TotalWeight a = Fin (weight_of matrix (assigned_pairs a)) \<and>
    (\<forall>N. complete_matching (length matrix) (length (matrix ! 0)) N \<longrightarrow>
       (if maximize then weight_of matrix N \<le> weight_of matrix (assigned_pairs a)
        else weight_of matrix (assigned_pairs a) \<le> weight_of matrix N))"
proof -
  obtain a M where a: "SolveLAP matrix maximize allowNegative = Some (Inr a)"
    and r: "lap_result matrix maximize allowNegative a M" using SolveLAP_run [OF assms(1)] by blast
  have "{q \<in> M. keeps matrix maximize allowNegative q} = M" using assms(2) by (auto simp: keeps_def)
  with lap_result_pairs [OF r] have M: "assigned_pairs a = M" and w: "TotalWeight a = Fin (weight_of matrix (assigned_pairs a))"
    by auto
  have "complete_matching (length matrix) (length (matrix ! 0)) M"
    and "\<And>N. complete_matching (length matrix) (length (matrix ! 0)) N \<Longrightarrow>
      lap_sgn maximize * weight_of matrix M \<le> lap_sgn maximize * weight_of matrix N"
    using r unfolding lap_result_def Let_def by blast+
  with a w show ?thesis by (intro exI [of _ a]) (auto simp: M lap_sgn_def split: if_splits)
qed

definition demo_matrix :: "0 fl list list" where
  "demo_matrix = [[Fin 4, Fin 1, Fin 3], [Fin 2, Fin 0, Fin 5]]"

lemma SolveLAP_optimal_witness:
  "\<exists>a. SolveLAP demo_matrix False True = Some (Inr a) \<and>
    complete_matching (length demo_matrix) (length (demo_matrix ! 0)) (assigned_pairs a)"
  using SolveLAP_optimal [of demo_matrix True False] by (simp add: demo_matrix_def lap_valid_def) blast

text \<open>
  With pruning (\<open>maximize\<close> and not \<open>allowNegative\<close>) the result of \<open>SolveLAP\<close> in exact
  arithmetic is a matching without negative pair, the two index arrays mirror each other, the count
  and the total are those of the matching, and the total is at least that of every complete assignment.
\<close>

theorem SolveLAP_pruned:
  fixes matrix :: "0 fl list list"
  assumes "lap_valid matrix = Inr ()"
  shows "\<exists>a. SolveLAP matrix True False = Some (Inr a) \<and>
    is_matching (length matrix) (length (matrix ! 0)) (assigned_pairs a) \<and>
    (\<forall>(r, c)\<in>assigned_pairs a. RowToCol a ! r = int c \<and> ColToRow a ! c = int r \<and> \<not> matrix ! r ! c < 0) \<and>
    MatchCount a = card (assigned_pairs a) \<and> TotalWeight a = Fin (weight_of matrix (assigned_pairs a)) \<and>
    (\<forall>N. complete_matching (length matrix) (length (matrix ! 0)) N \<longrightarrow>
       weight_of matrix N \<le> weight_of matrix (assigned_pairs a))"
proof -
  obtain a M where a: "SolveLAP matrix True False = Some (Inr a)"
    and r: "lap_result matrix True False a M" using SolveLAP_run [OF assms] by blast
  note R = lap_result_pairs [OF r]
  have M: "complete_matching (length matrix) (length (matrix ! 0)) M"
    and opt: "\<And>N. complete_matching (length matrix) (length (matrix ! 0)) N \<Longrightarrow> weight_of matrix N \<le> weight_of matrix M"
    using r unfolding lap_result_def Let_def by (auto simp: lap_sgn_def)
  have keep: "\<forall>(r, c)\<in>assigned_pairs a. \<not> matrix ! r ! c < 0" using R by (auto simp: keeps_def)
  have "weight_of matrix M \<le> weight_of matrix {q \<in> M. keeps matrix True False q}"
  proof -
    have fin: "finite M" using M is_matching_finite unfolding complete_matching_def by blast
    have neg: "fin_val (matrix ! r ! c) \<le> 0" if "matrix ! r ! c < 0" for r c
      using that by (cases "matrix ! r ! c") (auto simp: zero_fl_def)
    have split: "weight_of matrix M = weight_of matrix {q \<in> M. keeps matrix True False q} +
        weight_of matrix {q \<in> M. \<not> keeps matrix True False q}"
      unfolding weight_of_def
      by (subst sum.union_disjoint [symmetric]) (use fin in \<open>auto intro: arg_cong2 [where f = sum]\<close>)
    have "weight_of matrix {q \<in> M. \<not> keeps matrix True False q} \<le> 0"
      unfolding weight_of_def by (rule sum_nonpos) (use neg in \<open>auto simp: keeps_def\<close>)
    with split show ?thesis by simp
  qed
  moreover have "assigned_pairs a = {q \<in> M. keeps matrix True False q}" using R by blast
  ultimately have "\<forall>N. complete_matching (length matrix) (length (matrix ! 0)) N \<longrightarrow>
       weight_of matrix N \<le> weight_of matrix (assigned_pairs a)" using opt by fastforce
  with a R keep show ?thesis by blast
qed

lemma SolveLAP_pruned_witness: "\<exists>a. SolveLAP demo_matrix True False = Some (Inr a)"
proof -
  have "lap_valid demo_matrix = Inr ()" by (simp add: demo_matrix_def lap_valid_def)
  from SolveLAP_pruned [OF this] show ?thesis by blast
qed

text \<open>
  The returned potentials are an optimal dual solution (exact arithmetic): the sum of the
  potentials of a row and a column bounds the weight of the pair from above when maximizing, from
  below when minimizing, and is the weight itself on every assigned pair.
\<close>

theorem SolveLAP_duals:
  fixes matrix :: "0 fl list list"
  assumes "lap_valid matrix = Inr ()"
  shows "\<exists>a. SolveLAP matrix maximize allowNegative = Some (Inr a) \<and>
    (\<forall>r<length matrix. \<forall>c<length (matrix ! 0). \<exists>x y. RowDuals a ! r = Fin x \<and> ColDuals a ! c = Fin y \<and>
       (if maximize then fin_val (matrix ! r ! c) \<le> x + y else x + y \<le> fin_val (matrix ! r ! c)) \<and>
       (RowToCol a ! r = int c \<longrightarrow> x + y = fin_val (matrix ! r ! c)))"
proof -
  obtain a M where a: "SolveLAP matrix maximize allowNegative = Some (Inr a)"
    and r: "lap_result matrix maximize allowNegative a M" using SolveLAP_run [OF assms] by blast
  note R = lap_result_pairs [OF r]
  have "\<exists>x y. RowDuals a ! r = Fin x \<and> ColDuals a ! c = Fin y \<and>
       (if maximize then fin_val (matrix ! r ! c) \<le> x + y else x + y \<le> fin_val (matrix ! r ! c)) \<and>
       (RowToCol a ! r = int c \<longrightarrow> x + y = fin_val (matrix ! r ! c))"
    if rc: "r < length matrix" "c < length (matrix ! 0)" for r c
  proof -
    obtain x y where xy: "RowDuals a ! r = Fin x" "ColDuals a ! c = Fin y"
      "lap_sgn maximize * (x + y) \<le> lap_sgn maximize * fin_val (matrix ! r ! c)"
      "(r, c) \<in> M \<longrightarrow> x + y = fin_val (matrix ! r ! c)"
      using r rc unfolding lap_result_def Let_def by blast
    have "(r, c) \<in> M" if "RowToCol a ! r = int c"
    proof -
      have "r < length (RowToCol a)" using R rc by simp
      then have "(r, c) \<in> assigned_pairs a" using that unfolding assigned_pairs_def by auto
      with R show ?thesis by blast
    qed
    with xy show ?thesis
      by (intro exI [of _ x] exI [of _ y]) (auto simp: lap_sgn_def)
  qed
  with a show ?thesis by blast
qed

lemma SolveLAP_duals_witness:
  "\<exists>a x y. SolveLAP demo_matrix True True = Some (Inr a) \<and> RowDuals a ! 0 = Fin x \<and> ColDuals a ! 2 = Fin y \<and> 3 \<le> x + y"
proof -
  have v: "lap_valid demo_matrix = Inr ()" and n: "0 < length demo_matrix" "2 < length (demo_matrix ! 0)"
    "fin_val (demo_matrix ! 0 ! 2) = 3"
    by (simp_all add: demo_matrix_def lap_valid_def)
  from SolveLAP_duals [OF v, of True True] n show ?thesis by fastforce
qed

text \<open>
  At every precision, \<open>SolveLAP\<close> fails exactly on an empty matrix, a matrix without
  columns, a ragged matrix or an entry that is not finite, and fails immediately (it never diverges
  on them).
\<close>

theorem SolveLAP_error_iff:
  fixes matrix :: "'p::len0 fl list list"
  shows "(\<exists>e. SolveLAP matrix maximize allowNegative = Some (Inl e)) \<longleftrightarrow>
    matrix = [] \<or> matrix ! 0 = [] \<or>
    (\<exists>row\<in>set matrix. length row \<noteq> length (matrix ! 0) \<or> (\<exists>x\<in>set row. is_nan x \<or> is_inf x))"
proof -
  have "(\<exists>e. SolveLAP matrix maximize allowNegative = Some (Inl e)) \<longleftrightarrow> lap_valid matrix \<noteq> Inr ()"
  proof (cases "lap_valid matrix")
    case (Inr u)
    then show ?thesis
      unfolding SolveLAP_def by (auto simp: Let_def split: option.splits prod.splits)
  qed (simp add: SolveLAP_def)
  then show ?thesis unfolding lap_valid_ok by auto
qed

lemma SolveLAP_error_iff_witness: "\<exists>e. SolveLAP [[Fin 1], [NaN :: f64]] True True = Some (Inl e)"
  by (subst SolveLAP_error_iff) simp

lemma SolveLAP_empty [simp]: "SolveLAP [] maximize allowNegative = Some (Inl ErrLAPEmptyMatrix)"
  by (simp add: SolveLAP_def lap_valid_def)

text \<open>
  The pruning happens after the complete assignment was chosen, so with pruning the total need not be
  the best over all partial matchings: here the solver keeps the pairs worth 1 and 1 although the
  single pair \<open>(0, 0)\<close> is worth 10.
\<close>

definition prune_gap_matrix :: "0 fl list list" where
  "prune_gap_matrix = [[Fin 10, Fin 1], [Fin 1, Fin (- 9)]]"

lemma SolveLAP_prune_gap:
  "(case SolveLAP prune_gap_matrix True False of
      Some (Inr a) \<Rightarrow> TotalWeight a = Fin 2 \<and> RowToCol a = [1, 0] | _ \<Rightarrow> False) \<and>
   is_matching 2 2 {(0, 0)} \<and> weight_of prune_gap_matrix {(0, 0)} = 10"
proof
  show "case SolveLAP prune_gap_matrix True False of
      Some (Inr a) \<Rightarrow> TotalWeight a = Fin 2 \<and> RowToCol a = [1, 0] | _ \<Rightarrow> False"
    by code_simp
qed (simp add: is_matching_def weight_of_def prune_gap_matrix_def)

end
