(* ===== verification/Lap_Float.thy ===== *)
theory Lap_Float
  imports Lap_Solve
begin

text \<open>
  What the assignment solver guarantees at every precision, rounding and overflow included: whenever it
  returns, its result is a matching. The potentials play no role: the invariant \<open>search_str\<close> only says
  that the predecessors of the used columns lead back to column 0 (\<open>minv_str\<close>: a distance that can be
  selected was written during this search).
\<close>

section \<open>The structure of the search\<close>

definition minv_str :: "nat \<Rightarrow> nat set \<Rightarrow> 'p::len0 lap_state \<Rightarrow> bool" where
  "minv_str m S s \<longleftrightarrow> (\<forall>j\<in>{1..m} - S. lminv s ! j = PInf \<or> is_nan (lminv s ! j) \<or> lway s ! j \<in> S)"

definition link_ok :: "nat list \<Rightarrow> nat list \<Rightarrow> bool" where
  "link_ok way ord \<longleftrightarrow> (\<forall>k<length ord. if k = 0 then ord ! k = 0 else way ! (ord ! k) \<in> set (take k ord))"

definition search_str :: "nat \<Rightarrow> nat \<Rightarrow> nat \<Rightarrow> nat list \<Rightarrow> nat \<Rightarrow> 'p::len0 lap_state \<Rightarrow> bool" where
  "search_str n m i ord j0 s \<longleftrightarrow>
     lap_shape n m s \<and> 1 \<le> i \<and> i \<le> n \<and> (\<forall>j\<le>m. lused s ! j = (j \<in> set ord)) \<and> distinct ord \<and>
     set ord \<subseteq> {0..m} \<and> j0 \<le> m \<and> (ord = [] \<longrightarrow> j0 = 0) \<and> lp s ! 0 = i \<and> holds_rows m i (lp s) {0..m} \<and>
     (\<forall>j\<in>set ord. lp s ! j \<noteq> 0) \<and> link_ok (lway s) ord \<and>
     (j0 \<noteq> 0 \<longrightarrow> j0 \<notin> set ord \<and> lway s ! j0 \<in> set ord) \<and> minv_str m (set ord) s"

lemma PInf_minus: "(PInf :: 'p::len0 fl) - x = PInf \<or> is_nan ((PInf :: 'p fl) - x)"
  by (cases x) (auto simp: minus_fl_def)

lemma nan_minus: "is_nan x \<Longrightarrow> is_nan (x - y :: 'p::len0 fl)"
  by (cases x; cases y) (auto simp: minus_fl_def)

lemma link_ok_snoc:
  assumes "link_ok way ord" and "ord = [] \<longrightarrow> j = 0" and "ord \<noteq> [] \<longrightarrow> way ! j \<in> set ord"
  shows "link_ok way (ord @ [j])"
  unfolding link_ok_def
proof (intro allI impI)
  fix k assume k: "k < length (ord @ [j])"
  show "if k = 0 then (ord @ [j]) ! k = 0 else way ! ((ord @ [j]) ! k) \<in> set (take k (ord @ [j]))"
  proof (cases "k < length ord")
    case True
    then have "ord \<noteq> []" by auto
    with True assms(1) show ?thesis unfolding link_ok_def by (simp add: nth_append)
  next
    case False
    with k have "k = length ord" by simp
    with assms(2,3) show ?thesis by (cases ord) auto
  qed
qed

lemma search_step_str:
  fixes cost :: "'p::len0 fl list list"
  assumes inv: "search_str n m i ord j0 s" and p0: "lp s ! j0 \<noteq> 0" and step: "search_step cost m j0 s = (j1, s')"
  shows "\<exists>ord'. search_str n m i ord' j1 s' \<and> ord' \<noteq> [] \<and> lp s' = lp s"
proof -
  note I = inv [unfolded search_str_def]
  let ?S = "insert j0 (set ord)"
  let ?s1 = "s\<lparr>lused := (lused s)[j0 := True]\<rparr>"
  obtain t delta k where scan: "fold (scan_col cost (lp s ! j0) j0) [1..<m+1] (?s1, PInf, 0) = (t, delta, k)"
    by (metis prod_cases3)
  have s': "s' = fold (shift_col delta) [0..<m+1] t" "k = j1"
    using step scan by (simp_all add: search_step_def Let_def del: upt_Suc)
  have shape: "lap_shape n m s" "lap_shape n m ?s1" using I by (auto simp: lap_shape_def)
  have j0m: "j0 \<le> m" and Sm: "?S \<subseteq> {0..m}" using I by auto
  have used: "lused ?s1 ! j = (j \<in> ?S)" if "j \<le> m" for j
    using I that j0m by (auto simp: lap_shape_def nth_list_update)
  have "\<forall>j\<in>set [1..<m+1]. j \<le> m" by auto
  note sc = scan_fold [OF scan distinct_upt shape(2) this]
  have tf: "lap_shape n m t" "lp t = lp s" "lused t = lused ?s1" using sc by auto
  have sc_way: "\<forall>j\<le>m. lway t ! j = (if j \<in> set [1..<m+1] \<and> \<not> lused ?s1 ! j \<and> red cost ?s1 (lp s ! j0) j < lminv ?s1 ! j
       then j0 else lway ?s1 ! j)"
    and sc_min: "\<forall>j\<le>m. lminv t ! j = (if j \<in> set [1..<m+1] \<and> \<not> lused ?s1 ! j \<and> red cost ?s1 (lp s ! j0) j < lminv ?s1 ! j
       then red cost ?s1 (lp s ! j0) j else lminv ?s1 ! j)"
    and sc_delta: "delta = PInf \<and> k = 0 \<or> k \<in> set [1..<m+1] \<and> \<not> lused ?s1 ! k \<and> delta = lminv t ! k \<and> delta < PInf"
    using sc by blast+
  have pS: "\<And>j. j \<in> ?S \<Longrightarrow> lp s ! j \<noteq> 0" using I p0 by auto
  have holds: "holds_rows m i (lp s) {0..m}" using I by blast
  have inj: "x = y" if "x \<le> m" "y \<le> m" "lp s ! x = lp s ! y" "lp s ! x \<noteq> 0" for x y
    using holds that unfolding holds_rows_def inj_on_def by simp
  have pr: "lp s ! j \<in> {1..i}" if "j \<le> m" "lp s ! j \<noteq> 0" for j
    using holds that unfolding holds_rows_def by force
  have sets: "{j \<in> set [0..<m+1]. lused t ! j} = ?S" using Sm used by (auto simp: tf(3) less_Suc_eq_le subset_iff)
  have h1: "\<forall>j\<in>set [0..<m+1]. lused t ! j \<longrightarrow> lp t ! j \<le> n"
  proof (intro ballI impI)
    fix j assume "j \<in> set [0..<m+1]" "lused t ! j"
    then have "j \<in> ?S" "j \<le> m" using sets by auto
    then have "lp s ! j \<in> {1..i}" "i \<le> n" using pr pS I by blast+
    then show "lp t ! j \<le> n" using tf(2) by simp
  qed
  have h2: "inj_on ((!) (lp t)) {j \<in> set [0..<m+1]. lused t ! j}"
    unfolding sets tf(2)
  proof (rule inj_onI)
    fix x y assume xy: "x \<in> ?S" "y \<in> ?S" "lp s ! x = lp s ! y"
    then have "x \<le> m" "y \<le> m" using Sm by auto
    then show "x = y" using inj xy(3) pS [OF xy(1)] by blast
  qed
  have h3: "\<forall>j\<in>set [0..<m+1]. j \<le> m" by auto
  have sf: "lap_shape n m s'" "lp s' = lp s" "lway s' = lway t" "lused s' = lused t"
    "\<forall>j\<le>m. lminv s' ! j = (if j \<in> set [0..<m+1] \<and> \<not> lused t ! j then lminv t ! j - delta else lminv t ! j)"
    using shift_fold [OF distinct_upt tf(1) h3 h1 h2, of delta] unfolding s'(1) tf(2) by blast+
  define ord' where "ord' = (if j0 \<in> set ord then ord else ord @ [j0])"
  have so: "set ord' = ?S" by (auto simp: ord'_def)
  have ne: "ord' \<noteq> []" using so by auto
  have way_old: "lway t ! j = lway s ! j" if "j \<in> ?S" "j \<noteq> 0" for j
  proof -
    have jm: "j \<le> m" using that Sm by auto
    then have "lused ?s1 ! j" using used that by simp
    with sc_way jm show ?thesis by simp
  qed
  have ord0: "ord \<noteq> [] \<Longrightarrow> 0 \<in> set ord" using I unfolding link_ok_def by (metis length_greater_0_conv nth_mem)
  have z: "x \<noteq> 0" if "0 < k" "k < length xs" "x = xs ! k" "distinct xs" "link_ok way xs" for k x and xs way :: "nat list"
  proof
    assume "x = 0"
    moreover have "xs ! 0 = 0" using that unfolding link_ok_def by force
    ultimately show False using that by (metis length_pos_if_in_set nat_neq_iff nth_eq_iff_index_eq nth_mem)
  qed
  have link_old: "link_ok (lway s) ord'"
  proof (cases "j0 \<in> set ord")
    case True
    then show ?thesis using I by (simp add: ord'_def)
  next
    case False
    then have "ord \<noteq> [] \<longrightarrow> j0 \<noteq> 0" using ord0 by metis
    with False I show ?thesis unfolding ord'_def by (auto intro!: link_ok_snoc)
  qed
  have dist: "distinct ord'" using I by (simp add: ord'_def)
  have link: "link_ok (lway t) ord'"
    unfolding link_ok_def
  proof (intro allI impI)
    fix l assume l: "l < length ord'"
    show "if l = 0 then ord' ! l = 0 else lway t ! (ord' ! l) \<in> set (take l ord')"
    proof (cases "l = 0")
      case True
      with link_old l show ?thesis unfolding link_ok_def by auto
    next
      case False
      have "ord' ! l \<noteq> 0" using z [OF _ l refl dist link_old] False by simp
      moreover have "ord' ! l \<in> ?S" using l so by (metis nth_mem)
      ultimately have "lway t ! (ord' ! l) = lway s ! (ord' ! l)" by (rule way_old [rotated])
      with link_old l False show ?thesis unfolding link_ok_def by auto
    qed
  qed
  have mt: "lminv t ! j = PInf \<or> is_nan (lminv t ! j) \<or> lway t ! j \<in> ?S" if "j \<in> {1..m} - ?S" for j
  proof -
    have jm: "j \<le> m" "j \<in> {1..m} - set ord" using that by auto
    then have old: "lminv s ! j = PInf \<or> is_nan (lminv s ! j) \<or> lway s ! j \<in> set ord"
      using I unfolding minv_str_def by blast
    show ?thesis using sc_way [rule_format, OF jm(1)] sc_min [rule_format, OF jm(1)] old by (auto split: if_splits)
  qed
  have ms: "minv_str m ?S s'"
    unfolding minv_str_def
  proof
    fix j assume j: "j \<in> {1..m} - ?S"
    then have "j \<le> m" "\<not> lused t ! j" using used [of j] tf(3) by auto
    then have "lminv s' ! j = lminv t ! j - delta" using sf(5) by auto
    with mt [OF j] PInf_minus [of delta] nan_minus [of "lminv t ! j" delta]
    show "lminv s' ! j = PInf \<or> is_nan (lminv s' ! j) \<or> lway s' ! j \<in> ?S" unfolding sf(3) by auto
  qed
  have leaf: "j1 \<le> m \<and> (j1 \<noteq> 0 \<longrightarrow> j1 \<notin> ?S \<and> lway t ! j1 \<in> ?S)"
    using sc_delta
  proof
    assume "delta = PInf \<and> k = 0"
    then show ?thesis using s'(2) by simp
  next
    assume a: "k \<in> set [1..<m+1] \<and> \<not> lused ?s1 ! k \<and> delta = lminv t ! k \<and> delta < PInf"
    then have "k \<in> {1..m}" by auto
    then have k: "k \<in> {1..m} - ?S" "k \<le> m" using a used [of k] by auto
    have "lminv t ! k \<noteq> PInf" "\<not> is_nan (lminv t ! k)" using a less_fl_not_nan [of delta PInf] by auto
    with mt [OF k(1)] have "lway t ! k \<in> ?S" by blast
    with k s'(2) show ?thesis by auto
  qed
  have u: "\<forall>j\<le>m. lused s' ! j = (j \<in> set ord')" using used so sf(4) tf(3) by simp
  have "search_str n m i ord' j1 s'"
    unfolding search_str_def sf(2,3) using sf(1) I u dist Sm so leaf ne pS link ms holds by simp
  with ne sf(2) show ?thesis by blast
qed

definition search_post :: "nat \<Rightarrow> nat \<Rightarrow> 'p::len0 lap_state \<Rightarrow> nat \<Rightarrow> nat \<times> 'p lap_state \<Rightarrow> nat \<Rightarrow> bool" where
  "search_post n m s j0 r i \<longleftrightarrow> (\<forall>ord. search_str n m i ord j0 s \<longrightarrow> lp s ! j0 \<noteq> 0 \<longrightarrow>
    (\<exists>ord'. search_str n m i ord' (fst r) (snd r) \<and> ord' \<noteq> [] \<and> lp (snd r) ! fst r = 0 \<and> lp (snd r) = lp s))"

lemma lap_search_post:
  fixes cost :: "'p::len0 fl list list"
  assumes "lap_search cost m j0 s = Some r"
  shows "search_post n m s j0 r i"
proof (rule lap_search.raw_induct [where P = "\<lambda>cost m j0 s r. search_post n m s j0 r i", OF _ assms])
  fix lap_search' :: "'p fl list list \<Rightarrow> nat \<Rightarrow> nat \<Rightarrow> 'p lap_state \<Rightarrow> (nat \<times> 'p lap_state) option"
    and cost m j0 s r
  assume IH: "\<And>cost m j0 s r. lap_search' cost m j0 s = Some r \<Longrightarrow> search_post n m s j0 r i"
    and eq: "(case search_step cost m j0 s of
        (j1, s') \<Rightarrow> if lp s' ! j1 = 0 then Some (j1, s') else lap_search' cost m j1 s') = Some r"
  obtain j1 s1 where step: "search_step cost m j0 s = (j1, s1)" by fastforce
  show "search_post n m s j0 r i"
    unfolding search_post_def
  proof (intro allI impI)
    fix ord assume a: "search_str n m i ord j0 s" "lp s ! j0 \<noteq> 0"
    obtain ord' where o: "search_str n m i ord' j1 s1" "ord' \<noteq> []" "lp s1 = lp s"
      using search_step_str [OF a step] by metis
    show "\<exists>ord'. search_str n m i ord' (fst r) (snd r) \<and> ord' \<noteq> [] \<and> lp (snd r) ! fst r = 0 \<and> lp (snd r) = lp s"
    proof (cases "lp s1 ! j1 = 0")
      case True
      with eq step have r: "r = (j1, s1)" by simp
      show ?thesis unfolding r fst_conv snd_conv using o True by (intro exI [of _ ord'] conjI) simp_all
    next
      case False
      with eq step have "lap_search' cost m j1 s1 = Some r" by simp
      from IH [OF this] o(1) False
      obtain o2 where "search_str n m i o2 (fst r) (snd r)" "o2 \<noteq> []" "lp (snd r) ! fst r = 0" "lp (snd r) = lp s1"
        unfolding search_post_def by blast
      then show ?thesis unfolding o(3) [symmetric] by (intro exI [of _ o2] conjI) simp_all
    qed
  qed
qed

section \<open>The rows\<close>

definition rows_str :: "nat \<Rightarrow> nat \<Rightarrow> nat \<Rightarrow> 'p::len0 lap_state \<Rightarrow> bool" where
  "rows_str n m i s \<longleftrightarrow> lap_shape n m s \<and> holds_rows m i (lp s) {1..m}"

lemma lap_row_str:
  fixes cost :: "'p::len0 fl list list"
  assumes inv: "rows_str n m i s" and "Suc i \<le> n" and run: "lap_row cost m (Suc i) s = Some s'"
  shows "rows_str n m (Suc i) s'"
proof -
  let ?s = "s\<lparr>lp := (lp s)[0 := Suc i], lminv := replicate (m + 1) PInf, lused := replicate (m + 1) False\<rparr>"
  note I = inv [unfolded rows_str_def]
  have len: "length (lp s) = m + 1" using I unfolding lap_shape_def by blast
  have rep: "replicate (m + 1) x ! j = x" if "j \<le> m" for x :: "'a" and j
    using that by (simp del: replicate.simps)
  have minv: "minv_str m {} ?s" using rep unfolding minv_str_def by (simp del: replicate.simps)
  have used: "\<forall>j\<le>m. lused ?s ! j = (j \<in> set [])" using rep by (simp del: replicate.simps)
  have shape: "lap_shape n m ?s" using I by (auto simp: lap_shape_def)
  have holds: "holds_rows m (Suc i) (lp ?s) {0..m}" using holds_rows_insert [OF _ len] I by simp
  have l0: "lp ?s ! 0 = Suc i" using len by simp
  have start: "search_str n m (Suc i) [] 0 ?s"
    unfolding search_str_def using shape assms(2) used holds l0 minv by (simp add: link_ok_def)
  have p0: "lp ?s ! 0 \<noteq> 0" using l0 by simp
  from run obtain j1 t where t: "lap_search cost m 0 ?s = Some (j1, t)"
    unfolding lap_row_def Let_def by (auto split: option.splits)
  from lap_search_post [OF t, of n "Suc i", unfolded search_post_def fst_conv snd_conv] start p0
  obtain ord where o: "search_str n m (Suc i) ord j1 t" "ord \<noteq> []" "lp t ! j1 = 0" by blast
  note J = o(1) [unfolded search_str_def]
  have "lp t ! 0 = Suc i" using J by blast
  then have j1: "j1 \<noteq> 0" using o(3) by (metis nat.distinct(1))
  have hole: "{j \<in> {0..m} - {j1}. lp t ! j \<noteq> 0} = {j \<in> {0..m}. lp t ! j \<noteq> 0}" using o(3) by auto
  have ht: "holds_rows m (Suc i) (lp t) {0..m}" using J by blast
  then have h: "holds_rows m (Suc i) (lp t) ({0..m} - {j1})" unfolding holds_rows_def hole .
  have od: "distinct ord" "set ord \<subseteq> {0..m}" "\<forall>x\<in>set ord. lp t ! x \<noteq> 0" "link_ok (lway t) ord"
    "j1 \<in> {1..m}" "j1 \<notin> set ord" "lway t ! j1 \<in> set ord" "length (lp t) = m + 1"
    using J j1 by (auto simp: lap_shape_def)
  have tree: "\<forall>k<length ord. if k = 0 then ord ! k = 0
      else lway t ! (ord ! k) \<in> set (take k ord) \<and> (\<lambda>_ _. 0 :: rat) (lp t ! (lway t ! (ord ! k))) (ord ! k) = 0"
    using od(4) unfolding link_ok_def by simp
  from lap_augment_ok [OF od(1-3) tree le_refl od(8) od(5) _ _ _ _ h] od(6,7)
  obtain p' where p': "lap_augment (lway t) j1 (lp t) = Some p'" "length p' = m + 1" "holds_rows m (Suc i) p' {1..m}"
    by auto
  have "lap_row cost m (Suc i) s = Some (t\<lparr>lp := p'\<rparr>)"
    unfolding lap_row_def Let_def using t p'(1) by simp
  with run have s': "s' = t\<lparr>lp := p'\<rparr>" by simp
  have "lap_shape n m s'" using J p'(2) unfolding s' by (auto simp: lap_shape_def)
  with p'(3) show ?thesis unfolding rows_str_def s' by simp
qed

lemma lap_rows_str:
  fixes cost :: "'p::len0 fl list list"
  assumes "rows_str n m i s" and "i \<le> n" and "lap_rows cost m [Suc i..<n+1] s = Some s'"
  shows "rows_str n m n s'"
  using assms
proof (induction "n - i" arbitrary: i s)
  case 0
  then show ?case by simp
next
  case (Suc d)
  then have "Suc i \<le> n" by simp
  then have "[Suc i..<n+1] = Suc i # [Suc (Suc i)..<n+1]" by (simp add: upt_rec)
  with Suc.prems(3) obtain s1 where s1: "lap_row cost m (Suc i) s = Some s1"
    "lap_rows cost m [Suc (Suc i)..<n+1] s1 = Some s'"
    by (auto split: option.splits)
  show ?case
    by (rule Suc.hyps(1) [OF _ lap_row_str [OF Suc.prems(1) \<open>Suc i \<le> n\<close> s1(1)] \<open>Suc i \<le> n\<close> s1(2)])
      (use Suc.hyps(2) in simp)
qed

section \<open>The result at every precision\<close>

lemma lap_init_str: "rows_str n m 0 (lap_init n m :: 'p::len0 lap_state)"
proof -
  have "lp (lap_init n m :: 'p lap_state) ! j = 0" if "j \<le> m" for j
    using that by (simp add: lap_init_def del: replicate.simps replicate_Suc)
  then have emp: "{j \<in> {1..m}. lp (lap_init n m :: 'p lap_state) ! j \<noteq> 0} = {}" by auto
  have "lap_shape n m (lap_init n m :: 'p lap_state)" by (simp add: lap_shape_def lap_init_def)
  then show ?thesis unfolding rows_str_def holds_rows_def emp by simp
qed

lemma is_matching_sub: "is_matching rows cols M \<Longrightarrow> N \<subseteq> M \<Longrightarrow> is_matching rows cols N"
  unfolding is_matching_def by (meson inj_on_subset subset_trans)

lemma SolveLAP_matching_spec:
  fixes matrix :: "'p::len0 fl list list"
  assumes run: "SolveLAP matrix maximize allowNegative = Some (Inr a)"
  shows "\<exists>M. complete_matching (length matrix) (length (matrix ! 0)) M \<and>
    mirror (length matrix) (length (matrix ! 0)) (assigned_pairs a) (RowToCol a) (ColToRow a) \<and>
    assigned_pairs a = {q \<in> M. keeps matrix maximize allowNegative q} \<and> MatchCount a = card (assigned_pairs a)"
proof -
  let ?rows = "length matrix" and ?cols = "length (matrix ! 0)"
  let ?tr = "?rows > ?cols"
  let ?n = "if ?tr then ?cols else ?rows" and ?m = "if ?tr then ?rows else ?cols"
  from run have valid: "lap_valid matrix = Inr ()"
    unfolding SolveLAP_def by (auto split: sum.splits)
  obtain s where s: "lap_rows (lap_cost matrix maximize ?tr ?n ?m) ?m [1..<?n+1] (lap_init ?n ?m) = Some s"
    using run unfolding SolveLAP_def valid Let_def by (auto simp del: upt_Suc split: option.splits)
  have "rows_str ?n ?m ?n s" by (rule lap_rows_str [OF lap_init_str le0]) (use s in simp)
  then have holds: "holds_rows ?m ?n (lp s) {1..?m}" unfolding rows_str_def by blast
  obtain R K where RK: "fold (extract_col ?tr ?n (lp s)) [1..<?m+1] (replicate ?rows (- 1), replicate ?cols (- 1)) = (R, K)"
    by fastforce
  let ?M = "orient ?tr ` lap_pairs ?m s" and ?P = "keeps matrix maximize allowNegative"
  from extract_mirror [OF holds refl refl refl RK] have cM: "complete_matching ?rows ?cols ?M"
    and mir: "mirror ?rows ?cols ?M R K" by blast+
  have M: "is_matching ?rows ?cols ?M" using cM unfolding complete_matching_def by blast
  obtain R' K' tot cnt where
    pr: "fold (prune_row matrix maximize allowNegative) [0..<?rows] (R, K, 0, 0) = (R', K', tot, cnt)"
    by (metis prod_cases4)
  note fold = prune_rows [OF M mir pr]
  have a: "RowToCol a = R' \<and> ColToRow a = K' \<and> MatchCount a = cnt"
    using run s RK pr unfolding SolveLAP_def valid Let_def by (simp del: upt_Suc fold_simps) auto
  have len: "length R' = ?rows" using fold unfolding mirror_def by blast
  have "is_matching ?rows ?cols {q \<in> ?M. ?P q}"
    by (rule is_matching_sub [OF M]) blast
  with fold have "assigned_pairs a = {q \<in> ?M. ?P q}"
    unfolding assigned_pairs_def using mirror_pairs(1) [of ?rows ?cols "{q \<in> ?M. ?P q}" R' K'] a len by simp
  with cM fold a show ?thesis by (intro exI [of _ ?M]) simp
qed

text \<open>
  Whatever the precision, and with overflow: if \<open>SolveLAP\<close> returns an assignment, the pairs it lists
  are a matching of rows and columns, \<open>RowToCol\<close> and \<open>ColToRow\<close> are inverse to each other,
  \<open>MatchCount\<close> counts them, and unless pruning is in force every row or every column is matched.
\<close>

theorem SolveLAP_matching:
  fixes matrix :: "'p::len0 fl list list"
  assumes "SolveLAP matrix maximize allowNegative = Some (Inr a)"
  shows "is_matching (length matrix) (length (matrix ! 0)) (assigned_pairs a) \<and>
    (\<forall>r c. r < length matrix \<longrightarrow> c < length (matrix ! 0) \<longrightarrow> (RowToCol a ! r = int c) = (ColToRow a ! c = int r)) \<and>
    MatchCount a = card (assigned_pairs a) \<and>
    (allowNegative \<or> \<not> maximize \<longrightarrow> MatchCount a = min (length matrix) (length (matrix ! 0)))"
proof -
  obtain M where M: "complete_matching (length matrix) (length (matrix ! 0)) M"
    and mir: "mirror (length matrix) (length (matrix ! 0)) (assigned_pairs a) (RowToCol a) (ColToRow a)"
    and K: "assigned_pairs a = {q \<in> M. keeps matrix maximize allowNegative q}" and c: "MatchCount a = card (assigned_pairs a)"
    using SolveLAP_matching_spec [OF assms] by blast
  have m: "is_matching (length matrix) (length (matrix ! 0)) (assigned_pairs a)"
    by (rule is_matching_sub) (use M in \<open>auto simp: K complete_matching_def\<close>)
  have all: "assigned_pairs a = M" if "allowNegative \<or> \<not> maximize"
    unfolding K using that by (auto simp: keeps_def)
  have "(RowToCol a ! r = int c) = (ColToRow a ! c = int r)"
    if rc: "r < length matrix" "c < length (matrix ! 0)" for r c
  proof -
    have "(r, c) \<in> assigned_pairs a" if "RowToCol a ! r = int c"
      using mir rc that unfolding mirror_def by force
    moreover have "(r, c) \<in> assigned_pairs a" if "ColToRow a ! c = int r"
      using mir rc that unfolding mirror_def by force
    ultimately show ?thesis using mirror_pairs(2) [OF mir m] by blast
  qed
  with m c M all show ?thesis unfolding complete_matching_def by auto
qed

lemma SolveLAP_matching_witness:
  "\<exists>a. SolveLAP [[Fin 1, Fin 2], [Fin 3, Fin 4 :: f64]] False True = Some (Inr a) \<and> is_matching 2 2 (assigned_pairs a)"
proof -
  have "case SolveLAP [[Fin 1, Fin 2], [Fin 3, Fin 4 :: f64]] False True of Some (Inr _) \<Rightarrow> True | _ \<Rightarrow> False"
    by code_simp
  then obtain a where "SolveLAP [[Fin 1, Fin 2], [Fin 3, Fin 4 :: f64]] False True = Some (Inr a)"
    by (auto split: option.splits sum.splits)
  with conjunct1 [OF SolveLAP_matching [OF this]] show ?thesis by (auto simp: numeral_2_eq_2)
qed

end
