(* ===== verification/Rules.thy ===== *)
theory Rules
  imports Resource
begin

text \<open>
  \<open>internal/domain/rules\<close>: the declarative business rules. \<open>context.go\<close> builds the evaluation context,
  \<open>registry.go\<close> compiles the rules and folds the matching ones into a \<open>RuleEvaluationResult\<close>
  (\<open>types.go\<close>). The CEL library itself is not part of the repository: the record \<open>cel\<close> holds the calls
  the registry makes of it. Logging is not modelled.
\<close>

section \<open>Rules and their result\<close>

type_synonym ModificationTarget = string
type_synonym Operation = string

definition TargetBonus :: ModificationTarget where "TargetBonus = ''bonus''"
definition TargetInfeasible :: ModificationTarget where "TargetInfeasible = ''infeasible''"
definition TargetLoadedRate :: ModificationTarget where "TargetLoadedRate = ''unitCostLoadedRate''"
definition TargetEmptyRate :: ModificationTarget where "TargetEmptyRate = ''unitCostEmptyRate''"
definition TargetEmptyToHome :: ModificationTarget where "TargetEmptyToHome = ''unitCostEmptyToHome''"
definition TargetFixedCost :: ModificationTarget where "TargetFixedCost = ''unitCostFixedPerLoad''"
definition TargetMaxDeadhead :: ModificationTarget where "TargetMaxDeadhead = ''maxEmptyDistance''"

definition OpAdd :: Operation where "OpAdd = ''ADD''"
definition OpMultiply :: Operation where "OpMultiply = ''MULTIPLY''"
definition OpOverride :: Operation where "OpOverride = ''OVERRIDE''"
definition OpBan :: Operation where "OpBan = ''BAN''"

lemmas target_defs = TargetBonus_def TargetInfeasible_def TargetLoadedRate_def TargetEmptyRate_def
  TargetEmptyToHome_def TargetFixedCost_def TargetMaxDeadhead_def

lemmas op_defs = OpAdd_def OpMultiply_def OpOverride_def OpBan_def

record Rule =
  RuleID :: string
  RuleName :: string
  Target :: ModificationTarget
  RuleOperation :: Operation
  ConditionCEL :: string
  ValueCEL :: string
  StaticValue :: f64
  RuleMessage :: string

record RuleEvaluationResult =
  Bonus :: f64
  LoadedRateMultiplier :: f64
  EmptyRateMultiplier :: f64
  EmptyToHomeMultiplier :: f64
  FixedCostMultiplier :: f64
  MaxDeadheadOverride :: f64
  IsInfeasible :: bool
  RInfeasibilityReason :: string
  MatchedRuleIDs :: "string list"

definition NewRuleEvaluationResult :: RuleEvaluationResult where
  "NewRuleEvaluationResult = \<lparr>Bonus = 0, LoadedRateMultiplier = 1, EmptyRateMultiplier = 1,
     EmptyToHomeMultiplier = 1, FixedCostMultiplier = 1, MaxDeadheadOverride = 0, IsInfeasible = False,
     RInfeasibilityReason = '''', MatchedRuleIDs = []\<rparr>"

section \<open>The evaluation context\<close>

text \<open>The dynamic values (\<open>any\<close>) that go into and come out of a CEL program.\<close>

datatype any_val =
    AnyString string
  | AnyFloat f64
  | AnyInt int
  | AnyBool bool
  | AnyStrings "string list"
  | AnyMap "(string \<times> any_val) list"
  | AnyOther

definition driver_map :: "Driver \<Rightarrow> (string \<times> any_val) list" where
  "driver_map driver =
     [(''id'', AnyString (DrvID driver)),
      (''equipment_type'', AnyString (EqType (DrvEquipment driver))),
      (''current_location_id'', AnyString (NodeID (CurrentLocation driver))),
      (''current_lat'', AnyFloat (Lat (CurrentLocation driver))),
      (''current_lon'', AnyFloat (Lon (CurrentLocation driver))),
      (''available_epoch'', AnyInt (AvailableEpoch driver)),
      (''drive_hours_remaining'', AnyFloat (DriveHoursRemaining driver)),
      (''duty_hours_remaining'', AnyFloat (DutyHoursRemaining driver)),
      (''endorsements'', AnyStrings (EqEndorsements (DrvEquipment driver)))]"

definition load_map :: "Load \<Rightarrow> (string \<times> any_val) list" where
  "load_map load =
     [(''id'', AnyString (LdID load)),
      (''origin_id'', AnyString (NodeID (Origin load))),
      (''origin_lat'', AnyFloat (Lat (Origin load))),
      (''origin_lon'', AnyFloat (Lon (Origin load))),
      (''destination_id'', AnyString (NodeID (Destination load))),
      (''destination_lat'', AnyFloat (Lat (Destination load))),
      (''destination_lon'', AnyFloat (Lon (Destination load))),
      (''required_equipment'', AnyString (RequiredEquipment load)),
      (''required_endorsements'', AnyStrings (RequiredEndorsements load)),
      (''revenue'', AnyFloat (Revenue load)),
      (''pickup_earliest_epoch'', AnyInt (PickupEarliestEpoch load)),
      (''pickup_latest_epoch'', AnyInt (PickupLatestEpoch load)),
      (''delivery_earliest_epoch'', AnyInt (DeliveryEarliestEpoch load)),
      (''delivery_latest_epoch'', AnyInt (DeliveryLatestEpoch load))]"

definition BuildEvaluationContext :: "Driver \<Rightarrow> Load \<Rightarrow> f64 \<Rightarrow> f64 \<Rightarrow> (string \<times> any_val) list" where
  "BuildEvaluationContext driver load deadheadMiles loadedMiles =
     [(''driver'', AnyMap (driver_map driver)),
      (''load'', AnyMap (load_map load)),
      (''arc'', AnyMap [(''deadhead_miles'', AnyFloat deadheadMiles), (''loaded_miles'', AnyFloat loadedMiles),
         (''total_miles'', AnyFloat (deadheadMiles + loadedMiles))])]"

section \<open>The registry\<close>

datatype cel_type = BoolType | DoubleType | IntType | DynType | StringType | OtherType

type_synonym cel_program = "(string \<times> any_val) list \<Rightarrow> any_val result"

text \<open>
  The calls of the CEL library, with \<open>'ast\<close> its checked syntax trees: \<open>cel.NewEnv\<close> on the fixed schema,
  \<open>env.Compile\<close>, \<open>ast.OutputType\<close> and \<open>env.Program\<close>.
\<close>

record 'ast cel =
  cel_NewEnv :: "unit result"
  cel_Compile :: "string \<Rightarrow> 'ast result"
  cel_OutputType :: "'ast \<Rightarrow> cel_type"
  cel_Program :: "'ast \<Rightarrow> cel_program result"

record CompiledRule =
  CRule :: Rule
  ConditionProgram :: cel_program
  ValueProgram :: "cel_program option"

definition compile_condition :: "'ast cel \<Rightarrow> Rule \<Rightarrow> cel_program result" where
  "compile_condition env r =
     (case cel_Compile env (ConditionCEL r) of
        Inl e \<Rightarrow> Inl e
      | Inr condAST \<Rightarrow>
          if cel_OutputType env condAST \<noteq> BoolType then Inl (ErrOther ''rules: condition must return bool'')
          else cel_Program env condAST)"

definition compile_value :: "'ast cel \<Rightarrow> Rule \<Rightarrow> cel_program option result" where
  "compile_value env r =
     (if ValueCEL r = '''' then Inr None
      else case cel_Compile env (ValueCEL r) of
        Inl e \<Rightarrow> Inl e
      | Inr valAST \<Rightarrow>
          let outType = cel_OutputType env valAST in
          if outType \<noteq> DoubleType \<and> outType \<noteq> IntType \<and> outType \<noteq> DynType \<and> outType \<noteq> StringType
          then Inl (ErrOther ''rules: value must return numeric or string type'')
          else case cel_Program env valAST of Inl e \<Rightarrow> Inl e | Inr p \<Rightarrow> Inr (Some p))"

fun compile_rules :: "'ast cel \<Rightarrow> Rule list \<Rightarrow> CompiledRule list result" where
  "compile_rules env [] = Inr []"
| "compile_rules env (r # rs) =
     (if ConditionCEL r = '''' then Inl (ErrOther ''rules: rule has empty ConditionCEL'')
      else case compile_condition env r of
        Inl e \<Rightarrow> Inl e
      | Inr condProg \<Rightarrow>
          (case compile_value env r of
             Inl e \<Rightarrow> Inl e
           | Inr valProg \<Rightarrow>
               (case compile_rules env rs of
                  Inl e \<Rightarrow> Inl e
                | Inr crs \<Rightarrow> Inr (\<lparr>CRule = r, ConditionProgram = condProg, ValueProgram = valProg\<rparr> # crs))))"

definition NewRuleRegistry :: "'ast cel \<Rightarrow> Rule list \<Rightarrow> CompiledRule list result" where
  "NewRuleRegistry env rules =
     (case cel_NewEnv env of Inl e \<Rightarrow> Inl e | Inr _ \<Rightarrow> compile_rules env rules)"

definition RuleCount :: "CompiledRule list option \<Rightarrow> nat" where
  "RuleCount reg = (case reg of None \<Rightarrow> 0 | Some rules \<Rightarrow> length rules)"

section \<open>Evaluation\<close>

text \<open>The value of a matched rule.\<close>

definition rule_value :: "(string \<times> any_val) list \<Rightarrow> CompiledRule \<Rightarrow> f64 result" where
  "rule_value ctx cr =
     (case ValueProgram cr of
        None \<Rightarrow> Inr (StaticValue (CRule cr))
      | Some p \<Rightarrow>
          (case p ctx of
             Inl e \<Rightarrow> Inl e
           | Inr (AnyFloat v) \<Rightarrow> Inr v
           | Inr (AnyInt v) \<Rightarrow> Inr (of_int_fl v)
           | Inr _ \<Rightarrow> Inl (ErrOther ''rules: value evaluated to unsupported type'')))"

text \<open>The switch over target and operation, and the handling of \<open>OpBan\<close> after it.\<close>

definition apply_target :: "Rule \<Rightarrow> f64 \<Rightarrow> RuleEvaluationResult \<Rightarrow> RuleEvaluationResult" where
  "apply_target r numVal res =
     (if Target r = TargetBonus then
        (if RuleOperation r = OpAdd then res\<lparr>Bonus := Bonus res + numVal\<rparr>
         else if RuleOperation r = OpOverride then res\<lparr>Bonus := numVal\<rparr> else res)
      else if Target r = TargetInfeasible then
        res\<lparr>IsInfeasible := True,
            RInfeasibilityReason := (if RuleMessage r \<noteq> '''' then RuleMessage r else ''infeasible by rule '' @ RuleID r)\<rparr>
      else if Target r = TargetLoadedRate then
        (if RuleOperation r = OpMultiply then res\<lparr>LoadedRateMultiplier := LoadedRateMultiplier res * numVal\<rparr>
         else if RuleOperation r = OpOverride then res\<lparr>LoadedRateMultiplier := numVal\<rparr> else res)
      else if Target r = TargetEmptyRate then
        (if RuleOperation r = OpMultiply then res\<lparr>EmptyRateMultiplier := EmptyRateMultiplier res * numVal\<rparr>
         else if RuleOperation r = OpOverride then res\<lparr>EmptyRateMultiplier := numVal\<rparr> else res)
      else if Target r = TargetEmptyToHome then
        (if RuleOperation r = OpMultiply then res\<lparr>EmptyToHomeMultiplier := EmptyToHomeMultiplier res * numVal\<rparr>
         else if RuleOperation r = OpOverride then res\<lparr>EmptyToHomeMultiplier := numVal\<rparr> else res)
      else if Target r = TargetFixedCost then
        (if RuleOperation r = OpMultiply then res\<lparr>FixedCostMultiplier := FixedCostMultiplier res * numVal\<rparr>
         else if RuleOperation r = OpOverride then res\<lparr>FixedCostMultiplier := numVal\<rparr> else res)
      else if Target r = TargetMaxDeadhead then
        (if numVal > 0 then res\<lparr>MaxDeadheadOverride := numVal\<rparr> else res)
      else res)"

definition apply_ban :: "Rule \<Rightarrow> RuleEvaluationResult \<Rightarrow> RuleEvaluationResult" where
  "apply_ban r res =
     (if RuleOperation r = OpBan then
        res\<lparr>IsInfeasible := True,
            RInfeasibilityReason :=
              (if RInfeasibilityReason res = '''' then ''banned by rule '' @ RuleID r else RInfeasibilityReason res)\<rparr>
      else res)"

fun eval_rules ::
  "(string \<times> any_val) list \<Rightarrow> CompiledRule list \<Rightarrow> RuleEvaluationResult \<Rightarrow> RuleEvaluationResult result" where
  "eval_rules ctx [] res = Inr res"
| "eval_rules ctx (cr # crs) res =
     (case ConditionProgram cr ctx of
        Inl e \<Rightarrow> Inl e
      | Inr (AnyBool matched) \<Rightarrow>
          if \<not> matched then eval_rules ctx crs res
          else (case rule_value ctx cr of
             Inl e \<Rightarrow> Inl e
           | Inr numVal \<Rightarrow>
               eval_rules ctx crs (apply_ban (CRule cr) (apply_target (CRule cr) numVal
                 (res\<lparr>MatchedRuleIDs := MatchedRuleIDs res @ [RuleID (CRule cr)]\<rparr>))))
      | Inr _ \<Rightarrow> Inl (ErrOther ''rules: condition did not evaluate to boolean''))"

text \<open>A nil or empty registry returns the identity result.\<close>

definition Rules_Evaluate ::
  "CompiledRule list option \<Rightarrow> (string \<times> any_val) list \<Rightarrow> RuleEvaluationResult result" where
  "Rules_Evaluate reg ctx =
     (case reg of
        None \<Rightarrow> Inr NewRuleEvaluationResult
      | Some rules \<Rightarrow> eval_rules ctx rules NewRuleEvaluationResult)"

section \<open>What an evaluation reports\<close>

definition rule_matches :: "(string \<times> any_val) list \<Rightarrow> CompiledRule \<Rightarrow> bool" where
  "rule_matches ctx cr \<longleftrightarrow> ConditionProgram cr ctx = Inr (AnyBool True)"

definition bans :: "Rule \<Rightarrow> bool" where
  "bans r \<longleftrightarrow> Target r = TargetInfeasible \<or> RuleOperation r = OpBan"

lemma apply_target_frame [simp]: "MatchedRuleIDs (apply_target r v res) = MatchedRuleIDs res"
  by (simp add: apply_target_def if_distrib [of MatchedRuleIDs])

lemma apply_ban_frame [simp]: "MatchedRuleIDs (apply_ban r res) = MatchedRuleIDs res"
  by (simp add: apply_ban_def)

lemma apply_target_infeasible: "IsInfeasible (apply_target r v res) \<longleftrightarrow> IsInfeasible res \<or> Target r = TargetInfeasible"
proof (cases "Target r = TargetInfeasible")
  case True
  then show ?thesis by (simp add: apply_target_def target_defs)
next
  case False
  then show ?thesis by (simp add: apply_target_def if_distrib [of IsInfeasible])
qed

lemma apply_infeasible: "IsInfeasible (apply_ban r (apply_target r v res)) \<longleftrightarrow> IsInfeasible res \<or> bans r"
  by (auto simp: apply_ban_def bans_def apply_target_infeasible)

text \<open>A reason is recorded exactly for infeasible arcs.\<close>

definition reason_ok :: "RuleEvaluationResult \<Rightarrow> bool" where
  "reason_ok res \<longleftrightarrow> IsInfeasible res = (RInfeasibilityReason res \<noteq> '''')"

lemma apply_target_reason: "reason_ok res \<Longrightarrow> reason_ok (apply_target r v res)"
proof (cases "Target r = TargetInfeasible")
  case True
  then show ?thesis by (simp add: apply_target_def target_defs reason_ok_def)
next
  case False
  assume "reason_ok res"
  moreover have "RInfeasibilityReason (apply_target r v res) = RInfeasibilityReason res"
    using False by (simp add: apply_target_def if_distrib [of RInfeasibilityReason])
  ultimately show ?thesis using False by (simp add: reason_ok_def apply_target_infeasible)
qed

lemma apply_reason: "reason_ok res \<Longrightarrow> reason_ok (apply_ban r (apply_target r v res))"
  using apply_target_reason [of res r v] by (auto simp: reason_ok_def apply_ban_def)

lemma eval_rules_report:
  "eval_rules ctx crs res = Inr out \<Longrightarrow> reason_ok res \<Longrightarrow>
   MatchedRuleIDs out = MatchedRuleIDs res @ map (RuleID \<circ> CRule) (filter (rule_matches ctx) crs) \<and>
   (IsInfeasible out \<longleftrightarrow> IsInfeasible res \<or> (\<exists>cr\<in>set crs. rule_matches ctx cr \<and> bans (CRule cr))) \<and> reason_ok out"
proof (induction crs arbitrary: res)
  case Nil
  then show ?case by simp
next
  case (Cons cr crs)
  from Cons.prems(1) obtain matched where c: "ConditionProgram cr ctx = Inr (AnyBool matched)"
    by (auto split: sum.splits any_val.splits)
  show ?case
  proof (cases matched)
    case False
    with Cons c show ?thesis by (simp add: rule_matches_def)
  next
    case True
    with Cons.prems(1) c obtain v where v: "rule_value ctx cr = Inr v" by (auto split: sum.splits)
    let ?res = "apply_ban (CRule cr) (apply_target (CRule cr) v
       (res\<lparr>MatchedRuleIDs := MatchedRuleIDs res @ [RuleID (CRule cr)]\<rparr>))"
    have "reason_ok ?res" by (rule apply_reason) (use Cons.prems(2) in \<open>simp add: reason_ok_def\<close>)
    from Cons.IH [OF _ this] Cons.prems(1) c v True show ?thesis
      by (auto simp: rule_matches_def apply_infeasible)
  qed
qed

text \<open>
  Whenever the rules evaluate, the result lists exactly the rules whose condition holds, in registry
  order; the arc is infeasible exactly if one of them bans it (target \<open>infeasible\<close> or operation
  \<open>BAN\<close>), and a reason is given exactly then.
\<close>

theorem Rules_Evaluate_report:
  assumes "Rules_Evaluate (Some rules) ctx = Inr res"
  shows "MatchedRuleIDs res = map (RuleID \<circ> CRule) (filter (rule_matches ctx) rules) \<and>
    (IsInfeasible res \<longleftrightarrow> (\<exists>cr\<in>set rules. rule_matches ctx cr \<and> bans (CRule cr))) \<and>
    (IsInfeasible res \<longleftrightarrow> RInfeasibilityReason res \<noteq> '''')"
proof -
  have "reason_ok NewRuleEvaluationResult" "MatchedRuleIDs NewRuleEvaluationResult = []"
    "\<not> IsInfeasible NewRuleEvaluationResult"
    by (simp_all add: NewRuleEvaluationResult_def reason_ok_def)
  with eval_rules_report [of ctx rules NewRuleEvaluationResult res] assms show ?thesis
    unfolding Rules_Evaluate_def reason_ok_def by simp blast
qed

definition demo_rule :: Rule where
  "demo_rule = \<lparr>RuleID = ''r1'', RuleName = ''no long deadhead'', Target = TargetLoadedRate, RuleOperation = OpBan,
     ConditionCEL = ''true'', ValueCEL = '''', StaticValue = 1, RuleMessage = ''''\<rparr>"

lemma Rules_Evaluate_report_witness:
  "\<exists>res. Rules_Evaluate (Some [\<lparr>CRule = demo_rule, ConditionProgram = \<lambda>_. Inr (AnyBool True), ValueProgram = None\<rparr>]) [] = Inr res \<and>
    IsInfeasible res"
proof -
  let ?cr = "\<lparr>CRule = demo_rule, ConditionProgram = \<lambda>_. Inr (AnyBool True), ValueProgram = None\<rparr>"
  obtain res where r: "Rules_Evaluate (Some [?cr]) [] = Inr res" by (simp add: Rules_Evaluate_def rule_value_def)
  from Rules_Evaluate_report [OF this] have "IsInfeasible res"
    by (simp add: rule_matches_def bans_def demo_rule_def)
  with r show ?thesis by blast
qed

text \<open>
  Compilation. What the registry relies on in CEL: a program whose checked type is \<open>bool\<close> never
  evaluates to a value of another type. Then the evaluation of a compiled registry only fails where a CEL
  program fails or a value expression is not a number, never because a condition is not boolean.
\<close>

definition cel_bool_sound :: "'ast cel \<Rightarrow> bool" where
  "cel_bool_sound env \<longleftrightarrow> (\<forall>ast p ctx v. cel_OutputType env ast = BoolType \<longrightarrow> cel_Program env ast = Inr p \<longrightarrow>
     p ctx = Inr v \<longrightarrow> (\<exists>b. v = AnyBool b))"

lemma compile_rules_ok:
  "compile_rules env rs = Inr crs \<Longrightarrow> map CRule crs = rs \<and>
   (\<forall>cr\<in>set crs. ConditionCEL (CRule cr) \<noteq> '''' \<and> compile_condition env (CRule cr) = Inr (ConditionProgram cr) \<and>
     compile_value env (CRule cr) = Inr (ValueProgram cr))"
  by (induction env rs arbitrary: crs rule: compile_rules.induct) (auto split: if_splits sum.splits)

lemma eval_rules_total:
  assumes "\<forall>cr\<in>set crs. \<forall>v. ConditionProgram cr ctx = Inr v \<longrightarrow> (\<exists>b. v = AnyBool b)"
    and "eval_rules ctx crs res = Inl e"
  shows "\<exists>cr\<in>set crs. ConditionProgram cr ctx = Inl e \<or> rule_matches ctx cr \<and> rule_value ctx cr = Inl e"
  using assms
proof (induction crs arbitrary: res)
  case (Cons cr crs)
  show ?case
  proof (cases "ConditionProgram cr ctx")
    case (Inl x)
    with Cons.prems show ?thesis by auto
  next
    case (Inr v)
    with Cons.prems(1) obtain b where b: "v = AnyBool b" by auto
    have IH: "\<exists>cr\<in>set crs. ConditionProgram cr ctx = Inl e \<or> rule_matches ctx cr \<and> rule_value ctx cr = Inl e"
      if "eval_rules ctx crs r = Inl e" for r
      by (rule Cons.IH [OF _ that]) (use Cons.prems(1) in simp)
    show ?thesis
    proof (cases "b \<and> rule_value ctx cr = Inl e")
      case True
      with Inr b show ?thesis by (simp add: rule_matches_def)
    next
      case False
      with Cons.prems(2) Inr b have "\<exists>r. eval_rules ctx crs r = Inl e" by (auto split: if_splits sum.splits)
      with IH show ?thesis by auto
    qed
  qed
qed simp

text \<open>
  If CEL programs of boolean type only evaluate to booleans, an evaluation of a compiled registry fails
  only where a CEL program fails or a value expression is not a number.
\<close>

theorem NewRuleRegistry_sound:
  assumes "cel_bool_sound env" and "NewRuleRegistry env rules = Inr reg" and "Rules_Evaluate (Some reg) ctx = Inl e"
  shows "\<exists>cr\<in>set reg. CRule cr \<in> set rules \<and>
    (ConditionProgram cr ctx = Inl e \<or> rule_matches ctx cr \<and> rule_value ctx cr = Inl e)"
proof -
  from assms(2) have "compile_rules env rules = Inr reg" by (auto simp: NewRuleRegistry_def split: sum.splits)
  note c = compile_rules_ok [OF this]
  have "\<forall>cr\<in>set reg. \<forall>v. ConditionProgram cr ctx = Inr v \<longrightarrow> (\<exists>b. v = AnyBool b)"
  proof (intro ballI allI impI)
    fix cr v assume cr: "cr \<in> set reg" and v: "ConditionProgram cr ctx = Inr v"
    from c cr have "compile_condition env (CRule cr) = Inr (ConditionProgram cr)" by blast
    then obtain ast where "cel_OutputType env ast = BoolType" "cel_Program env ast = Inr (ConditionProgram cr)"
      by (auto simp: compile_condition_def split: sum.splits if_splits)
    with assms(1) v show "\<exists>b. v = AnyBool b" unfolding cel_bool_sound_def by blast
  qed
  moreover have "eval_rules ctx reg NewRuleEvaluationResult = Inl e" using assms(3) by (simp add: Rules_Evaluate_def)
  ultimately obtain cr where "cr \<in> set reg" "ConditionProgram cr ctx = Inl e \<or> rule_matches ctx cr \<and> rule_value ctx cr = Inl e"
    using eval_rules_total by metis
  moreover from this(1) have "CRule cr \<in> set rules" using c by (metis imageI list.set_map)
  ultimately show ?thesis by blast
qed

definition demo_cel :: "bool cel" where
  "demo_cel = \<lparr>cel_NewEnv = Inr (), cel_Compile = \<lambda>src. Inr (src = ''true''),
     cel_OutputType = \<lambda>c. if c then BoolType else DoubleType,
     cel_Program = \<lambda>c. Inr (\<lambda>ctx. if c then Inr (AnyBool True) else Inl (ErrOther ''no such key''))\<rparr>"

lemma NewRuleRegistry_sound_witness:
  "\<exists>reg. NewRuleRegistry demo_cel [demo_rule\<lparr>ValueCEL := ''x''\<rparr>] = Inr reg \<and>
     Rules_Evaluate (Some reg) [] = Inl (ErrOther ''no such key'') \<and> (\<exists>cr\<in>set reg. rule_matches [] cr)"
proof -
  let ?r = "demo_rule\<lparr>ValueCEL := ''x''\<rparr>"
  let ?reg = "[\<lparr>CRule = ?r, ConditionProgram = \<lambda>ctx. Inr (AnyBool True),
    ValueProgram = Some (\<lambda>ctx. Inl (ErrOther ''no such key''))\<rparr>]"
  have s: "cel_bool_sound demo_cel" by (auto simp: cel_bool_sound_def demo_cel_def split: if_splits)
  have n: "NewRuleRegistry demo_cel [?r] = Inr ?reg"
    by (simp add: NewRuleRegistry_def compile_condition_def compile_value_def demo_cel_def demo_rule_def)
  have e: "Rules_Evaluate (Some ?reg) [] = Inl (ErrOther ''no such key'')"
    by (simp add: Rules_Evaluate_def rule_value_def)
  from NewRuleRegistry_sound [OF s n e] have "\<exists>cr\<in>set ?reg. rule_matches [] cr" by auto
  with n e show ?thesis by blast
qed

end
