(* ===== verification/Simplex.thy ===== *)
theory Simplex
  imports Float64
begin

text \<open>
  \<open>pkg/math/simplex.go\<close> and \<open>pkg/math/logspace.go\<close>: compensated summation, validation, normalization
  and Euclidean projection of probability vectors, and log-space accumulation. The simplex kernels are
  generic in the precision; the projection is proved to be the Euclidean projection in exact
  arithmetic (\<open>0 fl\<close>). The log-space functions take \<open>exp\<close>, \<open>log\<close> and \<open>log1p\<close> as a parameter (\<open>libm\<close>).
\<close>

section \<open>Probability vectors\<close>

definition DefaultSimplexTolerance :: "'p::len0 fl" where
  "DefaultSimplexTolerance = rnd (1 / 1000000000)"

text \<open>Neumaier's summation; the accumulator is \<open>(s, c)\<close>.\<close>

definition sum_step :: "'p::len0 fl \<Rightarrow> 'p fl \<times> 'p fl \<Rightarrow> 'p fl \<times> 'p fl" where
  "sum_step x acc = (case acc of (s, c) \<Rightarrow>
     let t = s + x in
     (t, if \<bar>x\<bar> \<le> \<bar>s\<bar> then c + ((s - t) + x) else c + ((x - t) + s)))"

definition CompensatedSum :: "'p::len0 fl list \<Rightarrow> 'p fl" where
  "CompensatedSum xs = (if length xs = 0 then 0 else case fold sum_step xs (0, 0) of (s, c) \<Rightarrow> s + c)"

fun simplex_elements :: "'p::len0 fl list \<Rightarrow> unit result" where
  "simplex_elements [] = Inr ()"
| "simplex_elements (p # ps) =
     (if is_nan p \<or> is_inf p then Inl ErrSimplexNonFinite
      else if p < rnd (- (1 / 1000000000000000)) then Inl ErrSimplexNegative
      else simplex_elements ps)"

definition ValidateSimplex :: "'p::len0 fl list \<Rightarrow> 'p fl \<Rightarrow> unit result" where
  "ValidateSimplex probs epsilon =
     (if length probs = 0 then Inl ErrSimplexEmpty
      else let epsilon = (if epsilon < 0 then DefaultSimplexTolerance else epsilon) in
      case simplex_elements probs of
        Inl e \<Rightarrow> Inl e
      | Inr _ \<Rightarrow>
          (let diff = \<bar>CompensatedSum probs - 1\<bar> in
           if epsilon < diff then Inl ErrSimplexSumMismatch else Inr ()))"

definition MustValidateSimplex :: "'p::len0 fl list \<Rightarrow> 'p fl \<Rightarrow> unit result" where
  "MustValidateSimplex probs epsilon = (case ValidateSimplex probs epsilon of
     Inl _ \<Rightarrow> Inl (Panic ''pkg/math: fail-closed simplex violation'') | Inr _ \<Rightarrow> Inr ())"

fun mass_elements :: "'p::len0 fl list \<Rightarrow> unit result" where
  "mass_elements [] = Inr ()"
| "mass_elements (v # vs) =
     (if is_nan v \<or> is_inf v then Inl ErrSimplexNonFinite
      else if v < 0 then Inl ErrSimplexNegative
      else mass_elements vs)"

definition NormalizeSimplex :: "'p::len0 fl list \<Rightarrow> 'p fl list result" where
  "NormalizeSimplex v =
     (if length v = 0 then Inl ErrSimplexEmpty
      else case mass_elements v of
        Inl e \<Rightarrow> Inl e
      | Inr _ \<Rightarrow>
          (let total = CompensatedSum v in
           if total \<le> 0 \<or> is_nan total \<or> is_inf total then Inl ErrSimplexNonFinite
           else Inr (map (\<lambda>val. val / total) v)))"

text \<open>The scan over the sorted values; the accumulator is \<open>(cumsum, theta)\<close> and the position \<open>j\<close>.\<close>

fun project_scan :: "'p::len0 fl list \<Rightarrow> nat \<Rightarrow> 'p fl \<Rightarrow> 'p fl \<Rightarrow> 'p fl" where
  "project_scan [] j cumsum theta = theta"
| "project_scan (u # us) j cumsum theta =
     (let cumsum = cumsum + u;
          t = (cumsum - 1) / of_int_fl (int (j + 1)) in
      project_scan us (j + 1) cumsum (if 0 < u - t then t else theta))"

definition ProjectToSimplex :: "'p::len0 fl list \<Rightarrow> 'p fl list" where
  "ProjectToSimplex v =
     (if length v = 0 then []
      else if length v = 1 then [1]
      else let u = sort_slice (\<lambda>a b. b < a) v;
               theta = project_scan u 0 0 0 in
           map (\<lambda>val. if 0 < val - theta then val - theta else 0) v)"

section \<open>Log-space accumulation\<close>

definition LogSumExp :: "libm \<Rightarrow> f64 \<Rightarrow> f64 \<Rightarrow> f64" where
  "LogSumExp L a b =
     (if is_nan a \<or> is_nan b then NaN
      else if a = NInf then b
      else if b = NInf then a
      else if a = PInf \<or> b = PInf then PInf
      else let (maxVal, diff) = (if a < b then (b, a - b) else (a, b - a)) in
           maxVal + m_log1p L (m_exp L diff))"

fun max_or_nan :: "f64 list \<Rightarrow> f64 \<Rightarrow> f64 option" where
  "max_or_nan [] maxVal = Some maxVal"
| "max_or_nan (x # xs) maxVal = (if is_nan x then None else max_or_nan xs (if maxVal < x then x else maxVal))"

definition LogSumExpSlice :: "libm \<Rightarrow> f64 list \<Rightarrow> f64" where
  "LogSumExpSlice L xs =
     (if length xs = 0 then NInf
      else case max_or_nan xs NInf of
        None \<Rightarrow> NaN
      | Some maxVal \<Rightarrow>
          if maxVal = NInf \<or> maxVal = PInf then maxVal
          else maxVal + m_log L (fold (\<lambda>x sumExp. if x \<noteq> NInf then sumExp + m_exp L (x - maxVal) else sumExp) xs 0))"

definition LogSubExp :: "libm \<Rightarrow> f64 \<Rightarrow> f64 \<Rightarrow> f64 result" where
  "LogSubExp L a b =
     (if is_nan a \<or> is_nan b then Inr NaN
      else if a < b then Inl ErrInvalidLogDomain
      else if feq a b then Inr NInf
      else if b = NInf then Inr a
      else let diff = b - a in Inr (a + m_log1p L (- m_exp L diff)))"

definition LogNormalize :: "libm \<Rightarrow> f64 list \<Rightarrow> f64 list result" where
  "LogNormalize L logProbs =
     (if length logProbs = 0 then Inl ErrEmptySlice
      else let totalLogMass = LogSumExpSlice L logProbs in
      if totalLogMass = NInf then Inl ErrZeroProbabilityMass
      else if is_nan totalLogMass then Inl (ErrOther ''pkg/math: logProbs contains NaN values'')
      else Inr (map (\<lambda>lp. if lp = NInf then 0 else m_exp L (lp - totalLogMass)) logProbs))"

section \<open>Exact sums\<close>

lemma all_fin_map: "\<forall>x\<in>set xs. is_fin x \<Longrightarrow> xs = map Fin (map fin_val xs)"
  by (induction xs) (auto simp: is_fin_iff)

lemma fold_sum_step_exact:
  "fold sum_step (map Fin qs) (Fin s, Fin 0) = (Fin (s + sum_list qs) :: 0 fl, Fin 0)"
  by (induction qs arbitrary: s) (auto simp: sum_step_def Let_def add.assoc)

lemma CompensatedSum_exact [simp]: "CompensatedSum (map Fin qs) = (Fin (sum_list qs) :: 0 fl)"
  by (simp add: CompensatedSum_def zero_fl_def fold_sum_step_exact)

section \<open>The projection in exact arithmetic\<close>

lemma divide_exact [simp]: "b \<noteq> 0 \<Longrightarrow> (Fin a :: 0 fl) / Fin b = Fin (a / b)"
  by simp

lemma of_int_exact [simp]: "(of_int_fl n :: 0 fl) = Fin (of_int n)"
  by (simp add: of_int_fl_def)

definition pos_part :: "rat \<Rightarrow> rat" where
  "pos_part x = (if 0 < x then x else 0)"

lemma sum_pos_part:
  assumes "\<forall>x\<in>set as. \<theta> < x" and "\<forall>x\<in>set bs. x \<le> \<theta>"
  shows "sum_list (map (\<lambda>x. pos_part (x - \<theta>)) (as @ bs)) = sum_list as - of_nat (length as) * \<theta>"
proof -
  have "sum_list (map (\<lambda>x. pos_part (x - \<theta>)) as) = sum_list as - of_nat (length as) * \<theta>"
    using assms(1) by (induction as) (auto simp: pos_part_def algebra_simps)
  moreover have "sum_list (map (\<lambda>x. pos_part (x - \<theta>)) bs) = 0"
    using assms(2) by (induction bs) (auto simp: pos_part_def)
  ultimately show ?thesis by simp
qed

text \<open>\<open>as\<close> are the values above the threshold, \<open>bs\<close> the scanned values below it.\<close>

lemma project_scan_spec:
  assumes "sorted_wrt (\<lambda>a b. b \<le> a) (as @ bs @ us)" and "as \<noteq> []" and "of_nat (length as) * \<theta> = sum_list as - 1"
    and "\<forall>x\<in>set as. \<theta> < x" and "\<forall>x\<in>set bs. x \<le> \<theta>"
  shows "\<exists>\<tau>. project_scan (map Fin us) (length (as @ bs)) (Fin (sum_list (as @ bs))) (Fin \<theta> :: 0 fl) = Fin \<tau> \<and>
    sum_list (map (\<lambda>x. pos_part (x - \<tau>)) (as @ bs @ us)) = 1"
  using assms
proof (induction us arbitrary: as bs \<theta>)
  case Nil
  then show ?case using sum_pos_part [of as \<theta> bs] by simp
next
  case (Cons u us)
  let ?c = "sum_list (as @ bs) + u" and ?n = "length (as @ bs) + 1"
  let ?t = "(?c - 1) / of_nat ?n"
  have below: "\<forall>x\<in>set (as @ bs). u \<le> x" using Cons.prems(1) by (auto simp: sorted_wrt_append)
  have n: "(0 :: rat) < of_nat ?n" by simp
  have n0: "(of_nat ?n :: rat) \<noteq> 0" using n by linarith
  have tn: "of_nat ?n * ?t = ?c - 1" by (simp only: times_divide_eq_right nonzero_mult_div_cancel_left [OF n0])
  have step: "project_scan (map Fin (u # us)) (length (as @ bs)) (Fin (sum_list (as @ bs))) (Fin \<theta> :: 0 fl) =
      project_scan (map Fin us) ?n (Fin ?c) (if ?t < u then Fin ?t else Fin \<theta>)"
    using n by (simp add: Let_def zero_fl_def one_fl_def del: of_nat_Suc)
  show ?case
  proof (cases "?t < u")
    case True
    have "\<forall>x\<in>set ((as @ bs) @ [u]). ?t < x"
    proof
      fix x assume "x \<in> set ((as @ bs) @ [u])"
      then have "u \<le> x" using below by auto
      with True show "?t < x" by (rule less_le_trans)
    qed
    moreover have "of_nat (length ((as @ bs) @ [u])) * ?t = sum_list ((as @ bs) @ [u]) - 1" using tn by simp
    ultimately show ?thesis
      using Cons.IH [of "(as @ bs) @ [u]" "[]" ?t] Cons.prems(1) True unfolding step by (simp add: add.assoc)
  next
    case False
    have u: "u \<le> \<theta>"
    proof (cases bs)
      case Nil
      have "of_nat ?n * u \<le> of_nat ?n * ?t" using False n by (intro mult_left_mono) auto
      also have "\<dots> = of_nat (length as) * \<theta> + u" unfolding tn using Nil Cons.prems(3) by simp
      finally have "of_nat (length as) * u \<le> of_nat (length as) * \<theta>" using Nil by (simp add: algebra_simps)
      then show ?thesis using Cons.prems(2) by (simp add: mult_le_cancel_left)
    next
      case (Cons b bs')
      then have "u \<le> b" "b \<le> \<theta>" using below Cons.prems(5) by auto
      then show ?thesis by simp
    qed
    have s: "sorted_wrt (\<lambda>a b. b \<le> a) (as @ (bs @ [u]) @ us)" using Cons.prems(1) by simp
    have b: "\<forall>x\<in>set (bs @ [u]). x \<le> \<theta>" using Cons.prems(5) u by simp
    show ?thesis
      using Cons.IH [OF s Cons.prems(2-4) b] False unfolding step by (simp add: add.assoc)
  qed
qed

interpretation descending: slice_order "\<lambda>a b. b < (a :: 0 fl)" "range Fin"
  by unfold_locales (auto dest: less_fl_trans)

lemma sort_desc:
  fixes q :: "rat list"
  shows "\<exists>r. sort_slice (\<lambda>a b. b < a) (map Fin q :: 0 fl list) = map Fin r \<and> mset r = mset q \<and>
    sorted_wrt (\<lambda>a b. b \<le> a) r"
proof -
  let ?s = "sort_slice (\<lambda>a b. b < a) (map Fin q :: 0 fl list)"
  let ?r = "map fin_val ?s"
  have fin: "\<forall>x\<in>set ?s. is_fin x" by auto
  have eq: "?s = map Fin ?r" using all_fin_map [OF fin] by simp
  have "mset ?r = image_mset fin_val (mset ?s)" by simp
  also have "\<dots> = mset q" by (simp add: multiset.map_comp o_def)
  finally have m: "mset ?r = mset q" .
  have "sorted_wrt (\<lambda>a b. \<not> a < b) ?s" by (rule descending.sorted_sort_slice) auto
  then have "sorted_wrt (\<lambda>a b. \<not> a < b) (map Fin ?r :: 0 fl list)" using eq by simp
  then have "sorted_wrt (\<lambda>a b. b \<le> a) ?r" unfolding sorted_wrt_map by (simp add: not_less)
  with eq m show ?thesis by blast
qed

lemma ProjectToSimplex_threshold:
  assumes "q \<noteq> []"
  shows "\<exists>\<theta>. ProjectToSimplex (map Fin q :: 0 fl list) = map (\<lambda>x. Fin (pos_part (x - \<theta>))) q \<and>
    sum_list (map (\<lambda>x. pos_part (x - \<theta>)) q) = 1"
proof (cases "length q = 1")
  case True
  then obtain x where "q = [x]" by (auto simp: length_Suc_conv)
  then show ?thesis
    by (intro exI [of _ "x - 1"]) (simp add: ProjectToSimplex_def one_fl_def pos_part_def)
next
  case False
  obtain r where r: "sort_slice (\<lambda>a b. b < a) (map Fin q :: 0 fl list) = map Fin r" "mset r = mset q"
    "sorted_wrt (\<lambda>a b. b \<le> a) r" using sort_desc by blast
  obtain u us where us: "r = u # us" using r(2) assms by (cases r) auto
  have first: "project_scan (map Fin r) 0 0 (0 :: 0 fl) =
      project_scan (map Fin us) (length ([u] @ [])) (Fin (sum_list ([u] @ []))) (Fin (u - 1))"
    by (simp add: us Let_def zero_fl_def one_fl_def)
  obtain \<tau> where t: "project_scan (map Fin r) 0 0 (0 :: 0 fl) = Fin \<tau>"
    "sum_list (map (\<lambda>x. pos_part (x - \<tau>)) ([u] @ [] @ us)) = 1"
    using project_scan_spec [of "[u]" "[]" us "u - 1"] r(3) us unfolding first by auto
  have "sum_list (map (\<lambda>x. pos_part (x - \<tau>)) q) = sum_list (map (\<lambda>x. pos_part (x - \<tau>)) r)"
    using r(2) by (metis mset_map sum_mset_sum_list)
  then have one: "sum_list (map (\<lambda>x. pos_part (x - \<tau>)) q) = 1" using t(2) us by simp
  have "ProjectToSimplex (map Fin q :: 0 fl list) = map (\<lambda>x. Fin (pos_part (x - \<tau>))) q"
    using False assms by (simp add: ProjectToSimplex_def r(1) t(1) [unfolded zero_fl_def] Let_def zero_fl_def pos_part_def)
  with one show ?thesis by blast
qed

definition on_simplex :: "rat list \<Rightarrow> bool" where
  "on_simplex p \<longleftrightarrow> (\<forall>x\<in>set p. 0 \<le> x) \<and> sum_list p = 1"

definition sq_dist :: "rat list \<Rightarrow> rat list \<Rightarrow> rat" where
  "sq_dist x y = sum_list (map2 (\<lambda>a b. (a - b) ^ 2) x y)"

lemma nearest_pointwise:
  fixes y p v \<theta> :: rat
  assumes "p = pos_part (v - \<theta>)" and "0 \<le> y"
  shows "(p - v) ^ 2 - 2 * \<theta> * (y - p) \<le> (y - v) ^ 2"
proof (cases "0 < v - \<theta>")
  case True
  then have p: "p = v - \<theta>" using assms(1) by (simp add: pos_part_def)
  have "(y - v) ^ 2 - (p - v) ^ 2 + 2 * \<theta> * (y - p) = (y - p) ^ 2"
    unfolding p by (simp add: power2_eq_square algebra_simps)
  then show ?thesis using zero_le_power2 [of "y - p"] by linarith
next
  case False
  then have "(y - v) ^ 2 - (p - v) ^ 2 + 2 * \<theta> * (y - p) = y ^ 2 + 2 * (\<theta> - v) * y"
    using assms(1) by (simp add: pos_part_def power2_eq_square algebra_simps)
  moreover have "0 \<le> 2 * (\<theta> - v) * y" using False assms(2) by simp
  ultimately show ?thesis using zero_le_power2 [of y] by linarith
qed

lemma nearest_sum:
  assumes "length y = length q" and "\<forall>x\<in>set y. 0 \<le> x"
  shows "sq_dist (map (\<lambda>x. pos_part (x - \<theta>)) q) q
      - 2 * \<theta> * (sum_list y - sum_list (map (\<lambda>x. pos_part (x - \<theta>)) q)) \<le> sq_dist y q"
  using assms
proof (induction y q rule: list_induct2)
  case (Cons a y v q)
  have "(pos_part (v - \<theta>) - v) ^ 2 - 2 * \<theta> * (a - pos_part (v - \<theta>)) \<le> (a - v) ^ 2"
    by (rule nearest_pointwise) (use Cons.prems in auto)
  with Cons.IH Cons.prems show ?case by (simp add: sq_dist_def algebra_simps)
qed (simp add: sq_dist_def)

text \<open>
  Property C25. In exact arithmetic \<open>ProjectToSimplex\<close> returns the Euclidean projection onto the
  probability simplex: the result is a probability vector, and no probability vector is closer to the
  input.
\<close>

theorem ProjectToSimplex_nearest:
  assumes "q \<noteq> []"
  shows "\<exists>p. ProjectToSimplex (map Fin q :: 0 fl list) = map Fin p \<and> length p = length q \<and> on_simplex p \<and>
    (\<forall>y. length y = length q \<and> on_simplex y \<longrightarrow> sq_dist p q \<le> sq_dist y q)"
proof -
  obtain \<theta> where t: "ProjectToSimplex (map Fin q :: 0 fl list) = map (\<lambda>x. Fin (pos_part (x - \<theta>))) q"
    "sum_list (map (\<lambda>x. pos_part (x - \<theta>)) q) = 1" using ProjectToSimplex_threshold [OF assms] by blast
  let ?p = "map (\<lambda>x. pos_part (x - \<theta>)) q"
  have "ProjectToSimplex (map Fin q :: 0 fl list) = map Fin ?p" by (simp add: t(1) o_def)
  moreover have "on_simplex ?p" using t(2) by (auto simp: on_simplex_def pos_part_def)
  moreover have "sq_dist ?p q \<le> sq_dist y q" if "length y = length q" "on_simplex y" for y
    using nearest_sum [of y q \<theta>] that t(2) by (simp add: on_simplex_def)
  ultimately show ?thesis by (intro exI [of _ ?p]) simp
qed

lemma ProjectToSimplex_nearest_witness:
  "\<exists>p. ProjectToSimplex (map Fin [1, 1 / 2, - 3] :: 0 fl list) = map Fin p \<and> on_simplex p"
  using ProjectToSimplex_nearest [of "[1, 1 / 2, - 3]"] by blast

lemma NormalizeSimplex_exact:
  assumes "NormalizeSimplex (map Fin q :: 0 fl list) = Inr r"
  shows "\<exists>p. r = map Fin p \<and> length p = length q \<and> on_simplex p"
proof -
  have e: "mass_elements (map Fin q :: 0 fl list) = Inr () \<longleftrightarrow> (\<forall>x\<in>set q. 0 \<le> x)"
    by (induction q) (auto simp: zero_fl_def)
  have pos: "\<forall>x\<in>set q. 0 \<le> x" "0 < sum_list q" "r = map (\<lambda>x. Fin x / Fin (sum_list q)) q"
    using assms e by (auto simp: NormalizeSimplex_def Let_def zero_fl_def o_def split: if_splits sum.splits)
  have sum: "sum_list (map (\<lambda>x. x / c) q) = sum_list q / c" for c
    by (induction q) (auto simp: add_divide_distrib)
  show ?thesis using pos
    by (intro exI [of _ "map (\<lambda>x. x / sum_list q) q"]) (auto simp: on_simplex_def sum o_def)
qed

lemma ValidateSimplex_Inr:
  assumes "ValidateSimplex ps eps = Inr ()"
  shows "ps \<noteq> []" and "\<forall>p\<in>set ps. is_fin p"
proof -
  show "ps \<noteq> []" using assms by (auto simp: ValidateSimplex_def)
  have e: "simplex_elements ps = Inr () \<Longrightarrow> \<forall>p\<in>set ps. is_fin p" for ps :: "'b::len0 fl list"
  proof (induction ps)
    case (Cons a ps)
    then show ?case by (cases a) (auto split: if_splits)
  qed simp
  show "\<forall>p\<in>set ps. is_fin p" using assms e [of ps]
    by (auto simp: ValidateSimplex_def Let_def split: if_splits sum.splits)
qed

end
