(* ===== verification/Belief.thy ===== *)
theory Belief
  imports Simplex
begin

text \<open>
  \<open>internal/domain/model/belief.go\<close> and \<open>transition_matrix.go\<close>: the belief over the latent postures of the
  market and its Markov kernel, both canonically sorted by key. The type parameter \<open>C\<close> of the code
  is the datatype \<open>CompetitorScale\<close>; the probabilities are generic in the precision. The copying getters
  and \<open>Clone\<close> are identities on values.
\<close>

section \<open>Beliefs\<close>

datatype CompetitorScale = Monopolistic | AggregatedMarket "string list" | MultiCompetitor int

fun CompetitorDimension :: "CompetitorScale \<Rightarrow> int" where
  "CompetitorDimension Monopolistic = 0"
| "CompetitorDimension (AggregatedMarket _) = 1"
| "CompetitorDimension (MultiCompetitor n) = n"

record 'p Belief =
  bl_scale :: CompetitorScale
  bl_keys :: "string list"
  bl_probs :: "'p fl list"
  bl_index :: "string \<rightharpoonup> nat"

definition MonopolisticSingletonKey :: string where
  "MonopolisticSingletonKey = ''theta_empty''"

definition NewMonopolisticBelief :: "'p::len0 Belief" where
  "NewMonopolisticBelief = \<lparr>bl_scale = Monopolistic, bl_keys = [MonopolisticSingletonKey], bl_probs = [1],
     bl_index = [MonopolisticSingletonKey \<mapsto> 0]\<rparr>"

text \<open>The loop over the sorted pairs: a repeated key is an error, else the index of the key.\<close>

fun index_pairs :: "nat \<Rightarrow> (string \<times> 'a) list \<Rightarrow> (string \<rightharpoonup> nat) \<Rightarrow> (string \<rightharpoonup> nat) result" where
  "index_pairs i [] m = Inr m"
| "index_pairs i ((k, _) # ps) m =
     (if m k \<noteq> None then Inl ErrDuplicateStateKey else index_pairs (i + 1) ps (m(k \<mapsto> i)))"

definition NewBelief :: "CompetitorScale \<Rightarrow> string list \<Rightarrow> 'p::len0 fl list \<Rightarrow> 'p Belief result" where
  "NewBelief scale keys probs =
     (if length keys = 0 then Inl ErrBeliefEmpty
      else if length keys \<noteq> length probs then Inl ErrBeliefDimensionMismatch
      else case ValidateSimplex probs DefaultSimplexTolerance of
        Inl e \<Rightarrow> Inl e
      | Inr _ \<Rightarrow>
          (let pairs = sort_slice (\<lambda>a b. fst a < fst b) (zip keys probs) in
           case index_pairs 0 pairs Map.empty of
             Inl e \<Rightarrow> Inl e
           | Inr m \<Rightarrow> Inr \<lparr>bl_scale = scale, bl_keys = map fst pairs, bl_probs = map snd pairs, bl_index = m\<rparr>))"

definition Probability :: "'p::len0 Belief \<Rightarrow> string \<Rightarrow> 'p fl" where
  "Probability b k = (case bl_index b k of None \<Rightarrow> 0 | Some i \<Rightarrow> bl_probs b ! i)"

definition Distribution :: "'p Belief \<Rightarrow> string \<rightharpoonup> 'p fl" where
  "Distribution b = fold (\<lambda>(k, p) m. m(k \<mapsto> p)) (zip (bl_keys b) (bl_probs b)) Map.empty"

definition Belief_Dimension :: "'p Belief \<Rightarrow> nat" where
  "Belief_Dimension b = length (bl_probs b)"

definition Belief_Validate :: "'p::len0 Belief \<Rightarrow> unit result" where
  "Belief_Validate b = ValidateSimplex (bl_probs b) DefaultSimplexTolerance"

section \<open>Transition matrices\<close>

record 'p TransitionMatrix =
  tm_keys :: "string list"
  tm_index :: "string \<rightharpoonup> nat"
  tm_matrix :: "'p fl list list"
  tm_dim :: nat

text \<open>The rows in canonical order, with the checks of each row.\<close>

fun canonical_rows ::
  "(string \<Rightarrow> nat) \<Rightarrow> string list \<Rightarrow> 'p::len0 fl list list \<Rightarrow> string list \<Rightarrow> 'p fl list list result" where
  "canonical_rows orig keys data [] = Inr []"
| "canonical_rows orig keys data (k # ks) =
     (let origRow = data ! orig k in
      if length origRow \<noteq> length keys then Inl ErrTransitionMatrixDimensionMismatch
      else let row = map (\<lambda>k'. origRow ! orig k') keys in
      case ValidateSimplex row DefaultSimplexTolerance of
        Inl _ \<Rightarrow> Inl ErrTransitionMatrixRowSimplex
      | Inr _ \<Rightarrow> (case canonical_rows orig keys data ks of Inl e \<Rightarrow> Inl e | Inr rows \<Rightarrow> Inr (row # rows)))"

definition idx_of :: "(string \<rightharpoonup> nat) \<Rightarrow> string \<Rightarrow> nat" where
  "idx_of m k = (case m k of None \<Rightarrow> 0 | Some i \<Rightarrow> i)"

definition NewTransitionMatrix :: "string list \<Rightarrow> 'p::len0 fl list list \<Rightarrow> 'p TransitionMatrix result" where
  "NewTransitionMatrix keys data =
     (let k = length keys in
      if k = 0 then Inl ErrBeliefEmpty
      else if length data \<noteq> k then Inl ErrTransitionMatrixDimensionMismatch
      else let sortedKeys = sort_slice (<) keys in
      case index_pairs 0 (map (\<lambda>key. (key, ())) keys) Map.empty of
        Inl e \<Rightarrow> Inl e
      | Inr origIndex \<Rightarrow>
          (case canonical_rows (idx_of origIndex) sortedKeys data sortedKeys of
             Inl e \<Rightarrow> Inl e
           | Inr rows \<Rightarrow> Inr \<lparr>tm_keys = sortedKeys, tm_index = index_ids 0 sortedKeys Map.empty,
               tm_matrix = rows, tm_dim = k\<rparr>))"

definition NewIdentityTransitionMatrix :: "string list \<Rightarrow> 'p::len0 TransitionMatrix" where
  "NewIdentityTransitionMatrix keys =
     (let k = length keys; sortedKeys = sort_slice (<) keys in
      \<lparr>tm_keys = sortedKeys, tm_index = index_ids 0 sortedKeys Map.empty,
       tm_matrix = map (\<lambda>i. map (\<lambda>j. if i = j then 1 else 0) [0..<k]) [0..<k], tm_dim = k\<rparr>)"

definition Predict :: "'p::len0 TransitionMatrix \<Rightarrow> 'p fl list \<Rightarrow> 'p fl list result" where
  "Predict tm prior =
     (if length prior \<noteq> tm_dim tm then Inl (Panic ''domain/model: Predict called with priorProbs length'')
      else Inr (map (\<lambda>j. CompensatedSum (map (\<lambda>i. prior ! i * tm_matrix tm ! i ! j) [0..<tm_dim tm])) [0..<tm_dim tm]))"

definition TM_At :: "'p TransitionMatrix \<Rightarrow> string \<Rightarrow> string \<Rightarrow> 'p fl option" where
  "TM_At tm fromKey toKey = (case (tm_index tm fromKey, tm_index tm toKey) of
     (Some i, Some j) \<Rightarrow> Some (tm_matrix tm ! i ! j) | _ \<Rightarrow> None)"

section \<open>Canonical beliefs\<close>

lemma index_pairs_Inr:
  "index_pairs i ps m = Inr m' \<longleftrightarrow>
     distinct (map fst ps) \<and> (\<forall>k\<in>fst ` set ps. m k = None) \<and> m' = index_ids i (map fst ps) m"
proof (induction ps arbitrary: i m)
  case (Cons x ps)
  obtain k v where x: "x = (k, v)" by (cases x)
  show ?case
  proof (cases "m k = None")
    case True
    have "(\<forall>j\<in>fst ` set ps. (m(k \<mapsto> i)) j = None) \<longleftrightarrow> k \<notin> fst ` set ps \<and> (\<forall>j\<in>fst ` set ps. m j = None)"
      by (metis fun_upd_apply option.distinct(1))
    with True show ?thesis by (auto simp: x Cons.IH simp del: fun_upd_apply)
  qed (auto simp: x)
qed auto

lemma index_pairs_error: "index_pairs i ps m = Inl e \<Longrightarrow> e = ErrDuplicateStateKey"
  by (induction i ps m rule: index_pairs.induct) (auto split: if_splits)

lemma NewBelief_ok:
  assumes "length keys = length probs" and "ValidateSimplex probs DefaultSimplexTolerance = Inr ()" and "distinct keys"
  shows "\<exists>b. NewBelief scale keys probs = Inr b"
proof -
  have "keys \<noteq> []" using ValidateSimplex_Inr(1) [OF assms(2)] assms(1) by auto
  moreover have "\<exists>m. index_pairs 0 (sort_slice (\<lambda>a b. fst a < fst b) (zip keys probs)) Map.empty = Inr m"
    unfolding index_pairs_Inr using assms(1,3) by simp
  ultimately show ?thesis using assms(1,2) by (auto simp: NewBelief_def Let_def)
qed

definition belief_wf :: "'p::len0 Belief \<Rightarrow> bool" where
  "belief_wf b \<longleftrightarrow> bl_keys b \<noteq> [] \<and> sorted_wrt (<) (bl_keys b) \<and> length (bl_probs b) = length (bl_keys b) \<and>
     bl_index b = index_ids 0 (bl_keys b) Map.empty \<and> (\<forall>p\<in>set (bl_probs b). is_fin p)"

lemma NewBelief_cases:
  assumes "NewBelief scale keys probs = Inr b"
  shows "length keys = length probs \<and> distinct keys \<and> ValidateSimplex probs DefaultSimplexTolerance = Inr () \<and>
    b = \<lparr>bl_scale = scale, bl_keys = map fst (sort_slice (\<lambda>a b. fst a < fst b) (zip keys probs)),
      bl_probs = map snd (sort_slice (\<lambda>a b. fst a < fst b) (zip keys probs)),
      bl_index = index_ids 0 (map fst (sort_slice (\<lambda>a b. fst a < fst b) (zip keys probs))) Map.empty\<rparr>"
  using assms unfolding NewBelief_def Let_def
  by (auto simp: index_pairs_Inr split: if_splits sum.splits)

lemma wf_lookup:
  assumes "belief_wf b"
  shows "bl_index b k = Some i \<longleftrightarrow> i < length (bl_keys b) \<and> bl_keys b ! i = k"
proof -
  have d: "distinct (bl_keys b)" "bl_index b = index_ids 0 (bl_keys b) Map.empty"
    using assms strict_sorted_iff unfolding belief_wf_def by blast+
  show ?thesis using index_ids_empty_Some [of "bl_keys b" k i] index_ids_nth [OF d(1), of i] d(2) by auto
qed

lemma Distribution_map_of:
  assumes "distinct (bl_keys b)"
  shows "Distribution b = map_of (zip (bl_keys b) (bl_probs b))"
proof -
  have g: "fold (\<lambda>(k, p) m. m(k \<mapsto> p)) xs m0 = m0 ++ map_of xs" if "distinct (map fst xs)" for xs :: "(string \<times> 'a fl) list" and m0
    using that
  proof (induction xs arbitrary: m0)
    case (Cons x xs)
    obtain k p where x: "x = (k, p)" by (cases x)
    have "map_of xs k = None" using Cons.prems x by (simp add: map_of_eq_None_iff)
    with Cons x show ?case by (auto simp: map_add_def fun_eq_iff split: option.splits)
  qed simp
  show ?thesis unfolding Distribution_def using g [of "zip (bl_keys b) (bl_probs b)" Map.empty] assms
    by (simp add: map_fst_zip_take distinct_take)
qed

lemma NewBelief_spec:
  assumes "NewBelief scale keys probs = Inr b"
  shows "belief_wf b \<and> bl_scale b = scale \<and> set (bl_keys b) = set keys \<and>
    (\<forall>i<length keys. Probability b (keys ! i) = probs ! i) \<and> (\<forall>k. k \<notin> set keys \<longrightarrow> Probability b k = 0)"
proof -
  let ?ps = "sort_slice (\<lambda>a b. fst a < fst b) (zip keys probs)"
  note B = NewBelief_cases [OF assms]
  have len: "length keys = length probs" and d: "distinct keys" and v: "ValidateSimplex probs DefaultSimplexTolerance = Inr ()"
    and b: "b = \<lparr>bl_scale = scale, bl_keys = map fst ?ps, bl_probs = map snd ?ps, bl_index = index_ids 0 (map fst ?ps) Map.empty\<rparr>"
    using B by blast+
  have ms: "mset (map fst ?ps) = mset keys" using len by simp (metis map_fst_zip mset_map)
  have sk: "set (map fst ?ps) = set keys" using ms by (metis set_mset_mset)
  have sorted: "sorted_wrt (<) (map fst ?ps)" by (rule sort_slice_key_strict) (simp add: len d)
  have sp: "set (map snd ?ps) = set probs" using len by simp (metis map_snd_zip set_map)
  have fin: "\<forall>p\<in>set (map snd ?ps). is_fin p" unfolding sp by (rule ValidateSimplex_Inr(2) [OF v])
  have "keys \<noteq> []" using ValidateSimplex_Inr(1) [OF v] len by auto
  then have "map fst ?ps \<noteq> []" using sk by (metis empty_set set_empty2)
  then have wf: "belief_wf b" using sorted fin unfolding belief_wf_def b by simp
  have val: "Probability b (keys ! i) = probs ! i" if i: "i < length keys" for i
  proof -
    have "(keys ! i, probs ! i) \<in> set (zip keys probs)" using i len by (auto simp: set_zip)
    then have "(keys ! i, probs ! i) \<in> set ?ps" by simp
    then obtain j where j: "j < length ?ps" "?ps ! j = (keys ! i, probs ! i)" by (metis in_set_conv_nth)
    then have "bl_index b (keys ! i) = Some j" unfolding wf_lookup [OF wf] by (simp add: b)
    with j show ?thesis by (simp add: Probability_def b)
  qed
  have none: "Probability b k = 0" if "k \<notin> set keys" for k
  proof -
    have "k \<notin> set (bl_keys b)" using that sk b by simp
    then have "bl_index b k = None" using wf unfolding belief_wf_def by (simp add: index_ids_None)
    then show ?thesis by (simp add: Probability_def)
  qed
  show ?thesis using wf sk val none by (simp add: b)
qed

text \<open>
  A constructed belief is canonical: its keys are strictly sorted and non-empty, its
  probabilities are finite and parallel to the keys, and for every key the probability is the one
  supplied with it; a key that was not supplied has probability zero.
\<close>

theorem NewBelief_canonical:
  assumes "NewBelief scale keys probs = Inr b"
  shows "belief_wf b \<and> bl_scale b = scale \<and> set (bl_keys b) = set keys \<and>
    (\<forall>i<length keys. Probability b (keys ! i) = probs ! i) \<and> (\<forall>k. k \<notin> set keys \<longrightarrow> Probability b k = 0)"
  by (rule NewBelief_spec [OF assms])

lemma NewBelief_canonical_witness:
  "\<exists>b. NewBelief (AggregatedMarket []) [''B'', ''A''] [Fin (1 / 4), Fin (3 / 4) :: 0 fl] = Inr b \<and> Probability b ''A'' = Fin (3 / 4)"
proof -
  have "ValidateSimplex [Fin (1 / 4), Fin (3 / 4) :: 0 fl] DefaultSimplexTolerance = Inr ()"
    using CompensatedSum_exact [of "[1 / 4, 3 / 4]"]
    by (simp add: ValidateSimplex_def DefaultSimplexTolerance_def Let_def zero_fl_def one_fl_def)
  then obtain b where b: "NewBelief (AggregatedMarket []) [''B'', ''A''] [Fin (1 / 4), Fin (3 / 4) :: 0 fl] = Inr b"
    using NewBelief_ok [of "[''B'', ''A'']" "[Fin (1 / 4), Fin (3 / 4) :: 0 fl]"] by auto
  have "\<forall>i<length [''B'', ''A'']. Probability b ([''B'', ''A''] ! i) = [Fin (1 / 4), Fin (3 / 4) :: 0 fl] ! i"
    using NewBelief_canonical [OF b] by blast
  then have "Probability b ''A'' = Fin (3 / 4)" by (drule_tac spec [of _ 1]) simp
  with b show ?thesis by blast
qed

section \<open>Canonical matrices\<close>

lemma canonical_rows_Inr:
  assumes "canonical_rows orig keys data ks = Inr rows"
  shows "length rows = length ks \<and> (\<forall>i<length ks. rows ! i = map (\<lambda>k'. data ! orig (ks ! i) ! orig k') keys \<and>
    ValidateSimplex (rows ! i) DefaultSimplexTolerance = Inr ())"
  using assms
proof (induction ks arbitrary: rows)
  case (Cons k ks)
  let ?row = "map (\<lambda>k'. data ! orig k ! orig k') keys"
  have v: "ValidateSimplex ?row DefaultSimplexTolerance = Inr ()"
    using Cons.prems by (cases "ValidateSimplex ?row DefaultSimplexTolerance") (auto simp: Let_def split: if_splits)
  obtain rest where rest: "canonical_rows orig keys data ks = Inr rest" "rows = ?row # rest"
    using Cons.prems v by (auto simp: Let_def split: if_splits sum.splits)
  show ?case
  proof (intro conjI allI impI)
    show "length rows = length (k # ks)" using Cons.IH [OF rest(1)] rest(2) by simp
    fix i assume i: "i < length (k # ks)"
    show "rows ! i = map (\<lambda>k'. data ! orig ((k # ks) ! i) ! orig k') keys"
      "ValidateSimplex (rows ! i) DefaultSimplexTolerance = Inr ()"
      using i Cons.IH [OF rest(1)] rest(2) v by (cases i; simp)+
  qed
qed simp

lemma NewTransitionMatrix_cases:
  assumes "NewTransitionMatrix keys data = Inr tm"
  shows "keys \<noteq> [] \<and> distinct keys \<and> tm_keys tm = sort_slice (<) keys \<and> tm_dim tm = length keys \<and>
    tm_index tm = index_ids 0 (sort_slice (<) keys) Map.empty \<and> length (tm_matrix tm) = length keys \<and>
    (\<forall>i<length keys. tm_matrix tm ! i =
        map (\<lambda>k'. data ! idx_of (index_ids 0 keys Map.empty) (sort_slice (<) keys ! i) ! idx_of (index_ids 0 keys Map.empty) k')
          (sort_slice (<) keys) \<and>
      ValidateSimplex (tm_matrix tm ! i) DefaultSimplexTolerance = Inr ())"
proof -
  obtain m where m: "index_pairs 0 (map (\<lambda>key. (key, ())) keys) Map.empty = Inr m"
    using assms by (cases "index_pairs 0 (map (\<lambda>key. (key, ())) keys) Map.empty")
      (auto simp: NewTransitionMatrix_def Let_def split: if_splits)
  then have mk: "distinct keys" "m = index_ids 0 keys Map.empty" by (simp_all add: index_pairs_Inr o_def)
  obtain rows where rows: "canonical_rows (idx_of m) (sort_slice (<) keys) data (sort_slice (<) keys) = Inr rows"
    using assms m by (cases "canonical_rows (idx_of m) (sort_slice (<) keys) data (sort_slice (<) keys)")
      (auto simp: NewTransitionMatrix_def Let_def split: if_splits)
  have tm: "keys \<noteq> []" "tm = \<lparr>tm_keys = sort_slice (<) keys, tm_index = index_ids 0 (sort_slice (<) keys) Map.empty,
      tm_matrix = rows, tm_dim = length keys\<rparr>"
    using assms m rows by (auto simp: NewTransitionMatrix_def Let_def split: if_splits)
  have r: "length rows = length keys \<and> (\<forall>i<length keys. rows ! i =
        map (\<lambda>k'. data ! idx_of m (sort_slice (<) keys ! i) ! idx_of m k') (sort_slice (<) keys) \<and>
      ValidateSimplex (rows ! i) DefaultSimplexTolerance = Inr ())"
    using canonical_rows_Inr [OF rows] unfolding length_sort_slice .
  show ?thesis unfolding tm(2) TransitionMatrix.select_convs using tm(1) mk(1) r [unfolded mk(2)] by blast
qed

text \<open>
  A constructed transition matrix is the supplied one in canonical order: the entry for a
  pair of keys is the supplied probability of that pair, whatever the order of the keys.
\<close>

theorem NewTransitionMatrix_entries:
  assumes "NewTransitionMatrix keys data = Inr tm" and "i < length keys" and "j < length keys"
  shows "TM_At tm (keys ! i) (keys ! j) = Some (data ! i ! j) \<and> sorted_wrt (<) (tm_keys tm) \<and> set (tm_keys tm) = set keys"
proof -
  let ?s = "sort_slice (<) keys"
  note C = NewTransitionMatrix_cases [OF assms(1)]
  have d: "distinct keys" "distinct ?s" using C distinct_map_sort_slice [of id "(<)" keys] by simp_all
  have st: "sorted_wrt (<) ?s" using sort_slice_key_strict [of id keys] d by simp
  have pos: "\<exists>a<length keys. ?s ! a = keys ! x \<and> index_ids 0 ?s Map.empty (keys ! x) = Some a" if "x < length keys" for x
  proof -
    have "keys ! x \<in> set ?s" using that by simp
    then obtain a where "a < length ?s" "?s ! a = keys ! x" by (metis in_set_conv_nth)
    then show ?thesis using index_ids_nth [OF d(2), of a] by auto
  qed
  obtain a where a: "a < length keys" "?s ! a = keys ! i" "index_ids 0 ?s Map.empty (keys ! i) = Some a"
    using pos [OF assms(2)] by blast
  obtain b where b: "b < length keys" "?s ! b = keys ! j" "index_ids 0 ?s Map.empty (keys ! j) = Some b"
    using pos [OF assms(3)] by blast
  have orig: "idx_of (index_ids 0 keys Map.empty) (keys ! x) = x" if "x < length keys" for x
    using index_ids_nth [OF d(1) that] by (simp add: idx_of_def)
  have "tm_matrix tm ! a ! b = data ! i ! j"
    using C a(1,2) b(1,2) orig [OF assms(2)] orig [OF assms(3)] by simp
  then have "TM_At tm (keys ! i) (keys ! j) = Some (data ! i ! j)" using C a(3) b(3) by (simp add: TM_At_def)
  with st C show ?thesis by simp
qed

lemma ValidateSimplex_exact:
  assumes "ValidateSimplex (ps :: 0 fl list) DefaultSimplexTolerance = Inr ()"
  shows "\<exists>q. ps = map Fin q \<and> \<bar>sum_list q - 1\<bar> \<le> 1 / 1000000000"
proof -
  obtain q where q: "ps = map Fin q" using all_fin_map [OF ValidateSimplex_Inr(2) [OF assms]] by blast
  have "\<not> (Fin (1 / 1000000000) :: 0 fl) < \<bar>Fin (sum_list q - 1)\<bar>"
    using assms unfolding q ValidateSimplex_def CompensatedSum_exact
    by (auto simp: DefaultSimplexTolerance_def Let_def zero_fl_def one_fl_def split: if_splits sum.splits)
  with q show ?thesis by auto
qed

text \<open>
  Prediction nearly preserves probability mass: in exact arithmetic the predicted vector
  has one entry per state and its sum differs from the sum of the prior by at most the validation
  tolerance times the absolute mass of the prior.
\<close>

theorem Predict_mass:
  assumes "NewTransitionMatrix keys data = Inr (tm :: 0 TransitionMatrix)" and "length p = length keys"
  shows "\<exists>r. Predict tm (map Fin p) = Inr (map Fin r) \<and> length r = length keys \<and>
    \<bar>sum_list r - sum_list p\<bar> \<le> (1 / 1000000000) * sum_list (map abs p)"
proof -
  let ?n = "length keys"
  note C = NewTransitionMatrix_cases [OF assms(1)]
  have "\<forall>i<?n. \<exists>q. tm_matrix tm ! i = map Fin q \<and> \<bar>sum_list q - 1\<bar> \<le> 1 / 1000000000"
    using C ValidateSimplex_exact by blast
  then obtain Q where Q: "\<And>i. i < ?n \<Longrightarrow> tm_matrix tm ! i = map Fin (Q i) \<and> \<bar>sum_list (Q i) - 1\<bar> \<le> 1 / 1000000000"
    by metis
  have lenQ: "length (Q i) = ?n" if "i < ?n" for i
  proof -
    have "length (tm_matrix tm ! i) = ?n" using C that by simp
    with Q [OF that] show ?thesis by simp
  qed
  define r where "r = map (\<lambda>j. \<Sum>i<?n. p ! i * Q i ! j) [0..<?n]"
  have col: "CompensatedSum (map (\<lambda>i. map Fin p ! i * tm_matrix tm ! i ! j) [0..<?n]) = (Fin (\<Sum>i<?n. p ! i * Q i ! j) :: 0 fl)"
    if "j < ?n" for j
  proof -
    have "map (\<lambda>i. map Fin p ! i * tm_matrix tm ! i ! j) [0..<?n] = (map Fin (map (\<lambda>i. p ! i * Q i ! j) [0..<?n]) :: 0 fl list)"
      using Q lenQ assms(2) that by simp
    then have "CompensatedSum (map (\<lambda>i. map Fin p ! i * tm_matrix tm ! i ! j) [0..<?n]) = (Fin (sum_list (map (\<lambda>i. p ! i * Q i ! j) [0..<?n])) :: 0 fl)"
      by (simp only: CompensatedSum_exact)
    then show ?thesis by (simp add: interv_sum_list_conv_sum_set_nat atLeast0LessThan)
  qed
  have pred: "Predict tm (map Fin p) = Inr (map Fin r)"
    using C assms(2) col by (simp add: Predict_def r_def)
  have sums: "sum_list xs = (\<Sum>i<?n. xs ! i)" if "length xs = ?n" for xs :: "rat list"
    using that by (simp add: sum_list_sum_nth atLeast0LessThan)
  have "sum_list r = (\<Sum>j<?n. \<Sum>i<?n. p ! i * Q i ! j)" using sums [of r] by (simp add: r_def)
  also have "\<dots> = (\<Sum>i<?n. p ! i * sum_list (Q i))"
    by (subst sum.swap) (simp add: sum_distrib_left [symmetric] sums lenQ)
  finally have "sum_list r - sum_list p = (\<Sum>i<?n. p ! i * (sum_list (Q i) - 1))"
    by (simp add: sums [OF assms(2)] sum_subtractf [symmetric] algebra_simps)
  also have "\<bar>\<dots>\<bar> \<le> (\<Sum>i<?n. \<bar>p ! i * (sum_list (Q i) - 1)\<bar>)" by (rule sum_abs)
  also have "\<dots> \<le> (\<Sum>i<?n. (1 / 1000000000) * \<bar>p ! i\<bar>)"
  proof (rule sum_mono)
    fix i assume "i \<in> {..<?n}"
    with Q [of i] have "\<bar>sum_list (Q i) - 1\<bar> \<le> 1 / 1000000000" by simp
    then have "\<bar>p ! i\<bar> * \<bar>sum_list (Q i) - 1\<bar> \<le> \<bar>p ! i\<bar> * (1 / 1000000000)" by (rule mult_left_mono) simp
    then show "\<bar>p ! i * (sum_list (Q i) - 1)\<bar> \<le> (1 / 1000000000) * \<bar>p ! i\<bar>" by (simp add: abs_mult)
  qed
  also have "\<dots> = (1 / 1000000000) * sum_list (map abs p)"
    using sums [of "map abs p"] assms(2) by (simp add: sum_distrib_left)
  finally show ?thesis using pred by (intro exI [of _ r]) (simp add: r_def)
qed

definition demo_tm_data :: "0 fl list list" where
  "demo_tm_data = [[Fin (1 / 2), Fin (1 / 2)], [Fin (1 / 4), Fin (3 / 4)]]"

lemma demo_tm_ok: "\<exists>tm. NewTransitionMatrix [''B'', ''A''] demo_tm_data = Inr tm"
proof -
  have v: "ValidateSimplex [Fin a, Fin b :: 0 fl] DefaultSimplexTolerance = Inr ()" if "0 \<le> a" "0 \<le> b" "a + b = 1" for a b
    using CompensatedSum_exact [of "[a, b]"] that
    by (simp add: ValidateSimplex_def DefaultSimplexTolerance_def Let_def zero_fl_def one_fl_def)
  have s: "sort_slice (<) [''B'', ''A''] = [''A'', ''B'']" by (simp add: sort_slice_def)
  show ?thesis
    by (simp add: NewTransitionMatrix_def s demo_tm_data_def Let_def idx_of_def v)
qed

lemma NewTransitionMatrix_entries_witness:
  "\<exists>tm. NewTransitionMatrix [''B'', ''A''] demo_tm_data = Inr tm \<and> TM_At tm ''B'' ''A'' = Some (Fin (1 / 2))"
proof -
  obtain tm where tm: "NewTransitionMatrix [''B'', ''A''] demo_tm_data = Inr tm" using demo_tm_ok by blast
  from NewTransitionMatrix_entries [OF tm, of 0 1] have "TM_At tm ''B'' ''A'' = Some (demo_tm_data ! 0 ! 1)" by simp
  with tm show ?thesis by (simp add: demo_tm_data_def)
qed

lemma Predict_mass_witness:
  "\<exists>tm r. NewTransitionMatrix [''B'', ''A''] demo_tm_data = Inr tm \<and> Predict tm (map Fin [1 / 3, 2 / 3]) = Inr (map Fin r) \<and>
    \<bar>sum_list r - 1\<bar> \<le> 1 / 1000000000"
proof -
  obtain tm where tm: "NewTransitionMatrix [''B'', ''A''] demo_tm_data = Inr tm" using demo_tm_ok by blast
  from Predict_mass [OF tm, of "[1 / 3, 2 / 3]"] obtain r where
    "Predict tm (map Fin [1 / 3, 2 / 3]) = Inr (map Fin r)"
    "\<bar>sum_list r - sum_list [1 / 3, 2 / 3]\<bar> \<le> (1 / 1000000000) * sum_list (map abs [1 / 3, 2 / 3])" by auto
  with tm show ?thesis by (intro exI [of _ tm] exI [of _ r]) simp
qed

end
