(* ===== verification/Cost.thy ===== *)
theory Cost
  imports Feasibility Rules Belief
begin

text \<open>
  \<open>internal/domain/policy\<close>: \<open>cost.go\<close> (the trip cost, without and with business rules) and
  \<open>provenance.go\<close> (the evaluation of one candidate arc and the audit record of a decision). The records that
  flow through the matcher are generic in the precision of their numbers, like the solver they feed.
\<close>

section \<open>Trip cost\<close>

record 'p TripCostBreakdown =
  TcRevenue :: "'p fl"
  TcFixedCost :: "'p fl"
  TcLoadedCost :: "'p fl"
  TcEmptyCost :: "'p fl"
  TcEmptyToHomeCost :: "'p fl"
  TcDwellCost :: "'p fl"
  TcLatePenalty :: "'p fl"
  TcDriverBonus :: "'p fl"
  TcTotalCost :: "'p fl"
  NetContribution :: "'p fl"

definition loc_set :: "Location \<Rightarrow> bool" where
  "loc_set l \<longleftrightarrow> NodeID l \<noteq> '''' \<or> \<not> feq (Lat l) 0 \<or> \<not> feq (Lon l) 0"

text \<open>The parts the two functions have in common: dwell, late penalty and the final sums.\<close>

definition dwell_cost :: "CandidateArc \<Rightarrow> CostConfig \<Rightarrow> f64" where
  "dwell_cost arc cfg = of_int_fl (ArcInsertedDwellMin arc) / Fin 60 * EarlyArrivalPerHour cfg"

definition late_penalty :: "Load \<Rightarrow> CandidateArc \<Rightarrow> CostConfig \<Rightarrow> f64" where
  "late_penalty load arc cfg =
     (if DeliveryLatestEpoch load > 0 \<and> Unix_of (ArcDeliveryArrivalTime arc) > DeliveryLatestEpoch load
      then of_int_fl (Unix_of (ArcDeliveryArrivalTime arc) - DeliveryLatestEpoch load) / Fin 3600 * LateDeliveryPerHour cfg
      else 0)"

definition bonus_due :: "CandidateArc \<Rightarrow> CostConfig \<Rightarrow> bool" where
  "bonus_due arc cfg \<longleftrightarrow> DriverBonusWeight cfg > 0 \<and> LoadedMiles arc > 0 \<and> DeadheadMiles arc < Fin 50"

definition breakdown ::
  "'p::len0 fl \<Rightarrow> 'p fl \<Rightarrow> 'p fl \<Rightarrow> 'p fl \<Rightarrow> 'p fl \<Rightarrow> 'p fl \<Rightarrow> 'p fl \<Rightarrow> 'p fl \<Rightarrow> 'p TripCostBreakdown" where
  "breakdown revenue fixedCost loadedCost emptyCost emptyToHomeCost dwellCost latePenalty driverBonus =
     (let totalCost = fixedCost + loadedCost + emptyCost + emptyToHomeCost + dwellCost + latePenalty - driverBonus in
      \<lparr>TcRevenue = revenue, TcFixedCost = fixedCost, TcLoadedCost = loadedCost, TcEmptyCost = emptyCost,
       TcEmptyToHomeCost = emptyToHomeCost, TcDwellCost = dwellCost, TcLatePenalty = latePenalty,
       TcDriverBonus = driverBonus, TcTotalCost = totalCost, NetContribution = revenue - totalCost\<rparr>)"

definition CalculateTripCost :: "libm \<Rightarrow> Driver \<Rightarrow> Load \<Rightarrow> CandidateArc \<Rightarrow> CostConfig \<Rightarrow> 53 TripCostBreakdown" where
  "CalculateTripCost L driver load arc cfg =
     (let fixedCost = FixedCostPerLoad cfg;
          loadedCost = LoadedMiles arc * LoadedMileRate cfg;
          emptyCost = DeadheadMiles arc * EmptyMileRate cfg;
          homeTarget = (let h = HomeLocation driver in
            if NodeID h = '''' \<and> feq (Lat h) 0 \<and> feq (Lon h) 0 then CurrentLocation driver else h);
          emptyToHomeCost = (if loc_set homeTarget \<and> loc_set (Destination load)
            then DistanceMiles L (Destination load) homeTarget * EmptyToHomeRate cfg else 0);
          driverBonus = (if bonus_due arc cfg then Fin 25 * DriverBonusWeight cfg else 0)
      in breakdown (Revenue load) fixedCost loadedCost emptyCost emptyToHomeCost (dwell_cost arc cfg)
           (late_penalty load arc cfg) driverBonus)"

definition CalculateTripCostWithRules ::
  "libm \<Rightarrow> Driver \<Rightarrow> Load \<Rightarrow> CandidateArc \<Rightarrow> CostConfig \<Rightarrow> RuleEvaluationResult \<Rightarrow> 53 TripCostBreakdown" where
  "CalculateTripCostWithRules L driver load arc cfg ruleRes =
     (let fixedCost = FixedCostPerLoad cfg * FixedCostMultiplier ruleRes;
          loadedCost = LoadedMiles arc * LoadedMileRate cfg * LoadedRateMultiplier ruleRes;
          emptyCost = DeadheadMiles arc * EmptyMileRate cfg * EmptyRateMultiplier ruleRes;
          emptyToHomeCost = (if loc_set (CurrentLocation driver) \<and> loc_set (Destination load)
            then DistanceMiles L (Destination load) (CurrentLocation driver) * EmptyToHomeRate cfg * EmptyToHomeMultiplier ruleRes
            else 0);
          driverBonus = (if bonus_due arc cfg then Bonus ruleRes + Fin 25 * DriverBonusWeight cfg else Bonus ruleRes)
      in breakdown (Revenue load) fixedCost loadedCost emptyCost emptyToHomeCost (dwell_cost arc cfg)
           (late_penalty load arc cfg) driverBonus)"

subsection \<open>Identity rules\<close>

text \<open>Rounding is idempotent, so multiplying a rounded value by one changes nothing.\<close>

lemma round_sig_idem: "round_sig p (round_sig p q) = round_sig p q"
proof (cases "p = 0 \<or> q = 0")
  case False
  define k where "k = max (ilog2 \<bar>q\<bar>) (- 1022) - int p + 1"
  define m where "m = round_even (q / pow2 k)"
  have r: "round_sig p q = of_int m * pow2 k" using False by (simp add: round_sig_def m_def k_def Let_def)
  have k: "- 1022 - int p + 1 \<le> k" by (simp add: k_def)
  have "\<bar>q\<bar> < pow2 (ilog2 \<bar>q\<bar> + 1)" using ilog2_bounds [of "\<bar>q\<bar>"] False by simp
  also have "\<dots> \<le> pow2 (k + int p)" by (rule pow2_mono) (simp add: k_def)
  also have "\<dots> = pow2 k * pow2 (int p)" by (rule pow2_add)
  finally have "\<bar>q / pow2 k\<bar> \<le> pow2 (int p)" by (simp add: abs_divide divide_le_eq mult.commute)
  then have "- pow2 (int p) \<le> q / pow2 k" "q / pow2 k \<le> pow2 (int p)" by linarith+
  moreover have "pow2 (int p) = of_int (2 ^ p)" "- pow2 (int p) = of_int (- (2 ^ p))" by (simp_all add: pow2_nat)
  ultimately have "round_even (of_int (- (2 ^ p))) \<le> m" "m \<le> round_even (of_int (2 ^ p))"
    unfolding m_def using round_even_mono by metis+
  then have b: "- (2 ^ p) \<le> m" "m \<le> 2 ^ p" by (simp_all only: round_even_of_int)
  show ?thesis
  proof (cases "\<bar>m\<bar> = 2 ^ p")
    case True
    then have "even m" using False by (metis abs_dvd_iff dvd_abs_iff dvd_power neq0_conv even_power)
    then obtain n where n: "m = 2 * n" by blast
    have e: "round_sig p q = of_int n * pow2 (k + 1)" unfolding r n pow2_succ by simp
    have "2 * \<bar>n\<bar> = 2 ^ p" using True unfolding n by (simp add: abs_mult)
    then have "\<bar>n\<bar> < 2 ^ p" by (smt (verit) zero_less_power)
    then have "\<bar>of_int n\<bar> < pow2 (int p)" unfolding pow2_nat by (metis of_int_abs of_int_less_iff of_int_numeral of_int_power)
    then show ?thesis unfolding e by (rule round_sig_representable) (use k in simp)
  next
    case False
    then have "\<bar>m\<bar> < 2 ^ p" using b by (simp add: abs_less_iff order_less_le)
    then have "\<bar>of_int m\<bar> < pow2 (int p)" unfolding pow2_nat by (metis of_int_abs of_int_less_iff of_int_numeral of_int_power)
    then show ?thesis unfolding r by (rule round_sig_representable) (rule k)
  qed
qed auto

text \<open>The values a float can hold: \<open>Fin q\<close> only for numbers of the format.\<close>

definition holds_fl :: "'p::len0 fl \<Rightarrow> bool" where
  "holds_fl x \<longleftrightarrow> (\<forall>q. x = Fin q \<longrightarrow> rnd q = x)"

lemma holds_rnd: "holds_fl (rnd q)"
  by (auto simp: holds_fl_def rnd_def Let_def round_sig_idem split: if_splits)

lemma holds_inf_sgn: "holds_fl (inf_sgn s)"
  by (simp add: holds_fl_def inf_sgn_def)

lemma holds_times: "holds_fl (x * y)"
  by (cases x; cases y) (simp_all add: holds_rnd holds_inf_sgn, simp_all add: holds_fl_def)

lemma times_one: "holds_fl x \<Longrightarrow> x * 1 = x"
  by (cases x) (simp_all add: one_fl_def holds_fl_def inf_sgn_def)

lemma plus_zero: "holds_fl x \<Longrightarrow> 0 + x = x"
  by (cases x) (simp_all add: zero_fl_def holds_fl_def)

text \<open>
  Under the identity result of an empty registry, the cost with rules is the plain cost of the same
  driver with the home location forgotten: \<open>CalculateTripCostWithRules\<close> prices the way home from the
  destination to where the driver is now, whatever the driver's home.
\<close>

theorem identity_rules_cost:
  assumes "holds_fl (FixedCostPerLoad cfg)"
  shows "CalculateTripCostWithRules L driver load arc cfg NewRuleEvaluationResult =
    CalculateTripCost L (driver\<lparr>HomeLocation := CurrentLocation driver\<rparr>) load arc cfg"
  using assms
  by (simp add: CalculateTripCostWithRules_def CalculateTripCost_def NewRuleEvaluationResult_def times_one
      holds_times plus_zero Let_def)

definition demo_arc :: CandidateArc where
  "demo_arc = \<lparr>ArcDriverID = ''D1'', ArcLoadID = ''L1'', DeadheadMiles = Fin 10, LoadedMiles = Fin 100,
     ArcDeadheadDriveMin = 12, ArcLoadedDriveMin = 120, ArcInsertedRestMin = 0, ArcInsertedDwellMin = 30,
     TotalTripMin = 252, ArcPickupArrivalTime = 0, ArcLoadingEndTime = 0, ArcDeliveryArrivalTime = 0,
     ArcUnloadingEndTime = 0\<rparr>"

lemma identity_rules_cost_witness:
  "CalculateTripCostWithRules demo_libm (demo_driver ''D1'' demo_A) (demo_load ''L1'' demo_A demo_B) demo_arc
     DefaultCostConfig NewRuleEvaluationResult =
   CalculateTripCost demo_libm (demo_driver ''D1'' demo_A\<lparr>HomeLocation := CurrentLocation (demo_driver ''D1'' demo_A)\<rparr>)
     (demo_load ''L1'' demo_A demo_B) demo_arc DefaultCostConfig"
  by (rule identity_rules_cost) (simp add: DefaultCostConfig_def holds_fl_def)

section \<open>Provenance\<close>

record 'p CandidateEvaluation =
  EvDriverID :: string
  EvLoadID :: string
  CostBreakdown :: "'p TripCostBreakdown"
  CFAAdjustment :: "'p fl"
  VFAValue :: "'p fl"
  DLAValue :: "'p fl"
  TotalScore :: "'p fl"
  PostDecisionRegion :: string
  EvDeadheadMiles :: f64
  EvLoadedMiles :: f64
  EvInsertedDwellMin :: int
  EvInsertedRestMin :: int
  EvTotalTripMin :: int
  IsAssigned :: bool

text \<open>\<open>ActiveBelief\<close> and \<open>PricingVariables\<close> are maps, \<open>None\<close> for the nil map.\<close>

record DecisionProvenance =
  OptimizationRunID :: string
  BatchEpoch :: int
  PolicyName :: string
  ThetaParameters :: "f64 list"
  EvaluatedArcs :: "53 CandidateEvaluation list"
  MatchedCount :: nat
  TotalNetContribution :: f64
  TotalObjectiveValue :: f64
  ActiveBelief :: "(string \<rightharpoonup> f64) option"
  DriverCount :: nat
  LoadCount :: nat
  ProvCompetitorDimension :: int
  PricingVariables :: "(string \<rightharpoonup> f64) option"

definition NewDecisionProvenance :: "string \<Rightarrow> 53 Belief State option \<Rightarrow> f64 list \<Rightarrow> DecisionProvenance" where
  "NewDecisionProvenance policyName state theta =
     (let prov = \<lparr>OptimizationRunID = '''', BatchEpoch = 0, PolicyName = policyName, ThetaParameters = theta,
        EvaluatedArcs = [], MatchedCount = 0, TotalNetContribution = 0, TotalObjectiveValue = 0,
        ActiveBelief = None, DriverCount = 0, LoadCount = 0, ProvCompetitorDimension = 0, PricingVariables = None\<rparr> in
      case state of
        None \<Rightarrow> prov
      | Some s \<Rightarrow>
          let epoch = epoch (st_information s);
              drivers = rs_drivers (st_resource s);
              epoch = (if length drivers > 0 \<and> epoch = 0 then AvailableEpoch (drivers ! 0) else epoch)
          in prov\<lparr>BatchEpoch := epoch, DriverCount := length drivers, LoadCount := length (rs_loads (st_resource s)),
               ProvCompetitorDimension := CompetitorDimension (bl_scale (st_belief s)),
               ActiveBelief := Some (Distribution (st_belief s))\<rparr>)"

definition eval_less :: "'p CandidateEvaluation \<Rightarrow> 'p CandidateEvaluation \<Rightarrow> bool" where
  "eval_less a b = (if EvDriverID a \<noteq> EvDriverID b then EvDriverID a < EvDriverID b else EvLoadID a < EvLoadID b)"

definition Canonicalize :: "DecisionProvenance \<Rightarrow> DecisionProvenance" where
  "Canonicalize dp = dp\<lparr>EvaluatedArcs := sort_slice eval_less (EvaluatedArcs dp)\<rparr>"

end
