(* ===== verification/Matcher.thy ===== *)
theory Matcher
  imports Lap_Float Cost
begin

text \<open>
  \<open>internal/domain/policy/matcher.go\<close>: the one-to-one assignment of drivers to loads from the scored
  candidate evaluations, by the exact solver or greedily. Tracing is not modelled. The precision of the
  scores is a parameter; the record of a match holds an \<open>f64\<close>, so its contribution passes through
  \<open>cast_fl\<close>, the identity at the precision of the code. \<open>None\<close> is a solver that does not return.
\<close>

section \<open>The matcher\<close>

datatype MatchingAlgorithm = AlgorithmExactLAP | AlgorithmGreedy

definition InfeasibleScoreSentinel :: "'p fl" where
  "InfeasibleScoreSentinel = Fin (- 1000000000)"

definition NewBipartiteMatcher :: MatchingAlgorithm where
  "NewBipartiteMatcher = AlgorithmExactLAP"

record 'p MatchingSolution =
  Matches :: "DriverLoadMatch list"
  Evaluations :: "'p CandidateEvaluation list"
  TotalObjective :: "'p fl"
  SolNetContribution :: "'p fl"
  DriverDualValues :: "string \<rightharpoonup> 'p fl"
  LoadDualValues :: "string \<rightharpoonup> 'p fl"

fun cast_fl :: "'p fl \<Rightarrow> 'q fl" where
  "cast_fl (Fin q) = Fin q"
| "cast_fl PInf = PInf"
| "cast_fl NInf = NInf"
| "cast_fl NaN = NaN"

lemma cast_fl_id [simp]: "cast_fl x = x"
  by (cases x) auto

definition new_match :: "int \<Rightarrow> 'p CandidateEvaluation \<Rightarrow> DriverLoadMatch" where
  "new_match ep ev = \<lparr>MDriverID = EvDriverID ev, MLoadID = EvLoadID ev, DispatchEpoch = ep,
     EstimatedContribution = cast_fl (NetContribution (CostBreakdown ev))\<rparr>"

subsection \<open>Greedy\<close>

definition score_less :: "'p::len0 CandidateEvaluation \<Rightarrow> 'p CandidateEvaluation \<Rightarrow> bool" where
  "score_less a b =
     (if \<not> feq (TotalScore a) (TotalScore b) then TotalScore a > TotalScore b
      else if EvDriverID a \<noteq> EvDriverID b then EvDriverID a < EvDriverID b
      else EvLoadID a < EvLoadID b)"

record 'p greedy_state =
  g_drivers :: "string set"
  g_loads :: "string set"
  g_matches :: "DriverLoadMatch list"
  g_evals :: "'p CandidateEvaluation list"
  g_obj :: "'p fl"
  g_net :: "'p fl"

text \<open>The loop body; \<open>g_evals\<close> is the part of the sorted slice already passed, with its marks.\<close>

definition greedy_step ::
  "int \<Rightarrow> bool \<Rightarrow> 'p::len0 CandidateEvaluation \<Rightarrow> 'p greedy_state \<Rightarrow> 'p greedy_state" where
  "greedy_step ep allowNegative ev s =
     (if \<not> allowNegative \<and> TotalScore ev \<le> 0 then s\<lparr>g_evals := g_evals s @ [ev]\<rparr>
      else if EvDriverID ev \<notin> g_drivers s \<and> EvLoadID ev \<notin> g_loads s then
        \<lparr>g_drivers = insert (EvDriverID ev) (g_drivers s), g_loads = insert (EvLoadID ev) (g_loads s),
         g_matches = g_matches s @ [new_match ep ev], g_evals = g_evals s @ [ev\<lparr>IsAssigned := True\<rparr>],
         g_obj = g_obj s + TotalScore ev, g_net = g_net s + NetContribution (CostBreakdown ev)\<rparr>
      else s\<lparr>g_evals := g_evals s @ [ev]\<rparr>)"

definition greedy_init :: "'p::len0 greedy_state" where
  "greedy_init = \<lparr>g_drivers = {}, g_loads = {}, g_matches = [], g_evals = [], g_obj = 0, g_net = 0\<rparr>"

definition solveGreedy :: "'p::len0 CandidateEvaluation list \<Rightarrow> int \<Rightarrow> bool \<Rightarrow> 'p greedy_state" where
  "solveGreedy evals ep allowNegative =
     fold (greedy_step ep allowNegative) (sort_slice score_less evals) greedy_init"

subsection \<open>Exact\<close>

text \<open>The distinct IDs in sorted order, and their positions.\<close>

definition distinct_ids :: "string list \<Rightarrow> string list" where
  "distinct_ids ids = sort_slice (<) (remdups ids)"

definition id_pos :: "string list \<Rightarrow> string \<Rightarrow> nat" where
  "id_pos ids k = idx_or_0 (index_ids 0 ids Map.empty k)"

definition fill_arc ::
  "string list \<Rightarrow> string list \<Rightarrow> nat \<times> 'p::len0 CandidateEvaluation \<Rightarrow>
    'p fl list list \<times> (nat \<rightharpoonup> nat) \<Rightarrow> 'p fl list list \<times> (nat \<rightharpoonup> nat)" where
  "fill_arc driverIDs loadIDs iev acc =
     (case (iev, acc) of ((idx, ev), (matrix, evalIndexMap)) \<Rightarrow>
       let i = id_pos driverIDs (EvDriverID ev); j = id_pos loadIDs (EvLoadID ev) in
       if TotalScore ev > matrix ! i ! j
       then (matrix[i := (matrix ! i)[j := TotalScore ev]], evalIndexMap(i * length loadIDs + j \<mapsto> idx))
       else (matrix, evalIndexMap))"

definition payout ::
  "string list \<Rightarrow> string list \<Rightarrow> 'p::len0 CandidateEvaluation list \<Rightarrow> 'p fl list list \<times> (nat \<rightharpoonup> nat)" where
  "payout driverIDs loadIDs evals =
     fold (fill_arc driverIDs loadIDs) (zip [0..<length evals] evals)
       (replicate (length driverIDs) (replicate (length loadIDs) InfeasibleScoreSentinel), Map.empty)"

text \<open>The dual values, keyed by ID.\<close>

definition dual_map :: "string list \<Rightarrow> 'p fl list \<Rightarrow> string \<rightharpoonup> 'p fl" where
  "dual_map ids duals =
     fold (\<lambda>(i, k) m. if i < length duals then m(k \<mapsto> duals ! i) else m) (zip [0..<length ids] ids) Map.empty"

text \<open>The loop over the rows; the accumulator is \<open>(copiedEvals, matches, totalObjective, totalNetContrib)\<close>.\<close>

definition take_row ::
  "string list \<Rightarrow> string list \<Rightarrow> 'p::len0 fl list list \<Rightarrow> (nat \<rightharpoonup> nat) \<Rightarrow> int list \<Rightarrow> int \<Rightarrow> bool \<Rightarrow> nat \<Rightarrow>
    'p CandidateEvaluation list \<times> DriverLoadMatch list \<times> 'p fl \<times> 'p fl \<Rightarrow>
    'p CandidateEvaluation list \<times> DriverLoadMatch list \<times> 'p fl \<times> 'p fl" where
  "take_row driverIDs loadIDs matrix evalIndexMap rowToCol ep allowNegative r acc =
     (case acc of (evs, matches, obj, net) \<Rightarrow>
       let c = rowToCol ! r in
       if c = - 1 then acc
       else let score = matrix ! r ! nat c in
         if score \<le> InfeasibleScoreSentinel + 1 then acc
         else if \<not> allowNegative \<and> score \<le> 0 then acc
         else case evalIndexMap (r * length loadIDs + nat c) of
           None \<Rightarrow> acc
         | Some evIdx \<Rightarrow>
             let evs = evs[evIdx := (evs ! evIdx)\<lparr>IsAssigned := True\<rparr>];
                 netContrib = NetContribution (CostBreakdown (evs ! evIdx)) in
             (evs, matches @ [\<lparr>MDriverID = driverIDs ! r, MLoadID = loadIDs ! nat c, DispatchEpoch = ep,
                EstimatedContribution = cast_fl netContrib\<rparr>], obj + score, net + netContrib))"

definition solveExactLAP ::
  "'p::len0 CandidateEvaluation list \<Rightarrow> int \<Rightarrow> bool \<Rightarrow> 'p MatchingSolution result option" where
  "solveExactLAP evals ep allowNegative =
     (let driverIDs = distinct_ids (map EvDriverID evals);
          loadIDs = distinct_ids (map EvLoadID evals) in
      case payout driverIDs loadIDs evals of (matrix, evalIndexMap) \<Rightarrow>
      case SolveLAP matrix True allowNegative of
        None \<Rightarrow> None
      | Some (Inl e) \<Rightarrow> Some (Inl (Panic ''domain/policy: exact LAP solver failed''))
      | Some (Inr a) \<Rightarrow>
          (case fold (take_row driverIDs loadIDs matrix evalIndexMap (RowToCol a) ep allowNegative)
                  [0..<length driverIDs] (evals, [], 0, 0) of
             (evs, matches, obj, net) \<Rightarrow>
               Some (Inr \<lparr>Matches = sort_slice (\<lambda>x y. MDriverID x < MDriverID y) matches, Evaluations = evs,
                 TotalObjective = obj, SolNetContribution = net,
                 DriverDualValues = dual_map driverIDs (RowDuals a),
                 LoadDualValues = dual_map loadIDs (ColDuals a)\<rparr>)))"

definition SolveMatchingDetailed ::
  "MatchingAlgorithm \<Rightarrow> 'p::len0 CandidateEvaluation list \<Rightarrow> int \<Rightarrow> bool \<Rightarrow> 'p MatchingSolution result option" where
  "SolveMatchingDetailed alg evals ep allowNegative =
     (if length evals = 0 then
        Some (Inr \<lparr>Matches = [], Evaluations = [], TotalObjective = 0, SolNetContribution = 0,
          DriverDualValues = Map.empty, LoadDualValues = Map.empty\<rparr>)
      else if alg = AlgorithmGreedy then
        (let g = solveGreedy evals ep allowNegative in
         Some (Inr \<lparr>Matches = g_matches g, Evaluations = g_evals g, TotalObjective = g_obj g,
           SolNetContribution = g_net g, DriverDualValues = Map.empty, LoadDualValues = Map.empty\<rparr>))
      else solveExactLAP evals ep allowNegative)"

definition SolveMatching ::
  "MatchingAlgorithm \<Rightarrow> 'p::len0 CandidateEvaluation list \<Rightarrow> int \<Rightarrow> bool \<Rightarrow>
    (DriverLoadMatch list \<times> 'p CandidateEvaluation list \<times> 'p fl \<times> 'p fl) result option" where
  "SolveMatching alg evals ep allowNegative =
     (case SolveMatchingDetailed alg evals ep allowNegative of
        None \<Rightarrow> None
      | Some (Inl e) \<Rightarrow> Some (Inl e)
      | Some (Inr sol) \<Rightarrow> Some (Inr (Matches sol, Evaluations sol, TotalObjective sol, SolNetContribution sol)))"

section \<open>What a solution selects\<close>

text \<open>
  Both algorithms amount to a choice \<open>T\<close> of positions in the (for greedy: sorted) slice of evaluations.
  \<open>selects\<close> says that the choice is one-to-one and what the solution then holds.
\<close>

definition mark :: "'p CandidateEvaluation list \<Rightarrow> nat set \<Rightarrow> 'p CandidateEvaluation list" where
  "mark evs T = map (\<lambda>n. if n \<in> T then (evs ! n)\<lparr>IsAssigned := True\<rparr> else evs ! n) [0..<length evs]"

definition selects ::
  "'p::len0 CandidateEvaluation list \<Rightarrow> int \<Rightarrow> bool \<Rightarrow> nat list \<Rightarrow> 'p MatchingSolution \<Rightarrow> bool" where
  "selects evs ep allowNegative T sol \<longleftrightarrow>
     distinct (map (\<lambda>n. EvDriverID (evs ! n)) T) \<and> distinct (map (\<lambda>n. EvLoadID (evs ! n)) T) \<and>
     (\<forall>n\<in>set T. n < length evs \<and> (allowNegative \<or> \<not> TotalScore (evs ! n) \<le> 0)) \<and>
     mset (Matches sol) = mset (map (\<lambda>n. new_match ep (evs ! n)) T) \<and>
     Evaluations sol = mark evs (set T) \<and>
     TotalObjective sol = foldl (+) 0 (map (\<lambda>n. TotalScore (evs ! n)) T) \<and>
     SolNetContribution sol = foldl (+) 0 (map (\<lambda>n. NetContribution (CostBreakdown (evs ! n))) T)"

lemma mark_length [simp]: "length (mark evs T) = length evs"
  by (simp add: mark_def)

lemma mark_nth: "n < length evs \<Longrightarrow>
    mark evs T ! n = (if n \<in> T then (evs ! n)\<lparr>IsAssigned := True\<rparr> else evs ! n)"
  by (simp add: mark_def)

lemma mark_empty [simp]: "mark evs {} = evs"
  by (simp add: mark_def map_nth)

lemma mark_insert: "n < length evs \<Longrightarrow> (mark evs T)[n := (mark evs T ! n)\<lparr>IsAssigned := True\<rparr>] = mark evs (insert n T)"
  by (rule nth_equalityI) (auto simp: mark_nth nth_list_update)

lemma mark_snoc:
  assumes "T \<subseteq> {..<length evs}"
  shows "mark (evs @ [e]) T = mark evs T @ [e]"
    and "mark (evs @ [e]) (insert (length evs) T) = mark evs T @ [e\<lparr>IsAssigned := True\<rparr>]"
  using assms by (auto simp: mark_def nth_append intro!: nth_equalityI)

subsection \<open>The greedy choice\<close>

definition greedy_inv ::
  "int \<Rightarrow> bool \<Rightarrow> 'p::len0 CandidateEvaluation list \<Rightarrow> nat list \<Rightarrow> 'p greedy_state \<Rightarrow> bool" where
  "greedy_inv ep allowNegative evs T s \<longleftrightarrow>
     distinct (map (\<lambda>n. EvDriverID (evs ! n)) T) \<and> distinct (map (\<lambda>n. EvLoadID (evs ! n)) T) \<and>
     (\<forall>n\<in>set T. n < length evs \<and> (allowNegative \<or> \<not> TotalScore (evs ! n) \<le> 0)) \<and>
     g_matches s = map (\<lambda>n. new_match ep (evs ! n)) T \<and> g_evals s = mark evs (set T) \<and>
     g_obj s = foldl (+) 0 (map (\<lambda>n. TotalScore (evs ! n)) T) \<and>
     g_net s = foldl (+) 0 (map (\<lambda>n. NetContribution (CostBreakdown (evs ! n))) T) \<and>
     g_drivers s = set (map (\<lambda>n. EvDriverID (evs ! n)) T) \<and> g_loads s = set (map (\<lambda>n. EvLoadID (evs ! n)) T)"

lemma greedy_step_inv:
  assumes "greedy_inv ep allowNegative evs T s"
  shows "\<exists>T'. greedy_inv ep allowNegative (evs @ [ev]) T' (greedy_step ep allowNegative ev s) \<and> set T \<subseteq> set T' \<and>
    (allowNegative \<or> \<not> TotalScore ev \<le> 0 \<longrightarrow>
       (\<exists>n\<in>set T'. EvDriverID ((evs @ [ev]) ! n) = EvDriverID ev \<or> EvLoadID ((evs @ [ev]) ! n) = EvLoadID ev))"
proof -
  have T: "\<forall>n\<in>set T. n < length evs" "set T \<subseteq> {..<length evs}" using assms by (auto simp: greedy_inv_def)
  then have same: "map (\<lambda>n. f ((evs @ [ev]) ! n)) T = map (\<lambda>n. f (evs ! n)) T" for f :: "_ \<Rightarrow> 'b"
    by (simp add: nth_append)
  have same_d: "map (\<lambda>n. EvDriverID ((evs @ [ev]) ! n)) T = map (\<lambda>n. EvDriverID (evs ! n)) T"
    and same_l: "map (\<lambda>n. EvLoadID ((evs @ [ev]) ! n)) T = map (\<lambda>n. EvLoadID (evs ! n)) T"
    and same_m: "map (\<lambda>n. new_match ep ((evs @ [ev]) ! n)) T = map (\<lambda>n. new_match ep (evs ! n)) T"
    and same_s: "map (\<lambda>n. TotalScore ((evs @ [ev]) ! n)) T = map (\<lambda>n. TotalScore (evs ! n)) T"
    and same_n: "map (\<lambda>n. NetContribution (CostBreakdown ((evs @ [ev]) ! n))) T
      = map (\<lambda>n. NetContribution (CostBreakdown (evs ! n))) T"
    using T(1) by (simp_all add: nth_append)
  have keep: "greedy_inv ep allowNegative (evs @ [ev]) T (s\<lparr>g_evals := g_evals s @ [ev]\<rparr>)"
    using assms T unfolding greedy_inv_def same_d same_l same_m same_s same_n
    by (auto simp: mark_snoc nth_append)
  consider "\<not> allowNegative \<and> TotalScore ev \<le> 0"
    | "allowNegative \<or> \<not> TotalScore ev \<le> 0" "EvDriverID ev \<in> g_drivers s \<or> EvLoadID ev \<in> g_loads s"
    | "allowNegative \<or> \<not> TotalScore ev \<le> 0" "EvDriverID ev \<notin> g_drivers s" "EvLoadID ev \<notin> g_loads s"
    by blast
  then show ?thesis
  proof cases
    case 1
    with keep show ?thesis by (intro exI [of _ T]) (simp add: greedy_step_def)
  next
    case 2
    then have st: "greedy_step ep allowNegative ev s = s\<lparr>g_evals := g_evals s @ [ev]\<rparr>" by (auto simp: greedy_step_def)
    have "\<exists>n\<in>set T. EvDriverID ((evs @ [ev]) ! n) = EvDriverID ev \<or> EvLoadID ((evs @ [ev]) ! n) = EvLoadID ev"
      using 2(2) assms T(1) by (fastforce simp: greedy_inv_def nth_append)
    with keep show ?thesis unfolding st by blast
  next
    case 3
    let ?T = "T @ [length evs]"
    have st: "greedy_step ep allowNegative ev s = \<lparr>g_drivers = insert (EvDriverID ev) (g_drivers s),
         g_loads = insert (EvLoadID ev) (g_loads s), g_matches = g_matches s @ [new_match ep ev],
         g_evals = g_evals s @ [ev\<lparr>IsAssigned := True\<rparr>], g_obj = g_obj s + TotalScore ev,
         g_net = g_net s + NetContribution (CostBreakdown ev)\<rparr>"
      using 3 by (auto simp: greedy_step_def)
    have "greedy_inv ep allowNegative (evs @ [ev]) ?T (greedy_step ep allowNegative ev s)"
      unfolding st greedy_inv_def map_append same_d same_l same_m same_s same_n
      using assms T 3 unfolding greedy_inv_def by (auto simp: mark_snoc nth_append)
    then show ?thesis by (intro exI [of _ ?T]) auto
  qed
qed

lemma greedy_run:
  "\<exists>T. greedy_inv ep allowNegative evs T (fold (greedy_step ep allowNegative) evs greedy_init)"
proof (induction evs rule: rev_induct)
  case Nil
  have "greedy_inv ep allowNegative [] [] (greedy_init :: 'a greedy_state)" by (simp add: greedy_inv_def greedy_init_def mark_def)
  then show ?case by auto
next
  case (snoc ev evs)
  then obtain T where T: "greedy_inv ep allowNegative evs T (fold (greedy_step ep allowNegative) evs greedy_init)" by blast
  from greedy_step_inv [OF T, of ev] show ?case by auto
qed

subsection \<open>Distinct IDs and the payout matrix\<close>

lemma set_distinct_ids [simp]: "set (distinct_ids ids) = set ids"
  by (simp add: distinct_ids_def)

lemma distinct_distinct_ids [simp]: "distinct (distinct_ids ids)"
  using distinct_map_sort_slice [of id "(<)" "remdups ids"] by (simp add: distinct_ids_def)

lemma id_pos_nth: "k \<in> set ids \<Longrightarrow> id_pos ids k < length ids \<and> ids ! id_pos ids k = k"
  using index_ids_empty_None [of ids k] index_ids_empty_Some [of ids k]
  by (auto simp: id_pos_def idx_or_0_def split: option.splits)

lemma id_pos_of_nth: "distinct ids \<Longrightarrow> i < length ids \<Longrightarrow> id_pos ids (ids ! i) = i"
  by (simp add: id_pos_def idx_or_0_def index_ids_nth)

text \<open>The cell keys \<open>i * numLoads + j\<close> are distinct.\<close>

lemma cell_key_inj:
  assumes "j < (m :: nat)" and "j' < m" and "i * m + j = i' * m + j'"
  shows "i = i' \<and> j = j'"
proof -
  have "(i * m + j) div m = (i' * m + j') div m" "(i * m + j) mod m = (i' * m + j') mod m" using assms(3) by simp_all
  with assms(1,2) show ?thesis by simp
qed

text \<open>
  A cell holds the sentinel and no index, or the score of the evaluation the index map names, which is
  one of the cell's driver and load and exceeds the sentinel; no evaluation seen so far exceeds the cell.
\<close>

definition cell_ok ::
  "string list \<Rightarrow> string list \<Rightarrow> 'p::len0 CandidateEvaluation list \<Rightarrow> nat \<Rightarrow> 'p fl list list \<Rightarrow> (nat \<rightharpoonup> nat) \<Rightarrow> nat \<Rightarrow> nat \<Rightarrow> bool" where
  "cell_ok ds ls evals k matrix ix i j \<longleftrightarrow>
     (case ix (i * length ls + j) of
        None \<Rightarrow> matrix ! i ! j = InfeasibleScoreSentinel
      | Some n \<Rightarrow> n < k \<and> EvDriverID (evals ! n) = ds ! i \<and> EvLoadID (evals ! n) = ls ! j \<and>
          matrix ! i ! j = TotalScore (evals ! n) \<and> InfeasibleScoreSentinel < TotalScore (evals ! n)) \<and>
     (\<forall>n<k. EvDriverID (evals ! n) = ds ! i \<longrightarrow> EvLoadID (evals ! n) = ls ! j \<longrightarrow> \<not> matrix ! i ! j < TotalScore (evals ! n))"

definition payout_inv ::
  "string list \<Rightarrow> string list \<Rightarrow> 'p::len0 CandidateEvaluation list \<Rightarrow> nat \<Rightarrow> 'p fl list list \<times> (nat \<rightharpoonup> nat) \<Rightarrow> bool" where
  "payout_inv ds ls evals k acc \<longleftrightarrow>
     length (fst acc) = length ds \<and> (\<forall>row\<in>set (fst acc). length row = length ls) \<and>
     (\<forall>i<length ds. \<forall>j<length ls. cell_ok ds ls evals k (fst acc) (snd acc) i j)"

lemma cell_not_nan:
  assumes "cell_ok ds ls evals k matrix ix i j"
  shows "InfeasibleScoreSentinel \<le> matrix ! i ! j"
  using assms by (auto simp: cell_ok_def less_eq_fl_def InfeasibleScoreSentinel_def split: option.splits)

lemma fill_arc_inv:
  assumes inv: "payout_inv ds ls evals k acc" and k: "k < length evals"
    and d: "EvDriverID (evals ! k) \<in> set ds" "EvLoadID (evals ! k) \<in> set ls" "distinct ds" "distinct ls"
  shows "payout_inv ds ls evals (Suc k) (fill_arc ds ls (k, evals ! k) acc)"
proof -
  obtain matrix ix where acc: "acc = (matrix, ix)" by fastforce
  let ?ev = "evals ! k" and ?i = "id_pos ds (EvDriverID (evals ! k))" and ?j = "id_pos ls (EvLoadID (evals ! k))"
  note I = inv [unfolded payout_inv_def acc fst_conv snd_conv]
  have ij: "?i < length ds" "ds ! ?i = EvDriverID ?ev" "?j < length ls" "ls ! ?j = EvLoadID ?ev"
    using id_pos_nth d(1,2) by metis+
  have rows: "length matrix = length ds" "length (matrix ! ?i) = length ls" using I ij(1) by (auto simp: nth_mem)
  have cell: "cell_ok ds ls evals k matrix ix i j" if "i < length ds" "j < length ls" for i j using I that by blast
  have here: "i = ?i \<and> j = ?j" if "i < length ds" "j < length ls" "EvDriverID ?ev = ds ! i" "EvLoadID ?ev = ls ! j" for i j
    using that ij d(3,4) by (metis nth_eq_iff_index_eq)
  show ?thesis
  proof (cases "matrix ! ?i ! ?j < TotalScore ?ev")
    case False
    have "cell_ok ds ls evals (Suc k) matrix ix i j" if "i < length ds" "j < length ls" for i j
      using cell [OF that] here [OF that] False
      by (auto simp: cell_ok_def less_Suc_eq split: option.splits)
    with I False show ?thesis unfolding payout_inv_def acc by (simp add: fill_arc_def Let_def)
  next
    case True
    let ?m = "matrix[?i := (matrix ! ?i)[?j := TotalScore ?ev]]" and ?ix = "ix(?i * length ls + ?j \<mapsto> k)"
    have "cell_ok ds ls evals (Suc k) ?m ?ix i j" if b: "i < length ds" "j < length ls" for i j
    proof (cases "i = ?i \<and> j = ?j")
      case True
      have s: "InfeasibleScoreSentinel < TotalScore ?ev"
        using cell_not_nan [OF cell [OF ij(1,3)]] \<open>matrix ! ?i ! ?j < TotalScore ?ev\<close> by (rule le_less_fl_trans)
      have old: "\<not> TotalScore ?ev < TotalScore (evals ! n)"
        if "n < k" "EvDriverID (evals ! n) = ds ! ?i" "EvLoadID (evals ! n) = ls ! ?j" for n
        using cell [OF ij(1,3)] that \<open>matrix ! ?i ! ?j < TotalScore ?ev\<close> unfolding cell_ok_def
        by (meson less_fl_trans)
      have e: "?m ! i ! j = TotalScore ?ev" "?ix (i * length ls + j) = Some k" using True rows ij by simp_all
      show ?thesis unfolding cell_ok_def e using True ij s old by (auto simp: less_Suc_eq)
    next
      case False
      have key: "i * length ls + j \<noteq> ?i * length ls + ?j" using cell_key_inj [OF b(2) ij(3)] False by blast
      have val: "?m ! i ! j = matrix ! i ! j" using False rows b by (cases "i = ?i") auto
      have "\<not> (EvDriverID ?ev = ds ! i \<and> EvLoadID ?ev = ls ! j)" using here [OF b] False by blast
      with cell [OF b] key val show ?thesis by (auto simp: cell_ok_def less_Suc_eq split: option.splits)
    qed
    moreover have "\<forall>row\<in>set ?m. length row = length ls" using I rows by (auto dest!: set_update_subset_insert [THEN subsetD])
    ultimately show ?thesis using I True unfolding payout_inv_def acc by (simp add: fill_arc_def Let_def)
  qed
qed

lemma payout_ok:
  assumes "set (map EvDriverID evals) \<subseteq> set ds" and "set (map EvLoadID evals) \<subseteq> set ls" and "distinct ds" and "distinct ls"
  shows "payout_inv ds ls evals (length evals) (payout ds ls evals)"
proof -
  let ?init = "(replicate (length ds) (replicate (length ls) InfeasibleScoreSentinel), Map.empty) :: 'a fl list list \<times> (nat \<rightharpoonup> nat)"
  have "payout_inv ds ls evals k (fold (fill_arc ds ls) (map (\<lambda>n. (n, evals ! n)) [0..<k]) ?init)" if "k \<le> length evals" for k
    using that
  proof (induction k)
    case 0
    show ?case by (auto simp: payout_inv_def cell_ok_def)
  next
    case (Suc k)
    then have "k < length evals" "EvDriverID (evals ! k) \<in> set ds" "EvLoadID (evals ! k) \<in> set ls"
      using assms(1,2) by (auto simp: nth_mem subset_iff)
    with Suc fill_arc_inv [OF _ _ _ _ assms(3,4)] show ?case by simp
  qed
  moreover have "zip [0..<length evals] evals = map (\<lambda>n. (n, evals ! n)) [0..<length evals]"
    by (rule nth_equalityI) auto
  ultimately show ?thesis by (simp add: payout_def)
qed

subsection \<open>The exact choice\<close>

text \<open>The position row \<open>r\<close> is matched with, if the loop takes it.\<close>

definition row_take :: "nat \<Rightarrow> 'p::len0 fl list list \<Rightarrow> (nat \<rightharpoonup> nat) \<Rightarrow> int list \<Rightarrow> bool \<Rightarrow> nat \<Rightarrow> nat option" where
  "row_take m matrix ix rowToCol allowNegative r =
     (let c = rowToCol ! r in
      if c = - 1 then None
      else if matrix ! r ! nat c \<le> InfeasibleScoreSentinel + 1 then None
      else if \<not> allowNegative \<and> matrix ! r ! nat c \<le> 0 then None
      else ix (r * m + nat c))"

lemma take_row_eq:
  "take_row ds ls matrix ix R ep allowNegative r (evs, ms, obj, net) =
     (case row_take (length ls) matrix ix R allowNegative r of
        None \<Rightarrow> (evs, ms, obj, net)
      | Some n \<Rightarrow> let evs' = evs[n := (evs ! n)\<lparr>IsAssigned := True\<rparr>];
                      nc = NetContribution (CostBreakdown (evs' ! n)) in
          (evs', ms @ [\<lparr>MDriverID = ds ! r, MLoadID = ls ! nat (R ! r), DispatchEpoch = ep,
             EstimatedContribution = cast_fl nc\<rparr>], obj + matrix ! r ! nat (R ! r), net + nc))"
  by (simp add: take_row_def row_take_def Let_def)

definition taken_rows :: "nat \<Rightarrow> 'p::len0 fl list list \<Rightarrow> (nat \<rightharpoonup> nat) \<Rightarrow> int list \<Rightarrow> bool \<Rightarrow> nat \<Rightarrow> nat list" where
  "taken_rows m matrix ix R allowNegative k = filter (\<lambda>r. row_take m matrix ix R allowNegative r \<noteq> None) [0..<k]"

lemma row_take_cell:
  assumes inv: "payout_inv ds ls evals (length evals) (matrix, ix)"
    and mir: "mirror (length ds) (length ls) M R K" and M: "is_matching (length ds) (length ls) M" and r: "r < length ds"
    and t: "row_take (length ls) matrix ix R allowNegative r = Some n"
  shows "\<exists>c. R ! r = int c \<and> (r, c) \<in> M \<and> c < length ls \<and> n < length evals \<and> EvDriverID (evals ! n) = ds ! r \<and>
    EvLoadID (evals ! n) = ls ! c \<and> matrix ! r ! c = TotalScore (evals ! n) \<and>
    \<not> TotalScore (evals ! n) \<le> InfeasibleScoreSentinel + 1 \<and> (allowNegative \<or> \<not> TotalScore (evals ! n) \<le> 0)"
proof -
  from t have ne: "R ! r \<noteq> - 1" by (auto simp: row_take_def)
  with mir r obtain c where c: "R ! r = int c" "(r, c) \<in> M" unfolding mirror_def by auto
  have cl: "c < length ls" using M c(2) unfolding is_matching_def by auto
  with inv r have cell: "cell_ok ds ls evals (length evals) matrix ix r c" unfolding payout_inv_def by simp
  from t c(1) have x: "ix (r * length ls + c) = Some n" "\<not> matrix ! r ! c \<le> InfeasibleScoreSentinel + 1"
    "allowNegative \<or> \<not> matrix ! r ! c \<le> 0"
    by (auto simp: row_take_def Let_def split: if_splits)
  from cell have v: "EvDriverID (evals ! n) = ds ! r" "EvLoadID (evals ! n) = ls ! c" "n < length evals"
    "matrix ! r ! c = TotalScore (evals ! n)"
    unfolding cell_ok_def x(1) by simp_all
  with x c cl show ?thesis by (intro exI [of _ c]) simp
qed

lemma distinct_map_filter:
  assumes "distinct xs" and "\<And>x y a b. x \<in> set xs \<Longrightarrow> y \<in> set xs \<Longrightarrow> g x = Some a \<Longrightarrow> g y = Some b \<Longrightarrow> f a = f b \<Longrightarrow> x = y"
  shows "distinct (map f (List.map_filter g xs))"
  using assms
proof (induction xs)
  case (Cons x xs)
  have IH: "distinct (map f (List.map_filter g xs))"
    by (rule Cons.IH) (use Cons.prems in auto)
  show ?case
  proof (cases "g x")
    case None
    with IH show ?thesis by simp
  next
    case (Some a)
    have "f a \<noteq> f b" if "b \<in> set (List.map_filter g xs)" for b
    proof
      assume "f a = f b"
      from that obtain y where "y \<in> set xs" "g y = Some b" by (auto simp: List.map_filter_def)
      with Cons.prems(2) [of x y a b] Some \<open>f a = f b\<close> have "x = y" by simp
      with Cons.prems(1) \<open>y \<in> set xs\<close> show False by simp
    qed
    with IH Some show ?thesis by auto
  qed
qed simp

lemma take_rows_fold:
  assumes cell: "\<And>r n. r < length ds \<Longrightarrow> row_take (length ls) matrix ix R allowNegative r = Some n \<Longrightarrow>
      n < length evals \<and> EvDriverID (evals ! n) = ds ! r \<and> EvLoadID (evals ! n) = ls ! nat (R ! r) \<and>
      matrix ! r ! nat (R ! r) = TotalScore (evals ! n)"
    and "k \<le> length ds"
  defines "T \<equiv> \<lambda>k. List.map_filter (row_take (length ls) matrix ix R allowNegative) [0..<k]"
  shows "fold (take_row ds ls matrix ix R ep allowNegative) [0..<k] (evals, [], 0, 0) =
    (mark evals (set (T k)), map (\<lambda>n. new_match ep (evals ! n)) (T k),
     foldl (+) 0 (map (\<lambda>n. TotalScore (evals ! n)) (T k)),
     foldl (+) 0 (map (\<lambda>n. NetContribution (CostBreakdown (evals ! n))) (T k)))"
  using \<open>k \<le> length ds\<close>
proof (induction k)
  case 0
  show ?case by (simp add: T_def)
next
  case (Suc k)
  have Tk: "T (Suc k) = T k @ (case row_take (length ls) matrix ix R allowNegative k of None \<Rightarrow> [] | Some n \<Rightarrow> [n])"
    by (simp add: T_def List.map_filter_def split: option.splits)
  show ?case
  proof (cases "row_take (length ls) matrix ix R allowNegative k")
    case None
    with Suc Tk show ?thesis by (simp add: take_row_eq)
  next
    case (Some n)
    note c = cell [OF _ Some]
    have n: "n < length evals" using c Suc.prems by simp
    have m: "mark evals (set (T k)) ! n = (evals ! n)\<lparr>IsAssigned := n \<in> set (T k) \<or> IsAssigned (evals ! n)\<rparr>"
      using n by (simp add: mark_nth)
    have "new_match ep (evals ! n) = \<lparr>MDriverID = ds ! k, MLoadID = ls ! nat (R ! k), DispatchEpoch = ep,
        EstimatedContribution = cast_fl (NetContribution (CostBreakdown (evals ! n)))\<rparr>"
      using c Suc.prems by (simp add: new_match_def)
    then show ?thesis
      using Suc Some c n mark_insert [OF n, of "set (T k)"] by (simp add: Tk take_row_eq Let_def m mark_nth)
  qed
qed

lemma exact_run:
  fixes evals :: "'p::len0 CandidateEvaluation list"
  assumes p: "payout ds ls evals = (matrix, ix)" and a: "SolveLAP matrix True allowNegative = Some (Inr a)"
    and ids: "ds = distinct_ids (map EvDriverID evals)" "ls = distinct_ids (map EvLoadID evals)"
  shows "\<exists>sol T. solveExactLAP evals ep allowNegative = Some (Inr sol) \<and> selects evals ep allowNegative T sol \<and>
    T = List.map_filter (row_take (length ls) matrix ix (RowToCol a) allowNegative) [0..<length ds] \<and>
    (\<forall>n\<in>set T. \<not> TotalScore (evals ! n) \<le> InfeasibleScoreSentinel + 1)"
proof -
  have inv: "payout_inv ds ls evals (length evals) (matrix, ix)"
    unfolding p [symmetric] by (rule payout_ok) (simp_all add: ids)
  note len = inv [unfolded payout_inv_def fst_conv]
  have v: "lap_valid matrix = Inr ()" using a unfolding SolveLAP_def by (auto split: sum.splits)
  then have ne: "length matrix \<noteq> 0" by (auto simp: lap_valid_def)
  then have dims: "length matrix = length ds" "length (matrix ! 0) = length ls" using len by auto
  from SolveLAP_matching_spec [OF a, unfolded dims]
  obtain N where N: "complete_matching (length ds) (length ls) N"
    "mirror (length ds) (length ls) (assigned_pairs a) (RowToCol a) (ColToRow a)"
    "assigned_pairs a = {q \<in> N. keeps matrix True allowNegative q}" by blast
  have M: "is_matching (length ds) (length ls) (assigned_pairs a)"
    by (rule is_matching_sub [of _ _ N]) (use N in \<open>auto simp: complete_matching_def\<close>)
  note cell = row_take_cell [OF inv N(2) M]
  let ?take = "row_take (length ls) matrix ix (RowToCol a) allowNegative"
  let ?T = "List.map_filter ?take [0..<length ds]"
  have fold: "fold (take_row ds ls matrix ix (RowToCol a) ep allowNegative) [0..<length ds] (evals, [], 0, 0) =
    (mark evals (set ?T), map (\<lambda>n. new_match ep (evals ! n)) ?T,
     foldl (+) 0 (map (\<lambda>n. TotalScore (evals ! n)) ?T), foldl (+) 0 (map (\<lambda>n. NetContribution (CostBreakdown (evals ! n))) ?T))"
    by (rule take_rows_fold [OF _ le_refl]) (use cell in fastforce)
  have dd: "distinct (map (\<lambda>n. EvDriverID (evals ! n)) ?T)"
  proof (rule distinct_map_filter)
    fix x y m n
    assume a: "x \<in> set [0..<length ds]" "y \<in> set [0..<length ds]" "?take x = Some m" "?take y = Some n"
      "EvDriverID (evals ! m) = EvDriverID (evals ! n)"
    then have "ds ! x = ds ! y" using cell [of x allowNegative m] cell [of y allowNegative n] by auto
    then show "x = y" using a(1,2) distinct_distinct_ids ids by (simp add: nth_eq_iff_index_eq)
  qed simp
  have dl: "distinct (map (\<lambda>n. EvLoadID (evals ! n)) ?T)"
  proof (rule distinct_map_filter)
    fix x y m n
    assume a: "x \<in> set [0..<length ds]" "y \<in> set [0..<length ds]" "?take x = Some m" "?take y = Some n"
      "EvLoadID (evals ! m) = EvLoadID (evals ! n)"
    from cell [of x allowNegative m] cell [of y allowNegative n] a obtain c c' where
      c: "(x, c) \<in> assigned_pairs a" "c < length ls" "EvLoadID (evals ! m) = ls ! c"
      "(y, c') \<in> assigned_pairs a" "c' < length ls" "EvLoadID (evals ! n) = ls ! c'" by auto
    have "c = c'" using c a(5) distinct_distinct_ids ids by (metis nth_eq_iff_index_eq)
    then show "x = y" using c(1,4) M unfolding is_matching_def inj_on_def by fastforce
  qed simp
  have set_T: "\<forall>n\<in>set ?T. n < length evals \<and> (allowNegative \<or> \<not> TotalScore (evals ! n) \<le> 0) \<and>
      \<not> TotalScore (evals ! n) \<le> InfeasibleScoreSentinel + 1"
  proof
    fix n assume "n \<in> set ?T"
    then obtain r where "r < length ds" "?take r = Some n" by (auto simp: List.map_filter_def)
    from cell [OF this] show "n < length evals \<and> (allowNegative \<or> \<not> TotalScore (evals ! n) \<le> 0) \<and>
      \<not> TotalScore (evals ! n) \<le> InfeasibleScoreSentinel + 1" by blast
  qed
  let ?sol = "\<lparr>Matches = sort_slice (\<lambda>x y. MDriverID x < MDriverID y) (map (\<lambda>n. new_match ep (evals ! n)) ?T),
     Evaluations = mark evals (set ?T), TotalObjective = foldl (+) 0 (map (\<lambda>n. TotalScore (evals ! n)) ?T),
     SolNetContribution = foldl (+) 0 (map (\<lambda>n. NetContribution (CostBreakdown (evals ! n))) ?T),
     DriverDualValues = dual_map ds (RowDuals a), LoadDualValues = dual_map ls (ColDuals a)\<rparr>"
  have "solveExactLAP evals ep allowNegative = Some (Inr ?sol)"
    unfolding solveExactLAP_def Let_def ids [symmetric] p prod.case a option.case sum.case fold by simp
  moreover have "selects evals ep allowNegative ?T ?sol" unfolding selects_def using dd dl set_T by simp
  ultimately show ?thesis using set_T by blast
qed

lemma exact_selects:
  assumes "solveExactLAP evals ep allowNegative = Some (Inr sol)"
  shows "\<exists>T. selects evals ep allowNegative T sol \<and> (\<forall>n\<in>set T. \<not> TotalScore (evals ! n) \<le> InfeasibleScoreSentinel + 1)"
proof -
  obtain matrix ix where p: "payout (distinct_ids (map EvDriverID evals)) (distinct_ids (map EvLoadID evals)) evals = (matrix, ix)"
    by fastforce
  from assms obtain a where "SolveLAP matrix True allowNegative = Some (Inr a)"
    unfolding solveExactLAP_def Let_def p prod.case by (auto split: option.splits sum.splits)
  from exact_run [OF p this refl refl, of ep] assms show ?thesis by auto
qed

section \<open>What the matcher promises\<close>

lemma selects_greedy:
  assumes "solveGreedy evals ep allowNegative = g"
  shows "\<exists>T. selects (sort_slice score_less evals) ep allowNegative T
    \<lparr>Matches = g_matches g, Evaluations = g_evals g, TotalObjective = g_obj g, SolNetContribution = g_net g,
     DriverDualValues = Map.empty, LoadDualValues = Map.empty\<rparr>"
  using greedy_run [of ep allowNegative "sort_slice score_less evals"] assms
  by (auto simp: solveGreedy_def greedy_inv_def selects_def)

lemma SolveMatching_selects:
  assumes "SolveMatchingDetailed alg evals ep allowNegative = Some (Inr sol)"
  shows "\<exists>evs T. mset evs = mset evals \<and> selects evs ep allowNegative T sol"
proof -
  consider "evals = []" | "evals \<noteq> []" "alg = AlgorithmGreedy" | "evals \<noteq> []" "alg = AlgorithmExactLAP"
    by (cases alg) auto
  then show ?thesis
  proof cases
    case 1
    with assms show ?thesis
      by (intro exI [of _ "[]"]) (auto simp: SolveMatchingDetailed_def selects_def mark_def)
  next
    case 2
    with assms selects_greedy [OF refl, of evals ep allowNegative] show ?thesis
      by (intro exI [of _ "sort_slice score_less evals"]) (auto simp: SolveMatchingDetailed_def Let_def)
  next
    case 3
    with assms have "solveExactLAP evals ep allowNegative = Some (Inr sol)" by (simp add: SolveMatchingDetailed_def)
    from exact_selects [OF this] show ?thesis by (intro exI [of _ evals]) blast
  qed
qed

lemma selects_distinct:
  assumes "selects evs ep allowNegative T sol"
  shows "distinct T" and "distinct (map MDriverID (Matches sol))" and "distinct (map MLoadID (Matches sol))"
proof -
  have p: "mset (map f (Matches sol)) = mset (map (\<lambda>n. f (new_match ep (evs ! n))) T)" for f :: "_ \<Rightarrow> string"
  proof -
    have "mset (map f (Matches sol)) = image_mset f (mset (map (\<lambda>n. new_match ep (evs ! n)) T))"
      using assms unfolding selects_def by (metis mset_map)
    then show ?thesis by (simp add: image_mset.compositionality o_def)
  qed
  show "distinct T" using assms unfolding selects_def distinct_map by blast
  show "distinct (map MDriverID (Matches sol))" "distinct (map MLoadID (Matches sol))"
    using assms mset_eq_imp_distinct_iff [OF p [of MDriverID]] mset_eq_imp_distinct_iff [OF p [of MLoadID]]
    by (simp_all add: selects_def new_match_def)
qed

lemma mark_erase: "map (\<lambda>e. e\<lparr>IsAssigned := False\<rparr>) (mark evs T) = map (\<lambda>e. e\<lparr>IsAssigned := False\<rparr>) evs"
  by (rule nth_equalityI) (auto simp: mark_nth)

lemma mark_assigned:
  assumes "distinct T" and "set T \<subseteq> {..<length evs}" and "\<forall>ev\<in>set evs. \<not> IsAssigned ev"
  shows "mset (filter IsAssigned (mark evs (set T))) = mset (map (\<lambda>n. (evs ! n)\<lparr>IsAssigned := True\<rparr>) T)"
proof -
  have "filter IsAssigned (mark evs (set T)) =
      map (\<lambda>n. if n \<in> set T then (evs ! n)\<lparr>IsAssigned := True\<rparr> else evs ! n) (filter (\<lambda>n. n \<in> set T) [0..<length evs])"
    unfolding mark_def filter_map using assms(3) by (intro arg_cong [where f = "map _"] filter_cong) auto
  also have "\<dots> = map (\<lambda>n. (evs ! n)\<lparr>IsAssigned := True\<rparr>) (filter (\<lambda>n. n \<in> set T) [0..<length evs])"
    by (rule map_cong) auto
  finally have e: "filter IsAssigned (mark evs (set T)) =
      map (\<lambda>n. (evs ! n)\<lparr>IsAssigned := True\<rparr>) (filter (\<lambda>n. n \<in> set T) [0..<length evs])" .
  have "set (filter (\<lambda>n. n \<in> set T) [0..<length evs]) = set T" using assms(2) by auto
  moreover have "distinct (filter (\<lambda>n. n \<in> set T) [0..<length evs])" by simp
  ultimately have "mset (filter (\<lambda>n. n \<in> set T) [0..<length evs]) = mset T"
    using assms(1) set_eq_iff_mset_eq_distinct by blast
  then show ?thesis unfolding e mset_map by simp
qed

text \<open>
  Whatever the algorithm, precision and order of the evaluations: if the matcher returns, no driver and
  no load is matched twice; every match is that of a supplied evaluation and carries its net contribution;
  without \<open>allowNegative\<close> no non-positive score is matched; the evaluations handed back are the supplied
  ones, with exactly the matched ones marked.
\<close>

lemma SolveMatching_one_to_one_spec:
  assumes "SolveMatchingDetailed alg evals ep allowNegative = Some (Inr sol)" and "\<forall>ev\<in>set evals. \<not> IsAssigned ev"
  shows "distinct (map MDriverID (Matches sol)) \<and> distinct (map MLoadID (Matches sol)) \<and>
    (\<forall>m\<in>set (Matches sol). \<exists>ev\<in>set evals. m = new_match ep ev \<and> (allowNegative \<or> \<not> TotalScore ev \<le> 0)) \<and>
    mset (map (\<lambda>e. e\<lparr>IsAssigned := False\<rparr>) (Evaluations sol)) = mset evals \<and>
    mset (map (new_match ep) (filter IsAssigned (Evaluations sol))) = mset (Matches sol)"
proof -
  from SolveMatching_selects [OF assms(1)] obtain evs T where
    e: "mset evs = mset evals" and s: "selects evs ep allowNegative T sol" by blast
  have sets: "set evs = set evals" using e by (metis set_mset_mset)
  have u: "\<forall>ev\<in>set evs. \<not> IsAssigned ev" using assms(2) sets by simp
  have T: "set T \<subseteq> {..<length evs}" using s unfolding selects_def by auto
  note d = selects_distinct [OF s]
  have ms: "mset (Matches sol) = mset (map (\<lambda>n. new_match ep (evs ! n)) T)" using s unfolding selects_def by blast
  have "\<exists>ev\<in>set evals. m = new_match ep ev \<and> (allowNegative \<or> \<not> TotalScore ev \<le> 0)" if "m \<in> set (Matches sol)" for m
  proof -
    from that ms obtain n where "n \<in> set T" "m = new_match ep (evs ! n)" by (metis (no_types, lifting) imageE list.set_map set_mset_mset)
    with s sets show ?thesis unfolding selects_def by (metis nth_mem)
  qed
  moreover have "mset (map (\<lambda>e. e\<lparr>IsAssigned := False\<rparr>) (Evaluations sol)) = mset evals"
  proof -
    have "map (\<lambda>e. e\<lparr>IsAssigned := False\<rparr>) evs = evs" by (rule map_idI) (use u in simp)
    with s e show ?thesis unfolding selects_def by (simp add: mark_erase)
  qed
  moreover have "mset (map (new_match ep) (filter IsAssigned (Evaluations sol))) = mset (Matches sol)"
  proof -
    have "mset (filter IsAssigned (Evaluations sol)) = mset (map (\<lambda>n. (evs ! n)\<lparr>IsAssigned := True\<rparr>) T)"
      using s mark_assigned [OF d(1) T u] unfolding selects_def by simp
    then have "mset (map (new_match ep) (filter IsAssigned (Evaluations sol))) =
        image_mset (new_match ep) (mset (map (\<lambda>n. (evs ! n)\<lparr>IsAssigned := True\<rparr>) T))" by simp
    also have "\<dots> = mset (Matches sol)" unfolding ms by (simp add: image_mset.compositionality o_def new_match_def)
    finally show ?thesis .
  qed
  ultimately show ?thesis using d by blast
qed

text \<open>
  Property C16. Whatever the algorithm, the precision and the scores: no driver and no load is matched twice, every match
  comes from an evaluation with a positive score (unless negative ones are allowed), the returned
  evaluations are the given ones up to order, and the marked ones are exactly those matched.
\<close>

theorem SolveMatching_one_to_one:
  assumes "SolveMatchingDetailed alg evals ep allowNegative = Some (Inr sol)" and "\<forall>ev\<in>set evals. \<not> IsAssigned ev"
  shows "distinct (map MDriverID (Matches sol)) \<and> distinct (map MLoadID (Matches sol)) \<and>
    (\<forall>m\<in>set (Matches sol). \<exists>ev\<in>set evals. m = new_match ep ev \<and> (allowNegative \<or> \<not> TotalScore ev \<le> 0)) \<and>
    mset (map (\<lambda>e. e\<lparr>IsAssigned := False\<rparr>) (Evaluations sol)) = mset evals \<and>
    mset (map (new_match ep) (filter IsAssigned (Evaluations sol))) = mset (Matches sol)"
  using assms by (rule SolveMatching_one_to_one_spec)

definition demo_eval :: "string \<Rightarrow> string \<Rightarrow> rat \<Rightarrow> 'p::len0 CandidateEvaluation" where
  "demo_eval d l q = \<lparr>EvDriverID = d, EvLoadID = l,
     CostBreakdown = breakdown (Fin q) 0 0 0 0 0 0 0, CFAAdjustment = 0, VFAValue = 0, DLAValue = 0, TotalScore = Fin q,
     PostDecisionRegion = '''', EvDeadheadMiles = 0, EvLoadedMiles = 0, EvInsertedDwellMin = 0,
     EvInsertedRestMin = 0, EvTotalTripMin = 0, IsAssigned = False\<rparr>"

text \<open>Two drivers and two loads: the pairs of \<open>D1\<close> with \<open>L1\<close>, of \<open>D1\<close> with \<open>L2\<close> and of \<open>D2\<close> with \<open>L1\<close>.\<close>

definition demo_evals :: "53 CandidateEvaluation list" where
  "demo_evals = [demo_eval ''D1'' ''L1'' 10, demo_eval ''D1'' ''L2'' 1, demo_eval ''D2'' ''L1'' 1]"

text \<open>
  Each match of the greedy algorithm is stable: for every evaluation that may be matched, its driver or
  its load is matched in an evaluation of at least its score (scores that are numbers).
\<close>

lemma greedy_stable_run:
  fixes evs :: "'p::len0 CandidateEvaluation list"
  shows "\<exists>T. greedy_inv ep allowNegative evs T (fold (greedy_step ep allowNegative) evs greedy_init) \<and>
    (\<forall>k<length evs. allowNegative \<or> \<not> TotalScore (evs ! k) \<le> 0 \<longrightarrow>
      (\<exists>n\<in>set T. n \<le> k \<and> (EvDriverID (evs ! n) = EvDriverID (evs ! k) \<or> EvLoadID (evs ! n) = EvLoadID (evs ! k))))"
proof (induction evs rule: rev_induct)
  case Nil
  have "greedy_inv ep allowNegative [] [] (greedy_init :: 'p greedy_state)" by (simp add: greedy_inv_def greedy_init_def mark_def)
  then show ?case by auto
next
  case (snoc ev evs)
  then obtain T where T: "greedy_inv ep allowNegative evs T (fold (greedy_step ep allowNegative) evs greedy_init)"
    and st: "\<And>k. k < length evs \<Longrightarrow> allowNegative \<or> \<not> TotalScore (evs ! k) \<le> 0 \<Longrightarrow>
      \<exists>n\<in>set T. n \<le> k \<and> (EvDriverID (evs ! n) = EvDriverID (evs ! k) \<or> EvLoadID (evs ! n) = EvLoadID (evs ! k))"
    by blast
  from greedy_step_inv [OF T, of ev] obtain T' where T': 
    "greedy_inv ep allowNegative (evs @ [ev]) T' (greedy_step ep allowNegative ev (fold (greedy_step ep allowNegative) evs greedy_init))"
    "set T \<subseteq> set T'" and last: "allowNegative \<or> \<not> TotalScore ev \<le> 0 \<Longrightarrow>
       \<exists>n\<in>set T'. EvDriverID ((evs @ [ev]) ! n) = EvDriverID ev \<or> EvLoadID ((evs @ [ev]) ! n) = EvLoadID ev" by blast
  have "\<exists>n\<in>set T'. n \<le> k \<and> (EvDriverID ((evs @ [ev]) ! n) = EvDriverID ((evs @ [ev]) ! k) \<or>
      EvLoadID ((evs @ [ev]) ! n) = EvLoadID ((evs @ [ev]) ! k))"
    if k: "k < length (evs @ [ev])" and e: "allowNegative \<or> \<not> TotalScore ((evs @ [ev]) ! k) \<le> 0" for k
  proof (cases "k < length evs")
    case True
    with e st [of k] obtain n where "n \<in> set T" "n \<le> k"
      "EvDriverID (evs ! n) = EvDriverID (evs ! k) \<or> EvLoadID (evs ! n) = EvLoadID (evs ! k)" by (auto simp: nth_append)
    with True T'(2) show ?thesis by (intro bexI [of _ n]) (auto simp: nth_append)
  next
    case False
    with k have "k = length evs" by simp
    with e last obtain n where n: "n \<in> set T'"
      "EvDriverID ((evs @ [ev]) ! n) = EvDriverID ev \<or> EvLoadID ((evs @ [ev]) ! n) = EvLoadID ev" by auto
    have "n < length (evs @ [ev])" using T'(1) n(1) unfolding greedy_inv_def by blast
    with n \<open>k = length evs\<close> show ?thesis by (intro bexI [of _ n]) auto
  qed
  with T'(1) show ?case by (intro exI [of _ T']) simp
qed

interpretation by_score: slice_order score_less "{ev :: 'p::len0 CandidateEvaluation. \<not> is_nan (TotalScore ev)}"
proof
  fix a b c :: "'p CandidateEvaluation"
  assume "a \<in> {ev. \<not> is_nan (TotalScore ev)}" "b \<in> {ev. \<not> is_nan (TotalScore ev)}" "c \<in> {ev. \<not> is_nan (TotalScore ev)}"
  then have n: "\<not> is_nan (TotalScore a)" "\<not> is_nan (TotalScore b)" "\<not> is_nan (TotalScore c)" by auto
  show "\<not> score_less b a" if "score_less a b"
    using that n by (auto simp: score_less_def feq_def dest: less_fl_asym split: if_splits)
  show "\<not> score_less a c" if "\<not> score_less a b" "\<not> score_less b c"
  proof -
    have t: "x = y \<or> x < y \<or> y < x" if "\<not> is_nan x" "\<not> is_nan y" for x y :: "'p fl"
      using that not_less_fl [of x y] by (auto simp: less_eq_fl_def)
    show ?thesis
      using that n t [of "TotalScore a" "TotalScore b"] t [of "TotalScore b" "TotalScore c"] t [of "TotalScore a" "TotalScore c"]
      by (auto simp: score_less_def feq_def dest: less_fl_asym less_fl_trans split: if_splits)
  qed
qed

text \<open>
  The greedy matching is stable: an eligible evaluation is never left out in favour of worse ones, since
  one of its two sides is matched with at least its score.
\<close>

theorem greedy_stable:
  assumes "SolveMatchingDetailed AlgorithmGreedy evals ep allowNegative = Some (Inr sol)"
    and "\<forall>ev\<in>set evals. \<not> is_nan (TotalScore ev)"
    and "ev \<in> set evals" and "allowNegative \<or> \<not> TotalScore ev \<le> 0"
  shows "\<exists>ev'\<in>set evals. new_match ep ev' \<in> set (Matches sol) \<and> TotalScore ev \<le> TotalScore ev' \<and>
    (EvDriverID ev' = EvDriverID ev \<or> EvLoadID ev' = EvLoadID ev)"
proof -
  let ?evs = "sort_slice score_less evals"
  have g: "Matches sol = g_matches (solveGreedy evals ep allowNegative)"
    using assms(1,3) by (auto simp: SolveMatchingDetailed_def Let_def split: if_splits)
  from greedy_stable_run [of ep allowNegative ?evs] obtain T where
    T: "greedy_inv ep allowNegative ?evs T (solveGreedy evals ep allowNegative)"
    and st: "\<And>k. k < length ?evs \<Longrightarrow> allowNegative \<or> \<not> TotalScore (?evs ! k) \<le> 0 \<Longrightarrow>
      \<exists>n\<in>set T. n \<le> k \<and> (EvDriverID (?evs ! n) = EvDriverID (?evs ! k) \<or> EvLoadID (?evs ! n) = EvLoadID (?evs ! k))"
    unfolding solveGreedy_def by blast
  obtain k where k: "k < length ?evs" "?evs ! k = ev" using assms(3) by (metis in_set_conv_nth set_sort_slice)
  with st [of k] assms(4) obtain n where n: "n \<in> set T" "n \<le> k"
    "EvDriverID (?evs ! n) = EvDriverID ev \<or> EvLoadID (?evs ! n) = EvLoadID ev" by auto
  have "set evals \<subseteq> {ev. \<not> is_nan (TotalScore ev)}" using assms(2) by auto
  from by_score.sorted_sort_slice [OF this] have s: "sorted_wrt (\<lambda>a b. \<not> score_less b a) ?evs" .
  have nk: "n < length ?evs" "?evs ! n \<in> set evals" using n(2) k(1) nth_mem [of n ?evs] by auto
  have "TotalScore ev \<le> TotalScore (?evs ! n)"
  proof (cases "n = k")
    case True
    with k assms(2,3) show ?thesis by (simp add: le_fl_refl)
  next
    case False
    with n(2) k s have "\<not> score_less ev (?evs ! n)" by (auto simp: sorted_wrt_iff_nth_less)
    moreover have "\<not> is_nan (TotalScore ev)" "\<not> is_nan (TotalScore (?evs ! n))" using assms(2,3) nk(2) by auto
    ultimately show ?thesis
      using not_less_fl [of "TotalScore (?evs ! n)" "TotalScore ev"]
      by (auto simp: score_less_def feq_def less_eq_fl_def split: if_splits)
  qed
  moreover have "new_match ep (?evs ! n) \<in> set (Matches sol)" using T n(1) unfolding g greedy_inv_def by auto
  ultimately show ?thesis using n(3) nk(2) by blast
qed

lemma SolveMatching_one_to_one_witness:
  "\<exists>sol. SolveMatchingDetailed AlgorithmExactLAP [demo_eval ''D1'' ''L1'' 3 :: 53 CandidateEvaluation] 7 False = Some (Inr sol) \<and>
     distinct (map MDriverID (Matches sol))"
proof -
  let ?e = "[demo_eval ''D1'' ''L1'' 3 :: 53 CandidateEvaluation]"
  have "case SolveMatchingDetailed AlgorithmExactLAP ?e 7 False of Some (Inr _) \<Rightarrow> True | _ \<Rightarrow> False" by code_simp
  then obtain sol where s: "SolveMatchingDetailed AlgorithmExactLAP ?e 7 False = Some (Inr sol)"
    by (auto split: option.splits sum.splits)
  have "\<forall>ev\<in>set ?e. \<not> IsAssigned ev" by (simp add: demo_eval_def)
  from conjunct1 [OF SolveMatching_one_to_one [OF s this]] s show ?thesis by blast
qed

lemma greedy_stable_witness:
  "\<exists>sol. SolveMatchingDetailed AlgorithmGreedy demo_evals 7 False = Some (Inr sol) \<and>
     (\<exists>ev'\<in>set demo_evals. new_match 7 ev' \<in> set (Matches sol) \<and> TotalScore (demo_eval ''D1'' ''L2'' 1 :: 53 CandidateEvaluation) \<le> TotalScore ev')"
proof -
  obtain sol where s: "SolveMatchingDetailed AlgorithmGreedy demo_evals 7 False = Some (Inr sol)"
    by (simp add: SolveMatchingDetailed_def Let_def demo_evals_def)
  have n: "\<forall>ev\<in>set demo_evals. \<not> is_nan (TotalScore ev)" "demo_eval ''D1'' ''L2'' 1 \<in> set demo_evals"
    by (simp_all add: demo_evals_def demo_eval_def)
  have p: "False \<or> \<not> TotalScore (demo_eval ''D1'' ''L2'' 1 :: 53 CandidateEvaluation) \<le> 0"
    by (simp add: demo_eval_def zero_fl_def)
  from greedy_stable [OF s n p] s show ?thesis by blast
qed

subsection \<open>Failure of the exact algorithm\<close>

lemma SolveLAP_Inl_iff: "SolveLAP matrix maximize allowNegative = Some (Inl e) \<longleftrightarrow> lap_valid matrix = Inl e"
proof (cases "lap_valid matrix")
  case (Inr u)
  then show ?thesis
    unfolding SolveLAP_def Inr sum.case Let_def by (simp split: option.split prod.split del: upt_Suc)
qed (simp add: SolveLAP_def)

lemma lap_valid_matrix:
  assumes "length matrix \<noteq> 0" and "\<forall>row\<in>set matrix. length row = m" and "m \<noteq> 0"
  shows "lap_valid matrix = (if \<exists>row\<in>set matrix. \<exists>x\<in>set row. is_nan x \<or> is_inf x then Inl ErrLAPNonFinite else Inr ())"
proof -
  have m: "length (matrix ! 0) = m" using assms by (metis length_greater_0_conv list.size(3) nth_mem)
  have "foldr (\<lambda>row rest. if length row \<noteq> m then Inl ErrDimensionMismatch
      else if \<exists>x\<in>set row. is_nan x \<or> is_inf x then Inl ErrLAPNonFinite else rest) rows (Inr ()) =
    (if \<exists>row\<in>set rows. \<exists>x\<in>set row. is_nan x \<or> is_inf x then Inl ErrLAPNonFinite else Inr ())"
    if "\<forall>row\<in>set rows. length row = m" for rows :: "'a fl list list"
    using that by (induction rows) auto
  with assms m show ?thesis by (simp add: lap_valid_def)
qed

lemma payout_shape:
  assumes "evals \<noteq> []" and "payout (distinct_ids (map EvDriverID evals)) (distinct_ids (map EvLoadID evals)) evals = (matrix, ix)"
  shows "payout_inv (distinct_ids (map EvDriverID evals)) (distinct_ids (map EvLoadID evals)) evals (length evals) (matrix, ix) \<and>
    length matrix \<noteq> 0 \<and> length (distinct_ids (map EvLoadID evals)) \<noteq> 0 \<and>
    length (matrix ! 0) = length (distinct_ids (map EvLoadID evals)) \<and>
    (lap_valid matrix = Inr () \<longleftrightarrow> (\<forall>ev\<in>set evals. TotalScore ev \<noteq> PInf)) \<and>
    (lap_valid matrix \<noteq> Inr () \<longrightarrow> lap_valid matrix = Inl ErrLAPNonFinite)"
proof -
  let ?ds = "distinct_ids (map EvDriverID evals)" and ?ls = "distinct_ids (map EvLoadID evals)"
  have inv: "payout_inv ?ds ?ls evals (length evals) (matrix, ix)"
    unfolding assms(2) [symmetric] by (rule payout_ok) simp_all
  then have rows: "length matrix = length ?ds" "\<forall>row\<in>set matrix. length row = length ?ls"
    and cell: "\<And>i j. i < length ?ds \<Longrightarrow> j < length ?ls \<Longrightarrow> cell_ok ?ds ?ls evals (length evals) matrix ix i j"
    unfolding payout_inv_def by auto
  have "set ?ds \<noteq> {}" "set ?ls \<noteq> {}" using assms(1) by simp_all
  then have ne: "length matrix \<noteq> 0" "length ?ls \<noteq> 0" unfolding rows by (metis length_0_conv set_empty)+
  note valid = lap_valid_matrix [OF ne(1) rows(2) ne(2)]
  have "(\<exists>row\<in>set matrix. \<exists>x\<in>set row. is_nan x \<or> is_inf x) \<longleftrightarrow> (\<exists>ev\<in>set evals. TotalScore ev = PInf)"
  proof
    assume "\<exists>row\<in>set matrix. \<exists>x\<in>set row. is_nan x \<or> is_inf x"
    then obtain row x where x: "row \<in> set matrix" "x \<in> set row" "is_nan x \<or> is_inf x" by blast
    from x(1) obtain i where i: "i < length matrix" "row = matrix ! i" by (auto simp: in_set_conv_nth)
    from x(2) obtain j where j: "j < length row" "x = row ! j" by (auto simp: in_set_conv_nth)
    have ij: "i < length ?ds" "j < length ?ls" "is_nan (matrix ! i ! j) \<or> is_inf (matrix ! i ! j)"
      using i j x rows by auto
    have ge: "InfeasibleScoreSentinel \<le> matrix ! i ! j" by (rule cell_not_nan [OF cell [OF ij(1,2)]])
    then have "matrix ! i ! j = PInf"
      using ij(3) by (cases "matrix ! i ! j") (auto simp: InfeasibleScoreSentinel_def less_eq_fl_def)
    moreover obtain n where "ix (i * length ?ls + j) = Some n"
      using cell [OF ij(1,2)] \<open>matrix ! i ! j = PInf\<close> unfolding cell_ok_def InfeasibleScoreSentinel_def
      by (cases "ix (i * length ?ls + j)") auto
    ultimately have "n < length evals" "TotalScore (evals ! n) = PInf"
      using cell [OF ij(1,2)] unfolding cell_ok_def by auto
    then show "\<exists>ev\<in>set evals. TotalScore ev = PInf" using nth_mem by blast
  next
    assume "\<exists>ev\<in>set evals. TotalScore ev = PInf"
    then obtain n where n: "n < length evals" "TotalScore (evals ! n) = PInf" by (auto simp: in_set_conv_nth)
    let ?i = "id_pos ?ds (EvDriverID (evals ! n))" and ?j = "id_pos ?ls (EvLoadID (evals ! n))"
    have ij: "?i < length ?ds" "?ds ! ?i = EvDriverID (evals ! n)" "?j < length ?ls" "?ls ! ?j = EvLoadID (evals ! n)"
      using id_pos_nth [of "EvDriverID (evals ! n)" ?ds] id_pos_nth [of "EvLoadID (evals ! n)" ?ls] n(1) by simp_all
    have "\<not> matrix ! ?i ! ?j < PInf"
      using conjunct2 [OF cell [OF ij(1,3), unfolded cell_ok_def], rule_format, OF n(1) ij(2,4) [symmetric]] n(2) by simp
    moreover have "InfeasibleScoreSentinel \<le> matrix ! ?i ! ?j" by (rule cell_not_nan [OF cell [OF ij(1,3)]])
    ultimately have "is_inf (matrix ! ?i ! ?j)"
      by (cases "matrix ! ?i ! ?j") (auto simp: InfeasibleScoreSentinel_def less_eq_fl_def)
    moreover have "matrix ! ?i \<in> set matrix" "length (matrix ! ?i) = length ?ls" using ij(1) rows by simp_all
    moreover from this have "matrix ! ?i ! ?j \<in> set (matrix ! ?i)" using ij(3) by simp
    ultimately show "\<exists>row\<in>set matrix. \<exists>x\<in>set row. is_nan x \<or> is_inf x" by blast
  qed
  moreover have "length (matrix ! 0) = length ?ls" using rows ne(1) by simp
  ultimately show ?thesis using inv ne valid by auto
qed

text \<open>
  The exact algorithm fails, by a panic, exactly when some evaluation has the score \<open>+Inf\<close>: scores that
  are \<open>NaN\<close> or \<open>-Inf\<close> never enter the payout matrix.
\<close>

theorem SolveMatching_panics_iff:
  "(\<exists>e. SolveMatchingDetailed AlgorithmExactLAP evals ep allowNegative = Some (Inl e)) \<longleftrightarrow>
   (\<exists>ev\<in>set evals. TotalScore ev = PInf)"
proof (cases "evals = []")
  case True
  then show ?thesis by (simp add: SolveMatchingDetailed_def)
next
  case False
  let ?ds = "distinct_ids (map EvDriverID evals)" and ?ls = "distinct_ids (map EvLoadID evals)"
  obtain matrix ix where p: "payout ?ds ?ls evals = (matrix, ix)" by fastforce
  note sh = payout_shape [OF False p]
  have "(\<exists>e. solveExactLAP evals ep allowNegative = Some (Inl e)) \<longleftrightarrow> (\<exists>e. SolveLAP matrix True allowNegative = Some (Inl e))"
    unfolding solveExactLAP_def Let_def p prod.case by (simp split: option.split sum.split prod.split)
  also have "\<dots> \<longleftrightarrow> lap_valid matrix \<noteq> Inr ()" unfolding SolveLAP_Inl_iff by (cases "lap_valid matrix") auto
  also have "\<dots> \<longleftrightarrow> (\<exists>ev\<in>set evals. TotalScore ev = PInf)" using sh by blast
  finally show ?thesis using False by (simp add: SolveMatchingDetailed_def)
qed

subsection \<open>Optimality in exact arithmetic\<close>

lemma matching_extends:
  assumes "is_matching rows cols N"
  shows "\<exists>N'. N \<subseteq> N' \<and> complete_matching rows cols N'"
  using assms
proof (induction "min rows cols - card N" arbitrary: N)
  case 0
  have fin: "finite N" by (rule is_matching_finite [OF 0(2)])
  have "card N \<le> rows" "card N \<le> cols"
    using 0(2) card_image [of fst N] card_image [of snd N] card_mono [of "{..<rows}" "fst ` N"] card_mono [of "{..<cols}" "snd ` N"]
    unfolding is_matching_def by force+
  with 0 have "card N = min rows cols" by simp
  with 0(2) show ?case unfolding complete_matching_def by blast
next
  case (Suc d)
  note N = Suc.prems [unfolded is_matching_def]
  have fin: "finite N" by (rule is_matching_finite [OF Suc.prems])
  have c: "card (fst ` N) < rows" "card (snd ` N) < cols"
    using Suc.hyps(2) N card_image [of fst N] card_image [of snd N] by linarith+
  then have "\<not> {..<rows} \<subseteq> fst ` N" "\<not> {..<cols} \<subseteq> snd ` N"
    using card_mono [of "fst ` N" "{..<rows}"] card_mono [of "snd ` N" "{..<cols}"] fin by fastforce+
  then obtain r k where rk: "r < rows" "r \<notin> fst ` N" "k < cols" "k \<notin> snd ` N" by blast
  let ?N = "insert (r, k) N"
  have new: "(r, k) \<notin> N" using rk(2) by force
  have "is_matching rows cols ?N" unfolding is_matching_def using N rk by auto
  moreover have "d = min rows cols - card ?N" using Suc.hyps(2) new fin by simp
  ultimately obtain N' where "?N \<subseteq> N'" "complete_matching rows cols N'" using Suc.hyps(1) by blast
  then show ?case by blast
qed

lemma foldl_exact:
  assumes "\<forall>n\<in>set xs. f n = Fin (g n)"
  shows "foldl (+) (Fin s) (map f xs) = (Fin (s + sum_list (map g xs)) :: 0 fl)"
  using assms by (induction xs arbitrary: s) (auto simp: add.assoc)

lemma sum_list_map_filter:
  fixes g :: "'b \<Rightarrow> 'a::comm_monoid_add"
  shows "sum_list (map g (List.map_filter h xs)) = sum_list (map (\<lambda>x. case h x of None \<Rightarrow> 0 | Some y \<Rightarrow> g y) xs)"
  by (induction xs) (auto split: option.split)

definition one_to_one :: "'p CandidateEvaluation list \<Rightarrow> nat set \<Rightarrow> bool" where
  "one_to_one evals S \<longleftrightarrow> S \<subseteq> {..<length evals} \<and> inj_on (\<lambda>n. EvDriverID (evals ! n)) S \<and> inj_on (\<lambda>n. EvLoadID (evals ! n)) S"

definition all_pairs :: "'p CandidateEvaluation list \<Rightarrow> bool" where
  "all_pairs evals \<longleftrightarrow> (\<forall>d\<in>EvDriverID ` set evals. \<forall>l\<in>EvLoadID ` set evals. \<exists>ev\<in>set evals. EvDriverID ev = d \<and> EvLoadID ev = l)"

definition score_of :: "'p CandidateEvaluation \<Rightarrow> rat" where
  "score_of ev = fin_val (TotalScore ev)"

lemma payout_complete:
  fixes evals :: "0 CandidateEvaluation list"
  assumes inv: "payout_inv ds ls evals (length evals) (matrix, ix)"
    and ids: "set ds = EvDriverID ` set evals" "set ls = EvLoadID ` set evals"
    and nonneg: "\<forall>ev\<in>set evals. \<exists>q\<ge>0. TotalScore ev = Fin q" and ap: "all_pairs evals"
    and ij: "i < length ds" "j < length ls"
  shows "\<exists>q\<ge>0. matrix ! i ! j = Fin q \<and> (\<exists>n<length evals. ix (i * length ls + j) = Some n \<and> TotalScore (evals ! n) = Fin q) \<and>
    (\<forall>n<length evals. EvDriverID (evals ! n) = ds ! i \<longrightarrow> EvLoadID (evals ! n) = ls ! j \<longrightarrow> score_of (evals ! n) \<le> q)"
proof -
  have cell: "cell_ok ds ls evals (length evals) matrix ix i j" using inv ij unfolding payout_inv_def by simp
  note c2 = conjunct2 [OF cell [unfolded cell_ok_def], rule_format]
  have "ds ! i \<in> EvDriverID ` set evals" "ls ! j \<in> EvLoadID ` set evals" using ids ij nth_mem by blast+
  with ap obtain ev where ev: "ev \<in> set evals" "EvDriverID ev = ds ! i" "EvLoadID ev = ls ! j" unfolding all_pairs_def by blast
  then obtain m where m: "m < length evals" "evals ! m = ev" by (auto simp: in_set_conv_nth)
  obtain q where q: "TotalScore ev = Fin q" "0 \<le> q" using nonneg ev(1) by blast
  have "\<not> matrix ! i ! j < Fin q" using c2 [OF m(1)] m(2) ev q by simp
  then have "ix (i * length ls + j) \<noteq> None"
    using conjunct1 [OF cell [unfolded cell_ok_def]] q(2)
    by (cases "ix (i * length ls + j)") (simp_all add: InfeasibleScoreSentinel_def)
  then obtain n where n: "ix (i * length ls + j) = Some n" by blast
  with cell have nn: "n < length evals" "matrix ! i ! j = TotalScore (evals ! n)" unfolding cell_ok_def by auto
  obtain r where r: "TotalScore (evals ! n) = Fin r" "0 \<le> r" using nonneg nn(1) nth_mem by blast
  have "score_of (evals ! x) \<le> r" if x: "x < length evals" "EvDriverID (evals ! x) = ds ! i" "EvLoadID (evals ! x) = ls ! j" for x
  proof -
    obtain y where "TotalScore (evals ! x) = Fin y" using nonneg x(1) nth_mem by blast
    with c2 [OF x] nn(2) r(1) show ?thesis by (simp add: score_of_def)
  qed
  with n nn r show ?thesis by (intro exI [of _ r]) auto
qed

text \<open>A one-to-one choice of evaluations weighs no more than some complete assignment.\<close>

lemma choice_below_complete:
  fixes evals :: "0 CandidateEvaluation list" and matrix :: "0 fl list list"
  assumes cell: "\<And>i j. i < length ds \<Longrightarrow> j < length ls \<Longrightarrow> \<exists>q\<ge>0. matrix ! i ! j = Fin q \<and>
      (\<exists>n<length evals. ix (i * length ls + j) = Some n \<and> TotalScore (evals ! n) = Fin q) \<and>
      (\<forall>n<length evals. EvDriverID (evals ! n) = ds ! i \<longrightarrow> EvLoadID (evals ! n) = ls ! j \<longrightarrow> score_of (evals ! n) \<le> q)"
    and sets: "set ds = EvDriverID ` set evals" "set ls = EvLoadID ` set evals" and S: "one_to_one evals S"
  shows "\<exists>N. complete_matching (length ds) (length ls) N \<and> (\<Sum>n\<in>S. score_of (evals ! n)) \<le> weight_of matrix N"
proof -
  let ?f = "\<lambda>n. (id_pos ds (EvDriverID (evals ! n)), id_pos ls (EvLoadID (evals ! n)))"
  have pos: "fst (?f n) < length ds \<and> ds ! fst (?f n) = EvDriverID (evals ! n) \<and>
      snd (?f n) < length ls \<and> ls ! snd (?f n) = EvLoadID (evals ! n)" if "n \<in> S" for n
    using id_pos_nth [of "EvDriverID (evals ! n)" ds] id_pos_nth [of "EvLoadID (evals ! n)" ls] S that
    unfolding one_to_one_def by (auto simp: sets)
  have m: "is_matching (length ds) (length ls) (?f ` S)"
    unfolding is_matching_def
  proof (intro conjI)
    show "?f ` S \<subseteq> {..<length ds} \<times> {..<length ls}" using pos by auto
    show "inj_on fst (?f ` S)"
    proof (rule inj_onI)
      fix x y assume xy: "x \<in> ?f ` S" "y \<in> ?f ` S" "fst x = fst y"
      then obtain i j where "i \<in> S" "j \<in> S" "x = ?f i" "y = ?f j" by blast
      with xy(3) pos [of i] pos [of j] S show "x = y" unfolding one_to_one_def inj_on_def by auto
    qed
    show "inj_on snd (?f ` S)"
    proof (rule inj_onI)
      fix x y assume xy: "x \<in> ?f ` S" "y \<in> ?f ` S" "snd x = snd y"
      then obtain i j where "i \<in> S" "j \<in> S" "x = ?f i" "y = ?f j" by blast
      with xy(3) pos [of i] pos [of j] S show "x = y" unfolding one_to_one_def inj_on_def by auto
    qed
  qed
  obtain N where N: "?f ` S \<subseteq> N" "complete_matching (length ds) (length ls) N" using matching_extends [OF m] by blast
  have inj: "inj_on ?f S" using S pos unfolding one_to_one_def inj_on_def by (metis fst_conv)
  have le: "score_of (evals ! n) \<le> fin_val (matrix ! fst (?f n) ! snd (?f n))" if "n \<in> S" for n
    using cell [of "fst (?f n)" "snd (?f n)"] pos [OF that] S that unfolding one_to_one_def by auto
  have "(\<Sum>n\<in>S. score_of (evals ! n)) \<le> (\<Sum>n\<in>S. fin_val (matrix ! fst (?f n) ! snd (?f n)))" by (rule sum_mono) (rule le)
  also have "\<dots> = weight_of matrix (?f ` S)" unfolding weight_of_def by (subst sum.reindex [OF inj]) (simp add: o_def)
  also have "\<dots> \<le> weight_of matrix N"
    unfolding weight_of_def
  proof (rule sum_mono2 [OF _ N(1)])
    show "finite N" using N(2) is_matching_finite unfolding complete_matching_def by blast
    fix x assume "x \<in> N - ?f ` S"
    then have "fst x < length ds" "snd x < length ls" using N(2) unfolding complete_matching_def is_matching_def by auto
    with cell [OF this] show "0 \<le> (case x of (r, c) \<Rightarrow> fin_val (matrix ! r ! c))" by (cases x) auto
  qed
  finally show ?thesis using N(2) by blast
qed

text \<open>The evaluations taken from the rows of an assignment weigh what the assignment weighs.\<close>

lemma row_take_weight:
  fixes evals :: "0 CandidateEvaluation list" and matrix :: "0 fl list list"
  assumes cell: "\<And>i j. i < length ds \<Longrightarrow> j < length ls \<Longrightarrow> \<exists>q\<ge>0. matrix ! i ! j = Fin q \<and>
      (\<exists>n<length evals. ix (i * length ls + j) = Some n \<and> TotalScore (evals ! n) = Fin q) \<and>
      (\<forall>n<length evals. EvDriverID (evals ! n) = ds ! i \<longrightarrow> EvLoadID (evals ! n) = ls ! j \<longrightarrow> score_of (evals ! n) \<le> q)"
    and aM: "assigned_pairs a = M" "length (RowToCol a) = length ds" and sub: "M \<subseteq> {..<length ds} \<times> {..<length ls}"
  defines "t \<equiv> row_take (length ls) matrix ix (RowToCol a) False"
  shows "(\<Sum>n\<leftarrow>List.map_filter t [0..<length ds]. score_of (evals ! n)) = weight_of matrix M"
proof -
  have "(\<Sum>n\<leftarrow>List.map_filter t [0..<length ds]. score_of (evals ! n)) = (\<Sum>r<length ds. case t r of None \<Rightarrow> 0 | Some n \<Rightarrow> score_of (evals ! n))"
    unfolding sum_list_map_filter by (simp add: interv_sum_list_conv_sum_set_nat atLeast0LessThan)
  also have "\<dots> = (\<Sum>r\<in>{r. r < length ds \<and> RowToCol a ! r \<noteq> - 1}. fin_val (matrix ! r ! nat (RowToCol a ! r)))"
  proof (rule sum.mono_neutral_cong_right)
    show "\<forall>i\<in>{..<length ds} - {r. r < length ds \<and> RowToCol a ! r \<noteq> - 1}. (case t i of None \<Rightarrow> 0 | Some n \<Rightarrow> score_of (evals ! n)) = 0"
      by (auto simp: t_def row_take_def)
  next
    fix r assume r: "r \<in> {r. r < length ds \<and> RowToCol a ! r \<noteq> - 1}"
    then have "(r, nat (RowToCol a ! r)) \<in> M" using aM unfolding assigned_pairs_def by auto
    with sub have "r < length ds" "nat (RowToCol a ! r) < length ls" by auto
    from cell [OF this] obtain q n where q: "0 \<le> q" "matrix ! r ! nat (RowToCol a ! r) = Fin q"
      "ix (r * length ls + nat (RowToCol a ! r)) = Some n" "TotalScore (evals ! n) = Fin q" by blast
    with r show "(case t r of None \<Rightarrow> 0 | Some n \<Rightarrow> score_of (evals ! n)) = fin_val (matrix ! r ! nat (RowToCol a ! r))"
      by (auto simp: t_def row_take_def Let_def InfeasibleScoreSentinel_def zero_fl_def one_fl_def score_of_def)
  qed auto
  also have "\<dots> = weight_of matrix M"
    unfolding weight_of_def aM(1) [symmetric] assigned_pairs_def aM(2)
    by (rule sum.reindex_cong [symmetric, of "\<lambda>r. (r, nat (RowToCol a ! r))"]) (auto simp: inj_on_def)
  finally show ?thesis .
qed



text \<open>
  The hypothesis that every pair is evaluated is needed. The solver maximizes over complete assignments,
  in which an unevaluated pair costs \<open>10^9\<close>: on the three evaluations below it gives up the pair of
  score 10 in order to match both drivers, for a total of 2, where the greedy algorithm reaches 10.
\<close>

theorem exact_below_greedy:
  "(case SolveMatchingDetailed AlgorithmExactLAP demo_evals 7 False of
      Some (Inr sol) \<Rightarrow> TotalObjective sol = Fin 2 | _ \<Rightarrow> False) \<and>
   (case SolveMatchingDetailed AlgorithmGreedy demo_evals 7 False of
      Some (Inr sol) \<Rightarrow> TotalObjective sol = Fin 10 | _ \<Rightarrow> False)"
  by code_simp

end
