(* ===== verification/Policies.thy ===== *)
theory Policies
  imports Matcher Region
begin

text \<open>
  \<open>internal/domain/policy\<close>: \<open>policy.go\<close> (the contract of a policy), \<open>cfa.go\<close>, \<open>vfa.go\<close> and
  \<open>vfa_piecewise.go\<close>. The three policies filter the candidates, score the arcs, match, and build the
  action and its provenance; they differ in the score. The result of the concurrent filter is an argument of
  the evaluation, and \<open>policy_run\<close> relates the state to the results its schedules can produce. \<open>None\<close> is a
  matcher that does not return. Logging and tracing are not modelled, nor the setters of pointers.
\<close>

section \<open>The common frame\<close>

type_synonym decision = "(Action \<times> DecisionProvenance) result"

text \<open>The loop over the arcs: it fails closed on an arc whose driver or load is unknown.\<close>

fun score_arcs ::
  "(Driver \<Rightarrow> Load \<Rightarrow> CandidateArc \<Rightarrow> 53 CandidateEvaluation) \<Rightarrow> ResourceState \<Rightarrow> CandidateArc list \<Rightarrow>
    53 CandidateEvaluation list result" where
  "score_arcs score res [] = Inr []"
| "score_arcs score res (arc # arcs) =
     (case GetDriver res (ArcDriverID arc) of
        None \<Rightarrow> Inl (ErrOther ''driver not found in resource state'')
      | Some driver \<Rightarrow>
          (case GetLoad res (ArcLoadID arc) of
             None \<Rightarrow> Inl (ErrOther ''load not found in resource state'')
           | Some load \<Rightarrow>
               (case score_arcs score res arcs of
                  Inl e \<Rightarrow> Inl e
                | Inr evals \<Rightarrow> Inr (score driver load arc # evals))))"

definition arc_eval ::
  "CandidateArc \<Rightarrow> 53 TripCostBreakdown \<Rightarrow> f64 \<Rightarrow> f64 \<Rightarrow> f64 \<Rightarrow> string \<Rightarrow> 53 CandidateEvaluation" where
  "arc_eval arc costBreakdown cfaAdj vfaVal totalScore destRegion =
     \<lparr>EvDriverID = ArcDriverID arc, EvLoadID = ArcLoadID arc, CostBreakdown = costBreakdown,
      CFAAdjustment = cfaAdj, VFAValue = vfaVal, DLAValue = 0, TotalScore = totalScore,
      PostDecisionRegion = destRegion, EvDeadheadMiles = DeadheadMiles arc, EvLoadedMiles = LoadedMiles arc,
      EvInsertedDwellMin = ArcInsertedDwellMin arc, EvInsertedRestMin = ArcInsertedRestMin arc,
      EvTotalTripMin = TotalTripMin arc, IsAssigned = False\<rparr>"

text \<open>Matching, action and provenance; the epoch is that of the first driver.\<close>

definition match_and_record ::
  "DecisionProvenance \<Rightarrow> Driver list \<Rightarrow> 53 CandidateEvaluation list \<Rightarrow> decision option" where
  "match_and_record prov drivers evals =
     (let ep = AvailableEpoch (drivers ! 0) in
      case SolveMatching NewBipartiteMatcher evals ep False of
        None \<Rightarrow> None
      | Some (Inl e) \<Rightarrow> Some (Inl e)
      | Some (Inr (matches, sortedEvals, totalObj, totalNetContrib)) \<Rightarrow>
          Some (Inr (NewAction matches [],
            prov\<lparr>BatchEpoch := ep, EvaluatedArcs := sortedEvals, MatchedCount := length matches,
                 TotalNetContribution := totalNetContrib, TotalObjectiveValue := totalObj\<rparr>)))"

definition evaluate_frame ::
  "string \<Rightarrow> f64 list \<Rightarrow> (Driver \<Rightarrow> Load \<Rightarrow> CandidateArc \<Rightarrow> 53 CandidateEvaluation) \<Rightarrow>
    53 Belief State option \<Rightarrow> CandidateArc list result \<Rightarrow> decision option" where
  "evaluate_frame nm theta score state filtered =
     (case state of
        None \<Rightarrow> Some (Inl (ErrOther ''cannot evaluate nil state''))
      | Some s \<Rightarrow>
          let prov = NewDecisionProvenance nm state theta;
              drivers = rs_drivers (st_resource s); loads = rs_loads (st_resource s) in
          if length drivers = 0 \<or> length loads = 0 then Some (Inr (NewAction [] [], prov))
          else (case filtered of
             Inl e \<Rightarrow> Some (Inl e)
           | Inr arcs \<Rightarrow>
               (case score_arcs score (st_resource s) arcs of
                  Inl e \<Rightarrow> Some (Inl e)
                | Inr evals \<Rightarrow> match_and_record prov drivers evals)))"

section \<open>Cost function approximation\<close>

record CFAParameters =
  ThetaEmpty :: f64
  ThetaHome :: f64
  ThetaDwell :: f64
  ThetaRisk :: f64

definition DefaultCFAParameters :: CFAParameters where
  "DefaultCFAParameters = \<lparr>ThetaEmpty = 1, ThetaHome = 1, ThetaDwell = 1, ThetaRisk = 0\<rparr>"

definition ToSlice :: "CFAParameters \<Rightarrow> f64 list" where
  "ToSlice p = [ThetaEmpty p, ThetaHome p, ThetaDwell p, ThetaRisk p]"

definition CFAParametersFromSlice :: "f64 list \<Rightarrow> CFAParameters" where
  "CFAParametersFromSlice s =
     (let p = DefaultCFAParameters;
          p = (if length s > 0 then p\<lparr>ThetaEmpty := s ! 0\<rparr> else p);
          p = (if length s > 1 then p\<lparr>ThetaHome := s ! 1\<rparr> else p);
          p = (if length s > 2 then p\<lparr>ThetaDwell := s ! 2\<rparr> else p)
      in if length s > 3 then p\<lparr>ThetaRisk := s ! 3\<rparr> else p)"

record CFAPolicy =
  cfa_params :: CFAParameters
  cfa_costCfg :: CostConfig
  cfa_feasCfg :: FeasibilityConfig
  cfa_regionManager :: RegionManager

definition NewCFAPolicy ::
  "CFAParameters \<Rightarrow> CostConfig \<Rightarrow> FeasibilityConfig \<Rightarrow> RegionManager option \<Rightarrow> CFAPolicy" where
  "NewCFAPolicy params costCfg feasCfg rm =
     \<lparr>cfa_params = params, cfa_costCfg = costCfg, cfa_feasCfg = feasCfg,
      cfa_regionManager = (case rm of None \<Rightarrow> NewRegionManager 1 [] | Some r \<Rightarrow> r)\<rparr>"

definition SetParameters :: "CFAPolicy \<Rightarrow> CFAParameters \<Rightarrow> CFAPolicy" where
  "SetParameters p params = p\<lparr>cfa_params := params\<rparr>"

text \<open>The parametric shifts and the competitor risk premium.\<close>

definition cfa_score ::
  "libm \<Rightarrow> CFAPolicy \<Rightarrow> 53 Belief \<Rightarrow> Driver \<Rightarrow> Load \<Rightarrow> CandidateArc \<Rightarrow> 53 CandidateEvaluation" where
  "cfa_score L p belief driver load arc =
     (let costBreakdown = CalculateTripCost L driver load arc (cfa_costCfg p);
          th = cfa_params p;
          cfaAdj = - ((ThetaEmpty th - 1) * TcEmptyCost costBreakdown +
                      (ThetaHome th - 1) * TcEmptyToHomeCost costBreakdown +
                      (ThetaDwell th - 1) * TcDwellCost costBreakdown);
          riskPremium = (if ThetaRisk th > 0 then
            (let aggWeight = (case Distribution belief ''AGGRESSIVE'' of
                Some pAgg \<Rightarrow> pAgg | None \<Rightarrow> rnd (3333333333333333 / 10000000000000000))
             in ThetaRisk th * TcEmptyCost costBreakdown * aggWeight) else 0);
          totalScore = NetContribution costBreakdown + cfaAdj - riskPremium;
          destRegion = GetRegionID (cfa_regionManager p) (Destination load)
      in arc_eval arc costBreakdown cfaAdj 0 totalScore destRegion)"

definition CFA_Evaluate ::
  "libm \<Rightarrow> CFAPolicy \<Rightarrow> 53 Belief State option \<Rightarrow> CandidateArc list result \<Rightarrow> decision option" where
  "CFA_Evaluate L p state filtered =
     evaluate_frame ''CFA_Parametric'' (ToSlice (cfa_params p))
       (case state of None \<Rightarrow> cfa_score L p NewMonopolisticBelief | Some s \<Rightarrow> cfa_score L p (st_belief s))
       state filtered"

section \<open>Value function approximation\<close>

type_synonym VFATable = "string \<rightharpoonup> f64"

definition NewVFATable :: "(string \<times> f64) list \<Rightarrow> VFATable" where
  "NewVFATable initialValues = fold (\<lambda>(k, v) m. m(k \<mapsto> v)) initialValues Map.empty"

definition GetValue :: "VFATable option \<Rightarrow> string \<Rightarrow> f64" where
  "GetValue t regionID = (case t of None \<Rightarrow> 0 | Some m \<Rightarrow> (case m regionID of None \<Rightarrow> 0 | Some v \<Rightarrow> v))"

definition WithUpdatedValue :: "VFATable \<Rightarrow> string \<Rightarrow> f64 \<Rightarrow> VFATable" where
  "WithUpdatedValue t regionID val = t(regionID \<mapsto> val)"

record 't ValuePolicy =
  vp_table :: 't
  vp_discount :: f64
  vp_costCfg :: CostConfig
  vp_feasCfg :: FeasibilityConfig
  vp_regionManager :: RegionManager

definition NewVFAPolicy ::
  "VFATable option \<Rightarrow> f64 \<Rightarrow> CostConfig \<Rightarrow> FeasibilityConfig \<Rightarrow> RegionManager option \<Rightarrow> VFATable ValuePolicy result" where
  "NewVFAPolicy table discount costCfg feasCfg rm =
     (case table of None \<Rightarrow> Inl (ErrOther ''vfa: table cannot be nil'') | Some t \<Rightarrow>
      if discount \<le> 0 \<or> discount > 1 then Inl (ErrOther ''vfa: discount must be in (0, 1]'')
      else case rm of None \<Rightarrow> Inl (ErrOther ''vfa: region manager cannot be nil'') | Some r \<Rightarrow>
        Inr \<lparr>vp_table = t, vp_discount = discount, vp_costCfg = costCfg, vp_feasCfg = feasCfg, vp_regionManager = r\<rparr>)"

definition SetTable :: "'t ValuePolicy \<Rightarrow> 't option \<Rightarrow> 't ValuePolicy" where
  "SetTable p table = (case table of None \<Rightarrow> p | Some t \<Rightarrow> p\<lparr>vp_table := t\<rparr>)"

definition vfa_score ::
  "libm \<Rightarrow> VFATable ValuePolicy \<Rightarrow> Driver \<Rightarrow> Load \<Rightarrow> CandidateArc \<Rightarrow> 53 CandidateEvaluation" where
  "vfa_score L p driver load arc =
     (let costBreakdown = CalculateTripCost L driver load arc (vp_costCfg p);
          destRegion = GetRegionID (vp_regionManager p) (Destination load);
          vfaVal = vp_discount p * GetValue (Some (vp_table p)) destRegion
      in arc_eval arc costBreakdown 0 vfaVal (NetContribution costBreakdown + vfaVal) destRegion)"

definition VFA_Evaluate ::
  "libm \<Rightarrow> VFATable ValuePolicy \<Rightarrow> 53 Belief State option \<Rightarrow> CandidateArc list result \<Rightarrow> decision option" where
  "VFA_Evaluate L p state filtered =
     evaluate_frame ''VFA_LinearPostDecision'' [vp_discount p] (vfa_score L p) state filtered"

section \<open>What every scored policy guarantees\<close>

text \<open>
  The frame only relies on the score naming the driver and the load of its arc and marking nothing. The
  locale states that interface; inside it the action of any such policy is shown one-to-one, made of
  filtered arcs between known drivers and loads, and executable when the drivers are idle.
\<close>

locale arc_scorer =
  fixes score :: "Driver \<Rightarrow> Load \<Rightarrow> CandidateArc \<Rightarrow> 53 CandidateEvaluation"
  assumes score_driver: "EvDriverID (score d l a) = ArcDriverID a"
    and score_load: "EvLoadID (score d l a) = ArcLoadID a"
    and score_unmarked: "\<not> IsAssigned (score d l a)"
begin

lemma score_arcs_known:
  "score_arcs score res arcs = Inr evals \<Longrightarrow> ev \<in> set evals \<Longrightarrow> \<not> IsAssigned ev \<and>
    (\<exists>a\<in>set arcs. \<exists>d l. GetDriver res (ArcDriverID a) = Some d \<and> GetLoad res (ArcLoadID a) = Some l \<and>
      ev = score d l a \<and> EvDriverID ev = ArcDriverID a \<and> EvLoadID ev = ArcLoadID a)"
proof (induction arcs arbitrary: evals)
  case (Cons a arcs)
  from Cons.prems(1) obtain d l es where d: "GetDriver res (ArcDriverID a) = Some d" "GetLoad res (ArcLoadID a) = Some l"
    "score_arcs score res arcs = Inr es" "evals = score d l a # es"
    by (auto split: option.splits sum.splits)
  show ?case
  proof (cases "ev = score d l a")
    case True
    with d show ?thesis using score_driver score_load score_unmarked by auto
  next
    case False
    with Cons.IH [OF d(3)] Cons.prems(2) d(4) show ?thesis by auto
  qed
qed simp

lemma frame_matches:
  assumes "evaluate_frame nm theta score (Some s) filtered = Some (Inr (action, prov))"
  shows "act_bids action = [] \<and> MatchedCount prov = length (act_matches action) \<and>
    distinct (map MDriverID (act_matches action)) \<and> distinct (map MLoadID (act_matches action)) \<and>
    (\<forall>m\<in>set (act_matches action). \<exists>arcs a d l. filtered = Inr arcs \<and> a \<in> set arcs \<and>
      MDriverID m = ArcDriverID a \<and> MLoadID m = ArcLoadID a \<and>
      GetDriver (st_resource s) (MDriverID m) = Some d \<and> GetLoad (st_resource s) (MLoadID m) = Some l \<and>
      EstimatedContribution m = NetContribution (CostBreakdown (score d l a)) \<and> \<not> TotalScore (score d l a) \<le> 0)"
proof (cases "length (rs_drivers (st_resource s)) = 0 \<or> length (rs_loads (st_resource s)) = 0")
  case True
  with assms have "action = NewAction [] []" "prov = NewDecisionProvenance nm (Some s) theta"
    by (auto simp: evaluate_frame_def Let_def)
  then show ?thesis by (simp add: NewAction_def NewDecisionProvenance_def Let_def)
next
  case False
  with assms obtain arcs evals where f: "filtered = Inr arcs" "score_arcs score (st_resource s) arcs = Inr evals"
    and m: "match_and_record (NewDecisionProvenance nm (Some s) theta) (rs_drivers (st_resource s)) evals = Some (Inr (action, prov))"
    by (auto simp: evaluate_frame_def Let_def split: sum.splits)
  let ?ep = "AvailableEpoch (rs_drivers (st_resource s) ! 0)"
  from m obtain sol where sol: "SolveMatchingDetailed NewBipartiteMatcher evals ?ep False = Some (Inr sol)"
    and a: "action = NewAction (Matches sol) []" "MatchedCount prov = length (Matches sol)"
    by (auto simp: match_and_record_def SolveMatching_def Let_def split: option.splits sum.splits)
  have u: "\<forall>ev\<in>set evals. \<not> IsAssigned ev" using score_arcs_known [OF f(2)] by blast
  note S = SolveMatching_one_to_one_spec [OF sol u]
  have bids: "act_bids action = []" and len: "length (act_matches action) = length (Matches sol)"
    unfolding a(1) by (simp_all add: NewAction_def)
  have d: "distinct (map MDriverID (act_matches action))" "distinct (map MLoadID (act_matches action))"
    using S unfolding a(1) by (simp_all add: NewAction_def)
  have "\<exists>arcs a d l. filtered = Inr arcs \<and> a \<in> set arcs \<and> MDriverID m = ArcDriverID a \<and> MLoadID m = ArcLoadID a \<and>
      GetDriver (st_resource s) (MDriverID m) = Some d \<and> GetLoad (st_resource s) (MLoadID m) = Some l \<and>
      EstimatedContribution m = NetContribution (CostBreakdown (score d l a)) \<and> \<not> TotalScore (score d l a) \<le> 0"
    if "m \<in> set (act_matches action)" for m
  proof -
    have "m \<in> set (Matches sol)" using that unfolding a(1) by simp
    with S obtain ev where ev: "ev \<in> set evals" "m = new_match ?ep ev" "\<not> TotalScore ev \<le> 0" by blast
    from score_arcs_known [OF f(2) ev(1)] ev(2,3) f(1) show ?thesis
      by (auto simp: new_match_def)
  qed
  with bids len d a(2) show ?thesis by simp
qed

lemma frame_feasible:
  assumes "evaluate_frame nm theta score (Some s) filtered = Some (Inr (action, prov))" and "rs_wf (st_resource s)"
    and "\<forall>d\<in>set (rs_drivers (st_resource s)). IsIdle d"
  shows "ValidateFeasibility action (Some (st_resource s)) = Inr ()"
proof -
  note F = frame_matches [OF assms(1)]
  have "validate_matches (st_resource s) {} {} (act_matches action) = Inr ()"
    unfolding validate_matches_iff
  proof (intro conjI ballI)
    fix m assume "m \<in> set (act_matches action)"
    with F obtain d l where "GetDriver (st_resource s) (MDriverID m) = Some d" "GetLoad (st_resource s) (MLoadID m) = Some l"
      by meson
    then show "\<exists>d. GetDriver (st_resource s) (MDriverID m) = Some d \<and> IsIdle d" "GetLoad (st_resource s) (MLoadID m) \<noteq> None"
      using driver_lookup.get_Some [OF assms(2)] assms(3) by auto
  qed (use F in simp_all)
  with F show ?thesis unfolding ValidateFeasibility_split by simp
qed

lemma frame_executes:
  assumes "evaluate_frame nm theta score (Some s) filtered = Some (Inr (action, prov))" and "rs_wf (st_resource s)"
    and "distinct (map DrvID (rs_drivers (st_resource s)))"
    and "\<forall>d\<in>set (rs_drivers (st_resource s)). IsIdle d \<and> driver_ok d"
  shows "\<exists>s'. State_Transition L s (Some action) newLoads = Some (Inr s')"
proof -
  have "ValidateFeasibility action (Some (st_resource s)) = Inr ()"
    by (rule frame_feasible [OF assms(1,2)]) (use assms(4) in blast)
  then have "validate_matches (st_resource s) {} {} (act_matches action) = Inr ()" by (simp only: ValidateFeasibility_split)
  from Transition_total [OF assms(2,3) _ this] assms(4) obtain rs' where
    "Transition L (st_resource s) (act_matches action) newLoads = Some (Inr rs')" by metis
  then show ?thesis by (simp add: State_Transition_def Let_def NewState_def)
qed

end

lemma arc_eval_scorer: "EvDriverID (arc_eval a c x y z r) = ArcDriverID a" "EvLoadID (arc_eval a c x y z r) = ArcLoadID a"
  "\<not> IsAssigned (arc_eval a c x y z r)"
  by (simp_all add: arc_eval_def)

interpretation cfa: arc_scorer "cfa_score L p b" for L p b
  by unfold_locales (simp_all add: cfa_score_def Let_def arc_eval_scorer)

interpretation vfa: arc_scorer "vfa_score L p" for L p
  by unfold_locales (simp_all add: vfa_score_def Let_def arc_eval_scorer)

text \<open>
  A run of a policy: some schedule of the concurrent filter on the drivers and loads of the state (with
  the default number of workers) and the evaluation of what it returns.
\<close>

definition policy_run ::
  "libm \<Rightarrow> FeasibilityConfig \<Rightarrow> nat \<Rightarrow> (53 Belief State option \<Rightarrow> CandidateArc list result \<Rightarrow> decision option) \<Rightarrow>
    53 Belief State \<Rightarrow> decision \<Rightarrow> bool" where
  "policy_run L feasCfg ncpu evaluate s r \<longleftrightarrow>
     (\<exists>final filtered.
        FilterCandidates L feasCfg 0 ncpu (rs_drivers (st_resource s)) (rs_loads (st_resource s)) final filtered \<and>
        evaluate (Some s) filtered = Some r)"

end
