(* ===== verification/Cave.thy ===== *)
theory Cave
  imports Policies
begin

text \<open>
  \<open>internal/domain/policy/vfa_piecewise.go\<close>: marginal values per region as a list of slopes, their CAVE
  update, and the policy that prices the destination of a load by the slope at the region's driver count.
  A loop index is a \<open>nat\<close>; the levels and counts a caller passes are \<open>int\<close>. The knowledge-gradient field of
  the policy is never read.
\<close>

section \<open>Slopes\<close>

record RegionSlopes =
  RsRegionID :: string
  Slopes :: "f64 list"

definition slope_tolerance :: f64 where
  "slope_tolerance = rnd (1 / 1000000000)"

definition NewRegionSlopes :: "string \<Rightarrow> f64 list \<Rightarrow> RegionSlopes result" where
  "NewRegionSlopes regionID slopes =
     (if length slopes = 0 then Inr \<lparr>RsRegionID = regionID, Slopes = []\<rparr>
      else if \<exists>i\<in>set [1..<length slopes]. slopes ! i > slopes ! (i - 1) + slope_tolerance
        then Inl ErrInvalidPiecewiseSlopes
      else Inr \<lparr>RsRegionID = regionID, Slopes = slopes\<rparr>)"

definition MarginalValue :: "RegionSlopes \<Rightarrow> int \<Rightarrow> f64" where
  "MarginalValue rs resourceLevel =
     (if length (Slopes rs) = 0 then 0
      else let level = (if resourceLevel < 0 then 0 else resourceLevel) in
        if level \<ge> int (length (Slopes rs)) then Slopes rs ! (length (Slopes rs) - 1)
        else Slopes rs ! nat level)"

definition TotalValue :: "RegionSlopes \<Rightarrow> int \<Rightarrow> f64" where
  "TotalValue rs resourceCount =
     (if resourceCount \<le> 0 \<or> length (Slopes rs) = 0 then 0
      else foldl (\<lambda>sum i. sum + MarginalValue rs (int i)) 0 [0..<nat resourceCount])"

type_synonym PiecewiseTable = "string \<rightharpoonup> RegionSlopes"

definition NewPiecewiseLinearVFATable :: "(string \<times> RegionSlopes) list \<Rightarrow> PiecewiseTable" where
  "NewPiecewiseLinearVFATable initialSlopes = fold (\<lambda>(k, v) m. m(k \<mapsto> v)) initialSlopes Map.empty"

definition GetMarginalValue :: "PiecewiseTable option \<Rightarrow> string \<Rightarrow> int \<Rightarrow> f64" where
  "GetMarginalValue t regionID resourceCount =
     (case t of None \<Rightarrow> 0 | Some m \<Rightarrow> (case m regionID of None \<Rightarrow> 0 | Some rs \<Rightarrow> MarginalValue rs resourceCount))"

definition GetRegionSlopes :: "PiecewiseTable option \<Rightarrow> string \<Rightarrow> RegionSlopes option" where
  "GetRegionSlopes t regionID = (case t of None \<Rightarrow> None | Some m \<Rightarrow> m regionID)"

section \<open>The CAVE update\<close>

definition clamp_step :: "f64 \<Rightarrow> f64" where
  "clamp_step stepSize = (let s = (if stepSize \<le> 0 then rnd (1 / 10) else stepSize) in if s > 1 then 1 else s)"

definition clamp_slopes :: "int \<Rightarrow> nat" where
  "clamp_slopes maxSlopes = (if maxSlopes \<le> 0 then 10 else nat maxSlopes)"

definition clamp_level :: "int \<Rightarrow> nat \<Rightarrow> nat" where
  "clamp_level resourceLevel m = (let k = nat resourceLevel in if k \<ge> m then m - 1 else k)"

definition nine_tenths :: f64 where
  "nine_tenths = rnd (9 / 10)"

definition initial_slopes :: "libm \<Rightarrow> f64 \<Rightarrow> nat \<Rightarrow> f64 list" where
  "initial_slopes L observedDual m = map (\<lambda>i. observedDual * m_pow L nine_tenths (of_int_fl (int i))) [0..<m]"

text \<open>\<open>for len(currentSlopes) < maxSlopes\<close>\<close>

fun pad_slopes :: "nat \<Rightarrow> f64 list \<Rightarrow> f64 list" where
  "pad_slopes 0 xs = xs"
| "pad_slopes (Suc n) xs = pad_slopes n (xs @ [if length xs > 0 then xs ! (length xs - 1) * nine_tenths else 0])"

text \<open>The passes to the right and to the left of the updated level.\<close>

definition cave_right :: "nat \<Rightarrow> f64 list \<Rightarrow> f64 list" where
  "cave_right j xs = (if xs ! j > xs ! (j - 1) then xs[j := xs ! (j - 1)] else xs)"

definition cave_left :: "nat \<Rightarrow> f64 list \<Rightarrow> f64 list" where
  "cave_left j xs = (if xs ! j < xs ! (j + 1) then xs[j := xs ! (j + 1)] else xs)"

definition cave_passes :: "nat \<Rightarrow> f64 list \<Rightarrow> f64 list" where
  "cave_passes k xs = fold cave_left (rev [0..<k]) (fold cave_right [k+1..<length xs] xs)"

definition smoothed :: "f64 \<Rightarrow> f64 \<Rightarrow> f64 \<Rightarrow> f64" where
  "smoothed stepSize observedDual v = (1 - stepSize) * v + stepSize * observedDual"

definition base_slopes :: "libm \<Rightarrow> PiecewiseTable \<Rightarrow> string \<Rightarrow> f64 \<Rightarrow> nat \<Rightarrow> f64 list" where
  "base_slopes L t regionID observedDual m =
     (let cur = (case t regionID of
         Some curRS \<Rightarrow> if length (Slopes curRS) > 0 then Slopes curRS else initial_slopes L observedDual m
       | None \<Rightarrow> initial_slopes L observedDual m)
      in pad_slopes (m - length cur) cur)"

definition UpdateCAVE ::
  "libm \<Rightarrow> PiecewiseTable \<Rightarrow> string \<Rightarrow> int \<Rightarrow> f64 \<Rightarrow> f64 \<Rightarrow> int \<Rightarrow> PiecewiseTable" where
  "UpdateCAVE L t regionID resourceLevel observedDual stepSize maxSlopes =
     (let stepSize = clamp_step stepSize; m = clamp_slopes maxSlopes; k = clamp_level resourceLevel m;
          currentSlopes = base_slopes L t regionID observedDual m;
          currentSlopes = currentSlopes[k := smoothed stepSize observedDual (currentSlopes ! k)]
      in t(regionID \<mapsto> \<lparr>RsRegionID = regionID, Slopes = cave_passes k currentSlopes\<rparr>))"

section \<open>The policy\<close>

definition NewPiecewiseVFAPolicy ::
  "PiecewiseTable option \<Rightarrow> f64 \<Rightarrow> CostConfig \<Rightarrow> FeasibilityConfig \<Rightarrow> RegionManager option \<Rightarrow>
    PiecewiseTable ValuePolicy result" where
  "NewPiecewiseVFAPolicy table discount costCfg feasCfg rm =
     (case table of None \<Rightarrow> Inl (ErrOther ''vfa_piecewise: table cannot be nil'') | Some t \<Rightarrow>
      if discount \<le> 0 \<or> discount > 1 then Inl (ErrOther ''vfa_piecewise: discount must be in (0, 1]'')
      else case rm of None \<Rightarrow> Inl (ErrOther ''vfa_piecewise: region manager cannot be nil'') | Some r \<Rightarrow>
        Inr \<lparr>vp_table = t, vp_discount = discount, vp_costCfg = costCfg, vp_feasCfg = feasCfg, vp_regionManager = r\<rparr>)"

definition region_count :: "RegionManager \<Rightarrow> Driver list \<Rightarrow> string \<Rightarrow> nat" where
  "region_count rm drivers region = length (filter (\<lambda>d. GetRegionID rm (CurrentLocation d) = region) drivers)"

definition piecewise_score ::
  "libm \<Rightarrow> PiecewiseTable ValuePolicy \<Rightarrow> Driver list \<Rightarrow> Driver \<Rightarrow> Load \<Rightarrow> CandidateArc \<Rightarrow> 53 CandidateEvaluation" where
  "piecewise_score L p drivers driver load arc =
     (let costBreakdown = CalculateTripCost L driver load arc (vp_costCfg p);
          destRegion = GetRegionID (vp_regionManager p) (Destination load);
          currentCount = region_count (vp_regionManager p) drivers destRegion;
          marginalValue = GetMarginalValue (Some (vp_table p)) destRegion (int currentCount);
          vfaVal = vp_discount p * marginalValue
      in arc_eval arc costBreakdown 0 vfaVal (NetContribution costBreakdown + vfaVal) destRegion)"

definition PiecewiseVFA_Evaluate ::
  "libm \<Rightarrow> PiecewiseTable ValuePolicy \<Rightarrow> 53 Belief State option \<Rightarrow> CandidateArc list result \<Rightarrow> decision option" where
  "PiecewiseVFA_Evaluate L p state filtered =
     evaluate_frame ''VFA_PiecewiseLinearConcave'' [vp_discount p]
       (piecewise_score L p (case state of None \<Rightarrow> [] | Some s \<Rightarrow> rs_drivers (st_resource s))) state filtered"

interpretation piecewise: arc_scorer "piecewise_score L p ds" for L p ds
  by unfold_locales (simp_all add: piecewise_score_def Let_def arc_eval_scorer)

section \<open>Concavity\<close>

definition concave :: "f64 list \<Rightarrow> bool" where
  "concave xs \<longleftrightarrow> sorted_wrt (\<lambda>a b. b \<le> a) xs"

definition no_nan :: "f64 list \<Rightarrow> bool" where
  "no_nan xs \<longleftrightarrow> (\<forall>x\<in>set xs. \<not> is_nan x)"

lemma length_cave [simp]: "length (cave_right j xs) = length xs" "length (cave_left j xs) = length xs"
  by (simp_all add: cave_right_def cave_left_def)

lemma length_cave_fold [simp]:
  "length (fold cave_right js xs) = length xs" "length (fold cave_left js xs) = length xs"
  by (induction js arbitrary: xs) simp_all

definition go_min :: "f64 \<Rightarrow> f64 \<Rightarrow> f64" where
  "go_min x y = (if x > y then y else x)"

definition go_max2 :: "f64 \<Rightarrow> f64 \<Rightarrow> f64" where
  "go_max2 x y = (if x < y then y else x)"

text \<open>
  After the two passes the slopes are the running minimum of the input to the right of level \<open>k\<close> and the
  running maximum to its left.
\<close>

lemma cave_right_fold:
  assumes "k < length xs" and "n \<le> length xs" and "k + 1 \<le> n"
  shows "let ys = fold cave_right [k+1..<n] xs in
    (\<forall>j<length xs. (j \<le> k \<or> n \<le> j) \<longrightarrow> ys ! j = xs ! j) \<and> (\<forall>j. k < j \<and> j < n \<longrightarrow> ys ! j = go_min (xs ! j) (ys ! (j - 1)))"
  using assms(2,3)
proof (induction n)
  case (Suc n)
  show ?case
  proof (cases "n = k")
    case True
    then show ?thesis by (simp del: upt_Suc add: Let_def) auto
  next
    case False
    then have "k + 1 \<le> n" using Suc.prems by simp
    with Suc have IH: "let ys = fold cave_right [k+1..<n] xs in
      (\<forall>j<length xs. (j \<le> k \<or> n \<le> j) \<longrightarrow> ys ! j = xs ! j) \<and> (\<forall>j. k < j \<and> j < n \<longrightarrow> ys ! j = go_min (xs ! j) (ys ! (j - 1)))"
      by simp
    let ?ys = "fold cave_right [k+1..<n] xs"
    have step: "fold cave_right [k+1..<Suc n] xs = cave_right n ?ys" using \<open>k + 1 \<le> n\<close> by (simp add: upt_Suc)
    have n: "?ys ! n = xs ! n" "n < length xs" using IH Suc.prems by (auto simp: Let_def)
    have "cave_right n ?ys ! j = (if j = n then go_min (xs ! n) (?ys ! (n - 1)) else ?ys ! j)" if "j < length xs" for j
      using that n by (auto simp: cave_right_def go_min_def nth_list_update)
    with IH n \<open>k + 1 \<le> n\<close> show ?thesis unfolding step Let_def by (auto simp: less_Suc_eq)
  qed
qed simp

lemma cave_left_fold:
  assumes "k < length xs"
  shows "let ys = fold cave_left (rev [0..<k]) xs in
    (\<forall>j<length xs. k \<le> j \<longrightarrow> ys ! j = xs ! j) \<and> (\<forall>j<k. ys ! j = go_max2 (xs ! j) (ys ! (j + 1)))"
  using assms
proof (induction k arbitrary: xs)
  case (Suc k)
  let ?x = "cave_left k xs" and ?ys = "fold cave_left (rev [0..<k]) (cave_left k xs)"
  have step: "fold cave_left (rev [0..<Suc k]) xs = ?ys" by simp
  have IH: "(\<forall>j<length xs. k \<le> j \<longrightarrow> ?ys ! j = ?x ! j) \<and> (\<forall>j<k. ?ys ! j = go_max2 (?x ! j) (?ys ! (j + 1)))"
    using Suc.IH [of ?x] Suc.prems by (simp add: Let_def)
  have x: "?x ! j = (if j = k then go_max2 (xs ! k) (xs ! (k + 1)) else xs ! j)" if "j < length xs" for j
    using that Suc.prems by (auto simp: cave_left_def go_max2_def nth_list_update)
  show ?case unfolding step Let_def
  proof (intro conjI allI impI)
    fix j assume "j < length xs" "Suc k \<le> j"
    with IH x show "?ys ! j = xs ! j" by auto
  next
    fix j assume j: "j < Suc k"
    show "?ys ! j = go_max2 (xs ! j) (?ys ! (j + 1))"
    proof (cases "j = k")
      case True
      with IH x Suc.prems show ?thesis by auto
    next
      case False
      with j IH x [of j] Suc.prems show ?thesis by auto
    qed
  qed
qed simp

lemma set_cave: "j < length xs \<Longrightarrow> 0 < j \<Longrightarrow> set (cave_right j xs) \<subseteq> set xs"
  "j + 1 < length xs \<Longrightarrow> set (cave_left j xs) \<subseteq> set xs"
  by (auto simp: cave_right_def cave_left_def dest!: set_update_subset_insert [THEN subsetD])

lemma set_cave_fold:
  "\<forall>j\<in>set js. 0 < j \<and> j < length xs \<Longrightarrow> set (fold cave_right js xs) \<subseteq> set xs"
  "\<forall>j\<in>set js. j + 1 < length xs \<Longrightarrow> set (fold cave_left js xs) \<subseteq> set xs"
proof (induction js arbitrary: xs)
  case (Cons j js)
  { case 1
    with Cons.IH(1) [of "cave_right j xs"] set_cave(1) [of j xs] show ?case by auto }
  { case 2
    with Cons.IH(2) [of "cave_left j xs"] set_cave(2) [of j xs] show ?case by auto }
qed simp_all

lemma go_min_le: "\<not> is_nan x \<Longrightarrow> \<not> is_nan y \<Longrightarrow> go_min x y \<le> y \<and> go_min x y \<le> x"
  using not_less_fl [of y x] by (auto simp: go_min_def le_fl_refl less_imp_le_fl)

lemma go_max2_ge: "\<not> is_nan x \<Longrightarrow> \<not> is_nan y \<Longrightarrow> y \<le> go_max2 x y \<and> x \<le> go_max2 x y"
  using not_less_fl [of x y] by (auto simp: go_max2_def le_fl_refl less_imp_le_fl)

lemma cave_passes_nth:
  assumes k: "k < length xs"
  defines "zs \<equiv> cave_passes k xs"
  shows "length zs = length xs" and "zs ! k = xs ! k"
    and "\<And>j. k < j \<Longrightarrow> j < length xs \<Longrightarrow> zs ! j = go_min (xs ! j) (zs ! (j - 1))"
    and "\<And>j. j < k \<Longrightarrow> zs ! j = go_max2 (xs ! j) (zs ! (j + 1))"
    and "set zs \<subseteq> set xs"
proof -
  let ?ys = "fold cave_right [k+1..<length xs] xs"
  have zs: "zs = fold cave_left (rev [0..<k]) ?ys" by (simp add: zs_def cave_passes_def)
  show len: "length zs = length xs" by (simp add: zs)
  have R: "\<forall>j<length xs. j \<le> k \<longrightarrow> ?ys ! j = xs ! j" "\<forall>j. k < j \<and> j < length xs \<longrightarrow> ?ys ! j = go_min (xs ! j) (?ys ! (j - 1))"
    using cave_right_fold [OF k le_refl] k unfolding Let_def by auto
  have Lf: "\<forall>j<length xs. k \<le> j \<longrightarrow> zs ! j = ?ys ! j" "\<forall>j<k. zs ! j = go_max2 (?ys ! j) (zs ! (j + 1))"
    using cave_left_fold [of k ?ys] k unfolding zs Let_def by auto
  show "zs ! k = xs ! k" using R Lf k by simp
  show "zs ! j = go_min (xs ! j) (zs ! (j - 1))" if "k < j" "j < length xs" for j
  proof -
    have "j - 1 < length xs" "k \<le> j - 1" "k \<le> j" using that by auto
    then have "zs ! j = ?ys ! j" "zs ! (j - 1) = ?ys ! (j - 1)" using Lf(1) that by blast+
    with R(2) that show ?thesis by simp
  qed
  show "zs ! j = go_max2 (xs ! j) (zs ! (j + 1))" if "j < k" for j
    using Lf(2) R(1) that k by simp
  have "set ?ys \<subseteq> set xs" by (rule set_cave_fold(1)) auto
  moreover have "set zs \<subseteq> set ?ys" unfolding zs by (rule set_cave_fold(2)) (use k in auto)
  ultimately show "set zs \<subseteq> set xs" by blast
qed

lemma concave_steps:
  assumes "no_nan xs" and "\<And>j. j + 1 < length xs \<Longrightarrow> xs ! (j + 1) \<le> xs ! j"
  shows "concave xs"
  unfolding concave_def sorted_wrt_iff_nth_less
proof (intro allI impI)
  fix i j assume ij: "i < j" "j < length xs"
  then show "xs ! j \<le> xs ! i"
  proof (induction j)
    case (Suc j)
    show ?case
    proof (cases "i = j")
      case True
      with assms(2) [of j] Suc.prems show ?thesis by simp
    next
      case False
      with Suc have "xs ! j \<le> xs ! i" by simp
      moreover have "xs ! Suc j \<le> xs ! j" using assms(2) [of j] Suc.prems by simp
      ultimately show ?thesis by (rule le_fl_trans [rotated])
    qed
  qed simp
qed

lemma cave_passes_concave:
  assumes k: "k < length xs" and nn: "no_nan xs"
  shows "concave (cave_passes k xs)"
proof (rule concave_steps)
  note P = cave_passes_nth [OF k]
  show nz: "no_nan (cave_passes k xs)" using P(5) nn unfolding no_nan_def by blast
  then have num: "\<not> is_nan (cave_passes k xs ! j)" "\<not> is_nan (xs ! j)" if "j < length xs" for j
    using that nn P(1) unfolding no_nan_def by (auto simp: nth_mem)
  fix j assume "j + 1 < length (cave_passes k xs)"
  then have j: "j + 1 < length xs" by (simp add: P(1))
  show "cave_passes k xs ! (j + 1) \<le> cave_passes k xs ! j"
  proof (cases "j < k")
    case True
    with P(4) [OF True] go_max2_ge num j show ?thesis by simp
  next
    case False
    then have "cave_passes k xs ! (j + 1) = go_min (xs ! (j + 1)) (cave_passes k xs ! j)" using P(3) [of "j + 1"] j by simp
    with go_min_le num j show ?thesis by simp
  qed
qed

text \<open>On slopes that were concave, the passes clear the level: they cap on the right and lift on the left.\<close>

lemma cave_passes_clear:
  assumes k: "k < length xs" and nn: "no_nan (xs[k := v])" and c: "concave xs" and j: "j < length xs"
  shows "cave_passes k (xs[k := v]) ! j = (if j = k then v else if j < k then go_max2 (xs ! j) v else go_min (xs ! j) v)"
proof -
  let ?xs = "xs[k := v]" and ?zs = "cave_passes k (xs[k := v])"
  note P = cave_passes_nth [of k ?xs, simplified, OF k]
  have num: "\<not> is_nan (?xs ! i)" if "i < length xs" for i using that nn unfolding no_nan_def by (metis length_list_update nth_mem)
  have nv: "\<not> is_nan v" and nx: "\<And>i. i < length xs \<Longrightarrow> i \<noteq> k \<Longrightarrow> \<not> is_nan (xs ! i)"
    using num k by (metis nth_list_update_eq) (use num in \<open>metis nth_list_update_neq\<close>)
  have mono: "xs ! b \<le> xs ! a" if "a < b" "b < length xs" for a b
    using c that unfolding concave_def sorted_wrt_iff_nth_less by blast
  have right: "i < length xs \<Longrightarrow> ?zs ! i = go_min (xs ! i) v" if "k < i" for i
    using that
  proof (induction i)
    case (Suc i)
    then have e: "?zs ! Suc i = go_min (xs ! Suc i) (?zs ! i)" using P(3) [of "Suc i"] by simp
    show ?case
    proof (cases "i = k")
      case True
      then show ?thesis using e P(2) by simp
    next
      case False
      then have "?zs ! i = go_min (xs ! i) v" using Suc by simp
      moreover have "xs ! Suc i \<le> xs ! i" using mono [of i "Suc i"] Suc.prems by simp
      ultimately show ?thesis unfolding e go_min_def by (auto dest: le_less_fl_trans less_fl_trans simp: less_eq_fl_def)
    qed
  qed simp
  have left: "?zs ! (k - i) = (if i = 0 then v else go_max2 (xs ! (k - i)) v)" if "i \<le> k" for i
    using that
  proof (induction i)
    case 0
    then show ?case using P(2) by simp
  next
    case (Suc i)
    then have e: "?zs ! (k - Suc i) = go_max2 (xs ! (k - Suc i)) (?zs ! (k - i))"
      using P(4) [of "k - Suc i"] by (simp add: Suc_diff_Suc)
    show ?case
    proof (cases "i = 0")
      case True
      then show ?thesis using e Suc by simp
    next
      case False
      then have "?zs ! (k - i) = go_max2 (xs ! (k - i)) v" using Suc by simp
      moreover have "xs ! (k - i) \<le> xs ! (k - Suc i)" using mono [of "k - Suc i" "k - i"] Suc.prems k by simp
      ultimately show ?thesis unfolding e go_max2_def by (auto dest: le_less_fl_trans less_le_fl_trans less_fl_trans simp: less_eq_fl_def)
    qed
  qed
  show ?thesis
  proof (cases "j < k")
    case True
    then show ?thesis using left [of "k - j"] by simp
  next
    case False
    then show ?thesis using right [of j] j P(2) by (cases "j = k") auto
  qed
qed

lemma length_pad_slopes: "length (pad_slopes n xs) = length xs + n"
  by (induction n xs rule: pad_slopes.induct) auto

lemma base_slopes_length: "m \<le> length (base_slopes L t r d m)"
  by (simp add: base_slopes_def Let_def length_pad_slopes)

lemma clamp_level_less: "0 < m \<Longrightarrow> clamp_level k m < m"
  by (simp add: clamp_level_def Let_def)

lemma clamp_slopes_pos: "0 < clamp_slopes n"
  by (simp add: clamp_slopes_def)

text \<open>
  Property C23. The CAVE update keeps slopes concave: whatever the slopes were (even if the padding broke concavity), as
  long as the numbers involved are numbers the new slopes are non-increasing. If the old slopes were concave
  the update is exactly level clearing: the smoothed value at the level, slopes to its right capped by it,
  slopes to its left lifted to it. Other regions keep their slopes.
\<close>

theorem UpdateCAVE_concave:
  fixes L t regionID observedDual stepSize resourceLevel maxSlopes
  defines "m \<equiv> clamp_slopes maxSlopes"
  defines "k \<equiv> clamp_level resourceLevel m" and "old \<equiv> base_slopes L t regionID observedDual m"
  defines "v \<equiv> smoothed (clamp_step stepSize) observedDual (old ! k)"
  assumes "no_nan old" and "\<not> is_nan v"
  shows "\<exists>new. UpdateCAVE L t regionID resourceLevel observedDual stepSize maxSlopes = t(regionID \<mapsto> new) \<and>
    concave (Slopes new) \<and> length (Slopes new) = length old \<and>
    (concave old \<longrightarrow> (\<forall>j<length old. Slopes new ! j =
       (if j = k then v else if j < k then go_max2 (old ! j) v else go_min (old ! j) v)))"
proof -
  have m: "0 < m" "m \<le> length old" unfolding m_def old_def by (rule clamp_slopes_pos) (rule base_slopes_length)
  have k: "k < length old" using clamp_level_less [OF m(1), of resourceLevel] m(2) by (simp add: k_def)
  have nn: "no_nan (old[k := v])" using assms(5,6) unfolding no_nan_def by (auto dest!: set_update_subset_insert [THEN subsetD])
  let ?new = "\<lparr>RsRegionID = regionID, Slopes = cave_passes k (old[k := v])\<rparr>"
  have "UpdateCAVE L t regionID resourceLevel observedDual stepSize maxSlopes = t(regionID \<mapsto> ?new)"
    unfolding UpdateCAVE_def Let_def m_def [symmetric] k_def [symmetric] old_def [symmetric] v_def [symmetric] ..
  moreover have "concave (Slopes ?new)" using cave_passes_concave [OF _ nn, of k] k by simp
  moreover have "length (Slopes ?new) = length old" using cave_passes_nth(1) [of k "old[k := v]"] k by simp
  ultimately show ?thesis using cave_passes_clear [OF k nn] by (intro exI [of _ ?new]) simp
qed

definition demo_table :: PiecewiseTable where
  "demo_table = [''R'' \<mapsto> \<lparr>RsRegionID = ''R'', Slopes = [Fin 10, Fin 5]\<rparr>]"

lemma demo_base: "base_slopes L demo_table ''R'' d 2 = [Fin 10, Fin 5]"
  by (simp add: base_slopes_def demo_table_def)

lemma demo_level: "clamp_slopes 2 = 2" "clamp_level 0 2 = 0"
  by (simp_all add: clamp_slopes_def clamp_level_def Let_def)

lemma UpdateCAVE_concave_witness:
  "\<exists>new. UpdateCAVE demo_libm demo_table ''R'' 0 (Fin 3) 1 2 = demo_table(''R'' \<mapsto> new) \<and> concave (Slopes new) \<and> Slopes new ! 1 = Fin 3"
proof -
  have n: "no_nan (base_slopes demo_libm demo_table ''R'' (Fin 3) (clamp_slopes 2))"
    unfolding demo_level demo_base by (simp add: no_nan_def)
  have v: "smoothed (clamp_step 1) (Fin 3) (base_slopes demo_libm demo_table ''R'' (Fin 3) (clamp_slopes 2) !
      clamp_level 0 (clamp_slopes 2)) = Fin 3"
    unfolding demo_level demo_base by (simp add: smoothed_def clamp_step_def one_fl_def zero_fl_def minus_fl_def Let_def)
  then have nv: "\<not> is_nan (smoothed (clamp_step 1) (Fin 3) (base_slopes demo_libm demo_table ''R'' (Fin 3) (clamp_slopes 2) !
      clamp_level 0 (clamp_slopes 2)))" by simp
  have c: "concave [Fin 10, Fin 5]" by (simp add: concave_def)
  from UpdateCAVE_concave [OF n nv] obtain new where
    "UpdateCAVE demo_libm demo_table ''R'' 0 (Fin 3) 1 2 = demo_table(''R'' \<mapsto> new)" "concave (Slopes new)"
    "Slopes new ! 1 = go_min (Fin 5) (Fin 3)"
    using c unfolding v unfolding demo_level demo_base by auto
  then show ?thesis by (auto simp: go_min_def)
qed

section \<open>Policies and the state\<close>

text \<open>The evaluations of the three scored policies.\<close>

definition scored_policies :: "libm \<Rightarrow> (53 Belief State option \<Rightarrow> CandidateArc list result \<Rightarrow> decision option) set" where
  "scored_policies L = range (CFA_Evaluate L) \<union> range (VFA_Evaluate L) \<union> range (PiecewiseVFA_Evaluate L)"

lemma scored_policy_cases:
  assumes "evaluate \<in> scored_policies L"
  obtains nm theta score where "arc_scorer score" and "evaluate (Some s) filtered = evaluate_frame nm theta score (Some s) filtered"
proof -
  from assms consider (c) p where "evaluate = CFA_Evaluate L p" | (v) p where "evaluate = VFA_Evaluate L p"
    | (w) p where "evaluate = PiecewiseVFA_Evaluate L p" unfolding scored_policies_def by blast
  then show thesis
  proof cases
    case c
    show thesis by (rule that [OF cfa.arc_scorer_axioms]) (simp add: c CFA_Evaluate_def)
  next
    case v
    show thesis by (rule that [OF vfa.arc_scorer_axioms]) (simp add: v VFA_Evaluate_def)
  next
    case w
    show thesis by (rule that [OF piecewise.arc_scorer_axioms]) (simp add: w PiecewiseVFA_Evaluate_def)
  qed
qed


definition demo_state :: "53 Belief State" where
  "demo_state = \<lparr>st_resource = NewResourceState [demo_driver ''D1'' demo_A]
       [demo_load ''L1'' demo_A demo_B \<lparr>RequiredEquipment := EquipTanker\<rparr>],
     st_information = \<lparr>epoch = 0, fuelPriceIndex = 1, nationalSpotRateIndex = 1, weatherAlertCount = 0\<rparr>,
     st_belief = NewMonopolisticBelief\<rparr>"

lemma demo_state_lists: "rs_drivers (st_resource demo_state) = [demo_driver ''D1'' demo_A]"
  "rs_loads (st_resource demo_state) = [demo_load ''L1'' demo_A demo_B \<lparr>RequiredEquipment := EquipTanker\<rparr>]"
  by (simp_all add: demo_state_def NewResourceState_def sort_slice_def Let_def)


end
