(* ===== verification/Pfa.thy ===== *)
theory Pfa
  imports Policies
begin

text \<open>
  \<open>internal/domain/policy/pfa.go\<close>: the priority-rule policy, which assigns drivers one after the other,
  earliest availability first, each to the free load of the best positive score. It evaluates the arcs
  itself, without the filter.
\<close>

section \<open>The policy\<close>

record PFAParameters =
  PfaMaxDeadheadMiles :: f64
  DeadheadWeight :: f64
  DwellWeight :: f64
  RevenueWeight :: f64

definition DefaultPFAParameters :: PFAParameters where
  "DefaultPFAParameters = \<lparr>PfaMaxDeadheadMiles = Fin 500, DeadheadWeight = 1, DwellWeight = rnd (1 / 2), RevenueWeight = 1\<rparr>"

record PFAPolicy =
  pfa_params :: PFAParameters
  pfa_costCfg :: CostConfig
  pfa_feasCfg :: FeasibilityConfig

definition NewPFAPolicy :: "PFAParameters \<Rightarrow> CostConfig \<Rightarrow> FeasibilityConfig \<Rightarrow> PFAPolicy" where
  "NewPFAPolicy params costCfg feasCfg = \<lparr>pfa_params = params, pfa_costCfg = costCfg, pfa_feasCfg = feasCfg\<rparr>"

definition avail_less :: "Driver \<Rightarrow> Driver \<Rightarrow> bool" where
  "avail_less a b = (if AvailableEpoch a \<noteq> AvailableEpoch b then AvailableEpoch a < AvailableEpoch b else DrvID a < DrvID b)"

text \<open>The arc of a pair: the fields the policy does not set are zero values.\<close>

definition pfa_arc :: "libm \<Rightarrow> Driver \<Rightarrow> Load \<Rightarrow> CandidateArc" where
  "pfa_arc L d l = \<lparr>ArcDriverID = DrvID d, ArcLoadID = LdID l,
     DeadheadMiles = DistanceMiles L (CurrentLocation d) (Origin l), LoadedMiles = DistanceMiles L (Origin l) (Destination l),
     ArcDeadheadDriveMin = 0, ArcLoadedDriveMin = 0, ArcInsertedRestMin = 0, ArcInsertedDwellMin = 0, TotalTripMin = 0,
     ArcPickupArrivalTime = zero_time, ArcLoadingEndTime = zero_time, ArcDeliveryArrivalTime = zero_time,
     ArcUnloadingEndTime = zero_time\<rparr>"

definition pfa_cost :: "libm \<Rightarrow> PFAPolicy \<Rightarrow> Driver \<Rightarrow> Load \<Rightarrow> 53 TripCostBreakdown" where
  "pfa_cost L p d l = CalculateTripCost L d l (pfa_arc L d l) (pfa_costCfg p)"

definition pfa_score :: "libm \<Rightarrow> PFAPolicy \<Rightarrow> Driver \<Rightarrow> Load \<Rightarrow> f64" where
  "pfa_score L p d l =
     (let c = pfa_cost L p d l in
      RevenueWeight (pfa_params p) * Revenue l - DeadheadWeight (pfa_params p) * TcEmptyCost c -
      DwellWeight (pfa_params p) * TcDwellCost c - (TcFixedCost c + TcLoadedCost c + TcEmptyToHomeCost c))"

definition pfa_eval :: "libm \<Rightarrow> PFAPolicy \<Rightarrow> Driver \<Rightarrow> Load \<Rightarrow> 53 CandidateEvaluation" where
  "pfa_eval L p d l = \<lparr>EvDriverID = DrvID d, EvLoadID = LdID l, CostBreakdown = pfa_cost L p d l, CFAAdjustment = 0,
     VFAValue = 0, DLAValue = 0, TotalScore = pfa_score L p d l, PostDecisionRegion = '''',
     EvDeadheadMiles = DeadheadMiles (pfa_arc L d l), EvLoadedMiles = LoadedMiles (pfa_arc L d l),
     EvInsertedDwellMin = 0, EvInsertedRestMin = 0, EvTotalTripMin = 0, IsAssigned = False\<rparr>"

text \<open>The equipment and deadhead checks.\<close>

definition pfa_feasible :: "libm \<Rightarrow> PFAPolicy \<Rightarrow> Driver \<Rightarrow> Load \<Rightarrow> bool" where
  "pfa_feasible L p d l \<longleftrightarrow> CanHandle (DrvEquipment d) (RequiredEquipment l) (RequiredEndorsements l) \<and>
     (let deadheadMiles = DistanceMiles L (CurrentLocation d) (Origin l) in
      \<not> (deadheadMiles > PfaMaxDeadheadMiles (pfa_params p) \<or> deadheadMiles > MaxDeadheadMiles (pfa_feasCfg p)))"

text \<open>The loop over the loads for one driver: the evaluations made and the best option so far.\<close>

definition pfa_load_step ::
  "libm \<Rightarrow> PFAPolicy \<Rightarrow> string set \<Rightarrow> Driver \<Rightarrow> Load \<Rightarrow>
    53 CandidateEvaluation list \<times> Load option \<Rightarrow> 53 CandidateEvaluation list \<times> Load option" where
  "pfa_load_step L p assignedLoads d l acc =
     (case acc of (evaluatedArcs, bestOption) \<Rightarrow>
       if LdID l \<in> assignedLoads then acc
       else if \<not> pfa_feasible L p d l then acc
       else let score = pfa_score L p d l in
         (evaluatedArcs @ [pfa_eval L p d l],
          if score > 0 \<and> (case bestOption of None \<Rightarrow> True | Some b \<Rightarrow> score > pfa_score L p d b)
          then Some l else bestOption))"

text \<open>\<open>IsAssigned\<close> is set on the first evaluation of the pair.\<close>

fun mark_first :: "string \<Rightarrow> string \<Rightarrow> 53 CandidateEvaluation list \<Rightarrow> 53 CandidateEvaluation list" where
  "mark_first dID lID [] = []"
| "mark_first dID lID (e # es) =
     (if EvDriverID e = dID \<and> EvLoadID e = lID then e\<lparr>IsAssigned := True\<rparr> # es else e # mark_first dID lID es)"

record pfa_state =
  p_assigned :: "string set"
  p_matches :: "DriverLoadMatch list"
  p_evals :: "53 CandidateEvaluation list"
  p_net :: f64

definition pfa_match :: "Driver \<Rightarrow> Load \<Rightarrow> DriverLoadMatch" where
  "pfa_match d l = \<lparr>MDriverID = DrvID d, MLoadID = LdID l, DispatchEpoch = AvailableEpoch d, EstimatedContribution = 0\<rparr>"

definition pfa_driver_step :: "libm \<Rightarrow> PFAPolicy \<Rightarrow> Load list \<Rightarrow> Driver \<Rightarrow> pfa_state \<Rightarrow> pfa_state" where
  "pfa_driver_step L p loads d s =
     (case fold (pfa_load_step L p (p_assigned s) d) loads (p_evals s, None) of
        (evaluatedArcs, None) \<Rightarrow> s\<lparr>p_evals := evaluatedArcs\<rparr>
      | (evaluatedArcs, Some l) \<Rightarrow>
          \<lparr>p_assigned = insert (LdID l) (p_assigned s), p_matches = p_matches s @ [pfa_match d l],
           p_evals = mark_first (DrvID d) (LdID l) evaluatedArcs,
           p_net = p_net s + NetContribution (pfa_cost L p d l)\<rparr>)"

definition pfa_dispatch :: "libm \<Rightarrow> PFAPolicy \<Rightarrow> Load list \<Rightarrow> Driver list \<Rightarrow> pfa_state" where
  "pfa_dispatch L p loads drivers =
     fold (pfa_driver_step L p loads) drivers \<lparr>p_assigned = {}, p_matches = [], p_evals = [], p_net = 0\<rparr>"

definition PFA_Evaluate :: "libm \<Rightarrow> PFAPolicy \<Rightarrow> 53 Belief State option \<Rightarrow> decision" where
  "PFA_Evaluate L p state =
     (case state of
        None \<Rightarrow> Inl (ErrOther ''pfa: state cannot be nil'')
      | Some s \<Rightarrow>
          let drivers = rs_drivers (st_resource s); loads = rs_loads (st_resource s);
              th = pfa_params p;
              prov = NewDecisionProvenance ''PFA_GreedyPriorityRule'' state
                [PfaMaxDeadheadMiles th, DeadheadWeight th, DwellWeight th, RevenueWeight th] in
          if length drivers = 0 \<or> length loads = 0 then Inr (NewAction [] [], prov)
          else let r = pfa_dispatch L p loads (sort_slice avail_less drivers) in
            Inr (NewAction (p_matches r) [],
              prov\<lparr>EvaluatedArcs := p_evals r, MatchedCount := length (p_matches r),
                   TotalNetContribution := p_net r, TotalObjectiveValue := p_net r\<rparr>))"

section \<open>Priority\<close>

definition pfa_wants :: "libm \<Rightarrow> PFAPolicy \<Rightarrow> Driver \<Rightarrow> Load \<Rightarrow> bool" where
  "pfa_wants L p d l \<longleftrightarrow> pfa_feasible L p d l \<and> pfa_score L p d l > 0"

text \<open>The inner loop returns a best wanted load that is not taken, or none when there is none.\<close>

lemma pfa_inner:
  "case snd (fold (pfa_load_step L p A d) loads (evs, None)) of
     None \<Rightarrow> \<forall>l\<in>set loads. LdID l \<notin> A \<longrightarrow> \<not> pfa_wants L p d l
   | Some b \<Rightarrow> b \<in> set loads \<and> LdID b \<notin> A \<and> pfa_wants L p d b \<and>
       (\<forall>l\<in>set loads. LdID l \<notin> A \<longrightarrow> pfa_wants L p d l \<longrightarrow> pfa_score L p d l \<le> pfa_score L p d b)"
proof (induction loads rule: rev_induct)
  case (snoc l loads)
  obtain es b where acc: "fold (pfa_load_step L p A d) loads (evs, None) = (es, b)" by fastforce
  have step: "snd (fold (pfa_load_step L p A d) (loads @ [l]) (evs, None)) =
    (if LdID l \<notin> A \<and> pfa_wants L p d l \<and> (case b of None \<Rightarrow> True | Some x \<Rightarrow> pfa_score L p d l > pfa_score L p d x)
     then Some l else b)"
    by (auto simp: acc pfa_load_step_def Let_def pfa_wants_def split: option.splits)
  have num: "\<not> is_nan (pfa_score L p d x)" if "pfa_wants L p d x" for x
    using that less_fl_not_nan unfolding pfa_wants_def by blast
  show ?case
  proof (cases b)
    case None
    with snoc acc step show ?thesis by (auto simp: le_fl_refl num)
  next
    case (Some x)
    with snoc acc have x: "x \<in> set loads" "LdID x \<notin> A" "pfa_wants L p d x"
      and best: "\<And>y. y \<in> set loads \<Longrightarrow> LdID y \<notin> A \<Longrightarrow> pfa_wants L p d y \<Longrightarrow> pfa_score L p d y \<le> pfa_score L p d x" by auto
    show ?thesis
    proof (cases "LdID l \<notin> A \<and> pfa_wants L p d l \<and> pfa_score L p d l > pfa_score L p d x")
      case True
      then have "pfa_score L p d y \<le> pfa_score L p d l" if "y \<in> set loads" "LdID y \<notin> A" "pfa_wants L p d y" for y
        using best [OF that] le_less_fl_trans less_imp_le_fl by blast
      with True Some step show ?thesis by (auto simp: le_fl_refl num)
    next
      case False
      then have "pfa_score L p d l \<le> pfa_score L p d x" if "LdID l \<notin> A" "pfa_wants L p d l"
        using that x(3) not_less_fl [OF num num] by blast
      with False Some step x best show ?thesis by auto
    qed
  qed
qed simp

text \<open>
  The outer loop on the drivers already served: the matches are theirs, one load each, and a load a served
  driver wants is either no better than its own or was taken before.
\<close>

definition pfa_inv :: "libm \<Rightarrow> PFAPolicy \<Rightarrow> Load list \<Rightarrow> Driver list \<Rightarrow> pfa_state \<Rightarrow> bool" where
  "pfa_inv L p loads served s \<longleftrightarrow>
     p_assigned s = set (map MLoadID (p_matches s)) \<and> distinct (map MLoadID (p_matches s)) \<and>
     subseq (map MDriverID (p_matches s)) (map DrvID served) \<and>
     (\<forall>m\<in>set (p_matches s). \<exists>d\<in>set served. \<exists>l\<in>set loads. m = pfa_match d l \<and> pfa_wants L p d l) \<and>
     (\<forall>i<length served. \<forall>l\<in>set loads. pfa_wants L p (served ! i) l \<longrightarrow>
        (\<exists>j\<le>i. \<exists>l'\<in>set loads. pfa_match (served ! j) l' \<in> set (p_matches s) \<and>
          (LdID l' = LdID l \<or> j = i \<and> pfa_score L p (served ! i) l \<le> pfa_score L p (served ! i) l')))"

lemma pfa_step_inv:
  assumes inv: "pfa_inv L p loads served s"
  shows "pfa_inv L p loads (served @ [d]) (pfa_driver_step L p loads d s)"
proof -
  note I = inv [unfolded pfa_inv_def]
  obtain es b where r: "fold (pfa_load_step L p (p_assigned s) d) loads (p_evals s, None) = (es, b)" by fastforce
  note inner = pfa_inner [where L = L and p = p and A = "p_assigned s" and d = d and loads = loads and evs = "p_evals s",
      unfolded r snd_conv]
  have old: "\<exists>j\<le>i. \<exists>l'\<in>set loads. pfa_match ((served @ [d]) ! j) l' \<in> set ms \<and>
      (LdID l' = LdID l \<or> j = i \<and> pfa_score L p ((served @ [d]) ! i) l \<le> pfa_score L p ((served @ [d]) ! i) l')"
    if i: "i < length served" and l: "l \<in> set loads" "pfa_wants L p ((served @ [d]) ! i) l" and ms: "set (p_matches s) \<subseteq> set ms"
    for i l ms
  proof -
    have e: "(served @ [d]) ! j = served ! j" if "j \<le> i" for j using that i by (simp add: nth_append)
    with l(2) have "pfa_wants L p (served ! i) l" by simp
    with I i l(1) obtain j l' where "j \<le> i" "l' \<in> set loads" "pfa_match (served ! j) l' \<in> set (p_matches s)"
      "LdID l' = LdID l \<or> j = i \<and> pfa_score L p (served ! i) l \<le> pfa_score L p (served ! i) l'" by blast
    with e ms show ?thesis by (intro exI [of _ j]) auto
  qed
  have taken: "\<exists>l'\<in>set loads. \<exists>j<length served. pfa_match (served ! j) l' \<in> set (p_matches s) \<and> LdID l' = k"
    if "k \<in> p_assigned s" for k
  proof -
    from that I obtain m where m: "m \<in> set (p_matches s)" "MLoadID m = k" by auto
    with I obtain d' l' where "d' \<in> set served" "l' \<in> set loads" "m = pfa_match d' l'" by blast
    moreover from this(1) obtain j where "j < length served" "served ! j = d'" by (auto simp: in_set_conv_nth)
    ultimately show ?thesis using m by (auto simp: pfa_match_def)
  qed
  show ?thesis
  proof (cases b)
    case None
    have st: "pfa_driver_step L p loads d s = s\<lparr>p_evals := es\<rparr>" by (simp add: pfa_driver_step_def r None)
    have "\<exists>j\<le>i. \<exists>l'\<in>set loads. pfa_match ((served @ [d]) ! j) l' \<in> set (p_matches s) \<and>
      (LdID l' = LdID l \<or> j = i \<and> pfa_score L p ((served @ [d]) ! i) l \<le> pfa_score L p ((served @ [d]) ! i) l')"
      if i: "i < length (served @ [d])" and l: "l \<in> set loads" "pfa_wants L p ((served @ [d]) ! i) l" for i l
    proof (cases "i < length served")
      case True
      then show ?thesis by (rule old [OF _ l]) simp
    next
      case False
      with i have "i = length served" by simp
      with l inner None have "LdID l \<in> p_assigned s" by auto
      with taken obtain j l' where "l' \<in> set loads" "j < length served" "pfa_match (served ! j) l' \<in> set (p_matches s)"
        "LdID l' = LdID l" by blast
      with \<open>i = length served\<close> show ?thesis by (intro exI [of _ j]) (auto simp: nth_append)
    qed
    with I show ?thesis unfolding pfa_inv_def st by (auto intro: subseq_rev_drop_many)
  next
    case (Some x)
    have x: "x \<in> set loads" "LdID x \<notin> p_assigned s" "pfa_wants L p d x"
      and best: "\<And>l. l \<in> set loads \<Longrightarrow> LdID l \<notin> p_assigned s \<Longrightarrow> pfa_wants L p d l \<Longrightarrow> pfa_score L p d l \<le> pfa_score L p d x"
      using inner Some by auto
    have st: "pfa_driver_step L p loads d s = \<lparr>p_assigned = insert (LdID x) (p_assigned s),
        p_matches = p_matches s @ [pfa_match d x], p_evals = mark_first (DrvID d) (LdID x) es,
        p_net = p_net s + NetContribution (pfa_cost L p d x)\<rparr>"
      by (simp add: pfa_driver_step_def r Some)
    have "\<exists>j\<le>i. \<exists>l'\<in>set loads. pfa_match ((served @ [d]) ! j) l' \<in> set (p_matches s @ [pfa_match d x]) \<and>
      (LdID l' = LdID l \<or> j = i \<and> pfa_score L p ((served @ [d]) ! i) l \<le> pfa_score L p ((served @ [d]) ! i) l')"
      if i: "i < length (served @ [d])" and l: "l \<in> set loads" "pfa_wants L p ((served @ [d]) ! i) l" for i l
    proof (cases "i < length served")
      case True
      then show ?thesis by (rule old [OF _ l]) auto
    next
      case False
      with i have e: "i = length served" by simp
      show ?thesis
      proof (cases "LdID l \<in> p_assigned s")
        case True
        with taken obtain j l' where "l' \<in> set loads" "j < length served" "pfa_match (served ! j) l' \<in> set (p_matches s)"
          "LdID l' = LdID l" by blast
        with e show ?thesis by (intro exI [of _ j]) (auto simp: nth_append)
      next
        case False
        with l e have "pfa_score L p d l \<le> pfa_score L p d x" by (intro best) simp_all
        with e x(1) show ?thesis by (intro exI [of _ i]) auto
      qed
    qed
    moreover have "subseq (map MDriverID (p_matches s @ [pfa_match d x])) (map DrvID (served @ [d]))"
      using I by (simp add: pfa_match_def list_emb_append_mono)
    moreover have "\<forall>m\<in>set (p_matches s @ [pfa_match d x]). \<exists>d'\<in>set (served @ [d]). \<exists>l\<in>set loads. m = pfa_match d' l \<and> pfa_wants L p d' l"
      using I x by auto
    moreover have "distinct (map MLoadID (p_matches s @ [pfa_match d x]))"
      "insert (LdID x) (p_assigned s) = set (map MLoadID (p_matches s @ [pfa_match d x]))"
      using I x(2) by (auto simp: pfa_match_def)
    ultimately show ?thesis unfolding pfa_inv_def st by simp
  qed
qed

lemma pfa_dispatch_inv: "pfa_inv L p loads ds (pfa_dispatch L p loads ds)"
  unfolding pfa_dispatch_def
proof (induction ds rule: rev_induct)
  case Nil
  then show ?case by (simp add: pfa_inv_def)
next
  case (snoc d ds)
  from pfa_step_inv [OF this] show ?case by simp
qed

interpretation by_avail: slice_order avail_less UNIV
  by unfold_locales (auto simp: avail_less_def split: if_splits)

lemma pfa_sorted:
  assumes "j \<le> i" and "i < length ds"
  shows "\<not> avail_less (sort_slice avail_less ds ! i) (sort_slice avail_less ds ! j)"
proof (cases "j = i")
  case True
  then show ?thesis by (simp add: avail_less_def)
next
  case False
  with assms by_avail.sorted_sort_slice [of ds] show ?thesis by (auto simp: sorted_wrt_iff_nth_less)
qed

text \<open>
  Property C18. The priority rule. The policy never fails on a state. Its matches are one-to-one pairs of known drivers
  and loads that pass the equipment and deadhead checks with a positive score; and no driver has a
  grievance: a load it wants went to a driver that is not after it in the order of availability, or the
  driver itself has a load of at least that score.
\<close>

theorem PFA_priority:
  assumes "distinct (map DrvID (rs_drivers (st_resource s)))"
  shows "\<exists>action prov. PFA_Evaluate L p (Some s) = Inr (action, prov) \<and> act_bids action = [] \<and>
    distinct (map MDriverID (act_matches action)) \<and> distinct (map MLoadID (act_matches action)) \<and>
    MatchedCount prov = length (act_matches action) \<and>
    (\<forall>m\<in>set (act_matches action). \<exists>d\<in>set (rs_drivers (st_resource s)). \<exists>l\<in>set (rs_loads (st_resource s)).
       m = pfa_match d l \<and> pfa_wants L p d l) \<and>
    (\<forall>d\<in>set (rs_drivers (st_resource s)). \<forall>l\<in>set (rs_loads (st_resource s)). pfa_wants L p d l \<longrightarrow>
       (\<exists>d'\<in>set (rs_drivers (st_resource s)). \<exists>l'\<in>set (rs_loads (st_resource s)). pfa_match d' l' \<in> set (act_matches action) \<and>
          (LdID l' = LdID l \<and> \<not> avail_less d d' \<or> d' = d \<and> pfa_score L p d l \<le> pfa_score L p d l')))"
proof (cases "length (rs_drivers (st_resource s)) = 0 \<or> length (rs_loads (st_resource s)) = 0")
  case True
  then show ?thesis by (auto simp: PFA_Evaluate_def Let_def NewAction_def NewDecisionProvenance_def)
next
  case False
  let ?ds = "sort_slice avail_less (rs_drivers (st_resource s))" and ?loads = "rs_loads (st_resource s)"
  let ?r = "pfa_dispatch L p ?loads ?ds"
  obtain prov where ev: "PFA_Evaluate L p (Some s) = Inr (NewAction (p_matches ?r) [], prov)"
    and cnt: "MatchedCount prov = length (p_matches ?r)"
    using False by (auto simp: PFA_Evaluate_def Let_def)
  note I = pfa_dispatch_inv [of L p ?loads ?ds, unfolded pfa_inv_def]
  have "distinct (map DrvID ?ds)" using assms by simp
  then have dd: "distinct (map MDriverID (p_matches ?r))" using I by (metis distinct_nthsI subseq_conv_nths)
  have wish: "\<exists>d'\<in>set (rs_drivers (st_resource s)). \<exists>l'\<in>set ?loads. pfa_match d' l' \<in> set (p_matches ?r) \<and>
      (LdID l' = LdID l \<and> \<not> avail_less d d' \<or> d' = d \<and> pfa_score L p d l \<le> pfa_score L p d l')"
    if d: "d \<in> set (rs_drivers (st_resource s))" and l: "l \<in> set ?loads" "pfa_wants L p d l" for d l
  proof -
    from d obtain i where i: "i < length ?ds" "?ds ! i = d" by (metis in_set_conv_nth set_sort_slice)
    with I l obtain j l' where j: "j \<le> i" "l' \<in> set ?loads" "pfa_match (?ds ! j) l' \<in> set (p_matches ?r)"
      "LdID l' = LdID l \<or> j = i \<and> pfa_score L p (?ds ! i) l \<le> pfa_score L p (?ds ! i) l'" by blast
    have "\<not> avail_less (?ds ! i) (?ds ! j)" using pfa_sorted [OF j(1)] i(1) by simp
    moreover have "?ds ! j \<in> set (rs_drivers (st_resource s))" using j(1) i(1) nth_mem [of j ?ds] by auto
    ultimately show ?thesis using j i(2) by (intro bexI [of _ "?ds ! j"] bexI [of _ l']) auto
  qed
  have mt: "\<exists>d\<in>set (rs_drivers (st_resource s)). \<exists>l\<in>set ?loads. m = pfa_match d l \<and> pfa_wants L p d l"
    if "m \<in> set (p_matches ?r)" for m
    using I that by auto
  have a: "act_bids (NewAction (p_matches ?r) []) = []" "set (act_matches (NewAction (p_matches ?r) [])) = set (p_matches ?r)"
    "length (act_matches (NewAction (p_matches ?r) [])) = length (p_matches ?r)"
    "distinct (map MDriverID (act_matches (NewAction (p_matches ?r) []))) = distinct (map MDriverID (p_matches ?r))"
    "distinct (map MLoadID (act_matches (NewAction (p_matches ?r) []))) = distinct (map MLoadID (p_matches ?r))"
    by (simp_all add: NewAction_def)
  show ?thesis
    using ev cnt dd wish mt I unfolding a(2) [symmetric] by (intro exI [of _ "NewAction (p_matches ?r) []"] exI [of _ prov]) (simp add: a)
qed

lemma PFA_priority_witness:
  "\<exists>action prov. PFA_Evaluate demo_libm (NewPFAPolicy DefaultPFAParameters DefaultCostConfig DefaultFeasibilityConfig)
      (Some \<lparr>st_resource = demo_rs demo_A demo_B,
         st_information = \<lparr>epoch = 0, fuelPriceIndex = 1, nationalSpotRateIndex = 1, weatherAlertCount = 0\<rparr>,
         st_belief = NewMonopolisticBelief\<rparr>) = Inr (action, prov) \<and> distinct (map MDriverID (act_matches action))"
  using PFA_priority [of "\<lparr>st_resource = demo_rs demo_A demo_B,
         st_information = \<lparr>epoch = 0, fuelPriceIndex = 1, nationalSpotRateIndex = 1, weatherAlertCount = 0\<rparr>,
         st_belief = NewMonopolisticBelief\<rparr>" demo_libm
      "NewPFAPolicy DefaultPFAParameters DefaultCostConfig DefaultFeasibilityConfig"]
    demo_rs_facts(2) [of demo_A demo_B]
  unfolding State.simps by blast

text \<open>
  No policy looks at \<open>AssignedLoadID\<close>. On a state whose only driver already has a load, the priority rule
  dispatches that driver again, and the transition of the state by the policy's own action is an error.
\<close>

definition busy_driver :: Driver where
  "busy_driver = (demo_driver ''D1'' (demo_loc ''A'' 41 (- 88)))\<lparr>AssignedLoadID := ''L0''\<rparr>"

definition busy_load :: Load where
  "busy_load = demo_load ''L1'' (demo_loc ''A'' 41 (- 88)) (demo_loc ''A'' 41 (- 88))"

definition busy_state :: "53 Belief State" where
  "busy_state = \<lparr>st_resource = NewResourceState [busy_driver] [busy_load],
     st_information = \<lparr>epoch = 0, fuelPriceIndex = 1, nationalSpotRateIndex = 1, weatherAlertCount = 0\<rparr>,
     st_belief = NewMonopolisticBelief\<rparr>"

definition whole_costs :: CostConfig where
  "whole_costs = \<lparr>FixedCostPerLoad = Fin 50, LoadedMileRate = Fin 2, EmptyMileRate = Fin 1, EmptyToHomeRate = Fin 1,
     LateDeliveryPerHour = Fin 100, EarlyArrivalPerHour = Fin 25, DriverBonusWeight = 0, OpportunityCostRatio = 0\<rparr>"

text \<open>
  The policy does not look at \<open>AssignedLoadID\<close>: a driver that is available by the clock but still
  holds a load is matched, its action fails the feasibility check, and the transition rejects it.
\<close>

theorem PFA_dispatches_assigned_driver:
  "case PFA_Evaluate demo_libm (NewPFAPolicy DefaultPFAParameters whole_costs DefaultFeasibilityConfig) (Some busy_state) of
     Inl _ \<Rightarrow> False
   | Inr (action, prov) \<Rightarrow> map MDriverID (act_matches action) = [''D1''] \<and>
       ValidateFeasibility action (Some (st_resource busy_state)) = Inl ErrDriverAlreadyAssigned \<and>
       (case State_Transition demo_libm busy_state (Some action) [] of
          Some (Inl e) \<Rightarrow> e = ErrDriverAlreadyAssigned | _ \<Rightarrow> False)"
  by code_simp

end
