(* ===== verification/Stream.thy ===== *)
theory Stream
  imports Resource Region "HOL-Library.AList"
begin

text \<open>
  \<open>internal/adapter/stream/types.go\<close> and \<open>buffer.go\<close>: the ingestion buffer. A Go map is an association
  list with distinct keys, its order standing for one iteration order. Every operation of the buffer
  holds its mutex, so a concurrent execution is a sequence of operations (\<open>stream_op\<close>), each with the
  reading of the clock it stores; the theorems hold for every sequence. Validation happens before
  the lock and only reads its argument.
\<close>

section \<open>Data transfer objects\<close>

record ELDDriverPingDTO =
  PgDriverID :: string
  PgTimestamp :: int
  PgLat :: f64
  PgLon :: f64
  PgNodeID :: string
  PgDriveHours :: f64
  PgDutyHours :: f64
  PgPTAEpoch :: int
  PgAssignedLoadID :: string
  PgEquipmentType :: string
  PgEndorsements :: "string list"

record TMSLoadTenderDTO =
  TnLoadID :: string
  TnTimestamp :: int
  TnOriginNodeID :: string
  TnOriginLat :: f64
  TnOriginLon :: f64
  TnDestinationNodeID :: string
  TnDestLat :: f64
  TnDestLon :: f64
  TnPickupEarliest :: int
  TnPickupLatest :: int
  TnDeliveryEarliest :: int
  TnDeliveryLatest :: int
  TnRevenue :: f64
  TnRequiredEquipment :: string
  TnRequiredEndorsements :: "string list"

record TenderCancelDTO =
  CnLoadID :: string
  CnReason :: string
  CnTimestamp :: int

record StreamStatusDTO =
  BufferedDriverPings :: nat
  BufferedTendersCount :: nat
  BufferedCancellations :: nat
  LastIngestTimestamp :: int
  LastSyncTimestamp :: int
  TotalPingsIngested :: "64 word"
  TotalTendersIngested :: "64 word"

section \<open>Validation\<close>

text \<open>\<open>x < lo || x > hi || math.IsNaN(x) || math.IsInf(x, 0)\<close>\<close>

definition bad_coord :: "rat \<Rightarrow> f64 \<Rightarrow> bool" where
  "bad_coord b x = (x < Fin (- b) \<or> Fin b < x \<or> is_nan x \<or> is_inf x)"

definition bad_amount :: "f64 \<Rightarrow> bool" where
  "bad_amount x = (x < 0 \<or> is_nan x \<or> is_inf x)"

definition ValidateDriverPing :: "ELDDriverPingDTO \<Rightarrow> unit result" where
  "ValidateDriverPing ping =
     (if TrimSpace (PgDriverID ping) = '''' then Inl ErrEmptyDriverID
      else if bad_coord 90 (PgLat ping) \<or> bad_coord 180 (PgLon ping) then Inl ErrInvalidCoordinates
      else if bad_amount (PgDriveHours ping) \<or> bad_amount (PgDutyHours ping) then Inl ErrInvalidHOS
      else Inr ())"

definition ValidateLoadTender :: "TMSLoadTenderDTO \<Rightarrow> unit result" where
  "ValidateLoadTender tender =
     (if TrimSpace (TnLoadID tender) = '''' then Inl ErrEmptyLoadID
      else if bad_coord 90 (TnOriginLat tender) \<or> bad_coord 180 (TnOriginLon tender) \<or>
              bad_coord 90 (TnDestLat tender) \<or> bad_coord 180 (TnDestLon tender) then Inl ErrInvalidCoordinates
      else if bad_amount (TnRevenue tender) then Inl ErrInvalidRevenue
      else if TnDeliveryLatest tender < TnPickupEarliest tender \<and> TnDeliveryLatest tender > 0
      then Inl (ErrOther ''stream: delivery window'')
      else Inr ())"

definition ValidateCancel :: "TenderCancelDTO \<Rightarrow> unit result" where
  "ValidateCancel cancel = (if TrimSpace (CnLoadID cancel) = '''' then Inl ErrEmptyLoadID else Inr ())"

section \<open>The buffer\<close>

record StreamBuffer =
  driverPings :: "(string \<times> ELDDriverPingDTO) list"
  loadTenders :: "(string \<times> TMSLoadTenderDTO) list"
  cancellations :: "(string \<times> TenderCancelDTO) list"
  totalPings :: "64 word"
  totalTenders :: "64 word"
  lastIngest :: int
  lastSync :: int

definition NewStreamBuffer :: StreamBuffer where
  "NewStreamBuffer = \<lparr>driverPings = [], loadTenders = [], cancellations = [], totalPings = 0,
     totalTenders = 0, lastIngest = 0, lastSync = 0\<rparr>"

text \<open>Each operation takes \<open>time.Now().Unix()\<close> and returns its error and the new buffer.\<close>

definition IngestDriverPing :: "int \<Rightarrow> ELDDriverPingDTO \<Rightarrow> StreamBuffer \<Rightarrow> unit result \<times> StreamBuffer" where
  "IngestDriverPing clock ping b =
     (case ValidateDriverPing ping of
        Inl e \<Rightarrow> (Inl e, b)
      | Inr _ \<Rightarrow>
          (let b = b\<lparr>totalPings := totalPings b + 1, lastIngest := clock\<rparr> in
           case map_of (driverPings b) (PgDriverID ping) of
             Some existing \<Rightarrow>
               if PgTimestamp existing > PgTimestamp ping then (Inr (), b)
               else (Inr (), b\<lparr>driverPings := AList.update (PgDriverID ping) ping (driverPings b)\<rparr>)
           | None \<Rightarrow> (Inr (), b\<lparr>driverPings := AList.update (PgDriverID ping) ping (driverPings b)\<rparr>)))"

fun IngestDriverBatch :: "int \<Rightarrow> ELDDriverPingDTO list \<Rightarrow> StreamBuffer \<Rightarrow> unit result \<times> StreamBuffer" where
  "IngestDriverBatch clock [] b = (Inr (), b)"
| "IngestDriverBatch clock (p # pings) b =
     (case IngestDriverPing clock p b of
        (Inl e, b') \<Rightarrow> (Inl e, b')
      | (Inr _, b') \<Rightarrow> IngestDriverBatch clock pings b')"

definition IngestLoadTender :: "int \<Rightarrow> TMSLoadTenderDTO \<Rightarrow> StreamBuffer \<Rightarrow> unit result \<times> StreamBuffer" where
  "IngestLoadTender clock tender b =
     (case ValidateLoadTender tender of
        Inl e \<Rightarrow> (Inl e, b)
      | Inr _ \<Rightarrow> (Inr (), b\<lparr>cancellations := AList.delete (TnLoadID tender) (cancellations b),
          loadTenders := AList.update (TnLoadID tender) tender (loadTenders b),
          totalTenders := totalTenders b + 1, lastIngest := clock\<rparr>))"

fun IngestTenderBatch :: "int \<Rightarrow> TMSLoadTenderDTO list \<Rightarrow> StreamBuffer \<Rightarrow> unit result \<times> StreamBuffer" where
  "IngestTenderBatch clock [] b = (Inr (), b)"
| "IngestTenderBatch clock (t # tenders) b =
     (case IngestLoadTender clock t b of
        (Inl e, b') \<Rightarrow> (Inl e, b')
      | (Inr _, b') \<Rightarrow> IngestTenderBatch clock tenders b')"

definition CancelTender :: "int \<Rightarrow> TenderCancelDTO \<Rightarrow> StreamBuffer \<Rightarrow> unit result \<times> StreamBuffer" where
  "CancelTender clock cancel b =
     (case ValidateCancel cancel of
        Inl e \<Rightarrow> (Inl e, b)
      | Inr _ \<Rightarrow> (Inr (), b\<lparr>loadTenders := AList.delete (CnLoadID cancel) (loadTenders b),
          cancellations := AList.update (CnLoadID cancel) cancel (cancellations b), lastIngest := clock\<rparr>))"

definition Status :: "StreamBuffer \<Rightarrow> StreamStatusDTO" where
  "Status b = \<lparr>BufferedDriverPings = length (driverPings b), BufferedTendersCount = length (loadTenders b),
     BufferedCancellations = length (cancellations b), LastIngestTimestamp = lastIngest b,
     LastSyncTimestamp = lastSync b, TotalPingsIngested = totalPings b, TotalTendersIngested = totalTenders b\<rparr>"

type_synonym drained =
  "(string \<times> ELDDriverPingDTO) list \<times> (string \<times> TMSLoadTenderDTO) list \<times> (string \<times> TenderCancelDTO) list"

definition Drain :: "int \<Rightarrow> StreamBuffer \<Rightarrow> drained \<times> StreamBuffer" where
  "Drain clock b = ((driverPings b, loadTenders b, cancellations b),
     b\<lparr>driverPings := [], loadTenders := [], cancellations := [], lastSync := clock\<rparr>)"

definition Snapshot :: "StreamBuffer \<Rightarrow> drained" where
  "Snapshot b = (driverPings b, loadTenders b, cancellations b)"

section \<open>Executions\<close>

datatype stream_op =
    OpPing ELDDriverPingDTO
  | OpTender TMSLoadTenderDTO
  | OpCancel TenderCancelDTO
  | OpDrain

fun apply_op :: "int \<times> stream_op \<Rightarrow> StreamBuffer \<Rightarrow> StreamBuffer" where
  "apply_op (clock, OpPing p) b = snd (IngestDriverPing clock p b)"
| "apply_op (clock, OpTender t) b = snd (IngestLoadTender clock t b)"
| "apply_op (clock, OpCancel c) b = snd (CancelTender clock c b)"
| "apply_op (clock, OpDrain) b = snd (Drain clock b)"

definition run_ops :: "(int \<times> stream_op) list \<Rightarrow> StreamBuffer" where
  "run_ops ops = fold apply_op ops NewStreamBuffer"

definition since_drain :: "(int \<times> stream_op) list \<Rightarrow> stream_op list" where
  "since_drain ops = rev (takeWhile (\<lambda>x. x \<noteq> OpDrain) (rev (map snd ops)))"

lemma since_drain_simps [simp]:
  "since_drain [] = []"
  "since_drain (ops @ [(clock, x)]) = (if x = OpDrain then [] else since_drain ops @ [x])"
  by (simp_all add: since_drain_def)

lemma run_ops_snoc: "run_ops (ops @ [x]) = apply_op x (run_ops ops)"
  by (simp add: run_ops_def)

text \<open>The effect of each operation on the three maps, as updates of functions.\<close>

definition ping_map :: "StreamBuffer \<Rightarrow> string \<rightharpoonup> ELDDriverPingDTO" where
  "ping_map b = map_of (driverPings b)"

definition tender_map :: "StreamBuffer \<Rightarrow> string \<rightharpoonup> TMSLoadTenderDTO" where
  "tender_map b = map_of (loadTenders b)"

definition cancel_map :: "StreamBuffer \<Rightarrow> string \<rightharpoonup> TenderCancelDTO" where
  "cancel_map b = map_of (cancellations b)"

lemma maps_init [simp]:
  "ping_map (run_ops []) k = None" "tender_map (run_ops []) k' = None" "cancel_map (run_ops []) k' = None"
  by (simp_all add: ping_map_def tender_map_def cancel_map_def run_ops_def NewStreamBuffer_def)

lemma ping_map_op:
  "ping_map (apply_op (clock, x) b) = (case x of
     OpPing p \<Rightarrow> if ValidateDriverPing p = Inr () \<and>
         (case ping_map b (PgDriverID p) of None \<Rightarrow> True | Some q \<Rightarrow> PgTimestamp q \<le> PgTimestamp p)
       then (ping_map b)(PgDriverID p \<mapsto> p) else ping_map b
   | OpDrain \<Rightarrow> Map.empty | _ \<Rightarrow> ping_map b)"
  by (cases x)
    (auto simp: ping_map_def IngestDriverPing_def IngestLoadTender_def CancelTender_def Drain_def Let_def
      update_conv split: sum.splits option.splits)

lemma tender_map_op:
  "tender_map (apply_op (clock, x) b) = (case x of
     OpTender t \<Rightarrow> if ValidateLoadTender t = Inr () then (tender_map b)(TnLoadID t \<mapsto> t) else tender_map b
   | OpCancel c \<Rightarrow> if ValidateCancel c = Inr () then (tender_map b)(CnLoadID c := None) else tender_map b
   | OpDrain \<Rightarrow> Map.empty | _ \<Rightarrow> tender_map b)"
  by (cases x)
    (auto simp: tender_map_def IngestDriverPing_def IngestLoadTender_def CancelTender_def Drain_def Let_def
      update_conv delete_conv' split: sum.splits option.splits)

lemma cancel_map_op:
  "cancel_map (apply_op (clock, x) b) = (case x of
     OpTender t \<Rightarrow> if ValidateLoadTender t = Inr () then (cancel_map b)(TnLoadID t := None) else cancel_map b
   | OpCancel c \<Rightarrow> if ValidateCancel c = Inr () then (cancel_map b)(CnLoadID c \<mapsto> c) else cancel_map b
   | OpDrain \<Rightarrow> Map.empty | _ \<Rightarrow> cancel_map b)"
  by (cases x)
    (auto simp: cancel_map_def IngestDriverPing_def IngestLoadTender_def CancelTender_def Drain_def Let_def
      update_conv delete_conv' split: sum.splits option.splits)

section \<open>The invariant of the buffer\<close>

definition buffer_wf :: "StreamBuffer \<Rightarrow> bool" where
  "buffer_wf b \<longleftrightarrow> distinct (map fst (driverPings b)) \<and> distinct (map fst (loadTenders b)) \<and>
     distinct (map fst (cancellations b)) \<and>
     (\<forall>(k, p)\<in>set (driverPings b). PgDriverID p = k \<and> ValidateDriverPing p = Inr ()) \<and>
     (\<forall>(k, t)\<in>set (loadTenders b). TnLoadID t = k \<and> ValidateLoadTender t = Inr ()) \<and>
     (\<forall>(k, c)\<in>set (cancellations b). CnLoadID c = k \<and> ValidateCancel c = Inr ()) \<and>
     fst ` set (loadTenders b) \<inter> fst ` set (cancellations b) = {}"

lemma set_update_subset: "set (AList.update k v xs) \<subseteq> insert (k, v) (set xs)"
  by (induction xs) auto

lemma set_delete_subset: "set (AList.delete k xs) \<subseteq> set xs"
  by (auto simp: AList.delete_eq)

lemma keys_update: "fst ` set (AList.update k v xs) = insert k (fst ` set xs)"
  using dom_update [of k v xs] by (simp add: dom_map_of_conv_image_fst)

lemma keys_delete: "fst ` set (AList.delete k xs) = fst ` set xs - {k}"
  by (auto simp: AList.delete_eq)

lemma NewStreamBuffer_wf [simp, wf_intro]: "buffer_wf NewStreamBuffer"
  by (simp add: buffer_wf_def NewStreamBuffer_def)

lemma IngestDriverPing_wf [wf_intro]:
  assumes "buffer_wf b"
  shows "buffer_wf (snd (IngestDriverPing clock p b))"
proof -
  have "set (AList.update (PgDriverID p) p (driverPings b)) \<subseteq> insert (PgDriverID p, p) (set (driverPings b))"
    by (rule set_update_subset)
  with assms show ?thesis
    by (auto simp: buffer_wf_def IngestDriverPing_def Let_def distinct_update split: sum.splits option.splits)
qed

lemma IngestLoadTender_wf [wf_intro]:
  assumes "buffer_wf b"
  shows "buffer_wf (snd (IngestLoadTender clock t b))"
proof -
  have "set (AList.update (TnLoadID t) t (loadTenders b)) \<subseteq> insert (TnLoadID t, t) (set (loadTenders b))"
    "set (AList.delete (TnLoadID t) (cancellations b)) \<subseteq> set (cancellations b)"
    by (rule set_update_subset, rule set_delete_subset)
  with assms show ?thesis
    by (auto simp: buffer_wf_def IngestLoadTender_def distinct_update distinct_delete keys_update keys_delete
        split: sum.splits)
qed

lemma CancelTender_wf [wf_intro]:
  assumes "buffer_wf b"
  shows "buffer_wf (snd (CancelTender clock c b))"
proof -
  have "set (AList.update (CnLoadID c) c (cancellations b)) \<subseteq> insert (CnLoadID c, c) (set (cancellations b))"
    "set (AList.delete (CnLoadID c) (loadTenders b)) \<subseteq> set (loadTenders b)"
    by (rule set_update_subset, rule set_delete_subset)
  with assms show ?thesis
    by (auto simp: buffer_wf_def CancelTender_def distinct_update distinct_delete keys_update keys_delete
        split: sum.splits)
qed

lemma apply_op_wf [wf_intro]: "buffer_wf b \<Longrightarrow> buffer_wf (apply_op x b)"
proof (cases x)
  case (Pair clock y)
  assume "buffer_wf b"
  with Pair show ?thesis
    by (cases y) (auto intro: wf_intro simp: Drain_def, simp add: buffer_wf_def)
qed

lemma run_ops_wf: "buffer_wf (run_ops ops)"
  by (induction ops rule: rev_induct) (simp_all add: run_ops_snoc wf_intro, simp add: run_ops_def)

text \<open>
  At every point of every execution the buffer is consistent: at most one entry per key,
  each stored under its own ID and valid, and no load both tendered and cancelled.
\<close>

theorem buffer_consistent: "buffer_wf (run_ops ops)"
  by (rule run_ops_wf)

section \<open>What the buffer holds\<close>

lemma split_snoc_iff:
  "(\<exists>xs ys. zs @ [z] = xs @ x # ys \<and> P xs ys) \<longleftrightarrow>
   (z = x \<and> P zs []) \<or> (\<exists>xs ys. zs = xs @ x # ys \<and> P xs (ys @ [z]))"
proof
  assume "\<exists>xs ys. zs @ [z] = xs @ x # ys \<and> P xs ys"
  then obtain xs ys where e: "zs @ [z] = xs @ x # ys" "P xs ys" by blast
  show "(z = x \<and> P zs []) \<or> (\<exists>xs ys. zs = xs @ x # ys \<and> P xs (ys @ [z]))"
  proof (cases ys rule: rev_cases)
    case (snoc us u)
    with e show ?thesis by (auto simp flip: append_Cons append_assoc)
  qed (use e in auto)
next
  assume "(z = x \<and> P zs []) \<or> (\<exists>xs ys. zs = xs @ x # ys \<and> P xs (ys @ [z]))"
  then show "\<exists>xs ys. zs @ [z] = xs @ x # ys \<and> P xs ys"
  proof
    assume "\<exists>xs ys. zs = xs @ x # ys \<and> P xs (ys @ [z])"
    then obtain xs ys where "zs = xs @ x # ys" "P xs (ys @ [z])" by blast
    then show ?thesis by (intro exI [of _ xs] exI [of _ "ys @ [z]"]) simp
  qed auto
qed

definition ping_of :: "string \<Rightarrow> stream_op \<Rightarrow> ELDDriverPingDTO option" where
  "ping_of d x = (case x of OpPing p \<Rightarrow> if PgDriverID p = d \<and> ValidateDriverPing p = Inr () then Some p else None
     | _ \<Rightarrow> None)"

definition is_latest :: "string \<Rightarrow> stream_op list \<Rightarrow> ELDDriverPingDTO \<Rightarrow> bool" where
  "is_latest d zs p \<longleftrightarrow> (\<exists>xs ys. zs = xs @ OpPing p # ys \<and> ping_of d (OpPing p) = Some p \<and>
      (\<forall>x\<in>set xs. \<forall>q. ping_of d x = Some q \<longrightarrow> PgTimestamp q \<le> PgTimestamp p) \<and>
      (\<forall>y\<in>set ys. \<forall>q. ping_of d y = Some q \<longrightarrow> PgTimestamp q < PgTimestamp p))"

lemma is_latest_snoc:
  "is_latest d (zs @ [z]) p \<longleftrightarrow>
     (z = OpPing p \<and> ping_of d z = Some p \<and> (\<forall>x\<in>set zs. \<forall>q. ping_of d x = Some q \<longrightarrow> PgTimestamp q \<le> PgTimestamp p)) \<or>
     (is_latest d zs p \<and> (\<forall>q. ping_of d z = Some q \<longrightarrow> PgTimestamp q < PgTimestamp p))"
  unfolding is_latest_def split_snoc_iff by (auto; blast)

lemma is_latest_max: "is_latest d zs p \<Longrightarrow> x \<in> set zs \<Longrightarrow> ping_of d x = Some q \<Longrightarrow> PgTimestamp q \<le> PgTimestamp p"
  unfolding is_latest_def by (fastforce split: if_splits)

lemma ping_map_op_driver:
  "ping_map (apply_op (clock, x) b) d = (if x = OpDrain then None else
     case ping_of d x of None \<Rightarrow> ping_map b d
     | Some p \<Rightarrow> (case ping_map b d of None \<Rightarrow> Some p
         | Some q \<Rightarrow> if PgTimestamp q \<le> PgTimestamp p then Some p else Some q))"
  unfolding ping_map_op by (cases x) (auto simp: ping_of_def split: option.splits)

lemma ping_map_None:
  "ping_map (run_ops ops) d = None \<longleftrightarrow> (\<forall>x\<in>set (since_drain ops). ping_of d x = None)"
proof (induction ops rule: rev_induct)
  case (snoc x ops)
  then show ?case
    by (cases x) (auto simp: run_ops_snoc ping_map_op_driver split: option.splits if_splits)
qed simp

text \<open>
  The buffered ping of a driver is the one with the latest timestamp among the valid
  pings received since the last drain, whatever their order of arrival; of several with that timestamp,
  the last to arrive.
\<close>

theorem buffer_latest_ping:
  "ping_map (run_ops ops) d = Some p \<longleftrightarrow>
    (\<exists>xs ys. since_drain ops = xs @ OpPing p # ys \<and> ping_of d (OpPing p) = Some p \<and>
      (\<forall>x\<in>set xs. \<forall>q. ping_of d x = Some q \<longrightarrow> PgTimestamp q \<le> PgTimestamp p) \<and>
      (\<forall>y\<in>set ys. \<forall>q. ping_of d y = Some q \<longrightarrow> PgTimestamp q < PgTimestamp p))"
proof (fold is_latest_def, induction ops arbitrary: p rule: rev_induct)
  case Nil
  show ?case by (simp add: is_latest_def)
next
  case (snoc x ops)
  obtain clock z where x: "x = (clock, z)" by (cases x)
  show ?case
  proof (cases "z = OpDrain")
    case True
    then show ?thesis by (simp add: x run_ops_snoc ping_map_op_driver is_latest_def del: apply_op.simps)
  next
    case False
    have step: "ping_map (run_ops (ops @ [x])) d = (case ping_of d z of None \<Rightarrow> ping_map (run_ops ops) d
       | Some p \<Rightarrow> (case ping_map (run_ops ops) d of None \<Rightarrow> Some p
           | Some q \<Rightarrow> if PgTimestamp q \<le> PgTimestamp p then Some p else Some q))"
      using False by (simp add: x run_ops_snoc ping_map_op_driver)
    have sd: "since_drain (ops @ [x]) = since_drain ops @ [z]" using False by (simp add: x)
    show ?thesis
    proof (cases "ping_of d z")
      case None
      then show ?thesis unfolding step sd is_latest_snoc using snoc.IH by simp
    next
      case (Some q)
      then have zq: "z = OpPing q" by (auto simp: ping_of_def split: stream_op.splits if_splits)
      show ?thesis
      proof (cases "ping_map (run_ops ops) d")
        case None
        then have "\<forall>x\<in>set (since_drain ops). ping_of d x = None" using ping_map_None by blast
        moreover have "\<not> is_latest d (since_drain ops) p" using snoc.IH [of p] None by simp
        ultimately show ?thesis unfolding step sd is_latest_snoc using Some zq None by auto
      next
        case (Some r)
        then have r: "is_latest d (since_drain ops) r" using snoc.IH by blast
        have only: "is_latest d (since_drain ops) p \<longleftrightarrow> p = r" for p using snoc.IH [of p] Some by auto
        have "(\<forall>x\<in>set (since_drain ops). \<forall>t. ping_of d x = Some t \<longrightarrow> PgTimestamp t \<le> PgTimestamp q) \<longleftrightarrow>
            PgTimestamp r \<le> PgTimestamp q"
        proof
          have "OpPing r \<in> set (since_drain ops)" "ping_of d (OpPing r) = Some r"
            using r unfolding is_latest_def by auto
          then show "\<forall>x\<in>set (since_drain ops). \<forall>t. ping_of d x = Some t \<longrightarrow> PgTimestamp t \<le> PgTimestamp q \<Longrightarrow>
            PgTimestamp r \<le> PgTimestamp q" by blast
        qed (use is_latest_max [OF r] order_trans in blast)
        then show ?thesis unfolding step sd is_latest_snoc only using Some zq \<open>ping_of d z = Some q\<close>
          by (auto split: if_splits)
      qed
    qed
  qed
qed

definition demo_ping :: "int \<Rightarrow> ELDDriverPingDTO" where
  "demo_ping ts = \<lparr>PgDriverID = ''D1'', PgTimestamp = ts, PgLat = Fin 40, PgLon = Fin (- 90), PgNodeID = ''CHI'',
     PgDriveHours = Fin 8, PgDutyHours = Fin 10, PgPTAEpoch = 0, PgAssignedLoadID = '''', PgEquipmentType = ''reefer'',
     PgEndorsements = []\<rparr>"

lemma demo_ping_valid [simp]: "ValidateDriverPing (demo_ping ts) = Inr ()"
  by (simp add: ValidateDriverPing_def demo_ping_def TrimSpace_def is_space_def bad_coord_def bad_amount_def zero_fl_def)

lemma buffer_latest_ping_witness:
  "ping_map (run_ops [(0, OpPing (demo_ping 5)), (1, OpPing (demo_ping 3))]) ''D1'' = Some (demo_ping 5)"
proof (rule buffer_latest_ping [THEN iffD2], intro exI conjI)
  show "since_drain [(0, OpPing (demo_ping 5)), (1, OpPing (demo_ping 3))] = [] @ OpPing (demo_ping 5) # [OpPing (demo_ping 3)]"
    by (simp add: since_drain_def)
  have id: "PgDriverID (demo_ping ts) = ''D1''" "PgTimestamp (demo_ping ts) = ts" for ts by (simp_all add: demo_ping_def)
  show "ping_of ''D1'' (OpPing (demo_ping 5)) = Some (demo_ping 5)" by (simp add: ping_of_def id)
  show "\<forall>y\<in>set [OpPing (demo_ping 3)]. \<forall>q. ping_of ''D1'' y = Some q \<longrightarrow> PgTimestamp q < PgTimestamp (demo_ping 5)"
    by (auto simp: ping_of_def id)
qed simp

text \<open>The load a valid tender or cancellation is about.\<close>

definition load_of_op :: "stream_op \<Rightarrow> string option" where
  "load_of_op x = (case x of
     OpTender t \<Rightarrow> if ValidateLoadTender t = Inr () then Some (TnLoadID t) else None
   | OpCancel c \<Rightarrow> if ValidateCancel c = Inr () then Some (CnLoadID c) else None
   | _ \<Rightarrow> None)"

definition last_word :: "string \<Rightarrow> stream_op list \<Rightarrow> stream_op \<Rightarrow> bool" where
  "last_word k zs x \<longleftrightarrow> (\<exists>xs ys. zs = xs @ x # ys \<and> load_of_op x = Some k \<and> (\<forall>y\<in>set ys. load_of_op y \<noteq> Some k))"

lemma last_word_snoc:
  "last_word k (zs @ [z]) x \<longleftrightarrow> (z = x \<and> load_of_op z = Some k) \<or> (last_word k zs x \<and> load_of_op z \<noteq> Some k)"
  unfolding last_word_def split_snoc_iff by auto

text \<open>
  A load is buffered as tendered or as cancelled according to the last valid tender or
  cancellation that names it since the last drain, and in no other way.
\<close>

theorem buffer_last_word:
  "(tender_map (run_ops ops) k = Some t \<longleftrightarrow>
     (\<exists>xs ys. since_drain ops = xs @ OpTender t # ys \<and> load_of_op (OpTender t) = Some k \<and>
       (\<forall>y\<in>set ys. load_of_op y \<noteq> Some k))) \<and>
   (cancel_map (run_ops ops) k = Some c \<longleftrightarrow>
     (\<exists>xs ys. since_drain ops = xs @ OpCancel c # ys \<and> load_of_op (OpCancel c) = Some k \<and>
       (\<forall>y\<in>set ys. load_of_op y \<noteq> Some k)))"
proof (fold last_word_def, induction ops rule: rev_induct)
  case Nil
  show ?case by (simp add: last_word_def)
next
  case (snoc x ops)
  obtain clock z where x: "x = (clock, z)" by (cases x)
  show ?case
  proof (cases "z = OpDrain")
    case True
    then show ?thesis
      by (simp add: x run_ops_snoc tender_map_op cancel_map_op last_word_def del: apply_op.simps)
  next
    case False
    have sd: "since_drain (ops @ [x]) = since_drain ops @ [z]" using False by (simp add: x)
    show ?thesis unfolding sd last_word_snoc unfolding x run_ops_snoc tender_map_op cancel_map_op
      using snoc.IH False by (cases z) (auto simp: load_of_op_def)
  qed
qed

definition demo_cancel :: TenderCancelDTO where
  "demo_cancel = \<lparr>CnLoadID = ''L1'', CnReason = '''', CnTimestamp = 0\<rparr>"

lemma buffer_last_word_witness:
  "cancel_map (run_ops [(0, OpDrain), (1, OpCancel demo_cancel)]) ''L1'' = Some demo_cancel"
proof (rule buffer_last_word [THEN conjunct2, THEN iffD2], intro exI conjI)
  show "since_drain [(0, OpDrain), (1, OpCancel demo_cancel)] = [] @ OpCancel demo_cancel # []"
    by (simp add: since_drain_def)
  show "load_of_op (OpCancel demo_cancel) = Some ''L1''"
    by (simp add: load_of_op_def ValidateCancel_def demo_cancel_def TrimSpace_def is_space_def)
qed simp

section \<open>Batches\<close>

text \<open>
  A batch is not atomic: the error of the first invalid ping is returned, and the pings
  before it stay ingested. A batch without invalid ping is the sequence of its pings.
\<close>

theorem IngestDriverBatch_prefix:
  "IngestDriverBatch clock ps b =
     (let good = takeWhile (\<lambda>p. ValidateDriverPing p = Inr ()) ps;
          rest = dropWhile (\<lambda>p. ValidateDriverPing p = Inr ()) ps in
      ((case rest of [] \<Rightarrow> Inr () | p # _ \<Rightarrow> ValidateDriverPing p),
       fold (\<lambda>p b. apply_op (clock, OpPing p) b) good b))"
proof (induction ps arbitrary: b)
  case (Cons p ps)
  show ?case
  proof (cases "ValidateDriverPing p")
    case (Inl e)
    then show ?thesis by (simp add: IngestDriverPing_def)
  next
    case (Inr u)
    then have "fst (IngestDriverPing clock p b) = Inr ()"
      by (auto simp: IngestDriverPing_def Let_def split: option.splits)
    then obtain b' where "IngestDriverPing clock p b = (Inr (), b')" by (metis prod.collapse)
    with Inr Cons.IH show ?thesis by (simp add: Let_def)
  qed
qed simp

lemma IngestTenderBatch_prefix:
  "IngestTenderBatch clock ts b =
     (let good = takeWhile (\<lambda>t. ValidateLoadTender t = Inr ()) ts;
          rest = dropWhile (\<lambda>t. ValidateLoadTender t = Inr ()) ts in
      ((case rest of [] \<Rightarrow> Inr () | t # _ \<Rightarrow> ValidateLoadTender t),
       fold (\<lambda>t b. apply_op (clock, OpTender t) b) good b))"
proof (induction ts arbitrary: b)
  case (Cons t ts)
  show ?case
  proof (cases "ValidateLoadTender t")
    case (Inl e)
    then show ?thesis by (simp add: IngestLoadTender_def)
  next
    case (Inr u)
    then obtain b' where "IngestLoadTender clock t b = (Inr (), b')"
      by (auto simp: IngestLoadTender_def)
    with Inr Cons.IH show ?thesis by (simp add: Let_def)
  qed
qed simp

end
