(* ===== verification/Sync.thy ===== *)
theory Sync
  imports Stream
begin

text \<open>
  \<open>internal/adapter/stream/synchronizer.go\<close>: the buffer is drained into a new resource state. The maps
  \<open>driverMap\<close> and \<open>loadMap\<close> are association lists; the loops run over the drained maps in the order
  of their lists, and the result is shown not to depend on it. The readings of the clock are arguments:
  one for the drain, one for the report, one per new driver.
\<close>

section \<open>The synchronizer\<close>

record SyncReport =
  DriversUpdated :: nat
  DriversAdded :: nat
  LoadsAdded :: nat
  LoadsCanceled :: nat
  TotalDrivers :: nat
  TotalLoads :: nat
  SyncTimestamp :: int

text \<open>\<open>StateSynchronizer\<close> is its buffer; a nil buffer is replaced by an empty one.\<close>

definition NewStateSynchronizer :: "StreamBuffer option \<Rightarrow> StreamBuffer" where
  "NewStateSynchronizer buffer = (case buffer of None \<Rightarrow> NewStreamBuffer | Some b \<Rightarrow> b)"

definition parseEquipment :: "string \<Rightarrow> EquipmentType" where
  "parseEquipment eqStr =
     (let s = ToUpper (TrimSpace eqStr) in
      if s \<in> {''REEFER'', ''REEFER_53'', ''R''} then EquipReefer
      else if s \<in> {''FLATBED'', ''FLATBED_53'', ''FB''} then EquipFlatbed
      else if s = ''TANKER'' then EquipTanker
      else EquipDryVan)"

definition parse_ends :: "string list \<Rightarrow> Endorsement list" where
  "parse_ends es = map (\<lambda>e. ToUpper (TrimSpace e)) es"

definition update_driver :: "int \<Rightarrow> ELDDriverPingDTO \<Rightarrow> Driver \<Rightarrow> Driver" where
  "update_driver currentEpoch ping existing =
     (let loc = (CurrentLocation existing)\<lparr>Lat := PgLat ping, Lon := PgLon ping\<rparr>;
          loc = (if PgNodeID ping \<noteq> '''' then loc\<lparr>NodeID := PgNodeID ping\<rparr> else loc);
          availEpoch = (if PgPTAEpoch ping > 0 then PgPTAEpoch ping
            else if currentEpoch > 0 \<and> AvailableEpoch existing < currentEpoch then currentEpoch
            else AvailableEpoch existing);
          d = \<lparr>DrvID = DrvID existing, CurrentLocation = loc, HomeLocation = HomeLocation existing,
            AvailableEpoch = availEpoch, DutyHoursRemaining = PgDutyHours ping,
            DriveHoursRemaining = PgDriveHours ping, AssignedLoadID = AssignedLoadID existing,
            DrvEquipment = DrvEquipment existing, DrvEndorsements = DrvEndorsements existing,
            Clocks = Clocks existing, DrvPolicySpecs = NoPolicySpecs\<rparr>;
          d = (if PgAssignedLoadID ping \<noteq> '''' then d\<lparr>AssignedLoadID := PgAssignedLoadID ping\<rparr> else d);
          d = (if PgEquipmentType ping \<noteq> ''''
               then d\<lparr>DrvEquipment := \<lparr>EqType = parseEquipment (PgEquipmentType ping), EqEndorsements = []\<rparr>\<rparr> else d);
          d = (if length (PgEndorsements ping) > 0 then d\<lparr>DrvEndorsements := parse_ends (PgEndorsements ping)\<rparr> else d)
      in d)"

definition new_driver :: "int \<Rightarrow> int \<Rightarrow> string \<Rightarrow> ELDDriverPingDTO \<Rightarrow> Driver" where
  "new_driver clock currentEpoch driverID ping =
     (let nodeID = (if PgNodeID ping = '''' then ''GPS_'' @ fmt_fixed 4 (PgLat ping) @ ''_'' @ fmt_fixed 4 (PgLon ping) else PgNodeID ping);
          loc = \<lparr>NodeID = nodeID, Lat = PgLat ping, Lon = PgLon ping\<rparr>;
          availEpoch = (if PgPTAEpoch ping \<le> 0 then currentEpoch else PgPTAEpoch ping);
          availEpoch = (if availEpoch \<le> 0 then clock else availEpoch)
      in \<lparr>DrvID = driverID, CurrentLocation = loc, HomeLocation = loc, AvailableEpoch = availEpoch,
          DutyHoursRemaining = PgDutyHours ping, DriveHoursRemaining = PgDriveHours ping,
          AssignedLoadID = PgAssignedLoadID ping,
          DrvEquipment = \<lparr>EqType = parseEquipment (PgEquipmentType ping), EqEndorsements = []\<rparr>,
          DrvEndorsements = parse_ends (PgEndorsements ping),
          Clocks = Some (NewDriverClocks USPolicySpecs (time_Unix availEpoch)), DrvPolicySpecs = NoPolicySpecs\<rparr>)"

definition new_load :: "string \<Rightarrow> TMSLoadTenderDTO \<Rightarrow> Load" where
  "new_load loadID tender =
     (let origNode = (if TnOriginNodeID tender = '''' then ''ORIG_'' @ fmt_fixed 4 (TnOriginLat tender) @ ''_'' @ fmt_fixed 4 (TnOriginLon tender)
            else TnOriginNodeID tender);
          destNode = (if TnDestinationNodeID tender = '''' then ''DEST_'' @ fmt_fixed 4 (TnDestLat tender) @ ''_'' @ fmt_fixed 4 (TnDestLon tender)
            else TnDestinationNodeID tender)
      in \<lparr>LdID = loadID, Origin = \<lparr>NodeID = origNode, Lat = TnOriginLat tender, Lon = TnOriginLon tender\<rparr>,
          Destination = \<lparr>NodeID = destNode, Lat = TnDestLat tender, Lon = TnDestLon tender\<rparr>,
          PickupEarliestEpoch = TnPickupEarliest tender, PickupLatestEpoch = TnPickupLatest tender,
          DeliveryEarliestEpoch = TnDeliveryEarliest tender, DeliveryLatestEpoch = TnDeliveryLatest tender,
          RequiredEquipment = parseEquipment (TnRequiredEquipment tender),
          RequiredEndorsements = parse_ends (TnRequiredEndorsements tender), Revenue = TnRevenue tender,
          EstimatedTransitEpochs = 0\<rparr>)"

type_synonym 'v go_map = "(string \<times> 'v) list"

definition sync_ping ::
  "(string \<Rightarrow> int) \<Rightarrow> int \<Rightarrow> string \<times> ELDDriverPingDTO \<Rightarrow> Driver go_map \<times> SyncReport \<Rightarrow> Driver go_map \<times> SyncReport" where
  "sync_ping clock_at currentEpoch = (\<lambda>(driverID, ping) (driverMap, report).
     (case map_of driverMap driverID of
        Some existing \<Rightarrow> (AList.update driverID (update_driver currentEpoch ping existing) driverMap,
          report\<lparr>DriversUpdated := DriversUpdated report + 1\<rparr>)
      | None \<Rightarrow> (AList.update driverID (new_driver (clock_at driverID) currentEpoch driverID ping) driverMap,
          report\<lparr>DriversAdded := DriversAdded report + 1\<rparr>)))"

definition sync_cancel :: "string \<times> TenderCancelDTO \<Rightarrow> Load go_map \<times> SyncReport \<Rightarrow> Load go_map \<times> SyncReport" where
  "sync_cancel = (\<lambda>(loadID, _) (loadMap, report).
     (case map_of loadMap loadID of
        Some _ \<Rightarrow> (AList.delete loadID loadMap, report\<lparr>LoadsCanceled := LoadsCanceled report + 1\<rparr>)
      | None \<Rightarrow> (loadMap, report)))"

definition sync_tender :: "string \<times> TMSLoadTenderDTO \<Rightarrow> Load go_map \<times> SyncReport \<Rightarrow> Load go_map \<times> SyncReport" where
  "sync_tender = (\<lambda>(loadID, tender) (loadMap, report).
     (AList.update loadID (new_load loadID tender) loadMap, report\<lparr>LoadsAdded := LoadsAdded report + 1\<rparr>))"

definition base_map :: "('a \<Rightarrow> string) \<Rightarrow> 'a list \<Rightarrow> 'a go_map" where
  "base_map key xs = fold (\<lambda>x m. AList.update (key x) x m) xs []"

definition Synchronize ::
  "int \<Rightarrow> int \<Rightarrow> (string \<Rightarrow> int) \<Rightarrow> ResourceState option \<Rightarrow> int \<Rightarrow> StreamBuffer \<Rightarrow> (ResourceState \<times> SyncReport) \<times> StreamBuffer" where
  "Synchronize drainClock reportClock clock_at baseResource currentEpoch buffer =
     (case Drain drainClock buffer of ((pings, tenders, cancels), buffer') \<Rightarrow>
      let report = \<lparr>DriversUpdated = 0, DriversAdded = 0, LoadsAdded = 0, LoadsCanceled = 0, TotalDrivers = 0,
            TotalLoads = 0, SyncTimestamp = reportClock\<rparr>;
          driverMap = (case baseResource of None \<Rightarrow> [] | Some r \<Rightarrow> base_map DrvID (rs_drivers r)) in
      case fold (sync_ping clock_at currentEpoch) pings (driverMap, report) of (driverMap, report) \<Rightarrow>
      let loadMap = (case baseResource of None \<Rightarrow> [] | Some r \<Rightarrow> base_map LdID (rs_loads r)) in
      case fold sync_cancel cancels (loadMap, report) of (loadMap, report) \<Rightarrow>
      case fold sync_tender tenders (loadMap, report) of (loadMap, report) \<Rightarrow>
      let drivers = sort_slice (\<lambda>a b. DrvID a < DrvID b) (map snd driverMap);
          loads = sort_slice (\<lambda>a b. LdID a < LdID b) (map snd loadMap);
          report = report\<lparr>TotalDrivers := length drivers, TotalLoads := length loads\<rparr> in
      ((NewResourceState drivers loads, report), buffer'))"

section \<open>The loops as maps\<close>

text \<open>\<open>keyed\<close>: an association list with distinct keys, every value stored under its own key.\<close>

definition keyed :: "('a \<Rightarrow> string) \<Rightarrow> 'a go_map \<Rightarrow> bool" where
  "keyed key m \<longleftrightarrow> distinct (map fst m) \<and> (\<forall>(k, x)\<in>set m. key x = k)"

lemma keyed_update: "keyed key m \<Longrightarrow> key x = k \<Longrightarrow> keyed key (AList.update k x m)"
  using set_update_subset [of k x m] by (auto simp: keyed_def distinct_update)

lemma keyed_delete: "keyed key m \<Longrightarrow> keyed key (AList.delete k m)"
  using set_delete_subset [of k m] by (auto simp: keyed_def distinct_delete)

lemma keyed_map: "keyed key m \<Longrightarrow> map key (map snd m) = map fst m"
  by (auto simp: keyed_def)

lemma keyed_lookup: "keyed key m \<Longrightarrow> map_of m k = Some x \<Longrightarrow> key x = k"
  by (auto simp: keyed_def dest: map_of_SomeD)

lemma base_map_keyed:
  assumes "distinct (map key xs)"
  shows "keyed key (base_map key xs) \<and> (\<forall>k x. map_of (base_map key xs) k = Some x \<longleftrightarrow> x \<in> set xs \<and> key x = k)"
  using assms
proof (induction xs rule: rev_induct)
  case Nil
  then show ?case by (simp add: base_map_def keyed_def)
next
  case (snoc x xs)
  then have IH: "keyed key (base_map key xs)" "\<And>k y. map_of (base_map key xs) k = Some y \<longleftrightarrow> y \<in> set xs \<and> key y = k"
    by auto
  have eq: "base_map key (xs @ [x]) = AList.update (key x) x (base_map key xs)" by (simp add: base_map_def)
  have "key x \<notin> key ` set xs" using snoc.prems by simp
  then have new: "\<forall>y\<in>set xs. key y \<noteq> key x" by (metis imageI)
  show ?case unfolding eq using keyed_update [OF IH(1) refl] IH(2) new by (auto simp: update_conv')
qed

lemma update_driver_ID [simp]: "DrvID (update_driver epoch p d) = DrvID d"
  by (simp add: update_driver_def Let_def)

lemma new_driver_ID [simp]: "DrvID (new_driver clock epoch k p) = k"
  by (simp add: new_driver_def Let_def)

lemma fold_sync_ping:
  assumes "keyed DrvID m" and "distinct (map fst pings)"
    and "fold (sync_ping clock_at epoch) pings (m, rep) = (m', rep')"
  shows "keyed DrvID m' \<and>
    (\<forall>k. map_of m' k = (case map_of pings k of None \<Rightarrow> map_of m k
      | Some p \<Rightarrow> Some (case map_of m k of Some d \<Rightarrow> update_driver epoch p d | None \<Rightarrow> new_driver (clock_at k) epoch k p))) \<and>
    rep' = rep\<lparr>DriversUpdated := DriversUpdated rep + length (filter (\<lambda>(k, p). map_of m k \<noteq> None) pings),
      DriversAdded := DriversAdded rep + length (filter (\<lambda>(k, p). map_of m k = None) pings)\<rparr>"
  using assms
proof (induction pings arbitrary: m rep)
  case (Cons q pings)
  obtain k p where q: "q = (k, p)" by (cases q)
  let ?x = "case map_of m k of Some d \<Rightarrow> update_driver epoch p d | None \<Rightarrow> new_driver (clock_at k) epoch k p"
  let ?r = "if map_of m k = None then rep\<lparr>DriversAdded := DriversAdded rep + 1\<rparr>
    else rep\<lparr>DriversUpdated := DriversUpdated rep + 1\<rparr>"
  have step: "sync_ping clock_at epoch q (m, rep) = (AList.update k ?x m, ?r)"
    by (auto simp: q sync_ping_def split: option.splits)
  have id: "DrvID ?x = k"
    using keyed_lookup [OF Cons.prems(1), of k] by (simp split: option.splits)
  have kd: "keyed DrvID (AList.update k ?x m)" by (rule keyed_update [OF Cons.prems(1) id])
  have nk: "k \<notin> fst ` set pings" "distinct (map fst pings)" using Cons.prems(2) q by auto
  have nj: "j \<noteq> k" if "(j, p') \<in> set pings" for j p' using nk(1) that by (metis fst_conv imageI)
  have same: "filter (\<lambda>(j, p). map_of (AList.update k ?x m) j \<noteq> None) pings = filter (\<lambda>(j, p). map_of m j \<noteq> None) pings"
    "filter (\<lambda>(j, p). map_of (AList.update k ?x m) j = None) pings = filter (\<lambda>(j, p). map_of m j = None) pings"
    using nj by (auto simp: update_conv' intro!: filter_cong)
  have run: "fold (sync_ping clock_at epoch) pings (AList.update k ?x m, ?r) = (m', rep')"
    using Cons.prems(3) step by simp
  note IH = Cons.IH [OF kd nk(2) run, unfolded same]
  have "map_of pings k = None" using nk(1) by (simp add: map_of_eq_None_iff)
  with IH show ?case by (auto simp: q update_conv' split: option.splits)
qed simp

lemma fold_sync_cancel:
  assumes "keyed LdID m" and "fold sync_cancel cancels (m, rep) = (m', rep')"
  shows "keyed LdID m' \<and> (\<forall>k. map_of m' k = (if k \<in> fst ` set cancels then None else map_of m k)) \<and>
    (\<exists>n. rep' = rep\<lparr>LoadsCanceled := n\<rparr>)"
  using assms
proof (induction cancels arbitrary: m rep)
  case Nil
  then show ?case by (auto intro: exI [of _ "LoadsCanceled rep"])
next
  case (Cons q cancels)
  obtain k c where q: "q = (k, c)" by (cases q)
  show ?case
  proof (cases "map_of m k")
    case None
    with Cons.prems q have "fold sync_cancel cancels (m, rep) = (m', rep')" by (simp add: sync_cancel_def)
    from Cons.IH [OF Cons.prems(1) this] None show ?thesis by (auto simp: q)
  next
    case (Some x)
    with Cons.prems q have "fold sync_cancel cancels (AList.delete k m, rep\<lparr>LoadsCanceled := LoadsCanceled rep + 1\<rparr>) = (m', rep')"
      by (simp add: sync_cancel_def)
    from Cons.IH [OF keyed_delete [OF Cons.prems(1)] this] show ?thesis by (auto simp: q delete_conv')
  qed
qed

lemma new_load_ID [simp]: "LdID (new_load k t) = k"
  by (simp add: new_load_def Let_def)

lemma fold_sync_tender:
  assumes "keyed LdID m" and "distinct (map fst tenders)" and "fold sync_tender tenders (m, rep) = (m', rep')"
  shows "keyed LdID m' \<and> (\<forall>k. map_of m' k = (case map_of tenders k of None \<Rightarrow> map_of m k | Some t \<Rightarrow> Some (new_load k t))) \<and>
    rep' = rep\<lparr>LoadsAdded := LoadsAdded rep + length tenders\<rparr>"
  using assms
proof (induction tenders arbitrary: m rep)
  case (Cons q tenders)
  obtain k t where q: "q = (k, t)" by (cases q)
  have nk: "k \<notin> fst ` set tenders" "distinct (map fst tenders)" using Cons.prems(2) q by auto
  have kd: "keyed LdID (AList.update k (new_load k t) m)" by (rule keyed_update [OF Cons.prems(1)]) simp
  have run: "fold sync_tender tenders (AList.update k (new_load k t) m, rep\<lparr>LoadsAdded := LoadsAdded rep + 1\<rparr>) = (m', rep')"
    using Cons.prems(3) by (simp add: q sync_tender_def)
  have "map_of tenders k = None" using nk(1) by (simp add: map_of_eq_None_iff)
  with Cons.IH [OF kd nk(2) run] show ?case by (auto simp: q update_conv' split: option.splits)
qed simp

text \<open>The drivers and loads of the result, by ID.\<close>

definition base_driver :: "ResourceState option \<Rightarrow> string \<Rightarrow> Driver option" where
  "base_driver base k = (case base of None \<Rightarrow> None | Some r \<Rightarrow> GetDriver r k)"

definition base_load :: "ResourceState option \<Rightarrow> string \<Rightarrow> Load option" where
  "base_load base k = (case base of None \<Rightarrow> None | Some r \<Rightarrow> GetLoad r k)"

definition base_ok :: "ResourceState option \<Rightarrow> bool" where
  "base_ok base \<longleftrightarrow> (case base of None \<Rightarrow> True
     | Some r \<Rightarrow> rs_wf r \<and> distinct (map DrvID (rs_drivers r)) \<and> distinct (map LdID (rs_loads r)))"

lemma option_eqI: "(\<And>x. a = Some x \<longleftrightarrow> b = Some x) \<Longrightarrow> a = b"
  by (cases a; cases b) auto

lemma base_maps:
  assumes "base_ok base"
  shows "keyed DrvID (case base of None \<Rightarrow> [] | Some r \<Rightarrow> base_map DrvID (rs_drivers r)) \<and>
    map_of (case base of None \<Rightarrow> [] | Some r \<Rightarrow> base_map DrvID (rs_drivers r)) = base_driver base \<and>
    keyed LdID (case base of None \<Rightarrow> [] | Some r \<Rightarrow> base_map LdID (rs_loads r)) \<and>
    map_of (case base of None \<Rightarrow> [] | Some r \<Rightarrow> base_map LdID (rs_loads r)) = base_load base"
proof (cases base)
  case None
  then show ?thesis by (auto simp: keyed_def base_driver_def base_load_def)
next
  case (Some r)
  with assms have r: "rs_wf r" "distinct (map DrvID (rs_drivers r))" "distinct (map LdID (rs_loads r))"
    by (auto simp: base_ok_def)
  have "map_of (base_map DrvID (rs_drivers r)) = GetDriver r"
    by (rule ext, rule option_eqI) (use base_map_keyed [OF r(2)] driver_lookup.get_iff [OF r(1,2)] in blast)
  moreover have "map_of (base_map LdID (rs_loads r)) = GetLoad r"
    by (rule ext, rule option_eqI) (use base_map_keyed [OF r(3)] load_lookup.get_iff [OF r(1,3)] in blast)
  ultimately show ?thesis using Some base_map_keyed [OF r(2)] base_map_keyed [OF r(3)]
    by (auto simp: base_driver_def base_load_def)
qed

lemma keyed_state:
  assumes "keyed DrvID dm" and "keyed LdID lm"
  shows "base_ok (Some (NewResourceState (sort_slice (\<lambda>a b. DrvID a < DrvID b) (map snd dm))
      (sort_slice (\<lambda>a b. LdID a < LdID b) (map snd lm))))"
    and "GetDriver (NewResourceState (sort_slice (\<lambda>a b. DrvID a < DrvID b) (map snd dm))
      (sort_slice (\<lambda>a b. LdID a < LdID b) (map snd lm))) k = map_of dm k"
    and "GetLoad (NewResourceState (sort_slice (\<lambda>a b. DrvID a < DrvID b) (map snd dm))
      (sort_slice (\<lambda>a b. LdID a < LdID b) (map snd lm))) k = map_of lm k"
proof -
  let ?rs = "NewResourceState (sort_slice (\<lambda>a b. DrvID a < DrvID b) (map snd dm))
      (sort_slice (\<lambda>a b. LdID a < LdID b) (map snd lm))"
  have d: "distinct (map DrvID (rs_drivers ?rs))" "distinct (map LdID (rs_loads ?rs))"
    using assms keyed_map [OF assms(1)] keyed_map [OF assms(2)]
    by (simp_all add: NewResourceState_def Let_def keyed_def del: map_map)
  then show "base_ok (Some ?rs)" by (simp add: base_ok_def)
  have mem: "x \<in> set (map snd m) \<and> key x = k \<longleftrightarrow> map_of m k = Some x" if "keyed key m"
    for m :: "'b go_map" and key x k
    using that by (force simp: keyed_def)
  show "GetDriver ?rs k = map_of dm k"
    by (rule option_eqI) (use mem [OF assms(1), of _ k] driver_lookup.get_iff [OF NewResourceState_wf d(1)] in simp)
  show "GetLoad ?rs k = map_of lm k"
    by (rule option_eqI) (use mem [OF assms(2), of _ k] load_lookup.get_iff [OF NewResourceState_wf d(2)] in simp)
qed

section \<open>What a synchronization promises\<close>

text \<open>
  Property C19. Synchronization drains the buffer and produces a canonical resource state with, for every
  ID: the base driver if no ping names it, the updated driver if a ping does, a new driver for an unknown
  ID; the tendered load if one is buffered, no load if it was cancelled, else the base load.
\<close>

theorem Synchronize_correct:
  assumes "buffer_wf b" and "base_ok base"
  shows "\<exists>rs rep. Synchronize t0 t1 clock_at base epoch b = ((rs, rep), snd (Drain t0 b)) \<and> base_ok (Some rs) \<and>
    (\<forall>k. GetDriver rs k = (case ping_map b k of
        None \<Rightarrow> base_driver base k
      | Some p \<Rightarrow> Some (case base_driver base k of Some d \<Rightarrow> update_driver epoch p d
          | None \<Rightarrow> new_driver (clock_at k) epoch k p))) \<and>
    (\<forall>k. GetLoad rs k = (case tender_map b k of
        Some t \<Rightarrow> Some (new_load k t)
      | None \<Rightarrow> if cancel_map b k \<noteq> None then None else base_load base k)) \<and>
    DriversUpdated rep + DriversAdded rep = length (driverPings b) \<and> LoadsAdded rep = length (loadTenders b) \<and>
    TotalDrivers rep = length (rs_drivers rs) \<and> TotalLoads rep = length (rs_loads rs)"
proof -
  let ?rep = "\<lparr>DriversUpdated = 0, DriversAdded = 0, LoadsAdded = 0, LoadsCanceled = 0, TotalDrivers = 0,
            TotalLoads = 0, SyncTimestamp = t1\<rparr>"
  let ?dm = "case base of None \<Rightarrow> [] | Some r \<Rightarrow> base_map DrvID (rs_drivers r)"
  let ?lm = "case base of None \<Rightarrow> [] | Some r \<Rightarrow> base_map LdID (rs_loads r)"
  note B = base_maps [OF assms(2)]
  have dist: "distinct (map fst (driverPings b))" "distinct (map fst (loadTenders b))"
    using assms(1) unfolding buffer_wf_def by blast+
  obtain dm r1 where 1: "fold (sync_ping clock_at epoch) (driverPings b) (?dm, ?rep) = (dm, r1)" by fastforce
  obtain lm1 r2 where 2: "fold sync_cancel (cancellations b) (?lm, r1) = (lm1, r2)" by fastforce
  obtain lm r3 where 3: "fold sync_tender (loadTenders b) (lm1, r2) = (lm, r3)" by fastforce
  note D = fold_sync_ping [OF conjunct1 [OF B] dist(1) 1]
  note C = fold_sync_cancel [OF _ 2]
  have C: "keyed LdID lm1" "\<And>k. map_of lm1 k = (if k \<in> fst ` set (cancellations b) then None else base_load base k)"
    "LoadsAdded r2 = LoadsAdded r1" "DriversUpdated r2 = DriversUpdated r1" "DriversAdded r2 = DriversAdded r1"
    using C B by auto
  note T = fold_sync_tender [OF C(1) dist(2) 3]
  let ?ds = "sort_slice (\<lambda>a b. DrvID a < DrvID b) (map snd dm)"
  let ?ls = "sort_slice (\<lambda>a b. LdID a < LdID b) (map snd lm)"
  let ?rs = "NewResourceState ?ds ?ls"
  have run: "Synchronize t0 t1 clock_at base epoch b =
      ((?rs, r3\<lparr>TotalDrivers := length ?ds, TotalLoads := length ?ls\<rparr>), snd (Drain t0 b))"
    unfolding Synchronize_def Drain_def Let_def prod.case 1 2 3 by simp
  have kd: "keyed DrvID dm" and kl: "keyed LdID lm" using D T by blast+
  note S = keyed_state [OF kd kl]
  have drv: "GetDriver ?rs k = (case ping_map b k of None \<Rightarrow> base_driver base k
      | Some p \<Rightarrow> Some (case base_driver base k of Some d \<Rightarrow> update_driver epoch p d
          | None \<Rightarrow> new_driver (clock_at k) epoch k p))" for k
    using D B unfolding S(2) ping_map_def by metis
  have can: "k \<in> fst ` set (cancellations b) \<longleftrightarrow> cancel_map b k \<noteq> None" for k
    unfolding cancel_map_def by (simp add: map_of_eq_None_iff)
  have ld: "GetLoad ?rs k = (case tender_map b k of Some t \<Rightarrow> Some (new_load k t)
      | None \<Rightarrow> if cancel_map b k \<noteq> None then None else base_load base k)" for k
    using T C(2) [of k] unfolding S(3) tender_map_def can by (auto split: option.splits)
  have cnt: "DriversUpdated r1 + DriversAdded r1 = length (driverPings b)"
    using D sum_length_filter_compl [of "\<lambda>(k, p). map_of ?dm k \<noteq> None" "driverPings b"]
    by (simp add: case_prod_unfold)
  have la: "LoadsAdded r3 = length (loadTenders b)" "DriversUpdated r3 = DriversUpdated r1" "DriversAdded r3 = DriversAdded r1"
    using T C(3-5) D by auto
  show ?thesis
    by (intro exI [of _ ?rs] exI conjI allI, rule run)
      (use S(1) drv ld cnt la in \<open>simp_all add: NewResourceState_def Let_def\<close>)
qed

definition demo_buffer :: StreamBuffer where
  "demo_buffer = run_ops [(0, OpPing (demo_ping 5)), (1, OpCancel demo_cancel)]"

lemma demo_buffer_maps [simp]:
  "ping_map demo_buffer ''D1'' = Some (demo_ping 5)" "tender_map demo_buffer k = None"
  "cancel_map demo_buffer ''L1'' = Some demo_cancel" "length (driverPings demo_buffer) = 1"
proof -
  have c: "ValidateCancel demo_cancel = Inr ()"
    by (simp add: ValidateCancel_def demo_cancel_def TrimSpace_def is_space_def)
  have b: "demo_buffer = \<lparr>driverPings = [(''D1'', demo_ping 5)], loadTenders = [], cancellations = [(''L1'', demo_cancel)],
      totalPings = 1, totalTenders = 0, lastIngest = 1, lastSync = 0\<rparr>"
    using c by (simp add: demo_buffer_def run_ops_def NewStreamBuffer_def IngestDriverPing_def CancelTender_def)
      (simp add: demo_ping_def demo_cancel_def)
  show "ping_map demo_buffer ''D1'' = Some (demo_ping 5)" "tender_map demo_buffer k = None"
    "cancel_map demo_buffer ''L1'' = Some demo_cancel" "length (driverPings demo_buffer) = 1"
    by (simp_all add: b ping_map_def tender_map_def cancel_map_def)
qed

lemma demo_base_ok: "base_ok (Some (demo_rs a b))"
  using demo_rs_facts(1,2) [of a b] by (simp add: base_ok_def) (simp add: demo_rs_def NewResourceState_def Let_def sort_slice_def)

lemma Synchronize_correct_witness:
  "\<exists>rs rep. Synchronize 2 3 (\<lambda>_. 4) (Some (demo_rs demo_A demo_B)) 1 demo_buffer = ((rs, rep), snd (Drain 2 demo_buffer)) \<and>
    GetLoad rs ''L1'' = None \<and> DriversUpdated rep + DriversAdded rep = 1"
proof -
  have "buffer_wf demo_buffer" unfolding demo_buffer_def by (rule run_ops_wf)
  from Synchronize_correct [OF this demo_base_ok, of 2 3 "\<lambda>_. 4" demo_A demo_B 1]
  obtain rs rep where "Synchronize 2 3 (\<lambda>_. 4) (Some (demo_rs demo_A demo_B)) 1 demo_buffer = ((rs, rep), snd (Drain 2 demo_buffer))"
    and "\<forall>k. GetLoad rs k = (case tender_map demo_buffer k of Some t \<Rightarrow> Some (new_load k t)
      | None \<Rightarrow> if cancel_map demo_buffer k \<noteq> None then None else base_load (Some (demo_rs demo_A demo_B)) k)"
    and "DriversUpdated rep + DriversAdded rep = length (driverPings demo_buffer)" by blast
  then show ?thesis by (intro exI [of _ rs] exI [of _ rep]) simp
qed

text \<open>Two resource states with distinct IDs and the same lookups are equal.\<close>

lemma state_ext:
  assumes "base_ok (Some r)" and "base_ok (Some s)" and "\<And>k. GetDriver r k = GetDriver s k" and "\<And>k. GetLoad r k = GetLoad s k"
  shows "r = s"
proof -
  have r: "rs_wf r" "distinct (map DrvID (rs_drivers r))" "distinct (map LdID (rs_loads r))"
    and s: "rs_wf s" "distinct (map DrvID (rs_drivers s))" "distinct (map LdID (rs_loads s))"
    using assms(1,2) by (auto simp: base_ok_def)
  have "set (rs_drivers r) = set (rs_drivers s)"
    using driver_lookup.get_iff [OF r(1,2)] driver_lookup.get_iff [OF s(1,2)] assms(3) by (metis subset_antisym subsetI)
  moreover have "distinct (rs_drivers r)" "distinct (rs_drivers s)" using r s by (auto intro: distinct_map [THEN iffD1, THEN conjunct1])
  ultimately have d: "mset (rs_drivers r) = mset (rs_drivers s)" by (simp add: set_eq_iff_mset_eq_distinct)
  have "set (rs_loads r) = set (rs_loads s)"
    using load_lookup.get_iff [OF r(1,3)] load_lookup.get_iff [OF s(1,3)] assms(4) by (metis subset_antisym subsetI)
  moreover have "distinct (rs_loads r)" "distinct (rs_loads s)" using r s by (auto intro: distinct_map [THEN iffD1, THEN conjunct1])
  ultimately have l: "mset (rs_loads r) = mset (rs_loads s)" by (simp add: set_eq_iff_mset_eq_distinct)
  have canon: "NewResourceState (rs_drivers x) (rs_loads x) = x"
    if "rs_wf x" "distinct (map DrvID (rs_drivers x))" "distinct (map LdID (rs_loads x))" for x
  proof -
    have "sorted_wrt (<) (map DrvID (rs_drivers x))" "sorted_wrt (<) (map LdID (rs_loads x))"
      using that by (simp_all add: rs_wf_def strict_sorted_iff)
    then show ?thesis using that(1) by (simp add: NewResourceState_def Let_def sort_slice_key_id rs_wf_def)
  qed
  have "NewResourceState (rs_drivers r) (rs_loads r) = NewResourceState (rs_drivers s) (rs_loads s)"
    using sort_slice_key_perm [OF d r(2)] sort_slice_key_perm [OF l r(3)] by (simp add: NewResourceState_def)
  then show ?thesis using canon [OF r] canon [OF s] by simp
qed

text \<open>
  The synchronized state does not depend on the order in which Go iterates over the
  drained maps: buffers with the same entries give the same resource state.
\<close>

theorem Synchronize_order_independent:
  assumes "buffer_wf b" and "buffer_wf b'" and "base_ok base"
    and "ping_map b = ping_map b'" and "tender_map b = tender_map b'" and "cancel_map b = cancel_map b'"
  shows "fst (fst (Synchronize t0 t1 clock_at base epoch b)) = fst (fst (Synchronize t0 t1 clock_at base epoch b'))"
proof -
  obtain r rep where r: "Synchronize t0 t1 clock_at base epoch b = ((r, rep), snd (Drain t0 b))" "base_ok (Some r)"
    "\<forall>k. GetDriver r k = (case ping_map b k of None \<Rightarrow> base_driver base k
      | Some p \<Rightarrow> Some (case base_driver base k of Some d \<Rightarrow> update_driver epoch p d
          | None \<Rightarrow> new_driver (clock_at k) epoch k p))"
    "\<forall>k. GetLoad r k = (case tender_map b k of Some t \<Rightarrow> Some (new_load k t)
      | None \<Rightarrow> if cancel_map b k \<noteq> None then None else base_load base k)"
    using Synchronize_correct [OF assms(1,3), of t0 t1 clock_at epoch] by blast
  obtain s rep' where s: "Synchronize t0 t1 clock_at base epoch b' = ((s, rep'), snd (Drain t0 b'))" "base_ok (Some s)"
    "\<forall>k. GetDriver s k = (case ping_map b' k of None \<Rightarrow> base_driver base k
      | Some p \<Rightarrow> Some (case base_driver base k of Some d \<Rightarrow> update_driver epoch p d
          | None \<Rightarrow> new_driver (clock_at k) epoch k p))"
    "\<forall>k. GetLoad s k = (case tender_map b' k of Some t \<Rightarrow> Some (new_load k t)
      | None \<Rightarrow> if cancel_map b' k \<noteq> None then None else base_load base k)"
    using Synchronize_correct [OF assms(2,3), of t0 t1 clock_at epoch] by blast
  have "r = s" by (rule state_ext [OF r(2) s(2)]) (simp_all only: r(3,4) s(3,4) assms(4-6))
  with r(1) s(1) show ?thesis by simp
qed

definition demo_cancel2 :: TenderCancelDTO where
  "demo_cancel2 = \<lparr>CnLoadID = ''L2'', CnReason = '''', CnTimestamp = 0\<rparr>"

lemma Synchronize_order_independent_witness:
  "fst (fst (Synchronize 2 3 (\<lambda>_. 4) (Some (demo_rs demo_A demo_B)) 1 (run_ops [(0, OpCancel demo_cancel), (1, OpCancel demo_cancel2)]))) =
   fst (fst (Synchronize 2 3 (\<lambda>_. 4) (Some (demo_rs demo_A demo_B)) 1 (run_ops [(0, OpCancel demo_cancel2), (1, OpCancel demo_cancel)])))"
proof (rule Synchronize_order_independent [OF run_ops_wf run_ops_wf demo_base_ok])
  have "ValidateCancel demo_cancel = Inr ()" "ValidateCancel demo_cancel2 = Inr ()"
    by (simp_all add: ValidateCancel_def demo_cancel_def demo_cancel2_def TrimSpace_def is_space_def)
  moreover have "CnLoadID demo_cancel = ''L1''" "CnLoadID demo_cancel2 = ''L2''"
    by (simp_all add: demo_cancel_def demo_cancel2_def)
  ultimately show
    "ping_map (run_ops [(0, OpCancel demo_cancel), (1, OpCancel demo_cancel2)]) = ping_map (run_ops [(0, OpCancel demo_cancel2), (1, OpCancel demo_cancel)])"
    "tender_map (run_ops [(0, OpCancel demo_cancel), (1, OpCancel demo_cancel2)]) = tender_map (run_ops [(0, OpCancel demo_cancel2), (1, OpCancel demo_cancel)])"
    "cancel_map (run_ops [(0, OpCancel demo_cancel), (1, OpCancel demo_cancel2)]) = cancel_map (run_ops [(0, OpCancel demo_cancel2), (1, OpCancel demo_cancel)])"
    by (auto simp: run_ops_def NewStreamBuffer_def CancelTender_def ping_map_def tender_map_def cancel_map_def)
qed

text \<open>
  Property C24. A driver touched by the stream loses its policy specifications: they are the zero value
  whatever they were, so every later dispatch fails to simulate its trip and leaves the clocks as they
  are, although the location moves.
\<close>

theorem synchronized_clocks_frozen:
  assumes "buffer_wf b" and "base_ok base" and "ping_map b k = Some p"
  shows "\<exists>d. GetDriver (fst (fst (Synchronize t0 t1 clock_at base epoch b))) k = Some d \<and> DrvPolicySpecs d = NoPolicySpecs \<and>
    (\<forall>L m load. \<exists>d'. dispatch_driver L m load d = Some d' \<and> Clocks d' = Clocks d \<and> CurrentLocation d' = Destination load)"
proof -
  have "\<exists>d. GetDriver (fst (fst (Synchronize t0 t1 clock_at base epoch b))) k = Some d \<and>
      d = (case base_driver base k of Some d \<Rightarrow> update_driver epoch p d | None \<Rightarrow> new_driver (clock_at k) epoch k p)"
    using Synchronize_correct [OF assms(1,2), of t0 t1 clock_at epoch] assms(3) by fastforce
  then obtain d where d: "GetDriver (fst (fst (Synchronize t0 t1 clock_at base epoch b))) k = Some d"
    "d = (case base_driver base k of Some d \<Rightarrow> update_driver epoch p d | None \<Rightarrow> new_driver (clock_at k) epoch k p)"
    by blast
  have "DrvPolicySpecs (update_driver e p x) = NoPolicySpecs" for e x
    by (simp add: update_driver_def Let_def)
  moreover have "DrvPolicySpecs (new_driver c e k p) = NoPolicySpecs" for c e
    by (simp add: new_driver_def Let_def)
  ultimately have specs: "DrvPolicySpecs d = NoPolicySpecs" unfolding d(2) by (simp split: option.split)
  have "Simulate (Some c) evs NoPolicySpecs True = Some (Inl ErrInvalidPolicySpecs)" for c evs
    by (simp add: Simulate_def ValidatePolicy_def NoPolicySpecs_def)
  then have "\<exists>d'. dispatch_driver L m load d = Some d' \<and> Clocks d' = Clocks d \<and> CurrentLocation d' = Destination load" for L m load
    using specs by (cases "Clocks d") (auto simp: dispatch_driver_def Let_def)
  with d(1) specs show ?thesis by blast
qed

lemma synchronized_clocks_frozen_witness:
  "\<exists>d. GetDriver (fst (fst (Synchronize 2 3 (\<lambda>_. 4) (Some (demo_rs demo_A demo_B)) 1 demo_buffer))) ''D1'' = Some d \<and>
    DrvPolicySpecs d = NoPolicySpecs"
proof -
  have "buffer_wf demo_buffer" unfolding demo_buffer_def by (rule run_ops_wf)
  from synchronized_clocks_frozen [OF this demo_base_ok demo_buffer_maps(1)] show ?thesis by blast
qed

end
