(* ===== verification/Belief_Filter.thy ===== *)
theory Belief_Filter
  imports Belief Resource Action
begin

text \<open>
  \<open>internal/domain/model/observation.go\<close> and \<open>belief_filter.go\<close>: the market observation, its log
  likelihood under a posture profile, and the recursive Bayes filter. \<open>log\<close> and \<open>exp\<close> are the parameter
  \<open>libm\<close>; pointers that may be nil are options.
\<close>

section \<open>Observations\<close>

record BidFeedback =
  FbLoadID :: string
  FbWon :: bool
  FbWinningPrice :: f64

record Observation =
  ob_epoch :: int
  ob_loads :: "Load list"
  ob_feedback :: "BidFeedback list"

definition NewObservation :: "int \<Rightarrow> Load list \<Rightarrow> BidFeedback list \<Rightarrow> Observation" where
  "NewObservation ep loads feedback =
     \<lparr>ob_epoch = ep, ob_loads = sort_slice (\<lambda>a b. LdID a < LdID b) loads,
      ob_feedback = sort_slice (\<lambda>a b. FbLoadID a < FbLoadID b) feedback\<rparr>"

definition LoadCount :: "Observation \<Rightarrow> nat" where
  "LoadCount ob = length (ob_loads ob)"

definition FeedbackCount :: "Observation \<Rightarrow> nat" where
  "FeedbackCount ob = length (ob_feedback ob)"

definition WonCount :: "Observation \<Rightarrow> nat" where
  "WonCount ob = fold (\<lambda>fb won. if FbWon fb then won + 1 else won) (ob_feedback ob) 0"

record PostureObservationProfile =
  ExpectedWinProbability :: f64
  ExpectedSpotRateMean :: f64
  ExpectedSpotRateStdDev :: f64
  ExpectedOffersMean :: f64

type_synonym MarketObservationModel = "(string \<times> PostureObservationProfile) list"

text \<open>The profiles in the order of one iteration over the map.\<close>

definition profile_ok :: "PostureObservationProfile \<Rightarrow> unit result" where
  "profile_ok prof =
     (if ExpectedWinProbability prof \<le> 0 \<or> 1 \<le> ExpectedWinProbability prof then Inl (ErrOther ''ExpectedWinProbability'')
      else if ExpectedSpotRateStdDev prof \<le> 0 then Inl (ErrOther ''ExpectedSpotRateStdDev'')
      else if ExpectedOffersMean prof \<le> 0 then Inl (ErrOther ''ExpectedOffersMean'')
      else Inr ())"

fun check_profiles :: "MarketObservationModel \<Rightarrow> unit result" where
  "check_profiles [] = Inr ()"
| "check_profiles ((k, prof) # ps) = (case profile_ok prof of Inl e \<Rightarrow> Inl e | Inr _ \<Rightarrow> check_profiles ps)"

definition NewMarketObservationModel :: "MarketObservationModel \<Rightarrow> MarketObservationModel result" where
  "NewMarketObservationModel profiles =
     (if length profiles = 0 then Inl (ErrOther ''no profiles'')
      else case check_profiles profiles of Inl e \<Rightarrow> Inl e | Inr _ \<Rightarrow> Inr profiles)"

text \<open>\<open>math.Pi\<close> is an untyped constant: \<open>2*math.Pi\<close> is rounded once.\<close>

definition two_Pi :: f64 where
  "two_Pi = rnd (62831853071795864769252867665590057683943387987502116419498892 / 10 ^ 61)"

definition logFactorial :: "libm \<Rightarrow> nat \<Rightarrow> f64" where
  "logFactorial L n =
     (if n \<le> 1 then 0
      else if n \<le> 20 then m_log L (fold (\<lambda>i fact. fact * of_int_fl (int i)) [2..<n+1] 1)
      else let fn = of_int_fl (int n) in
        fn * m_log L fn - fn + Fin (1 / 2) * m_log L (two_Pi * fn) + 1 / (Fin 12 * fn) - 1 / (Fin 360 * fn * fn * fn))"

definition spot_rate :: "libm \<Rightarrow> Observation \<Rightarrow> PostureObservationProfile \<Rightarrow> f64" where
  "spot_rate L ob prof =
     (if FeedbackCount ob > 0
      then fold (\<lambda>fb total. total + FbWinningPrice fb) (ob_feedback ob) 0 / of_int_fl (int (FeedbackCount ob))
      else if LoadCount ob > 0
      then (case fold (\<lambda>l (rev, miles). (rev + Revenue l, miles + DistanceMiles L (Origin l) (Destination l))) (ob_loads ob) (0, 0) of
          (totalRev, totalMiles) \<Rightarrow> if 0 < totalMiles then totalRev / totalMiles else ExpectedSpotRateMean prof)
      else ExpectedSpotRateMean prof)"

definition LogLikelihood :: "libm \<Rightarrow> MarketObservationModel \<Rightarrow> Observation option \<Rightarrow> string \<Rightarrow> f64 result" where
  "LogLikelihood L model obs stateKey =
     (case obs of None \<Rightarrow> Inl (ErrOther ''nil observation'') | Some ob \<Rightarrow>
      case map_of model stateKey of None \<Rightarrow> Inl (ErrOther ''unknown latent state key'') | Some prof \<Rightarrow>
      let n = FeedbackCount ob;
          k = WonCount ob;
          logBinomial = (if n > 0
            then let p = ExpectedWinProbability prof;
                     logComb = logFactorial L n - logFactorial L k - logFactorial L (n - k) in
                 logComb + of_int_fl (int k) * m_log L p + of_int_fl (int (n - k)) * m_log L (1 - p)
            else 0);
          spotRate = spot_rate L ob prof;
          diff = spotRate - ExpectedSpotRateMean prof;
          variance = ExpectedSpotRateStdDev prof * ExpectedSpotRateStdDev prof;
          logGaussianRate = Fin (- (1 / 2)) * m_log L two_Pi - m_log L (ExpectedSpotRateStdDev prof) - (diff * diff) / (Fin 2 * variance);
          x = LoadCount ob;
          lambda = ExpectedOffersMean prof;
          logPoissonOffers = of_int_fl (int x) * m_log L lambda - lambda - logFactorial L x in
      Inr (logBinomial + logGaussianRate + logPoissonOffers))"

section \<open>The filter\<close>

record BeliefFilter =
  bf_scale :: CompetitorScale
  bf_matrix :: "53 TransitionMatrix option"
  bf_model :: "MarketObservationModel option"

definition NewMonopolisticFilter :: BeliefFilter where
  "NewMonopolisticFilter = \<lparr>bf_scale = Monopolistic, bf_matrix = None, bf_model = None\<rparr>"

definition NewCompetitiveBeliefFilter ::
  "CompetitorScale \<Rightarrow> 53 TransitionMatrix option \<Rightarrow> MarketObservationModel option \<Rightarrow> BeliefFilter result" where
  "NewCompetitiveBeliefFilter scale tm om =
     (case tm of None \<Rightarrow> Inl (ErrOther ''nil transition matrix'') | Some t \<Rightarrow>
      (case om of None \<Rightarrow> Inl (ErrOther ''nil observation model'') | Some m \<Rightarrow>
       if \<exists>key\<in>set (tm_keys t). map_of m key = None then Inl (ErrOther ''missing profile'')
       else Inr \<lparr>bf_scale = scale, bf_matrix = Some t, bf_model = Some m\<rparr>))"

text \<open>The loop over the latent states: the unnormalized log posterior and \<open>allNegativeInf\<close>.\<close>

fun log_posterior ::
  "libm \<Rightarrow> MarketObservationModel \<Rightarrow> Observation \<Rightarrow> f64 list \<Rightarrow> string list \<Rightarrow> (f64 list \<times> bool) result" where
  "log_posterior L om ob (q # qs) (key # keys) =
     (if q \<le> 0
      then (case log_posterior L om ob qs keys of Inl e \<Rightarrow> Inl e | Inr (us, allNegInf) \<Rightarrow> Inr (NInf # us, allNegInf))
      else case LogLikelihood L om (Some ob) key of
        Inl e \<Rightarrow> Inl e
      | Inr ll \<Rightarrow>
          (let u = m_log L q + ll in
           case log_posterior L om ob qs keys of
             Inl e \<Rightarrow> Inl e
           | Inr (us, allNegInf) \<Rightarrow> Inr (u # us, allNegInf \<and> u = NInf)))"
| "log_posterior L om ob qs keys = Inr ([], True)"

definition Filter_step ::
  "libm \<Rightarrow> BeliefFilter \<Rightarrow> 53 Belief option \<Rightarrow> Observation option \<Rightarrow> Action option \<Rightarrow> 53 Belief result" where
  "Filter_step L f prior obs action =
     (case prior of None \<Rightarrow> Inl (ErrOther ''nil prior belief'') | Some b \<Rightarrow>
      if CompetitorDimension (bf_scale f) = 0 then Inr NewMonopolisticBelief
      else case obs of None \<Rightarrow> Inl (ErrOther ''nil observation'') | Some ob \<Rightarrow>
      case bf_matrix f of None \<Rightarrow> Inl (ErrOther ''competitive filter requires a transition matrix'') | Some tm \<Rightarrow>
      case bf_model f of None \<Rightarrow> Inl (ErrOther ''competitive filter requires an observation model'') | Some om \<Rightarrow>
      case Predict tm (bl_probs b) of Inl e \<Rightarrow> Inl e | Inr predicted \<Rightarrow>
      case log_posterior L om ob predicted (tm_keys tm) of Inl e \<Rightarrow> Inl e | Inr (logUnnorm, allNegativeInf) \<Rightarrow>
      if allNegativeInf then Inl ErrFilterDegenerateObservation
      else case LogNormalize L logUnnorm of Inl e \<Rightarrow> Inl e | Inr posterior \<Rightarrow>
      NewBelief (bf_scale f) (tm_keys tm) (ProjectToSimplex posterior))"

section \<open>What the filter returns\<close>



lemma WonCount_filter: "WonCount ob = length (filter FbWon (ob_feedback ob))"
proof -
  have "fold (\<lambda>fb won. if FbWon fb then won + 1 else won) fs n = n + length (filter FbWon fs)" for fs :: "BidFeedback list" and n
    by (induction fs arbitrary: n) auto
  then show ?thesis by (simp add: WonCount_def)
qed

lemma LogLikelihood_total:
  "LogLikelihood L om (Some ob) key = Inl e \<longleftrightarrow> map_of om key = None \<and> e = ErrOther ''unknown latent state key''"
  by (auto simp: LogLikelihood_def Let_def split: option.splits)

lemma log_posterior_total:
  assumes "\<forall>k\<in>set keys. map_of om k \<noteq> None" and "length qs = length keys"
  shows "\<exists>r. log_posterior L om ob qs keys = Inr r \<and> length (fst r) = length keys"
  using assms(2,1)
proof (induction qs keys rule: list_induct2)
  case (Cons q qs key keys)
  then obtain r where IH: "log_posterior L om ob qs keys = Inr r" "length (fst r) = length keys" by auto
  show ?case
  proof (cases "LogLikelihood L om (Some ob) key")
    case (Inl e)
    with Cons.prems show ?thesis unfolding LogLikelihood_total by simp
  next
    case (Inr ll)
    with IH show ?thesis by (cases r) (auto simp: Let_def)
  qed
qed simp

text \<open>
  A filter built by its constructor never fails for a missing profile or a panic: with a
  prior of the dimension of its matrix and an observation, the only errors left are the degenerate
  observation, log-space normalization and the validation of the posterior.
\<close>

theorem Filter_step_errors:
  assumes "NewCompetitiveBeliefFilter scale (Some tm) (Some om) = Inr f" and "CompetitorDimension scale \<noteq> 0"
    and "NewTransitionMatrix keys data = Inr tm" and "length (bl_probs b) = length keys"
  shows "\<exists>us all. log_posterior L om ob (case Predict tm (bl_probs b) of Inr p \<Rightarrow> p) (tm_keys tm) = Inr (us, all) \<and>
    length us = length keys \<and>
    Filter_step L f (Some b) (Some ob) action =
      (if all then Inl ErrFilterDegenerateObservation
       else case LogNormalize L us of Inl e \<Rightarrow> Inl e
         | Inr posterior \<Rightarrow> NewBelief scale (tm_keys tm) (ProjectToSimplex posterior))"
proof -
  note C = NewTransitionMatrix_cases [OF assms(3)]
  have f: "f = \<lparr>bf_scale = scale, bf_matrix = Some tm, bf_model = Some om\<rparr>" "\<forall>k\<in>set (tm_keys tm). map_of om k \<noteq> None"
    using assms(1) by (auto simp: NewCompetitiveBeliefFilter_def split: if_splits)
  obtain p where p: "Predict tm (bl_probs b) = Inr p" "length p = length keys"
    using C assms(4) by (simp add: Predict_def)
  have "length p = length (tm_keys tm)" using p(2) C by simp
  from log_posterior_total [OF f(2) this, of L ob] obtain us all where
    us: "log_posterior L om ob p (tm_keys tm) = Inr (us, all)" "length us = length (tm_keys tm)" by fastforce
  have run: "Filter_step L f (Some b) (Some ob) action =
      (if all then Inl ErrFilterDegenerateObservation
       else case LogNormalize L us of Inl e \<Rightarrow> Inl e
         | Inr posterior \<Rightarrow> NewBelief scale (tm_keys tm) (ProjectToSimplex posterior))"
    using assms(2) p(1) us(1) by (simp add: Filter_step_def f(1) split: sum.split)
  have "length us = length keys" using us(2) C by simp
  then show ?thesis using run us(1) p(1) by (intro exI [of _ us] exI [of _ all]) simp
qed

definition demo_tm :: "53 TransitionMatrix" where
  "demo_tm = (case NewTransitionMatrix [''A''] [[1]] of Inr t \<Rightarrow> t)"

lemma demo_tm_f64: "NewTransitionMatrix [''A''] [[1 :: f64]] = Inr demo_tm"
proof -
  have "ValidateSimplex [1 :: f64] DefaultSimplexTolerance = Inr ()" by code_simp
  then have "\<exists>t. NewTransitionMatrix [''A''] [[1 :: f64]] = Inr t"
    by (simp add: NewTransitionMatrix_def sort_slice_def Let_def idx_of_def)
  then show ?thesis by (auto simp: demo_tm_def)
qed

definition demo_profiles :: MarketObservationModel where
  "demo_profiles = [(''A'', \<lparr>ExpectedWinProbability = Fin (1 / 2), ExpectedSpotRateMean = Fin 2,
     ExpectedSpotRateStdDev = Fin 1, ExpectedOffersMean = Fin 1\<rparr>)]"

definition demo_filter :: BeliefFilter where
  "demo_filter = \<lparr>bf_scale = AggregatedMarket [], bf_matrix = Some demo_tm, bf_model = Some demo_profiles\<rparr>"

definition demo_belief :: "53 Belief" where
  "demo_belief = \<lparr>bl_scale = AggregatedMarket [], bl_keys = [''A''], bl_probs = [1], bl_index = [''A'' \<mapsto> 0]\<rparr>"

lemma demo_filter_ok: "NewCompetitiveBeliefFilter (AggregatedMarket []) (Some demo_tm) (Some demo_profiles) = Inr demo_filter"
proof -
  have "tm_keys demo_tm = [''A'']" using NewTransitionMatrix_cases [OF demo_tm_f64] by (simp add: sort_slice_def)
  then show ?thesis by (simp add: NewCompetitiveBeliefFilter_def demo_profiles_def demo_filter_def)
qed

lemma Filter_step_errors_witness:
  "\<exists>us all. Filter_step demo_libm demo_filter (Some demo_belief) (Some (NewObservation 0 [] [])) None =
      (if all then Inl ErrFilterDegenerateObservation
       else case LogNormalize demo_libm us of Inl e \<Rightarrow> Inl e
         | Inr posterior \<Rightarrow> NewBelief (AggregatedMarket []) (tm_keys demo_tm) (ProjectToSimplex posterior))"
  using Filter_step_errors [OF demo_filter_ok _ demo_tm_f64, of demo_belief demo_libm "NewObservation 0 [] []" None]
  by (fastforce simp: demo_belief_def)

end
