(* ===== verification/Sha256.thy ===== *)
theory Sha256
  imports Text
begin

unbundle bit_operations_syntax

text \<open>
  \<open>crypto/sha256\<close> and \<open>encoding/hex\<close> as the journal uses them: the digest of a byte string (a string,
  one byte per character) in lowercase hexadecimal.
\<close>

section \<open>The compression function\<close>

type_synonym w32 = "32 word"

text \<open>
  The constants: the first 32 bits of the fractional parts of the cube roots (the round constants) and
  of the square roots (the initial hash) of the first primes. \<open>int_root k n\<close> is the integer part of the
  \<open>k\<close>-th root of \<open>n\<close>, built bit by bit.
\<close>

definition int_root :: "nat \<Rightarrow> int \<Rightarrow> int" where
  "int_root k n = fold (\<lambda>b r. if (r + 2 ^ b) ^ k \<le> n then r + 2 ^ b else r) (rev [0..<40]) 0"

definition small_primes :: "int list" where
  "small_primes = filter (\<lambda>p. \<forall>d\<in>set [2..p - 1]. p mod d \<noteq> 0) [2..311]"

definition sha_K :: "w32 list" where
  "sha_K = map (\<lambda>p. of_int (int_root 3 (p * 2 ^ 96))) small_primes"

definition sha_init :: "w32 list" where
  "sha_init = map (\<lambda>p. of_int (int_root 2 (p * 2 ^ 64))) [2, 3, 5, 7, 11, 13, 17, 19]"

definition rotr32 :: "nat \<Rightarrow> w32 \<Rightarrow> w32" where
  "rotr32 n x = drop_bit n x OR push_bit (32 - n) x"

text \<open>The message schedule, latest word first: \<open>n\<close> further words.\<close>

primrec sha_schedule :: "nat \<Rightarrow> w32 list \<Rightarrow> w32 list" where
  "sha_schedule 0 ws = ws"
| "sha_schedule (Suc n) ws =
     (let w15 = ws ! 14; w2 = ws ! 1;
          s0 = rotr32 7 w15 XOR rotr32 18 w15 XOR drop_bit 3 w15;
          s1 = rotr32 17 w2 XOR rotr32 19 w2 XOR drop_bit 10 w2 in
      sha_schedule n ((ws ! 15 + s0 + ws ! 6 + s1) # ws))"

text \<open>A round on the eight working variables.\<close>

fun sha_round :: "w32 \<times> w32 \<Rightarrow> w32 list \<Rightarrow> w32 list" where
  "sha_round (k, w) [a, b, c, d, e, f, g, h] =
     (let S1 = rotr32 6 e XOR rotr32 11 e XOR rotr32 25 e;
          ch = (e AND f) XOR (NOT e AND g);
          t1 = h + S1 + ch + k + w;
          S0 = rotr32 2 a XOR rotr32 13 a XOR rotr32 22 a;
          maj = (a AND b) XOR (a AND c) XOR (b AND c) in
      [t1 + (S0 + maj), a, b, c, d + t1, e, f, g])"
| "sha_round _ hs = hs"

definition sha_block :: "w32 list \<Rightarrow> w32 list \<Rightarrow> w32 list" where
  "sha_block block hs = map2 (+) hs (fold sha_round (zip sha_K (rev (sha_schedule 48 (rev block)))) hs)"

section \<open>Padding and output\<close>

definition word_of_bytes :: "int list \<Rightarrow> w32" where
  "word_of_bytes bs = of_int (foldl (\<lambda>v b. 256 * v + b) 0 bs)"

fun chunks :: "nat \<Rightarrow> 'a list \<Rightarrow> 'a list list" where
  "chunks n xs = (if n = 0 \<or> xs = [] then [] else take n xs # chunks n (drop n xs))"

declare chunks.simps [simp del]

definition be_bytes :: "nat \<Rightarrow> int \<Rightarrow> int list" where
  "be_bytes k n = map (\<lambda>i. n div 256 ^ i mod 256) (rev [0..<k])"

definition sha_pad :: "int list \<Rightarrow> int list" where
  "sha_pad bs =
     (let n = length bs in bs @ [128] @ replicate ((119 - n mod 64) mod 64) 0 @ be_bytes 8 (8 * int n mod 2 ^ 64))"

definition hex_digit :: "int \<Rightarrow> char" where
  "hex_digit d = char_of (if d < 10 then 48 + d else 87 + d)"

definition hex_bytes :: "int list \<Rightarrow> string" where
  "hex_bytes bs = concat (map (\<lambda>b. [hex_digit (b div 16), hex_digit (b mod 16)]) bs)"

definition sha256 :: "int list \<Rightarrow> int list" where
  "sha256 bs = concat (map (\<lambda>w. be_bytes 4 (uint w))
     (fold (\<lambda>b. sha_block (map word_of_bytes (chunks 4 b))) (chunks 64 (sha_pad bs)) sha_init))"

definition ComputeSHA256 :: "string \<Rightarrow> string" where
  "ComputeSHA256 data = hex_bytes (sha256 (map of_char data))"

lemma length_sha_round [simp]: "length (sha_round kw hs) = length hs"
  by (induction kw hs rule: sha_round.induct) (simp_all add: Let_def)

lemma length_fold_sha_round [simp]: "length (fold sha_round kws hs) = length hs"
  by (induction kws arbitrary: hs) simp_all

lemma length_sha_blocks [simp]: "length (fold (\<lambda>b. sha_block (f b)) bs hs) = length hs"
  by (induction bs arbitrary: hs) (simp_all add: sha_block_def)

lemma length_sha256: "length (sha256 bs) = 32"
proof -
  have "length (concat (map (\<lambda>w. be_bytes 4 (uint w)) ws)) = 4 * length ws" for ws :: "w32 list"
    by (induction ws) (simp_all add: be_bytes_def)
  then show ?thesis by (simp add: sha256_def sha_init_def)
qed

lemma length_hex_bytes [simp]: "length (hex_bytes bs) = 2 * length bs"
  by (induction bs) (simp_all add: hex_bytes_def)

text \<open>A digest has 64 characters, none of them a separator of the journal.\<close>

lemma length_ComputeSHA256 [simp]: "length (ComputeSHA256 data) = 64"
  by (simp add: ComputeSHA256_def length_sha256)

lemma ComputeSHA256_not_Nil [simp]: "ComputeSHA256 data \<noteq> ''''" "'''' \<noteq> ComputeSHA256 data"
  using length_ComputeSHA256 [of data] by (metis list.size(3) zero_neq_numeral)+

end
