(* ===== verification/Journal_Record.thy ===== *)
theory Journal_Record
  imports Sha256
begin

text \<open>
  \<open>pkg/journal/record.go\<close>: the journal record, the payload its hash binds, sealing and the integrity
  check. Byte slices are strings. The record hash is proved to bind exactly the payload: what the
  payload determines, and which fields of the record it does not mention.
\<close>

section \<open>The record\<close>

definition GenesisPrevHash :: string where
  "GenesisPrevHash = replicate 64 (CHR ''0'')"

definition CurrentRuntimeVersion :: string where
  "CurrentRuntimeVersion = ''mittens-v1.2.0''"

record JournalRecord =
  JrRunID :: string
  JrEpoch :: int
  BatchSeq :: int
  JrDecisionID :: string
  PrevRecordHash :: string
  RecordHash :: string
  RuntimeVersion :: string
  JrPolicyName :: string
  PolicyParamHash :: string
  InitialStateHash :: string
  ResourceStateBytes :: string
  InformationStateBytes :: string
  BeliefStateBytes :: string
  ActionHash :: string
  ActionBytes :: string
  JrMatchedCount :: int
  EvaluatedArcsCount :: int
  JrTotalNetContribution :: f64
  RealizedObservationsBytes :: string
  NextStateHash :: string
  NextResourceStateBytes :: string
  NextInformationStateBytes :: string
  NextBeliefStateBytes :: string

text \<open>The contribution as the payload prints it: magnitudes below \<open>1e-9\<close> count as zero.\<close>

definition contrib_text :: "f64 \<Rightarrow> string" where
  "contrib_text contrib = fmt_fixed 6 (if \<bar>contrib\<bar> < rnd (1 / 1000000000) then 0 else contrib)"

text \<open>The fields after the previous hash, and the \<open>|\<close>-separated payload.\<close>

definition bound_fields :: "JournalRecord \<Rightarrow> string list" where
  "bound_fields r =
     [JrRunID r, show_int (JrEpoch r), show_int (BatchSeq r), JrDecisionID r, RuntimeVersion r, JrPolicyName r,
      PolicyParamHash r, InitialStateHash r, ActionHash r, NextStateHash r, contrib_text (JrTotalNetContribution r)]"

definition record_payload :: "JournalRecord \<Rightarrow> string" where
  "record_payload r = PrevRecordHash r @ concat (map (\<lambda>f. CHR ''|'' # f) (bound_fields r))"

definition ComputeRecordHash :: "JournalRecord \<Rightarrow> string" where
  "ComputeRecordHash r = ComputeSHA256 (record_payload r)"

definition Seal :: "JournalRecord \<Rightarrow> JournalRecord" where
  "Seal r =
     (let r = (if PrevRecordHash r = '''' then r\<lparr>PrevRecordHash := GenesisPrevHash\<rparr> else r);
          r = (if RuntimeVersion r = '''' then r\<lparr>RuntimeVersion := CurrentRuntimeVersion\<rparr> else r)
      in r\<lparr>RecordHash := ComputeRecordHash r\<rparr>)"

definition VerifyIntegrity :: "JournalRecord \<Rightarrow> bool" where
  "VerifyIntegrity r = (RecordHash r \<noteq> '''' \<and> RecordHash r = ComputeRecordHash r)"

section \<open>What the hash binds\<close>

lemma VerifyIntegrity_iff: "VerifyIntegrity r \<longleftrightarrow> RecordHash r = ComputeSHA256 (record_payload r)"
  using ComputeSHA256_not_Nil [of "record_payload r"] by (metis VerifyIntegrity_def ComputeRecordHash_def)

lemma payload_RecordHash [simp]: "record_payload (r\<lparr>RecordHash := h\<rparr>) = record_payload r"
  by (simp add: record_payload_def bound_fields_def)

lemma Seal_integrity [simp]: "VerifyIntegrity (Seal r)"
  by (simp add: VerifyIntegrity_iff Seal_def Let_def ComputeRecordHash_def)

lemma length_RecordHash: "VerifyIntegrity r \<Longrightarrow> length (RecordHash r) = 64"
  by (simp add: VerifyIntegrity_iff)

lemma length_GenesisPrevHash [simp]: "length GenesisPrevHash = 64"
  by (simp add: GenesisPrevHash_def)

lemma GenesisPrevHash_not_Nil [simp]: "GenesisPrevHash \<noteq> ''''"
  using length_GenesisPrevHash by fastforce

lemma show_nat_no_bar [simp]: "CHR ''|'' \<notin> set (show_nat n)"
  using show_nat_digits [of "CHR ''|''" n] by (auto simp: is_digit_def)

lemma show_int_no_bar [simp]: "CHR ''|'' \<notin> set (show_int n)"
  by (simp add: show_int_def)

lemma fmt_fixed_no_bar [simp]: "CHR ''|'' \<notin> set (fmt_fixed k x)"
  by (cases x) (auto simp: fmt_fixed_def show_pad_def Let_def)

lemma contrib_text_no_bar [simp]: "CHR ''|'' \<notin> set (contrib_text x)"
  unfolding contrib_text_def by (rule fmt_fixed_no_bar)

lemma split_bar:
  assumes "a @ CHR ''|'' # x = b @ CHR ''|'' # y" and "CHR ''|'' \<notin> set a" and "CHR ''|'' \<notin> set b"
  shows "a = b \<and> x = y"
  using assms
proof (induction a arbitrary: b)
  case Nil
  then show ?case by (cases b) auto
next
  case (Cons c a)
  then show ?case by (cases b) auto
qed

lemma join_bars_inj:
  assumes "concat (map (\<lambda>f. CHR ''|'' # f) fs) = concat (map (\<lambda>f. CHR ''|'' # f) gs)"
    and "\<forall>f\<in>set fs. CHR ''|'' \<notin> set f" and "\<forall>g\<in>set gs. CHR ''|'' \<notin> set g"
  shows "fs = gs"
  using assms
proof (induction fs arbitrary: gs)
  case Nil
  then show ?case by (cases gs) auto
next
  case (Cons f fs)
  then obtain g gs' where gs: "gs = g # gs'" by (cases gs) auto
  have e: "f @ concat (map (\<lambda>f. CHR ''|'' # f) fs) = g @ concat (map (\<lambda>f. CHR ''|'' # f) gs')"
    using Cons.prems(1) gs by simp
  have "f = g \<and> concat (map (\<lambda>f. CHR ''|'' # f) fs) = concat (map (\<lambda>f. CHR ''|'' # f) gs')"
  proof (cases fs)
    case fs: Nil
    show ?thesis
    proof (cases gs')
      case Nil
      then show ?thesis using e fs by simp
    next
      case (Cons h t)
      then have "CHR ''|'' \<in> set f" using e fs by simp
      then show ?thesis using Cons.prems(2) by simp
    qed
  next
    case fs: (Cons f' fs')
    show ?thesis
    proof (cases gs')
      case Nil
      then have "g = f @ CHR ''|'' # f' @ concat (map (\<lambda>f. CHR ''|'' # f) fs')" using e fs by simp
      then have "CHR ''|'' \<in> set g" by simp
      then show ?thesis using Cons.prems(3) gs by simp
    next
      case (Cons h t)
      then have "f @ CHR ''|'' # (f' @ concat (map (\<lambda>f. CHR ''|'' # f) fs')) = g @ CHR ''|'' # (h @ concat (map (\<lambda>f. CHR ''|'' # f) t))"
        using e fs by simp
      moreover have "CHR ''|'' \<notin> set f" "CHR ''|'' \<notin> set g" using Cons.prems(2,3) gs by simp_all
      ultimately have "f = g \<and> f' @ concat (map (\<lambda>f. CHR ''|'' # f) fs') = h @ concat (map (\<lambda>f. CHR ''|'' # f) t)"
        by (rule split_bar)
      then show ?thesis unfolding fs \<open>gs' = h # t\<close> by simp
    qed
  qed
  then show ?case using Cons gs by auto
qed

lemma show_nat_inj: "show_nat m = show_nat n \<Longrightarrow> m = n"
  by (metis digits_val_show_nat)

lemma show_int_inj: "show_int m = show_int n \<Longrightarrow> m = n"
proof -
  have d: "CHR ''-'' \<notin> set (show_nat k)" for k
    using show_nat_digits [of "CHR ''-''" k] by (auto simp: is_digit_def)
  assume "show_int m = show_int n"
  then show "m = n"
    using d by (auto simp: show_int_def split: if_splits dest!: show_nat_inj) (metis d list.set_intros(1))+
qed

text \<open>The free-text fields of a record contain no separator.\<close>

definition no_bars :: "JournalRecord \<Rightarrow> bool" where
  "no_bars r = (\<forall>f\<in>{JrRunID r, JrDecisionID r, RuntimeVersion r, JrPolicyName r, PolicyParamHash r,
     InitialStateHash r, ActionHash r, NextStateHash r}. CHR ''|'' \<notin> set f)"

lemma bound_fields_no_bars: "no_bars r \<Longrightarrow> f \<in> set (bound_fields r) \<Longrightarrow> CHR ''|'' \<notin> set f"
  by (auto simp: no_bars_def bound_fields_def)

lemma payload_prev:
  assumes "record_payload r = record_payload s" and "length (PrevRecordHash r) = length (PrevRecordHash s)"
  shows "PrevRecordHash r = PrevRecordHash s"
    "concat (map (\<lambda>f. CHR ''|'' # f) (bound_fields r)) = concat (map (\<lambda>f. CHR ''|'' # f) (bound_fields s))"
  using assms by (auto simp: record_payload_def)

text \<open>The payload determines every bound field of records without separators in their names.\<close>

lemma record_payload_inj:
  assumes "record_payload r = record_payload s" and "length (PrevRecordHash r) = length (PrevRecordHash s)"
    and "no_bars r" and "no_bars s"
  shows "PrevRecordHash r = PrevRecordHash s \<and> bound_fields r = bound_fields s"
  using payload_prev [OF assms(1,2)] join_bars_inj bound_fields_no_bars assms(3,4) by blast

end
