(* ===== verification/Journal_Store.thy ===== *)
theory Journal_Store
  imports Journal_Record
begin

text \<open>
  \<open>pkg/journal/store.go\<close>: the append-only stores. The memory store keeps its records by decision ID and
  by run; it is proved to implement an append-only log with verified chains. The file store writes the
  memory store's records as JSON lines; the JSON codec is a parameter.
\<close>

section \<open>The memory store\<close>

record MemoryStore =
  recordsMap :: "string \<rightharpoonup> JournalRecord"
  runMap :: "string \<rightharpoonup> JournalRecord list"

definition NewMemoryStore :: MemoryStore where
  "NewMemoryStore = \<lparr>recordsMap = Map.empty, runMap = Map.empty\<rparr>"

text \<open>A missing key of \<open>runMap\<close> reads as the nil slice.\<close>

definition run_recs :: "MemoryStore \<Rightarrow> string \<Rightarrow> JournalRecord list" where
  "run_recs s runID = (case runMap s runID of None \<Rightarrow> [] | Some recs \<Rightarrow> recs)"

definition Append :: "JournalRecord \<Rightarrow> MemoryStore \<Rightarrow> MemoryStore result" where
  "Append rec s =
     (if \<not> VerifyIntegrity rec then Inl ErrCorruptedChain
      else case recordsMap s (JrDecisionID rec) of
        Some _ \<Rightarrow> Inl ErrDuplicateRecord
      | None \<Rightarrow>
          let runRecs = run_recs s (JrRunID rec) in
          if runRecs = [] \<and> PrevRecordHash rec \<noteq> GenesisPrevHash then Inl ErrCorruptedChain
          else if runRecs \<noteq> [] \<and> PrevRecordHash rec \<noteq> RecordHash (last runRecs) then Inl ErrCorruptedChain
          else Inr \<lparr>recordsMap = (recordsMap s)(JrDecisionID rec \<mapsto> rec),
                    runMap = (runMap s)(JrRunID rec \<mapsto> runRecs @ [rec])\<rparr>)"

definition Get :: "string \<Rightarrow> MemoryStore \<Rightarrow> JournalRecord result" where
  "Get decisionID s = (case recordsMap s decisionID of None \<Rightarrow> Inl ErrRecordNotFound | Some rec \<Rightarrow> Inr rec)"

definition ListByRun :: "string \<Rightarrow> MemoryStore \<Rightarrow> JournalRecord list" where
  "ListByRun runID s = (case runMap s runID of None \<Rightarrow> [] | Some recs \<Rightarrow> recs)"

definition LastRecord :: "string \<Rightarrow> MemoryStore \<Rightarrow> JournalRecord option" where
  "LastRecord runID s =
     (case runMap s runID of None \<Rightarrow> None | Some recs \<Rightarrow> if recs = [] then None else Some (last recs))"

text \<open>The loop of \<open>VerifyRunChain\<close>: the first record that fails, given the hash its link must carry.\<close>

fun verify_links :: "string \<Rightarrow> JournalRecord list \<Rightarrow> JournalRecord option" where
  "verify_links prev [] = None"
| "verify_links prev (r # rs) =
     (if \<not> VerifyIntegrity r then Some r
      else if PrevRecordHash r \<noteq> prev then Some r
      else verify_links (RecordHash r) rs)"

text \<open>The records checked: those of the run, or of the run of the decision with that ID.\<close>

definition chain_records :: "string \<Rightarrow> MemoryStore \<Rightarrow> JournalRecord list" where
  "chain_records runID s =
     (let recs = ListByRun runID s in
      if recs = [] then
        (case Get runID s of Inr rec \<Rightarrow> if JrRunID rec \<noteq> '''' then ListByRun (JrRunID rec) s else recs | Inl _ \<Rightarrow> recs)
      else recs)"

definition VerifyRunChain :: "string \<Rightarrow> MemoryStore \<Rightarrow> bool \<times> string \<times> go_error option" where
  "VerifyRunChain runID s =
     (let recs = chain_records runID s in
      if recs = [] then (True, ''empty_run'', None)
      else case verify_links GenesisPrevHash recs of
        Some r \<Rightarrow> (False, JrDecisionID r, Some ErrCorruptedChain)
      | None \<Rightarrow> (True, RecordHash (last recs), None))"

section \<open>Refinement of an append-only jl\<close>

text \<open>
  The specification is a list of records. A record is accepted when it is intact, its decision is new,
  and it extends the last record of its run.
\<close>

definition run_head :: "JournalRecord list \<Rightarrow> string \<Rightarrow> string" where
  "run_head jl run = (let rs = filter (\<lambda>r. JrRunID r = run) jl in if rs = [] then GenesisPrevHash else RecordHash (last rs))"

definition log_accepts :: "JournalRecord list \<Rightarrow> JournalRecord \<Rightarrow> bool" where
  "log_accepts jl r =
     (VerifyIntegrity r \<and> JrDecisionID r \<notin> set (map JrDecisionID jl) \<and> PrevRecordHash r = run_head jl (JrRunID r))"

definition log_append :: "JournalRecord \<Rightarrow> JournalRecord list \<Rightarrow> JournalRecord list" where
  "log_append r jl = (if log_accepts jl r then jl @ [r] else jl)"

text \<open>The abstraction: the two maps of the store are views of the log.\<close>

definition log_view :: "JournalRecord list \<Rightarrow> MemoryStore \<Rightarrow> bool" where
  "log_view jl s \<longleftrightarrow>
     (\<forall>i. recordsMap s i = find (\<lambda>r. JrDecisionID r = i) jl) \<and>
     (\<forall>run. runMap s run = (let rs = filter (\<lambda>r. JrRunID r = run) jl in if rs = [] then None else Some rs))"

definition try_append :: "JournalRecord \<Rightarrow> MemoryStore \<Rightarrow> MemoryStore" where
  "try_append r s = (case Append r s of Inl _ \<Rightarrow> s | Inr s' \<Rightarrow> s')"

lemma log_view_New [simp]: "log_view [] NewMemoryStore"
  by (simp add: log_view_def NewMemoryStore_def)

lemma find_append: "find P (xs @ ys) = (case find P xs of None \<Rightarrow> find P ys | Some x \<Rightarrow> Some x)"
  by (induction xs) simp_all

lemma log_view_recs:
  assumes "log_view jl s"
  shows "run_recs s run = filter (\<lambda>r. JrRunID r = run) jl" "ListByRun run s = filter (\<lambda>r. JrRunID r = run) jl"
    "recordsMap s i = find (\<lambda>r. JrDecisionID r = i) jl"
  using assms by (simp_all add: log_view_def run_recs_def ListByRun_def Let_def)

lemma find_id_None: "find (\<lambda>q. JrDecisionID q = i) jl = None \<longleftrightarrow> i \<notin> set (map JrDecisionID jl)"
  by (force simp: find_None_iff)

lemma Append_iff:
  assumes "log_view jl s"
  shows "Append r s =
    (if log_accepts jl r then Inr \<lparr>recordsMap = (recordsMap s)(JrDecisionID r \<mapsto> r),
       runMap = (runMap s)(JrRunID r \<mapsto> filter (\<lambda>q. JrRunID q = JrRunID r) jl @ [r])\<rparr>
     else Inl (if VerifyIntegrity r \<and> JrDecisionID r \<in> set (map JrDecisionID jl) then ErrDuplicateRecord else ErrCorruptedChain))"
proof -
  note f = find_id_None [of "JrDecisionID r" jl]
  show ?thesis
  proof (cases "find (\<lambda>q. JrDecisionID q = JrDecisionID r) jl")
    case None
    then show ?thesis using f log_view_recs [OF assms]
      by (simp add: Append_def log_accepts_def run_head_def Let_def)
  next
    case (Some q)
    then show ?thesis using f log_view_recs [OF assms]
      by (simp add: Append_def log_accepts_def)
  qed
qed

lemma log_view_append:
  assumes "log_view jl s"
  shows "log_view (log_append r jl) (try_append r s)"
proof (cases "log_accepts jl r")
  case True
  then have n: "find (\<lambda>q. JrDecisionID q = JrDecisionID r) jl = None" using find_id_None [of "JrDecisionID r" jl] by (simp add: log_accepts_def)
  show ?thesis
    unfolding try_append_def Append_iff [OF assms] log_append_def using True n assms
    by (auto simp: log_view_def find_append Let_def fun_eq_iff split: option.split)
next
  case False
  then show ?thesis using assms by (simp add: try_append_def Append_iff [OF assms] log_append_def)
qed

lemma log_view_fold: "log_view jl s \<Longrightarrow> log_view (fold log_append recs jl) (fold try_append recs s)"
  by (induction recs arbitrary: jl s) (simp_all add: log_view_append)

text \<open>Every run of an accepted log is a verified chain.\<close>

lemma verify_links_append:
  "verify_links prev (rs @ [r]) = None \<longleftrightarrow> verify_links prev rs = None \<and> VerifyIntegrity r \<and>
     PrevRecordHash r = (if rs = [] then prev else RecordHash (last rs))"
  by (induction rs arbitrary: prev) auto

lemma log_append_chains:
  assumes "\<forall>run. verify_links GenesisPrevHash (filter (\<lambda>r. JrRunID r = run) jl) = None"
  shows "verify_links GenesisPrevHash (filter (\<lambda>r. JrRunID r = run) (log_append r jl)) = None"
  using assms by (auto simp: log_append_def log_accepts_def verify_links_append run_head_def Let_def)

lemma fold_log_chains:
  assumes "\<forall>run. verify_links GenesisPrevHash (filter (\<lambda>r. JrRunID r = run) jl) = None"
  shows "verify_links GenesisPrevHash (filter (\<lambda>r. JrRunID r = run) (fold log_append recs jl)) = None"
  using assms
proof (induction recs arbitrary: jl)
  case (Cons r recs)
  then show ?case using log_append_chains [OF Cons.prems] by simp
qed simp

text \<open>
  Property C6. The memory store implements the append-only log. After any sequence of appends, accepted or not,
  it answers every question from the log: a decision by its only record, a run by its records in the
  order of their appends; and the chain of every run verifies.
\<close>

theorem MemoryStore_refines_log:
  fixes recs :: "JournalRecord list"
  defines "s \<equiv> fold try_append recs NewMemoryStore" and "jl \<equiv> fold log_append recs []"
  shows "Get i s = (case find (\<lambda>r. JrDecisionID r = i) jl of None \<Rightarrow> Inl ErrRecordNotFound | Some r \<Rightarrow> Inr r) \<and>
    ListByRun run s = filter (\<lambda>r. JrRunID r = run) jl \<and>
    LastRecord run s = (let rs = filter (\<lambda>r. JrRunID r = run) jl in if rs = [] then None else Some (last rs)) \<and>
    (let rs = chain_records run s in
      VerifyRunChain run s = (True, if rs = [] then ''empty_run'' else RecordHash (last rs), None))"
proof -
  have v: "log_view jl s" unfolding s_def jl_def by (rule log_view_fold) simp
  have c: "verify_links GenesisPrevHash (filter (\<lambda>r. JrRunID r = x) jl) = None" for x
    unfolding jl_def by (rule fold_log_chains) simp
  have "verify_links GenesisPrevHash (chain_records x s) = None" for x
    using c log_view_recs(2) [OF v] by (simp add: chain_records_def Let_def split: sum.split)
  then have "VerifyRunChain run s = (True, if chain_records run s = [] then ''empty_run'' else RecordHash (last (chain_records run s)), None)"
    by (simp add: VerifyRunChain_def Let_def)
  then show ?thesis
    using v log_view_recs [OF v] by (simp add: Get_def LastRecord_def log_view_def Let_def)
qed

section \<open>Tamper evidence\<close>

lemma verify_links_snoc_length:
  assumes "verify_links GenesisPrevHash (rs @ [r]) = None"
  shows "length (PrevRecordHash r) = 64"
proof (cases rs rule: rev_cases)
  case Nil
  then show ?thesis using assms by (auto split: if_splits)
next
  case (snoc rs' q)
  then show ?thesis using assms length_RecordHash [of q] by (simp add: verify_links_append del: append_assoc)
qed

text \<open>
  Two verified chains with the same last hash: a record carries the genesis hash, or two different
  payloads of the chains collide, or the chains have the same payloads in the same order.
\<close>

lemma verified_chains_agree:
  assumes "verify_links GenesisPrevHash rs = None" and "verify_links GenesisPrevHash ss = None"
    and "rs \<noteq> []" and "ss \<noteq> []" and "RecordHash (last rs) = RecordHash (last ss)"
    and g: "\<forall>r\<in>set rs \<union> set ss. RecordHash r \<noteq> GenesisPrevHash"
    and c: "\<forall>r\<in>set rs. \<forall>s\<in>set ss. ComputeSHA256 (record_payload r) = ComputeSHA256 (record_payload s) \<longrightarrow>
      record_payload r = record_payload s"
  shows "map record_payload rs = map record_payload ss"
  using assms
proof (induction rs arbitrary: ss rule: rev_induct)
  case (snoc r rs)
  obtain ss' s where ss: "ss = ss' @ [s]" using snoc.prems(4) by (metis rev_exhaust)
  have vr: "VerifyIntegrity r" "PrevRecordHash r = (if rs = [] then GenesisPrevHash else RecordHash (last rs))"
    and vs: "VerifyIntegrity s" "PrevRecordHash s = (if ss' = [] then GenesisPrevHash else RecordHash (last ss'))"
    and ch: "verify_links GenesisPrevHash rs = None" "verify_links GenesisPrevHash ss' = None"
    using snoc.prems(1,2) ss by (auto simp: verify_links_append)
  have p: "record_payload r = record_payload s"
    using snoc.prems(5,7) vr(1) vs(1) ss by (simp add: VerifyIntegrity_iff)
  have prev: "PrevRecordHash r = PrevRecordHash s"
    using payload_prev(1) [OF p] verify_links_snoc_length [of rs r] verify_links_snoc_length [of ss' s] snoc.prems(1,2) ss by simp
  show ?case
  proof (cases "rs = [] \<or> ss' = []")
    case True
    then have "rs = [] \<and> ss' = []" using prev vr(2) vs(2) snoc.prems(6) ss last_in_set [of rs] last_in_set [of ss']
      by (metis UnI1 UnI2 in_set_conv_decomp set_append)
    then show ?thesis using p ss by simp
  next
    case False
    then have "map record_payload rs = map record_payload ss'"
      using snoc.IH [of ss'] ch prev vr(2) vs(2) snoc.prems(6,7) ss by simp
    then show ?thesis using p ss by simp
  qed
qed simp

lemma VerifyRunChain_True:
  assumes "VerifyRunChain run s = (True, h, None)" and "chain_records run s \<noteq> []"
  shows "verify_links GenesisPrevHash (chain_records run s) = None" "h = RecordHash (last (chain_records run s))"
  using assms by (auto simp: VerifyRunChain_def Let_def split: option.splits)


definition demo_record :: JournalRecord where
  "demo_record = Seal
     \<lparr>JrRunID = ''RUN-PFA'', JrEpoch = 7, BatchSeq = 1, JrDecisionID = ''DEC-PFA-7-0001'', PrevRecordHash = '''',
      RecordHash = '''', RuntimeVersion = '''', JrPolicyName = ''PFA'', PolicyParamHash = '''', InitialStateHash = '''',
      ResourceStateBytes = '''', InformationStateBytes = '''', BeliefStateBytes = '''', ActionHash = '''',
      ActionBytes = '''', JrMatchedCount = 1, EvaluatedArcsCount = 1, JrTotalNetContribution = 0,
      RealizedObservationsBytes = '''', NextStateHash = '''', NextResourceStateBytes = '''',
      NextInformationStateBytes = '''', NextBeliefStateBytes = ''''\<rparr>"

lemma demo_record_fields [simp]:
  "VerifyIntegrity demo_record" "PrevRecordHash demo_record = GenesisPrevHash" "JrRunID demo_record = ''RUN-PFA''"
  "JrDecisionID demo_record = ''DEC-PFA-7-0001''" "JrTotalNetContribution demo_record = 0"
  by (simp_all add: demo_record_def) (simp_all add: Seal_def Let_def)

definition demo_store :: MemoryStore where
  "demo_store = try_append demo_record NewMemoryStore"

lemma demo_store_chain:
  "chain_records ''RUN-PFA'' demo_store = [demo_record]"
  "VerifyRunChain ''RUN-PFA'' demo_store = (True, RecordHash demo_record, None)"
  by (simp_all add: demo_store_def try_append_def Append_def NewMemoryStore_def run_recs_def VerifyRunChain_def
      chain_records_def ListByRun_def Let_def)


text \<open>
  What the check does not see. No byte string of the record is bound by its hash, nor are the counts:
  a record whose state or action bytes, observations or counts are replaced still verifies. And the
  separator does not protect the bound names: moving it between two of them leaves the hash unchanged.
\<close>

theorem VerifyIntegrity_blind_spots:
  "VerifyIntegrity (r\<lparr>ResourceStateBytes := a, InformationStateBytes := b, BeliefStateBytes := c, ActionBytes := d,
      JrMatchedCount := m, EvaluatedArcsCount := n, RealizedObservationsBytes := e, NextResourceStateBytes := f,
      NextInformationStateBytes := g, NextBeliefStateBytes := h\<rparr>) = VerifyIntegrity r \<and>
   VerifyIntegrity (r\<lparr>JrPolicyName := x @ ''|'' @ y, PolicyParamHash := z\<rparr>) =
     VerifyIntegrity (r\<lparr>JrPolicyName := x, PolicyParamHash := y @ ''|'' @ z\<rparr>)"
  by (simp add: VerifyIntegrity_iff record_payload_def bound_fields_def)

section \<open>The file store\<close>

text \<open>
  The JSON codec of a record: \<open>json.Marshal\<close> on a record with a finite contribution, and
  \<open>json.Unmarshal\<close>. Marshalling \<open>NaN\<close> or an infinity is an error.
\<close>

record record_codec =
  rc_encode :: "JournalRecord \<Rightarrow> string"
  rc_decode :: "string \<Rightarrow> JournalRecord option"

definition marshal_record :: "record_codec \<Rightarrow> JournalRecord \<Rightarrow> string result" where
  "marshal_record C r =
     (if is_fin (JrTotalNetContribution r) then Inr (rc_encode C r) else Inl (ErrOther ''json: unsupported value''))"

text \<open>A \<open>FileStore\<close> is its memory store and the contents of its file, \<open>None\<close> when there is none.\<close>

record FileStore =
  fs_mem :: MemoryStore
  fs_file :: "string option"

text \<open>What the file system does in an append: the open fails, or \<open>n\<close> bytes are written and synced or not.\<close>

datatype write_outcome = OpenFails | Writes nat bool

definition newline :: char where
  "newline = CHR 0x0A"

definition FileStore_Append ::
  "record_codec \<Rightarrow> write_outcome \<Rightarrow> JournalRecord \<Rightarrow> FileStore \<Rightarrow> unit result \<times> FileStore" where
  "FileStore_Append C io rec fs =
     (case Append rec (fs_mem fs) of
        Inl e \<Rightarrow> (Inl e, fs)
      | Inr mem \<Rightarrow>
          let fs = fs\<lparr>fs_mem := mem\<rparr> in
          case io of
            OpenFails \<Rightarrow> (Inl (ErrOther ''failed opening file''), fs)
          | Writes n synced \<Rightarrow>
              let old = (case fs_file fs of None \<Rightarrow> '''' | Some t \<Rightarrow> t) in
              case marshal_record C rec of
                Inl e \<Rightarrow> (Inl e, fs\<lparr>fs_file := Some old\<rparr>)
              | Inr data \<Rightarrow>
                  let line = data @ [newline]; fs = fs\<lparr>fs_file := Some (old @ take n line)\<rparr> in
                  if n < length line then (Inl (ErrOther ''failed writing to file''), fs)
                  else if synced then (Inr (), fs) else (Inl (ErrOther ''sync''), fs))"

text \<open>\<open>bufio.ScanLines\<close>: lines without their end, a last line without one, a trailing return dropped.\<close>

fun scan_lines :: "string \<Rightarrow> string \<Rightarrow> string list" where
  "scan_lines cur [] = (if cur = [] then [] else [cur])"
| "scan_lines cur (c # cs) = (if c = newline then cur # scan_lines [] cs else scan_lines (cur @ [c]) cs)"

definition drop_cr :: "string \<Rightarrow> string" where
  "drop_cr s = (if s \<noteq> [] \<and> last s = CHR 0x0D then butlast s else s)"

definition MaxLine :: int where
  "MaxLine = 16 * 1024 * 1024"

fun load_lines :: "record_codec \<Rightarrow> string list \<Rightarrow> MemoryStore \<Rightarrow> MemoryStore result" where
  "load_lines C [] mem = Inr mem"
| "load_lines C (l # ls) mem =
     (if int (length l) \<ge> MaxLine then Inl (ErrOther ''bufio.Scanner: token too long'')
      else if drop_cr l = [] then load_lines C ls mem
      else case rc_decode C (drop_cr l) of
        None \<Rightarrow> Inl (ErrOther ''malformed journal JSON line'')
      | Some rec \<Rightarrow> (case Append rec mem of Inl e \<Rightarrow> Inl e | Inr mem' \<Rightarrow> load_lines C ls mem'))"

definition NewFileStore :: "record_codec \<Rightarrow> string option \<Rightarrow> FileStore result" where
  "NewFileStore C file =
     (case file of
        None \<Rightarrow> Inr \<lparr>fs_mem = NewMemoryStore, fs_file = None\<rparr>
      | Some text \<Rightarrow>
          (case load_lines C (scan_lines [] text) NewMemoryStore of
             Inl e \<Rightarrow> Inl e
           | Inr mem \<Rightarrow> Inr \<lparr>fs_mem = mem, fs_file = Some text\<rparr>))"

text \<open>The documented behaviour of the codec on a record: one line that decodes to the record.\<close>

definition codec_ok :: "record_codec \<Rightarrow> JournalRecord \<Rightarrow> bool" where
  "codec_ok C r \<longleftrightarrow> is_fin (JrTotalNetContribution r) \<and> rc_decode C (rc_encode C r) = Some r \<and>
     newline \<notin> set (rc_encode C r) \<and> rc_encode C r \<noteq> [] \<and> last (rc_encode C r) \<noteq> CHR 0x0D \<and>
     int (length (rc_encode C r)) < MaxLine"

lemma scan_lines_line: "newline \<notin> set l \<Longrightarrow> scan_lines cur (l @ newline # t) = (cur @ l) # scan_lines [] t"
  by (induction l arbitrary: cur) auto

text \<open>The file written by the encoded records \<open>rs\<close>.\<close>

definition file_of :: "record_codec \<Rightarrow> JournalRecord list \<Rightarrow> string" where
  "file_of C rs = concat (map (\<lambda>r. rc_encode C r @ [newline]) rs)"

lemma scan_file_of: "\<forall>r\<in>set rs. codec_ok C r \<Longrightarrow> scan_lines [] (file_of C rs) = map (rc_encode C) rs"
  by (induction rs) (simp_all add: file_of_def codec_ok_def scan_lines_line)

fun append_seq :: "JournalRecord list \<Rightarrow> MemoryStore \<Rightarrow> MemoryStore result" where
  "append_seq [] mem = Inr mem"
| "append_seq (r # rs) mem = (case Append r mem of Inl e \<Rightarrow> Inl e | Inr mem' \<Rightarrow> append_seq rs mem')"

lemma append_seq_append: "append_seq (rs @ qs) mem = (case append_seq rs mem of Inl e \<Rightarrow> Inl e | Inr m \<Rightarrow> append_seq qs m)"
  by (induction rs arbitrary: mem) (simp_all split: sum.split)

lemma load_file_of:
  "\<forall>r\<in>set rs. codec_ok C r \<Longrightarrow> load_lines C (map (rc_encode C) rs) mem = append_seq rs mem"
  by (induction rs arbitrary: mem) (simp_all add: codec_ok_def drop_cr_def split: sum.split)

text \<open>The appends that succeed, and the store after a run of appends whose writes all succeed.\<close>

fun fs_run :: "record_codec \<Rightarrow> JournalRecord list \<Rightarrow> FileStore \<Rightarrow> FileStore" where
  "fs_run C [] fs = fs"
| "fs_run C (r # rs) fs = fs_run C rs (snd (FileStore_Append C (Writes (length (rc_encode C r) + 1) True) r fs))"

lemma fs_run_inv:
  assumes "\<forall>r\<in>set rs. codec_ok C r"
    and "fs_file fs = None \<and> done = [] \<or> fs_file fs = Some (file_of C done)" and "\<forall>r\<in>set done. codec_ok C r"
    and "append_seq done NewMemoryStore = Inr (fs_mem fs)"
  shows "\<exists>accepted. (\<forall>r\<in>set accepted. codec_ok C r) \<and>
    (fs_file (fs_run C rs fs) = None \<and> accepted = [] \<or> fs_file (fs_run C rs fs) = Some (file_of C accepted)) \<and>
    append_seq accepted NewMemoryStore = Inr (fs_mem (fs_run C rs fs))"
  using assms
proof (induction rs arbitrary: fs "done")
  case Nil
  then show ?case by auto
next
  case (Cons r rs)
  let ?fs = "snd (FileStore_Append C (Writes (length (rc_encode C r) + 1) True) r fs)"
  have r: "codec_ok C r" and rs: "\<forall>r\<in>set rs. codec_ok C r" using Cons.prems(1) by auto
  show ?case
  proof (cases "Append r (fs_mem fs)")
    case (Inl e)
    then have "?fs = fs" by (simp add: FileStore_Append_def)
    then show ?thesis using Cons.IH [OF rs Cons.prems(2,3,4)] by simp
  next
    case (Inr mem)
    have old: "(case fs_file fs of None \<Rightarrow> '''' | Some t \<Rightarrow> t) = file_of C done" using Cons.prems(2) by (auto simp: file_of_def)
    have "fs_mem ?fs = mem" and "fs_file ?fs = Some (file_of C (done @ [r]))"
      using Inr r old by (simp_all add: FileStore_Append_def Let_def marshal_record_def codec_ok_def file_of_def)
    moreover have "append_seq (done @ [r]) NewMemoryStore = Inr mem"
      using Cons.prems(4) Inr by (simp add: append_seq_append)
    ultimately show ?thesis
      using Cons.IH [OF rs, of ?fs "done @ [r]"] Cons.prems(3) r by simp
  qed
qed

text \<open>
  Durability: after any appends whose writes succeed, reopening the file rebuilds the same store, given
  that the JSON codec reads back what it writes on one line.
\<close>

theorem FileStore_reload:
  fixes C rs
  defines "fs \<equiv> fs_run C rs \<lparr>fs_mem = NewMemoryStore, fs_file = None\<rparr>"
  assumes "\<forall>r\<in>set rs. codec_ok C r"
  shows "NewFileStore C (fs_file fs) = Inr fs"
proof -
  obtain accepted where a: "\<forall>r\<in>set accepted. codec_ok C r"
    "fs_file fs = None \<and> accepted = [] \<or> fs_file fs = Some (file_of C accepted)"
    "append_seq accepted NewMemoryStore = Inr (fs_mem fs)"
    using fs_run_inv [OF assms(2), of "\<lparr>fs_mem = NewMemoryStore, fs_file = None\<rparr>" "[]"] unfolding fs_def by auto
  have "load_lines C (map (rc_encode C) accepted) NewMemoryStore = Inr (fs_mem fs)"
    using load_file_of [OF a(1)] a(3) by simp
  then show ?thesis using a scan_file_of [OF a(1)] by (cases fs) (auto simp: NewFileStore_def)
qed

definition demo_codec :: record_codec where
  "demo_codec = \<lparr>rc_encode = \<lambda>r. ''{}'', rc_decode = \<lambda>s. Some demo_record\<rparr>"

lemma demo_codec_ok: "codec_ok demo_codec demo_record"
  by (simp add: codec_ok_def demo_codec_def newline_def MaxLine_def zero_fl_def)

lemma FileStore_reload_witness:
  "let fs = fs_run demo_codec [demo_record] \<lparr>fs_mem = NewMemoryStore, fs_file = None\<rparr> in
    NewFileStore demo_codec (fs_file fs) = Inr fs"
  unfolding Let_def by (rule FileStore_reload) (simp add: demo_codec_ok)

text \<open>
  Property C27. A failed write splits the store from its file. The record is in memory and is refused as a duplicate
  when it is offered again; the next record of the run is accepted and written, and then the file can no
  longer be opened.
\<close>

theorem FileStore_failed_write:
  fixes C r q
  defines "fs0 \<equiv> \<lparr>fs_mem = NewMemoryStore, fs_file = None\<rparr>"
  defines "fs1 \<equiv> snd (FileStore_Append C OpenFails r fs0)"
  defines "fs2 \<equiv> snd (FileStore_Append C (Writes (length (rc_encode C q) + 1) True) q fs1)"
  assumes "VerifyIntegrity r" and "PrevRecordHash r = GenesisPrevHash" and "VerifyIntegrity q"
    and "PrevRecordHash q = RecordHash r" and "JrRunID q = JrRunID r" and "JrDecisionID q \<noteq> JrDecisionID r"
    and "codec_ok C q"
  shows "fst (FileStore_Append C io r fs1) = Inl ErrDuplicateRecord \<and>
    fst (FileStore_Append C (Writes (length (rc_encode C q) + 1) True) q fs1) = Inr () \<and>
    ListByRun (JrRunID r) (fs_mem fs2) = [r, q] \<and>
    (NewFileStore C (fs_file fs2) = Inl ErrCorruptedChain \<or> RecordHash r = GenesisPrevHash)"
proof -
  have m1: "fs_mem fs1 = \<lparr>recordsMap = [JrDecisionID r \<mapsto> r], runMap = [JrRunID r \<mapsto> [r]]\<rparr>" "fs_file fs1 = None"
    using assms(4,5) by (simp_all add: fs1_def fs0_def FileStore_Append_def Append_def NewMemoryStore_def run_recs_def Let_def)
  have q: "FileStore_Append C (Writes (length (rc_encode C q) + 1) True) q fs1 =
     (Inr (), \<lparr>fs_mem = \<lparr>recordsMap = [JrDecisionID r \<mapsto> r, JrDecisionID q \<mapsto> q], runMap = [JrRunID r \<mapsto> [r, q]]\<rparr>,
        fs_file = Some (file_of C [q])\<rparr>)"
    using assms(6,7,8,9,10) m1
    by (cases fs1) (simp add: FileStore_Append_def Append_def run_recs_def Let_def marshal_record_def codec_ok_def file_of_def)
  have "Append q NewMemoryStore = Inl ErrCorruptedChain \<or> RecordHash r = GenesisPrevHash"
    using assms(6,7) by (simp add: Append_def NewMemoryStore_def run_recs_def)
  then have "load_lines C (scan_lines [] (file_of C [q])) NewMemoryStore = Inl ErrCorruptedChain \<or> RecordHash r = GenesisPrevHash"
    using scan_file_of [of "[q]" C] load_file_of [of "[q]" C NewMemoryStore] assms(10) by auto
  then have "NewFileStore C (fs_file fs2) = Inl ErrCorruptedChain \<or> RecordHash r = GenesisPrevHash"
    unfolding fs2_def q by (auto simp: NewFileStore_def)
  moreover have "fst (FileStore_Append C io r fs1) = Inl ErrDuplicateRecord"
    using assms(4) m1 by (simp add: FileStore_Append_def Append_def)
  moreover have "ListByRun (JrRunID r) (fs_mem fs2) = [r, q]" unfolding fs2_def q by (simp add: ListByRun_def)
  ultimately show ?thesis unfolding q by simp
qed

definition demo_record2 :: JournalRecord where
  "demo_record2 = Seal (demo_record\<lparr>PrevRecordHash := RecordHash demo_record, JrDecisionID := ''DEC-PFA-8-0002'', JrEpoch := 8\<rparr>)"

lemma demo_record2_fields [simp]:
  "VerifyIntegrity demo_record2" "PrevRecordHash demo_record2 = RecordHash demo_record"
  "JrRunID demo_record2 = ''RUN-PFA''" "JrDecisionID demo_record2 = ''DEC-PFA-8-0002''"
  using length_RecordHash [of demo_record]
  by (auto simp add: demo_record2_def) (auto simp add: Seal_def Let_def)

definition demo_codec2 :: record_codec where
  "demo_codec2 = \<lparr>rc_encode = \<lambda>r. ''{}'', rc_decode = \<lambda>s. Some demo_record2\<rparr>"

lemma demo_codec2_ok: "codec_ok demo_codec2 demo_record2"
proof -
  have "JrTotalNetContribution demo_record2 = 0" by (simp add: demo_record2_def) (simp add: Seal_def Let_def)
  then show ?thesis by (simp add: codec_ok_def demo_codec2_def newline_def MaxLine_def zero_fl_def)
qed

lemma FileStore_failed_write_witness:
  "let fs1 = snd (FileStore_Append demo_codec2 OpenFails demo_record \<lparr>fs_mem = NewMemoryStore, fs_file = None\<rparr>);
       fs2 = snd (FileStore_Append demo_codec2 (Writes (length (rc_encode demo_codec2 demo_record2) + 1) True) demo_record2 fs1) in
    fst (FileStore_Append demo_codec2 OpenFails demo_record fs1) = Inl ErrDuplicateRecord \<and>
    fst (FileStore_Append demo_codec2 (Writes (length (rc_encode demo_codec2 demo_record2) + 1) True) demo_record2 fs1) = Inr () \<and>
    ListByRun (JrRunID demo_record) (fs_mem fs2) = [demo_record, demo_record2] \<and>
    (NewFileStore demo_codec2 (fs_file fs2) = Inl ErrCorruptedChain \<or> RecordHash demo_record = GenesisPrevHash)"
  unfolding Let_def by (rule FileStore_failed_write) (simp_all add: demo_codec2_ok)

end
