(* ===== verification/Canonical.thy ===== *)
theory Canonical
  imports Journal_Store Belief Action "HOL-Library.Monad_Syntax"
begin

text \<open>
  \<open>pkg/journal/hasher.go\<close>: the canonical documents of states and actions, their hashes, and the decoders.
  The transfer structs and their JSON trees (field names, order and \<open>omitempty\<close> of the struct tags) are
  modelled; the text of a tree and of a float is a parameter. A number of a tree is its literal.
\<close>

section \<open>JSON trees\<close>

datatype json = JNull | JBool bool | JStr string | JNum string | JArr "json list" | JObj "(string \<times> json) list"

text \<open>Rendering and parsing of trees, and the shortest decimal form of a float and its reading.\<close>

record json_lib =
  js_text :: "json \<Rightarrow> string"
  js_parse :: "string \<Rightarrow> json option"
  js_float :: "f64 \<Rightarrow> string"
  js_unfloat :: "string \<Rightarrow> f64 option"

text \<open>A missing or null field leaves the zero value; of repeated keys the last one counts.\<close>

definition jfield :: "json \<Rightarrow> string \<Rightarrow> json option" where
  "jfield j k = (case j of
     JObj kvs \<Rightarrow> (case map_of (rev kvs) k of None \<Rightarrow> Some JNull | Some v \<Rightarrow> Some v)
   | JNull \<Rightarrow> Some JNull
   | _ \<Rightarrow> None)"

fun get_str :: "json \<Rightarrow> string option" where
  "get_str JNull = Some ''''"
| "get_str (JStr s) = Some s"
| "get_str _ = None"

fun get_int :: "json \<Rightarrow> int option" where
  "get_int JNull = Some 0"
| "get_int (JNum t) = (case scan_int t of Some (n, []) \<Rightarrow> Some n | _ \<Rightarrow> None)"
| "get_int _ = None"

fun get_flt :: "json_lib \<Rightarrow> json \<Rightarrow> f64 option" where
  "get_flt J JNull = Some 0"
| "get_flt J (JNum t) = js_unfloat J t"
| "get_flt J _ = None"

fun get_arr :: "(json \<Rightarrow> 'a option) \<Rightarrow> json \<Rightarrow> 'a list option" where
  "get_arr f JNull = Some []"
| "get_arr f (JArr js) = those (map f js)"
| "get_arr f _ = None"

fun get_map :: "(json \<Rightarrow> 'a option) \<Rightarrow> json \<Rightarrow> (string \<times> 'a) list option" where
  "get_map f JNull = Some []"
| "get_map f (JObj kvs) = those (map (\<lambda>(k, j). map_option (Pair k) (f j)) kvs)"
| "get_map f _ = None"

definition jint :: "int \<Rightarrow> json" where "jint n = JNum (show_int n)"
definition jflt :: "json_lib \<Rightarrow> f64 \<Rightarrow> json" where "jflt J x = JNum (js_float J x)"
definition jstrs :: "string list \<Rightarrow> json" where "jstrs ss = JArr (map JStr ss)"

text \<open>A field with \<open>omitempty\<close>.\<close>

definition omit_str :: "string \<Rightarrow> string \<Rightarrow> (string \<times> json) list" where
  "omit_str k s = (if s = '''' then [] else [(k, JStr s)])"

definition omit_strs :: "string \<Rightarrow> string list \<Rightarrow> (string \<times> json) list" where
  "omit_strs k ss = (if ss = [] then [] else [(k, jstrs ss)])"

section \<open>Canonical documents\<close>

record CanonicalDriverDTO =
  CD_ID :: string
  CD_Node :: string
  CD_Lat :: f64
  CD_Lon :: f64
  CD_HomeNode :: string
  CD_HomeLat :: f64
  CD_HomeLon :: f64
  CD_Available :: int
  CD_Drive :: f64
  CD_Duty :: f64
  CD_Assigned :: string
  CD_Equipment :: string
  CD_Endorsements :: "string list"

record CanonicalLoadDTO =
  CL_ID :: string
  CL_OriginNode :: string
  CL_OriginLat :: f64
  CL_OriginLon :: f64
  CL_DestNode :: string
  CL_DestLat :: f64
  CL_DestLon :: f64
  CL_PickupEarliest :: int
  CL_PickupLatest :: int
  CL_DeliveryEarliest :: int
  CL_DeliveryLatest :: int
  CL_Revenue :: f64
  CL_Equipment :: string
  CL_Endorsements :: "string list"

definition driver_dto :: "Driver \<Rightarrow> CanonicalDriverDTO" where
  "driver_dto d =
     \<lparr>CD_ID = DrvID d, CD_Node = NodeID (CurrentLocation d), CD_Lat = Lat (CurrentLocation d),
      CD_Lon = Lon (CurrentLocation d), CD_HomeNode = NodeID (HomeLocation d), CD_HomeLat = Lat (HomeLocation d),
      CD_HomeLon = Lon (HomeLocation d), CD_Available = AvailableEpoch d, CD_Drive = DriveHoursRemaining d,
      CD_Duty = DutyHoursRemaining d, CD_Assigned = AssignedLoadID d, CD_Equipment = EqType (DrvEquipment d),
      CD_Endorsements = sort_slice (<) (DrvEndorsements d)\<rparr>"

definition load_dto :: "Load \<Rightarrow> CanonicalLoadDTO" where
  "load_dto l =
     \<lparr>CL_ID = LdID l, CL_OriginNode = NodeID (Origin l), CL_OriginLat = Lat (Origin l), CL_OriginLon = Lon (Origin l),
      CL_DestNode = NodeID (Destination l), CL_DestLat = Lat (Destination l), CL_DestLon = Lon (Destination l),
      CL_PickupEarliest = PickupEarliestEpoch l, CL_PickupLatest = PickupLatestEpoch l,
      CL_DeliveryEarliest = DeliveryEarliestEpoch l, CL_DeliveryLatest = DeliveryLatestEpoch l,
      CL_Revenue = Revenue l, CL_Equipment = RequiredEquipment l,
      CL_Endorsements = sort_slice (<) (RequiredEndorsements l)\<rparr>"

definition driver_json :: "json_lib \<Rightarrow> CanonicalDriverDTO \<Rightarrow> json" where
  "driver_json J d = JObj (
     [(''id'', JStr (CD_ID d)), (''current_location_node'', JStr (CD_Node d)),
      (''current_lat'', jflt J (CD_Lat d)), (''current_lon'', jflt J (CD_Lon d)),
      (''home_location_node'', JStr (CD_HomeNode d)), (''home_lat'', jflt J (CD_HomeLat d)),
      (''home_lon'', jflt J (CD_HomeLon d)), (''available_epoch'', jint (CD_Available d)),
      (''drive_hours_remaining'', jflt J (CD_Drive d)), (''duty_hours_remaining'', jflt J (CD_Duty d))] @
     omit_str ''assigned_load_id'' (CD_Assigned d) @
     [(''equipment_type'', JStr (CD_Equipment d))] @
     omit_strs ''endorsements'' (CD_Endorsements d))"

definition load_json :: "json_lib \<Rightarrow> CanonicalLoadDTO \<Rightarrow> json" where
  "load_json J l = JObj (
     [(''id'', JStr (CL_ID l)), (''origin_node'', JStr (CL_OriginNode l)),
      (''origin_lat'', jflt J (CL_OriginLat l)), (''origin_lon'', jflt J (CL_OriginLon l)),
      (''destination_node'', JStr (CL_DestNode l)), (''dest_lat'', jflt J (CL_DestLat l)),
      (''dest_lon'', jflt J (CL_DestLon l)), (''pickup_earliest_epoch'', jint (CL_PickupEarliest l)),
      (''pickup_latest_epoch'', jint (CL_PickupLatest l)), (''delivery_earliest_epoch'', jint (CL_DeliveryEarliest l)),
      (''delivery_latest_epoch'', jint (CL_DeliveryLatest l)), (''revenue'', jflt J (CL_Revenue l)),
      (''required_equipment'', JStr (CL_Equipment l))] @
     omit_strs ''required_endorsements'' (CL_Endorsements l))"

definition driver_floats :: "CanonicalDriverDTO \<Rightarrow> f64 list" where
  "driver_floats d = [CD_Lat d, CD_Lon d, CD_HomeLat d, CD_HomeLon d, CD_Drive d, CD_Duty d]"

definition load_floats :: "CanonicalLoadDTO \<Rightarrow> f64 list" where
  "load_floats l = [CL_OriginLat l, CL_OriginLon l, CL_DestLat l, CL_DestLon l, CL_Revenue l]"

text \<open>\<open>json.Marshal\<close> of a document: an error if one of its floats is \<open>NaN\<close> or infinite.\<close>

definition marshal :: "json_lib \<Rightarrow> f64 list \<Rightarrow> json \<Rightarrow> (string \<times> string) result" where
  "marshal J floats j =
     (if \<forall>x\<in>set floats. is_fin x then Inr (js_text J j, ComputeSHA256 (js_text J j))
      else Inl (ErrOther ''json: unsupported value''))"

record CanonicalResourceDTO =
  CR_Drivers :: "CanonicalDriverDTO list"
  CR_Loads :: "CanonicalLoadDTO list"

definition resource_dto :: "ResourceState \<Rightarrow> CanonicalResourceDTO" where
  "resource_dto rs =
     \<lparr>CR_Drivers = sort_slice (\<lambda>a b. CD_ID a < CD_ID b) (map driver_dto (rs_drivers rs)),
      CR_Loads = sort_slice (\<lambda>a b. CL_ID a < CL_ID b) (map load_dto (rs_loads rs))\<rparr>"

definition resource_json :: "json_lib \<Rightarrow> CanonicalResourceDTO \<Rightarrow> json" where
  "resource_json J r = JObj [(''drivers'', JArr (map (driver_json J) (CR_Drivers r))),
     (''loads'', JArr (map (load_json J) (CR_Loads r)))]"

definition resource_floats :: "CanonicalResourceDTO \<Rightarrow> f64 list" where
  "resource_floats r = concat (map driver_floats (CR_Drivers r)) @ concat (map load_floats (CR_Loads r))"

definition EncodeCanonicalResource :: "json_lib \<Rightarrow> ResourceState option \<Rightarrow> (string \<times> string) result" where
  "EncodeCanonicalResource J res =
     (case res of
        None \<Rightarrow> Inl (ErrOther ''cannot encode nil resource state'')
      | Some rs \<Rightarrow> let dto = resource_dto rs in marshal J (resource_floats dto) (resource_json J dto))"

definition information_json :: "json_lib \<Rightarrow> InformationState \<Rightarrow> json" where
  "information_json J i = JObj [(''epoch'', jint (epoch i)), (''spot_rate_index'', jflt J (nationalSpotRateIndex i)),
     (''fuel_price_index'', jflt J (fuelPriceIndex i)), (''weather_alert_count'', jint (weatherAlertCount i))]"

definition EncodeCanonicalInformation :: "json_lib \<Rightarrow> InformationState option \<Rightarrow> (string \<times> string) result" where
  "EncodeCanonicalInformation J info =
     (case info of
        None \<Rightarrow> Inl (ErrOther ''cannot encode nil information state'')
      | Some i \<Rightarrow> marshal J [nationalSpotRateIndex i, fuelPriceIndex i] (information_json J i))"

text \<open>The probabilities by key, in the order of the keys, which is how \<open>json.Marshal\<close> writes a map.\<close>

definition belief_probs :: "53 Belief \<Rightarrow> (string \<times> f64) list" where
  "belief_probs b = map (\<lambda>k. (k, Probability b k)) (remdups (sort_slice (<) (bl_keys b)))"

definition belief_json :: "json_lib \<Rightarrow> 53 Belief \<Rightarrow> json" where
  "belief_json J b = JObj [(''competitor_dimension'', jint (CompetitorDimension (bl_scale b))),
     (''probabilities'', JObj (map (\<lambda>(k, p). (k, jflt J p)) (belief_probs b)))]"

definition EncodeCanonicalBelief :: "json_lib \<Rightarrow> 53 Belief option \<Rightarrow> (string \<times> string) result" where
  "EncodeCanonicalBelief J belief =
     (case belief of
        None \<Rightarrow> Inl (ErrOther ''cannot encode nil belief state'')
      | Some b \<Rightarrow> marshal J (map snd (belief_probs b)) (belief_json J b))"

definition match_json :: "DriverLoadMatch \<Rightarrow> json" where
  "match_json m = JObj [(''driver_id'', JStr (MDriverID m)), (''load_id'', JStr (MLoadID m))]"

definition bid_json :: "json_lib \<Rightarrow> SpotPriceBid \<Rightarrow> json" where
  "bid_json J b = JObj [(''load_id'', JStr (BidLoadID b)), (''bid_price'', jflt J (BidPrice b))]"

definition action_json :: "json_lib \<Rightarrow> Action \<Rightarrow> json" where
  "action_json J a = JObj [(''matches'', JArr (map match_json (sort_slice match_less (act_matches a)))),
     (''bids'', JArr (map (bid_json J) (sort_slice (\<lambda>a b. BidLoadID a < BidLoadID b) (act_bids a))))]"

definition EncodeCanonicalAction :: "json_lib \<Rightarrow> Action option \<Rightarrow> (string \<times> string) result" where
  "EncodeCanonicalAction J action =
     (case action of
        None \<Rightarrow> Inl (ErrOther ''cannot encode nil action'')
      | Some a \<Rightarrow> marshal J (map BidPrice (act_bids a)) (action_json J a))"

definition HashState :: "json_lib \<Rightarrow> 53 Belief State option \<Rightarrow> string result" where
  "HashState J state =
     (case state of
        None \<Rightarrow> Inl (ErrOther ''cannot hash nil state'')
      | Some s \<Rightarrow>
         (case EncodeCanonicalResource J (Some (st_resource s)) of Inl e \<Rightarrow> Inl e | Inr (_, rHash) \<Rightarrow>
         (case EncodeCanonicalInformation J (Some (st_information s)) of Inl e \<Rightarrow> Inl e | Inr (_, iHash) \<Rightarrow>
         (case EncodeCanonicalBelief J (Some (st_belief s)) of Inl e \<Rightarrow> Inl e | Inr (_, bHash) \<Rightarrow>
            Inr (ComputeSHA256 (rHash @ '':'' @ iHash @ '':'' @ bHash))))))"

text \<open>The parameters hashed are a policy's coefficients, \<open>None\<close> for the nil interface.\<close>

definition HashParameters :: "json_lib \<Rightarrow> f64 list option \<Rightarrow> string result" where
  "HashParameters J params =
     (case params of
        None \<Rightarrow> Inr (ComputeSHA256 ''nil'')
      | Some xs \<Rightarrow> (case marshal J xs (JArr (map (jflt J) xs)) of Inl e \<Rightarrow> Inl e | Inr (_, h) \<Rightarrow> Inr h))"

section \<open>Decoding\<close>

definition parse_driver :: "json_lib \<Rightarrow> json \<Rightarrow> CanonicalDriverDTO option" where
  "parse_driver J j = do {
     a \<leftarrow> jfield j ''id'' \<bind> get_str; b \<leftarrow> jfield j ''current_location_node'' \<bind> get_str;
     c \<leftarrow> jfield j ''current_lat'' \<bind> get_flt J; d \<leftarrow> jfield j ''current_lon'' \<bind> get_flt J;
     e \<leftarrow> jfield j ''home_location_node'' \<bind> get_str; f \<leftarrow> jfield j ''home_lat'' \<bind> get_flt J;
     g \<leftarrow> jfield j ''home_lon'' \<bind> get_flt J; h \<leftarrow> jfield j ''available_epoch'' \<bind> get_int;
     i \<leftarrow> jfield j ''drive_hours_remaining'' \<bind> get_flt J; k \<leftarrow> jfield j ''duty_hours_remaining'' \<bind> get_flt J;
     l \<leftarrow> jfield j ''assigned_load_id'' \<bind> get_str; m \<leftarrow> jfield j ''equipment_type'' \<bind> get_str;
     n \<leftarrow> jfield j ''endorsements'' \<bind> get_arr get_str;
     Some \<lparr>CD_ID = a, CD_Node = b, CD_Lat = c, CD_Lon = d, CD_HomeNode = e, CD_HomeLat = f, CD_HomeLon = g,
       CD_Available = h, CD_Drive = i, CD_Duty = k, CD_Assigned = l, CD_Equipment = m, CD_Endorsements = n\<rparr> }"

definition parse_load :: "json_lib \<Rightarrow> json \<Rightarrow> CanonicalLoadDTO option" where
  "parse_load J j = do {
     a \<leftarrow> jfield j ''id'' \<bind> get_str; b \<leftarrow> jfield j ''origin_node'' \<bind> get_str;
     c \<leftarrow> jfield j ''origin_lat'' \<bind> get_flt J; d \<leftarrow> jfield j ''origin_lon'' \<bind> get_flt J;
     e \<leftarrow> jfield j ''destination_node'' \<bind> get_str; f \<leftarrow> jfield j ''dest_lat'' \<bind> get_flt J;
     g \<leftarrow> jfield j ''dest_lon'' \<bind> get_flt J; h \<leftarrow> jfield j ''pickup_earliest_epoch'' \<bind> get_int;
     i \<leftarrow> jfield j ''pickup_latest_epoch'' \<bind> get_int; k \<leftarrow> jfield j ''delivery_earliest_epoch'' \<bind> get_int;
     l \<leftarrow> jfield j ''delivery_latest_epoch'' \<bind> get_int; m \<leftarrow> jfield j ''revenue'' \<bind> get_flt J;
     n \<leftarrow> jfield j ''required_equipment'' \<bind> get_str; p \<leftarrow> jfield j ''required_endorsements'' \<bind> get_arr get_str;
     Some \<lparr>CL_ID = a, CL_OriginNode = b, CL_OriginLat = c, CL_OriginLon = d, CL_DestNode = e, CL_DestLat = f,
       CL_DestLon = g, CL_PickupEarliest = h, CL_PickupLatest = i, CL_DeliveryEarliest = k, CL_DeliveryLatest = l,
       CL_Revenue = m, CL_Equipment = n, CL_Endorsements = p\<rparr> }"

definition parse_resource :: "json_lib \<Rightarrow> json \<Rightarrow> CanonicalResourceDTO option" where
  "parse_resource J j = do {
     ds \<leftarrow> jfield j ''drivers'' \<bind> get_arr (parse_driver J);
     ls \<leftarrow> jfield j ''loads'' \<bind> get_arr (parse_load J);
     Some \<lparr>CR_Drivers = ds, CR_Loads = ls\<rparr> }"

text \<open>The domain values rebuilt: fresh clocks, no policy and no equipment endorsements.\<close>

definition dto_driver :: "CanonicalDriverDTO \<Rightarrow> Driver" where
  "dto_driver d =
     \<lparr>DrvID = CD_ID d, CurrentLocation = \<lparr>NodeID = CD_Node d, Lat = CD_Lat d, Lon = CD_Lon d\<rparr>,
      HomeLocation = \<lparr>NodeID = CD_HomeNode d, Lat = CD_HomeLat d, Lon = CD_HomeLon d\<rparr>,
      AvailableEpoch = CD_Available d, DutyHoursRemaining = CD_Duty d, DriveHoursRemaining = CD_Drive d,
      AssignedLoadID = CD_Assigned d, DrvEquipment = \<lparr>EqType = CD_Equipment d, EqEndorsements = []\<rparr>,
      DrvEndorsements = CD_Endorsements d,
      Clocks = Some (NewDriverClocks USPolicySpecs (time_Unix (CD_Available d))), DrvPolicySpecs = NoPolicySpecs\<rparr>"

definition dto_load :: "CanonicalLoadDTO \<Rightarrow> Load" where
  "dto_load l =
     \<lparr>LdID = CL_ID l, Origin = \<lparr>NodeID = CL_OriginNode l, Lat = CL_OriginLat l, Lon = CL_OriginLon l\<rparr>,
      Destination = \<lparr>NodeID = CL_DestNode l, Lat = CL_DestLat l, Lon = CL_DestLon l\<rparr>,
      PickupEarliestEpoch = CL_PickupEarliest l, PickupLatestEpoch = CL_PickupLatest l,
      DeliveryEarliestEpoch = CL_DeliveryEarliest l, DeliveryLatestEpoch = CL_DeliveryLatest l,
      RequiredEquipment = CL_Equipment l, RequiredEndorsements = CL_Endorsements l, Revenue = CL_Revenue l,
      EstimatedTransitEpochs = 0\<rparr>"

definition unmarshal :: "json_lib \<Rightarrow> (json \<Rightarrow> 'a option) \<Rightarrow> string \<Rightarrow> 'a result" where
  "unmarshal J parse data =
     (if length data = 0 then Inl (ErrOther ''empty data'')
      else case js_parse J data \<bind> parse of None \<Rightarrow> Inl (ErrOther ''failed unmarshaling'') | Some dto \<Rightarrow> Inr dto)"

definition DecodeCanonicalResource :: "json_lib \<Rightarrow> string \<Rightarrow> ResourceState result" where
  "DecodeCanonicalResource J data =
     (case unmarshal J (parse_resource J) data of
        Inl e \<Rightarrow> Inl e
      | Inr dto \<Rightarrow> Inr (NewResourceState (map dto_driver (CR_Drivers dto)) (map dto_load (CR_Loads dto))))"

definition parse_information :: "json_lib \<Rightarrow> json \<Rightarrow> (int \<times> f64 \<times> f64 \<times> int) option" where
  "parse_information J j = do {
     e \<leftarrow> jfield j ''epoch'' \<bind> get_int; s \<leftarrow> jfield j ''spot_rate_index'' \<bind> get_flt J;
     f \<leftarrow> jfield j ''fuel_price_index'' \<bind> get_flt J; w \<leftarrow> jfield j ''weather_alert_count'' \<bind> get_int;
     Some (e, s, f, w) }"

definition DecodeCanonicalInformation :: "json_lib \<Rightarrow> string \<Rightarrow> InformationState result" where
  "DecodeCanonicalInformation J data =
     (case unmarshal J (parse_information J) data of
        Inl e \<Rightarrow> Inl e
      | Inr (ep, spot, fuel, weather) \<Rightarrow> NewInformationState ep fuel spot weather)"

definition parse_belief :: "json_lib \<Rightarrow> json \<Rightarrow> (string \<times> f64) list option" where
  "parse_belief J j = do {
     _ \<leftarrow> jfield j ''competitor_dimension'' \<bind> get_int;
     jfield j ''probabilities'' \<bind> get_map (get_flt J) }"

definition DecodeCanonicalBelief :: "json_lib \<Rightarrow> CompetitorScale \<Rightarrow> string \<Rightarrow> 53 Belief result" where
  "DecodeCanonicalBelief J scale data =
     (case unmarshal J (parse_belief J) data of
        Inl e \<Rightarrow> Inl e
      | Inr kvs \<Rightarrow>
          let keys = remdups (sort_slice (<) (map fst kvs)) in
          NewBelief scale keys (map (\<lambda>k. case map_of (rev kvs) k of None \<Rightarrow> 0 | Some p \<Rightarrow> p) keys))"

section \<open>Reading back what was written\<close>

text \<open>
  What is assumed of the library: a text parses to the tree it renders, and a float is read back from
  its shortest form. Integers are in the range of \<open>int64\<close>.
\<close>

definition text_ok :: "json_lib \<Rightarrow> json \<Rightarrow> bool" where
  "text_ok J j \<longleftrightarrow> js_parse J (js_text J j) = Some j \<and> js_text J j \<noteq> ''''"

definition floats_ok :: "json_lib \<Rightarrow> f64 list \<Rightarrow> bool" where
  "floats_ok J xs \<longleftrightarrow> (\<forall>x\<in>set xs. js_unfloat J (js_float J x) = Some x)"

definition int64 :: "int \<Rightarrow> bool" where
  "int64 n \<longleftrightarrow> - (2 ^ 63) \<le> n \<and> n < 2 ^ 63"

lemma get_int_jint [simp]: "int64 n \<Longrightarrow> get_int (jint n) = Some n"
  using scan_show_int [of n "[]"] by (simp add: jint_def int64_def)

lemma get_flt_jflt: "floats_ok J xs \<Longrightarrow> x \<in> set xs \<Longrightarrow> get_flt J (jflt J x) = Some x"
  by (simp add: jflt_def floats_ok_def)

lemma floats_ok_subset: "floats_ok J xs \<Longrightarrow> set ys \<subseteq> set xs \<Longrightarrow> floats_ok J ys"
  by (auto simp: floats_ok_def)

lemma those_map_Some: "(\<And>x. x \<in> set xs \<Longrightarrow> f (g x) = Some (h x)) \<Longrightarrow> those (map f (map g xs)) = Some (map h xs)"
  by (induction xs) simp_all

lemma get_arr_strs [simp]: "get_arr get_str (jstrs ss) = Some ss"
  using those_map_Some [of ss get_str JStr id] by (simp add: jstrs_def)

lemma floats_ok_cong: "js_float J = js_float K \<Longrightarrow> js_unfloat J = js_unfloat K \<Longrightarrow> floats_ok J = floats_ok K"
  by (simp add: floats_ok_def fun_eq_iff)

definition driver_ints :: "CanonicalDriverDTO \<Rightarrow> int list" where
  "driver_ints d = [CD_Available d]"

definition load_ints :: "CanonicalLoadDTO \<Rightarrow> int list" where
  "load_ints l = [CL_PickupEarliest l, CL_PickupLatest l, CL_DeliveryEarliest l, CL_DeliveryLatest l]"

lemma parse_driver_json:
  assumes "floats_ok J (driver_floats d)" and "int64 (CD_Available d)"
  shows "parse_driver J (driver_json J d) = Some d"
proof -
  have f: "get_flt J (jflt J x) = Some x" if "x \<in> set (driver_floats d)" for x using get_flt_jflt assms(1) that by blast
  have "jfield (driver_json J d) ''assigned_load_id'' \<bind> get_str = Some (CD_Assigned d)"
    "jfield (driver_json J d) ''endorsements'' \<bind> get_arr get_str = Some (CD_Endorsements d)"
    by (simp_all add: driver_json_def jfield_def omit_str_def omit_strs_def)
  then show ?thesis using f assms(2)
    by (simp add: parse_driver_def) (simp add: driver_json_def jfield_def omit_str_def omit_strs_def driver_floats_def)
qed

lemma parse_load_json:
  assumes "floats_ok J (load_floats l)" and "\<forall>n\<in>set (load_ints l). int64 n"
  shows "parse_load J (load_json J l) = Some l"
proof -
  have f: "get_flt J (jflt J x) = Some x" if "x \<in> set (load_floats l)" for x using get_flt_jflt assms(1) that by blast
  have "jfield (load_json J l) ''required_endorsements'' \<bind> get_arr get_str = Some (CL_Endorsements l)"
    by (simp add: load_json_def jfield_def omit_strs_def)
  then show ?thesis using f assms(2)
    by (simp add: parse_load_def) (simp add: load_json_def jfield_def omit_strs_def load_floats_def load_ints_def)
qed

definition resource_ints :: "CanonicalResourceDTO \<Rightarrow> int list" where
  "resource_ints r = concat (map driver_ints (CR_Drivers r)) @ concat (map load_ints (CR_Loads r))"

lemma parse_resource_json:
  assumes "floats_ok J (resource_floats r)" and "\<forall>n\<in>set (resource_ints r). int64 n"
  shows "parse_resource J (resource_json J r) = Some r"
proof -
  have "those (map (parse_driver J) (map (driver_json J) (CR_Drivers r))) = Some (map id (CR_Drivers r))"
    using assms(2) by (intro those_map_Some)
      (auto intro!: parse_driver_json floats_ok_subset [OF assms(1)] simp: resource_floats_def resource_ints_def driver_ints_def)
  moreover have "those (map (parse_load J) (map (load_json J) (CR_Loads r))) = Some (map id (CR_Loads r))"
    using assms(2) by (intro those_map_Some)
      (auto intro!: parse_load_json floats_ok_subset [OF assms(1)] simp: resource_floats_def resource_ints_def)
  ultimately show ?thesis by (simp add: parse_resource_def resource_json_def jfield_def)
qed

lemma parse_information_json:
  assumes "floats_ok J [nationalSpotRateIndex i, fuelPriceIndex i]" and "int64 (epoch i)" and "int64 (weatherAlertCount i)"
  shows "parse_information J (information_json J i) =
    Some (epoch i, nationalSpotRateIndex i, fuelPriceIndex i, weatherAlertCount i)"
  using get_flt_jflt [OF assms(1)] assms(2,3) by (simp add: parse_information_def information_json_def jfield_def)

lemma parse_belief_json:
  assumes "floats_ok J (map snd (belief_probs b))" and "int64 (CompetitorDimension (bl_scale b))"
  shows "parse_belief J (belief_json J b) = Some (belief_probs b)"
    "jfield (belief_json J b) ''competitor_dimension'' \<bind> get_int = Some (CompetitorDimension (bl_scale b))"
proof -
  have "those (map (\<lambda>(k, j). map_option (Pair k) (get_flt J j)) (map (\<lambda>(k, p). (k, jflt J p)) (belief_probs b))) =
      Some (map id (belief_probs b))"
    using get_flt_jflt [OF assms(1)] by (intro those_map_Some) force
  then show "parse_belief J (belief_json J b) = Some (belief_probs b)"
    using assms(2) by (simp add: parse_belief_def belief_json_def jfield_def)
  show "jfield (belief_json J b) ''competitor_dimension'' \<bind> get_int = Some (CompetitorDimension (bl_scale b))"
    using assms(2) by (simp add: belief_json_def jfield_def)
qed

text \<open>What a decoded driver keeps of the encoded one.\<close>

definition forget_driver :: "Driver \<Rightarrow> Driver" where
  "forget_driver d = d\<lparr>DrvEquipment := \<lparr>EqType = EqType (DrvEquipment d), EqEndorsements = []\<rparr>,
     DrvEndorsements := sort_slice (<) (DrvEndorsements d),
     Clocks := Some (NewDriverClocks USPolicySpecs (time_Unix (AvailableEpoch d))), DrvPolicySpecs := NoPolicySpecs\<rparr>"

definition forget_load :: "Load \<Rightarrow> Load" where
  "forget_load l = l\<lparr>RequiredEndorsements := sort_slice (<) (RequiredEndorsements l), EstimatedTransitEpochs := 0\<rparr>"

lemma dto_driver_dto [simp]: "dto_driver (driver_dto d) = forget_driver d"
  by (simp add: dto_driver_def driver_dto_def forget_driver_def)

lemma dto_load_dto [simp]: "dto_load (load_dto l) = forget_load l"
  by (simp add: dto_load_def load_dto_def forget_load_def)

lemma sort_strings_idem [simp]: "sort_slice (<) (sort_slice (<) (xs :: string list)) = sort_slice (<) xs"
proof (rule by_key.sort_slice_sorted_id [where f = id, simplified])
  show "sorted_wrt (\<lambda>a b. \<not> b < a) (sort_slice (<) xs)" using by_key.sorted_sort_slice [of xs id] by simp
qed auto

lemma driver_dto_forget [simp]: "driver_dto (forget_driver d) = driver_dto d"
  by (simp add: driver_dto_def forget_driver_def)

lemma load_dto_forget [simp]: "load_dto (forget_load l) = load_dto l"
  by (simp add: load_dto_def forget_load_def)

lemma resource_dto_sorted:
  assumes "rs_wf rs" and "distinct (map DrvID (rs_drivers rs))" and "distinct (map LdID (rs_loads rs))"
  shows "resource_dto rs = \<lparr>CR_Drivers = map driver_dto (rs_drivers rs), CR_Loads = map load_dto (rs_loads rs)\<rparr>"
proof -
  have k: "CD_ID \<circ> driver_dto = DrvID" "CL_ID \<circ> load_dto = LdID" by (auto simp: driver_dto_def load_dto_def)
  have "sorted_wrt (<) (map CD_ID (map driver_dto (rs_drivers rs)))" "sorted_wrt (<) (map CL_ID (map load_dto (rs_loads rs)))"
    using assms unfolding rs_wf_def by (simp_all add: k strict_sorted_iff)
  then show ?thesis
    using sort_slice_key_id [of CD_ID "map driver_dto (rs_drivers rs)"] sort_slice_key_id [of CL_ID "map load_dto (rs_loads rs)"]
    by (simp add: resource_dto_def)
qed

lemma marshal_Inr: "marshal J xs j = Inr (data, h) \<longleftrightarrow> (\<forall>x\<in>set xs. is_fin x) \<and> data = js_text J j \<and> h = ComputeSHA256 (js_text J j)"
  by (auto simp: marshal_def)

lemma unmarshal_text: "text_ok J j \<Longrightarrow> unmarshal J p (js_text J j) = (case p j of None \<Rightarrow> Inl (ErrOther ''failed unmarshaling'') | Some x \<Rightarrow> Inr x)"
  by (simp add: unmarshal_def text_ok_def)

text \<open>
  Decoding a canonical document returns the drivers and loads it was made of, less what the document
  does not hold: the clocks are fresh, the policy is gone, the equipment has no endorsements, the transit
  time is zero. Encoding the decoded state gives the same bytes and the same hash.
\<close>

lemma DecodeCanonicalResource_roundtrip:
  assumes "EncodeCanonicalResource J (Some rs) = Inr (data, h)"
    and "rs_wf rs" and "distinct (map DrvID (rs_drivers rs))" and "distinct (map LdID (rs_loads rs))"
    and "text_ok J (resource_json J (resource_dto rs))" and "floats_ok J (resource_floats (resource_dto rs))"
    and "\<forall>n\<in>set (resource_ints (resource_dto rs)). int64 n"
  shows "\<exists>rs'. DecodeCanonicalResource J data = Inr rs' \<and> rs_drivers rs' = map forget_driver (rs_drivers rs) \<and>
    rs_loads rs' = map forget_load (rs_loads rs) \<and> EncodeCanonicalResource J (Some rs') = Inr (data, h)"
proof -
  let ?rs' = "NewResourceState (map forget_driver (rs_drivers rs)) (map forget_load (rs_loads rs))"
  have data: "data = js_text J (resource_json J (resource_dto rs))"
    using assms(1) by (simp add: EncodeCanonicalResource_def Let_def marshal_Inr)
  note dto = resource_dto_sorted [OF assms(2-4)]
  have d: "DecodeCanonicalResource J data = Inr ?rs'"
    unfolding DecodeCanonicalResource_def data unmarshal_text [OF assms(5)] parse_resource_json [OF assms(6,7)]
    by (simp add: dto comp_def)
  have ids: "map DrvID (map forget_driver (rs_drivers rs)) = map DrvID (rs_drivers rs)"
    "map LdID (map forget_load (rs_loads rs)) = map LdID (rs_loads rs)" by (simp_all add: forget_driver_def forget_load_def)
  have s: "sorted_wrt (<) (map DrvID (map forget_driver (rs_drivers rs)))" "sorted_wrt (<) (map LdID (map forget_load (rs_loads rs)))"
    unfolding ids using assms(2-4) by (simp_all add: rs_wf_def strict_sorted_iff)
  have r: "rs_drivers ?rs' = map forget_driver (rs_drivers rs)" "rs_loads ?rs' = map forget_load (rs_loads rs)"
    using sort_slice_key_id [OF s(1)] sort_slice_key_id [OF s(2)] by (simp_all add: NewResourceState_def Let_def)
  have "resource_dto ?rs' = resource_dto rs"
    unfolding dto by (subst resource_dto_sorted) (simp_all only: NewResourceState_wf r ids assms(3,4), simp add: comp_def)
  then have "EncodeCanonicalResource J (Some ?rs') = Inr (data, h)" using assms(1) by (simp add: EncodeCanonicalResource_def)
  with d r show ?thesis by blast
qed

text \<open>
  The hash of a state does not look at the hours-of-service clocks of its drivers, at their policy and
  equipment endorsements, nor at the transit times of its loads.
\<close>

theorem HashState_ignores:
  "HashState J (Some (s\<lparr>st_resource := (st_resource s)\<lparr>
      rs_drivers := map (\<lambda>d. d\<lparr>Clocks := c d, DrvPolicySpecs := p d, DrvEquipment := (DrvEquipment d)\<lparr>EqEndorsements := e d\<rparr>\<rparr>)
        (rs_drivers (st_resource s)),
      rs_loads := map (\<lambda>l. l\<lparr>EstimatedTransitEpochs := t l\<rparr>) (rs_loads (st_resource s))\<rparr>\<rparr>)) =
   HashState J (Some s)"
  (is "HashState J (Some ?s') = _")
proof -
  have "driver_dto (d\<lparr>Clocks := c d, DrvPolicySpecs := p d, DrvEquipment := (DrvEquipment d)\<lparr>EqEndorsements := e d\<rparr>\<rparr>) = driver_dto d" for d
    by (simp add: driver_dto_def)
  moreover have "load_dto (l\<lparr>EstimatedTransitEpochs := t l\<rparr>) = load_dto l" for l by (simp add: load_dto_def)
  ultimately have "EncodeCanonicalResource J (Some (st_resource ?s')) = EncodeCanonicalResource J (Some (st_resource s))"
    by (simp add: EncodeCanonicalResource_def resource_dto_def comp_def)
  moreover have "st_information ?s' = st_information s" "st_belief ?s' = st_belief s" by simp_all
  ultimately show ?thesis by (simp only: HashState_def option.case)
qed

section \<open>What the hash of a state binds\<close>

definition state_docs :: "json_lib \<Rightarrow> 53 Belief State \<Rightarrow> json list" where
  "state_docs J s = [resource_json J (resource_dto (st_resource s)), information_json J (st_information s), belief_json J (st_belief s)]"

definition state_floats :: "53 Belief State \<Rightarrow> f64 list" where
  "state_floats s = resource_floats (resource_dto (st_resource s)) @
     [nationalSpotRateIndex (st_information s), fuelPriceIndex (st_information s)] @ map snd (belief_probs (st_belief s))"

definition state_ints :: "53 Belief State \<Rightarrow> int list" where
  "state_ints s = resource_ints (resource_dto (st_resource s)) @
     [epoch (st_information s), weatherAlertCount (st_information s), CompetitorDimension (bl_scale (st_belief s))]"

text \<open>The strings hashed for a state: its three documents and their joined digests.\<close>

definition state_texts :: "json_lib \<Rightarrow> 53 Belief State \<Rightarrow> string list" where
  "state_texts J s = map (js_text J) (state_docs J s) @
     [ComputeSHA256 (js_text J (state_docs J s ! 0)) @ '':'' @ ComputeSHA256 (js_text J (state_docs J s ! 1)) @ '':'' @
      ComputeSHA256 (js_text J (state_docs J s ! 2))]"

definition state_codec_ok :: "json_lib \<Rightarrow> 53 Belief State \<Rightarrow> bool" where
  "state_codec_ok J s \<longleftrightarrow> (\<forall>j\<in>set (state_docs J s). text_ok J j) \<and> floats_ok J (state_floats s) \<and>
     (\<forall>n\<in>set (state_ints s). int64 n)"

lemma HashState_Inr:
  "HashState J (Some s) = Inr h \<longleftrightarrow> (\<forall>x\<in>set (state_floats s). is_fin x) \<and> h = ComputeSHA256 (state_texts J s ! 3)"
  by (auto simp: HashState_def EncodeCanonicalResource_def EncodeCanonicalInformation_def EncodeCanonicalBelief_def
      marshal_def Let_def state_texts_def state_docs_def state_floats_def)

text \<open>
  Property C8. Two states with the same hash have the same canonical content: drivers, loads, information and
  beliefs agree in everything the documents hold, unless two of the eight strings hashed for them
  exhibit a collision of SHA-256.
\<close>

theorem HashState_binds:
  assumes "HashState J (Some s) = Inr h" and "HashState J (Some s') = Inr h"
    and "state_codec_ok J s" and "state_codec_ok J s'"
  shows "resource_dto (st_resource s) = resource_dto (st_resource s') \<and> st_information s = st_information s' \<and>
      belief_probs (st_belief s) = belief_probs (st_belief s') \<and>
      CompetitorDimension (bl_scale (st_belief s)) = CompetitorDimension (bl_scale (st_belief s')) \<or>
    (\<exists>i<4. state_texts J s ! i \<noteq> state_texts J s' ! i \<and>
      ComputeSHA256 (state_texts J s ! i) = ComputeSHA256 (state_texts J s' ! i))"
    (is "?same \<or> ?collision")
proof (cases ?collision)
  case False
  let ?t = "state_texts J s" and ?t' = "state_texts J s'"
  have nc: "?t ! i = ?t' ! i" if "i < 4" "ComputeSHA256 (?t ! i) = ComputeSHA256 (?t' ! i)" for i
    using False that by blast
  have "?t ! 3 = ?t' ! 3" using nc [of 3] assms(1,2) by (simp add: HashState_Inr)
  then have "ComputeSHA256 (?t ! i) = ComputeSHA256 (?t' ! i)" if "i < 3" for i
    using that by (auto simp: state_texts_def state_docs_def less_Suc_eq numeral_3_eq_3)
  then have t: "?t ! i = ?t' ! i" if "i < 3" for i using nc [of i] that by simp
  have eq: "state_docs J s ! i = state_docs J s' ! i" if i: "i < 3" for i
  proof -
    have l: "length (state_docs J s) = 3" "length (state_docs J s') = 3" by (simp_all add: state_docs_def)
    then have "js_text J (state_docs J s ! i) = js_text J (state_docs J s' ! i)"
      using t [OF i] i by (simp add: state_texts_def nth_append)
    moreover have "text_ok J (state_docs J s ! i)" "text_ok J (state_docs J s' ! i)"
      using assms(3,4) i l by (simp_all add: state_codec_ok_def)
    ultimately show ?thesis by (metis text_ok_def option.inject)
  qed
  have ok: "floats_ok J (resource_floats (resource_dto (st_resource u)))" "\<forall>n\<in>set (resource_ints (resource_dto (st_resource u))). int64 n"
    "floats_ok J [nationalSpotRateIndex (st_information u), fuelPriceIndex (st_information u)]"
    "int64 (epoch (st_information u))" "int64 (weatherAlertCount (st_information u))"
    "floats_ok J (map snd (belief_probs (st_belief u)))" "int64 (CompetitorDimension (bl_scale (st_belief u)))"
    if "state_codec_ok J u" for u
    using that unfolding state_codec_ok_def state_floats_def state_ints_def floats_ok_def by simp_all
  have "Some (resource_dto (st_resource s)) = Some (resource_dto (st_resource s'))"
    using parse_resource_json [OF ok(1,2)] assms(3,4) eq [of 0] by (metis state_docs_def nth_Cons_0 zero_less_numeral)
  moreover have "st_information s = st_information s'"
    using parse_information_json [OF ok(3,4,5) [OF assms(3)]] parse_information_json [OF ok(3,4,5) [OF assms(4)]] eq [of 1]
    by (simp add: state_docs_def)
  moreover have "belief_probs (st_belief s) = belief_probs (st_belief s') \<and>
      CompetitorDimension (bl_scale (st_belief s)) = CompetitorDimension (bl_scale (st_belief s'))"
    using parse_belief_json [OF ok(6,7) [OF assms(3)]] parse_belief_json [OF ok(6,7) [OF assms(4)]] eq [of 2]
    by (simp add: state_docs_def)
  ultimately show ?thesis by blast
qed blast

section \<open>A journalled state reloads\<close>

lemma DecodeCanonicalInformation_roundtrip:
  assumes "info_wf i" and "text_ok J (information_json J i)" and "floats_ok J [nationalSpotRateIndex i, fuelPriceIndex i]"
    and "int64 (epoch i)" and "int64 (weatherAlertCount i)"
  shows "DecodeCanonicalInformation J (js_text J (information_json J i)) = Inr i"
  using assms(1) unfolding DecodeCanonicalInformation_def unmarshal_text [OF assms(2)] parse_information_json [OF assms(3-5)]
  by (auto simp: NewInformationState_def info_wf_def less_le_not_le split: if_splits)
     (cases "fuelPriceIndex i"; cases "nationalSpotRateIndex i"; simp add: zero_fl_def)+

lemma belief_probs_wf:
  assumes "belief_wf b"
  shows "belief_probs b = zip (bl_keys b) (bl_probs b)"
proof -
  have s: "sorted_wrt (<) (bl_keys b)" and l: "length (bl_probs b) = length (bl_keys b)" using assms by (auto simp: belief_wf_def)
  have k: "remdups (sort_slice (<) (bl_keys b)) = bl_keys b"
    using sort_slice_key_id [of id "bl_keys b"] s by (simp add: strict_sorted_iff)
  have "Probability b (bl_keys b ! i) = bl_probs b ! i" if "i < length (bl_keys b)" for i
    using wf_lookup [OF assms, THEN iffD2, of i "bl_keys b ! i"] that by (simp add: Probability_def)
  then show ?thesis unfolding belief_probs_def k using l by (auto intro!: nth_equalityI)
qed

lemma DecodeCanonicalBelief_roundtrip:
  assumes wf: "belief_wf b" and v: "Belief_Validate b = Inr ()" and "text_ok J (belief_json J b)"
    and "floats_ok J (map snd (belief_probs b))" and "int64 (CompetitorDimension (bl_scale b))"
  shows "DecodeCanonicalBelief J (bl_scale b) (js_text J (belief_json J b)) = Inr b"
proof -
  have s: "sorted_wrt (<) (bl_keys b)" "distinct (bl_keys b)" and l: "length (bl_probs b) = length (bl_keys b)"
    and ne: "bl_keys b \<noteq> []" and ix: "bl_index b = index_ids 0 (bl_keys b) Map.empty"
    using wf by (auto simp: belief_wf_def strict_sorted_iff)
  note bp = belief_probs_wf [OF wf]
  have k: "remdups (sort_slice (<) (bl_keys b)) = bl_keys b"
    using sort_slice_key_id [of id "bl_keys b"] s by simp
  have m: "map (\<lambda>k. case map_of (rev (zip (bl_keys b) (bl_probs b))) k of None \<Rightarrow> 0 | Some p \<Rightarrow> p) (bl_keys b) = bl_probs b"
  proof (rule nth_equalityI)
    fix i assume "i < length (map (\<lambda>k. case map_of (rev (zip (bl_keys b) (bl_probs b))) k of None \<Rightarrow> 0 | Some p \<Rightarrow> p) (bl_keys b))"
    then have i: "i < length (bl_keys b)" by simp
    have "map_of (rev (zip (bl_keys b) (bl_probs b))) (bl_keys b ! i) = Some (bl_probs b ! i)"
      using i l s(2) by (intro map_of_is_SomeI) (auto simp: rev_map [symmetric] set_zip)
    then show "map (\<lambda>k. case map_of (rev (zip (bl_keys b) (bl_probs b))) k of None \<Rightarrow> 0 | Some p \<Rightarrow> p) (bl_keys b) ! i = bl_probs b ! i"
      using i by simp
  qed (simp add: l)
  have srt: "sort_slice (\<lambda>a b. fst a < fst b) (zip (bl_keys b) (bl_probs b)) = zip (bl_keys b) (bl_probs b)"
    using s(1) l by (intro sort_slice_key_id) simp
  obtain c where c: "NewBelief (bl_scale b) (bl_keys b) (bl_probs b) = Inr c"
    using NewBelief_ok [of "bl_keys b" "bl_probs b"] l v s(2) unfolding Belief_Validate_def by fastforce
  have "c = b" using NewBelief_cases [OF c, unfolded srt] l ix by (cases b) simp
  then have "NewBelief (bl_scale b) (bl_keys b) (bl_probs b) = Inr b" using c by simp
  then show ?thesis
    unfolding DecodeCanonicalBelief_def unmarshal_text [OF assms(3)] parse_belief_json(1) [OF assms(4,5)]
    by (simp add: bp l k m Let_def)
qed

text \<open>
  Property C7. A journalled state reloads: the three documents of a hashed state decode to the same information and
  belief and to the same drivers and loads less what the documents do not hold, and the state rebuilt
  from them has the hash of the original.
\<close>

theorem journalled_state_reloads:
  assumes "HashState J (Some s) = Inr h" and ok: "state_codec_ok J s"
    and "rs_wf (st_resource s)" and "distinct (map DrvID (rs_drivers (st_resource s)))"
    and "distinct (map LdID (rs_loads (st_resource s)))" and "info_wf (st_information s)"
    and "belief_wf (st_belief s)" and "Belief_Validate (st_belief s) = Inr ()"
  shows "\<exists>rBytes rHash iBytes iHash bBytes bHash rs'.
    EncodeCanonicalResource J (Some (st_resource s)) = Inr (rBytes, rHash) \<and>
    EncodeCanonicalInformation J (Some (st_information s)) = Inr (iBytes, iHash) \<and>
    EncodeCanonicalBelief J (Some (st_belief s)) = Inr (bBytes, bHash) \<and>
    DecodeCanonicalResource J rBytes = Inr rs' \<and> DecodeCanonicalInformation J iBytes = Inr (st_information s) \<and>
    DecodeCanonicalBelief J (bl_scale (st_belief s)) bBytes = Inr (st_belief s) \<and>
    rs_drivers rs' = map forget_driver (rs_drivers (st_resource s)) \<and>
    rs_loads rs' = map forget_load (rs_loads (st_resource s)) \<and>
    HashState J (Some (s\<lparr>st_resource := rs'\<rparr>)) = Inr h"
proof -
  let ?r = "resource_json J (resource_dto (st_resource s))" and ?i = "information_json J (st_information s)"
    and ?b = "belief_json J (st_belief s)"
  have fin: "\<forall>x\<in>set (state_floats s). is_fin x" using assms(1) by (simp add: HashState_Inr)
  have t: "text_ok J ?r" "text_ok J ?i" "text_ok J ?b" using ok by (simp_all add: state_codec_ok_def state_docs_def)
  have f: "floats_ok J (state_floats s)" and n: "\<forall>n\<in>set (state_ints s). int64 n" using ok by (simp_all add: state_codec_ok_def)
  have er: "EncodeCanonicalResource J (Some (st_resource s)) = Inr (js_text J ?r, ComputeSHA256 (js_text J ?r))"
    and ei: "EncodeCanonicalInformation J (Some (st_information s)) = Inr (js_text J ?i, ComputeSHA256 (js_text J ?i))"
    and eb: "EncodeCanonicalBelief J (Some (st_belief s)) = Inr (js_text J ?b, ComputeSHA256 (js_text J ?b))"
    using fin by (simp_all add: EncodeCanonicalResource_def EncodeCanonicalInformation_def EncodeCanonicalBelief_def
        marshal_def Let_def state_floats_def)
  obtain rs' where rs': "DecodeCanonicalResource J (js_text J ?r) = Inr rs'"
    "rs_drivers rs' = map forget_driver (rs_drivers (st_resource s))" "rs_loads rs' = map forget_load (rs_loads (st_resource s))"
    "EncodeCanonicalResource J (Some rs') = Inr (js_text J ?r, ComputeSHA256 (js_text J ?r))"
    using DecodeCanonicalResource_roundtrip [OF er assms(3-5) t(1)] f n
    by (metis floats_ok_subset state_floats_def state_ints_def set_append Un_upper1 UnI1)
  have i: "DecodeCanonicalInformation J (js_text J ?i) = Inr (st_information s)"
    using DecodeCanonicalInformation_roundtrip [OF assms(6) t(2) floats_ok_subset [OF f]] n by (simp add: state_floats_def state_ints_def)
  have b: "DecodeCanonicalBelief J (bl_scale (st_belief s)) (js_text J ?b) = Inr (st_belief s)"
    using DecodeCanonicalBelief_roundtrip [OF assms(7,8) t(3) floats_ok_subset [OF f]] n
    by (simp add: state_floats_def state_ints_def subset_insertI2 le_supI2)
  have u: "st_resource (s\<lparr>st_resource := rs'\<rparr>) = rs'" "st_information (s\<lparr>st_resource := rs'\<rparr>) = st_information s"
    "st_belief (s\<lparr>st_resource := rs'\<rparr>) = st_belief s" by simp_all
  have "HashState J (Some (s\<lparr>st_resource := rs'\<rparr>)) = HashState J (Some s)"
    unfolding HashState_def option.case u rs'(4) er ..
  with assms(1) er ei eb rs'(1-3) i b show ?thesis by (metis (no_types, lifting))
qed

text \<open>A library and a state for it: the floats of the state are zeros and ones, the documents are told apart by their first key.\<close>

definition canon_loc :: Location where
  "canon_loc = \<lparr>NodeID = ''A'', Lat = 1, Lon = 0\<rparr>"

definition canon_state :: "53 Belief State" where
  "canon_state = \<lparr>
     st_resource = NewResourceState
       [(demo_driver ''D1'' canon_loc)\<lparr>DriveHoursRemaining := 1, DutyHoursRemaining := 1,
          DrvEquipment := \<lparr>EqType = EquipDryVan, EqEndorsements = [''HAZMAT'']\<rparr>\<rparr>]
       [(demo_load ''L1'' canon_loc canon_loc)\<lparr>Revenue := 1\<rparr>],
     st_information = \<lparr>epoch = 7, fuelPriceIndex = 1, nationalSpotRateIndex = 1, weatherAlertCount = 0\<rparr>,
     st_belief = NewMonopolisticBelief\<rparr>"

definition canon_lib0 :: json_lib where
  "canon_lib0 = \<lparr>js_text = \<lambda>j. (case j of JObj ((k, _) # _) \<Rightarrow> k | _ \<Rightarrow> ''x''), js_parse = \<lambda>t. None,
     js_float = \<lambda>x. (if x = 0 then ''0'' else ''1''), js_unfloat = \<lambda>t. Some (if t = ''0'' then 0 else 1)\<rparr>"

definition canon_lib :: json_lib where
  "canon_lib = canon_lib0\<lparr>js_parse :=
     [''drivers'' \<mapsto> resource_json canon_lib0 (resource_dto (st_resource canon_state)),
      ''epoch'' \<mapsto> information_json canon_lib0 (st_information canon_state),
      ''competitor_dimension'' \<mapsto> belief_json canon_lib0 (st_belief canon_state)]\<rparr>"

lemma canon_lib_docs [simp]:
  "jflt canon_lib = jflt canon_lib0" "js_float canon_lib = js_float canon_lib0"
  "resource_json canon_lib = resource_json canon_lib0" "information_json canon_lib = information_json canon_lib0"
  "belief_json canon_lib = belief_json canon_lib0"
proof -
  show j: "jflt canon_lib = jflt canon_lib0" by (simp add: fun_eq_iff jflt_def canon_lib_def)
  have "driver_json canon_lib = driver_json canon_lib0" "load_json canon_lib = load_json canon_lib0"
    by (simp_all add: fun_eq_iff driver_json_def load_json_def j)
  then show "resource_json canon_lib = resource_json canon_lib0" "information_json canon_lib = information_json canon_lib0"
    "belief_json canon_lib = belief_json canon_lib0"
    by (simp_all add: fun_eq_iff resource_json_def information_json_def belief_json_def j)
qed (simp add: canon_lib_def)

lemma canon_floats: "set (state_floats canon_state) \<subseteq> {0, 1}"
  by code_simp

lemma canon_codec_ok: "state_codec_ok canon_lib canon_state"
proof -
  have "\<forall>j\<in>set (state_docs canon_lib canon_state). text_ok canon_lib j"
    by (simp add: state_docs_def text_ok_def)
       (simp add: canon_lib_def canon_lib0_def resource_json_def information_json_def belief_json_def)
  moreover have "floats_ok canon_lib (state_floats canon_state)"
    using canon_floats by (auto simp: floats_ok_def canon_lib_def canon_lib0_def zero_fl_def one_fl_def)
  moreover have "\<forall>n\<in>set (state_ints canon_state). int64 n" by code_simp
  ultimately show ?thesis by (simp add: state_codec_ok_def)
qed

lemma canon_hash: "HashState canon_lib (Some canon_state) = Inr (ComputeSHA256 (state_texts canon_lib canon_state ! 3))"
  unfolding HashState_Inr using canon_floats by (auto simp: zero_fl_def one_fl_def)

lemma HashState_binds_witness:
  "resource_dto (st_resource canon_state) = resource_dto (st_resource canon_state) \<and>
     st_information canon_state = st_information canon_state \<and>
     belief_probs (st_belief canon_state) = belief_probs (st_belief canon_state) \<and>
     CompetitorDimension (bl_scale (st_belief canon_state)) = CompetitorDimension (bl_scale (st_belief canon_state)) \<or>
   (\<exists>i<4. state_texts canon_lib canon_state ! i \<noteq> state_texts canon_lib canon_state ! i \<and>
     ComputeSHA256 (state_texts canon_lib canon_state ! i) = ComputeSHA256 (state_texts canon_lib canon_state ! i))"
  by (rule HashState_binds [OF canon_hash canon_hash canon_codec_ok canon_codec_ok])

lemma journalled_state_reloads_witness:
  "\<exists>rBytes rHash rs'. EncodeCanonicalResource canon_lib (Some (st_resource canon_state)) = Inr (rBytes, rHash) \<and>
    DecodeCanonicalResource canon_lib rBytes = Inr rs' \<and>
    map (EqEndorsements \<circ> DrvEquipment) (rs_drivers (st_resource canon_state)) = [[''HAZMAT'']] \<and>
    map (EqEndorsements \<circ> DrvEquipment) (rs_drivers rs') = [[]] \<and>
    HashState canon_lib (Some (canon_state\<lparr>st_resource := rs'\<rparr>)) = HashState canon_lib (Some canon_state)"
proof -
  have wf: "rs_wf (st_resource canon_state)" by (simp add: canon_state_def)
  have d: "distinct (map DrvID (rs_drivers (st_resource canon_state)))" "distinct (map LdID (rs_loads (st_resource canon_state)))"
    by code_simp+
  have i: "info_wf (st_information canon_state)" by (simp add: canon_state_def info_wf_def one_fl_def zero_fl_def)
  have b: "belief_wf (st_belief canon_state)"
    by (simp add: canon_state_def belief_wf_def NewMonopolisticBelief_def one_fl_def)
  have v: "Belief_Validate (st_belief canon_state) = Inr ()" by code_simp
  have e: "map (EqEndorsements \<circ> DrvEquipment) (rs_drivers (st_resource canon_state)) = [[''HAZMAT'']]" by code_simp
  then have "length (rs_drivers (st_resource canon_state)) = 1" by (metis One_nat_def length_map list.size(3,4) add_0)
  then have f: "map (EqEndorsements \<circ> DrvEquipment) (map forget_driver (rs_drivers (st_resource canon_state))) = [[]]"
    by (cases "rs_drivers (st_resource canon_state)") (auto simp: forget_driver_def)
  from journalled_state_reloads [OF canon_hash canon_codec_ok wf d i b v] e f canon_hash show ?thesis by metis
qed

end
