(* ===== verification/Orchestrator.thy ===== *)
theory Orchestrator
  imports Canonical Cave Pfa Belief_Filter
begin

text \<open>
  \<open>internal/service/journal.go\<close> and \<open>orchestrator.go\<close>: the semantic journal and the optimization of one
  epoch, from the policy's decision over the feasibility check and the transitions to the sealed journal
  record. The policy is an interface: its name and its evaluation. Logging and telemetry are not
  modelled; the journal is the memory journal and the record store the memory store.
\<close>

section \<open>The semantic journal\<close>

record JournalEntry =
  JeDecisionID :: string
  JeBatchEpoch :: int
  JePolicyName :: string
  JeMatchedCount :: nat
  JeTotalObjective :: f64
  JeTotalNetContribution :: f64
  JeMatches :: "DriverLoadMatch list"
  JeProvenance :: DecisionProvenance
  CryptographicRecord :: JournalRecord

text \<open>A \<open>MemoryJournal\<close> is the slice its pointer holds.\<close>

definition NewMemoryJournal :: "JournalEntry list" where
  "NewMemoryJournal = []"

definition Journal_Record :: "JournalEntry \<Rightarrow> JournalEntry list \<Rightarrow> JournalEntry list" where
  "Journal_Record entry entries = entries @ [entry]"

definition GetEntry :: "string \<Rightarrow> JournalEntry list \<Rightarrow> JournalEntry option" where
  "GetEntry decisionID entries =
     find (\<lambda>e. JeDecisionID e = decisionID \<or> OptimizationRunID (JeProvenance e) = decisionID) entries"

definition Journal_Count :: "JournalEntry list \<Rightarrow> nat" where
  "Journal_Count entries = length entries"

definition GenerateDecisionID :: "string \<Rightarrow> int \<Rightarrow> nat \<Rightarrow> string" where
  "GenerateDecisionID policyName ep batchSeq =
     ''DEC-'' @ policyName @ ''-'' @ show_int ep @ ''-'' @ show_pad 4 batchSeq"

section \<open>The service\<close>

record Policy =
  pol_Name :: string
  pol_Evaluate :: "53 Belief State \<Rightarrow> decision option"

record OptimizationService =
  os_journal :: "JournalEntry list"
  os_crypto :: MemoryStore
  os_filter :: "BeliefFilter option"

definition NewOptimizationService :: OptimizationService where
  "NewOptimizationService = \<lparr>os_journal = NewMemoryJournal, os_crypto = NewMemoryStore, os_filter = None\<rparr>"

definition WithBeliefFilter :: "BeliefFilter option \<Rightarrow> OptimizationService \<Rightarrow> OptimizationService" where
  "WithBeliefFilter f svc = svc\<lparr>os_filter := f\<rparr>"

text \<open>The encodings of the state and the action that go into the record.\<close>

record encodings =
  enc_state :: string
  enc_rBytes :: string
  enc_iBytes :: string
  enc_bBytes :: string
  enc_aBytes :: string
  enc_aHash :: string

definition encode_inputs :: "json_lib \<Rightarrow> 53 Belief State \<Rightarrow> Action \<Rightarrow> encodings result" where
  "encode_inputs J s action =
     (case HashState J (Some s) of Inl e \<Rightarrow> Inl e | Inr h \<Rightarrow>
      case EncodeCanonicalResource J (Some (st_resource s)) of Inl e \<Rightarrow> Inl e | Inr (rBytes, _) \<Rightarrow>
      case EncodeCanonicalInformation J (Some (st_information s)) of Inl e \<Rightarrow> Inl e | Inr (iBytes, _) \<Rightarrow>
      case EncodeCanonicalBelief J (Some (st_belief s)) of Inl e \<Rightarrow> Inl e | Inr (bBytes, _) \<Rightarrow>
      case EncodeCanonicalAction J (Some action) of Inl e \<Rightarrow> Inl e | Inr (aBytes, aHash) \<Rightarrow>
        Inr \<lparr>enc_state = h, enc_rBytes = rBytes, enc_iBytes = iBytes, enc_bBytes = bBytes, enc_aBytes = aBytes,
          enc_aHash = aHash\<rparr>)"

text \<open>The belief and information transitions and the next state.\<close>

definition next_belief ::
  "libm \<Rightarrow> BeliefFilter option \<Rightarrow> 53 Belief State \<Rightarrow> Action \<Rightarrow> int \<Rightarrow> Load list \<Rightarrow> 53 Belief result" where
  "next_belief L f s action nextEpoch newLoads =
     (case f of None \<Rightarrow> Inr (st_belief s)
      | Some bf \<Rightarrow> Filter_step L bf (Some (st_belief s)) (Some (NewObservation nextEpoch newLoads [])) (Some action))"

definition advance_state ::
  "libm \<Rightarrow> BeliefFilter option \<Rightarrow> 53 Belief State \<Rightarrow> Action \<Rightarrow> int \<Rightarrow> Load list \<Rightarrow> 53 Belief State result option" where
  "advance_state L f s action nextEpoch newLoads =
     (case Transition L (st_resource s) (act_matches action) newLoads of
        None \<Rightarrow> None
      | Some (Inl e) \<Rightarrow> Some (Inl e)
      | Some (Inr nextResource) \<Rightarrow>
        Some (case next_belief L f s action nextEpoch newLoads of Inl e \<Rightarrow> Inl e | Inr nextBelief \<Rightarrow>
          let info = st_information s;
              nextEpoch = (if nextEpoch \<le> epoch info then epoch info + 3600 else nextEpoch) in
          case Info_Transition info nextEpoch (fuelPriceIndex info) (nationalSpotRateIndex info) (weatherAlertCount info) of
            Inl e \<Rightarrow> Inl e
          | Inr nextInfo \<Rightarrow> NewState (Some nextResource) (Some nextInfo) (Some nextBelief)))"

definition param_hash :: "json_lib \<Rightarrow> string \<Rightarrow> f64 list \<Rightarrow> string result" where
  "param_hash J name theta =
     (if length theta > 0 then HashParameters J (Some theta) else Inr (ComputeSHA256 name))"

definition run_id :: "string \<Rightarrow> string" where
  "run_id name = ''RUN-'' @ name"

definition prev_hash :: "MemoryStore \<Rightarrow> string \<Rightarrow> string" where
  "prev_hash store runID = (case LastRecord runID store of None \<Rightarrow> GenesisPrevHash | Some r \<Rightarrow> RecordHash r)"

definition crypto_record ::
  "OptimizationService \<Rightarrow> string \<Rightarrow> 53 Belief State \<Rightarrow> Action \<Rightarrow> DecisionProvenance \<Rightarrow> encodings \<Rightarrow> string \<Rightarrow> string \<Rightarrow> JournalRecord" where
  "crypto_record svc name s action prov enc nextHash paramHash = Seal
     \<lparr>JrRunID = run_id name, JrEpoch = epoch (st_information s), BatchSeq = int (Journal_Count (os_journal svc)) + 1,
      JrDecisionID = GenerateDecisionID name (epoch (st_information s)) (Journal_Count (os_journal svc) + 1),
      PrevRecordHash = prev_hash (os_crypto svc) (run_id name), RecordHash = '''',
      RuntimeVersion = CurrentRuntimeVersion, JrPolicyName = name, PolicyParamHash = paramHash,
      InitialStateHash = enc_state enc, ResourceStateBytes = enc_rBytes enc, InformationStateBytes = enc_iBytes enc,
      BeliefStateBytes = enc_bBytes enc, ActionHash = enc_aHash enc, ActionBytes = enc_aBytes enc,
      JrMatchedCount = int (length (act_matches action)), EvaluatedArcsCount = int (length (EvaluatedArcs prov)),
      JrTotalNetContribution = TotalNetContribution prov, RealizedObservationsBytes = '''',
      NextStateHash = nextHash, NextResourceStateBytes = '''', NextInformationStateBytes = '''',
      NextBeliefStateBytes = ''''\<rparr>"

text \<open>Journaling: the entry is recorded first, then the record is appended to the store.\<close>

definition commit ::
  "OptimizationService \<Rightarrow> Action \<Rightarrow> DecisionProvenance \<Rightarrow> 53 Belief State \<Rightarrow> JournalRecord \<Rightarrow>
    (Action \<times> DecisionProvenance \<times> 53 Belief State) result \<times> OptimizationService" where
  "commit svc action prov nextState rec =
     (let entry = \<lparr>JeDecisionID = JrDecisionID rec, JeBatchEpoch = JrEpoch rec, JePolicyName = JrPolicyName rec,
            JeMatchedCount = length (act_matches action), JeTotalObjective = TotalObjectiveValue prov,
            JeTotalNetContribution = TotalNetContribution prov, JeMatches = act_matches action,
            JeProvenance = prov, CryptographicRecord = rec\<rparr>;
          svc = svc\<lparr>os_journal := Journal_Record entry (os_journal svc)\<rparr> in
      case Append rec (os_crypto svc) of
        Inl e \<Rightarrow> (Inl e, svc)
      | Inr store \<Rightarrow> (Inr (action, prov, nextState), svc\<lparr>os_crypto := store\<rparr>))"

definition OptimizeEpoch ::
  "libm \<Rightarrow> json_lib \<Rightarrow> 53 Belief State option \<Rightarrow> Policy option \<Rightarrow> int \<Rightarrow> Load list \<Rightarrow> OptimizationService \<Rightarrow>
    ((Action \<times> DecisionProvenance \<times> 53 Belief State) result \<times> OptimizationService) option" where
  "OptimizeEpoch L J state pol nextEpoch newLoads svc =
     (case state of None \<Rightarrow> Some (Inl (ErrOther ''cannot optimize nil state''), svc) | Some s \<Rightarrow>
      case pol of None \<Rightarrow> Some (Inl (ErrOther ''cannot optimize with nil policy''), svc) | Some p \<Rightarrow>
      case pol_Evaluate p s of None \<Rightarrow> None | Some (Inl e) \<Rightarrow> Some (Inl e, svc) | Some (Inr (action, prov)) \<Rightarrow>
      case ValidateFeasibility action (Some (st_resource s)) of Inl e \<Rightarrow> Some (Inl e, svc) | Inr _ \<Rightarrow>
      case encode_inputs J s action of Inl e \<Rightarrow> Some (Inl e, svc) | Inr enc \<Rightarrow>
      let prov = prov\<lparr>OptimizationRunID :=
        GenerateDecisionID (pol_Name p) (epoch (st_information s)) (Journal_Count (os_journal svc) + 1)\<rparr> in
      case advance_state L (os_filter svc) s action nextEpoch newLoads of
        None \<Rightarrow> None | Some (Inl e) \<Rightarrow> Some (Inl e, svc) | Some (Inr nextState) \<Rightarrow>
      case HashState J (Some nextState) of Inl e \<Rightarrow> Some (Inl e, svc) | Inr nextHash \<Rightarrow>
      case param_hash J (pol_Name p) (ThetaParameters prov) of Inl e \<Rightarrow> Some (Inl e, svc) | Inr paramHash \<Rightarrow>
        Some (commit svc action prov nextState (crypto_record svc (pol_Name p) s action prov enc nextHash paramHash)))"

section \<open>Decision identifiers\<close>

lemma show_pad_digits: "c \<in> set (show_pad k n) \<Longrightarrow> is_digit c"
  using show_nat_digits [of c n] by (auto simp: show_pad_def Let_def) (simp add: is_digit_def)

lemma digits_val_zeros: "digits_val (replicate m (CHR ''0'') @ ds) = digits_val ds"
  by (induction m) (simp_all add: digits_val_def)

lemma show_pad_inj: "show_pad k m = show_pad k n \<Longrightarrow> m = n"
  by (metis digits_val_zeros digits_val_show_nat show_pad_def)

lemma split_last_dash:
  assumes "xs @ CHR ''-'' # ds = ys @ CHR ''-'' # es" and "CHR ''-'' \<notin> set ds" and "CHR ''-'' \<notin> set es"
  shows "ds = es"
proof -
  have t: "takeWhile (\<lambda>c. c \<noteq> CHR ''-'') (rev zs @ CHR ''-'' # us) = rev zs" if "CHR ''-'' \<notin> set zs" for zs us :: string
    using that by (subst takeWhile_append2) auto
  have "rev ds @ CHR ''-'' # rev xs = rev es @ CHR ''-'' # rev ys"
    using arg_cong [OF assms(1), of rev] by simp
  then have "rev ds = rev es" using t [OF assms(2)] t [OF assms(3)] by metis
  then show ?thesis by simp
qed

lemma GenerateDecisionID_inj: "GenerateDecisionID p e m = GenerateDecisionID q f n \<Longrightarrow> m = n"
proof -
  have d: "CHR ''-'' \<notin> set (show_pad 4 k)" for k using show_pad_digits [of "CHR ''-''" 4 k] by (auto simp: is_digit_def)
  assume "GenerateDecisionID p e m = GenerateDecisionID q f n"
  then have "(''DEC-'' @ p @ ''-'' @ show_int e) @ CHR ''-'' # show_pad 4 m = (''DEC-'' @ q @ ''-'' @ show_int f) @ CHR ''-'' # show_pad 4 n"
    by (simp add: GenerateDecisionID_def)
  then have "show_pad 4 m = show_pad 4 n" by (rule split_last_dash [OF _ d d])
  then show "m = n" by (rule show_pad_inj)
qed

section \<open>The journal and the record store agree\<close>

text \<open>
  The invariant of the service: the store is the view of the log of the journal's records, and the
  \<open>n\<close>-th entry carries the record of the decision numbered \<open>n + 1\<close>.
\<close>

definition journal_log :: "OptimizationService \<Rightarrow> JournalRecord list" where
  "journal_log svc = map CryptographicRecord (os_journal svc)"

definition service_inv :: "OptimizationService \<Rightarrow> bool" where
  "service_inv svc \<longleftrightarrow> log_view (journal_log svc) (os_crypto svc) \<and>
     (\<forall>run. verify_links GenesisPrevHash (filter (\<lambda>r. JrRunID r = run) (journal_log svc)) = None) \<and>
     (\<forall>n<length (os_journal svc). JeDecisionID (os_journal svc ! n) = JrDecisionID (journal_log svc ! n) \<and>
        (\<exists>p e. JrDecisionID (journal_log svc ! n) = GenerateDecisionID p e (n + 1)))"

lemma service_inv_New: "service_inv NewOptimizationService"
  by (simp add: service_inv_def NewOptimizationService_def journal_log_def NewMemoryJournal_def)

lemma crypto_record_fields [simp]:
  "JrRunID (crypto_record svc name s a prov enc nh ph) = run_id name"
  "JrEpoch (crypto_record svc name s a prov enc nh ph) = epoch (st_information s)"
  "JrPolicyName (crypto_record svc name s a prov enc nh ph) = name"
  "JrDecisionID (crypto_record svc name s a prov enc nh ph) =
     GenerateDecisionID name (epoch (st_information s)) (length (os_journal svc) + 1)"
  "InitialStateHash (crypto_record svc name s a prov enc nh ph) = enc_state enc"
  "NextStateHash (crypto_record svc name s a prov enc nh ph) = nh"
  "ActionHash (crypto_record svc name s a prov enc nh ph) = enc_aHash enc"
  "VerifyIntegrity (crypto_record svc name s a prov enc nh ph)"
  by (simp_all add: crypto_record_def) (simp_all add: Seal_def Let_def Journal_Count_def)

lemma prev_hash_view:
  assumes "log_view jl s" and "verify_links GenesisPrevHash (filter (\<lambda>r. JrRunID r = run) jl) = None"
  shows "prev_hash s run = run_head jl run" "prev_hash s run \<noteq> ''''"
proof -
  show p: "prev_hash s run = run_head jl run"
    using assms(1) by (simp add: prev_hash_def LastRecord_def log_view_def run_head_def Let_def)
  show "prev_hash s run \<noteq> ''''"
  proof (cases "filter (\<lambda>r. JrRunID r = run) jl" rule: rev_cases)
    case (snoc rs r)
    then have "VerifyIntegrity r" using assms(2) by (simp add: verify_links_append)
    then show ?thesis unfolding p run_head_def Let_def snoc by (auto simp: VerifyIntegrity_iff)
  qed (simp add: p run_head_def)
qed

lemma crypto_record_prev:
  assumes "service_inv svc"
  shows "PrevRecordHash (crypto_record svc name s a prov enc nh ph) = run_head (journal_log svc) (run_id name)"
proof -
  have "log_view (journal_log svc) (os_crypto svc)"
    "verify_links GenesisPrevHash (filter (\<lambda>r. JrRunID r = run_id name) (journal_log svc)) = None"
    using assms by (auto simp: service_inv_def)
  note p = prev_hash_view [OF this]
  then show ?thesis by (simp add: crypto_record_def Seal_def Let_def)
qed

text \<open>The sealed record is always accepted by the store, and the invariant is kept.\<close>

lemma commit_accepts:
  assumes "service_inv svc"
  defines "rec \<equiv> \<lambda>name s a prov enc nh ph. crypto_record svc name s a prov enc nh ph"
  shows "\<exists>svc'. commit svc action prov nextState (rec name s a prov' enc nh ph) = (Inr (action, prov, nextState), svc') \<and>
    service_inv svc' \<and> journal_log svc' = journal_log svc @ [rec name s a prov' enc nh ph] \<and> os_filter svc' = os_filter svc \<and>
    length (os_journal svc') = length (os_journal svc) + 1 \<and> JeProvenance (last (os_journal svc')) = prov \<and>
    JeMatches (last (os_journal svc')) = act_matches action"
proof -
  let ?r = "rec name s a prov' enc nh ph" and ?jl = "journal_log svc"
  have v: "log_view ?jl (os_crypto svc)"
    and ch: "\<forall>run. verify_links GenesisPrevHash (filter (\<lambda>r. JrRunID r = run) ?jl) = None"
    and ids: "\<forall>n<length (os_journal svc). JeDecisionID (os_journal svc ! n) = JrDecisionID (?jl ! n) \<and>
        (\<exists>p e. JrDecisionID (?jl ! n) = GenerateDecisionID p e (n + 1))"
    using assms(1) by (auto simp: service_inv_def)
  have len: "length ?jl = length (os_journal svc)" by (simp add: journal_log_def)
  have "JrDecisionID ?r \<notin> set (map JrDecisionID ?jl)"
  proof
    assume "JrDecisionID ?r \<in> set (map JrDecisionID ?jl)"
    then obtain n where "n < length ?jl" "JrDecisionID (?jl ! n) = JrDecisionID ?r" by (auto simp: in_set_conv_nth)
    then show False using ids len GenerateDecisionID_inj unfolding rec_def crypto_record_fields by (metis add_right_cancel less_irrefl)
  qed
  then have acc: "log_accepts ?jl ?r"
    using crypto_record_prev [OF assms(1)] by (simp add: log_accepts_def rec_def)
  obtain store where a: "Append ?r (os_crypto svc) = Inr store" using Append_iff [OF v] acc by auto
  have v': "log_view (?jl @ [?r]) store"
    using log_view_append [OF v, of ?r] acc a by (simp add: log_append_def try_append_def)
  let ?svc = "snd (commit svc action prov nextState ?r)"
  have c: "commit svc action prov nextState ?r = (Inr (action, prov, nextState), ?svc)"
    and js: "os_crypto ?svc = store" "os_filter ?svc = os_filter svc" "journal_log ?svc = ?jl @ [?r]"
    "map JeDecisionID (os_journal ?svc) = map JeDecisionID (os_journal svc) @ [JrDecisionID ?r]"
    "JeProvenance (last (os_journal ?svc)) = prov" "JeMatches (last (os_journal ?svc)) = act_matches action"
    using a by (simp_all add: commit_def Let_def Journal_Record_def journal_log_def)
  have l': "length (os_journal ?svc) = length (os_journal svc) + 1" using js(4) by (metis length_append_singleton length_map Suc_eq_plus1)
  have "JeDecisionID (os_journal ?svc ! n) = JrDecisionID (journal_log ?svc ! n) \<and>
      (\<exists>p e. JrDecisionID (journal_log ?svc ! n) = GenerateDecisionID p e (n + 1))" if n: "n < length (os_journal ?svc)" for n
  proof -
    have "JeDecisionID (os_journal ?svc ! n) = (map JeDecisionID (os_journal svc) @ [JrDecisionID ?r]) ! n"
      using n js(4) by (metis nth_map)
    then show ?thesis using ids len l' n js(3) by (cases "n < length (os_journal svc)") (auto simp: nth_append rec_def less_Suc_eq)
  qed
  moreover have "verify_links GenesisPrevHash (filter (\<lambda>r. JrRunID r = run) (?jl @ [?r])) = None" for run
    using log_append_chains [OF ch, of run ?r] acc by (simp add: log_append_def)
  ultimately have "service_inv ?svc" unfolding service_inv_def js using v' by blast
  with c js l' show ?thesis by blast
qed

section \<open>Epochs\<close>

text \<open>The cases of an epoch: it fails and leaves the service as it was, or it commits a record.\<close>

lemma OptimizeEpoch_cases:
  assumes "OptimizeEpoch L J state pol nextEpoch newLoads svc = Some (r, svc')"
  obtains e where "r = Inl e" and "svc' = svc"
  | s p action prov enc nextState nextHash paramHash where
    "state = Some s" and "pol = Some p" and "pol_Evaluate p s = Some (Inr (action, prov))"
    and "ValidateFeasibility action (Some (st_resource s)) = Inr ()"
    and "encode_inputs J s action = Inr enc"
    and "advance_state L (os_filter svc) s action nextEpoch newLoads = Some (Inr nextState)"
    and "HashState J (Some nextState) = Inr nextHash"
    and "commit svc action (prov\<lparr>OptimizationRunID :=
        GenerateDecisionID (pol_Name p) (epoch (st_information s)) (length (os_journal svc) + 1)\<rparr>) nextState
      (crypto_record svc (pol_Name p) s action (prov\<lparr>OptimizationRunID :=
        GenerateDecisionID (pol_Name p) (epoch (st_information s)) (length (os_journal svc) + 1)\<rparr>) enc nextHash paramHash) = (r, svc')"
  using assms unfolding OptimizeEpoch_def Let_def Journal_Count_def
  by (auto split: option.splits sum.splits prod.splits)

lemma encode_inputs_Inr:
  assumes "encode_inputs J s action = Inr enc"
  shows "HashState J (Some s) = Inr (enc_state enc)" "EncodeCanonicalAction J (Some action) = Inr (enc_aBytes enc, enc_aHash enc)"
  using assms unfolding encode_inputs_def by (auto split: sum.splits prod.splits)

lemma advance_state_Inr:
  assumes "advance_state L f s action nextEpoch newLoads = Some (Inr s')"
  shows "Transition L (st_resource s) (act_matches action) newLoads = Some (Inr (st_resource s'))"
    "epoch (st_information s) < epoch (st_information s')"
    "next_belief L f s action nextEpoch newLoads = Inr (st_belief s')"
  using assms unfolding advance_state_def Let_def Info_Transition_def NewInformationState_def NewState_def
  by (auto split: option.splits sum.splits if_splits)

text \<open>The service states that epochs can reach, whatever the states, policies and loads.\<close>

inductive service_reachable :: "libm \<Rightarrow> json_lib \<Rightarrow> OptimizationService \<Rightarrow> bool" for L J where
  start: "service_reachable L J (WithBeliefFilter f NewOptimizationService)"
| step: "service_reachable L J svc \<Longrightarrow> OptimizeEpoch L J state pol nextEpoch newLoads svc = Some (r, svc') \<Longrightarrow>
    service_reachable L J svc'"

lemma service_reachable_New: "service_reachable L J NewOptimizationService"
  using service_reachable.start [of L J None] by (simp add: WithBeliefFilter_def NewOptimizationService_def)

lemma service_reachable_inv: "service_reachable L J svc \<Longrightarrow> service_inv svc"
proof (induction rule: service_reachable.induct)
  case (start f)
  have "service_inv (WithBeliefFilter f NewOptimizationService) = service_inv NewOptimizationService"
    by (simp add: service_inv_def WithBeliefFilter_def journal_log_def)
  then show ?case using service_inv_New by simp
next
  case (step svc state pol nextEpoch newLoads r svc')
  from step.hyps(2) show ?case
  proof (cases rule: OptimizeEpoch_cases)
    case 1
    then show ?thesis using step.IH by simp
  next
    case (2 s p action prov enc nextState nextHash paramHash)
    then show ?thesis using commit_accepts [OF step.IH] by (metis prod.inject)
  qed
qed

text \<open>
  Property C4. An epoch is all or nothing. It fails and leaves the journal and the record store as they were, or it
  returns an action that passed the feasibility check together with the state the transition makes of
  it, at a later epoch, and appends exactly one record: to the journal and to the store, chained to the
  last record of the policy's run, with the hashes of the state before, of the action and of the state
  after. The append is never refused.
\<close>

theorem OptimizeEpoch_atomic:
  assumes "service_reachable L J svc" and "OptimizeEpoch L J (Some s) (Some p) nextEpoch newLoads svc = Some (r, svc')"
  shows "case r of
    Inl e \<Rightarrow> svc' = svc
  | Inr (action, prov, s') \<Rightarrow>
      ValidateFeasibility action (Some (st_resource s)) = Inr () \<and>
      Transition L (st_resource s) (act_matches action) newLoads = Some (Inr (st_resource s')) \<and>
      epoch (st_information s) < epoch (st_information s') \<and>
      (\<exists>rec. journal_log svc' = journal_log svc @ [rec] \<and>
        ListByRun (run_id (pol_Name p)) (os_crypto svc') = ListByRun (run_id (pol_Name p)) (os_crypto svc) @ [rec] \<and>
        Get (OptimizationRunID prov) (os_crypto svc') = Inr rec \<and>
        VerifyRunChain (run_id (pol_Name p)) (os_crypto svc') = (True, RecordHash rec, None) \<and>
        HashState J (Some s) = Inr (InitialStateHash rec) \<and> HashState J (Some s') = Inr (NextStateHash rec) \<and>
        (\<exists>bytes. EncodeCanonicalAction J (Some action) = Inr (bytes, ActionHash rec)))"
  using assms(2)
proof (cases rule: OptimizeEpoch_cases)
  case 1
  then show ?thesis by simp
next
  case (2 s0 p0 action prov enc nextState nextHash paramHash)
  then have sp: "s0 = s" "p0 = p" by simp_all
  let ?id = "GenerateDecisionID (pol_Name p) (epoch (st_information s)) (length (os_journal svc) + 1)"
  let ?prov = "prov\<lparr>OptimizationRunID := ?id\<rparr>"
  let ?rec = "crypto_record svc (pol_Name p) s action ?prov enc nextHash paramHash"
  note inv = service_reachable_inv [OF assms(1)]
  obtain svc1 where c: "commit svc action ?prov nextState ?rec = (Inr (action, ?prov, nextState), svc1)"
    and i1: "service_inv svc1" and j1: "journal_log svc1 = journal_log svc @ [?rec]"
    using commit_accepts [OF inv] by blast
  have r: "r = Inr (action, ?prov, nextState)" "svc' = svc1" using 2(8) c sp by simp_all
  have v: "log_view (journal_log svc) (os_crypto svc)" "log_view (journal_log svc @ [?rec]) (os_crypto svc1)"
    using inv i1 j1 by (simp_all add: service_inv_def)
  have l: "ListByRun (run_id (pol_Name p)) (os_crypto svc1) = ListByRun (run_id (pol_Name p)) (os_crypto svc) @ [?rec]"
    using log_view_recs(2) [OF v(1)] log_view_recs(2) [OF v(2)] by simp
  have "find (\<lambda>q. JrDecisionID q = ?id) (journal_log svc) = None"
  proof -
    have "JrDecisionID (journal_log svc ! n) \<noteq> ?id" if n: "n < length (journal_log svc)" for n
    proof
      assume a: "JrDecisionID (journal_log svc ! n) = ?id"
      have "n < length (os_journal svc)" using n by (simp add: journal_log_def)
      then obtain q e where "JrDecisionID (journal_log svc ! n) = GenerateDecisionID q e (n + 1)" and "n < length (os_journal svc)"
        using inv unfolding service_inv_def by blast
      moreover from this(1) have "n + 1 = length (os_journal svc) + 1" unfolding a by (rule GenerateDecisionID_inj [symmetric])
      ultimately show False by simp
    qed
    then show ?thesis by (auto simp: find_None_iff in_set_conv_nth)
  qed
  then have g: "Get ?id (os_crypto svc1) = Inr ?rec"
    using log_view_recs(3) [OF v(2), of ?id] by (simp add: Get_def find_append)
  have "verify_links GenesisPrevHash (ListByRun (run_id (pol_Name p)) (os_crypto svc1)) = None"
    unfolding log_view_recs(2) [OF v(2)] using i1 j1 unfolding service_inv_def by metis
  then have "VerifyRunChain (run_id (pol_Name p)) (os_crypto svc1) = (True, RecordHash ?rec, None)"
    using l by (simp add: VerifyRunChain_def chain_records_def Let_def)
  then show ?thesis
    unfolding r using 2(4,6) advance_state_Inr [OF 2(6)] encode_inputs_Inr [OF 2(5)] 2(7) j1 l g sp by auto
qed

text \<open>An epoch of a policy that does nothing.\<close>

definition idle_policy :: Policy where
  "idle_policy = \<lparr>pol_Name = ''IDLE'',
     pol_Evaluate = (\<lambda>s. Some (Inr (NewEmptyAction, NewDecisionProvenance ''IDLE'' (Some s) [])))\<rparr>"

definition canon_next :: "53 Belief State" where
  "canon_next = \<lparr>st_resource = NewResourceState (rs_drivers (st_resource canon_state)) (rs_loads (st_resource canon_state)),
     st_information = (st_information canon_state)\<lparr>epoch := 3607\<rparr>, st_belief = st_belief canon_state\<rparr>"

lemma canon_advance: "advance_state demo_libm None canon_state NewEmptyAction 0 [] = Some (Inr canon_next)"
  by (simp add: advance_state_def Transition_def NewEmptyAction_def next_belief_def Info_Transition_def
      NewInformationState_def NewState_def canon_next_def Let_def)
     (simp add: canon_state_def one_fl_def zero_fl_def)

lemma canon_next_hash: "\<exists>h. HashState canon_lib (Some canon_next) = Inr h"
proof -
  have "\<forall>x\<in>set (state_floats canon_next). is_fin x" by code_simp
  then show ?thesis by (simp add: HashState_Inr)
qed

lemma canon_encode: "\<exists>enc. encode_inputs canon_lib canon_state NewEmptyAction = Inr enc"
proof -
  have "\<forall>x\<in>set (state_floats canon_state). is_fin x" using canon_floats by (auto simp: zero_fl_def one_fl_def)
  then show ?thesis
    by (simp add: encode_inputs_def canon_hash EncodeCanonicalResource_def EncodeCanonicalInformation_def
        EncodeCanonicalBelief_def EncodeCanonicalAction_def marshal_def Let_def state_floats_def NewEmptyAction_def)
qed

lemma canon_epoch:
  "\<exists>a svc'. OptimizeEpoch demo_libm canon_lib (Some canon_state) (Some idle_policy) 0 [] NewOptimizationService = Some (Inr a, svc')"
proof -
  obtain enc h where e: "encode_inputs canon_lib canon_state NewEmptyAction = Inr enc" "HashState canon_lib (Some canon_next) = Inr h"
    using canon_encode canon_next_hash by blast
  have v: "ValidateFeasibility NewEmptyAction (Some (st_resource canon_state)) = Inr ()"
    by (simp add: ValidateFeasibility_def NewEmptyAction_def)
  have t: "ThetaParameters (NewDecisionProvenance ''IDLE'' (Some canon_state) []) = []" by (simp add: NewDecisionProvenance_def Let_def)
  have f: "os_filter NewOptimizationService = None" by (simp add: NewOptimizationService_def)
  have "\<exists>name s a prov enc nh ph act p n. OptimizeEpoch demo_libm canon_lib (Some canon_state) (Some idle_policy) 0 [] NewOptimizationService =
      Some (commit NewOptimizationService act p n (crypto_record NewOptimizationService name s a prov enc nh ph))"
    using e v t f canon_advance by (simp add: OptimizeEpoch_def idle_policy_def param_hash_def Let_def) blast
  then show ?thesis using commit_accepts [OF service_inv_New] by metis
qed

lemma OptimizeEpoch_atomic_witness:
  "\<exists>action prov s' svc' rec. OptimizeEpoch demo_libm canon_lib (Some canon_state) (Some idle_policy) 0 [] NewOptimizationService =
     Some (Inr (action, prov, s'), svc') \<and> journal_log svc' = [rec] \<and> Get (OptimizationRunID prov) (os_crypto svc') = Inr rec \<and>
     VerifyRunChain (run_id ''IDLE'') (os_crypto svc') = (True, RecordHash rec, None) \<and>
     HashState canon_lib (Some s') = Inr (NextStateHash rec)"
proof -
  obtain action prov s' svc' where o: "OptimizeEpoch demo_libm canon_lib (Some canon_state) (Some idle_policy) 0 [] NewOptimizationService =
     Some (Inr (action, prov, s'), svc')" using canon_epoch by (metis prod_cases3)
  from OptimizeEpoch_atomic [OF service_reachable_New o] obtain rec where "journal_log svc' = journal_log NewOptimizationService @ [rec]"
    "Get (OptimizationRunID prov) (os_crypto svc') = Inr rec"
    "VerifyRunChain (run_id (pol_Name idle_policy)) (os_crypto svc') = (True, RecordHash rec, None)"
    "HashState canon_lib (Some s') = Inr (NextStateHash rec)"
    unfolding sum.case prod.case by blast
  moreover have "pol_Name idle_policy = ''IDLE''" "journal_log NewOptimizationService = []"
    by (simp_all add: idle_policy_def journal_log_def NewOptimizationService_def NewMemoryJournal_def)
  ultimately show ?thesis using o by auto
qed

end
