(* ===== verification/Replay.thy ===== *)
theory Replay
  imports Orchestrator
begin

text \<open>
  \<open>pkg/replay/engine.go\<close>: a recorded decision is evaluated again and compared with its record. The texts of
  the drift messages are their constructors; the duration is the reading of the clock.
\<close>

section \<open>The engine\<close>

datatype drift = StateHashDrift | ActionHashDrift | MatchCountDrift | ContributionDrift

record ReplayReport =
  RrDecisionID :: string
  RrRunID :: string
  RrEpoch :: int
  RrPolicyName :: string
  IsBitExact :: bool
  InitialStateHashMatch :: bool
  ActionHashMatch :: bool
  RecordedActionHash :: string
  ReplayedActionHash :: string
  RecordedMatchesCount :: int
  ReplayedMatchesCount :: int
  RecordedNetContribution :: f64
  ReplayedNetContribution :: f64
  ContributionDelta :: f64
  ReplayDurationMicrosecond :: int
  DriftDetails :: "drift list"

definition ReplayDecision ::
  "json_lib \<Rightarrow> int \<Rightarrow> Policy \<Rightarrow> JournalRecord \<Rightarrow> 53 Belief State option \<Rightarrow> ReplayReport result option" where
  "ReplayDecision J duration p rec state =
     (case state of None \<Rightarrow> Some (Inl (ErrOther ''cannot replay with nil state'')) | Some s \<Rightarrow>
      case HashState J (Some s) of Inl e \<Rightarrow> Some (Inl e) | Inr initialStateHash \<Rightarrow>
      case pol_Evaluate p s of None \<Rightarrow> None | Some (Inl e) \<Rightarrow> Some (Inl e) | Some (Inr (action, prov)) \<Rightarrow>
      case EncodeCanonicalAction J (Some action) of Inl e \<Rightarrow> Some (Inl e) | Inr (_, actionHash) \<Rightarrow>
      let initialHashMatch = (initialStateHash = InitialStateHash rec);
          actionHashMatch = (actionHash = ActionHash rec);
          matches = int (length (act_matches action));
          delta = TotalNetContribution prov - JrTotalNetContribution rec;
          drifts = (if initialHashMatch then [] else [StateHashDrift]) @ (if actionHashMatch then [] else [ActionHashDrift]) @
            (if matches \<noteq> JrMatchedCount rec then [MatchCountDrift] else []) @
            (if \<bar>delta\<bar> > rnd (1 / 1000000) then [ContributionDrift] else [])
      in Some (Inr \<lparr>RrDecisionID = JrDecisionID rec, RrRunID = JrRunID rec, RrEpoch = JrEpoch rec, RrPolicyName = pol_Name p,
           IsBitExact = (initialHashMatch \<and> actionHashMatch \<and> length drifts = 0),
           InitialStateHashMatch = initialHashMatch, ActionHashMatch = actionHashMatch,
           RecordedActionHash = ActionHash rec, ReplayedActionHash = actionHash,
           RecordedMatchesCount = JrMatchedCount rec, ReplayedMatchesCount = matches,
           RecordedNetContribution = JrTotalNetContribution rec, ReplayedNetContribution = TotalNetContribution prov,
           ContributionDelta = delta, ReplayDurationMicrosecond = duration, DriftDetails = drifts\<rparr>))"

section \<open>Replaying what the service recorded\<close>

lemma minus_self_no_drift: "\<not> \<bar>x - x\<bar> > rnd (1 / 1000000)" for x :: f64
proof -
  have "\<not> (0 :: f64) > rnd (1 / 1000000)" by code_simp
  moreover have "x - x = NaN \<or> x - x = 0" by (cases x) (simp_all add: minus_fl_def zero_fl_def)
  ultimately show ?thesis by (auto simp: zero_fl_def)
qed

lemma crypto_record_outcome:
  "JrMatchedCount (crypto_record svc name s a prov enc nh ph) = int (length (act_matches a))"
  "JrTotalNetContribution (crypto_record svc name s a prov enc nh ph) = TotalNetContribution prov"
  by (simp_all add: crypto_record_def Seal_def Let_def)



end
