(* ===== verification/Simulation.thy ===== *)
theory Simulation
  imports Orchestrator
begin

text \<open>
  \<open>internal/service/stats.go\<close> and \<open>simulator.go\<close>: the accumulation of the key figures and the simulation that
  steps a state through epochs by the optimization service. The loop is a \<open>partial_function\<close>; \<open>None\<close> is an
  epoch that does not return. The context of a run is a predicate on the epoch at which it is asked.
\<close>

section \<open>Key figures\<close>

record StatisticCalculator =
  sc_loadedMiles :: f64
  sc_emptyMiles :: f64
  sc_dwellMinutes :: int
  sc_insertedRestMin :: int
  sc_lateMinutes :: int
  sc_loadsOffered :: int
  sc_loadsServiced :: int
  sc_loadsUnserviced :: int
  sc_onTimePickups :: int
  sc_onTimeDeliveries :: int
  sc_workHours :: f64
  sc_availableHours :: f64
  sc_grossRevenue :: f64
  sc_fixedCost :: f64
  sc_loadedCost :: f64
  sc_emptyCost :: f64
  sc_emptyToHomeCost :: f64
  sc_dwellCost :: f64
  sc_latePenalty :: f64
  sc_driverBonus :: f64
  sc_totalCost :: f64
  sc_netContribution :: f64

definition NewStatisticCalculator :: StatisticCalculator where
  "NewStatisticCalculator = \<lparr>sc_loadedMiles = 0, sc_emptyMiles = 0, sc_dwellMinutes = 0, sc_insertedRestMin = 0,
     sc_lateMinutes = 0, sc_loadsOffered = 0, sc_loadsServiced = 0, sc_loadsUnserviced = 0, sc_onTimePickups = 0,
     sc_onTimeDeliveries = 0, sc_workHours = 0, sc_availableHours = 0, sc_grossRevenue = 0, sc_fixedCost = 0,
     sc_loadedCost = 0, sc_emptyCost = 0, sc_emptyToHomeCost = 0, sc_dwellCost = 0, sc_latePenalty = 0,
     sc_driverBonus = 0, sc_totalCost = 0, sc_netContribution = 0\<rparr>"

definition RecordLoadOffers :: "int \<Rightarrow> StatisticCalculator \<Rightarrow> StatisticCalculator" where
  "RecordLoadOffers k sc = (if k > 0 then sc\<lparr>sc_loadsOffered := sc_loadsOffered sc + k\<rparr> else sc)"

definition RecordUnservicedLoads :: "int \<Rightarrow> StatisticCalculator \<Rightarrow> StatisticCalculator" where
  "RecordUnservicedLoads k sc = (if k > 0 then sc\<lparr>sc_loadsUnserviced := sc_loadsUnserviced sc + k\<rparr> else sc)"

definition RecordDriverHours :: "f64 \<Rightarrow> f64 \<Rightarrow> StatisticCalculator \<Rightarrow> StatisticCalculator" where
  "RecordDriverHours workHours availableHours sc =
     sc\<lparr>sc_workHours := sc_workHours sc + workHours, sc_availableHours := sc_availableHours sc + availableHours\<rparr>"

definition RecordDispatch ::
  "53 TripCostBreakdown \<Rightarrow> f64 \<Rightarrow> f64 \<Rightarrow> int \<Rightarrow> int \<Rightarrow> bool \<Rightarrow> bool \<Rightarrow> StatisticCalculator \<Rightarrow> StatisticCalculator" where
  "RecordDispatch cost loadedMiles deadheadMiles dwellMin insertedRestMin onTimePickup onTimeDelivery sc =
     sc\<lparr>sc_loadsServiced := sc_loadsServiced sc + 1,
        sc_loadedMiles := sc_loadedMiles sc + loadedMiles,
        sc_emptyMiles := sc_emptyMiles sc + deadheadMiles,
        sc_dwellMinutes := sc_dwellMinutes sc + dwellMin,
        sc_insertedRestMin := sc_insertedRestMin sc + insertedRestMin,
        sc_onTimePickups := (if onTimePickup then sc_onTimePickups sc + 1 else sc_onTimePickups sc),
        sc_onTimeDeliveries := (if onTimeDelivery then sc_onTimeDeliveries sc + 1 else sc_onTimeDeliveries sc),
        sc_grossRevenue := sc_grossRevenue sc + TcRevenue cost,
        sc_fixedCost := sc_fixedCost sc + TcFixedCost cost,
        sc_loadedCost := sc_loadedCost sc + TcLoadedCost cost,
        sc_emptyCost := sc_emptyCost sc + TcEmptyCost cost,
        sc_emptyToHomeCost := sc_emptyToHomeCost sc + TcEmptyToHomeCost cost,
        sc_dwellCost := sc_dwellCost sc + TcDwellCost cost,
        sc_latePenalty := sc_latePenalty sc + TcLatePenalty cost,
        sc_driverBonus := sc_driverBonus sc + TcDriverBonus cost,
        sc_totalCost := sc_totalCost sc + TcTotalCost cost,
        sc_netContribution := sc_netContribution sc + NetContribution cost\<rparr>"

text \<open>\<open>math.Round\<close>: to the nearest integer, halves away from zero.\<close>

fun Round :: "f64 \<Rightarrow> f64" where
  "Round (Fin x) = Fin (if x \<ge> 0 then of_int \<lfloor>x + 1 / 2\<rfloor> else - of_int \<lfloor>1 / 2 - x\<rfloor>)"
| "Round x = x"

definition roundFloat :: "f64 \<Rightarrow> nat \<Rightarrow> f64" where
  "roundFloat val decimals = (let pow = Fin (10 ^ decimals) in Round (val * pow) / pow)"

record KPIReport =
  KpiLoadedMiles :: f64
  KpiEmptyMiles :: f64
  KpiTotalMiles :: f64
  KpiEmptyRatio :: f64
  KpiDwellMinutes :: int
  KpiInsertedRestMin :: int
  KpiLateMinutes :: int
  LoadsOffered :: int
  LoadsServiced :: int
  LoadsUnserviced :: int
  ServicePercentage :: f64
  OnTimePickupPercentage :: f64
  OnTimeDeliveryPercent :: f64
  KpiDriverWorkHours :: f64
  KpiDriverAvailableHours :: f64
  DriverUtilization :: f64
  KpiGrossRevenue :: f64
  KpiFixedCost :: f64
  KpiLoadedCost :: f64
  KpiEmptyCost :: f64
  KpiEmptyToHomeCost :: f64
  KpiDwellCost :: f64
  KpiLatePenalty :: f64
  KpiDriverBonus :: f64
  KpiTotalCost :: f64
  KpiNetContribution :: f64
  RevenuePerLoadedMile :: f64
  RevenuePerTotalMile :: f64
  CostPerTotalMile :: f64
  KpiProfitPerTotalMile :: f64
  ProfitPerLoadedMile :: f64

definition percentage :: "int \<Rightarrow> int \<Rightarrow> f64" where
  "percentage part whole = (if whole > 0 then (of_int_fl part / of_int_fl whole) * Fin 100 else 0)"

definition per :: "f64 \<Rightarrow> f64 \<Rightarrow> f64" where
  "per amount miles = (if miles > 0 then amount / miles else 0)"

definition KPI_Snapshot :: "StatisticCalculator \<Rightarrow> KPIReport" where
  "KPI_Snapshot sc =
     (let totMiles = sc_loadedMiles sc + sc_emptyMiles sc;
          utilization = (if sc_availableHours sc > 0 then (sc_workHours sc / sc_availableHours sc) * Fin 100 else 0) in
      \<lparr>KpiLoadedMiles = roundFloat (sc_loadedMiles sc) 2, KpiEmptyMiles = roundFloat (sc_emptyMiles sc) 2,
       KpiTotalMiles = roundFloat totMiles 2, KpiEmptyRatio = roundFloat (per (sc_emptyMiles sc) totMiles) 4,
       KpiDwellMinutes = sc_dwellMinutes sc, KpiInsertedRestMin = sc_insertedRestMin sc, KpiLateMinutes = sc_lateMinutes sc,
       LoadsOffered = sc_loadsOffered sc, LoadsServiced = sc_loadsServiced sc, LoadsUnserviced = sc_loadsUnserviced sc,
       ServicePercentage = roundFloat (percentage (sc_loadsServiced sc) (sc_loadsOffered sc)) 2,
       OnTimePickupPercentage = roundFloat (percentage (sc_onTimePickups sc) (sc_loadsServiced sc)) 2,
       OnTimeDeliveryPercent = roundFloat (percentage (sc_onTimeDeliveries sc) (sc_loadsServiced sc)) 2,
       KpiDriverWorkHours = roundFloat (sc_workHours sc) 2, KpiDriverAvailableHours = roundFloat (sc_availableHours sc) 2,
       DriverUtilization = roundFloat utilization 2, KpiGrossRevenue = roundFloat (sc_grossRevenue sc) 2,
       KpiFixedCost = roundFloat (sc_fixedCost sc) 2, KpiLoadedCost = roundFloat (sc_loadedCost sc) 2,
       KpiEmptyCost = roundFloat (sc_emptyCost sc) 2, KpiEmptyToHomeCost = roundFloat (sc_emptyToHomeCost sc) 2,
       KpiDwellCost = roundFloat (sc_dwellCost sc) 2, KpiLatePenalty = roundFloat (sc_latePenalty sc) 2,
       KpiDriverBonus = roundFloat (sc_driverBonus sc) 2, KpiTotalCost = roundFloat (sc_totalCost sc) 2,
       KpiNetContribution = roundFloat (sc_netContribution sc) 2,
       RevenuePerLoadedMile = roundFloat (per (sc_grossRevenue sc) (sc_loadedMiles sc)) 4,
       RevenuePerTotalMile = roundFloat (per (sc_grossRevenue sc) totMiles) 4,
       CostPerTotalMile = roundFloat (per (sc_totalCost sc) totMiles) 4,
       KpiProfitPerTotalMile = roundFloat (per (sc_netContribution sc) totMiles) 4,
       ProfitPerLoadedMile = roundFloat (per (sc_netContribution sc) (sc_loadedMiles sc)) 4\<rparr>)"

section \<open>The simulation\<close>

text \<open>A \<open>StaticLoadStream\<close>: the loads by their arrival epoch, a later entry of an epoch replacing an earlier one.\<close>

type_synonym LoadStream = "int \<Rightarrow> Load list"

definition NewStaticLoadStream :: "(int \<Rightarrow> Load list option) \<Rightarrow> LoadStream" where
  "NewStaticLoadStream arrivals ep = (case arrivals ep of None \<Rightarrow> [] | Some ls \<Rightarrow> ls)"

definition stream_loads :: "LoadStream option \<Rightarrow> int \<Rightarrow> Load list" where
  "stream_loads stream ep = (case stream of None \<Rightarrow> [] | Some s \<Rightarrow> s ep)"

record SimulationRunConfig =
  RunID :: string
  StartEpoch :: int
  EndEpoch :: int
  StepSeconds :: int

definition RunConfig_Validate :: "SimulationRunConfig \<Rightarrow> unit result" where
  "RunConfig_Validate cfg =
     (if StartEpoch cfg \<le> 0 then Inl (ErrOther ''simulator: StartEpoch'')
      else if EndEpoch cfg < StartEpoch cfg then Inl (ErrOther ''simulator: EndEpoch'')
      else if StepSeconds cfg \<le> 0 then Inl (ErrOther ''simulator: StepSeconds'')
      else Inr ())"

record SimulationSummary =
  SsRunID :: string
  SsStartEpoch :: int
  SsEndEpoch :: int
  TotalEpochs :: nat
  KPIs :: KPIReport
  JournalEntries :: "JournalEntry list"

text \<open>The figures of one epoch: the offers and the available hours, then every assigned arc.\<close>

definition record_arc :: "53 CandidateEvaluation \<Rightarrow> StatisticCalculator \<Rightarrow> StatisticCalculator" where
  "record_arc ev sc =
     (if IsAssigned ev then
        RecordDispatch (CostBreakdown ev) (EvLoadedMiles ev) (EvDeadheadMiles ev) (EvInsertedDwellMin ev) (EvInsertedRestMin ev)
          True True (RecordDriverHours (of_int_fl (EvTotalTripMin ev) / Fin 60) 0 sc)
      else sc)"

definition record_offers :: "int \<Rightarrow> 53 Belief State \<Rightarrow> Load list \<Rightarrow> StatisticCalculator \<Rightarrow> StatisticCalculator" where
  "record_offers step s newLoads sc =
     RecordDriverHours 0 (of_int_fl (int (length (rs_drivers (st_resource s)))) * (of_int_fl step / Fin 3600))
       (RecordLoadOffers (int (length newLoads)) sc)"

text \<open>
  The loop from an epoch on, with the state, the figures, the number of epochs so far and the service. The
  result carries the state at which the loop ends; an error the state of the epoch that failed.
\<close>

partial_function (option) sim_loop ::
  "libm \<Rightarrow> json_lib \<Rightarrow> (int \<Rightarrow> bool) \<Rightarrow> SimulationRunConfig \<Rightarrow> Policy \<Rightarrow> LoadStream option \<Rightarrow> int \<Rightarrow> 53 Belief State \<Rightarrow>
    StatisticCalculator \<Rightarrow> nat \<Rightarrow> OptimizationService \<Rightarrow>
    ((StatisticCalculator \<times> nat) result \<times> 53 Belief State \<times> OptimizationService) option" where
  "sim_loop L J ctxDone cfg pol stream ep s sc n svc =
     (if ep > EndEpoch cfg then Some (Inr (sc, n), s, svc)
      else if ctxDone ep then Some (Inl (ErrOther ''context canceled''), s, svc)
      else let newLoads = stream_loads stream ep in
        (case OptimizeEpoch L J (Some s) (Some pol) (ep + StepSeconds cfg) newLoads svc of
           None \<Rightarrow> None
         | Some (Inl e, svc') \<Rightarrow> Some (Inl e, s, svc')
         | Some (Inr (action, prov, s'), svc') \<Rightarrow>
             sim_loop L J ctxDone cfg pol stream (ep + StepSeconds cfg) s'
               (fold record_arc (EvaluatedArcs prov) (record_offers (StepSeconds cfg) s newLoads sc)) (Suc n) svc'))"

definition Simulator_Run ::
  "libm \<Rightarrow> json_lib \<Rightarrow> (int \<Rightarrow> bool) \<Rightarrow> SimulationRunConfig \<Rightarrow> 53 Belief State option \<Rightarrow> Policy option \<Rightarrow> LoadStream option \<Rightarrow>
    OptimizationService \<Rightarrow> (SimulationSummary result \<times> 53 Belief State option \<times> OptimizationService) option" where
  "Simulator_Run L J ctxDone cfg initialState pol stream svc =
     (case RunConfig_Validate cfg of Inl e \<Rightarrow> Some (Inl e, None, svc) | Inr _ \<Rightarrow>
      case initialState of None \<Rightarrow> Some (Inl (ErrOther ''simulator: initialState cannot be nil''), None, svc) | Some s0 \<Rightarrow>
      case pol of None \<Rightarrow> Some (Inl (ErrOther ''simulator: policy cannot be nil''), None, svc) | Some p \<Rightarrow>
      case sim_loop L J ctxDone cfg p stream (StartEpoch cfg) s0 NewStatisticCalculator 0 svc of
        None \<Rightarrow> None
      | Some (Inl e, s, svc') \<Rightarrow> Some (Inl e, Some s, svc')
      | Some (Inr (sc, n), s, svc') \<Rightarrow>
          Some (Inr \<lparr>SsRunID = RunID cfg, SsStartEpoch = StartEpoch cfg, SsEndEpoch = EndEpoch cfg, TotalEpochs = n,
            KPIs = KPI_Snapshot sc, JournalEntries = os_journal svc'\<rparr>, Some s, svc'))"

section \<open>What an epoch leaves behind\<close>

lemma epoch_entry:
  assumes "service_inv svc" and "OptimizeEpoch L J (Some s) (Some p) nextEpoch newLoads svc = Some (Inr (action, prov, s'), svc')"
  shows "\<exists>e. os_journal svc' = os_journal svc @ [e] \<and> JeProvenance e = prov \<and> JeMatches e = act_matches action \<and>
    service_inv svc' \<and> os_filter svc' = os_filter svc \<and> HashState J (Some s) = Inr (InitialStateHash (CryptographicRecord e)) \<and>
    HashState J (Some s') = Inr (NextStateHash (CryptographicRecord e)) \<and> JrRunID (CryptographicRecord e) = run_id (pol_Name p) \<and>
    epoch (st_information s) < epoch (st_information s') \<and>
    Transition L (st_resource s) (act_matches action) newLoads = Some (Inr (st_resource s'))"
  using assms(2)
proof (cases rule: OptimizeEpoch_cases)
  case (1 e)
  then show ?thesis by simp
next
  case (2 s0 p0 action0 prov0 enc nextState nextHash paramHash)
  then have sp: "s0 = s" "p0 = p" by simp_all
  let ?prov = "prov0\<lparr>OptimizationRunID := GenerateDecisionID (pol_Name p) (epoch (st_information s)) (length (os_journal svc) + 1)\<rparr>"
  let ?rec = "crypto_record svc (pol_Name p) s action0 ?prov enc nextHash paramHash"
  obtain svc1 where c: "commit svc action0 ?prov nextState ?rec = (Inr (action0, ?prov, nextState), svc1)"
    "service_inv svc1" "os_filter svc1 = os_filter svc" using commit_accepts [OF assms(1)] by blast
  have eq: "action0 = action" "?prov = prov" "nextState = s'" "svc1 = svc'" using 2(8) c(1) sp by auto
  have "\<exists>e. os_journal svc1 = os_journal svc @ [e] \<and> JeProvenance e = ?prov \<and> JeMatches e = act_matches action0 \<and> CryptographicRecord e = ?rec"
    using c(1) by (auto simp: commit_def Let_def Journal_Record_def split: sum.splits)
  then obtain e where e: "os_journal svc' = os_journal svc @ [e]" "JeProvenance e = prov" "JeMatches e = act_matches action"
    "CryptographicRecord e = ?rec" unfolding eq by blast
  show ?thesis
    using e c(2,3) eq advance_state_Inr [OF 2(6)] encode_inputs_Inr(1) [OF 2(5)] 2(7) sp by (intro exI [of _ e]) simp
qed

lemma epoch_failed:
  assumes "service_inv svc" and "OptimizeEpoch L J state p nextEpoch newLoads svc = Some (Inl e, svc')"
  shows "svc' = svc"
  using assms(2)
proof (cases rule: OptimizeEpoch_cases)
  case (2 s0 p0 action0 prov0 enc nextState nextHash paramHash)
  then show ?thesis using commit_accepts [OF assms(1)] by (metis prod.inject Inl_Inr_False)
qed

text \<open>The states between the entries of a journal.\<close>

definition trajectory :: "json_lib \<Rightarrow> 53 Belief State list \<Rightarrow> JournalEntry list \<Rightarrow> bool" where
  "trajectory J states es \<longleftrightarrow> length states = length es + 1 \<and>
     (\<forall>i<length es. HashState J (Some (states ! i)) = Inr (InitialStateHash (CryptographicRecord (es ! i))) \<and>
        HashState J (Some (states ! Suc i)) = Inr (NextStateHash (CryptographicRecord (es ! i))) \<and>
        epoch (st_information (states ! i)) < epoch (st_information (states ! Suc i)))"

lemma trajectory_Nil [simp]: "trajectory J [s] []"
  by (simp add: trajectory_def)

lemma trajectory_Cons:
  assumes "trajectory J states es" and "hd states = s'"
    and "HashState J (Some s) = Inr (InitialStateHash (CryptographicRecord e))"
    and "HashState J (Some s') = Inr (NextStateHash (CryptographicRecord e))"
    and "epoch (st_information s) < epoch (st_information s')"
  shows "trajectory J (s # states) (e # es)"
proof -
  have h: "states ! 0 = s'" using assms(1,2) by (cases states) (auto simp: trajectory_def)
  show ?thesis using assms h unfolding trajectory_def by (auto simp: nth_Cons split: nat.split)
qed

section \<open>What a run leaves behind\<close>

definition served :: "JournalEntry list \<Rightarrow> int" where
  "served es = (\<Sum>e\<leftarrow>es. int (length (filter IsAssigned (EvaluatedArcs (JeProvenance e)))))"

lemma record_arcs:
  "sc_loadsServiced (fold record_arc evs sc) = sc_loadsServiced sc + int (length (filter IsAssigned evs))"
  "sc_onTimePickups (fold record_arc evs sc) = sc_onTimePickups sc + int (length (filter IsAssigned evs))"
  "sc_onTimeDeliveries (fold record_arc evs sc) = sc_onTimeDeliveries sc + int (length (filter IsAssigned evs))"
  "sc_loadsOffered (fold record_arc evs sc) = sc_loadsOffered sc"
  "sc_lateMinutes (fold record_arc evs sc) = sc_lateMinutes sc"
  "sc_loadsUnserviced (fold record_arc evs sc) = sc_loadsUnserviced sc"
  by (induction evs arbitrary: sc) (simp_all add: record_arc_def RecordDispatch_def RecordDriverHours_def)

lemma record_offers_simps [simp]:
  "sc_loadsServiced (record_offers step s ls sc) = sc_loadsServiced sc"
  "sc_onTimePickups (record_offers step s ls sc) = sc_onTimePickups sc"
  "sc_onTimeDeliveries (record_offers step s ls sc) = sc_onTimeDeliveries sc"
  "sc_loadsOffered (record_offers step s ls sc) = sc_loadsOffered sc + int (length ls)"
  "sc_lateMinutes (record_offers step s ls sc) = sc_lateMinutes sc"
  "sc_loadsUnserviced (record_offers step s ls sc) = sc_loadsUnserviced sc"
  by (simp_all add: record_offers_def RecordLoadOffers_def RecordDriverHours_def)

text \<open>The figures that count: offers, loads served and on time.\<close>

definition counts_ok :: "StatisticCalculator \<Rightarrow> StatisticCalculator \<Rightarrow> JournalEntry list \<Rightarrow> int \<Rightarrow> bool" where
  "counts_ok sc sc' es offered \<longleftrightarrow> sc_loadsServiced sc' = sc_loadsServiced sc + served es \<and>
     sc_onTimePickups sc' = sc_onTimePickups sc + served es \<and> sc_onTimeDeliveries sc' = sc_onTimeDeliveries sc + served es \<and>
     sc_loadsOffered sc' = sc_loadsOffered sc + offered \<and> sc_lateMinutes sc' = sc_lateMinutes sc \<and>
     sc_loadsUnserviced sc' = sc_loadsUnserviced sc"

text \<open>The number of epochs from \<open>ep\<close> to the end, and the loads offered in the next \<open>k\<close> of them.\<close>

definition epochs_left :: "SimulationRunConfig \<Rightarrow> int \<Rightarrow> nat" where
  "epochs_left cfg ep = (if ep > EndEpoch cfg then 0 else nat ((EndEpoch cfg - ep) div StepSeconds cfg + 1))"

definition offers :: "LoadStream option \<Rightarrow> int \<Rightarrow> int \<Rightarrow> nat \<Rightarrow> int" where
  "offers stream ep step k = (\<Sum>i<k. int (length (stream_loads stream (ep + int i * step))))"

lemma epochs_left_Suc:
  assumes "0 < StepSeconds cfg" and "ep \<le> EndEpoch cfg"
  shows "epochs_left cfg ep = Suc (epochs_left cfg (ep + StepSeconds cfg))"
proof -
  let ?d = "EndEpoch cfg - ep" and ?s = "StepSeconds cfg"
  have d: "0 \<le> ?d div ?s" using assms by (simp add: pos_imp_zdiv_nonneg_iff)
  show ?thesis
  proof (cases "ep + ?s > EndEpoch cfg")
    case True
    then have "?d div ?s = 0" using assms by (intro div_pos_pos_trivial) auto
    then show ?thesis using True assms by (simp add: epochs_left_def)
  next
    case False
    have eq: "EndEpoch cfg - (ep + ?s) = ?d - ?s" by simp
    have "(?d - ?s) div ?s = ?d div ?s - 1" using assms(1) div_add_self2 [of ?s "?d - ?s"] by simp
    then have "(EndEpoch cfg - (ep + ?s)) div ?s + 1 = ?d div ?s" unfolding eq by simp
    then have "epochs_left cfg (ep + ?s) = nat (?d div ?s)" unfolding epochs_left_def using False by (metis (no_types))
    moreover have "epochs_left cfg ep = nat (?d div ?s + 1)" unfolding epochs_left_def using assms(2) by (metis linorder_not_le)
    ultimately show ?thesis using d by linarith
  qed
qed

lemma offers_Suc: "offers stream ep step (Suc k) = int (length (stream_loads stream ep)) + offers stream (ep + step) step k"
  unfolding offers_def by (subst sum.lessThan_Suc_shift) (simp add: algebra_simps)

lemma sim_loop_spec:
  assumes "0 < StepSeconds cfg" and "service_inv svc"
    and "sim_loop L J ctxDone cfg p stream ep s sc n svc = Some (r, s', svc')"
  shows "\<exists>states es. service_inv svc' \<and> os_journal svc' = os_journal svc @ es \<and> trajectory J states es \<and> hd states = s \<and> last states = s' \<and>
    length es \<le> epochs_left cfg ep \<and> (\<forall>e\<in>set es. JrRunID (CryptographicRecord e) = run_id (pol_Name p)) \<and>
    (\<forall>sc' m. r = Inr (sc', m) \<longrightarrow> length es = epochs_left cfg ep \<and> m = n + length es \<and>
       counts_ok sc sc' es (offers stream ep (StepSeconds cfg) (length es)))"
  using assms(2,3)
proof (induction "epochs_left cfg ep" arbitrary: ep s sc n svc)
  case 0
  have "ep > EndEpoch cfg" using 0(1) epochs_left_Suc [OF assms(1), of ep] by (cases "ep > EndEpoch cfg") auto
  then have "r = Inr (sc, n)" "s' = s" "svc' = svc" using 0(3) sim_loop.simps [of L J ctxDone cfg p stream ep s sc n svc] by auto
  then show ?case using 0 by (intro exI [of _ "[s]"] exI [of _ "[]"]) (simp add: counts_ok_def served_def offers_def)
next
  case (Suc k)
  have e: "\<not> ep > EndEpoch cfg" using Suc(2) by (auto simp: epochs_left_def split: if_splits)
  then have k: "k = epochs_left cfg (ep + StepSeconds cfg)" using epochs_left_Suc [OF assms(1), of ep] Suc(2) by simp
  let ?ls = "stream_loads stream ep"
  show ?case
  proof (cases "ctxDone ep")
    case True
    then have "r = Inl (ErrOther ''context canceled'')" "s' = s" "svc' = svc"
      using e Suc.prems(2) sim_loop.simps [of L J ctxDone cfg p stream ep s sc n svc] by auto
    then show ?thesis using Suc.prems by (intro exI [of _ "[s]"] exI [of _ "[]"]) simp
  next
    case False
    let ?O = "OptimizeEpoch L J (Some s) (Some p) (ep + StepSeconds cfg) ?ls svc"
    obtain r1 svc1 where O: "?O = Some (r1, svc1)"
      using e False Suc.prems(2) sim_loop.simps [of L J ctxDone cfg p stream ep s sc n svc] by (cases ?O) auto
    show ?thesis
    proof (cases r1)
      case (Inl err)
      then have "svc1 = svc" using epoch_failed [OF Suc.prems(1)] O by blast
      then have "r = Inl err" "s' = s" "svc' = svc"
        using e False O Inl Suc.prems(2) sim_loop.simps [of L J ctxDone cfg p stream ep s sc n svc] by auto
      then show ?thesis using Suc.prems by (intro exI [of _ "[s]"] exI [of _ "[]"]) simp
    next
      case (Inr x)
      obtain action prov s1 where x: "x = (action, prov, s1)" by (metis prod_cases3)
      let ?sc = "fold record_arc (EvaluatedArcs prov) (record_offers (StepSeconds cfg) s ?ls sc)"
      have L: "sim_loop L J ctxDone cfg p stream (ep + StepSeconds cfg) s1 ?sc (Suc n) svc1 = Some (r, s', svc')"
        using e False O Inr x Suc.prems(2) sim_loop.simps [of L J ctxDone cfg p stream ep s sc n svc] by auto
      from epoch_entry [OF Suc.prems(1) O [unfolded Inr x]] obtain en where
        en: "os_journal svc1 = os_journal svc @ [en]" "JeProvenance en = prov" "service_inv svc1"
        "HashState J (Some s) = Inr (InitialStateHash (CryptographicRecord en))"
        "HashState J (Some s1) = Inr (NextStateHash (CryptographicRecord en))"
        "JrRunID (CryptographicRecord en) = run_id (pol_Name p)"
        "epoch (st_information s) < epoch (st_information s1)" by blast
      from Suc.hyps(1) [OF k en(3) L] obtain states es where
        I: "service_inv svc'" "os_journal svc' = os_journal svc1 @ es" "trajectory J states es" "hd states = s1" "last states = s'"
        "length es \<le> epochs_left cfg (ep + StepSeconds cfg)" "\<forall>e\<in>set es. JrRunID (CryptographicRecord e) = run_id (pol_Name p)"
        and C: "\<And>sc' m. r = Inr (sc', m) \<Longrightarrow> length es = epochs_left cfg (ep + StepSeconds cfg) \<and> m = Suc n + length es \<and>
          counts_ok ?sc sc' es (offers stream (ep + StepSeconds cfg) (StepSeconds cfg) (length es))" by blast
      have T: "trajectory J (s # states) (en # es)" by (rule trajectory_Cons [OF I(3,4) en(4,5,7)])
      have ne: "states \<noteq> []" using I(3) by (auto simp: trajectory_def)
      have c: "counts_ok sc sc' (en # es) (offers stream ep (StepSeconds cfg) (length (en # es)))" if "r = Inr (sc', m)" for sc' m
        using C [OF that] en(2) by (auto simp: counts_ok_def record_arcs served_def offers_Suc)
      have lk: "epochs_left cfg ep = Suc (epochs_left cfg (ep + StepSeconds cfg))" using k Suc(2) by simp
      show ?thesis
        using T I en(1,6) ne C c lk by (intro exI [of _ "s # states"] exI [of _ "en # es"]) auto
    qed
  qed
qed

lemma sim_loop_returns:
  assumes "0 < StepSeconds cfg" and "\<And>s ep ls svc. OptimizeEpoch L J (Some s) (Some p) ep ls svc \<noteq> None"
  shows "sim_loop L J ctxDone cfg p stream ep s sc n svc \<noteq> None"
proof (induction "epochs_left cfg ep" arbitrary: ep s sc n svc)
  case 0
  have "ep > EndEpoch cfg" using 0 epochs_left_Suc [OF assms(1), of ep] by (cases "ep > EndEpoch cfg") auto
  then show ?case using sim_loop.simps [of L J ctxDone cfg p stream ep s sc n svc] by simp
next
  case (Suc k)
  have e: "\<not> ep > EndEpoch cfg" using Suc(2) by (auto simp: epochs_left_def split: if_splits)
  then have "k = epochs_left cfg (ep + StepSeconds cfg)" using epochs_left_Suc [OF assms(1), of ep] Suc(2) by simp
  note IH = Suc.hyps(1) [OF this]
  let ?O = "OptimizeEpoch L J (Some s) (Some p) (ep + StepSeconds cfg) (stream_loads stream ep) svc"
  obtain r svc' where O: "?O = Some (r, svc')" using assms(2) by (metis not_None_eq prod.exhaust)
  show ?case
  proof (cases r)
    case (Inl x)
    then show ?thesis using e O sim_loop.simps [of L J ctxDone cfg p stream ep s sc n svc] by (simp add: Let_def)
  next
    case (Inr x)
    then show ?thesis using e O IH sim_loop.simps [of L J ctxDone cfg p stream ep s sc n svc]
      by (cases x) (simp add: Let_def)
  qed
qed

text \<open>
  Property C31. A simulation with a policy whose epochs return always returns. Whatever its outcome, the journal has grown
  by one entry per completed epoch, and the entries trace a trajectory from the initial to the final state:
  each starts at the hash where the one before it ended, at a later epoch. A run that completes has made
  the epochs from the start to the end of its configuration, and its counters are those of the journal:
  the loads the stream offered and the arcs its entries assigned. The late minutes and the unserviced
  loads it reports are always zero and every load it serves counts as on time.
\<close>

theorem Simulator_Run_correct:
  assumes "service_reachable L J svc" and "RunConfig_Validate cfg = Inr ()"
    and "\<And>s ep ls svc. OptimizeEpoch L J (Some s) (Some p) ep ls svc \<noteq> None"
  shows "\<exists>r s svc' states es. Simulator_Run L J ctxDone cfg (Some s0) (Some p) stream svc = Some (r, Some s, svc') \<and>
    os_journal svc' = os_journal svc @ es \<and> trajectory J states es \<and> hd states = s0 \<and> last states = s \<and>
    (\<forall>e\<in>set es. JrRunID (CryptographicRecord e) = run_id (pol_Name p)) \<and>
    (\<forall>summary. r = Inr summary \<longrightarrow>
      int (length es) = (EndEpoch cfg - StartEpoch cfg) div StepSeconds cfg + 1 \<and> TotalEpochs summary = length es \<and>
      JournalEntries summary = os_journal svc' \<and> LoadsServiced (KPIs summary) = served es \<and>
      LoadsOffered (KPIs summary) = offers stream (StartEpoch cfg) (StepSeconds cfg) (length es) \<and>
      KpiLateMinutes (KPIs summary) = 0 \<and> LoadsUnserviced (KPIs summary) = 0 \<and>
      OnTimePickupPercentage (KPIs summary) = roundFloat (percentage (served es) (served es)) 2 \<and>
      OnTimeDeliveryPercent (KPIs summary) = roundFloat (percentage (served es) (served es)) 2)"
proof -
  have st: "0 < StepSeconds cfg" "StartEpoch cfg \<le> EndEpoch cfg"
    using assms(2) by (auto simp: RunConfig_Validate_def split: if_splits)
  obtain r s svc' where R: "sim_loop L J ctxDone cfg p stream (StartEpoch cfg) s0 NewStatisticCalculator 0 svc = Some (r, s, svc')"
    using sim_loop_returns [OF st(1) assms(3)] by (metis not_None_eq prod_cases3)
  from sim_loop_spec [OF st(1) service_reachable_inv [OF assms(1)] R] obtain states es where
    S: "os_journal svc' = os_journal svc @ es" "trajectory J states es" "hd states = s0" "last states = s"
      "\<forall>e\<in>set es. JrRunID (CryptographicRecord e) = run_id (pol_Name p)"
    and C: "\<And>sc m. r = Inr (sc, m) \<Longrightarrow> length es = epochs_left cfg (StartEpoch cfg) \<and> m = 0 + length es \<and>
      counts_ok NewStatisticCalculator sc es (offers stream (StartEpoch cfg) (StepSeconds cfg) (length es))" by blast
  have n: "int (epochs_left cfg (StartEpoch cfg)) = (EndEpoch cfg - StartEpoch cfg) div StepSeconds cfg + 1"
    using st pos_imp_zdiv_nonneg_iff [of "StepSeconds cfg" "EndEpoch cfg - StartEpoch cfg"] by (simp add: epochs_left_def)
  show ?thesis
  proof (cases r)
    case (Inl e)
    then have "Simulator_Run L J ctxDone cfg (Some s0) (Some p) stream svc = Some (Inl e, Some s, svc')"
      using R assms(2) by (simp add: Simulator_Run_def)
    then show ?thesis using S by blast
  next
    case (Inr x)
    obtain sc m where x: "x = (sc, m)" by (cases x)
    then have "Simulator_Run L J ctxDone cfg (Some s0) (Some p) stream svc =
        Some (Inr \<lparr>SsRunID = RunID cfg, SsStartEpoch = StartEpoch cfg, SsEndEpoch = EndEpoch cfg, TotalEpochs = m,
            KPIs = KPI_Snapshot sc, JournalEntries = os_journal svc'\<rparr>, Some s, svc')"
      using R Inr assms(2) by (simp add: Simulator_Run_def)
    then show ?thesis using S C [OF Inr [unfolded x]] n
      by (intro exI [of _ states] exI [of _ es] exI conjI) (auto simp: counts_ok_def NewStatisticCalculator_def KPI_Snapshot_def Let_def)
  qed
qed

lemma idle_returns: "OptimizeEpoch L J (Some s) (Some idle_policy) ep ls svc \<noteq> None"
proof -
  have "Transition L rs [] ls \<noteq> None" for rs by (simp add: Transition_def Let_def split: sum.split)
  then have "advance_state L (os_filter svc) s NewEmptyAction ep ls \<noteq> None"
    by (auto simp: advance_state_def NewEmptyAction_def split: option.splits sum.splits)
  then show ?thesis by (auto simp: OptimizeEpoch_def idle_policy_def Let_def split: sum.split option.splits)
qed

theorem Simulator_Run_correct_witness:
  "\<exists>r s svc' states es. Simulator_Run demo_libm canon_lib (\<lambda>_. False) \<lparr>RunID = ''R'', StartEpoch = 1, EndEpoch = 7201, StepSeconds = 3600\<rparr>
      (Some canon_state) (Some idle_policy) None NewOptimizationService = Some (r, Some s, svc') \<and>
    trajectory canon_lib states es \<and> hd states = canon_state \<and> last states = s"
proof -
  have v: "RunConfig_Validate \<lparr>RunID = ''R'', StartEpoch = 1, EndEpoch = 7201, StepSeconds = 3600\<rparr> = Inr ()"
    by (simp add: RunConfig_Validate_def)
  show ?thesis
    using Simulator_Run_correct [OF service_reachable_New v idle_returns, of demo_libm canon_lib "\<lambda>_. False" canon_state None] by blast
qed

section \<open>Concurrent writers of the journal\<close>

text \<open>
  \<open>MemoryJournal.Record\<close> replaces the pointer to the entries by compare-and-swap and tries again when another
  writer was faster. A shared pointer is a version number with the slice it points to: every swap installs a
  fresh pointer, so two pointers are equal exactly when their versions are. A writer is about to load the
  pointer, holds the pointer and slice it loaded, or has returned.
\<close>

datatype writer = Loading JournalEntry | Swapping JournalEntry nat "JournalEntry list" | Returned JournalEntry

fun writer_entry :: "writer \<Rightarrow> JournalEntry" where
  "writer_entry (Loading e) = e"
| "writer_entry (Swapping e v old) = e"
| "writer_entry (Returned e) = e"

record journal_mem =
  ptr :: nat
  slice :: "JournalEntry list"
  writers :: "writer list"

inductive journal_step :: "journal_mem \<Rightarrow> journal_mem \<Rightarrow> bool" where
  load: "i < length (writers m) \<Longrightarrow> writers m ! i = Loading e \<Longrightarrow>
    journal_step m (m\<lparr>writers := (writers m)[i := Swapping e (ptr m) (slice m)]\<rparr>)"
| swap: "i < length (writers m) \<Longrightarrow> writers m ! i = Swapping e v old \<Longrightarrow> v = ptr m \<Longrightarrow>
    journal_step m (m\<lparr>ptr := Suc (ptr m), slice := Journal_Record e old, writers := (writers m)[i := Returned e]\<rparr>)"
| retry: "i < length (writers m) \<Longrightarrow> writers m ! i = Swapping e v old \<Longrightarrow> v \<noteq> ptr m \<Longrightarrow>
    journal_step m (m\<lparr>writers := (writers m)[i := Loading e]\<rparr>)"

inductive_cases journal_stepE: "journal_step m m'"

definition start_journal :: "JournalEntry list \<Rightarrow> JournalEntry list \<Rightarrow> journal_mem" where
  "start_journal entries es = \<lparr>ptr = 0, slice = entries, writers = map Loading es\<rparr>"

fun has_returned :: "writer \<Rightarrow> bool" where
  "has_returned (Returned e) = True"
| "has_returned _ = False"

text \<open>
  The invariant: a writer that holds the current pointer holds the current slice, no writer holds a pointer
  from the future, and the slice is the initial one followed by the entries of the writers that have
  returned, in some order.
\<close>

definition journal_inv :: "JournalEntry list \<Rightarrow> JournalEntry list \<Rightarrow> journal_mem \<Rightarrow> bool" where
  "journal_inv entries es m \<longleftrightarrow> map writer_entry (writers m) = es \<and>
     (\<forall>e v old. Swapping e v old \<in> set (writers m) \<longrightarrow> v \<le> ptr m \<and> (v = ptr m \<longrightarrow> old = slice m)) \<and>
     (\<exists>new. slice m = entries @ new \<and> mset new = mset (map writer_entry (filter has_returned (writers m))))"

lemma split_update:
  assumes "i < length ws"
  obtains us vs where "ws = us @ ws ! i # vs" and "ws[i := w] = us @ w # vs"
  using id_take_nth_drop [OF assms] upd_conv_take_nth_drop [OF assms] that by blast

lemma mset_filter_update:
  assumes "i < length ws" and "\<not> has_returned (ws ! i)" and "has_returned w"
  shows "mset (map writer_entry (filter has_returned (ws[i := w]))) =
    add_mset (writer_entry w) (mset (map writer_entry (filter has_returned ws)))"
proof -
  obtain us vs where s: "ws = us @ ws ! i # vs" "ws[i := w] = us @ w # vs" by (rule split_update [OF assms(1)])
  have "filter has_returned ws = filter has_returned us @ filter has_returned vs"
    by (subst s(1)) (simp add: assms(2))
  then show ?thesis unfolding s(2) using assms(3) by simp
qed

lemma filter_update_same:
  assumes "i < length ws" and "\<not> has_returned (ws ! i)" and "\<not> has_returned w"
  shows "filter has_returned (ws[i := w]) = filter has_returned ws"
proof -
  obtain us vs where s: "ws = us @ ws ! i # vs" "ws[i := w] = us @ w # vs" by (rule split_update [OF assms(1)])
  have "filter has_returned ws = filter has_returned us @ filter has_returned vs"
    by (subst s(1)) (simp add: assms(2))
  then show ?thesis unfolding s(2) using assms(3) by simp
qed

lemma map_entry_update: "i < length ws \<Longrightarrow> writer_entry w = writer_entry (ws ! i) \<Longrightarrow> map writer_entry (ws[i := w]) = map writer_entry ws"
  by (simp add: map_update list_update_same_conv)

lemma journal_step_inv:
  assumes "journal_step m m'" and "journal_inv entries es m"
  shows "journal_inv entries es m'"
  using assms
proof (cases rule: journal_step.cases)
  case (load i e)
  then show ?thesis using assms(2) unfolding journal_inv_def
    by (auto simp: map_entry_update filter_update_same dest!: set_update_subset_insert [THEN subsetD])
next
  case (swap i e v old)
  have "old = slice m" using swap assms(2) nth_mem [of i "writers m"] unfolding journal_inv_def by metis
  moreover obtain new where new: "slice m = entries @ new" "mset new = mset (map writer_entry (filter has_returned (writers m)))"
    using assms(2) unfolding journal_inv_def by blast
  moreover have "mset (new @ [e]) = mset (map writer_entry (filter has_returned ((writers m)[i := Returned e])))"
    using mset_filter_update [of i "writers m" "Returned e"] swap(2,3) new(2) by simp
  moreover have "v' \<le> ptr m" if "Swapping e' v' old' \<in> set ((writers m)[i := Returned e])" for e' v' old'
    using set_update_subset_insert [THEN subsetD, OF that] assms(2) unfolding journal_inv_def by auto
  moreover have "map writer_entry ((writers m)[i := Returned e]) = es"
    using swap(2,3) assms(2) by (simp add: map_entry_update journal_inv_def)
  ultimately show ?thesis unfolding journal_inv_def swap(1)
    by (simp add: Journal_Record_def) (metis Suc_n_not_le_n le_SucI)
next
  case (retry i e v old)
  then show ?thesis using assms(2) unfolding journal_inv_def
    by (auto simp: map_entry_update filter_update_same dest!: set_update_subset_insert [THEN subsetD])
qed

text \<open>Each writer can return from any state on its own: it loads (again) and swaps.\<close>

lemma writer_returns:
  assumes "i < length (writers m)" and "writer_entry (writers m ! i) = e" and "\<not> has_returned (writers m ! i)"
  shows "\<exists>m'. journal_step\<^sup>*\<^sup>* m m' \<and> writers m' = (writers m)[i := Returned e]"
proof -
  have l: "\<exists>m'. journal_step\<^sup>*\<^sup>* m m' \<and> writers m' = (writers m)[i := Returned e]"
    if "i < length (writers m)" "writers m ! i = Loading e" for m
  proof -
    let ?m1 = "m\<lparr>writers := (writers m)[i := Swapping e (ptr m) (slice m)]\<rparr>"
    have "journal_step m ?m1" using that by (rule journal_step.load)
    moreover have "journal_step ?m1 (?m1\<lparr>ptr := Suc (ptr ?m1), slice := Journal_Record e (slice m), writers := (writers ?m1)[i := Returned e]\<rparr>)"
      (is "journal_step ?m1 ?m2")
      by (rule journal_step.swap) (use that in auto)
    ultimately have "journal_step\<^sup>*\<^sup>* m ?m2" by (rule converse_rtranclp_into_rtranclp [OF _ r_into_rtranclp])
    moreover have "writers ?m2 = (writers m)[i := Returned e]" by simp
    ultimately show ?thesis by blast
  qed
  show ?thesis
  proof (cases "writers m ! i")
    case (Loading e')
    then show ?thesis using l assms by simp
  next
    case (Swapping e' v old)
    then have e: "e' = e" using assms(2) by simp
    show ?thesis
    proof (cases "v = ptr m")
      case True
      let ?m1 = "m\<lparr>ptr := Suc (ptr m), slice := Journal_Record e old, writers := (writers m)[i := Returned e]\<rparr>"
      have "journal_step m ?m1" using journal_step.swap [OF assms(1) Swapping True] unfolding e .
      then have "journal_step\<^sup>*\<^sup>* m ?m1" by (rule r_into_rtranclp)
      moreover have "writers ?m1 = (writers m)[i := Returned e]" by simp
      ultimately show ?thesis by blast
    next
      case False
      let ?m1 = "m\<lparr>writers := (writers m)[i := Loading e]\<rparr>"
      have s: "journal_step m ?m1" using journal_step.retry [OF assms(1) Swapping False] unfolding e .
      have "i < length (writers ?m1)" "writers ?m1 ! i = Loading e" using assms(1) by simp_all
      then obtain m' where m': "journal_step\<^sup>*\<^sup>* ?m1 m'" "writers m' = (writers ?m1)[i := Returned e]" using l [of ?m1] by blast
      have "journal_step\<^sup>*\<^sup>* m m'" using s m'(1) by (rule converse_rtranclp_into_rtranclp)
      moreover have "writers m' = (writers m)[i := Returned e]" using m'(2) by simp
      ultimately show ?thesis by blast
    qed
  qed (use assms in simp)
qed

lemma writers_return: "\<exists>m'. journal_step\<^sup>*\<^sup>* m m' \<and> (\<forall>w\<in>set (writers m'). has_returned w)"
proof (induction "length (filter (\<lambda>w. \<not> has_returned w) (writers m))" arbitrary: m)
  case 0
  then show ?case by (intro exI [of _ m]) (auto simp: filter_empty_conv)
next
  case (Suc k)
  then obtain w where "w \<in> set (filter (\<lambda>w. \<not> has_returned w) (writers m))" by (cases "filter (\<lambda>w. \<not> has_returned w) (writers m)") auto
  then obtain i where i: "i < length (writers m)" "\<not> has_returned (writers m ! i)" by (auto simp: in_set_conv_nth)
  obtain m1 where m1: "journal_step\<^sup>*\<^sup>* m m1" "writers m1 = (writers m)[i := Returned (writer_entry (writers m ! i))]"
    using writer_returns [OF i(1) refl i(2)] by blast
  obtain us vs where s: "writers m = us @ writers m ! i # vs" "writers m1 = us @ Returned (writer_entry (writers m ! i)) # vs"
    using split_update [OF i(1)] m1(2) by metis
  have "length (filter (\<lambda>w. \<not> has_returned w) (writers m)) =
      Suc (length (filter (\<lambda>w. \<not> has_returned w) us) + length (filter (\<lambda>w. \<not> has_returned w) vs))"
    by (subst s(1)) (simp add: i(2))
  moreover have "length (filter (\<lambda>w. \<not> has_returned w) (writers m1)) =
      length (filter (\<lambda>w. \<not> has_returned w) us) + length (filter (\<lambda>w. \<not> has_returned w) vs)" unfolding s(2) by simp
  ultimately have "k = length (filter (\<lambda>w. \<not> has_returned w) (writers m1))" using Suc(2) by simp
  from Suc(1) [OF this] m1(1) show ?case by (blast intro: rtranclp_trans)
qed

text \<open>
  Property C32. No update is lost: in every reachable state the journal holds the entries it started with, in their order,
  and then exactly one entry for each call that has returned; and from every reachable state all calls can
  return, after which it holds all of them.
\<close>

theorem Journal_Record_linearizable:
  assumes "journal_step\<^sup>*\<^sup>* (start_journal entries es) m"
  shows "map writer_entry (writers m) = es \<and>
    (\<exists>new. slice m = entries @ new \<and> mset new = mset (map writer_entry (filter has_returned (writers m)))) \<and>
    (\<exists>m' new. journal_step\<^sup>*\<^sup>* m m' \<and> slice m' = entries @ new \<and> mset new = mset es)"
proof -
  have i: "journal_inv entries es (start_journal entries es)"
    by (auto simp: journal_inv_def start_journal_def comp_def filter_empty_conv)
  have inv: "journal_inv entries es m'" if "journal_step\<^sup>*\<^sup>* (start_journal entries es) m'" for m'
    using that i by (induction rule: rtranclp_induct) (auto intro: journal_step_inv)
  obtain m' where m': "journal_step\<^sup>*\<^sup>* m m'" "\<forall>w\<in>set (writers m'). has_returned w" using writers_return by blast
  then have "journal_inv entries es m'" using inv assms by (meson rtranclp_trans)
  moreover have "filter has_returned (writers m') = writers m'" using m'(2) by (simp add: filter_id_conv)
  ultimately have "\<exists>new. slice m' = entries @ new \<and> mset new = mset es" by (auto simp: journal_inv_def)
  with m'(1) inv [OF assms] show ?thesis unfolding journal_inv_def by blast
qed

theorem Journal_Record_linearizable_witness:
  "\<forall>e f. \<exists>m new. journal_step\<^sup>*\<^sup>* (start_journal [] [e, f]) m \<and> slice m = new \<and> mset new = mset [e, f]"
  using Journal_Record_linearizable [OF rtranclp.rtrancl_refl] by (metis append_Nil)

end
