(* ===== verification/Tours.thy ===== *)
theory Tours
  imports Cost
begin

text \<open>
  \<open>internal/domain/policy/tour.go\<close> and \<open>tour_synthesizer.go\<close>: tours of chained legs with their validation and
  totals, and the synthesis of a tour from an initial load and a pool of candidates. \<open>None\<close> is a trip
  simulation that does not return; the context of a synthesis is a predicate on the leg number at which
  it is asked. Copies are identities on values.
\<close>

section \<open>Tours\<close>

type_synonym TourLegType = string

definition LegDeadhead :: TourLegType where "LegDeadhead = ''DEADHEAD''"
definition LegLoaded :: TourLegType where "LegLoaded = ''LOADED''"
definition LegRest :: TourLegType where "LegRest = ''REST''"
definition LegDwell :: TourLegType where "LegDwell = ''DWELL''"
definition LegRepositionHome :: TourLegType where "LegRepositionHome = ''REPOSITION_HOME''"

lemmas leg_types = LegDeadhead_def LegLoaded_def LegRest_def LegDwell_def LegRepositionHome_def

record TourLeg =
  LegType :: TourLegType
  LegLoadID :: string
  LegOrigin :: Location
  LegDestination :: Location
  LegStart :: int
  LegEnd :: int
  LegMiles :: f64
  LegMinutes :: int
  LegCost :: "53 TripCostBreakdown"

record DriverTour =
  TourDriverID :: string
  TourLegs :: "TourLeg list"
  TotalLoadedMiles :: f64
  TotalEmptyMiles :: f64
  TotalDistanceMiles :: f64
  EmptyRatio :: f64
  GrossRevenue :: f64
  TourTotalCost :: f64
  TourNet :: f64
  StartsAtEpoch :: int
  EndsAtEpoch :: int
  EndsAtDomicile :: bool
  FinalLocation :: Location
  TourFinalClocks :: "DriverClocks option"

text \<open>The checks of a leg against the one before it.\<close>

definition check_leg :: "libm \<Rightarrow> TourLeg option \<Rightarrow> TourLeg \<Rightarrow> unit result" where
  "check_leg L prev leg =
     (if LegEnd leg < LegStart leg then Inl ErrTourDiscontinuousTemporal
      else case prev of
        None \<Rightarrow> Inr ()
      | Some p \<Rightarrow>
          if LegStart leg < LegEnd p then Inl ErrTourDiscontinuousTemporal
          else if DistanceMiles L (LegDestination p) (LegOrigin leg) > Fin (1 / 2) \<and>
              NodeID (LegDestination p) \<noteq> NodeID (LegOrigin leg) then Inl ErrTourDiscontinuousSpatial
          else Inr ())"

fun check_legs :: "libm \<Rightarrow> TourLeg option \<Rightarrow> TourLeg list \<Rightarrow> unit result" where
  "check_legs L prev [] = Inr ()"
| "check_legs L prev (leg # legs) =
     (case check_leg L prev leg of Inl e \<Rightarrow> Inl e | Inr _ \<Rightarrow> check_legs L (Some leg) legs)"

text \<open>The running sums: loaded miles, empty miles, revenue and cost.\<close>

definition add_leg :: "TourLeg \<Rightarrow> f64 \<times> f64 \<times> f64 \<times> f64 \<Rightarrow> f64 \<times> f64 \<times> f64 \<times> f64" where
  "add_leg leg = (\<lambda>(loadedMiles, emptyMiles, grossRev, totalCost).
     (if LegType leg = LegLoaded then loadedMiles + LegMiles leg else loadedMiles,
      if LegType leg \<noteq> LegLoaded \<and> (LegType leg = LegDeadhead \<or> LegType leg = LegRepositionHome)
        then emptyMiles + LegMiles leg else emptyMiles,
      if LegType leg = LegLoaded then grossRev + TcRevenue (LegCost leg) else grossRev,
      totalCost + TcTotalCost (LegCost leg)))"

definition at_domicile :: "libm \<Rightarrow> Location \<Rightarrow> Location option \<Rightarrow> bool" where
  "at_domicile L dest domicile =
     (case domicile of None \<Rightarrow> False
      | Some h \<Rightarrow> DistanceMiles L dest h < Fin 5 \<or> NodeID dest = NodeID h)"

definition NewDriverTour ::
  "libm \<Rightarrow> string \<Rightarrow> TourLeg list \<Rightarrow> DriverClocks option \<Rightarrow> Location option \<Rightarrow> DriverTour result" where
  "NewDriverTour L driverID legs finalClocks domicile =
     (if length legs = 0 then Inl ErrEmptyTour
      else if driverID = '''' then Inl (ErrOther ''driverID cannot be empty'')
      else case check_legs L None legs of Inl e \<Rightarrow> Inl e | Inr _ \<Rightarrow>
      case fold add_leg legs (0, 0, 0, 0) of (loadedMiles, emptyMiles, grossRev, totalCost) \<Rightarrow>
      let totalDist = loadedMiles + emptyMiles; lastLeg = last legs in
        Inr \<lparr>TourDriverID = driverID, TourLegs = legs, TotalLoadedMiles = loadedMiles, TotalEmptyMiles = emptyMiles,
          TotalDistanceMiles = totalDist, EmptyRatio = (if totalDist > 0 then emptyMiles / totalDist else 0),
          GrossRevenue = grossRev, TourTotalCost = totalCost, TourNet = grossRev - totalCost,
          StartsAtEpoch = LegStart (hd legs), EndsAtEpoch = LegEnd lastLeg,
          EndsAtDomicile = at_domicile L (LegDestination lastLeg) domicile,
          FinalLocation = LegDestination lastLeg, TourFinalClocks = finalClocks\<rparr>)"

definition LoadedLegCount :: "DriverTour \<Rightarrow> nat" where
  "LoadedLegCount t = length (filter (\<lambda>l. LegType l = LegLoaded) (TourLegs t))"

definition ProfitPerTotalMile :: "DriverTour \<Rightarrow> f64" where
  "ProfitPerTotalMile t = (if TotalDistanceMiles t \<le> 0 then 0 else TourNet t / TotalDistanceMiles t)"

definition TotalDurationHours :: "DriverTour \<Rightarrow> f64" where
  "TotalDurationHours t = of_int_fl (EndsAtEpoch t - StartsAtEpoch t) / Fin 3600"

section \<open>Synthesis\<close>

record TourSynthesizerConfig =
  MaxTourLegs :: int
  MaxPlanningHorizonHours :: f64
  TourMaxDeadheadMiles :: f64
  AutoRepositionHome :: bool
  TourCostConfig :: CostConfig
  TourFeasibilityConfig :: FeasibilityConfig

definition DefaultTourSynthesizerConfig :: TourSynthesizerConfig where
  "DefaultTourSynthesizerConfig = \<lparr>MaxTourLegs = 3, MaxPlanningHorizonHours = Fin 72, TourMaxDeadheadMiles = Fin 150,
     AutoRepositionHome = False, TourCostConfig = DefaultCostConfig, TourFeasibilityConfig = DefaultFeasibilityConfig\<rparr>"

definition NewTourSynthesizer :: "TourSynthesizerConfig \<Rightarrow> TourSynthesizerConfig result" where
  "NewTourSynthesizer config =
     (if MaxTourLegs config \<le> 0 then Inl (ErrOther ''tour: MaxTourLegs'')
      else if MaxPlanningHorizonHours config \<le> 0 then Inl (ErrOther ''tour: MaxPlanningHorizonHours'')
      else if TourMaxDeadheadMiles config \<le> 0 then Inl (ErrOther ''tour: MaxDeadheadMiles'')
      else Inr config)"

definition tour_speed :: "TourSynthesizerConfig \<Rightarrow> f64" where
  "tour_speed cfg = (let s = AverageSpeedMPH (TourFeasibilityConfig cfg) in if s \<le> 0 then Fin 50 else s)"

definition tour_specs :: "TourSynthesizerConfig \<Rightarrow> PolicySpecs" where
  "tour_specs cfg = (let specs = HOSPolicySpecs (TourFeasibilityConfig cfg) in if MaxDrivingMin specs = 0 then USPolicySpecs else specs)"

text \<open>\<open>int((miles / avgSpeed) * 60.0)\<close>\<close>

definition leg_minutes :: "f64 \<Rightarrow> f64 \<Rightarrow> int" where
  "leg_minutes miles speed = to_int ((miles / speed) * Fin 60)"

definition window_time :: "int \<Rightarrow> time" where
  "window_time sec = (if sec > 0 then time_Unix sec else zero_time)"

definition zero_cost :: "53 TripCostBreakdown" where
  "zero_cost = \<lparr>TcRevenue = 0, TcFixedCost = 0, TcLoadedCost = 0, TcEmptyCost = 0, TcEmptyToHomeCost = 0, TcDwellCost = 0,
     TcLatePenalty = 0, TcDriverBonus = 0, TcTotalCost = 0, NetContribution = 0\<rparr>"

text \<open>The legs before the haul, each made when it is needed, and the epoch they end at.\<close>

definition deadhead_legs :: "TourSynthesizerConfig \<Rightarrow> Location \<Rightarrow> Load \<Rightarrow> f64 \<Rightarrow> int \<Rightarrow> TourLeg list \<times> int" where
  "deadhead_legs cfg startLoc load deadheadMiles cur =
     (if deadheadMiles > rnd (1 / 10) then
        let minutes = leg_minutes deadheadMiles (tour_speed cfg); end = cur + minutes * 60;
            cost = deadheadMiles * EmptyMileRate (TourCostConfig cfg) in
        ([\<lparr>LegType = LegDeadhead, LegLoadID = LdID load, LegOrigin = startLoc, LegDestination = Origin load,
           LegStart = cur, LegEnd = end, LegMiles = deadheadMiles, LegMinutes = minutes,
           LegCost = zero_cost\<lparr>TcEmptyCost := cost, TcTotalCost := cost\<rparr>\<rparr>], end)
      else ([], cur))"

definition dwell_legs :: "TourSynthesizerConfig \<Rightarrow> Load \<Rightarrow> int \<Rightarrow> int \<Rightarrow> TourLeg list \<times> int" where
  "dwell_legs cfg load dwellMin cur =
     (if dwellMin > 0 then
        let end = cur + dwellMin * 60;
            cost = (of_int_fl dwellMin / Fin 60) * EarlyArrivalPerHour (TourCostConfig cfg) in
        ([\<lparr>LegType = LegDwell, LegLoadID = LdID load, LegOrigin = Origin load, LegDestination = Origin load,
           LegStart = cur, LegEnd = end, LegMiles = 0, LegMinutes = dwellMin,
           LegCost = zero_cost\<lparr>TcDwellCost := cost, TcTotalCost := cost\<rparr>\<rparr>], end)
      else ([], cur))"

definition rest_legs :: "Load \<Rightarrow> int \<Rightarrow> int \<Rightarrow> TourLeg list \<times> int" where
  "rest_legs load restMin cur =
     (if restMin > 0 then
        let end = cur + restMin * 60 in
        ([\<lparr>LegType = LegRest, LegLoadID = LdID load, LegOrigin = Origin load, LegDestination = Origin load,
           LegStart = cur, LegEnd = end, LegMiles = 0, LegMinutes = restMin, LegCost = zero_cost\<rparr>], end)
      else ([], cur))"

definition haul_leg :: "TourSynthesizerConfig \<Rightarrow> Load \<Rightarrow> f64 \<Rightarrow> int \<Rightarrow> int \<Rightarrow> TourLeg" where
  "haul_leg cfg load loadedMiles cur end =
     (let loadedCost = loadedMiles * LoadedMileRate (TourCostConfig cfg);
          fixedCost = FixedCostPerLoad (TourCostConfig cfg);
          totalLegCost = loadedCost + fixedCost in
      \<lparr>LegType = LegLoaded, LegLoadID = LdID load, LegOrigin = Origin load, LegDestination = Destination load,
       LegStart = cur, LegEnd = end, LegMiles = loadedMiles, LegMinutes = leg_minutes loadedMiles (tour_speed cfg),
       LegCost = zero_cost\<lparr>TcRevenue := Revenue load, TcLoadedCost := loadedCost, TcFixedCost := fixedCost,
         TcTotalCost := totalLegCost, NetContribution := Revenue load - totalLegCost\<rparr>\<rparr>)"

definition load_legs ::
  "TourSynthesizerConfig \<Rightarrow> Location \<Rightarrow> int \<Rightarrow> Load \<Rightarrow> f64 \<Rightarrow> f64 \<Rightarrow> TripFeasibilityResult \<Rightarrow> TourLeg list" where
  "load_legs cfg startLoc startEpoch load deadheadMiles loadedMiles res =
     (case deadhead_legs cfg startLoc load deadheadMiles startEpoch of (legs1, cur1) \<Rightarrow>
      case dwell_legs cfg load (InsertedDwellMin res) cur1 of (legs2, cur2) \<Rightarrow>
      case rest_legs load (InsertedRestMin res) cur2 of (legs3, cur3) \<Rightarrow>
        legs1 @ legs2 @ legs3 @ [haul_leg cfg load loadedMiles cur3 (Unix_of (UnloadingEndTime res))])"

text \<open>The result of a simulated load: its legs, the clocks, the place and the epoch after it.\<close>

type_synonym chained = "TourLeg list \<times> DriverClocks \<times> Location \<times> int"

definition simulateSingleLoad ::
  "libm \<Rightarrow> TourSynthesizerConfig \<Rightarrow> Location \<Rightarrow> int \<Rightarrow> DriverClocks option \<Rightarrow> Load \<Rightarrow> Driver \<Rightarrow> chained result option" where
  "simulateSingleLoad L cfg startLoc startEpoch startClocks load driver =
     (if \<not> CanHandle (DrvEquipment driver) (RequiredEquipment load) (RequiredEndorsements load)
      then Some (Inl (ErrOther ''driver equipment incompatible with load''))
      else let deadheadMiles = DistanceMiles L startLoc (Origin load);
               loadedMiles = DistanceMiles L (Origin load) (Destination load) in
      on_ok (EvaluateTripFeasibility startClocks deadheadMiles loadedMiles 60 60 (tour_speed cfg)
          (window_time (PickupEarliestEpoch load)) (window_time (PickupLatestEpoch load))
          (window_time (DeliveryEarliestEpoch load)) (window_time (DeliveryLatestEpoch load)) (tour_specs cfg))
        (\<lambda>res.
          if \<not> IsFeasible res then Some (Inl (ErrOther ''trip infeasible''))
          else let arrival = Unix_of (UnloadingEndTime res) in
          if of_int_fl (arrival - startEpoch) / Fin 3600 > MaxPlanningHorizonHours cfg
            then Some (Inl (ErrOther ''exceeds tour planning horizon''))
          else Some (Inr (load_legs cfg startLoc startEpoch load deadheadMiles loadedMiles res, TripFinalClocks res,
            Destination load, arrival))))"

text \<open>A candidate continuation with the sum of its legs' contributions.\<close>

definition option_net :: "TourLeg list \<Rightarrow> f64" where
  "option_net legs = fold (\<lambda>l net. net + NetContribution (LegCost l)) legs 0"

definition option_less :: "Load \<times> chained \<Rightarrow> Load \<times> chained \<Rightarrow> bool" where
  "option_less a b =
     (let na = option_net (fst (snd a)); nb = option_net (fst (snd b)) in
      if \<not> feq na nb then na > nb else LdID (fst a) < LdID (fst b))"

fun continuation_options ::
  "libm \<Rightarrow> TourSynthesizerConfig \<Rightarrow> chained \<Rightarrow> string set \<Rightarrow> Driver \<Rightarrow> Load list \<Rightarrow> (Load \<times> chained) list option" where
  "continuation_options L cfg cur used driver [] = Some []"
| "continuation_options L cfg cur used driver (cand # cands) =
     (case cur of (_, clk, loc, ep) \<Rightarrow>
      if LdID cand \<in> used \<or> DistanceMiles L loc (Origin cand) > TourMaxDeadheadMiles cfg
      then continuation_options L cfg cur used driver cands
      else case simulateSingleLoad L cfg loc ep (Some clk) cand driver of
        None \<Rightarrow> None
      | Some (Inl _) \<Rightarrow> continuation_options L cfg cur used driver cands
      | Some (Inr c) \<Rightarrow> map_option (Cons (cand, c)) (continuation_options L cfg cur used driver cands))"

definition findBestContinuation ::
  "libm \<Rightarrow> TourSynthesizerConfig \<Rightarrow> chained \<Rightarrow> string set \<Rightarrow> Driver \<Rightarrow> Load list \<Rightarrow> (Load \<times> chained) option option" where
  "findBestContinuation L cfg cur used driver cands =
     (case continuation_options L cfg cur used driver cands of
        None \<Rightarrow> None
      | Some [] \<Rightarrow> Some None
      | Some options \<Rightarrow> Some (Some (hd (sort_slice option_less options))))"

text \<open>The chaining loop from leg \<open>legNum\<close> on, for at most \<open>n\<close> further loads.\<close>

fun chain_loads ::
  "libm \<Rightarrow> TourSynthesizerConfig \<Rightarrow> (int \<Rightarrow> bool) \<Rightarrow> Driver \<Rightarrow> Load list \<Rightarrow> nat \<Rightarrow> int \<Rightarrow> chained \<Rightarrow> string set \<Rightarrow>
    chained result option" where
  "chain_loads L cfg ctxDone driver cands 0 legNum cur used = Some (Inr cur)"
| "chain_loads L cfg ctxDone driver cands (Suc n) legNum cur used =
     (if ctxDone legNum then Some (Inl (ErrOther ''context canceled''))
      else case findBestContinuation L cfg cur used driver cands of
        None \<Rightarrow> None
      | Some None \<Rightarrow> Some (Inr cur)
      | Some (Some (best, legs, clk, loc, ep)) \<Rightarrow>
          chain_loads L cfg ctxDone driver cands n (legNum + 1) (fst cur @ legs, clk, loc, ep) (insert (LdID best) used))"

definition simulateHomeReposition ::
  "libm \<Rightarrow> TourSynthesizerConfig \<Rightarrow> Location \<Rightarrow> int \<Rightarrow> Location \<Rightarrow> TourLeg result" where
  "simulateHomeReposition L cfg loc ep domicile =
     (let dist = DistanceMiles L loc domicile in
      if dist \<le> Fin (1 / 2) then Inl (ErrOther ''already at domicile'')
      else let driveMinutes = leg_minutes dist (tour_speed cfg);
               cost = dist * EmptyToHomeRate (TourCostConfig cfg) in
        Inr \<lparr>LegType = LegRepositionHome, LegLoadID = '''', LegOrigin = loc, LegDestination = domicile,
          LegStart = ep, LegEnd = ep + driveMinutes * 60, LegMiles = dist, LegMinutes = driveMinutes,
          LegCost = zero_cost\<lparr>TcEmptyToHomeCost := cost, TcTotalCost := cost, NetContribution := - cost\<rparr>\<rparr>)"

definition domicile_of :: "Driver \<Rightarrow> Location option" where
  "domicile_of driver = (if loc_set (HomeLocation driver) then Some (HomeLocation driver) else None)"

definition home_legs :: "libm \<Rightarrow> TourSynthesizerConfig \<Rightarrow> Location option \<Rightarrow> Location \<Rightarrow> int \<Rightarrow> TourLeg list" where
  "home_legs L cfg domicile loc ep =
     (case domicile of
        None \<Rightarrow> []
      | Some h \<Rightarrow>
          if AutoRepositionHome cfg \<and> DistanceMiles L loc h > 1
          then (case simulateHomeReposition L cfg loc ep h of Inl _ \<Rightarrow> [] | Inr leg \<Rightarrow> [leg]) else [])"

definition SynthesizeTour ::
  "libm \<Rightarrow> TourSynthesizerConfig \<Rightarrow> (int \<Rightarrow> bool) \<Rightarrow> Driver \<Rightarrow> Load \<Rightarrow> Load list \<Rightarrow> DriverTour result option" where
  "SynthesizeTour L cfg ctxDone driver initialLoad cands =
     (if LdID initialLoad = '''' then Some (Inl (ErrOther ''initialLoad cannot be empty''))
      else on_ok (simulateSingleLoad L cfg (CurrentLocation driver) (AvailableEpoch driver) (Clocks driver) initialLoad driver)
        (\<lambda>leg1. on_ok (chain_loads L cfg ctxDone driver cands (nat (MaxTourLegs cfg - 1)) 2 leg1 {LdID initialLoad})
          (\<lambda>(legs, clk, loc, ep).
            Some (NewDriverTour L (DrvID driver) (legs @ home_legs L cfg (domicile_of driver) loc ep) (Some clk)
              (domicile_of driver)))))"

section \<open>What a tour is\<close>

definition leg_follows :: "libm \<Rightarrow> TourLeg \<Rightarrow> TourLeg \<Rightarrow> bool" where
  "leg_follows L p leg \<longleftrightarrow> LegEnd p \<le> LegStart leg \<and>
     (NodeID (LegDestination p) = NodeID (LegOrigin leg) \<or>
      \<not> DistanceMiles L (LegDestination p) (LegOrigin leg) > Fin (1 / 2))"

lemma check_legs_iff:
  "check_legs L prev legs = Inr () \<longleftrightarrow>
     (\<forall>leg\<in>set legs. LegStart leg \<le> LegEnd leg) \<and> successively (leg_follows L) legs \<and>
     (legs \<noteq> [] \<longrightarrow> (case prev of None \<Rightarrow> True | Some p \<Rightarrow> leg_follows L p (hd legs)))"
proof (induction legs arbitrary: prev)
  case (Cons leg legs)
  have c: "check_leg L prev leg = Inr () \<longleftrightarrow> LegStart leg \<le> LegEnd leg \<and>
    (case prev of None \<Rightarrow> True | Some p \<Rightarrow> leg_follows L p leg)"
    by (auto simp: check_leg_def leg_follows_def split: option.split)
  show ?case
  proof (cases "check_leg L prev leg")
    case (Inl e)
    then show ?thesis using c by (auto split: option.splits)
  next
    case (Inr u)
    then show ?thesis using c Cons.IH [of "Some leg"] by (cases legs) (auto split: option.splits)
  qed
qed simp

lemma successively_ends:
  assumes "successively (leg_follows L) legs" and "\<forall>leg\<in>set legs. LegStart leg \<le> LegEnd leg" and "legs \<noteq> []"
  shows "LegStart (hd legs) \<le> LegEnd (last legs)"
  using assms
proof (induction legs)
  case (Cons leg legs)
  then show ?case by (cases legs) (auto simp: leg_follows_def)
qed simp

text \<open>
  The constructor accepts exactly the non-empty chronological chains of legs of a named driver: every leg
  ends after it starts, and each starts no earlier than the one before it ends, at its destination or
  within half a mile of it. What it returns starts and ends with its legs.
\<close>

theorem NewDriverTour_iff:
  "(\<exists>t. NewDriverTour L driverID legs clk domicile = Inr t \<and> TourLegs t = legs \<and> TourDriverID t = driverID \<and>
      StartsAtEpoch t = LegStart (hd legs) \<and> EndsAtEpoch t = LegEnd (last legs) \<and> StartsAtEpoch t \<le> EndsAtEpoch t \<and>
      TourNet t = GrossRevenue t - TourTotalCost t) \<longleftrightarrow>
   legs \<noteq> [] \<and> driverID \<noteq> '''' \<and> (\<forall>leg\<in>set legs. LegStart leg \<le> LegEnd leg) \<and> successively (leg_follows L) legs"
proof (cases "legs \<noteq> [] \<and> driverID \<noteq> '''' \<and> check_legs L None legs = Inr ()")
  case True
  then show ?thesis using check_legs_iff [of L None legs] successively_ends [of L legs]
    by (simp add: NewDriverTour_def Let_def split: prod.split)
next
  case False
  then show ?thesis using check_legs_iff [of L None legs]
    by (auto simp: NewDriverTour_def split: sum.splits)
qed

section \<open>What a synthesized tour is\<close>

definition loaded_ids :: "TourLeg list \<Rightarrow> string list" where
  "loaded_ids legs = map LegLoadID (filter (\<lambda>l. LegType l = LegLoaded) legs)"

lemma loaded_ids_append [simp]: "loaded_ids (xs @ ys) = loaded_ids xs @ loaded_ids ys"
  by (simp add: loaded_ids_def)

lemma loaded_ids_Nil [simp]: "loaded_ids [] = []"
  by (simp add: loaded_ids_def)

lemma load_legs_loaded [simp]: "loaded_ids (load_legs cfg loc ep load dh lm res) = [LdID load]"
  by (auto simp: load_legs_def deadhead_legs_def dwell_legs_def rest_legs_def haul_leg_def loaded_ids_def leg_types Let_def)

lemma home_leg_type: "simulateHomeReposition L cfg loc ep h = Inr leg \<Longrightarrow> LegType leg = LegRepositionHome"
  unfolding simulateHomeReposition_def Let_def by (simp split: if_split_asm) (metis TourLeg.select_convs(1))

lemma home_legs_loaded [simp]: "loaded_ids (home_legs L cfg domicile loc ep) = []"
proof (cases domicile)
  case None
  then show ?thesis by (simp add: home_legs_def)
next
  case (Some h)
  then show ?thesis
  proof (cases "simulateHomeReposition L cfg loc ep h")
    case (Inl e)
    then show ?thesis using Some by (simp add: home_legs_def)
  next
    case (Inr leg)
    have t: "LegType leg \<noteq> LegLoaded" unfolding home_leg_type [OF Inr] leg_types by simp
    have "home_legs L cfg domicile loc ep = [] \<or> home_legs L cfg domicile loc ep = [leg]"
      unfolding home_legs_def Some option.case Inr sum.case by (metis (full_types))
    then show ?thesis using t by (auto simp: loaded_ids_def)
  qed
qed

text \<open>A simulated load, with valid specifications and a legal clock.\<close>

lemma simulateSingleLoad_spec:
  assumes v: "ValidatePolicy (tour_specs cfg) = Inr ()" "specs_small (tour_specs cfg)" "clocks_legal (tour_specs cfg) c"
  shows "\<exists>r. simulateSingleLoad L cfg loc ep (Some c) load driver = Some r \<and>
    (\<forall>legs clk loc' ep'. r = Inr (legs, clk, loc', ep') \<longrightarrow>
      loaded_ids legs = [LdID load] \<and> clocks_legal (tour_specs cfg) clk \<and> loc' = Destination load \<and>
      CanHandle (DrvEquipment driver) (RequiredEquipment load) (RequiredEndorsements load))"
proof -
  let ?E = "EvaluateTripFeasibility (Some c) (DistanceMiles L loc (Origin load)) (DistanceMiles L (Origin load) (Destination load))
    60 60 (tour_speed cfg) (window_time (PickupEarliestEpoch load)) (window_time (PickupLatestEpoch load))
    (window_time (DeliveryEarliestEpoch load)) (window_time (DeliveryLatestEpoch load)) (tour_specs cfg)"
  obtain res where r: "?E = Some (Inr res)" using trip_returns [OF v(1) clocks_legal_safe [OF v(3)]] by blast
  have l: "clocks_legal (tour_specs cfg) (TripFinalClocks res)" using EvaluateTripFeasibility_sound_spec [OF v r] by blast
  show ?thesis using r l by (auto simp: simulateSingleLoad_def Let_def)
qed

text \<open>A load that continues a tour: from the pool, unused, close enough, and handled by the driver.\<close>

definition continues :: "libm \<Rightarrow> TourSynthesizerConfig \<Rightarrow> Driver \<Rightarrow> Load list \<Rightarrow> string set \<Rightarrow> Location \<Rightarrow> Load \<Rightarrow> bool" where
  "continues L cfg driver cands used loc load \<longleftrightarrow> load \<in> set cands \<and> LdID load \<notin> used \<and>
     \<not> DistanceMiles L loc (Origin load) > TourMaxDeadheadMiles cfg \<and>
     CanHandle (DrvEquipment driver) (RequiredEquipment load) (RequiredEndorsements load)"

lemma continuation_options_spec:
  assumes v: "ValidatePolicy (tour_specs cfg) = Inr ()" "specs_small (tour_specs cfg)" "clocks_legal (tour_specs cfg) clk"
  shows "\<exists>os. continuation_options L cfg (legs0, clk, loc, ep) used driver cands = Some os \<and>
    (\<forall>(load, legs, clk', loc', ep')\<in>set os. continues L cfg driver cands used loc load \<and> loaded_ids legs = [LdID load] \<and>
      clocks_legal (tour_specs cfg) clk' \<and> loc' = Destination load)"
proof (induction cands)
  case (Cons cand cands)
  then obtain os where os: "continuation_options L cfg (legs0, clk, loc, ep) used driver cands = Some os"
    "\<forall>(load, legs, clk', loc', ep')\<in>set os. continues L cfg driver (cand # cands) used loc load \<and> loaded_ids legs = [LdID load] \<and>
      clocks_legal (tour_specs cfg) clk' \<and> loc' = Destination load"
    unfolding continues_def by fastforce
  obtain r where r: "simulateSingleLoad L cfg loc ep (Some clk) cand driver = Some r"
    "\<forall>legs clk' loc' ep'. r = Inr (legs, clk', loc', ep') \<longrightarrow>
      loaded_ids legs = [LdID cand] \<and> clocks_legal (tour_specs cfg) clk' \<and> loc' = Destination cand \<and>
      CanHandle (DrvEquipment driver) (RequiredEquipment cand) (RequiredEndorsements cand)"
    using simulateSingleLoad_spec [OF v, of L loc ep cand driver] by blast
  show ?case
  proof (cases "LdID cand \<in> used \<or> DistanceMiles L loc (Origin cand) > TourMaxDeadheadMiles cfg")
    case True
    then show ?thesis using os by auto
  next
    case False
    show ?thesis
    proof (cases r)
      case (Inl e)
      then show ?thesis using os r(1) False by auto
    next
      case (Inr x)
      then have "continuation_options L cfg (legs0, clk, loc, ep) used driver (cand # cands) = Some ((cand, x) # os)"
        using os(1) r(1) False by auto
      moreover have "\<forall>(load, legs, clk', loc', ep')\<in>set ((cand, x) # os). continues L cfg driver (cand # cands) used loc load \<and>
          loaded_ids legs = [LdID load] \<and> clocks_legal (tour_specs cfg) clk' \<and> loc' = Destination load"
        using os(2) r(2) Inr False by (cases x) (auto simp: continues_def)
      ultimately show ?thesis by blast
    qed
  qed
qed simp

lemma findBestContinuation_spec:
  assumes v: "ValidatePolicy (tour_specs cfg) = Inr ()" "specs_small (tour_specs cfg)" "clocks_legal (tour_specs cfg) clk"
  shows "\<exists>b. findBestContinuation L cfg (legs0, clk, loc, ep) used driver cands = Some b \<and>
    (\<forall>load legs clk' loc' ep'. b = Some (load, legs, clk', loc', ep') \<longrightarrow> continues L cfg driver cands used loc load \<and>
      loaded_ids legs = [LdID load] \<and> clocks_legal (tour_specs cfg) clk' \<and> loc' = Destination load)"
proof -
  obtain os where os: "continuation_options L cfg (legs0, clk, loc, ep) used driver cands = Some os"
    "\<forall>(load, legs, clk', loc', ep')\<in>set os. continues L cfg driver cands used loc load \<and> loaded_ids legs = [LdID load] \<and>
      clocks_legal (tour_specs cfg) clk' \<and> loc' = Destination load"
    using continuation_options_spec [OF v] by blast
  show ?thesis
  proof (cases os)
    case Nil
    then show ?thesis using os(1) by (simp add: findBestContinuation_def)
  next
    case (Cons o1 rest)
    have "sort_slice option_less os \<noteq> []" using Cons by (metis length_sort_slice length_0_conv list.distinct(1))
    then have "hd (sort_slice option_less os) \<in> set os" by (metis hd_in_set set_sort_slice)
    then have "continues L cfg driver cands used loc load \<and> loaded_ids legs = [LdID load] \<and>
        clocks_legal (tour_specs cfg) clk' \<and> loc' = Destination load"
      if "hd (sort_slice option_less os) = (load, legs, clk', loc', ep')" for load legs clk' loc' ep'
      using os(2) that by fastforce
    moreover have "findBestContinuation L cfg (legs0, clk, loc, ep) used driver cands = Some (Some (hd (sort_slice option_less os)))"
      using os(1) Cons by (simp add: findBestContinuation_def)
    ultimately show ?thesis by blast
  qed
qed

text \<open>The chaining loop keeps the loads of the tour distinct and marked as used.\<close>

lemma chain_loads_spec:
  assumes "ValidatePolicy (tour_specs cfg) = Inr ()" and "specs_small (tour_specs cfg)"
    and "clocks_legal (tour_specs cfg) clk" and "distinct (loaded_ids legs)" and "set (loaded_ids legs) = used"
  shows "\<exists>r. chain_loads L cfg ctxDone driver cands n legNum (legs, clk, loc, ep) used = Some r \<and>
    (\<forall>legs' clk' loc' ep'. r = Inr (legs', clk', loc', ep') \<longrightarrow>
      clocks_legal (tour_specs cfg) clk' \<and>
      (\<exists>more. legs' = legs @ more \<and> distinct (loaded_ids legs') \<and> length (loaded_ids more) \<le> n \<and>
        (\<forall>i\<in>set (loaded_ids more). \<exists>load\<in>set cands. LdID load = i \<and>
           CanHandle (DrvEquipment driver) (RequiredEquipment load) (RequiredEndorsements load))))"
  using assms
proof (induction n arbitrary: legNum legs clk loc ep used)
  case (Suc n)
  show ?case
  proof (cases "ctxDone legNum")
    case True
    then show ?thesis by simp
  next
    case False
    obtain b where b: "findBestContinuation L cfg (legs, clk, loc, ep) used driver cands = Some b"
      "\<forall>load legs1 clk' loc' ep'. b = Some (load, legs1, clk', loc', ep') \<longrightarrow> continues L cfg driver cands used loc load \<and>
        loaded_ids legs1 = [LdID load] \<and> clocks_legal (tour_specs cfg) clk' \<and> loc' = Destination load"
      using findBestContinuation_spec [OF Suc.prems(1-3)] by blast
    show ?thesis
    proof (cases b)
      case None
      then show ?thesis using b(1) False Suc.prems(3,4) by (intro exI [of _ "Inr (legs, clk, loc, ep)"]) auto
    next
      case (Some x)
      obtain load legs1 clk1 loc1 ep1 where x: "x = (load, legs1, clk1, loc1, ep1)" by (metis prod_cases5)
      have c: "continues L cfg driver cands used loc load" "loaded_ids legs1 = [LdID load]" "clocks_legal (tour_specs cfg) clk1"
        using b(2) Some x by blast+
      have d: "distinct (loaded_ids (legs @ legs1))" "set (loaded_ids (legs @ legs1)) = insert (LdID load) used"
        using c Suc.prems(4,5) by (auto simp: continues_def)
      have e: "chain_loads L cfg ctxDone driver cands (Suc n) legNum (legs, clk, loc, ep) used =
        chain_loads L cfg ctxDone driver cands n (legNum + 1) (legs @ legs1, clk1, loc1, ep1) (insert (LdID load) used)"
        using b(1) Some x False by simp
      obtain r where r: "chain_loads L cfg ctxDone driver cands n (legNum + 1) (legs @ legs1, clk1, loc1, ep1) (insert (LdID load) used) = Some r"
        and R: "\<And>legs' clk' loc' ep'. r = Inr (legs', clk', loc', ep') \<Longrightarrow> clocks_legal (tour_specs cfg) clk' \<and>
          (\<exists>more. legs' = (legs @ legs1) @ more \<and> distinct (loaded_ids legs') \<and> length (loaded_ids more) \<le> n \<and>
            (\<forall>i\<in>set (loaded_ids more). \<exists>load\<in>set cands. LdID load = i \<and>
               CanHandle (DrvEquipment driver) (RequiredEquipment load) (RequiredEndorsements load)))"
        using Suc.IH [OF Suc.prems(1,2) c(3) d, of "legNum + 1" loc1 ep1] by blast
      have "clocks_legal (tour_specs cfg) clk' \<and> (\<exists>more. legs' = legs @ more \<and> distinct (loaded_ids legs') \<and>
          length (loaded_ids more) \<le> Suc n \<and> (\<forall>i\<in>set (loaded_ids more). \<exists>load\<in>set cands. LdID load = i \<and>
             CanHandle (DrvEquipment driver) (RequiredEquipment load) (RequiredEndorsements load)))"
        if eq: "r = Inr (legs', clk', loc', ep')" for legs' clk' loc' ep'
      proof -
        obtain more where m: "legs' = (legs @ legs1) @ more" "distinct (loaded_ids legs')" "length (loaded_ids more) \<le> n"
          "\<forall>i\<in>set (loaded_ids more). \<exists>load\<in>set cands. LdID load = i \<and>
             CanHandle (DrvEquipment driver) (RequiredEquipment load) (RequiredEndorsements load)"
          and cl: "clocks_legal (tour_specs cfg) clk'" using R [OF eq] by blast
        have "\<forall>i\<in>set (loaded_ids (legs1 @ more)). \<exists>load\<in>set cands. LdID load = i \<and>
             CanHandle (DrvEquipment driver) (RequiredEquipment load) (RequiredEndorsements load)"
          using m(4) c(1,2) by (auto simp: continues_def)
        moreover have "length (loaded_ids (legs1 @ more)) \<le> Suc n" using m(3) c(2) by simp
        ultimately show ?thesis using m(1,2) cl by (intro conjI exI [of _ "legs1 @ more"]) simp_all
      qed
      then show ?thesis using r e by metis
    qed
  qed
qed auto

lemma SynthesizeTour_spec:
  assumes "ValidatePolicy (tour_specs cfg) = Inr ()" and "specs_small (tour_specs cfg)"
    and "Clocks driver = Some c" and "clocks_legal (tour_specs cfg) c" and "NewTourSynthesizer cfg = Inr cfg"
  shows "\<exists>r. SynthesizeTour L cfg ctxDone driver initialLoad cands = Some r \<and>
    (\<forall>t. r = Inr t \<longrightarrow> TourDriverID t = DrvID driver \<and> loaded_ids (TourLegs t) \<noteq> [] \<and> distinct (loaded_ids (TourLegs t)) \<and> int (length (loaded_ids (TourLegs t))) \<le> MaxTourLegs cfg \<and>
      hd (loaded_ids (TourLegs t)) = LdID initialLoad \<and> successively (leg_follows L) (TourLegs t) \<and>
      (\<forall>i\<in>set (loaded_ids (TourLegs t)). \<exists>load\<in>set (initialLoad # cands). LdID load = i \<and>
        CanHandle (DrvEquipment driver) (RequiredEquipment load) (RequiredEndorsements load)) \<and>
      (\<exists>clk. TourFinalClocks t = Some clk \<and> clocks_legal (tour_specs cfg) clk))"
proof (cases "LdID initialLoad = ''''")
  case True
  then show ?thesis by (simp add: SynthesizeTour_def)
next
  case False
  let ?S = "simulateSingleLoad L cfg (CurrentLocation driver) (AvailableEpoch driver) (Some c) initialLoad driver"
  obtain r1 where r1: "?S = Some r1"
    "\<forall>legs clk loc' ep'. r1 = Inr (legs, clk, loc', ep') \<longrightarrow>
      loaded_ids legs = [LdID initialLoad] \<and> clocks_legal (tour_specs cfg) clk \<and> loc' = Destination initialLoad \<and>
      CanHandle (DrvEquipment driver) (RequiredEquipment initialLoad) (RequiredEndorsements initialLoad)"
    using simulateSingleLoad_spec [OF assms(1,2,4), of L "CurrentLocation driver" "AvailableEpoch driver" initialLoad driver] by blast
  have m: "0 < MaxTourLegs cfg" using assms(5) by (auto simp: NewTourSynthesizer_def split: if_splits)
  show ?thesis
  proof (cases r1)
    case (Inl e)
    then show ?thesis using r1(1) False assms(3) by (simp add: SynthesizeTour_def)
  next
    case (Inr x)
    obtain legs clk loc ep where x: "x = (legs, clk, loc, ep)" by (metis prod_cases4)
    have s: "loaded_ids legs = [LdID initialLoad]" "clocks_legal (tour_specs cfg) clk"
      "CanHandle (DrvEquipment driver) (RequiredEquipment initialLoad) (RequiredEndorsements initialLoad)"
      using r1(2) Inr x by blast+
    obtain r2 where r2: "chain_loads L cfg ctxDone driver cands (nat (MaxTourLegs cfg - 1)) 2 (legs, clk, loc, ep) {LdID initialLoad} = Some r2"
      and R: "\<And>legs' clk' loc' ep'. r2 = Inr (legs', clk', loc', ep') \<Longrightarrow> clocks_legal (tour_specs cfg) clk' \<and>
        (\<exists>more. legs' = legs @ more \<and> distinct (loaded_ids legs') \<and> length (loaded_ids more) \<le> nat (MaxTourLegs cfg - 1) \<and>
          (\<forall>i\<in>set (loaded_ids more). \<exists>load\<in>set cands. LdID load = i \<and>
             CanHandle (DrvEquipment driver) (RequiredEquipment load) (RequiredEndorsements load)))"
      using chain_loads_spec [OF assms(1,2) s(2), of legs "{LdID initialLoad}" L ctxDone driver cands] s(1) by (metis distinct_singleton list.simps(15) empty_set)
    show ?thesis
    proof (cases r2)
      case (Inl e)
      then show ?thesis using r1(1) r2 Inr x False assms(3) by (simp add: SynthesizeTour_def)
    next
      case r2I: (Inr y)
      obtain legs' clk' loc' ep' where y: "y = (legs', clk', loc', ep')" by (metis prod_cases4)
      let ?legs = "legs' @ home_legs L cfg (domicile_of driver) loc' ep'"
      have S: "SynthesizeTour L cfg ctxDone driver initialLoad cands =
        Some (NewDriverTour L (DrvID driver) ?legs (Some clk') (domicile_of driver))"
        using r1(1) r2 r2I y Inr x False assms(3) by (simp add: SynthesizeTour_def)
      obtain more where more: "legs' = legs @ more" "distinct (loaded_ids legs')" "length (loaded_ids more) \<le> nat (MaxTourLegs cfg - 1)"
        "\<forall>i\<in>set (loaded_ids more). \<exists>load\<in>set cands. LdID load = i \<and>
             CanHandle (DrvEquipment driver) (RequiredEquipment load) (RequiredEndorsements load)"
        and cl: "clocks_legal (tour_specs cfg) clk'" using R r2I y by blast
      have "TourDriverID t = DrvID driver \<and> loaded_ids (TourLegs t) \<noteq> [] \<and> distinct (loaded_ids (TourLegs t)) \<and> int (length (loaded_ids (TourLegs t))) \<le> MaxTourLegs cfg \<and>
          hd (loaded_ids (TourLegs t)) = LdID initialLoad \<and> successively (leg_follows L) (TourLegs t) \<and>
          (\<forall>i\<in>set (loaded_ids (TourLegs t)). \<exists>load\<in>set (initialLoad # cands). LdID load = i \<and>
            CanHandle (DrvEquipment driver) (RequiredEquipment load) (RequiredEndorsements load)) \<and>
          (\<exists>clk. TourFinalClocks t = Some clk \<and> clocks_legal (tour_specs cfg) clk)"
        if t: "NewDriverTour L (DrvID driver) ?legs (Some clk') (domicile_of driver) = Inr t" for t
      proof -
        have f: "TourDriverID t = DrvID driver" "TourLegs t = ?legs" "TourFinalClocks t = Some clk'" "check_legs L None ?legs = Inr ()"
          using t by (auto simp: NewDriverTour_def Let_def split: if_splits sum.splits prod.splits)
        have "loaded_ids (TourLegs t) = LdID initialLoad # loaded_ids more" using f(2) more(1) s(1) by simp
        then show ?thesis using f check_legs_iff [of L None ?legs] more s m cl by auto
      qed
      then show ?thesis using S by blast
    qed
  qed
qed

lemma SynthesizeTour_nil_clocks:
  assumes "Clocks driver = None"
  shows "\<exists>e. SynthesizeTour L cfg ctxDone driver initialLoad cands = Some (Inl e)"
  using assms
  by (auto simp: SynthesizeTour_def simulateSingleLoad_def EvaluateTripFeasibility_def Simulate_def on_ok_def Let_def)


lemma DefaultTour_valid: "ValidatePolicy (tour_specs DefaultTourSynthesizerConfig) = Inr ()"
    "specs_small (tour_specs DefaultTourSynthesizerConfig)"
    "NewTourSynthesizer DefaultTourSynthesizerConfig = Inr DefaultTourSynthesizerConfig"
proof -
  have s: "tour_specs DefaultTourSynthesizerConfig = USPolicySpecs" by code_simp
  show "ValidatePolicy (tour_specs DefaultTourSynthesizerConfig) = Inr ()" unfolding s by (rule US_specs_valid)
  show "specs_small (tour_specs DefaultTourSynthesizerConfig)" unfolding s by (rule US_specs_small)
  show "NewTourSynthesizer DefaultTourSynthesizerConfig = Inr DefaultTourSynthesizerConfig"
    by code_simp
qed

lemma demo_driver_clocks:
  "\<exists>c. Clocks (demo_driver i loc) = Some c \<and> clocks_legal (tour_specs DefaultTourSynthesizerConfig) c"
proof -
  have s: "tour_specs DefaultTourSynthesizerConfig = USPolicySpecs" by code_simp
  show ?thesis unfolding s by (simp add: demo_driver_def NewDriverClocks_legal [OF US_specs_valid])
qed


text \<open>
  A load whose pickup window opens so long after the driver's arrival that the wait exceeds the haul and the
  two hours of loading cannot be the first load of a tour, though the trip evaluation accepts it: the rest
  minutes of the evaluation already contain the wait, so the dwell leg and the rest leg count it twice and
  the haul starts after its own end.
\<close>

theorem SynthesizeTour_early_window:
  "SynthesizeTour demo_libm DefaultTourSynthesizerConfig (\<lambda>_. False) (demo_driver ''D1'' demo_A)
     ((demo_load ''L1'' demo_A demo_A)\<lparr>PickupEarliestEpoch := 10800\<rparr>) [] = Some (Inl ErrTourDiscontinuousTemporal) \<and>
   (\<exists>t. SynthesizeTour demo_libm DefaultTourSynthesizerConfig (\<lambda>_. False) (demo_driver ''D1'' demo_A)
     (demo_load ''L1'' demo_A demo_A) [] = Some (Inr t))"
  (is "?early \<and> ?plain")
proof
  show ?early by code_simp
  have "case SynthesizeTour demo_libm DefaultTourSynthesizerConfig (\<lambda>_. False) (demo_driver ''D1'' demo_A)
     (demo_load ''L1'' demo_A demo_A) [] of Some (Inr t) \<Rightarrow> True | _ \<Rightarrow> False" by code_simp
  then show ?plain by (simp split: option.split_asm sum.split_asm)
qed

end
