(* ===== verification/Dispatch.thy ===== *)
theory Dispatch
  imports Tours
begin

text \<open>
  \<open>internal/service/dispatch/runner.go\<close>: the tours of one batch of matches. One goroutine synthesizes the
  tour of each match and sends it, with the index of the match, into a channel that can hold all of them;
  the collector stores what it receives by index. The order of the sends is a parameter, a list of
  indices; the batch is shown not to depend on it. A goroutine that does not return blocks the batch
  (\<open>None\<close>).
\<close>

record WorkOrderBatch =
  BatchEpoch :: int
  BatchTours :: "DriverTour list"
  TotalTours :: nat
  BatchLoadedMiles :: f64
  BatchEmptyMiles :: f64
  BatchDistanceMiles :: f64
  BatchEmptyRatio :: f64
  TotalGrossRevenue :: f64
  TotalOperatingCost :: f64
  BatchNetContribution :: f64
  AssignedLoadIDs :: "string list"
  UnassignedLoadIDs :: "string list"

text \<open>The maps from IDs; a later entry of the same ID wins.\<close>

definition drivers_by_id :: "Driver list \<Rightarrow> (string \<rightharpoonup> Driver)" where
  "drivers_by_id ds = map_of (rev (map (\<lambda>d. (DrvID d, d)) ds))"

definition loads_by_id :: "Load list \<Rightarrow> (string \<rightharpoonup> Load)" where
  "loads_by_id ls = map_of (rev (map (\<lambda>l. (LdID l, l)) ls))"

definition sort_matches :: "DriverLoadMatch list \<Rightarrow> DriverLoadMatch list" where
  "sort_matches = sort_slice (\<lambda>a b. MDriverID a < MDriverID b)"

text \<open>The goroutine of one match.\<close>

definition batch_tour ::
  "libm \<Rightarrow> TourSynthesizerConfig \<Rightarrow> (int \<Rightarrow> bool) \<Rightarrow> Driver list \<Rightarrow> Load list \<Rightarrow> DriverLoadMatch \<Rightarrow> DriverTour result option" where
  "batch_tour L cfg ctxDone drivers allLoads m =
     (case drivers_by_id drivers (MDriverID m) of
        None \<Rightarrow> Some (Inl (ErrOther ''dispatch: driver not found''))
      | Some driver \<Rightarrow>
          case loads_by_id allLoads (MLoadID m) of
            None \<Rightarrow> Some (Inl (ErrOther ''dispatch: load not found''))
          | Some initLoad \<Rightarrow> SynthesizeTour L cfg ctxDone driver initLoad allLoads)"

text \<open>What every goroutine sends, if all of them return; the context of a goroutine may end at any leg.\<close>

fun batch_results ::
  "libm \<Rightarrow> TourSynthesizerConfig \<Rightarrow> (nat \<Rightarrow> int \<Rightarrow> bool) \<Rightarrow> Driver list \<Rightarrow> Load list \<Rightarrow> nat \<Rightarrow> DriverLoadMatch list \<Rightarrow>
    DriverTour result list option" where
  "batch_results L cfg ctxDone drivers allLoads i [] = Some []"
| "batch_results L cfg ctxDone drivers allLoads i (m # ms) =
     (case batch_tour L cfg (ctxDone i) drivers allLoads m of
        None \<Rightarrow> None
      | Some r \<Rightarrow> map_option (Cons r) (batch_results L cfg ctxDone drivers allLoads (Suc i) ms))"

text \<open>
  The collector: an entry that is never received stays the zero value, a nil tour without error, whose
  methods panic.
\<close>

definition receive :: "(nat \<times> DriverTour result) list \<Rightarrow> nat \<Rightarrow> DriverTour result list" where
  "receive chan n = fold (\<lambda>(i, r) results. results[i := r]) chan (replicate n (Inl (Panic ''nil tour'')))"

fun first_error :: "DriverTour result list \<Rightarrow> DriverTour list result" where
  "first_error [] = Inr []"
| "first_error (Inl e # rs) = Inl e"
| "first_error (Inr t # rs) = (case first_error rs of Inl e \<Rightarrow> Inl e | Inr ts \<Rightarrow> Inr (t # ts))"

definition tour_load_ids :: "DriverTour \<Rightarrow> string list" where
  "tour_load_ids t = map LegLoadID (filter (\<lambda>leg. LegType leg = LegLoaded \<and> LegLoadID leg \<noteq> '''') (TourLegs t))"

definition make_batch :: "int \<Rightarrow> Load list \<Rightarrow> DriverTour list \<Rightarrow> WorkOrderBatch" where
  "make_batch ep allLoads tours =
     (let loaded = fold (\<lambda>t acc. acc + TotalLoadedMiles t) tours 0;
          empty = fold (\<lambda>t acc. acc + TotalEmptyMiles t) tours 0;
          rev = fold (\<lambda>t acc. acc + GrossRevenue t) tours 0;
          cost = fold (\<lambda>t acc. acc + TourTotalCost t) tours 0;
          total = loaded + empty;
          assigned = concat (map tour_load_ids tours) in
      \<lparr>BatchEpoch = ep, BatchTours = tours, TotalTours = length tours, BatchLoadedMiles = loaded, BatchEmptyMiles = empty,
       BatchDistanceMiles = total, BatchEmptyRatio = (if total > 0 then empty / total else 0),
       TotalGrossRevenue = rev, TotalOperatingCost = cost, BatchNetContribution = rev - cost,
       AssignedLoadIDs = sort_slice (<) (remdups assigned),
       UnassignedLoadIDs = sort_slice (<) (filter (\<lambda>i. i \<notin> set assigned) (map LdID allLoads))\<rparr>)"

text \<open>\<open>sched\<close> is the order in which the goroutines send.\<close>

definition SynthesizeBatch ::
  "libm \<Rightarrow> TourSynthesizerConfig \<Rightarrow> (nat \<Rightarrow> int \<Rightarrow> bool) \<Rightarrow> nat list \<Rightarrow> int \<Rightarrow> Driver list \<Rightarrow> DriverLoadMatch list \<Rightarrow> Load list \<Rightarrow>
    WorkOrderBatch result option" where
  "SynthesizeBatch L cfg ctxDone sched ep drivers matches allLoads =
     (let sorted = sort_matches matches in
      case batch_results L cfg ctxDone drivers allLoads 0 sorted of
        None \<Rightarrow> None
      | Some rs \<Rightarrow>
          Some (case first_error (receive (map (\<lambda>i. (i, rs ! i)) sched) (length sorted)) of
                  Inl e \<Rightarrow> Inl e
                | Inr tours \<Rightarrow> Inr (make_batch ep allLoads tours)))"

section \<open>The collector\<close>

lemma length_batch_results:
  "batch_results L cfg ctxDone drivers allLoads i ms = Some rs \<Longrightarrow> length rs = length ms"
  by (induction ms arbitrary: i rs) (auto split: option.splits)

lemma fold_update_nth:
  assumes "\<forall>i\<in>set sched. i < length rs" and "length acc = length rs" and "j < length rs"
  shows "fold (\<lambda>(i, r) results. results[i := r]) (map (\<lambda>i. (i, rs ! i)) sched) acc ! j =
    (if j \<in> set sched then rs ! j else acc ! j)"
  using assms by (induction sched arbitrary: acc) (auto simp: nth_list_update)

lemma length_fold_update:
  "length (fold (\<lambda>(i, r) results. results[i := r]) ps acc) = length acc"
  by (induction ps arbitrary: acc) (auto split: prod.split)

lemma receive_all:
  assumes "mset sched = mset [0..<length rs]"
  shows "receive (map (\<lambda>i. (i, rs ! i)) sched) (length rs) = rs"
proof (rule nth_equalityI)
  have s: "set sched = {0..<length rs}" using assms by (metis mset_eq_setD set_upt)
  show "length (receive (map (\<lambda>i. (i, rs ! i)) sched) (length rs)) = length rs"
    by (simp add: receive_def length_fold_update)
  show "receive (map (\<lambda>i. (i, rs ! i)) sched) (length rs) ! j = rs ! j"
    if "j < length (receive (map (\<lambda>i. (i, rs ! i)) sched) (length rs))" for j
    using that s fold_update_nth [of sched rs "replicate (length rs) (Inl (Panic ''nil tour''))" j]
    by (simp add: receive_def length_fold_update)
qed

text \<open>In whatever order the goroutines finish, the batch is the one of a sequential run.\<close>

lemma SynthesizeBatch_sequential:
  assumes "mset sched = mset [0..<length matches]"
  shows "SynthesizeBatch L cfg ctxDone sched ep drivers matches allLoads =
    (case batch_results L cfg ctxDone drivers allLoads 0 (sort_matches matches) of
       None \<Rightarrow> None
     | Some rs \<Rightarrow> Some (case first_error rs of Inl e \<Rightarrow> Inl e | Inr tours \<Rightarrow> Inr (make_batch ep allLoads tours)))"
proof (cases "batch_results L cfg ctxDone drivers allLoads 0 (sort_matches matches)")
  case None
  then show ?thesis by (simp add: SynthesizeBatch_def)
next
  case (Some rs)
  have "length rs = length matches" using length_batch_results [OF Some] by (simp add: sort_matches_def)
  then have "receive (map (\<lambda>i. (i, rs ! i)) sched) (length matches) = rs" using receive_all [of sched rs] assms by simp
  then show ?thesis using Some by (simp add: SynthesizeBatch_def sort_matches_def)
qed

section \<open>What a batch is\<close>

text \<open>A tour of a match: it belongs to its driver, starts with its load, repeats no load and hauls loads of the pool only.\<close>

definition tour_of_match :: "TourSynthesizerConfig \<Rightarrow> Load list \<Rightarrow> DriverLoadMatch \<Rightarrow> DriverTour \<Rightarrow> bool" where
  "tour_of_match cfg allLoads m t \<longleftrightarrow> TourDriverID t = MDriverID m \<and> hd (loaded_ids (TourLegs t)) = MLoadID m \<and>
     loaded_ids (TourLegs t) \<noteq> [] \<and> distinct (loaded_ids (TourLegs t)) \<and> set (loaded_ids (TourLegs t)) \<subseteq> LdID ` set allLoads \<and>
     int (length (loaded_ids (TourLegs t))) \<le> MaxTourLegs cfg"

definition clocks_ok :: "TourSynthesizerConfig \<Rightarrow> Driver \<Rightarrow> bool" where
  "clocks_ok cfg d \<longleftrightarrow> (case Clocks d of None \<Rightarrow> True | Some c \<Rightarrow> clocks_legal (tour_specs cfg) c)"

lemma drivers_by_id_Some: "drivers_by_id ds i = Some d \<Longrightarrow> d \<in> set ds \<and> DrvID d = i"
  by (auto simp: drivers_by_id_def dest!: map_of_SomeD)

lemma loads_by_id_Some: "loads_by_id ls i = Some l \<Longrightarrow> l \<in> set ls \<and> LdID l = i"
  by (auto simp: loads_by_id_def dest!: map_of_SomeD)

lemma batch_tour_spec:
  assumes "ValidatePolicy (tour_specs cfg) = Inr ()" "specs_small (tour_specs cfg)" "NewTourSynthesizer cfg = Inr cfg"
    and ok: "\<forall>d\<in>set drivers. clocks_ok cfg d"
  shows "\<exists>r. batch_tour L cfg ctxDone drivers allLoads m = Some r \<and> (\<forall>t. r = Inr t \<longrightarrow> tour_of_match cfg allLoads m t)"
proof (cases "drivers_by_id drivers (MDriverID m)")
  case None
  then show ?thesis by (simp add: batch_tour_def)
next
  case d: (Some d)
  show ?thesis
  proof (cases "loads_by_id allLoads (MLoadID m)")
    case None
    then show ?thesis using d by (simp add: batch_tour_def)
  next
    case l: (Some l)
    have b: "batch_tour L cfg ctxDone drivers allLoads m = SynthesizeTour L cfg ctxDone d l allLoads"
      using d l by (simp add: batch_tour_def)
    show ?thesis
    proof (cases "Clocks d")
      case None
      then show ?thesis using SynthesizeTour_nil_clocks [OF None, of L cfg ctxDone l allLoads] b by auto
    next
      case c: (Some c)
      have "clocks_legal (tour_specs cfg) c" using ok drivers_by_id_Some [OF d] c by (auto simp: clocks_ok_def)
      from SynthesizeTour_spec [OF assms(1,2) c this assms(3), of L ctxDone l allLoads] obtain r where
        r: "SynthesizeTour L cfg ctxDone d l allLoads = Some r"
        and R: "\<And>t. r = Inr t \<Longrightarrow> TourDriverID t = DrvID d \<and> loaded_ids (TourLegs t) \<noteq> [] \<and>
          distinct (loaded_ids (TourLegs t)) \<and>
          int (length (loaded_ids (TourLegs t))) \<le> MaxTourLegs cfg \<and> hd (loaded_ids (TourLegs t)) = LdID l \<and>
          (\<forall>i\<in>set (loaded_ids (TourLegs t)). \<exists>load\<in>set (l # allLoads). LdID load = i)"
        by metis
      have "tour_of_match cfg allLoads m t" if "r = Inr t" for t
        using R [OF that] drivers_by_id_Some [OF d] loads_by_id_Some [OF l]
        unfolding tour_of_match_def by force
      then show ?thesis using b r by auto
    qed
  qed
qed

lemma batch_results_spec:
  assumes "ValidatePolicy (tour_specs cfg) = Inr ()" "specs_small (tour_specs cfg)" "NewTourSynthesizer cfg = Inr cfg"
    and "\<forall>d\<in>set drivers. clocks_ok cfg d"
  shows "\<exists>rs. batch_results L cfg ctxDone drivers allLoads i ms = Some rs \<and>
    (\<forall>tours. first_error rs = Inr tours \<longrightarrow> list_all2 (tour_of_match cfg allLoads) ms tours)"
proof (induction ms arbitrary: i)
  case (Cons m ms)
  obtain r where r: "batch_tour L cfg (ctxDone i) drivers allLoads m = Some r"
    and R: "\<And>t. r = Inr t \<Longrightarrow> tour_of_match cfg allLoads m t"
    using batch_tour_spec [OF assms, of L "ctxDone i" allLoads m] by blast
  obtain rs where rs: "batch_results L cfg ctxDone drivers allLoads (Suc i) ms = Some rs"
    and RS: "\<And>tours. first_error rs = Inr tours \<Longrightarrow> list_all2 (tour_of_match cfg allLoads) ms tours"
    using Cons [of "Suc i"] by blast
  have "list_all2 (tour_of_match cfg allLoads) (m # ms) tours" if f: "first_error (r # rs) = Inr tours" for tours
  proof (cases r)
    case (Inl e)
    then show ?thesis using f by simp
  next
    case (Inr t)
    then obtain ts where "first_error rs = Inr ts" "tours = t # ts" using f by (auto split: sum.splits)
    then show ?thesis using R [OF Inr] RS by simp
  qed
  then show ?case using r rs by simp
qed simp

lemma set_tour_load_ids: "set (tour_load_ids t) = set (loaded_ids (TourLegs t)) - {''''}"
  by (auto simp: tour_load_ids_def loaded_ids_def)

lemma make_batch_ids:
  "set (AssignedLoadIDs (make_batch ep allLoads tours)) = (\<Union>t\<in>set tours. set (loaded_ids (TourLegs t)) - {''''})"
  "set (UnassignedLoadIDs (make_batch ep allLoads tours)) =
     LdID ` set allLoads - (\<Union>t\<in>set tours. set (loaded_ids (TourLegs t)) - {''''})"
  "distinct (AssignedLoadIDs (make_batch ep allLoads tours))"
  using distinct_map_sort_slice [of "\<lambda>x. x" "(<)" "remdups (concat (map tour_load_ids tours))"]
  by (auto simp: make_batch_def Let_def set_tour_load_ids)

text \<open>
  With valid specifications and drivers whose clocks, where present, are legal, a batch always comes back,
  in whatever order the goroutines finish. Without an error it holds, in the order of the driver IDs, one
  tour per match that starts with the load of the match, and its lists split the IDs of the pool.
\<close>

theorem SynthesizeBatch_correct:
  assumes "ValidatePolicy (tour_specs cfg) = Inr ()" and "specs_small (tour_specs cfg)" and "NewTourSynthesizer cfg = Inr cfg"
    and "\<forall>d\<in>set drivers. clocks_ok cfg d" and "mset sched = mset [0..<length matches]" and "'''' \<notin> LdID ` set allLoads"
  shows "\<exists>r. SynthesizeBatch L cfg ctxDone sched ep drivers matches allLoads = Some r \<and>
    SynthesizeBatch L cfg ctxDone [0..<length matches] ep drivers matches allLoads = Some r \<and>
    (\<forall>b. r = Inr b \<longrightarrow> list_all2 (tour_of_match cfg allLoads) (sort_matches matches) (BatchTours b) \<and>
      TotalTours b = length matches \<and> distinct (AssignedLoadIDs b) \<and>
      set (AssignedLoadIDs b) = (\<Union>t\<in>set (BatchTours b). set (loaded_ids (TourLegs t))) \<and>
      set (AssignedLoadIDs b) \<inter> set (UnassignedLoadIDs b) = {} \<and>
      set (AssignedLoadIDs b) \<union> set (UnassignedLoadIDs b) = LdID ` set allLoads)"
proof -
  obtain rs where rs: "batch_results L cfg ctxDone drivers allLoads 0 (sort_matches matches) = Some rs"
    and RS: "\<And>tours. first_error rs = Inr tours \<Longrightarrow> list_all2 (tour_of_match cfg allLoads) (sort_matches matches) tours"
    using batch_results_spec [OF assms(1-4)] by blast
  have "list_all2 (tour_of_match cfg allLoads) (sort_matches matches) (BatchTours b) \<and>
      TotalTours b = length matches \<and> distinct (AssignedLoadIDs b) \<and>
      set (AssignedLoadIDs b) = (\<Union>t\<in>set (BatchTours b). set (loaded_ids (TourLegs t))) \<and>
      set (AssignedLoadIDs b) \<inter> set (UnassignedLoadIDs b) = {} \<and>
      set (AssignedLoadIDs b) \<union> set (UnassignedLoadIDs b) = LdID ` set allLoads"
    if f: "first_error rs = Inr tours" and b: "b = make_batch ep allLoads tours" for tours b
  proof -
    have T: "list_all2 (tour_of_match cfg allLoads) (sort_matches matches) tours" by (rule RS [OF f])
    then have "\<forall>t\<in>set tours. set (loaded_ids (TourLegs t)) \<subseteq> LdID ` set allLoads"
      by (metis in_set_conv_nth list_all2_conv_all_nth tour_of_match_def)
    moreover have "BatchTours b = tours" "TotalTours b = length tours" by (simp_all add: b make_batch_def Let_def)
    moreover have "length tours = length matches" using list_all2_lengthD [OF T] by (simp add: sort_matches_def)
    ultimately show ?thesis using T assms(6) unfolding b make_batch_ids by (auto simp: make_batch_ids)
  qed
  note good = this
  show ?thesis
  proof (cases "first_error rs")
    case (Inl e)
    then show ?thesis unfolding SynthesizeBatch_sequential [OF assms(5)] SynthesizeBatch_sequential [OF refl] rs by simp
  next
    case (Inr tours)
    show ?thesis unfolding SynthesizeBatch_sequential [OF assms(5)] SynthesizeBatch_sequential [OF refl] rs option.case Inr sum.case
      by (intro exI [of _ "Inr (make_batch ep allLoads tours)"] conjI refl) (metis good [OF Inr] sum.inject(2))
  qed
qed

lemma demo_clocks_ok: "clocks_ok DefaultTourSynthesizerConfig (demo_driver i loc)"
  using demo_driver_clocks [of i loc] by (auto simp: clocks_ok_def)

theorem SynthesizeBatch_correct_witness:
  "\<exists>r. SynthesizeBatch demo_libm DefaultTourSynthesizerConfig (\<lambda>_ _. False) [1, 0] 0
      [demo_driver ''D1'' demo_A, demo_driver ''D2'' demo_A] [demo_match ''D1'' ''L1'', demo_match ''D2'' ''L2'']
      [demo_load ''L1'' demo_A demo_B, demo_load ''L2'' demo_A demo_B] = Some r"
proof -
  have ids: "'''' \<notin> LdID ` set [demo_load ''L1'' demo_A demo_B, demo_load ''L2'' demo_A demo_B]" by (simp add: demo_load_def)
  have perm: "mset [1, 0] = mset [0..<length [demo_match ''D1'' ''L1'', demo_match ''D2'' ''L2'']]" by simp
  have ok: "\<forall>d\<in>set [demo_driver ''D1'' demo_A, demo_driver ''D2'' demo_A]. clocks_ok DefaultTourSynthesizerConfig d"
    by (simp add: demo_clocks_ok)
  show ?thesis using SynthesizeBatch_correct [OF DefaultTour_valid ok perm ids, of demo_libm "\<lambda>_ _. False" 0] by blast
qed

text \<open>
  The pool of every goroutine is the whole load list, the loads matched to other drivers included: with two
  drivers matched to one load each, both tours haul both loads and the batch counts the revenue of each
  load twice.
\<close>

theorem SynthesizeBatch_double_books:
  "map_option (map_sum id (\<lambda>b. (map (\<lambda>t. (TourDriverID t, loaded_ids (TourLegs t))) (BatchTours b), TotalGrossRevenue b,
      AssignedLoadIDs b)))
     (SynthesizeBatch demo_libm DefaultTourSynthesizerConfig (\<lambda>_ _. False) [1, 0] 0
       [demo_driver ''D1'' demo_A, demo_driver ''D2'' demo_A] [demo_match ''D1'' ''L1'', demo_match ''D2'' ''L2'']
       [demo_load ''L1'' demo_A demo_A, demo_load ''L2'' demo_A demo_A]) =
   Some (Inr ([(''D1'', [''L1'', ''L2'']), (''D2'', [''L2'', ''L1''])],
     Revenue (demo_load ''L1'' demo_A demo_A) + Revenue (demo_load ''L1'' demo_A demo_A) +
     Revenue (demo_load ''L2'' demo_A demo_A) + Revenue (demo_load ''L2'' demo_A demo_A), [''L1'', ''L2'']))"
  by code_simp

end
