(* ===== verification/Relay.thy ===== *)
theory Relay
  imports Dispatch
begin

text \<open>
  \<open>internal/domain/policy/relay.go\<close>: the evaluation of a relay, two drivers that hand a load over at a
  facility. \<open>None\<close> is a simulation that does not return; the text of the wrapped errors is not modelled.
\<close>

section \<open>Relay exchanges\<close>

type_synonym RelayLegRole = string

definition RelayLegInbound :: RelayLegRole where "RelayLegInbound = ''INBOUND''"
definition RelayLegOutbound :: RelayLegRole where "RelayLegOutbound = ''OUTBOUND''"

record RelayDriverSegment =
  SegDriverID :: string
  SegRole :: RelayLegRole
  SegOrigin :: Location
  SegDestination :: Location
  SegStartEpoch :: int
  SegEndEpoch :: int
  SegDeadheadMiles :: f64
  SegLoadedMiles :: f64
  SegDwellMin :: int
  SegRestMin :: int
  SegTripMin :: int
  SegCost :: "53 TripCostBreakdown"
  ResultingClocks :: DriverClocks

record RelayExchange =
  RxLoadID :: string
  RelayFacility :: Facility
  InboundSegment :: RelayDriverSegment
  OutboundSegment :: RelayDriverSegment
  HandoffStartEpoch :: int
  HandoffCompleteEpoch :: int
  InterchangeDwellMin :: int
  RxRevenue :: f64
  RxTotalCost :: f64
  RxNet :: f64
  DeliveryArrival :: time

record RelayConfig =
  InterchangeDwellMinutes :: int
  MaxRelayDetourRatio :: f64
  RelayInterchangeCost :: f64
  RelaySpeedMPH :: f64

definition DefaultRelayConfig :: RelayConfig where
  "DefaultRelayConfig = \<lparr>InterchangeDwellMinutes = 60, MaxRelayDetourRatio = Fin (5 / 4), RelayInterchangeCost = Fin 50,
     RelaySpeedMPH = Fin 50\<rparr>"

definition relay_speed :: "RelayConfig \<Rightarrow> f64" where
  "relay_speed rc = (if RelaySpeedMPH rc \<le> 0 then Fin 50 else RelaySpeedMPH rc)"

definition relay_dwell :: "RelayConfig \<Rightarrow> int" where
  "relay_dwell rc = (if InterchangeDwellMinutes rc \<le> 0 then 60 else InterchangeDwellMinutes rc)"

section \<open>The checks and the two projections\<close>

definition equipment_mismatch :: "Driver \<Rightarrow> Load \<Rightarrow> bool" where
  "equipment_mismatch d load \<longleftrightarrow> RequiredEquipment load \<noteq> '''' \<and> EqType (DrvEquipment d) \<noteq> '''' \<and>
     EqType (DrvEquipment d) \<noteq> RequiredEquipment load"

definition detour_exceeded :: "libm \<Rightarrow> RelayConfig \<Rightarrow> Load \<Rightarrow> Location \<Rightarrow> bool" where
  "detour_exceeded L rc load hub =
     (let directDist = DistanceMiles L (Origin load) (Destination load);
          total = DistanceMiles L (Origin load) hub + DistanceMiles L hub (Destination load) in
      directDist > 0 \<and> MaxRelayDetourRatio rc > 1 \<and> total > directDist * MaxRelayDetourRatio rc)"

text \<open>The inbound driver: deadhead minutes, start of the pickup, transit minutes and arrival at the facility.\<close>

definition inbound_times :: "libm \<Rightarrow> RelayConfig \<Rightarrow> Driver \<Rightarrow> Load \<Rightarrow> Location \<Rightarrow> int \<times> int \<times> int \<times> int" where
  "inbound_times L rc d load hub =
     (let dhMinutes = leg_minutes (DistanceMiles L (CurrentLocation d) (Origin load)) (relay_speed rc);
          dhArrival = AvailableEpoch d + dhMinutes * 60;
          pickupStart = (if dhArrival < PickupEarliestEpoch load then PickupEarliestEpoch load else dhArrival);
          transitMinutes = leg_minutes (DistanceMiles L (Origin load) hub) (relay_speed rc) in
      (dhMinutes, pickupStart, transitMinutes, pickupStart + 120 * 60 + transitMinutes * 60))"

definition inbound_events :: "libm \<Rightarrow> RelayConfig \<Rightarrow> Driver \<Rightarrow> Load \<Rightarrow> Facility \<Rightarrow> int \<Rightarrow> int \<Rightarrow> Event list" where
  "inbound_events L rc d load fac dhMinutes transitMinutes =
     [DriveEvent dhMinutes (DistanceMiles L (CurrentLocation d) (Origin load)) (NodeID (Origin load)),
      \<lparr>EvType = EventLoading, DurationMin = 120, DistanceMi = 0, IsSleeper = False,
       EvLocationID = NodeID (Origin load), Description = ''Load Pickup''\<rparr>,
      DriveEvent transitMinutes (DistanceMiles L (Origin load) (FacLocation fac)) (FacID fac),
      \<lparr>EvType = EventUnloading, DurationMin = relay_dwell rc, DistanceMi = 0, IsSleeper = False,
       EvLocationID = FacID fac, Description = ''Relay Interchange Dropoff''\<rparr>]"

text \<open>The load leaves the facility when it is dropped there and the outbound driver has arrived.\<close>

definition handoff_epoch :: "int \<Rightarrow> int \<Rightarrow> int" where
  "handoff_epoch inboundEnd dhArrivalOut = (if dhArrivalOut > inboundEnd then dhArrivalOut else inboundEnd)"

definition handoff_wait :: "int \<Rightarrow> int \<Rightarrow> string \<Rightarrow> Event list" where
  "handoff_wait handoff dhArrival loc =
     (let waitMin = (handoff - dhArrival) div 60 in
      if handoff > dhArrival \<and> waitMin > 0 then
        [\<lparr>EvType = EventHold, DurationMin = waitMin, DistanceMi = 0, IsSleeper = False, EvLocationID = loc,
          Description = ''Relay Handoff Wait''\<rparr>]
      else [])"

definition outbound_events :: "libm \<Rightarrow> Driver \<Rightarrow> Load \<Rightarrow> Facility \<Rightarrow> int \<Rightarrow> int \<Rightarrow> int \<Rightarrow> int \<Rightarrow> Event list" where
  "outbound_events L d load fac dhMinutes transitMinutes handoff dhArrival =
     [DriveEvent dhMinutes (DistanceMiles L (CurrentLocation d) (FacLocation fac)) (FacID fac)]
     @ handoff_wait handoff dhArrival (FacID fac) @
     [DriveEvent transitMinutes (DistanceMiles L (FacLocation fac) (Destination load)) (NodeID (Destination load)),
      \<lparr>EvType = EventUnloading, DurationMin = 120, DistanceMi = 0, IsSleeper = False,
       EvLocationID = NodeID (Destination load), Description = ''Delivery Unload''\<rparr>]"

text \<open>A simulation without automatic rests; its error becomes an infeasible relay.\<close>

definition relay_clocks :: "Driver \<Rightarrow> PolicySpecs \<Rightarrow> DriverClocks" where
  "relay_clocks d specs = (case Clocks d of None \<Rightarrow> NewDriverClocks specs (time_Unix (AvailableEpoch d)) | Some c \<Rightarrow> c)"

definition relay_simulate :: "DriverClocks \<Rightarrow> Event list \<Rightarrow> PolicySpecs \<Rightarrow> DriverClocks result option" where
  "relay_simulate c evs specs =
     (case Simulate (Some c) evs specs False of
        None \<Rightarrow> None
      | Some (Inl _) \<Rightarrow> Some (Inl ErrRelayInfeasible)
      | Some (Inr res) \<Rightarrow> Some (Inr (FinalClocks res)))"

text \<open>The half of the revenue and the cost of one driver.\<close>

definition segment_cost :: "CostConfig \<Rightarrow> Load \<Rightarrow> f64 \<Rightarrow> f64 \<Rightarrow> 53 TripCostBreakdown" where
  "segment_cost cc load loaded dh =
     (let loadedCost = loaded * LoadedMileRate cc; emptyCost = dh * EmptyMileRate cc; fixedCost = FixedCostPerLoad cc / Fin 2;
          totalCost = loadedCost + emptyCost + fixedCost in
      \<lparr>TcRevenue = Revenue load / Fin 2, TcFixedCost = fixedCost, TcLoadedCost = loadedCost, TcEmptyCost = emptyCost,
       TcEmptyToHomeCost = 0, TcDwellCost = 0, TcLatePenalty = 0, TcDriverBonus = 0, TcTotalCost = totalCost,
       NetContribution = Revenue load / Fin 2 - totalCost\<rparr>)"

definition EvaluateRelayFeasibility ::
  "libm \<Rightarrow> Driver \<Rightarrow> Driver \<Rightarrow> Load \<Rightarrow> Facility \<Rightarrow> CostConfig \<Rightarrow> RelayConfig \<Rightarrow> PolicySpecs \<Rightarrow> RelayExchange result option" where
  "EvaluateRelayFeasibility L driverIn driverOut load fac cc rc specs =
     (if DrvID driverIn = DrvID driverOut then Some (Inl ErrRelaySameDriver)
      else if equipment_mismatch driverIn load \<or> equipment_mismatch driverOut load then Some (Inl ErrRelayInfeasible)
      else if detour_exceeded L rc load (FacLocation fac) then Some (Inl ErrRelayInfeasible)
      else case inbound_times L rc driverIn load (FacLocation fac) of (dhMinIn, pickupStart, transitMinIn, relayArrival) \<Rightarrow>
      if PickupLatestEpoch load > 0 \<and> pickupStart > PickupLatestEpoch load then Some (Inl ErrRelayInfeasible)
      else if \<not> IsOpenAt 0 fac (time_Unix relayArrival) then Some (Inl ErrRelayInfeasible)
      else on_ok (relay_simulate (relay_clocks driverIn specs) (inbound_events L rc driverIn load fac dhMinIn transitMinIn) specs)
        (\<lambda>clocksIn.
          let inboundEnd = relayArrival + relay_dwell rc * 60;
              inDH = DistanceMiles L (CurrentLocation driverIn) (Origin load);
              inLoaded = DistanceMiles L (Origin load) (FacLocation fac);
              outDH = DistanceMiles L (CurrentLocation driverOut) (FacLocation fac);
              outLoaded = DistanceMiles L (FacLocation fac) (Destination load);
              dhMinOut = leg_minutes outDH (relay_speed rc);
              dhArrivalOut = AvailableEpoch driverOut + dhMinOut * 60;
              handoff = handoff_epoch inboundEnd dhArrivalOut;
              transitMinOut = leg_minutes outLoaded (relay_speed rc);
              destArrival = handoff + transitMinOut * 60 in
          if DeliveryLatestEpoch load > 0 \<and> destArrival > DeliveryLatestEpoch load then Some (Inl ErrRelayInfeasible)
          else on_ok (relay_simulate (relay_clocks driverOut specs)
              (outbound_events L driverOut load fac dhMinOut transitMinOut handoff dhArrivalOut) specs)
            (\<lambda>clocksOut.
              let costIn = segment_cost cc load inLoaded inDH;
                  costOut = segment_cost cc load outLoaded outDH;
                  total = TcTotalCost costIn + TcTotalCost costOut + RelayInterchangeCost rc in
              Some (Inr \<lparr>RxLoadID = LdID load, RelayFacility = fac,
                InboundSegment = \<lparr>SegDriverID = DrvID driverIn, SegRole = RelayLegInbound,
                  SegOrigin = CurrentLocation driverIn, SegDestination = FacLocation fac,
                  SegStartEpoch = AvailableEpoch driverIn, SegEndEpoch = inboundEnd,
                  SegDeadheadMiles = inDH, SegLoadedMiles = inLoaded, SegDwellMin = 120 + relay_dwell rc, SegRestMin = 0,
                  SegTripMin = dhMinIn + 120 + transitMinIn + relay_dwell rc, SegCost = costIn, ResultingClocks = clocksIn\<rparr>,
                OutboundSegment = \<lparr>SegDriverID = DrvID driverOut, SegRole = RelayLegOutbound,
                  SegOrigin = CurrentLocation driverOut, SegDestination = Destination load,
                  SegStartEpoch = AvailableEpoch driverOut, SegEndEpoch = destArrival + 120 * 60,
                  SegDeadheadMiles = outDH, SegLoadedMiles = outLoaded, SegDwellMin = 120, SegRestMin = 0,
                  SegTripMin = dhMinOut + transitMinOut + 120, SegCost = costOut, ResultingClocks = clocksOut\<rparr>,
                HandoffStartEpoch = relayArrival, HandoffCompleteEpoch = handoff, InterchangeDwellMin = relay_dwell rc,
                RxRevenue = Revenue load, RxTotalCost = total, RxNet = Revenue load - total,
                DeliveryArrival = time_Unix destArrival\<rparr>))))"

section \<open>What a relay exchange is\<close>

lemma relay_simulate_spec:
  assumes "ValidatePolicy specs = Inr ()" and "clocks_legal specs c" and "rests_nonneg evs"
  shows "\<exists>r. relay_simulate c evs specs = Some r \<and> (\<forall>clk. r = Inr clk \<longrightarrow> clocks_legal specs clk)"
proof -
  consider "Simulate (Some c) evs specs False = Some (Inl ErrHOSViolation)"
    | res where "Simulate (Some c) evs specs False = Some (Inr res)"
    using Simulate_cases [OF assms(1) clocks_legal_safe [OF assms(2)] assms(3), of False] by blast
  then show ?thesis
  proof cases
    case 1
    then show ?thesis by (simp add: relay_simulate_def)
  next
    case (2 res)
    obtain s where "res = sim_result c s" "sim_inv specs (now c) s" using Simulate_inv [OF assms 2] .
    then show ?thesis using 2 by (simp add: relay_simulate_def sim_inv_def sim_result_def)
  qed
qed

lemma relay_events_nonneg [simp]:
  "rests_nonneg (inbound_events L rc d load fac m1 m2)" "rests_nonneg (outbound_events L d load fac m1 m2 h a)"
  by (simp_all add: rests_nonneg_def inbound_events_def outbound_events_def handoff_wait_def DriveEvent_def Let_def)

definition relay_ok :: "libm \<Rightarrow> Driver \<Rightarrow> Driver \<Rightarrow> Load \<Rightarrow> Facility \<Rightarrow> RelayConfig \<Rightarrow> PolicySpecs \<Rightarrow> RelayExchange \<Rightarrow> bool" where
  "relay_ok L driverIn driverOut load fac rc specs ex \<longleftrightarrow>
     RxLoadID ex = LdID load \<and> RelayFacility ex = fac \<and> SegDriverID (InboundSegment ex) = DrvID driverIn \<and>
     SegDriverID (OutboundSegment ex) = DrvID driverOut \<and> DrvID driverIn \<noteq> DrvID driverOut \<and>
     \<not> equipment_mismatch driverIn load \<and> \<not> equipment_mismatch driverOut load \<and>
     \<not> detour_exceeded L rc load (FacLocation fac) \<and>
     IsOpenAt 0 fac (time_Unix (HandoffStartEpoch ex)) \<and>
     PickupEarliestEpoch load + 120 * 60 + leg_minutes (SegLoadedMiles (InboundSegment ex)) (relay_speed rc) * 60 \<le> HandoffStartEpoch ex \<and>
     SegEndEpoch (InboundSegment ex) = HandoffStartEpoch ex + relay_dwell rc * 60 \<and>
     SegEndEpoch (InboundSegment ex) \<le> HandoffCompleteEpoch ex \<and>
     AvailableEpoch driverOut + leg_minutes (SegDeadheadMiles (OutboundSegment ex)) (relay_speed rc) * 60 \<le> HandoffCompleteEpoch ex \<and>
     (DeliveryLatestEpoch load \<le> 0 \<or> Unix_of (DeliveryArrival ex) \<le> DeliveryLatestEpoch load) \<and>
     clocks_legal specs (ResultingClocks (InboundSegment ex)) \<and> clocks_legal specs (ResultingClocks (OutboundSegment ex)) \<and>
     RxNet ex = Revenue load - RxTotalCost ex \<and>
     RxTotalCost ex = TcTotalCost (SegCost (InboundSegment ex)) + TcTotalCost (SegCost (OutboundSegment ex)) + RelayInterchangeCost rc"

lemma EvaluateRelayFeasibility_spec:
  assumes v: "ValidatePolicy specs = Inr ()" and "clocks_legal specs (relay_clocks driverIn specs)"
    and "clocks_legal specs (relay_clocks driverOut specs)"
  shows "\<exists>r. EvaluateRelayFeasibility L driverIn driverOut load fac cc rc specs = Some r \<and>
    (\<forall>ex. r = Inr ex \<longrightarrow> relay_ok L driverIn driverOut load fac rc specs ex)"
proof -
  obtain m1 p m2 a where t: "inbound_times L rc driverIn load (FacLocation fac) = (m1, p, m2, a)" by (metis prod_cases4)
  have a: "PickupEarliestEpoch load + 120 * 60 + leg_minutes (DistanceMiles L (Origin load) (FacLocation fac)) (relay_speed rc) * 60 \<le> a"
    using t by (auto simp: inbound_times_def Let_def split: if_splits)
  obtain r1 where r1: "relay_simulate (relay_clocks driverIn specs) (inbound_events L rc driverIn load fac m1 m2) specs = Some r1"
    "\<forall>clk. r1 = Inr clk \<longrightarrow> clocks_legal specs clk"
    using relay_simulate_spec [OF v assms(2) relay_events_nonneg(1)] by blast
  have r2: "\<exists>r. relay_simulate (relay_clocks driverOut specs) (outbound_events L driverOut load fac x y h b) specs = Some r \<and>
    (\<forall>clk. r = Inr clk \<longrightarrow> clocks_legal specs clk)" for x y h b
    using relay_simulate_spec [OF v assms(3) relay_events_nonneg(2)] .
  show ?thesis
  proof (cases "DrvID driverIn = DrvID driverOut \<or> equipment_mismatch driverIn load \<or> equipment_mismatch driverOut load \<or>
      detour_exceeded L rc load (FacLocation fac) \<or> PickupLatestEpoch load > 0 \<and> p > PickupLatestEpoch load \<or>
      \<not> IsOpenAt 0 fac (time_Unix a)")
    case True
    then show ?thesis using t by (auto simp: EvaluateRelayFeasibility_def)
  next
    case f: False
    show ?thesis
    proof (cases r1)
      case (Inl e)
      then show ?thesis using f t r1(1) by (auto simp: EvaluateRelayFeasibility_def)
    next
      case (Inr clocksIn)
      define dh where "dh = leg_minutes (DistanceMiles L (CurrentLocation driverOut) (FacLocation fac)) (relay_speed rc)"
      define b where "b = AvailableEpoch driverOut + dh * 60"
      define h where "h = handoff_epoch (a + relay_dwell rc * 60) b"
      define y where "y = leg_minutes (DistanceMiles L (FacLocation fac) (Destination load)) (relay_speed rc)"
      obtain r where r: "relay_simulate (relay_clocks driverOut specs) (outbound_events L driverOut load fac dh y h b) specs = Some r"
        "\<forall>clk. r = Inr clk \<longrightarrow> clocks_legal specs clk" using r2 by blast
      have hb: "a + relay_dwell rc * 60 \<le> h" "AvailableEpoch driverOut + dh * 60 \<le> h" by (auto simp: h_def handoff_epoch_def b_def)
      show ?thesis
      proof (cases "DeliveryLatestEpoch load > 0 \<and> h + y * 60 > DeliveryLatestEpoch load")
        case True
        then show ?thesis using f t r1(1) Inr
          by (auto simp: EvaluateRelayFeasibility_def Let_def dh_def b_def h_def y_def)
      next
        case w: False
        show ?thesis
        proof (cases r)
          case I: (Inl e)
          then show ?thesis using f t r1(1) Inr w r(1)
            unfolding EvaluateRelayFeasibility_def Let_def y_def h_def b_def dh_def by auto
        next
          case I: (Inr clk)
          then show ?thesis using f t r1 Inr w r a hb
            unfolding EvaluateRelayFeasibility_def Let_def y_def h_def b_def dh_def by (auto simp: relay_ok_def)
        qed
      qed
    qed
  qed
qed


definition demo_hub :: "Location \<Rightarrow> Facility" where
  "demo_hub loc = \<lparr>FacID = ''HUB'', FacName = ''Hub'', FacLocation = loc, FacType = ''RELAY_HUB'', OpenMinutesOfDay = 0,
     CloseMinutesOfDay = 0, AverageDwellMinutes = 60, RequiresAppointment = False\<rparr>"

lemma demo_relay_clocks: "clocks_legal USPolicySpecs (relay_clocks (demo_driver i loc) USPolicySpecs)"
  by (simp add: relay_clocks_def demo_driver_def NewDriverClocks_legal [OF US_specs_valid])


text \<open>
  The wait for the pickup window is no event of the simulation: a driver who waits a day for the window is
  simulated as one who loads at once, its clocks stay 24 hours behind the schedule of its segment, and the
  hours on duty are never checked against it.
\<close>

theorem relay_ignores_wait:
  "map_option (map_sum id (\<lambda>ex. (SegStartEpoch (InboundSegment ex), SegEndEpoch (InboundSegment ex),
      Unix_of (now (ResultingClocks (InboundSegment ex))))))
     (EvaluateRelayFeasibility demo_libm (demo_driver ''D1'' demo_A) (demo_driver ''D2'' demo_A)
       ((demo_load ''L1'' demo_A demo_A)\<lparr>PickupEarliestEpoch := 86400\<rparr>) (demo_hub demo_A)
       DefaultCostConfig DefaultRelayConfig USPolicySpecs) =
   Some (Inr (0, 86400 + 180 * 60, 180 * 60))"
  by code_simp

text \<open>
  The equipment check of a relay is not the one of an assignment: a load with an endorsement neither driver
  has is accepted, a load that takes any equipment is refused.
\<close>

theorem relay_equipment_disagrees:
  "(let D1 = demo_driver ''D1'' demo_A; D2 = demo_driver ''D2'' demo_A;
        hazmat = (demo_load ''L1'' demo_A demo_A)\<lparr>RequiredEndorsements := [''HAZMAT'']\<rparr>;
        anything = (demo_load ''L1'' demo_A demo_A)\<lparr>RequiredEquipment := EquipAny\<rparr>;
        can = (\<lambda>d l. CanHandle (DrvEquipment d) (RequiredEquipment l) (RequiredEndorsements l));
        relay = (\<lambda>l. map_option (map_sum id RxLoadID) (EvaluateRelayFeasibility demo_libm D1 D2 l (demo_hub demo_A)
          DefaultCostConfig DefaultRelayConfig USPolicySpecs)) in
    \<not> can D1 hazmat \<and> \<not> can D2 hazmat \<and> relay hazmat = Some (Inr ''L1'') \<and>
    can D1 anything \<and> can D2 anything \<and> relay anything = Some (Inl ErrRelayInfeasible))"
  by code_simp

end
