(* ===== verification/Relay_Synth.thy ===== *)
theory Relay_Synth
  imports Relay
begin

text \<open>
  \<open>internal/domain/policy/relay_synthesizer.go\<close> and \<open>internal/service/dispatch/relay_runner.go\<close>: the search for
  relays over loads, hubs and pairs of drivers, the greedy choice among the candidates, and the batch that
  combines relays with tours. One goroutine per pair of load and hub sends its candidates into a channel;
  what the collector receives is given by a function on the list of all candidates: a rearrangement of it,
  or part of one when the context ends.
\<close>

section \<open>Candidates\<close>

record relayCandidate =
  CandExchange :: RelayExchange
  CandIn :: string
  CandOut :: string
  CandLoadID :: string
  CandNet :: f64

fun gather :: "('a \<Rightarrow> 'b list option) \<Rightarrow> 'a list \<Rightarrow> 'b list option" where
  "gather f [] = Some []"
| "gather f (x # xs) = (case f x of None \<Rightarrow> None | Some ys \<Rightarrow> map_option ((@) ys) (gather f xs))"

lemma gather_Some:
  assumes "\<And>x. x \<in> set xs \<Longrightarrow> \<exists>ys. f x = Some ys \<and> (\<forall>y\<in>set ys. P x y)"
  shows "\<exists>zs. gather f xs = Some zs \<and> (\<forall>z\<in>set zs. \<exists>x\<in>set xs. P x z)"
  using assms
proof (induction xs)
  case (Cons x xs)
  then obtain ys zs where "f x = Some ys" "\<forall>y\<in>set ys. P x y" "gather f xs = Some zs" "\<forall>z\<in>set zs. \<exists>x\<in>set xs. P x z"
    by (metis list.set_intros)
  then show ?case by auto
qed simp

definition long_haul :: "libm \<Rightarrow> f64 \<Rightarrow> Load \<Rightarrow> bool" where
  "long_haul L minHaulMiles l \<longleftrightarrow> DistanceMiles L (Origin l) (Destination l) \<ge> minHaulMiles"

definition relay_hub :: "Facility \<Rightarrow> bool" where
  "relay_hub fac \<longleftrightarrow> FacType fac = ''RELAY_HUB'' \<or> FacType fac = ''TERMINAL''"

definition hub_off_route :: "libm \<Rightarrow> RelayConfig \<Rightarrow> Load \<Rightarrow> Facility \<Rightarrow> bool" where
  "hub_off_route L rc l h \<longleftrightarrow>
     DistanceMiles L (Origin l) (FacLocation h) + DistanceMiles L (FacLocation h) (Destination l) >
     DistanceMiles L (Origin l) (Destination l) * MaxRelayDetourRatio rc"

definition pair_candidate ::
  "libm \<Rightarrow> CostConfig \<Rightarrow> RelayConfig \<Rightarrow> PolicySpecs \<Rightarrow> Load \<Rightarrow> Facility \<Rightarrow> Driver \<Rightarrow> Driver \<Rightarrow> relayCandidate list option" where
  "pair_candidate L cc rc specs l h d1 d2 =
     (if DrvID d1 = DrvID d2 then Some []
      else if DistanceMiles L (CurrentLocation d2) (FacLocation h) > Fin 250 then Some []
      else case EvaluateRelayFeasibility L d1 d2 l h cc rc specs of
        None \<Rightarrow> None
      | Some (Inl _) \<Rightarrow> Some []
      | Some (Inr ex) \<Rightarrow>
          Some (if RxNet ex > 0 then [\<lparr>CandExchange = ex, CandIn = DrvID d1, CandOut = DrvID d2, CandLoadID = LdID l,
            CandNet = RxNet ex\<rparr>] else []))"

text \<open>The goroutine of one load and one hub.\<close>

definition hub_candidates ::
  "libm \<Rightarrow> CostConfig \<Rightarrow> RelayConfig \<Rightarrow> PolicySpecs \<Rightarrow> Driver list \<Rightarrow> Load \<Rightarrow> Facility \<Rightarrow> relayCandidate list option" where
  "hub_candidates L cc rc specs drivers l h =
     (if hub_off_route L rc l h then Some []
      else gather (\<lambda>d1. if DistanceMiles L (CurrentLocation d1) (Origin l) > Fin 250 then Some []
          else gather (pair_candidate L cc rc specs l h d1) drivers) drivers)"

definition relay_less :: "relayCandidate \<Rightarrow> relayCandidate \<Rightarrow> bool" where
  "relay_less a b =
     (if \<not> feq (CandNet a) (CandNet b) then CandNet a > CandNet b
      else if CandLoadID a \<noteq> CandLoadID b then CandLoadID a < CandLoadID b
      else if CandIn a \<noteq> CandIn b then CandIn a < CandIn b
      else CandOut a < CandOut b)"

fun select_relays :: "string set \<Rightarrow> string set \<Rightarrow> relayCandidate list \<Rightarrow> RelayExchange list" where
  "select_relays usedDrivers usedLoads [] = []"
| "select_relays usedDrivers usedLoads (cand # cands) =
     (if CandIn cand \<in> usedDrivers \<or> CandOut cand \<in> usedDrivers \<or> CandLoadID cand \<in> usedLoads
      then select_relays usedDrivers usedLoads cands
      else CandExchange cand #
        select_relays (insert (CandOut cand) (insert (CandIn cand) usedDrivers)) (insert (CandLoadID cand) usedLoads) cands)"

record RelaySynthesizer =
  RsCostConfig :: CostConfig
  RsRelayConfig :: RelayConfig
  RsPolicySpecs :: PolicySpecs
  RsFacilities :: "FacilityStore option"

definition min_haul :: "f64 \<Rightarrow> f64" where
  "min_haul minHaulMiles = (if minHaulMiles \<le> 0 then Fin 450 else minHaulMiles)"

definition all_relay_candidates ::
  "libm \<Rightarrow> RelaySynthesizer \<Rightarrow> FacilityStore \<Rightarrow> Driver list \<Rightarrow> Load list \<Rightarrow> f64 \<Rightarrow> relayCandidate list option" where
  "all_relay_candidates L rs store drivers loads minHaulMiles =
     gather (\<lambda>l. gather (hub_candidates L (RsCostConfig rs) (RsRelayConfig rs) (RsPolicySpecs rs) drivers l)
         (filter relay_hub (Facilities store)))
       (filter (long_haul L (min_haul minHaulMiles)) loads)"

text \<open>\<open>arrive\<close> is what the collector receives of the candidates.\<close>

definition SynthesizeRelays ::
  "libm \<Rightarrow> RelaySynthesizer \<Rightarrow> (relayCandidate list \<Rightarrow> relayCandidate list) \<Rightarrow> Driver list \<Rightarrow> Load list \<Rightarrow> f64 \<Rightarrow>
    RelayExchange list option" where
  "SynthesizeRelays L rs arrive drivers loads minHaulMiles =
     (case RsFacilities rs of
        None \<Rightarrow> Some []
      | Some store \<Rightarrow>
          if length drivers < 2 \<or> loads = [] \<or> Facility_Count store = 0 then Some []
          else map_option (\<lambda>cands. select_relays {} {} (sort_slice relay_less (arrive cands)))
            (all_relay_candidates L rs store drivers loads minHaulMiles))"

section \<open>The greedy choice\<close>

definition exchange_drivers :: "RelayExchange list \<Rightarrow> string list" where
  "exchange_drivers exs = concat (map (\<lambda>ex. [SegDriverID (InboundSegment ex), SegDriverID (OutboundSegment ex)]) exs)"

lemma exchange_drivers_simps [simp]:
  "exchange_drivers [] = []"
  "exchange_drivers (ex # exs) = SegDriverID (InboundSegment ex) # SegDriverID (OutboundSegment ex) # exchange_drivers exs"
  by (simp_all add: exchange_drivers_def)

definition cand_wf :: "relayCandidate \<Rightarrow> bool" where
  "cand_wf c \<longleftrightarrow> CandIn c = SegDriverID (InboundSegment (CandExchange c)) \<and> CandOut c = SegDriverID (OutboundSegment (CandExchange c)) \<and>
     CandLoadID c = RxLoadID (CandExchange c) \<and> CandNet c = RxNet (CandExchange c) \<and> CandIn c \<noteq> CandOut c"

lemma select_relays_spec:
  fixes UD UL :: "string set"
  assumes "\<forall>c\<in>set cands. cand_wf c"
  defines "R \<equiv> select_relays UD UL cands"
  shows "set R \<subseteq> CandExchange ` set cands \<and> distinct (exchange_drivers R) \<and> distinct (map RxLoadID R) \<and>
    set (exchange_drivers R) \<inter> UD = {} \<and> set (map RxLoadID R) \<inter> UL = {}"
  using assms(1) unfolding R_def
proof (induction cands arbitrary: UD UL)
  case (Cons c cands)
  show ?case
  proof (cases "CandIn c \<in> UD \<or> CandOut c \<in> UD \<or> CandLoadID c \<in> UL")
    case True
    then show ?thesis using Cons by force
  next
    case False
    let ?R = "select_relays (insert (CandOut c) (insert (CandIn c) UD)) (insert (CandLoadID c) UL) cands"
    have wf: "\<forall>c\<in>set cands. cand_wf c" using Cons.prems by simp
    have c: "SegDriverID (InboundSegment (CandExchange c)) = CandIn c" "SegDriverID (OutboundSegment (CandExchange c)) = CandOut c"
      "RxLoadID (CandExchange c) = CandLoadID c" "CandIn c \<noteq> CandOut c"
      using Cons.prems unfolding cand_wf_def by (metis list.set_intros(1))+
    from Cons.IH [OF wf, of "insert (CandOut c) (insert (CandIn c) UD)" "insert (CandLoadID c) UL"]
    have IH: "set ?R \<subseteq> CandExchange ` set cands" "distinct (exchange_drivers ?R)" "distinct (map RxLoadID ?R)"
      "set (exchange_drivers ?R) \<inter> insert (CandOut c) (insert (CandIn c) UD) = {}"
      "set (map RxLoadID ?R) \<inter> insert (CandLoadID c) UL = {}" by blast+
    have "select_relays UD UL (c # cands) = CandExchange c # ?R" using False by simp
    then show ?thesis using IH c False by (simp only: exchange_drivers_simps list.map list.set distinct.simps) blast
  qed
qed simp

text \<open>A candidate that is not chosen shares a driver or its load with a chosen one at least as profitable, or with what was used before.\<close>

lemma select_relays_maximal:
  assumes "\<forall>c\<in>set cands. cand_wf c" and "sorted_wrt (\<lambda>a b. \<not> relay_less b a) cands" and "c \<in> set cands"
  shows "CandExchange c \<in> set (select_relays UD UL cands) \<or> CandIn c \<in> UD \<or> CandOut c \<in> UD \<or> CandLoadID c \<in> UL \<or>
    (\<exists>ex\<in>set (select_relays UD UL cands). \<not> RxNet ex < CandNet c \<and>
      (RxLoadID ex = CandLoadID c \<or> CandIn c \<in> set (exchange_drivers [ex]) \<or> CandOut c \<in> set (exchange_drivers [ex])))"
  using assms
proof (induction cands arbitrary: UD UL)
  case (Cons a cands)
  show ?case
  proof (cases "CandIn a \<in> UD \<or> CandOut a \<in> UD \<or> CandLoadID a \<in> UL")
    case True
    then show ?thesis using Cons by auto
  next
    case False
    show ?thesis
    proof (cases "c = a")
      case True
      then show ?thesis using False by simp
    next
      case ca: False
      then have c: "c \<in> set cands" using Cons.prems(3) by simp
      have "\<not> relay_less c a" using Cons.prems(2) c by simp
      then have n: "\<not> CandNet a < CandNet c" by (auto simp: relay_less_def feq_def split: if_splits)
      have wf: "cand_wf a" "\<forall>c\<in>set cands. cand_wf c" "sorted_wrt (\<lambda>a b. \<not> relay_less b a) cands"
        using Cons.prems by auto
      let ?UD = "insert (CandOut a) (insert (CandIn a) UD)" and ?UL = "insert (CandLoadID a) UL"
      from Cons.IH [OF wf(2,3) c, of ?UD ?UL] show ?thesis
      proof (elim disjE)
        assume "CandIn c \<in> ?UD"
        then show ?thesis using False wf(1) n by (auto simp: cand_wf_def)
      next
        assume "CandOut c \<in> ?UD"
        then show ?thesis using False wf(1) n by (auto simp: cand_wf_def)
      next
        assume "CandLoadID c \<in> ?UL"
        then show ?thesis using False wf(1) n by (auto simp: cand_wf_def)
      qed (use False in auto)
    qed
  qed
qed simp

interpretation by_net: slice_order relay_less "{c. \<not> is_nan (CandNet c)}"
proof
  fix a b c :: relayCandidate
  assume "a \<in> {c. \<not> is_nan (CandNet c)}" "b \<in> {c. \<not> is_nan (CandNet c)}" "c \<in> {c. \<not> is_nan (CandNet c)}"
  then have n: "\<not> is_nan (CandNet a)" "\<not> is_nan (CandNet b)" "\<not> is_nan (CandNet c)" by auto
  show "\<not> relay_less b a" if "relay_less a b"
    using that n by (auto simp: relay_less_def feq_def dest: less_fl_asym split: if_splits)
  show "\<not> relay_less a c" if "\<not> relay_less a b" "\<not> relay_less b c"
  proof -
    have t: "x = y \<or> x < y \<or> y < x" if "\<not> is_nan x" "\<not> is_nan y" for x y :: f64
      using that not_less_fl [of x y] by (auto simp: less_eq_fl_def)
    show ?thesis
      using that n t [of "CandNet a" "CandNet b"] t [of "CandNet b" "CandNet c"] t [of "CandNet a" "CandNet c"]
      by (auto simp: relay_less_def feq_def dest: less_fl_asym less_fl_trans split: if_splits)
  qed
qed

section \<open>What the synthesizer returns\<close>

definition relay_clocks_ok :: "PolicySpecs \<Rightarrow> Driver list \<Rightarrow> bool" where
  "relay_clocks_ok specs drivers \<longleftrightarrow> (\<forall>d\<in>set drivers. clocks_legal specs (relay_clocks d specs))"

text \<open>A candidate: a sound, profitable exchange of two drivers for a long-haul load at a hub.\<close>

definition relay_candidate ::
  "libm \<Rightarrow> RelaySynthesizer \<Rightarrow> FacilityStore \<Rightarrow> Driver list \<Rightarrow> Load list \<Rightarrow> f64 \<Rightarrow> relayCandidate \<Rightarrow> bool" where
  "relay_candidate L rs store drivers loads m c \<longleftrightarrow> cand_wf c \<and> CandNet c > 0 \<and>
     (\<exists>l\<in>set loads. \<exists>h\<in>set (Facilities store). \<exists>d1\<in>set drivers. \<exists>d2\<in>set drivers. long_haul L (min_haul m) l \<and> relay_hub h \<and>
        \<not> hub_off_route L (RsRelayConfig rs) l h \<and>
        relay_ok L d1 d2 l h (RsRelayConfig rs) (RsPolicySpecs rs) (CandExchange c))"

lemma pair_candidate_spec:
  assumes "ValidatePolicy specs = Inr ()" and "clocks_legal specs (relay_clocks d1 specs)" and "clocks_legal specs (relay_clocks d2 specs)"
  shows "\<exists>cs. pair_candidate L cc rc specs l h d1 d2 = Some cs \<and>
    (\<forall>c\<in>set cs. cand_wf c \<and> CandNet c > 0 \<and> relay_ok L d1 d2 l h rc specs (CandExchange c))"
proof -
  obtain r where r: "EvaluateRelayFeasibility L d1 d2 l h cc rc specs = Some r"
    "\<forall>ex. r = Inr ex \<longrightarrow> relay_ok L d1 d2 l h rc specs ex"
    using EvaluateRelayFeasibility_spec [OF assms] by blast
  show ?thesis
  proof (cases r)
    case (Inl e)
    then show ?thesis using r by (simp add: pair_candidate_def)
  next
    case (Inr ex)
    then have ok: "relay_ok L d1 d2 l h rc specs ex" using r(2) by blast
    then have "RxLoadID ex = LdID l" "SegDriverID (InboundSegment ex) = DrvID d1" "SegDriverID (OutboundSegment ex) = DrvID d2"
      "DrvID d1 \<noteq> DrvID d2" by (simp_all add: relay_ok_def)
    then show ?thesis using r(1) Inr ok by (simp add: pair_candidate_def cand_wf_def)
  qed
qed

lemma hub_candidates_spec:
  assumes "ValidatePolicy specs = Inr ()" and "relay_clocks_ok specs drivers"
  shows "\<exists>cs. hub_candidates L cc rc specs drivers l h = Some cs \<and>
    (\<forall>c\<in>set cs. \<exists>d1\<in>set drivers. \<exists>d2\<in>set drivers. \<not> hub_off_route L rc l h \<and> cand_wf c \<and> CandNet c > 0 \<and>
      relay_ok L d1 d2 l h rc specs (CandExchange c))"
proof (cases "hub_off_route L rc l h")
  case True
  then show ?thesis by (simp add: hub_candidates_def)
next
  case False
  let ?f = "\<lambda>d1. if DistanceMiles L (CurrentLocation d1) (Origin l) > Fin 250 then Some []
      else gather (pair_candidate L cc rc specs l h d1) drivers"
  have "\<exists>cs. ?f d1 = Some cs \<and> (\<forall>c\<in>set cs. \<exists>d2\<in>set drivers. cand_wf c \<and> CandNet c > 0 \<and> relay_ok L d1 d2 l h rc specs (CandExchange c))"
    if d1: "d1 \<in> set drivers" for d1
  proof (cases "DistanceMiles L (CurrentLocation d1) (Origin l) > Fin 250")
    case True
    then show ?thesis by simp
  next
    case False
    have "\<exists>cs. gather (pair_candidate L cc rc specs l h d1) drivers = Some cs \<and>
      (\<forall>c\<in>set cs. \<exists>d2\<in>set drivers. cand_wf c \<and> CandNet c > 0 \<and> relay_ok L d1 d2 l h rc specs (CandExchange c))"
      using pair_candidate_spec [OF assms(1)] assms(2) d1 unfolding relay_clocks_ok_def by (intro gather_Some) blast
    then show ?thesis using False by simp
  qed
  then have "\<exists>cs. gather ?f drivers = Some cs \<and> (\<forall>c\<in>set cs. \<exists>d1\<in>set drivers. \<exists>d2\<in>set drivers.
      cand_wf c \<and> CandNet c > 0 \<and> relay_ok L d1 d2 l h rc specs (CandExchange c))"
    by (rule gather_Some)
  then show ?thesis using False by (simp add: hub_candidates_def)
qed

lemma all_relay_candidates_spec:
  assumes "ValidatePolicy (RsPolicySpecs rs) = Inr ()" and "relay_clocks_ok (RsPolicySpecs rs) drivers"
  shows "\<exists>cs. all_relay_candidates L rs store drivers loads m = Some cs \<and> (\<forall>c\<in>set cs. relay_candidate L rs store drivers loads m c)"
proof -
  let ?g = "\<lambda>l. gather (hub_candidates L (RsCostConfig rs) (RsRelayConfig rs) (RsPolicySpecs rs) drivers l) (filter relay_hub (Facilities store))"
  have "\<exists>cs. ?g l = Some cs \<and> (\<forall>c\<in>set cs. \<exists>h\<in>set (filter relay_hub (Facilities store)). \<exists>d1\<in>set drivers. \<exists>d2\<in>set drivers.
      \<not> hub_off_route L (RsRelayConfig rs) l h \<and> cand_wf c \<and> CandNet c > 0 \<and> relay_ok L d1 d2 l h (RsRelayConfig rs) (RsPolicySpecs rs) (CandExchange c))" for l
    by (rule gather_Some) (rule hub_candidates_spec [OF assms])
  then have "\<exists>cs. gather ?g (filter (long_haul L (min_haul m)) loads) = Some cs \<and> (\<forall>c\<in>set cs. \<exists>l\<in>set (filter (long_haul L (min_haul m)) loads).
      \<exists>h\<in>set (filter relay_hub (Facilities store)). \<exists>d1\<in>set drivers. \<exists>d2\<in>set drivers.
      \<not> hub_off_route L (RsRelayConfig rs) l h \<and> cand_wf c \<and> CandNet c > 0 \<and> relay_ok L d1 d2 l h (RsRelayConfig rs) (RsPolicySpecs rs) (CandExchange c))"
    by (rule gather_Some)
  then show ?thesis unfolding all_relay_candidates_def relay_candidate_def by (simp only: set_filter mem_Collect_eq) blast
qed

text \<open>
  The synthesizer always returns when the specifications are valid and the clocks legal. Of the candidates
  that arrive, all of them sound and profitable, it selects exchanges in which no driver and no load appears
  twice, and a candidate it passes over shares a driver or the load with a selected exchange that is at
  least as profitable.
\<close>

lemma SynthesizeRelays_spec:
  assumes "ValidatePolicy (RsPolicySpecs rs) = Inr ()" and "relay_clocks_ok (RsPolicySpecs rs) drivers"
    and "RsFacilities rs = Some store" and "2 \<le> length drivers" and "loads \<noteq> []" and "Facility_Count store \<noteq> 0"
    and "\<And>cs. set (arrive cs) \<subseteq> set cs"
  shows "\<exists>cands exs. all_relay_candidates L rs store drivers loads m = Some cands \<and>
    SynthesizeRelays L rs arrive drivers loads m = Some exs \<and>
    (\<forall>c\<in>set cands. relay_candidate L rs store drivers loads m c) \<and> set exs \<subseteq> CandExchange ` set (arrive cands) \<and>
    distinct (exchange_drivers exs) \<and> distinct (map RxLoadID exs) \<and>
    (\<forall>c\<in>set (arrive cands). CandExchange c \<in> set exs \<or> (\<exists>ex\<in>set exs. \<not> RxNet ex < CandNet c \<and>
      (RxLoadID ex = CandLoadID c \<or> CandIn c \<in> set (exchange_drivers [ex]) \<or> CandOut c \<in> set (exchange_drivers [ex]))))"
proof -
  obtain cands where c: "all_relay_candidates L rs store drivers loads m = Some cands"
    "\<forall>c\<in>set cands. relay_candidate L rs store drivers loads m c"
    using all_relay_candidates_spec [OF assms(1,2)] by blast
  let ?s = "sort_slice relay_less (arrive cands)"
  have ok: "\<forall>c\<in>set ?s. relay_candidate L rs store drivers loads m c" using c(2) assms(7) [of cands] by auto
  then have wf: "\<forall>c\<in>set ?s. cand_wf c" by (simp add: relay_candidate_def)
  have n: "set (arrive cands) \<subseteq> {c. \<not> is_nan (CandNet c)}"
    using c(2) assms(7) [of cands] by (auto simp: relay_candidate_def dest: less_fl_not_nan)
  have S: "SynthesizeRelays L rs arrive drivers loads m = Some (select_relays {} {} ?s)"
    using c(1) assms(3-6) by (simp add: SynthesizeRelays_def)
  show ?thesis
    using select_relays_spec [OF wf, of "{}" "{}"] select_relays_maximal [OF wf by_net.sorted_sort_slice [OF n], of _ "{}" "{}"] c S
    by simp
qed

text \<open>
  When no two candidates agree in profit, load and drivers, the order in which the goroutines send cannot
  be observed.
\<close>

lemma SynthesizeRelays_schedule:
  assumes "all_relay_candidates L rs store drivers loads m = Some cands" and "RsFacilities rs = Some store"
    and "inj_on (\<lambda>c. (CandNet c, CandLoadID c, CandIn c, CandOut c)) (set cands)"
    and "\<forall>c\<in>set cands. \<not> is_nan (CandNet c)"
    and "mset (arrive cands) = mset cands"
  shows "SynthesizeRelays L rs arrive drivers loads m = SynthesizeRelays L rs (\<lambda>cs. cs) drivers loads m"
proof -
  have "sort_slice relay_less (arrive cands) = sort_slice relay_less cands"
  proof (rule by_net.sort_slice_perm_invariant [OF assms(5)])
    have s: "set (arrive cands) = set cands" by (rule mset_eq_setD [OF assms(5)])
    show "set (arrive cands) \<subseteq> {c. \<not> is_nan (CandNet c)}" using assms(4) s by auto
    fix a b
    assume "a \<in> set (arrive cands)" "b \<in> set (arrive cands)" "\<not> relay_less a b" "\<not> relay_less b a"
    moreover from this have "CandNet a = CandNet b \<and> CandLoadID a = CandLoadID b \<and> CandIn a = CandIn b \<and> CandOut a = CandOut b"
      using assms(4) s not_less_fl [of "CandNet a" "CandNet b"]
      by (auto simp: relay_less_def feq_def less_eq_fl_def split: if_splits)
    ultimately show "a = b" using assms(3) s by (auto dest: inj_onD)
  qed
  then show ?thesis using assms(1,2) by (simp add: SynthesizeRelays_def)
qed

section \<open>The combined batch\<close>

text \<open>\<open>relay_runner.go\<close>: relays first, then the tours of the drivers, matches and loads that are left.\<close>

record RelayDispatchBatch =
  RbEpoch :: int
  DirectTours :: "DriverTour list"
  RelayExchanges :: "RelayExchange list"
  RbTotalTours :: nat
  TotalRelays :: nat
  RbLoadedMiles :: f64
  RbEmptyMiles :: f64
  RbDistanceMiles :: f64
  RbEmptyRatio :: f64
  RbGrossRevenue :: f64
  RbOperatingCost :: f64
  RbNetContribution :: f64
  RbDriverIDs :: "string list"
  RbLoadIDs :: "string list"

definition remaining ::
  "RelayExchange list \<Rightarrow> Driver list \<Rightarrow> DriverLoadMatch list \<Rightarrow> Load list \<Rightarrow> Driver list \<times> DriverLoadMatch list \<times> Load list" where
  "remaining exs drivers matches loads =
     (let ds = set (exchange_drivers exs); ls = set (map RxLoadID exs) in
      (filter (\<lambda>d. DrvID d \<notin> ds) drivers, filter (\<lambda>m. MDriverID m \<notin> ds \<and> MLoadID m \<notin> ls) matches,
       filter (\<lambda>l. LdID l \<notin> ls) loads))"

definition add_exchange :: "RelayExchange \<Rightarrow> f64 \<times> f64 \<times> f64 \<times> f64 \<times> f64 \<Rightarrow> f64 \<times> f64 \<times> f64 \<times> f64 \<times> f64" where
  "add_exchange ex = (\<lambda>(loaded, emptyMi, gross, cost, net).
     (loaded + (SegLoadedMiles (InboundSegment ex) + SegLoadedMiles (OutboundSegment ex)),
      emptyMi + (SegDeadheadMiles (InboundSegment ex) + SegDeadheadMiles (OutboundSegment ex)),
      gross + RxRevenue ex, cost + RxTotalCost ex, net + RxNet ex))"

definition combine_batches :: "int \<Rightarrow> RelayExchange list \<Rightarrow> WorkOrderBatch \<Rightarrow> RelayDispatchBatch" where
  "combine_batches ep exs direct =
     (case fold add_exchange exs (BatchLoadedMiles direct, BatchEmptyMiles direct, TotalGrossRevenue direct,
         TotalOperatingCost direct, BatchNetContribution direct) of (loaded, emptyMi, gross, cost, net) \<Rightarrow>
      \<lparr>RbEpoch = ep, DirectTours = BatchTours direct, RelayExchanges = exs, RbTotalTours = length (BatchTours direct),
       TotalRelays = length exs, RbLoadedMiles = loaded, RbEmptyMiles = emptyMi, RbDistanceMiles = loaded + emptyMi,
       RbEmptyRatio = (if loaded + emptyMi > 0 then emptyMi / (loaded + emptyMi) else 0), RbGrossRevenue = gross, RbOperatingCost = cost,
       RbNetContribution = net,
       RbDriverIDs = sort_slice (<) (remdups (exchange_drivers exs @ map TourDriverID (BatchTours direct))),
       RbLoadIDs = sort_slice (<) (remdups (AssignedLoadIDs direct @ map RxLoadID exs))\<rparr>)"

definition SynthesizeRelayBatch ::
  "libm \<Rightarrow> TourSynthesizerConfig \<Rightarrow> RelaySynthesizer option \<Rightarrow> (nat \<Rightarrow> int \<Rightarrow> bool) \<Rightarrow> (nat \<Rightarrow> nat list) \<Rightarrow>
    (relayCandidate list \<Rightarrow> relayCandidate list) \<Rightarrow> int \<Rightarrow> Driver list \<Rightarrow> DriverLoadMatch list \<Rightarrow> Load list \<Rightarrow> f64 \<Rightarrow>
    RelayDispatchBatch result option" where
  "SynthesizeRelayBatch L cfg rs ctxDone sched arrive ep drivers matches allLoads minHaul =
     (case (case rs of None \<Rightarrow> Some [] | Some s \<Rightarrow> SynthesizeRelays L s arrive drivers allLoads minHaul) of
        None \<Rightarrow> None
      | Some exs \<Rightarrow>
          case remaining exs drivers matches allLoads of (ds, ms, ls) \<Rightarrow>
          on_ok (SynthesizeBatch L cfg ctxDone (sched (length ms)) ep ds ms ls)
            (\<lambda>direct. Some (Inr (combine_batches ep exs direct))))"

text \<open>
  Property C30. In a combined batch the relays and the tours are disjoint: no relay shares a driver or a load with another
  relay or with a tour.
\<close>

theorem SynthesizeRelayBatch_disjoint:
  assumes "ValidatePolicy (RsPolicySpecs rs) = Inr ()" and "relay_clocks_ok (RsPolicySpecs rs) drivers"
    and "RsFacilities rs = Some store" and "2 \<le> length drivers" and "allLoads \<noteq> []" and "Facility_Count store \<noteq> 0"
    and "\<And>cs. set (arrive cs) \<subseteq> set cs"
    and "ValidatePolicy (tour_specs cfg) = Inr ()" and "specs_small (tour_specs cfg)" and "NewTourSynthesizer cfg = Inr cfg"
    and "\<forall>d\<in>set drivers. clocks_ok cfg d" and "\<And>n. mset (sched n) = mset [0..<n]"
  shows "\<exists>r. SynthesizeRelayBatch L cfg (Some rs) ctxDone sched arrive ep drivers matches allLoads m = Some r \<and>
    (\<forall>b. r = Inr b \<longrightarrow> distinct (exchange_drivers (RelayExchanges b)) \<and> distinct (map RxLoadID (RelayExchanges b)) \<and>
      (\<forall>t\<in>set (DirectTours b). TourDriverID t \<notin> set (exchange_drivers (RelayExchanges b)) \<and>
        set (loaded_ids (TourLegs t)) \<inter> set (map RxLoadID (RelayExchanges b)) = {}))"
proof -
  obtain cands exs where R: "SynthesizeRelays L rs arrive drivers allLoads m = Some exs"
    "distinct (exchange_drivers exs)" "distinct (map RxLoadID exs)"
    using SynthesizeRelays_spec [OF assms(1-7)] by metis
  obtain ds ms ls where rem: "remaining exs drivers matches allLoads = (ds, ms, ls)" by (metis prod_cases3)
  have rs: "set ds \<subseteq> set drivers" "\<forall>m\<in>set ms. MDriverID m \<notin> set (exchange_drivers exs)"
    "LdID ` set ls \<inter> set (map RxLoadID exs) = {}" using rem by (auto simp: remaining_def Let_def)
  have ok: "\<forall>d\<in>set ds. clocks_ok cfg d" using rs(1) assms(11) by blast
  obtain rs' where b: "batch_results L cfg ctxDone ds ls 0 (sort_matches ms) = Some rs'"
    "\<forall>tours. first_error rs' = Inr tours \<longrightarrow> list_all2 (tour_of_match cfg ls) (sort_matches ms) tours"
    using batch_results_spec [OF assms(8,9,10) ok] by blast
  have B: "SynthesizeBatch L cfg ctxDone (sched (length ms)) ep ds ms ls =
    Some (case first_error rs' of Inl e \<Rightarrow> Inl e | Inr tours \<Rightarrow> Inr (make_batch ep ls tours))"
    using SynthesizeBatch_sequential [OF assms(12) [of "length ms"]] b(1) by simp
  show ?thesis
  proof (cases "first_error rs'")
    case (Inl e)
    then show ?thesis using R(1) rem B by (simp add: SynthesizeRelayBatch_def)
  next
    case (Inr tours)
    let ?b = "combine_batches ep exs (make_batch ep ls tours)"
    have f: "RelayExchanges ?b = exs" "DirectTours ?b = tours"
      by (auto simp: combine_batches_def make_batch_def Let_def split: prod.split)
    have T: "list_all2 (tour_of_match cfg ls) (sort_matches ms) tours" using b(2) Inr by blast
    have "TourDriverID t \<notin> set (exchange_drivers exs) \<and> set (loaded_ids (TourLegs t)) \<inter> set (map RxLoadID exs) = {}"
      if t: "t \<in> set tours" for t
    proof -
      obtain m where m: "m \<in> set (sort_matches ms)" "tour_of_match cfg ls m t"
        using T t by (metis in_set_conv_nth list_all2_conv_all_nth)
      then have "m \<in> set ms" by (simp add: sort_matches_def)
      then show ?thesis using m(2) rs(2,3) by (auto simp: tour_of_match_def)
    qed
    then show ?thesis using R rem B Inr f by (simp add: SynthesizeRelayBatch_def)
  qed
qed

definition demo_relays :: RelaySynthesizer where
  "demo_relays = \<lparr>RsCostConfig = DefaultCostConfig, RsRelayConfig = DefaultRelayConfig, RsPolicySpecs = USPolicySpecs,
     RsFacilities = Some (NewFacilityStore [(demo_hub demo_A)\<lparr>FacID := ''H1''\<rparr>, (demo_hub demo_A)\<lparr>FacID := ''H2''\<rparr>])\<rparr>"

theorem SynthesizeRelayBatch_disjoint_witness:
  "\<exists>r. SynthesizeRelayBatch demo_libm DefaultTourSynthesizerConfig (Some demo_relays) (\<lambda>_ _. False) (\<lambda>n. [0..<n]) (\<lambda>cs. cs) 0
      [demo_driver ''D1'' demo_A, demo_driver ''D2'' demo_A] [demo_match ''D1'' ''L1''] [demo_load ''L1'' demo_A demo_B] 1 = Some r"
proof -
  let ?ds = "[demo_driver ''D1'' demo_A, demo_driver ''D2'' demo_A]"
  let ?store = "NewFacilityStore [(demo_hub demo_A)\<lparr>FacID := ''H1''\<rparr>, (demo_hub demo_A)\<lparr>FacID := ''H2''\<rparr>]"
  have s: "ValidatePolicy (RsPolicySpecs demo_relays) = Inr ()" "RsFacilities demo_relays = Some ?store"
    "relay_clocks_ok (RsPolicySpecs demo_relays) ?ds"
    by (simp_all add: demo_relays_def US_specs_valid relay_clocks_ok_def demo_relay_clocks)
  have n: "2 \<le> length ?ds" "[demo_load ''L1'' demo_A demo_B] \<noteq> []" "Facility_Count ?store \<noteq> 0"
    by (simp_all add: Facility_Count_def NewFacilityStore_def Let_def)
  have ok: "\<forall>d\<in>set ?ds. clocks_ok DefaultTourSynthesizerConfig d" by (simp add: demo_clocks_ok)
  show ?thesis
    using SynthesizeRelayBatch_disjoint [OF s(1,3,2) n, of "\<lambda>cs. cs", OF subset_refl DefaultTour_valid ok, of "\<lambda>n. [0..<n]"] by blast
qed

section \<open>Ties between hubs\<close>

definition relay_cost :: "libm \<Rightarrow> CostConfig \<Rightarrow> RelayConfig \<Rightarrow> Driver \<Rightarrow> Driver \<Rightarrow> Load \<Rightarrow> Location \<Rightarrow> f64" where
  "relay_cost L cc rc d1 d2 l hub =
     TcTotalCost (segment_cost cc l (DistanceMiles L (Origin l) hub) (DistanceMiles L (CurrentLocation d1) (Origin l))) +
     TcTotalCost (segment_cost cc l (DistanceMiles L hub (Destination l)) (DistanceMiles L (CurrentLocation d2) hub)) +
     RelayInterchangeCost rc"

lemma relay_net:
  assumes "EvaluateRelayFeasibility L d1 d2 l h cc rc specs = Some (Inr ex)"
  shows "RxNet ex = Revenue l - relay_cost L cc rc d1 d2 l (FacLocation h) \<and> RelayFacility ex = h"
proof -
  obtain m1 p m2 a where t: "inbound_times L rc d1 l (FacLocation h) = (m1, p, m2, a)" by (metis prod_cases4)
  show ?thesis using assms t unfolding EvaluateRelayFeasibility_def Let_def relay_cost_def
    by (auto simp: on_ok_def split: if_splits option.splits sum.splits)
qed

definition candidate_of :: "Driver \<Rightarrow> Driver \<Rightarrow> Load \<Rightarrow> RelayExchange \<Rightarrow> relayCandidate" where
  "candidate_of d1 d2 l ex = \<lparr>CandExchange = ex, CandIn = DrvID d1, CandOut = DrvID d2, CandLoadID = LdID l, CandNet = RxNet ex\<rparr>"

text \<open>
  Two hubs at one place: the exchanges of the same drivers and load over them agree in every key of the
  sort, so of the two the one that arrives first is selected, and the goroutines of the hubs may send in
  either order.
\<close>

theorem relay_hub_tie:
  assumes "EvaluateRelayFeasibility L d1 d2 l h1 cc rc specs = Some (Inr e1)"
    and "EvaluateRelayFeasibility L d1 d2 l h2 cc rc specs = Some (Inr e2)"
    and "FacLocation h1 = FacLocation h2" and "FacID h1 \<noteq> FacID h2" and "RxNet e1 > 0"
  shows "(let c1 = candidate_of d1 d2 l e1; c2 = candidate_of d1 d2 l e2 in
    pair_candidate L cc rc specs l h1 d1 d2 \<in> {Some [c1], Some []} \<and> pair_candidate L cc rc specs l h2 d1 d2 \<in> {Some [c2], Some []} \<and>
    select_relays {} {} (sort_slice relay_less [c1, c2]) = [e1] \<and>
    select_relays {} {} (sort_slice relay_less [c2, c1]) = [e2] \<and> RelayFacility e1 \<noteq> RelayFacility e2)"
proof -
  have n: "RxNet e1 = RxNet e2" "RelayFacility e1 = h1" "RelayFacility e2 = h2"
    using relay_net [OF assms(1)] relay_net [OF assms(2)] assms(3) by simp_all
  moreover have "\<not> RxNet e1 < RxNet e1" by (metis less_fl_asym)
  moreover have "h1 \<noteq> h2" using assms(4) by blast
  ultimately show ?thesis using assms(1,2,5) less_fl_not_nan [OF assms(5)]
    by (auto simp: Let_def candidate_of_def pair_candidate_def sort_slice_def relay_less_def feq_def)
qed

lemma demo_relay_accepted:
  "\<exists>ex. EvaluateRelayFeasibility demo_libm (demo_driver ''D1'' demo_A) (demo_driver ''D2'' demo_A) (demo_load ''L1'' demo_A demo_A)
    ((demo_hub demo_A)\<lparr>FacID := i\<rparr>) DefaultCostConfig DefaultRelayConfig USPolicySpecs = Some (Inr ex) \<and> RxNet ex > 0"
proof -
  have "case EvaluateRelayFeasibility demo_libm (demo_driver ''D1'' demo_A) (demo_driver ''D2'' demo_A) (demo_load ''L1'' demo_A demo_A)
    ((demo_hub demo_A)\<lparr>FacID := i\<rparr>) DefaultCostConfig DefaultRelayConfig USPolicySpecs of
      Some (Inr ex) \<Rightarrow> RxNet ex > 0 | _ \<Rightarrow> False" by code_simp
  then show ?thesis by (simp split: option.split_asm sum.split_asm)
qed

theorem relay_hub_tie_witness:
  "\<exists>e1 e2. select_relays {} {} (sort_slice relay_less [candidate_of (demo_driver ''D1'' demo_A) (demo_driver ''D2'' demo_A)
        (demo_load ''L1'' demo_A demo_A) e1, candidate_of (demo_driver ''D1'' demo_A) (demo_driver ''D2'' demo_A)
        (demo_load ''L1'' demo_A demo_A) e2]) = [e1] \<and> RelayFacility e1 \<noteq> RelayFacility e2"
proof -
  obtain e1 e2 where e: "EvaluateRelayFeasibility demo_libm (demo_driver ''D1'' demo_A) (demo_driver ''D2'' demo_A)
      (demo_load ''L1'' demo_A demo_A) ((demo_hub demo_A)\<lparr>FacID := ''H1''\<rparr>) DefaultCostConfig DefaultRelayConfig USPolicySpecs = Some (Inr e1)"
    "EvaluateRelayFeasibility demo_libm (demo_driver ''D1'' demo_A) (demo_driver ''D2'' demo_A)
      (demo_load ''L1'' demo_A demo_A) ((demo_hub demo_A)\<lparr>FacID := ''H2''\<rparr>) DefaultCostConfig DefaultRelayConfig USPolicySpecs = Some (Inr e2)"
    "RxNet e1 > 0" using demo_relay_accepted by metis
  show ?thesis using relay_hub_tie [OF e(1,2) _ _ e(3)] by (simp add: Let_def) blast
qed

end
