(* ===== verification/Dense_Matrix.thy ===== *)
theory Dense_Matrix
  imports Simplex
begin

text \<open>
  \<open>pkg/math/matrix.go\<close>: dense matrices in one flat slice, products, the Cholesky factorization and the
  triangular solvers. The model is generic in the precision; the equations of the factorization and of the
  solvers hold in exact arithmetic (\<open>0 fl\<close>). Matrices come from the constructors,
  so their dimensions are positive. The square
  root is a parameter.
\<close>

section \<open>Matrices\<close>

record 'p DenseMatrix =
  dm_rows :: nat
  dm_cols :: nat
  dm_data :: "'p fl list"

definition NewDenseMatrix :: "int \<Rightarrow> int \<Rightarrow> 'p::len0 DenseMatrix result" where
  "NewDenseMatrix rows cols =
     (if rows \<le> 0 \<or> cols \<le> 0 then Inl (Panic ''NewDenseMatrix'')
      else Inr \<lparr>dm_rows = nat rows, dm_cols = nat cols, dm_data = replicate (nat (rows * cols)) 0\<rparr>)"

definition NewDenseMatrixWithData :: "int \<Rightarrow> int \<Rightarrow> 'p::len0 fl list \<Rightarrow> 'p DenseMatrix result" where
  "NewDenseMatrixWithData rows cols data =
     (if rows \<le> 0 \<or> cols \<le> 0 then Inl ErrDimensionMismatch
      else if int (length data) \<noteq> rows * cols then Inl ErrDimensionMismatch
      else Inr \<lparr>dm_rows = nat rows, dm_cols = nat cols, dm_data = data\<rparr>)"

definition Eye :: "int \<Rightarrow> 'p::len0 DenseMatrix result" where
  "Eye n = (case NewDenseMatrix n n of Inl e \<Rightarrow> Inl e
     | Inr m \<Rightarrow> Inr (m\<lparr>dm_data := fold (\<lambda>i xs. xs[i * nat n + i := 1]) [0..<nat n] (dm_data m)\<rparr>))"

definition out_of_bounds :: "'p DenseMatrix \<Rightarrow> int \<Rightarrow> int \<Rightarrow> bool" where
  "out_of_bounds m r c \<longleftrightarrow> r < 0 \<or> r \<ge> int (dm_rows m) \<or> c < 0 \<or> c \<ge> int (dm_cols m)"

definition At :: "'p DenseMatrix \<Rightarrow> int \<Rightarrow> int \<Rightarrow> 'p fl result" where
  "At m r c = (if out_of_bounds m r c then Inl (Panic ''matrix index out of bounds'')
     else Inr (dm_data m ! (nat r * dm_cols m + nat c)))"

definition dm_Set :: "'p DenseMatrix \<Rightarrow> int \<Rightarrow> int \<Rightarrow> 'p fl \<Rightarrow> 'p DenseMatrix result" where
  "dm_Set m r c val = (if out_of_bounds m r c then Inl (Panic ''matrix index out of bounds'')
     else Inr (m\<lparr>dm_data := (dm_data m)[nat r * dm_cols m + nat c := val]\<rparr>))"

text \<open>The entry the loops of the package read without a check.\<close>

definition entry :: "'p DenseMatrix \<Rightarrow> nat \<Rightarrow> nat \<Rightarrow> 'p fl" where
  "entry m r c = dm_data m ! (r * dm_cols m + c)"

text \<open>The accumulation \<open>sum += f(k)\<close> over \<open>k\<close> in a list of indices.\<close>

definition sum_loop :: "(nat \<Rightarrow> 'p::len0 fl) \<Rightarrow> nat list \<Rightarrow> 'p fl" where
  "sum_loop f ks = fold (\<lambda>k acc. acc + f k) ks 0"

definition MulVec :: "'p::len0 DenseMatrix \<Rightarrow> 'p fl list \<Rightarrow> 'p fl list result" where
  "MulVec m x = (if length x \<noteq> dm_cols m then Inl ErrDimensionMismatch
     else Inr (map (\<lambda>r. sum_loop (\<lambda>c. entry m r c * x ! c) [0..<dm_cols m]) [0..<dm_rows m]))"

text \<open>The matrix whose entries two nested loops write.\<close>

definition filled :: "nat \<Rightarrow> nat \<Rightarrow> (nat \<Rightarrow> nat \<Rightarrow> 'p fl) \<Rightarrow> 'p DenseMatrix" where
  "filled rows cols f = \<lparr>dm_rows = rows, dm_cols = cols, dm_data = concat (map (\<lambda>r. map (f r) [0..<cols]) [0..<rows])\<rparr>"

definition Mul :: "'p::len0 DenseMatrix \<Rightarrow> 'p DenseMatrix \<Rightarrow> 'p DenseMatrix result" where
  "Mul m other = (if dm_cols m \<noteq> dm_rows other then Inl ErrDimensionMismatch
     else Inr (filled (dm_rows m) (dm_cols other)
       (\<lambda>r c. sum_loop (\<lambda>k. entry m r k * entry other k c) [0..<dm_cols m])))"

definition Dot :: "'p::len0 fl list \<Rightarrow> 'p fl list \<Rightarrow> 'p fl result" where
  "Dot a b = (if length a \<noteq> length b then Inl ErrDimensionMismatch
     else Inr (sum_loop (\<lambda>i. a ! i * b ! i) [0..<length a]))"

definition Norm2 :: "('p::len0 fl \<Rightarrow> 'p fl) \<Rightarrow> 'p fl list \<Rightarrow> 'p fl" where
  "Norm2 sq a = sq (fold (\<lambda>v acc. acc + v * v) a 0)"

definition dm_Transpose :: "'p DenseMatrix \<Rightarrow> 'p DenseMatrix" where
  "dm_Transpose m = filled (dm_cols m) (dm_rows m) (\<lambda>c r. entry m r c)"

text \<open>The Cholesky factorization, column by column in place.\<close>

definition tiny_pivot :: "'p::len0 fl" where
  "tiny_pivot = rnd (1 / 1000000000000000)"

definition chol_entry :: "'p::len0 DenseMatrix \<Rightarrow> nat \<Rightarrow> nat \<Rightarrow> nat \<Rightarrow> 'p fl list \<Rightarrow> 'p fl list" where
  "chol_entry a n j i L =
     L[i * n + j := (dm_data a ! (i * n + j) - sum_loop (\<lambda>k. L ! (i * n + k) * L ! (j * n + k)) [0..<j]) / L ! (j * n + j)]"

definition chol_column :: "('p::len0 fl \<Rightarrow> 'p fl) \<Rightarrow> 'p DenseMatrix \<Rightarrow> nat \<Rightarrow> nat \<Rightarrow> 'p fl list \<Rightarrow> 'p fl list result" where
  "chol_column sq a n j L =
     (let diag = dm_data a ! (j * n + j) - sum_loop (\<lambda>k. L ! (j * n + k) * L ! (j * n + k)) [0..<j] in
      if diag \<le> tiny_pivot then Inl ErrNotPositiveDefinite
      else Inr (fold (chol_entry a n j) [Suc j..<n] (L[j * n + j := sq diag])))"

fun chol_columns :: "('p::len0 fl \<Rightarrow> 'p fl) \<Rightarrow> 'p DenseMatrix \<Rightarrow> nat \<Rightarrow> nat list \<Rightarrow> 'p fl list \<Rightarrow> 'p fl list result" where
  "chol_columns sq a n [] L = Inr L"
| "chol_columns sq a n (j # js) L = (case chol_column sq a n j L of Inl e \<Rightarrow> Inl e | Inr L' \<Rightarrow> chol_columns sq a n js L')"

definition Cholesky :: "('p::len0 fl \<Rightarrow> 'p fl) \<Rightarrow> 'p DenseMatrix \<Rightarrow> 'p DenseMatrix result" where
  "Cholesky sq a =
     (if dm_rows a \<noteq> dm_cols a then Inl ErrNotSquare
      else let n = dm_rows a in
        case NewDenseMatrix (int n) (int n) of Inl e \<Rightarrow> Inl e | Inr L \<Rightarrow>
        case chol_columns sq a n [0..<n] (dm_data L) of Inl e \<Rightarrow> Inl e | Inr d \<Rightarrow> Inr (L\<lparr>dm_data := d\<rparr>))"

section \<open>Triangular systems\<close>

text \<open>One row of a substitution, over the unknowns \<open>js\<close> already solved.\<close>

definition solve_row :: "'p::len0 DenseMatrix \<Rightarrow> 'p fl list \<Rightarrow> nat list \<Rightarrow> nat \<Rightarrow> 'p fl list \<Rightarrow> 'p fl list result" where
  "solve_row m b js i y =
     (let n = dm_rows m; s = sum_loop (\<lambda>j. dm_data m ! (i * n + j) * y ! j) js; diag = dm_data m ! (i * n + i) in
      if \<bar>diag\<bar> < tiny_pivot then Inl ErrSingularMatrix else Inr (y[i := (b ! i - s) / diag]))"

fun solve_rows :: "'p::len0 DenseMatrix \<Rightarrow> 'p fl list \<Rightarrow> (nat \<Rightarrow> nat list) \<Rightarrow> nat list \<Rightarrow> 'p fl list \<Rightarrow> 'p fl list result" where
  "solve_rows m b js [] y = Inr y"
| "solve_rows m b js (i # is) y = (case solve_row m b (js i) i y of Inl e \<Rightarrow> Inl e | Inr y' \<Rightarrow> solve_rows m b js is y')"

definition SolveLower :: "'p::len0 DenseMatrix \<Rightarrow> 'p fl list \<Rightarrow> 'p fl list result" where
  "SolveLower L b =
     (if dm_rows L \<noteq> dm_cols L then Inl ErrNotSquare
      else if length b \<noteq> dm_rows L then Inl ErrDimensionMismatch
      else solve_rows L b (\<lambda>i. [0..<i]) [0..<dm_rows L] (replicate (dm_rows L) 0))"

definition SolveUpper :: "'p::len0 DenseMatrix \<Rightarrow> 'p fl list \<Rightarrow> 'p fl list result" where
  "SolveUpper U y =
     (if dm_rows U \<noteq> dm_cols U then Inl ErrNotSquare
      else if length y \<noteq> dm_rows U then Inl ErrDimensionMismatch
      else solve_rows U y (\<lambda>i. [Suc i..<dm_rows U]) (rev [0..<dm_rows U]) (replicate (dm_rows U) 0))"

definition SolveCholesky :: "'p::len0 DenseMatrix \<Rightarrow> 'p fl list \<Rightarrow> 'p fl list result" where
  "SolveCholesky L b =
     (if dm_rows L \<noteq> dm_cols L then Inl ErrNotSquare
      else case SolveLower L b of Inl e \<Rightarrow> Inl e | Inr y \<Rightarrow> SolveUpper (dm_Transpose L) y)"

section \<open>Entries\<close>

lemma nth_concat_rows:
  assumes "r < rows" and "c < cols"
  shows "concat (map (\<lambda>r. map (f r) [0..<cols]) [0..<rows]) ! (r * cols + c) = f r c"
  using assms
proof (induction rows)
  case (Suc rows)
  have len: "length (concat (map (\<lambda>r. map (f r) [0..<cols]) [0..<rows])) = rows * cols"
    by (simp add: length_concat comp_def sum_list_triv)
  show ?case
  proof (cases "r < rows")
    case True
    then have "r * cols + c < rows * cols" using Suc.prems(2)
      by (metis add.commute add_less_cancel_left less_le_trans mult.commute mult_Suc_right mult_le_mono1 Suc_leI)
    then show ?thesis using Suc True len by (simp add: nth_append)
  next
    case False
    then have "r = rows" using Suc.prems(1) by simp
    then show ?thesis using Suc.prems(2) len by (simp add: nth_append)
  qed
qed simp

lemma entry_filled [simp]: "r < rows \<Longrightarrow> c < cols \<Longrightarrow> entry (filled rows cols f) r c = f r c"
  by (simp add: entry_def filled_def nth_concat_rows)

lemma dims_filled [simp]: "dm_rows (filled rows cols f) = rows" "dm_cols (filled rows cols f) = cols"
  by (simp_all add: filled_def)

lemma index_less: "i < n \<Longrightarrow> j < n \<Longrightarrow> i * n + j < n * (n :: nat)"
  by (metis add.commute less_le_trans mult.commute mult_Suc_right mult_le_mono2 nat_add_left_cancel_less Suc_leI)

lemma index_inj:
  assumes "j < n" and "l < n" shows "i * n + j = k * n + l \<longleftrightarrow> i = k \<and> j = (l :: nat)"
proof
  assume e: "i * n + j = k * n + l"
  have "(i * n + j) div n = i" "(k * n + l) div n = k" using assms by (simp_all add: div_mult_self3)
  then show "i = k \<and> j = l" using e by simp
qed simp

section \<open>Exact sums\<close>

lemma fold_sum_exact:
  "(\<And>k. k \<in> set ks \<Longrightarrow> f k = Fin (g k)) \<Longrightarrow>
    fold (\<lambda>k acc. acc + f k) ks (Fin a) = (Fin (a + (\<Sum>k\<leftarrow>ks. g k)) :: 0 fl)"
  by (induction ks arbitrary: a) (simp_all add: add.assoc)

lemma sum_loop_exact:
  assumes "\<And>k. k \<in> set ks \<Longrightarrow> f k = (Fin (g k) :: 0 fl)"
  shows "sum_loop f ks = Fin (\<Sum>k\<leftarrow>ks. g k)"
  using fold_sum_exact [of ks f g 0] assms by (simp add: sum_loop_def zero_fl_def)

lemma sum_loop_upt:
  assumes "\<And>k. a \<le> k \<Longrightarrow> k < b \<Longrightarrow> f k = (Fin (g k) :: 0 fl)"
  shows "sum_loop f [a..<b] = Fin (\<Sum>k\<in>{a..<b}. g k)"
  using sum_loop_exact [of "[a..<b]" f g] assms by (simp add: interv_sum_list_conv_sum_set_nat)

section \<open>The solvers\<close>

definition val :: "'p DenseMatrix \<Rightarrow> nat \<Rightarrow> nat \<Rightarrow> rat" where
  "val m i j = fin_val (entry m i j)"

definition fin_square :: "'p DenseMatrix \<Rightarrow> bool" where
  "fin_square m \<longleftrightarrow> dm_rows m = dm_cols m \<and> length (dm_data m) = dm_rows m * dm_rows m \<and> (\<forall>x\<in>set (dm_data m). is_fin x)"

lemma is_fin_val: "is_fin x \<Longrightarrow> x = Fin (fin_val x)"
  by (cases x) auto

lemma fin_entry:
  assumes "fin_square m" and "i < dm_rows m" and "j < dm_rows m"
  shows "dm_data m ! (i * dm_rows m + j) = Fin (val m i j)"
proof -
  have "dm_data m ! (i * dm_rows m + j) \<in> set (dm_data m)"
    using assms index_less [OF assms(2,3)] by (simp add: fin_square_def)
  then have "is_fin (dm_data m ! (i * dm_rows m + j))" using assms(1) by (simp add: fin_square_def)
  then show ?thesis using is_fin_val assms(1) by (metis entry_def fin_square_def val_def)
qed

lemma abs_fl_Fin [simp]: "\<bar>Fin a\<bar> = (Fin \<bar>a\<bar> :: 0 fl)"
  by simp

lemma times_exact: "(Fin a :: 0 fl) * Fin b = Fin (a * b)"
  by simp

lemma solve_rows_exact:
  fixes m :: "0 DenseMatrix"
  assumes "fin_square m" and "\<forall>i\<in>set is. i < dm_rows m \<and> b ! i = Fin (B i) \<and> i \<notin> set (js i) \<and> set (js i) \<subseteq> {..<dm_rows m}"
    and "sorted_wrt (\<lambda>i i'. i' \<notin> set (js i)) is" and "distinct is"
    and "length y = dm_rows m" and "\<forall>x\<in>set y. is_fin x" and "solve_rows m b js is y = Inr y'"
  shows "length y' = dm_rows m \<and> (\<forall>x\<in>set y'. is_fin x) \<and> (\<forall>i. i \<notin> set is \<longrightarrow> y' ! i = y ! i) \<and>
    (\<forall>i\<in>set is. val m i i \<noteq> 0 \<and> (\<Sum>j\<leftarrow>js i. val m i j * fin_val (y' ! j)) + val m i i * fin_val (y' ! i) = B i)"
  using assms(2-)
proof (induction "is" arbitrary: y)
  case (Cons i "is")
  let ?n = "dm_rows m"
  have i: "i < ?n" "b ! i = Fin (B i)" "i \<notin> set (js i)" "set (js i) \<subseteq> {..<?n}" using Cons.prems(1) by auto
  have s: "sum_loop (\<lambda>j. dm_data m ! (i * ?n + j) * y ! j) (js i) = Fin (\<Sum>j\<leftarrow>js i. val m i j * fin_val (y ! j))"
  proof (rule sum_loop_exact)
    fix j assume "j \<in> set (js i)"
    then have j: "j < ?n" using i(4) by auto
    then have "y ! j = Fin (fin_val (y ! j))" using Cons.prems(4,5) by (intro is_fin_val) simp
    then show "dm_data m ! (i * ?n + j) * y ! j = Fin (val m i j * fin_val (y ! j))"
      using fin_entry [OF assms(1) i(1) j] by (metis times_exact)
  qed
  have d: "dm_data m ! (i * ?n + i) = Fin (val m i i)" by (rule fin_entry [OF assms(1) i(1) i(1)])
  obtain y1 where y1: "solve_row m b (js i) i y = Inr y1" "solve_rows m b js is y1 = Inr y'"
    using Cons.prems(6) by (cases "solve_row m b (js i) i y") auto
  then have nz: "val m i i \<noteq> 0" and y1e: "y1 = y[i := Fin ((B i - (\<Sum>j\<leftarrow>js i. val m i j * fin_val (y ! j))) / val m i i)]"
    using s d i(2) by (auto simp: solve_row_def Let_def tiny_pivot_def split: if_splits)
  have p: "length y1 = ?n" "\<forall>x\<in>set y1. is_fin x"
    using Cons.prems(4,5) unfolding y1e by (auto dest!: set_update_subset_insert [THEN subsetD])
  have IH: "length y' = ?n" "\<forall>x\<in>set y'. is_fin x" "\<forall>k. k \<notin> set is \<longrightarrow> y' ! k = y1 ! k"
    "\<forall>k\<in>set is. val m k k \<noteq> 0 \<and> (\<Sum>j\<leftarrow>js k. val m k j * fin_val (y' ! j)) + val m k k * fin_val (y' ! k) = B k"
    using Cons.IH [OF _ _ _ p y1(2)] Cons.prems(1-3) by auto
  have ni: "i \<notin> set is" "set (js i) \<inter> set is = {}" using Cons.prems(2,3) by auto
  have "(\<Sum>j\<leftarrow>js i. val m i j * fin_val (y' ! j)) = (\<Sum>j\<leftarrow>js i. val m i j * fin_val (y ! j))"
  proof (rule arg_cong [of _ _ sum_list], rule map_cong [OF refl])
    fix j assume "j \<in> set (js i)"
    then have "j \<notin> set is" "j \<noteq> i" using ni(2) i(3) by auto
    then show "val m i j * fin_val (y' ! j) = val m i j * fin_val (y ! j)" using IH(3) by (simp add: y1e)
  qed
  moreover have "fin_val (y' ! i) = (B i - (\<Sum>j\<leftarrow>js i. val m i j * fin_val (y ! j))) / val m i i"
    using IH(3) ni(1) i(1) Cons.prems(4) by (simp add: y1e)
  ultimately show ?case using IH nz ni by (auto simp: y1e)
qed simp

lemma SolveLower_exact:
  fixes L :: "0 DenseMatrix"
  assumes "fin_square L" and "\<forall>x\<in>set b. is_fin x" and "SolveLower L b = Inr y"
  shows "length y = dm_rows L \<and> (\<forall>x\<in>set y. is_fin x) \<and> length b = dm_rows L \<and>
    (\<forall>i<dm_rows L. val L i i \<noteq> 0 \<and> (\<Sum>j\<le>i. val L i j * fin_val (y ! j)) = fin_val (b ! i))"
proof -
  let ?n = "dm_rows L"
  have l: "length b = ?n" "solve_rows L b (\<lambda>i. [0..<i]) [0..<?n] (replicate ?n 0) = Inr y"
    using assms(3) by (auto simp: SolveLower_def split: if_splits)
  have B: "\<forall>i\<in>set [0..<?n]. i < ?n \<and> b ! i = Fin (fin_val (b ! i)) \<and> i \<notin> set [0..<i] \<and> set [0..<i] \<subseteq> {..<?n}"
    using assms(2) l(1) by (auto intro!: is_fin_val)
  have "sorted_wrt (\<lambda>i i'. i' \<notin> set [0..<i]) [0..<?n]" by (rule sorted_wrt_mono_rel [OF _ sorted_wrt_upt]) auto
  from solve_rows_exact [OF assms(1) B this distinct_upt _ _ l(2)]
  show ?thesis using l(1) by (auto simp: zero_fl_def interv_sum_list_conv_sum_set_nat lessThan_Suc_atMost [symmetric] atLeast0LessThan)
qed

lemma SolveUpper_exact:
  fixes U :: "0 DenseMatrix"
  assumes "fin_square U" and "\<forall>x\<in>set y. is_fin x" and "SolveUpper U y = Inr x"
  shows "length x = dm_rows U \<and> (\<forall>v\<in>set x. is_fin v) \<and> length y = dm_rows U \<and>
    (\<forall>i<dm_rows U. val U i i \<noteq> 0 \<and> (\<Sum>j\<in>{i..<dm_rows U}. val U i j * fin_val (x ! j)) = fin_val (y ! i))"
proof -
  let ?n = "dm_rows U"
  have l: "length y = ?n" "solve_rows U y (\<lambda>i. [Suc i..<?n]) (rev [0..<?n]) (replicate ?n 0) = Inr x"
    using assms(3) by (auto simp: SolveUpper_def split: if_splits)
  have B: "\<forall>i\<in>set (rev [0..<?n]). i < ?n \<and> y ! i = Fin (fin_val (y ! i)) \<and> i \<notin> set [Suc i..<?n] \<and> set [Suc i..<?n] \<subseteq> {..<?n}"
    using assms(2) l(1) by (auto intro!: is_fin_val)
  have s: "sorted_wrt (\<lambda>i i'. i' \<notin> set [Suc i..<?n]) (rev [0..<?n])"
    unfolding sorted_wrt_rev by (rule sorted_wrt_mono_rel [OF _ sorted_wrt_upt]) auto
  have sum: "(\<Sum>j\<in>{i..<?n}. f j) = (\<Sum>j\<in>{Suc i..<?n}. f j) + f i" if "i < ?n" for f :: "nat \<Rightarrow> rat" and i
    using that by (simp add: sum.atLeast_Suc_lessThan)
  from solve_rows_exact [OF assms(1) B s _ _ _ l(2)]
  show ?thesis using l(1) by (auto simp: zero_fl_def interv_sum_list_conv_sum_set_nat sum)
qed

section \<open>The Cholesky factor\<close>

definition chol_value :: "0 DenseMatrix \<Rightarrow> nat \<Rightarrow> nat \<Rightarrow> 0 fl list \<Rightarrow> nat \<Rightarrow> 0 fl" where
  "chol_value a n j L i = (dm_data a ! (i * n + j) - sum_loop (\<lambda>k. L ! (i * n + k) * L ! (j * n + k)) [0..<j]) / L ! (j * n + j)"

lemma chol_entries:
  assumes "set is \<subseteq> {Suc j..<n}" and "distinct is" and "length L = n * n" and "j < n"
  shows "length (fold (chol_entry a n j) is L) = n * n \<and>
    (\<forall>i<n. \<forall>c<n. fold (chol_entry a n j) is L ! (i * n + c) = (if c = j \<and> i \<in> set is then chol_value a n j L i else L ! (i * n + c)))"
  using assms
proof (induction "is" arbitrary: L)
  case (Cons r "is")
  have r: "j < r" "r < n" using Cons.prems(1) by auto
  let ?L = "chol_entry a n j r L"
  have e: "?L = L[r * n + j := chol_value a n j L r]" by (simp add: chol_entry_def chol_value_def)
  have len: "length ?L = n * n" using Cons.prems(3) by (simp add: e)
  have g: "?L ! (i * n + c) = (if c = j \<and> i = r then chol_value a n j L r else L ! (i * n + c))" if "i < n" "c < n" for i c
    using that Cons.prems(3,4) r index_less [of r n j] index_inj [of c n j i r] by (auto simp: e nth_list_update)
  have same: "chol_value a n j ?L i = chol_value a n j L i" if i: "i \<in> set is" for i
  proof -
    have in': "i < n" "i \<noteq> r" using Cons.prems(1,2) i by auto
    have "?L ! (i * n + k) = L ! (i * n + k)" "?L ! (j * n + k) = L ! (j * n + k)" if "k \<le> j" for k
      using g [of i k] g [of j k] in' r that Cons.prems(4) by auto
    then show ?thesis unfolding chol_value_def sum_loop_def by (auto intro!: fold_cong arg_cong2 [of _ _ _ _ "(/)"] arg_cong2 [of _ _ _ _ "(-)"])
  qed
  have "set is \<subseteq> {Suc j..<n}" "distinct is" using Cons.prems(1,2) by auto
  from Cons.IH [OF this len Cons.prems(4)] show ?case using g same Cons.prems(2) by auto
qed simp

definition chol_inv :: "(0 fl \<Rightarrow> 0 fl) \<Rightarrow> 0 DenseMatrix \<Rightarrow> nat \<Rightarrow> nat \<Rightarrow> 0 fl list \<Rightarrow> bool" where
  "chol_inv sq a n j L \<longleftrightarrow> length L = n * n \<and> (\<forall>i<n. \<forall>c<n. is_fin (L ! (i * n + c))) \<and>
     (\<forall>i<n. \<forall>c<n. j \<le> c \<or> i < c \<longrightarrow> L ! (i * n + c) = 0) \<and>
     (\<forall>c<j. \<forall>i<n. c < i \<longrightarrow> (\<Sum>k\<le>c. fin_val (L ! (i * n + k)) * fin_val (L ! (c * n + k))) = val a i c) \<and>
     (\<forall>c<j. let p = val a c c - (\<Sum>k<c. fin_val (L ! (c * n + k)) * fin_val (L ! (c * n + k))) in
        1 / 1000000000000000 < p \<and> L ! (c * n + c) = sq (Fin p))"

lemma chol_column_inv:
  assumes sq: "\<And>q. 0 < q \<Longrightarrow> \<exists>y. y \<noteq> 0 \<and> sq (Fin q) = Fin y"
    and a: "fin_square a" "dm_rows a = n" and "j < n" and inv: "chol_inv sq a n j L" and "chol_column sq a n j L = Inr L'"
  shows "chol_inv sq a n (Suc j) L'"
proof -
  have len: "length L = n * n" and fin: "\<And>i c. i < n \<Longrightarrow> c < n \<Longrightarrow> is_fin (L ! (i * n + c))"
    and zero: "\<And>i c. i < n \<Longrightarrow> c < n \<Longrightarrow> j \<le> c \<or> i < c \<Longrightarrow> L ! (i * n + c) = 0"
    using inv by (auto simp: chol_inv_def)
  let ?v = "\<lambda>i c. fin_val (L ! (i * n + c))"
  have fv: "L ! (i * n + c) = Fin (?v i c)" if "i < n" "c < n" for i c using fin [OF that] by (rule is_fin_val)
  let ?p = "val a j j - (\<Sum>k<j. ?v j k * ?v j k)"
  have d: "dm_data a ! (j * n + j) - sum_loop (\<lambda>k. L ! (j * n + k) * L ! (j * n + k)) [0..<j] = Fin ?p"
  proof -
    have "sum_loop (\<lambda>k. L ! (j * n + k) * L ! (j * n + k)) [0..<j] = Fin (\<Sum>k\<in>{0..<j}. ?v j k * ?v j k)"
    proof (rule sum_loop_upt)
      fix k assume "k < j"
      then have "L ! (j * n + k) = Fin (?v j k)" using fv assms(4) by simp
      then show "L ! (j * n + k) * L ! (j * n + k) = Fin (?v j k * ?v j k)" by (metis times_exact)
    qed
    then show ?thesis using fin_entry [OF a(1), of j j] a(2) assms(4) by (simp add: atLeast0LessThan)
  qed
  have p: "1 / 1000000000000000 < ?p"
    and L': "L' = fold (chol_entry a n j) [Suc j..<n] (L[j * n + j := sq (Fin ?p)])"
    using assms(6) unfolding chol_column_def Let_def d by (auto simp: tiny_pivot_def split: if_splits)
  have "0 < ?p" using p by (rule less_trans [rotated]) simp
  then obtain y where y: "y \<noteq> 0" "sq (Fin ?p) = Fin y" using sq by blast
  let ?L1 = "L[j * n + j := Fin y]"
  have g1: "?L1 ! (i * n + c) = (if i = j \<and> c = j then Fin y else L ! (i * n + c))" if "i < n" "c < n" for i c
    using that len assms(4) index_less [of j n j] index_inj [of c n j i j] by (auto simp: nth_list_update)
  have E: "length L' = n * n" "\<And>i c. i < n \<Longrightarrow> c < n \<Longrightarrow>
      L' ! (i * n + c) = (if c = j \<and> j < i then chol_value a n j ?L1 i else ?L1 ! (i * n + c))"
    using chol_entries [of "[Suc j..<n]" j n ?L1 a] len assms(4) unfolding L' y(2) by auto
  have cv: "chol_value a n j ?L1 i = Fin ((val a i j - (\<Sum>k<j. ?v i k * ?v j k)) / y)" if "i < n" "j < i" for i
  proof -
    have "sum_loop (\<lambda>k. ?L1 ! (i * n + k) * ?L1 ! (j * n + k)) [0..<j] = Fin (\<Sum>k\<in>{0..<j}. ?v i k * ?v j k)"
    proof (rule sum_loop_upt)
      fix k assume "k < j"
      then have "?L1 ! (i * n + k) = Fin (?v i k)" "?L1 ! (j * n + k) = Fin (?v j k)"
        using g1 [of i k] g1 [of j k] fv that assms(4) by auto
      then show "?L1 ! (i * n + k) * ?L1 ! (j * n + k) = Fin (?v i k * ?v j k)" by (metis times_exact)
    qed
    moreover have "dm_data a ! (i * n + j) = Fin (val a i j)" using fin_entry [OF a(1), of i j] a(2) that assms(4) by simp
    moreover have "?L1 ! (j * n + j) = Fin y" using g1 [of j j] assms(4) by simp
    ultimately show ?thesis using y(1) by (simp add: chol_value_def atLeast0LessThan)
  qed
  have G: "L' ! (i * n + c) = (if c = j \<and> j < i then Fin ((val a i j - (\<Sum>k<j. ?v i k * ?v j k)) / y)
      else if i = j \<and> c = j then Fin y else L ! (i * n + c))" if "i < n" "c < n" for i c
    using E(2) [OF that] g1 [OF that] cv that by auto
  have old: "fin_val (L' ! (i * n + c)) = ?v i c" if "i < n" "c < n" "c \<noteq> j" for i c using G that by auto
  have rows: "(\<Sum>k\<le>c. fin_val (L' ! (i * n + k)) * fin_val (L' ! (c * n + k))) = val a i c"
    if c: "c < Suc j" and i: "i < n" "c < i" for i c
  proof (cases "c = j")
    case True
    have "(\<Sum>k<j. fin_val (L' ! (i * n + k)) * fin_val (L' ! (j * n + k))) = (\<Sum>k<j. ?v i k * ?v j k)"
      using old i assms(4) by (intro sum.cong refl) auto
    moreover have "fin_val (L' ! (i * n + j)) * fin_val (L' ! (j * n + j)) = val a i j - (\<Sum>k<j. ?v i k * ?v j k)"
      using G [of i j] G [of j j] i True assms(4) y(1) by auto
    ultimately show ?thesis using True by (simp add: lessThan_Suc_atMost [symmetric])
  next
    case False
    then have c: "c < j" using c by simp
    then have "(\<Sum>k\<le>c. fin_val (L' ! (i * n + k)) * fin_val (L' ! (c * n + k))) = (\<Sum>k\<le>c. ?v i k * ?v c k)"
      using old i assms(4) by (intro sum.cong refl) auto
    then show ?thesis using inv c i by (simp add: chol_inv_def)
  qed
  have diag: "let p = val a c c - (\<Sum>k<c. fin_val (L' ! (c * n + k)) * fin_val (L' ! (c * n + k))) in
      1 / 1000000000000000 < p \<and> L' ! (c * n + c) = sq (Fin p)" if c: "c < Suc j" for c
  proof -
    have s: "(\<Sum>k<c. fin_val (L' ! (c * n + k)) * fin_val (L' ! (c * n + k))) = (\<Sum>k<c. ?v c k * ?v c k)"
      using old c assms(4) by (intro sum.cong refl) auto
    show ?thesis
    proof (cases "c = j")
      case True
      then show ?thesis using p y(2) G [of j j] assms(4) s by (simp add: Let_def)
    next
      case False
      then have "c < j" using c by simp
      then show ?thesis using inv s G [of c c] assms(4) by (simp add: chol_inv_def Let_def)
    qed
  qed
  have "is_fin (L' ! (i * n + c))" if "i < n" "c < n" for i c using G [OF that] fin [OF that] by simp
  moreover have "L' ! (i * n + c) = 0" if "i < n" "c < n" "Suc j \<le> c \<or> i < c" for i c
    using G [OF that(1,2)] zero [OF that(1,2)] that(3) by auto
  ultimately show ?thesis unfolding chol_inv_def using E(1) rows diag by blast
qed

lemma chol_columns_inv:
  assumes "\<And>q. 0 < q \<Longrightarrow> \<exists>y. y \<noteq> 0 \<and> sq (Fin q) = Fin y" and "fin_square a" "dm_rows a = n"
    and "chol_inv sq a n j L" and "chol_columns sq a n [j..<n] L = Inr L'" and "j \<le> n"
  shows "chol_inv sq a n n L'"
  using assms(4-6)
proof (induction "n - j" arbitrary: j L)
  case (Suc k)
  then have j: "j < n" by simp
  then have "[j..<n] = j # [Suc j..<n]" by (rule upt_conv_Cons)
  then obtain L1 where L1: "chol_column sq a n j L = Inr L1" "chol_columns sq a n [Suc j..<n] L1 = Inr L'"
    using Suc.prems(2) by (auto split: sum.splits)
  show ?case using Suc.hyps(1) [OF _ chol_column_inv [OF assms(1-3) j Suc.prems(1) L1(1)] L1(2)] Suc.hyps(2) j by simp
qed simp

text \<open>
  In exact arithmetic, with a square root that maps positive numbers to non-zero ones: the factor of a
  finite square matrix is lower triangular, its product with its transpose is the matrix below the
  diagonal, and the square of each diagonal entry differs from what would complete the diagonal only by
  the error of the square root at the pivot, which is greater than \<open>10\<^sup>-\<^sup>1\<^sup>5\<close>.
\<close>

theorem Cholesky_factor:
  fixes a :: "0 DenseMatrix"
  assumes "\<And>q. 0 < q \<Longrightarrow> \<exists>y. y \<noteq> 0 \<and> sq (Fin q) = Fin y" and "fin_square a" and "Cholesky sq a = Inr L"
  shows "fin_square L \<and> dm_rows L = dm_rows a \<and>
    (\<forall>i<dm_rows a. \<forall>j<dm_rows a. i < j \<longrightarrow> val L i j = 0) \<and>
    (\<forall>i<dm_rows a. \<forall>j<i. (\<Sum>k\<le>j. val L i k * val L j k) = val a i j) \<and>
    (\<forall>j<dm_rows a. \<exists>p. 1 / 1000000000000000 < p \<and> p + (\<Sum>k<j. val L j k * val L j k) = val a j j \<and> Fin (val L j j) = sq (Fin p))"
proof -
  let ?n = "dm_rows a"
  have n: "0 < ?n" "dm_rows a = dm_cols a" using assms(2,3)
    by (auto simp: Cholesky_def fin_square_def NewDenseMatrix_def Let_def split: if_splits)
  obtain d where d: "chol_columns sq a ?n [0..<?n] (replicate (nat (int ?n * int ?n)) 0) = Inr d"
    and L: "L = \<lparr>dm_rows = ?n, dm_cols = ?n, dm_data = d\<rparr>"
    using assms(3) n by (auto simp: Cholesky_def NewDenseMatrix_def Let_def split: if_splits sum.splits)
  have r: "nat (int ?n * int ?n) = ?n * ?n" by (simp add: nat_mult_distrib)
  have "chol_inv sq a ?n 0 (replicate (?n * ?n) 0)"
    using index_less [of _ ?n] by (auto simp: chol_inv_def zero_fl_def)
  from chol_columns_inv [OF assms(1,2) refl this, of d] have inv: "chol_inv sq a ?n ?n d" using d unfolding r by simp
  have e: "entry L i j = d ! (i * ?n + j)" "val L i j = fin_val (d ! (i * ?n + j))" for i j by (simp_all add: L entry_def val_def)
  have fin: "is_fin (d ! x)" if "x < ?n * ?n" for x
  proof -
    have "x div ?n < ?n" "x mod ?n < ?n" using that n(1) by (simp_all add: less_mult_imp_div_less)
    then have "is_fin (d ! (x div ?n * ?n + x mod ?n))" using inv unfolding chol_inv_def by blast
    then show ?thesis by simp
  qed
  have s: "fin_square L" using inv fin by (auto simp: fin_square_def L chol_inv_def in_set_conv_nth)
  have "\<exists>p. 1 / 1000000000000000 < p \<and> p + (\<Sum>k<j. val L j k * val L j k) = val a j j \<and> Fin (val L j j) = sq (Fin p)" if j: "j < ?n" for j
  proof -
    let ?p = "val a j j - (\<Sum>k<j. val L j k * val L j k)"
    have "Fin (val L j j) = d ! (j * ?n + j)" using inv j unfolding chol_inv_def e by (metis is_fin_val)
    moreover have "1 / 1000000000000000 < ?p" "d ! (j * ?n + j) = sq (Fin ?p)"
      using inv j unfolding chol_inv_def e Let_def by blast+
    ultimately show ?thesis by (intro exI [of _ ?p]) simp
  qed
  with s show ?thesis using inv unfolding chol_inv_def e by (auto simp: L zero_fl_def e)
qed

definition demo_sq :: "0 fl \<Rightarrow> 0 fl" where
  "demo_sq x = (if x = Fin 4 then Fin 2 else Fin 1)"

definition demo_spd :: "0 DenseMatrix" where
  "demo_spd = \<lparr>dm_rows = 2, dm_cols = 2, dm_data = [Fin 4, Fin 2, Fin 2, Fin 5]\<rparr>"

definition demo_skew :: "0 DenseMatrix" where
  "demo_skew = demo_spd\<lparr>dm_data := [Fin 4, Fin 7, Fin 2, Fin 5]\<rparr>"

definition demo_chol :: "0 DenseMatrix" where
  "demo_chol = \<lparr>dm_rows = 2, dm_cols = 2, dm_data = [Fin 2, Fin 0, Fin 1, Fin 2]\<rparr>"

lemma demo_Cholesky: "Cholesky demo_sq demo_spd = Inr demo_chol"
  by code_simp

theorem Cholesky_factor_witness:
  "fin_square demo_chol \<and> (\<Sum>k\<le>(0::nat). val demo_chol 1 k * val demo_chol 0 k) = val demo_spd 1 0"
proof -
  have q: "\<exists>y. y \<noteq> 0 \<and> demo_sq (Fin q) = Fin y" for q by (simp add: demo_sq_def)
  have f: "fin_square demo_spd" by (simp add: fin_square_def demo_spd_def)
  have n: "dm_rows demo_spd = 2" by (simp add: demo_spd_def)
  have "\<forall>i<2. \<forall>j<i. (\<Sum>k\<le>j. val demo_chol i k * val demo_chol j k) = val demo_spd i j"
    using Cholesky_factor [OF q f demo_Cholesky] unfolding n by blast
  then have "(\<Sum>k\<le>(0::nat). val demo_chol 1 k * val demo_chol 0 k) = val demo_spd 1 0" by (metis one_less_numeral_iff semiring_norm(76) zero_less_one)
  then show ?thesis using Cholesky_factor [OF q f demo_Cholesky] by blast
qed

text \<open>
  In any precision the factorization reads the diagonal and the entries below it only: it accepts a matrix
  that is not symmetric whenever it accepts the symmetric one with the same lower triangle, and returns the
  same factor.
\<close>

lemma chol_column_cong:
  assumes "\<forall>i<n. \<forall>j\<le>i. dm_data a ! (i * n + j) = dm_data b ! (i * n + j)" and "j < n"
  shows "chol_column sq a n j L = chol_column sq b n j L"
proof -
  have "chol_entry a n j i M = chol_entry b n j i M" if "i \<in> set [Suc j..<n]" for i M
    using assms that by (simp add: chol_entry_def)
  then have "fold (chol_entry a n j) [Suc j..<n] M = fold (chol_entry b n j) [Suc j..<n] M" for M
    by (intro fold_cong refl) (auto simp: fun_eq_iff)
  then show ?thesis using assms by (simp add: chol_column_def Let_def)
qed

lemma chol_columns_cong:
  assumes "\<forall>i<n. \<forall>j\<le>i. dm_data a ! (i * n + j) = dm_data b ! (i * n + j)" and "\<forall>j\<in>set js. j < n"
  shows "chol_columns sq a n js L = chol_columns sq b n js L"
  using assms(2) chol_column_cong [OF assms(1)]
  by (induction js arbitrary: L) (auto split: sum.split)

theorem Cholesky_ignores_upper:
  assumes "dm_rows a = dm_rows b" and "dm_cols a = dm_cols b"
    and "\<forall>i<dm_rows a. \<forall>j\<le>i. entry a i j = entry b i j"
  shows "Cholesky sq a = Cholesky sq b"
proof (cases "dm_rows a = dm_cols a")
  case True
  then have "\<forall>i<dm_rows a. \<forall>j\<le>i. dm_data a ! (i * dm_rows a + j) = dm_data b ! (i * dm_rows a + j)"
    using assms by (simp add: entry_def)
  from chol_columns_cong [OF this, of "[0..<dm_rows a]" sq] show ?thesis using assms True
    by (auto simp: Cholesky_def Let_def split: sum.split)
next
  case False
  then show ?thesis using assms by (simp add: Cholesky_def)
qed

theorem Cholesky_ignores_upper_witness:
  "entry demo_skew 0 1 \<noteq> entry demo_skew 1 0 \<and> Cholesky demo_sq demo_skew = Inr demo_chol"
proof -
  have "\<forall>i<dm_rows demo_skew. \<forall>j\<le>i. entry demo_skew i j = entry demo_spd i j"
    by (simp add: demo_skew_def demo_spd_def entry_def numeral_2_eq_2 All_less_Suc le_Suc_eq)
  then have "Cholesky demo_sq demo_skew = Cholesky demo_sq demo_spd"
    by (intro Cholesky_ignores_upper) (simp_all add: demo_skew_def)
  moreover have "entry demo_skew 0 1 \<noteq> entry demo_skew 1 0" by (simp add: demo_skew_def demo_spd_def entry_def)
  ultimately show ?thesis by (simp add: demo_Cholesky)
qed

section \<open>Solving with a factor\<close>

definition low :: "'p DenseMatrix \<Rightarrow> nat \<Rightarrow> nat \<Rightarrow> rat" where
  "low m i k = (if k \<le> i then val m i k else 0)"

lemma fin_square_transpose:
  assumes "fin_square m"
  shows "fin_square (dm_Transpose m)" "dm_rows (dm_Transpose m) = dm_rows m"
    and "\<And>i j. i < dm_rows m \<Longrightarrow> j < dm_rows m \<Longrightarrow> val (dm_Transpose m) i j = val m j i"
proof -
  show "dm_rows (dm_Transpose m) = dm_rows m" using assms by (simp add: dm_Transpose_def fin_square_def)
  show "val (dm_Transpose m) i j = val m j i" if "i < dm_rows m" "j < dm_rows m" for i j
    using assms that by (simp add: dm_Transpose_def val_def fin_square_def)
  have "is_fin (entry m r c)" if "r < dm_rows m" "c < dm_rows m" for r c
    using fin_entry [OF assms that] assms by (simp add: entry_def fin_square_def)
  then show "fin_square (dm_Transpose m)" using assms
    by (auto simp: dm_Transpose_def filled_def fin_square_def length_concat comp_def sum_list_triv)
qed

text \<open>
  In exact arithmetic a solution that is returned solves the system of the product of the lower triangle
  with its transpose; whatever is stored above the diagonal is ignored.
\<close>

theorem SolveCholesky_solves:
  fixes L :: "0 DenseMatrix"
  assumes "fin_square L" and "\<forall>v\<in>set b. is_fin v" and "SolveCholesky L b = Inr x"
  shows "length x = dm_rows L \<and> length b = dm_rows L \<and>
    (\<forall>i<dm_rows L. (\<Sum>j<dm_rows L. (\<Sum>k<dm_rows L. low L i k * low L j k) * fin_val (x ! j)) = fin_val (b ! i))"
proof -
  let ?n = "dm_rows L"
  obtain y where y: "SolveLower L b = Inr y" "SolveUpper (dm_Transpose L) y = Inr x"
    using assms(3) by (auto simp: SolveCholesky_def split: if_splits sum.splits)
  note lo = SolveLower_exact [OF assms(1,2) y(1)]
  note t = fin_square_transpose [OF assms(1)]
  from SolveUpper_exact [OF t(1) _ y(2)] lo t(2) have up: "length x = ?n" "\<And>i. i < ?n \<Longrightarrow>
      (\<Sum>j\<in>{i..<?n}. val (dm_Transpose L) i j * fin_val (x ! j)) = fin_val (y ! i)" by auto
  have yk: "fin_val (y ! k) = (\<Sum>j<?n. low L j k * fin_val (x ! j))" if k: "k < ?n" for k
  proof -
    have "(\<Sum>j<?n. low L j k * fin_val (x ! j)) = (\<Sum>j\<in>{k..<?n}. val (dm_Transpose L) k j * fin_val (x ! j))"
      by (rule sum.mono_neutral_cong_right) (use t(3) k in \<open>auto simp: low_def\<close>)
    then show ?thesis using up(2) [OF k] by simp
  qed
  have "(\<Sum>j<?n. (\<Sum>k<?n. low L i k * low L j k) * fin_val (x ! j)) = fin_val (b ! i)" if i: "i < ?n" for i
  proof -
    have "(\<Sum>j<?n. (\<Sum>k<?n. low L i k * low L j k) * fin_val (x ! j)) =
        (\<Sum>j<?n. \<Sum>k<?n. low L i k * (low L j k * fin_val (x ! j)))"
      by (simp add: sum_distrib_right mult.assoc)
    also have "\<dots> = (\<Sum>k<?n. \<Sum>j<?n. low L i k * (low L j k * fin_val (x ! j)))" by (rule sum.swap)
    also have "\<dots> = (\<Sum>k<?n. low L i k * fin_val (y ! k))"
      by (intro sum.cong refl) (simp add: yk sum_distrib_left)
    also have "\<dots> = (\<Sum>k\<le>i. val L i k * fin_val (y ! k))"
      by (rule sum.mono_neutral_cong_right) (use i in \<open>auto simp: low_def\<close>)
    also have "\<dots> = fin_val (b ! i)" using lo i by blast
    finally show ?thesis .
  qed
  then show ?thesis using up(1) lo by blast
qed

theorem SolveCholesky_solves_witness:
  "\<exists>x. SolveCholesky demo_chol [Fin 8, Fin 8] = Inr x \<and>
    (\<Sum>j<2. (\<Sum>k<2. low demo_chol 0 k * low demo_chol j k) * fin_val (x ! j)) = 8"
proof -
  have x: "SolveCholesky demo_chol [Fin 8, Fin 8] = Inr [Fin (3 / 2), Fin 1]" by code_simp
  have f: "fin_square demo_chol" "dm_rows demo_chol = 2" by (simp_all add: fin_square_def demo_chol_def)
  show ?thesis using SolveCholesky_solves [OF f(1) _ x] x unfolding f(2) by simp
qed

end
