(* ===== verification/Ckg.thy ===== *)
theory Ckg
  imports Dense_Matrix
begin

text \<open>
  \<open>pkg/math/ckg.go\<close>: the spatial covariance kernel and the Gaussian belief of the correlated knowledge
  gradient with its Bayesian update. Generic in the precision; the exponential and the square root are
  parameters.
\<close>

section \<open>The kernel\<close>

record 'p SpatialKernelConfig =
  SignalVariance :: "'p fl"
  LengthScaleMiles :: "'p fl"
  NoiseVariance :: "'p fl"

definition DefaultSpatialKernelConfig :: "'p::len0 SpatialKernelConfig" where
  "DefaultSpatialKernelConfig = \<lparr>SignalVariance = Fin 100, LengthScaleMiles = Fin 250, NoiseVariance = rnd (1 / 10000)\<rparr>"

definition Kernel_Validate :: "'p::len0 SpatialKernelConfig \<Rightarrow> unit result" where
  "Kernel_Validate c =
     (if SignalVariance c \<le> 0 \<or> is_nan (SignalVariance c) \<or> is_inf (SignalVariance c) then Inl ErrInvalidKernelParams
      else if LengthScaleMiles c \<le> 0 \<or> is_nan (LengthScaleMiles c) \<or> is_inf (LengthScaleMiles c) then Inl ErrInvalidKernelParams
      else if NoiseVariance c < 0 \<or> is_nan (NoiseVariance c) \<or> is_inf (NoiseVariance c) then Inl ErrInvalidKernelParams
      else Inr ())"

definition kernel_entry ::
  "('p::len0 fl \<Rightarrow> 'p fl) \<Rightarrow> 'p SpatialKernelConfig \<Rightarrow> 'p DenseMatrix \<Rightarrow> nat \<Rightarrow> nat \<Rightarrow> 'p fl" where
  "kernel_entry ex cfg distances i j =
     (let twoL2 = Fin 2 * LengthScaleMiles cfg * LengthScaleMiles cfg; d = entry distances i j;
          v = SignalVariance cfg * ex (- (d * d) / twoL2) in
      if i = j then v + NoiseVariance cfg else v)"

definition BuildSpatialCovariance ::
  "('p::len0 fl \<Rightarrow> 'p fl) \<Rightarrow> 'p DenseMatrix option \<Rightarrow> 'p SpatialKernelConfig \<Rightarrow> 'p DenseMatrix result" where
  "BuildSpatialCovariance ex distances cfg =
     (case distances of None \<Rightarrow> Inl (ErrOther ''distance matrix cannot be nil'') | Some d \<Rightarrow>
      if dm_rows d \<noteq> dm_cols d then Inl ErrNotSquare
      else case Kernel_Validate cfg of Inl e \<Rightarrow> Inl e | Inr _ \<Rightarrow>
        if dm_rows d = 0 then Inl (Panic ''NewDenseMatrix'')
        else Inr (filled (dm_rows d) (dm_rows d) (kernel_entry ex cfg d)))"

section \<open>The belief\<close>

record 'p CorrelatedKnowledgeGradient =
  ckg_dim :: nat
  ckg_mean :: "'p fl list"
  ckg_covariance :: "'p DenseMatrix"

definition NewCorrelatedKnowledgeGradient ::
  "'p::len0 fl list \<Rightarrow> 'p DenseMatrix option \<Rightarrow> 'p CorrelatedKnowledgeGradient result" where
  "NewCorrelatedKnowledgeGradient priorMean priorCovariance =
     (case priorCovariance of None \<Rightarrow> Inl (ErrOther ''prior covariance matrix cannot be nil'') | Some c \<Rightarrow>
      if dm_rows c \<noteq> dm_cols c then Inl ErrNotSquare
      else if length priorMean \<noteq> dm_rows c then Inl ErrInvalidCKGDimension
      else Inr \<lparr>ckg_dim = dm_rows c, ckg_mean = priorMean, ckg_covariance = c\<rparr>)"

definition MeanAt :: "'p CorrelatedKnowledgeGradient \<Rightarrow> int \<Rightarrow> 'p fl result" where
  "MeanAt ckg k = (if k < 0 \<or> k \<ge> int (ckg_dim ckg) then Inl (Panic ''CKG index out of bounds'') else Inr (ckg_mean ckg ! nat k))"

definition VarianceAt :: "'p CorrelatedKnowledgeGradient \<Rightarrow> int \<Rightarrow> 'p fl result" where
  "VarianceAt ckg k = (if k < 0 \<or> k \<ge> int (ckg_dim ckg) then Inl (Panic ''CKG index out of bounds'') else At (ckg_covariance ckg) k k)"

text \<open>The posterior of an observation at \<open>k\<close>, with the column of \<open>k\<close> and the observation variance \<open>gammaSq\<close>.\<close>

definition posterior_mean :: "'p::len0 CorrelatedKnowledgeGradient \<Rightarrow> nat \<Rightarrow> 'p fl \<Rightarrow> 'p fl \<Rightarrow> 'p fl list" where
  "posterior_mean ckg k gammaSq innovation =
     map (\<lambda>i. ckg_mean ckg ! i + (entry (ckg_covariance ckg) i k / gammaSq) * innovation) [0..<ckg_dim ckg]"

definition posterior_entry :: "'p::len0 CorrelatedKnowledgeGradient \<Rightarrow> nat \<Rightarrow> 'p fl \<Rightarrow> nat \<Rightarrow> nat \<Rightarrow> 'p fl" where
  "posterior_entry ckg k gammaSq i j =
     (let cov = ckg_covariance ckg; reduction = (entry cov i k * entry cov j k) / gammaSq; postVal = entry cov i j - reduction in
      if i = j \<and> postVal < 0 then 0 else postVal)"

definition UpdateBayesian ::
  "'p::len0 CorrelatedKnowledgeGradient \<Rightarrow> int \<Rightarrow> 'p fl \<Rightarrow> 'p fl \<Rightarrow> 'p CorrelatedKnowledgeGradient result" where
  "UpdateBayesian ckg k observedValue observationVariance =
     (if k < 0 \<or> k \<ge> int (ckg_dim ckg) then Inl ErrInvalidCKGDimension
      else if observationVariance < 0 \<or> is_nan observationVariance \<or> is_inf observationVariance
        then Inl (ErrOther ''observation variance must be non-negative and finite'')
      else if is_nan observedValue \<or> is_inf observedValue then Inl (ErrOther ''observed value must be finite'')
      else let gammaSq = entry (ckg_covariance ckg) (nat k) (nat k) + observationVariance in
        if gammaSq \<le> tiny_pivot then Inr ckg
        else Inr \<lparr>ckg_dim = ckg_dim ckg,
          ckg_mean = posterior_mean ckg (nat k) gammaSq (observedValue - ckg_mean ckg ! nat k),
          ckg_covariance = filled (ckg_dim ckg) (ckg_dim ckg) (posterior_entry ckg (nat k) gammaSq)\<rparr>)"

definition ValueOfInformation ::
  "('p::len0 fl \<Rightarrow> 'p fl) \<Rightarrow> 'p CorrelatedKnowledgeGradient \<Rightarrow> int \<Rightarrow> 'p fl \<Rightarrow> 'p fl list result" where
  "ValueOfInformation sq ckg k observationVariance =
     (if k < 0 \<or> k \<ge> int (ckg_dim ckg) then Inl ErrInvalidCKGDimension
      else let denom = sq (entry (ckg_covariance ckg) (nat k) (nat k) + observationVariance) in
        if denom \<le> tiny_pivot then Inr (replicate (ckg_dim ckg) 0)
        else Inr (map (\<lambda>i. entry (ckg_covariance ckg) i (nat k) / denom) [0..<ckg_dim ckg]))"

section \<open>The covariance stays a covariance\<close>

definition ckg_wf :: "'p CorrelatedKnowledgeGradient \<Rightarrow> bool" where
  "ckg_wf c \<longleftrightarrow> dm_rows (ckg_covariance c) = ckg_dim c \<and> dm_cols (ckg_covariance c) = ckg_dim c \<and>
     length (dm_data (ckg_covariance c)) = ckg_dim c * ckg_dim c \<and> length (ckg_mean c) = ckg_dim c"

definition ckg_symmetric :: "'p CorrelatedKnowledgeGradient \<Rightarrow> bool" where
  "ckg_symmetric c \<longleftrightarrow> (\<forall>i<ckg_dim c. \<forall>j<ckg_dim c. entry (ckg_covariance c) i j = entry (ckg_covariance c) j i)"

lemma length_filled [simp]: "length (dm_data (filled n m f)) = n * m"
  by (simp add: filled_def length_concat comp_def sum_list_triv)

lemma times_fl_commute: "a * b = b * (a :: 'p::len0 fl)"
  by (cases a; cases b) (simp_all add: mult.commute)

lemma UpdateBayesian_wf:
  assumes "UpdateBayesian c k y v = Inr c'" and "ckg_wf c"
  shows "ckg_wf c' \<and> ckg_dim c' = ckg_dim c"
  using assms by (auto simp: UpdateBayesian_def ckg_wf_def posterior_mean_def Let_def split: if_splits)

lemma UpdateBayesian_symmetric:
  assumes "UpdateBayesian c k y v = Inr c'" and "ckg_wf c" and "ckg_symmetric c"
  shows "ckg_symmetric c'"
  using assms by (auto simp: UpdateBayesian_def ckg_symmetric_def posterior_entry_def Let_def times_fl_commute split: if_splits)

definition quad :: "nat \<Rightarrow> (nat \<Rightarrow> nat \<Rightarrow> rat) \<Rightarrow> (nat \<Rightarrow> rat) \<Rightarrow> rat" where
  "quad n S v = (\<Sum>i<n. \<Sum>j<n. v i * S i j * v j)"

lemma quad_shift:
  assumes "\<And>i j. i < n \<Longrightarrow> j < n \<Longrightarrow> S i j = S j i" and "k < n"
  shows "quad n S (\<lambda>i. v i + (if i = k then t else 0)) = quad n S v + 2 * t * (\<Sum>i<n. v i * S i k) + t * t * S k k"
proof -
  let ?e = "\<lambda>i. if i = k then t else 0"
  have "quad n S (\<lambda>i. v i + ?e i) = quad n S v + (\<Sum>i<n. \<Sum>j<n. v i * S i j * ?e j) + (\<Sum>i<n. \<Sum>j<n. ?e i * S i j * v j) +
      (\<Sum>i<n. \<Sum>j<n. ?e i * S i j * ?e j)"
    unfolding quad_def by (simp add: sum.distrib algebra_simps)
  also have "(\<Sum>i<n. \<Sum>j<n. v i * S i j * ?e j) = t * (\<Sum>i<n. v i * S i k)"
  proof -
    have "(\<Sum>j<n. v i * S i j * ?e j) = t * (v i * S i k)" for i
    proof -
      have "(\<Sum>j<n. v i * S i j * ?e j) = (\<Sum>j<n. if j = k then v i * S i k * t else 0)"
        by (intro sum.cong refl) auto
      then show ?thesis using assms(2) by simp
    qed
    then show ?thesis by (simp add: sum_distrib_left)
  qed
  also have "(\<Sum>i<n. \<Sum>j<n. ?e i * S i j * v j) = t * (\<Sum>i<n. v i * S i k)"
  proof -
    have "(\<Sum>i<n. \<Sum>j<n. ?e i * S i j * v j) = (\<Sum>i<n. if i = k then (\<Sum>j<n. t * S k j * v j) else 0)"
      by (intro sum.cong refl) auto
    also have "\<dots> = (\<Sum>j<n. t * S k j * v j)" using assms(2) by simp
    also have "\<dots> = t * (\<Sum>i<n. v i * S i k)"
      using assms by (simp add: sum_distrib_left mult.commute mult.left_commute)
    finally show ?thesis .
  qed
  also have "(\<Sum>i<n. \<Sum>j<n. ?e i * S i j * ?e j) = t * t * S k k"
  proof -
    have "(\<Sum>j<n. ?e i * S i j * ?e j) = (\<Sum>j<n. if j = k then ?e i * S i k * t else 0)" for i
      by (intro sum.cong refl) auto
    then have "(\<Sum>i<n. \<Sum>j<n. ?e i * S i j * ?e j) = (\<Sum>i<n. ?e i * S i k * t)" using assms(2) by simp
    also have "\<dots> = (\<Sum>i<n. if i = k then t * S k k * t else 0)" by (intro sum.cong refl) auto
    finally show ?thesis using assms(2) by simp
  qed
  finally show ?thesis by simp
qed

lemma quad_unit:
  assumes "k < n"
  shows "quad n S (\<lambda>i. if i = k then 1 else 0) = S k k"
proof -
  let ?e = "\<lambda>i. if i = k then 1 else (0::rat)"
  have "(\<Sum>j<n. ?e i * S i j * ?e j) = (\<Sum>j<n. if j = k then ?e i * S i k else 0)" for i
    by (intro sum.cong refl) auto
  then have "quad n S ?e = (\<Sum>i<n. ?e i * S i k)" using assms by (simp add: quad_def)
  also have "\<dots> = (\<Sum>i<n. if i = k then S k k else 0)" by (intro sum.cong refl) auto
  finally show ?thesis using assms by simp
qed

lemma quad_reduced:
  "quad n (\<lambda>i j. S i j - S i k * S j k / g) v = quad n S v - (\<Sum>i<n. v i * S i k) * (\<Sum>i<n. v i * S i k) / g"
proof -
  have "(\<Sum>i<n. \<Sum>j<n. v i * (S i k * S j k / g) * v j) = (\<Sum>i<n. v i * S i k) * (\<Sum>i<n. v i * S i k) / g"
    by (simp add: sum_product sum_divide_distrib mult_ac)
  then show ?thesis unfolding quad_def by (simp add: sum_subtractf algebra_simps)
qed

lemma quad_update_nonneg:
  assumes sym: "\<And>i j. i < n \<Longrightarrow> j < n \<Longrightarrow> S i j = S j i" and "k < n" and psd: "\<And>v. 0 \<le> quad n S v"
    and "0 < g" and "S k k \<le> g"
  shows "0 \<le> quad n (\<lambda>i j. S i j - S i k * S j k / g) v"
proof -
  let ?c = "\<Sum>i<n. v i * S i k"
  let ?t = "- ?c / g"
  have "0 \<le> quad n S v + 2 * ?t * ?c + ?t * ?t * S k k"
    using psd [of "\<lambda>i. v i + (if i = k then ?t else 0)"] quad_shift [where v = v and t = ?t, OF sym assms(2)] by simp
  moreover have "?t * ?t * S k k \<le> ?t * ?t * g" using assms(5) by (intro mult_left_mono) auto
  moreover have "?t * ?t * g = ?c * ?c / g" using assms(4) by simp
  ultimately show ?thesis unfolding quad_reduced by simp
qed

definition ckg_cov :: "0 CorrelatedKnowledgeGradient \<Rightarrow> nat \<Rightarrow> nat \<Rightarrow> rat" where
  "ckg_cov c = val (ckg_covariance c)"

definition ckg_valid :: "0 CorrelatedKnowledgeGradient \<Rightarrow> bool" where
  "ckg_valid c \<longleftrightarrow> ckg_wf c \<and> (\<forall>x\<in>set (dm_data (ckg_covariance c)). is_fin x) \<and> (\<forall>x\<in>set (ckg_mean c). is_fin x) \<and>
     ckg_symmetric c \<and> (\<forall>v. 0 \<le> quad (ckg_dim c) (ckg_cov c) v)"

text \<open>
  Property C33. In exact arithmetic an update keeps the covariance symmetric and positive semidefinite. When it moves the
  belief, it conditions it: every mean moves along the column of the observed alternative, the covariance
  loses the outer product of that column, so no variance grows, and the clamp of the diagonal is never used.
\<close>

theorem UpdateBayesian_conditions:
  assumes "ckg_valid c" and "UpdateBayesian c k y v = Inr c'"
  shows "ckg_valid c' \<and> ckg_dim c' = ckg_dim c \<and> (\<forall>i<ckg_dim c. ckg_cov c' i i \<le> ckg_cov c i i) \<and>
    (c' = c \<or> (let g = ckg_cov c (nat k) (nat k) + fin_val v in 0 < g \<and>
      (\<forall>i<ckg_dim c. fin_val (ckg_mean c' ! i) = fin_val (ckg_mean c ! i) + ckg_cov c i (nat k) / g * (fin_val y - fin_val (ckg_mean c ! nat k))) \<and>
      (\<forall>i<ckg_dim c. \<forall>j<ckg_dim c. ckg_cov c' i j = ckg_cov c i j - ckg_cov c i (nat k) * ckg_cov c j (nat k) / g)))"
proof -
  let ?n = "ckg_dim c" and ?S = "ckg_cov c" and ?k = "nat k"
  have wf: "ckg_wf c" "ckg_symmetric c" and psd: "\<And>v. 0 \<le> quad ?n ?S v" using assms(1) by (auto simp: ckg_valid_def)
  have wf': "ckg_wf c'" "ckg_dim c' = ?n" "ckg_symmetric c'"
    using UpdateBayesian_wf [OF assms(2) wf(1)] UpdateBayesian_symmetric [OF assms(2) wf] by auto
  have fs: "fin_square (ckg_covariance c)" "dm_rows (ckg_covariance c) = ?n"
    using assms(1) by (auto simp: ckg_valid_def fin_square_def ckg_wf_def)
  have e: "entry (ckg_covariance c) i j = Fin (?S i j)" if "i < ?n" "j < ?n" for i j
    using fin_entry [OF fs(1), of i j] that fs by (simp add: entry_def ckg_cov_def fin_square_def)
  have m: "ckg_mean c ! i = Fin (fin_val (ckg_mean c ! i))" if "i < ?n" for i
    using assms(1) that by (intro is_fin_val) (auto simp: ckg_valid_def ckg_wf_def)
  have k: "?k < ?n" and v: "v = Fin (fin_val v)" "0 \<le> fin_val v" and y: "y = Fin (fin_val y)"
    using assms(2) by (cases v; cases y; auto simp: UpdateBayesian_def zero_fl_def split: if_splits)+
  let ?g = "?S ?k ?k + fin_val v"
  have G: "entry (ckg_covariance c) ?k ?k + v = Fin ?g" using e [OF k k] v(1) by (metis plus_fl.simps(1) rnd_exact)
  show ?thesis
  proof (cases "c' = c")
    case True
    then show ?thesis using assms(1) by simp
  next
    case False
    have g: "0 < ?g" and c': "c' = \<lparr>ckg_dim = ?n, ckg_mean = posterior_mean c ?k (Fin ?g) (y - ckg_mean c ! ?k),
        ckg_covariance = filled ?n ?n (posterior_entry c ?k (Fin ?g))\<rparr>"
      using assms(2) False G by (auto simp: UpdateBayesian_def Let_def tiny_pivot_def split: if_splits)
    let ?P = "\<lambda>i j. ?S i j - ?S i ?k * ?S j ?k / ?g"
    have sym: "?S i j = ?S j i" if "i < ?n" "j < ?n" for i j
      using wf(2) that by (simp add: ckg_symmetric_def ckg_cov_def val_def)
    have P: "0 \<le> quad ?n ?P w" for w by (rule quad_update_nonneg [OF sym k psd g]) (use v(2) in auto)
    have d: "0 \<le> ?P i i" if i: "i < ?n" for i
    proof -
      have "quad ?n ?P (\<lambda>j. if j = i then 1 else 0) = ?P i i" by (rule quad_unit [OF i])
      then show ?thesis using P [of "\<lambda>j. if j = i then 1 else 0"] by simp
    qed
    have pe: "posterior_entry c ?k (Fin ?g) i j = Fin (?P i j)" if "i < ?n" "j < ?n" for i j
      using e [OF that] e [OF that(1) k] e [OF that(2) k] g d [OF that(1)] that
      by (auto simp: posterior_entry_def Let_def zero_fl_def)
    have S': "ckg_cov c' i j = ?P i j" if "i < ?n" "j < ?n" for i j
      using pe [OF that] that by (simp add: c' ckg_cov_def val_def)
    have M': "ckg_mean c' ! i = Fin (fin_val (ckg_mean c ! i) + ?S i ?k / ?g * (fin_val y - fin_val (ckg_mean c ! ?k)))" if i: "i < ?n" for i
    proof -
      have "y - ckg_mean c ! ?k = Fin (fin_val y - fin_val (ckg_mean c ! ?k))" using m [OF k] y by (metis minus_fl_exact)
      then have "ckg_mean c' ! i = ckg_mean c ! i + Fin (?S i ?k) / Fin ?g * Fin (fin_val y - fin_val (ckg_mean c ! ?k))"
        using i e [OF i k] by (simp add: c' posterior_mean_def)
      then show ?thesis using m [OF i] g by (metis divide_exact less_irrefl plus_fl.simps(1) rnd_exact times_exact)
    qed
    have "\<forall>x\<in>set (dm_data (ckg_covariance c')). is_fin x" using pe by (auto simp: c' filled_def)
    moreover have "\<forall>x\<in>set (ckg_mean c'). is_fin x"
      using M' wf' by (auto simp: in_set_conv_nth ckg_wf_def)
    moreover have "0 \<le> quad (ckg_dim c') (ckg_cov c') w" for w
    proof -
      have "quad ?n (ckg_cov c') w = quad ?n ?P w" unfolding quad_def by (intro sum.cong refl) (simp add: S')
      then show ?thesis using P wf'(2) by simp
    qed
    ultimately have "ckg_valid c'" using wf' by (simp add: ckg_valid_def)
    moreover have "ckg_cov c' i i \<le> ?S i i" if "i < ?n" for i
      using S' [OF that that] g by (simp add: zero_le_mult_iff)
    ultimately show ?thesis using wf' S' M' g by (auto simp: Let_def)
  qed
qed

lemma UpdateBayesian_conditions_witness:
  "let c = \<lparr>ckg_dim = 1, ckg_mean = [Fin 0], ckg_covariance = \<lparr>dm_rows = 1, dm_cols = 1, dm_data = [Fin 1]\<rparr>\<rparr>;
       c' = \<lparr>ckg_dim = 1, ckg_mean = [Fin (1 / 2)], ckg_covariance = \<lparr>dm_rows = 1, dm_cols = 1, dm_data = [Fin (1 / 2)]\<rparr>\<rparr>
   in ckg_valid c \<and> UpdateBayesian c 0 (Fin 1) (Fin 1) = Inr c' \<and> ckg_valid c'"
proof -
  let ?c = "\<lparr>ckg_dim = 1, ckg_mean = [Fin 0], ckg_covariance = \<lparr>dm_rows = 1, dm_cols = 1, dm_data = [Fin 1]\<rparr>\<rparr> :: 0 CorrelatedKnowledgeGradient"
  let ?c' = "\<lparr>ckg_dim = 1, ckg_mean = [Fin (1 / 2)], ckg_covariance = \<lparr>dm_rows = 1, dm_cols = 1, dm_data = [Fin (1 / 2)]\<rparr>\<rparr> :: 0 CorrelatedKnowledgeGradient"
  have 1: "ckg_valid ?c"
    by (simp add: ckg_valid_def ckg_wf_def ckg_symmetric_def quad_def ckg_cov_def val_def entry_def)
  have 2: "UpdateBayesian ?c 0 (Fin 1) (Fin 1) = Inr ?c'"
    by (simp add: UpdateBayesian_def Let_def entry_def tiny_pivot_def posterior_mean_def posterior_entry_def filled_def zero_fl_def)
  show ?thesis unfolding Let_def using 1 2 UpdateBayesian_conditions [OF 1 2] by blast
qed

end
