(* ===== verification/Learner.thy ===== *)
theory Learner
  imports Ckg Cave Dispatch
begin

text \<open>
  \<open>internal/service/vfa_learner.go\<close>: after a matching, the learner feeds the shadow price of every matched
  driver into the slopes of the region where the load ends, one level further with every arrival there,
  and into the correlated belief over the regions. The interleaved loop over the matches is shown to be two
  separate folds over the observations the matches make.
\<close>

record VFALearningConfig =
  LcStepSize :: f64
  HarmonicStepSize :: bool
  HarmonicA :: f64
  LcMaxSlopes :: int
  UseCKG :: bool
  CKGObservationVar :: f64

definition DefaultVFALearningConfig :: VFALearningConfig where
  "DefaultVFALearningConfig = \<lparr>LcStepSize = rnd (1 / 10), HarmonicStepSize = True, HarmonicA = Fin 20, LcMaxSlopes = 10,
     UseCKG = False, CKGObservationVar = 1\<rparr>"

record PiecewiseVFALearner =
  vl_table :: PiecewiseTable
  vl_ckg :: "53 CorrelatedKnowledgeGradient option"
  vl_regionManager :: RegionManager
  vl_regionIndexMap :: "string \<rightharpoonup> int"
  vl_config :: VFALearningConfig
  vl_epochCount :: int

definition NewPiecewiseVFALearner ::
  "PiecewiseTable option \<Rightarrow> 53 CorrelatedKnowledgeGradient option \<Rightarrow> RegionManager option \<Rightarrow> (string \<rightharpoonup> int) \<Rightarrow> VFALearningConfig \<Rightarrow>
    PiecewiseVFALearner result" where
  "NewPiecewiseVFALearner initialTable ckg rm regionIndexMap cfg =
     (case initialTable of None \<Rightarrow> Inl (ErrOther ''service: initialTable cannot be nil'') | Some t \<Rightarrow>
      case rm of None \<Rightarrow> Inl (ErrOther ''service: region manager cannot be nil'') | Some r \<Rightarrow>
      if LcStepSize cfg \<le> 0 then Inl (ErrOther ''service: StepSize must be > 0'')
      else if HarmonicA cfg \<le> 0 then Inl (ErrOther ''service: HarmonicA must be > 0'')
      else if LcMaxSlopes cfg \<le> 0 then Inl (ErrOther ''service: MaxSlopes must be > 0'')
      else Inr \<lparr>vl_table = t, vl_ckg = ckg, vl_regionManager = r, vl_regionIndexMap = regionIndexMap, vl_config = cfg,
        vl_epochCount = 0\<rparr>)"

definition StepSize :: "PiecewiseVFALearner \<Rightarrow> f64" where
  "StepSize l =
     (if \<not> HarmonicStepSize (vl_config l) then LcStepSize (vl_config l)
      else let a = HarmonicA (vl_config l); t = of_int_fl (vl_epochCount l + 1) in a / (a + t - 1))"

section \<open>The update\<close>

text \<open>The locals of the loop: the table, the belief and the arrivals by region (missing keys read as 0).\<close>

type_synonym learn_state = "PiecewiseTable \<times> 53 CorrelatedKnowledgeGradient option \<times> (string \<Rightarrow> int)"

definition learn_ckg ::
  "PiecewiseVFALearner \<Rightarrow> string \<Rightarrow> f64 \<Rightarrow> 53 CorrelatedKnowledgeGradient option \<Rightarrow> 53 CorrelatedKnowledgeGradient option result" where
  "learn_ckg l region driverDual ckg =
     (if \<not> UseCKG (vl_config l) then Inr ckg
      else case ckg of None \<Rightarrow> Inr None | Some c \<Rightarrow>
        case vl_regionIndexMap l region of None \<Rightarrow> Inr ckg | Some rIdx \<Rightarrow>
          map_sum id Some (UpdateBayesian c rIdx driverDual (CKGObservationVar (vl_config l))))"

definition learn_match ::
  "libm \<Rightarrow> PiecewiseVFALearner \<Rightarrow> (string \<rightharpoonup> Load) \<Rightarrow> 53 MatchingSolution \<Rightarrow> DriverLoadMatch \<Rightarrow> learn_state \<Rightarrow> learn_state result" where
  "learn_match L l loadMap sol m st =
     (case st of (table, ckg, arrivals) \<Rightarrow>
      case loadMap (MLoadID m) of None \<Rightarrow> Inr st | Some load \<Rightarrow>
      let destRegion = GetRegionID (vl_regionManager l) (Destination load); arrivalIdx = arrivals destRegion;
          arrivals = arrivals(destRegion := arrivalIdx + 1) in
      case DriverDualValues sol (MDriverID m) of None \<Rightarrow> Inr (table, ckg, arrivals) | Some driverDual \<Rightarrow>
      if is_nan driverDual \<or> is_inf driverDual then Inr (table, ckg, arrivals)
      else let table = UpdateCAVE L table destRegion arrivalIdx driverDual (StepSize l) (LcMaxSlopes (vl_config l)) in
        case learn_ckg l destRegion driverDual ckg of Inl e \<Rightarrow> Inl e | Inr ckg' \<Rightarrow> Inr (table, ckg', arrivals))"

fun learn_matches ::
  "libm \<Rightarrow> PiecewiseVFALearner \<Rightarrow> (string \<rightharpoonup> Load) \<Rightarrow> 53 MatchingSolution \<Rightarrow> DriverLoadMatch list \<Rightarrow> learn_state \<Rightarrow> learn_state result" where
  "learn_matches L l loadMap sol [] st = Inr st"
| "learn_matches L l loadMap sol (m # ms) st =
     (case learn_match L l loadMap sol m st of Inl e \<Rightarrow> Inl e | Inr st' \<Rightarrow> learn_matches L l loadMap sol ms st')"

definition UpdateFromMatching ::
  "libm \<Rightarrow> PiecewiseVFALearner \<Rightarrow> 53 MatchingSolution \<Rightarrow> Driver list \<Rightarrow> Load list \<Rightarrow> PiecewiseVFALearner result" where
  "UpdateFromMatching L l sol drivers loads =
     (case learn_matches L l (loads_by_id loads) sol (Matches sol) (vl_table l, vl_ckg l, \<lambda>_. 0) of
        Inl e \<Rightarrow> Inl e
      | Inr (table, ckg, _) \<Rightarrow> Inr (l\<lparr>vl_table := table, vl_ckg := ckg, vl_epochCount := vl_epochCount l + 1\<rparr>))"

section \<open>Observations\<close>

text \<open>
  The region a match sends its driver to, and the observations of a list of matches: the region, the level (the
  number of matches before it into the same region) and the shadow price, where that is a finite number.
\<close>

definition arrives :: "PiecewiseVFALearner \<Rightarrow> (string \<rightharpoonup> Load) \<Rightarrow> DriverLoadMatch \<Rightarrow> string option" where
  "arrives l loadMap m = map_option (\<lambda>load. GetRegionID (vl_regionManager l) (Destination load)) (loadMap (MLoadID m))"

definition dual_price :: "53 MatchingSolution \<Rightarrow> DriverLoadMatch \<Rightarrow> f64 option" where
  "dual_price sol m = (case DriverDualValues sol (MDriverID m) of
     Some d \<Rightarrow> if is_fin d then Some d else None | None \<Rightarrow> None)"

definition observation ::
  "PiecewiseVFALearner \<Rightarrow> (string \<rightharpoonup> Load) \<Rightarrow> 53 MatchingSolution \<Rightarrow> DriverLoadMatch list \<Rightarrow> nat \<Rightarrow> (string \<times> int \<times> f64) list" where
  "observation l loadMap sol ms i =
     (case (arrives l loadMap (ms ! i), dual_price sol (ms ! i)) of
        (Some r, Some d) \<Rightarrow> [(r, int (length (filter (\<lambda>m. arrives l loadMap m = Some r) (take i ms))), d)]
      | _ \<Rightarrow> [])"

definition observations ::
  "PiecewiseVFALearner \<Rightarrow> (string \<rightharpoonup> Load) \<Rightarrow> 53 MatchingSolution \<Rightarrow> DriverLoadMatch list \<Rightarrow> (string \<times> int \<times> f64) list" where
  "observations l loadMap sol ms = concat (map (observation l loadMap sol ms) [0..<length ms])"

definition cave_all :: "libm \<Rightarrow> PiecewiseVFALearner \<Rightarrow> (string \<times> int \<times> f64) list \<Rightarrow> PiecewiseTable \<Rightarrow> PiecewiseTable" where
  "cave_all L l obs table = fold (\<lambda>(r, k, d) t. UpdateCAVE L t r k d (StepSize l) (LcMaxSlopes (vl_config l))) obs table"

fun bayes_all ::
  "PiecewiseVFALearner \<Rightarrow> (string \<times> int \<times> f64) list \<Rightarrow> 53 CorrelatedKnowledgeGradient option \<Rightarrow>
    53 CorrelatedKnowledgeGradient option result" where
  "bayes_all l [] ckg = Inr ckg"
| "bayes_all l ((r, k, d) # obs) ckg = (case learn_ckg l r d ckg of Inl e \<Rightarrow> Inl e | Inr ckg' \<Rightarrow> bayes_all l obs ckg')"

lemma is_fin_number: "is_fin x \<longleftrightarrow> \<not> (is_nan x \<or> is_inf x)"
  by (cases x) simp_all

text \<open>One observation, and those of the matches after a prefix.\<close>

lemma observation_Suc:
  "observation l loadMap sol (pre @ m # ms) (length pre) =
     (case (arrives l loadMap m, dual_price sol m) of
        (Some r, Some d) \<Rightarrow> [(r, int (length (filter (\<lambda>m. arrives l loadMap m = Some r) pre)), d)] | _ \<Rightarrow> [])"
  by (simp add: observation_def split: option.split)

lemma learn_matches_observations:
  assumes "arr = (\<lambda>r. int (length (filter (\<lambda>m. arrives l loadMap m = Some r) pre)))"
  shows "map_sum id (\<lambda>(t, c, a). (t, c)) (learn_matches L l loadMap sol ms (table, ckg, arr)) =
    (let obs = concat (map (observation l loadMap sol (pre @ ms)) [length pre..<length (pre @ ms)]) in
      map_sum id (\<lambda>c. (cave_all L l obs table, c)) (bayes_all l obs ckg))"
  using assms
proof (induction ms arbitrary: pre table ckg arr)
  case Nil
  then show ?case by (simp add: cave_all_def)
next
  case (Cons m ms)
  define rest where "rest = concat (map (observation l loadMap sol ((pre @ [m]) @ ms)) [length (pre @ [m])..<length ((pre @ [m]) @ ms)])"
  have split: "concat (map (observation l loadMap sol (pre @ m # ms)) [length pre..<length (pre @ m # ms)]) =
      observation l loadMap sol (pre @ m # ms) (length pre) @ rest"
    by (simp add: rest_def upt_conv_Cons del: upt_Suc)
  show ?case
  proof (cases "loadMap (MLoadID m)")
    case None
    then have a: "arrives l loadMap m = None" by (simp add: arrives_def)
    then have "arr = (\<lambda>r. int (length (filter (\<lambda>m. arrives l loadMap m = Some r) (pre @ [m]))))" using Cons.prems by simp
    from Cons.IH [OF this, of table ckg, folded rest_def] show ?thesis
      unfolding Let_def split observation_Suc using None a by (simp add: learn_match_def)
  next
    case (Some load)
    define r where "r = GetRegionID (vl_regionManager l) (Destination load)"
    have a: "arrives l loadMap m = Some r" using Some by (simp add: arrives_def r_def)
    define arr' where "arr' = arr(r := arr r + 1)"
    have "arr' = (\<lambda>r. int (length (filter (\<lambda>m. arrives l loadMap m = Some r) (pre @ [m]))))" using Cons.prems a by (auto simp: arr'_def)
    note IH = Cons.IH [OF this, folded rest_def]
    show ?thesis
    proof (cases "dual_price sol m")
      case None
      then have "learn_match L l loadMap sol m (table, ckg, arr) = Inr (table, ckg, arr')"
        using Some by (auto simp: learn_match_def dual_price_def Let_def is_fin_number r_def arr'_def split: option.splits if_splits)
      then show ?thesis using IH [of table ckg] unfolding Let_def split observation_Suc by (simp add: a None)
    next
      case (Some d)
      then have d: "DriverDualValues sol (MDriverID m) = Some d" "\<not> is_nan d" "\<not> is_inf d"
        by (auto simp: dual_price_def is_fin_number split: option.splits if_splits)
      let ?t = "UpdateCAVE L table r (arr r) d (StepSize l) (LcMaxSlopes (vl_config l))"
      have m: "learn_match L l loadMap sol m (table, ckg, arr) =
          (case learn_ckg l r d ckg of Inl e \<Rightarrow> Inl e | Inr ckg' \<Rightarrow> Inr (?t, ckg', arr'))"
        using \<open>loadMap (MLoadID m) = Some load\<close> d unfolding arr'_def r_def by (simp add: learn_match_def Let_def)
      have o: "observation l loadMap sol (pre @ m # ms) (length pre) = [(r, arr r, d)]"
        using Cons.prems unfolding observation_Suc by (simp add: a Some)
      show ?thesis
        unfolding Let_def split o using IH [of ?t]
        by (cases "learn_ckg l r d ckg") (simp_all add: m cave_all_def Let_def id_def)
    qed
  qed
qed

section \<open>What the table learns\<close>

text \<open>A region has slopes that are concave or not all numbers.\<close>

definition learnt_ok :: "PiecewiseTable \<Rightarrow> string \<Rightarrow> bool" where
  "learnt_ok t r \<longleftrightarrow> (case t r of None \<Rightarrow> False | Some s \<Rightarrow> (\<exists>x\<in>set (Slopes s). is_nan x) \<or> concave (Slopes s))"

lemma cave_passes_nan:
  assumes "k < length xs" and "no_nan (cave_passes k xs)"
  shows "no_nan xs"
proof -
  note P = cave_passes_nth [OF assms(1)]
  have "\<not> is_nan (xs ! j)" if j: "j < length xs" for j
  proof
    assume n: "is_nan (xs ! j)"
    have keep: "is_nan (go_min x y)" "is_nan (go_max2 x y)" if "is_nan x" for x y
      using that by (cases x; cases y; simp add: go_min_def go_max2_def)+
    have "is_nan (cave_passes k xs ! j)"
      using P(2) P(3) [OF _ j] P(4) [of j] n keep by (cases j k rule: linorder_cases) metis+
    then show False using assms(2) j P(1) unfolding no_nan_def by (metis nth_mem)
  qed
  then show ?thesis unfolding no_nan_def by (metis in_set_conv_nth)
qed

lemma UpdateCAVE_learnt: "learnt_ok (UpdateCAVE L t r k d a m) r"
proof -
  let ?m = "clamp_slopes m"
  let ?b = "base_slopes L t r d ?m" and ?k = "clamp_level k ?m"
  let ?xs = "?b[?k := smoothed (clamp_step a) d (?b ! ?k)]"
  have k: "?k < length ?xs"
    using clamp_level_less [OF clamp_slopes_pos, of k m] base_slopes_length [of ?m L t r d] by simp
  have "(\<exists>x\<in>set (cave_passes ?k ?xs). is_nan x) \<or> concave (cave_passes ?k ?xs)"
  proof (cases "no_nan (cave_passes ?k ?xs)")
    case True
    then show ?thesis using cave_passes_concave [OF k cave_passes_nan [OF k True]] by simp
  qed (auto simp: no_nan_def)
  then show ?thesis by (simp add: learnt_ok_def UpdateCAVE_def Let_def)
qed

lemma UpdateCAVE_other: "r' \<noteq> r \<Longrightarrow> UpdateCAVE L t r k d a m r' = t r'"
  by (simp add: UpdateCAVE_def Let_def)

lemma cave_all_other: "r \<notin> fst ` set obs \<Longrightarrow> cave_all L l obs t r = t r"
  by (induction obs arbitrary: t) (auto simp: cave_all_def UpdateCAVE_other)

lemma cave_all_learnt:
  assumes "r \<in> fst ` set obs"
  shows "learnt_ok (cave_all L l obs t) r"
  using assms
proof (induction obs arbitrary: t)
  case (Cons o1 obs)
  obtain r1 k d where o: "o1 = (r1, k, d)" by (metis prod_cases3)
  let ?t = "UpdateCAVE L t r1 k d (StepSize l) (LcMaxSlopes (vl_config l))"
  have c: "cave_all L l (o1 # obs) t = cave_all L l obs ?t" by (simp add: cave_all_def o)
  show ?case
  proof (cases "r \<in> fst ` set obs")
    case True
    then show ?thesis using Cons.IH c by simp
  next
    case False
    then have "r = r1" using Cons.prems o by auto
    then show ?thesis using UpdateCAVE_learnt [of L t r1] cave_all_other [OF False, of L l ?t]
      unfolding c by (simp add: learnt_ok_def)
  qed
qed simp

text \<open>
  The update is two independent folds over the observations of the matches: the table takes each of
  them as a CAVE update of its region at the level counted by the arrivals before it, the belief as a
  Bayesian update of the index of its region, and only the belief can fail. Regions without an observation
  keep their slopes; a region with one has concave slopes afterwards unless one of them is not a number.
\<close>

theorem UpdateFromMatching_folds:
  fixes L l sol drivers loads
  defines "obs \<equiv> observations l (loads_by_id loads) sol (Matches sol)"
  defines "table \<equiv> cave_all L l obs (vl_table l)"
  shows "UpdateFromMatching L l sol drivers loads =
      map_sum id (\<lambda>c. l\<lparr>vl_table := table, vl_ckg := c, vl_epochCount := vl_epochCount l + 1\<rparr>) (bayes_all l obs (vl_ckg l)) \<and>
    (\<forall>r. if r \<in> fst ` set obs then learnt_ok table r else table r = vl_table l r)"
proof
  have "map_sum id (\<lambda>(t, c, a). (t, c)) (learn_matches L l (loads_by_id loads) sol (Matches sol) (vl_table l, vl_ckg l, \<lambda>_. 0)) =
      map_sum id (\<lambda>c. (table, c)) (bayes_all l obs (vl_ckg l))"
    using learn_matches_observations [of "\<lambda>_. 0" l "loads_by_id loads" "[]" L sol "Matches sol" "vl_table l" "vl_ckg l"]
    by (simp add: obs_def table_def observations_def Let_def)
  then show "UpdateFromMatching L l sol drivers loads =
      map_sum id (\<lambda>c. l\<lparr>vl_table := table, vl_ckg := c, vl_epochCount := vl_epochCount l + 1\<rparr>) (bayes_all l obs (vl_ckg l))"
    by (cases "learn_matches L l (loads_by_id loads) sol (Matches sol) (vl_table l, vl_ckg l, \<lambda>_. 0)"; cases "bayes_all l obs (vl_ckg l)")
       (auto simp: UpdateFromMatching_def split: prod.splits)
  show "\<forall>r. if r \<in> fst ` set obs then learnt_ok table r else table r = vl_table l r"
    by (simp add: table_def cave_all_learnt cave_all_other)
qed

end
