(* ===== verification/Rolling_Horizon.thy ===== *)
theory Rolling_Horizon
  imports Simulation Relay_Synth Learner
begin

text \<open>
  \<open>internal/service/rolling_horizon.go\<close>: the run over several days. Each epoch is optimized by the service of
  \<open>Orchestrator\<close>, then the learner of \<open>Learner\<close> is updated and a batch of relays and tours is synthesized for
  the figures of the day. The loop is a \<open>partial_function\<close>; \<open>None\<close> is a step that does not return.
  The synthesis of the batches is a parameter of type \<open>relay_runner\<close>, \<open>relay_batches\<close> its instance.
\<close>

record RollingHorizonConfig =
  RhRunID :: string
  RhStartEpoch :: int
  HorizonDays :: int
  DecisionStepHours :: int
  EnableRelays :: bool
  MinRelayHaulMiles :: f64
  EnableVFALearning :: bool

definition DefaultRollingHorizonConfig :: RollingHorizonConfig where
  "DefaultRollingHorizonConfig = \<lparr>RhRunID = ''ROLLING_HORIZON_7D'', RhStartEpoch = 1787119200, HorizonDays = 7,
     DecisionStepHours = 24, EnableRelays = True, MinRelayHaulMiles = Fin 450, EnableVFALearning = True\<rparr>"

definition RollingHorizon_Validate :: "RollingHorizonConfig \<Rightarrow> unit result" where
  "RollingHorizon_Validate cfg =
     (if RhStartEpoch cfg \<le> 0 then Inl (ErrOther ''service: StartEpoch must be positive'')
      else if HorizonDays cfg \<le> 0 then Inl (ErrOther ''service: HorizonDays must be >= 1'')
      else if DecisionStepHours cfg \<le> 0 then Inl (ErrOther ''service: DecisionStepHours must be >= 1'')
      else Inr ())"

record DailyKPISnapshot =
  DayIndex :: int
  DayEpoch :: int
  ActiveDrivers :: nat
  AvailableLoads :: nat
  MatchedLoads :: nat
  DirectToursCount :: nat
  RelayExchangesCount :: nat
  DayLoadedMiles :: f64
  DayEmptyMiles :: f64
  DayEmptyRatio :: f64
  DayGrossRevenue :: f64
  DayOperatingCost :: f64
  DayNetContribution :: f64

record RollingHorizonReport =
  RepRunID :: string
  RepStartEpoch :: int
  RepEndEpoch :: int
  TotalDays :: int
  RepTotalEpochs :: nat
  DailySnapshots :: "DailyKPISnapshot list"
  GlobalKPIs :: KPIReport
  TotalDirectTours :: nat
  TotalRelayExchanges :: nat
  RepLoadedMiles :: f64
  RepEmptyMiles :: f64
  GlobalEmptyRatio :: f64
  RepGrossRevenue :: f64
  RepOperatingCost :: f64
  RepNetContribution :: f64

type_synonym relay_runner =
  "int \<Rightarrow> Driver list \<Rightarrow> DriverLoadMatch list \<Rightarrow> Load list \<Rightarrow> f64 \<Rightarrow> RelayDispatchBatch result option"

text \<open>The runner of the code: the goroutine orders and the context may differ from epoch to epoch.\<close>

definition relay_batches ::
  "libm \<Rightarrow> TourSynthesizerConfig \<Rightarrow> RelaySynthesizer option \<Rightarrow> (int \<Rightarrow> nat \<Rightarrow> int \<Rightarrow> bool) \<Rightarrow> (int \<Rightarrow> nat \<Rightarrow> nat list) \<Rightarrow>
    (int \<Rightarrow> relayCandidate list \<Rightarrow> relayCandidate list) \<Rightarrow> relay_runner" where
  "relay_batches L cfg rs ctxDone sched arrive ep = SynthesizeRelayBatch L cfg rs (ctxDone ep) (sched ep) (arrive ep) ep"

text \<open>The locals of \<open>Run\<close> but the state and the service.\<close>

record horizon =
  hz_stats :: StatisticCalculator
  hz_snapshots :: "DailyKPISnapshot list"
  hz_tours :: nat
  hz_relays :: nat
  hz_loaded :: f64
  hz_empty :: f64
  hz_revenue :: f64
  hz_cost :: f64
  hz_net :: f64
  hz_learner :: "PiecewiseVFALearner option"
  hz_epochs :: nat

definition horizon_init :: "PiecewiseVFALearner option \<Rightarrow> horizon" where
  "horizon_init learner = \<lparr>hz_stats = NewStatisticCalculator, hz_snapshots = [], hz_tours = 0, hz_relays = 0, hz_loaded = 0,
     hz_empty = 0, hz_revenue = 0, hz_cost = 0, hz_net = 0, hz_learner = learner, hz_epochs = 0\<rparr>"

text \<open>Step 3: the duals handed to the learner are the net contributions of the assigned arcs.\<close>

definition matching_solution :: "Action \<Rightarrow> DecisionProvenance \<Rightarrow> 53 MatchingSolution" where
  "matching_solution action prov =
     \<lparr>Matches = act_matches action, Evaluations = EvaluatedArcs prov, TotalObjective = TotalObjectiveValue prov,
      SolNetContribution = TotalNetContribution prov,
      DriverDualValues = fold (\<lambda>ev m. if IsAssigned ev then m(EvDriverID ev \<mapsto> NetContribution (CostBreakdown ev)) else m)
        (EvaluatedArcs prov) Map.empty,
      LoadDualValues = Map.empty\<rparr>"

definition learn_step ::
  "libm \<Rightarrow> RollingHorizonConfig \<Rightarrow> PiecewiseVFALearner option \<Rightarrow> Action \<Rightarrow> DecisionProvenance \<Rightarrow> Driver list \<Rightarrow> Load list \<Rightarrow>
    PiecewiseVFALearner option result" where
  "learn_step L cfg learner action prov drivers loads =
     (if EnableVFALearning cfg then
        case learner of None \<Rightarrow> Inr None
        | Some l \<Rightarrow> map_sum id Some (UpdateFromMatching L l (matching_solution action prov) drivers loads)
      else Inr learner)"

text \<open>Step 4.\<close>

definition relay_step ::
  "relay_runner \<Rightarrow> RollingHorizonConfig \<Rightarrow> int \<Rightarrow> Action \<Rightarrow> Driver list \<Rightarrow> Load list \<Rightarrow> RelayDispatchBatch option result option" where
  "relay_step R cfg ep action drivers loads =
     (if EnableRelays cfg then map_option (map_sum id Some) (R ep drivers (act_matches action) loads (MinRelayHaulMiles cfg))
      else Some (Inr None))"

text \<open>Step 5: the figures of a day and the totals.\<close>

definition ratio_of :: "f64 \<Rightarrow> f64 \<Rightarrow> f64" where
  "ratio_of loaded emptyMiles = (let distance = loaded + emptyMiles in if distance > 0 then emptyMiles / distance else 0)"

definition day_snapshot ::
  "RollingHorizonConfig \<Rightarrow> int \<Rightarrow> Driver list \<Rightarrow> Load list \<Rightarrow> Action \<Rightarrow> DecisionProvenance \<Rightarrow> RelayDispatchBatch option \<Rightarrow>
    DailyKPISnapshot" where
  "day_snapshot cfg ep drivers loads action prov batch =
     (let loaded = (case batch of None \<Rightarrow> 0 | Some b \<Rightarrow> RbLoadedMiles b);
          emptyMiles = (case batch of None \<Rightarrow> 0 | Some b \<Rightarrow> RbEmptyMiles b) in
      \<lparr>DayIndex = (ep - RhStartEpoch cfg) div 86400, DayEpoch = ep, ActiveDrivers = length drivers,
       AvailableLoads = length loads, MatchedLoads = length (act_matches action),
       DirectToursCount = (case batch of None \<Rightarrow> 0 | Some b \<Rightarrow> RbTotalTours b),
       RelayExchangesCount = (case batch of None \<Rightarrow> 0 | Some b \<Rightarrow> TotalRelays b),
       DayLoadedMiles = loaded, DayEmptyMiles = emptyMiles, DayEmptyRatio = ratio_of loaded emptyMiles,
       DayGrossRevenue = (case batch of None \<Rightarrow> TotalNetContribution prov | Some b \<Rightarrow> RbGrossRevenue b),
       DayOperatingCost = (case batch of None \<Rightarrow> 0 | Some b \<Rightarrow> RbOperatingCost b),
       DayNetContribution = (case batch of None \<Rightarrow> TotalNetContribution prov | Some b \<Rightarrow> RbNetContribution b)\<rparr>)"

definition add_day :: "DailyKPISnapshot \<Rightarrow> horizon \<Rightarrow> horizon" where
  "add_day d h = h\<lparr>hz_snapshots := hz_snapshots h @ [d], hz_tours := hz_tours h + DirectToursCount d,
     hz_relays := hz_relays h + RelayExchangesCount d, hz_loaded := hz_loaded h + DayLoadedMiles d,
     hz_empty := hz_empty h + DayEmptyMiles d, hz_revenue := hz_revenue h + DayGrossRevenue d,
     hz_cost := hz_cost h + DayOperatingCost d, hz_net := hz_net h + DayNetContribution d, hz_epochs := hz_epochs h + 1\<rparr>"

definition horizon_end :: "RollingHorizonConfig \<Rightarrow> int" where
  "horizon_end cfg = RhStartEpoch cfg + HorizonDays cfg * 86400"

definition step_seconds :: "RollingHorizonConfig \<Rightarrow> int" where
  "step_seconds cfg = DecisionStepHours cfg * 3600"

partial_function (option) horizon_loop ::
  "libm \<Rightarrow> json_lib \<Rightarrow> relay_runner \<Rightarrow> (int \<Rightarrow> bool) \<Rightarrow> RollingHorizonConfig \<Rightarrow> Policy \<Rightarrow> LoadStream option \<Rightarrow> int \<Rightarrow> 53 Belief State \<Rightarrow>
    horizon \<Rightarrow> OptimizationService \<Rightarrow> (horizon result \<times> 53 Belief State \<times> OptimizationService) option" where
  "horizon_loop L J R ctxDone cfg pol stream ep s h svc =
     (if ep \<ge> horizon_end cfg then Some (Inr h, s, svc)
      else if ctxDone ep then Some (Inl (ErrOther ''context canceled''), s, svc)
      else let newLoads = stream_loads stream ep; drivers = rs_drivers (st_resource s); loads = rs_loads (st_resource s);
               sc = RecordLoadOffers (int (length newLoads)) (hz_stats h) in
        (case OptimizeEpoch L J (Some s) (Some pol) (ep + step_seconds cfg) newLoads svc of
           None \<Rightarrow> None
         | Some (Inl e, svc') \<Rightarrow> Some (Inl e, s, svc')
         | Some (Inr (action, prov, s'), svc') \<Rightarrow>
             (case learn_step L cfg (hz_learner h) action prov drivers loads of
                Inl e \<Rightarrow> Some (Inl e, s, svc')
              | Inr learner \<Rightarrow>
                  (case relay_step R cfg ep action drivers loads of
                     None \<Rightarrow> None
                   | Some (Inl e) \<Rightarrow> Some (Inl e, s, svc')
                   | Some (Inr batch) \<Rightarrow>
                       horizon_loop L J R ctxDone cfg pol stream (ep + step_seconds cfg) s'
                         (add_day (day_snapshot cfg ep drivers loads action prov batch) (h\<lparr>hz_stats := sc, hz_learner := learner\<rparr>))
                         svc'))))"

definition horizon_report :: "RollingHorizonConfig \<Rightarrow> horizon \<Rightarrow> RollingHorizonReport" where
  "horizon_report cfg h =
     \<lparr>RepRunID = RhRunID cfg, RepStartEpoch = RhStartEpoch cfg, RepEndEpoch = horizon_end cfg, TotalDays = HorizonDays cfg,
      RepTotalEpochs = hz_epochs h, DailySnapshots = hz_snapshots h, GlobalKPIs = KPI_Snapshot (hz_stats h),
      TotalDirectTours = hz_tours h, TotalRelayExchanges = hz_relays h, RepLoadedMiles = hz_loaded h,
      RepEmptyMiles = hz_empty h, GlobalEmptyRatio = ratio_of (hz_loaded h) (hz_empty h),
      RepGrossRevenue = hz_revenue h, RepOperatingCost = hz_cost h, RepNetContribution = hz_net h\<rparr>"

definition RollingHorizon_Run ::
  "libm \<Rightarrow> json_lib \<Rightarrow> relay_runner \<Rightarrow> PiecewiseVFALearner option \<Rightarrow> (int \<Rightarrow> bool) \<Rightarrow> RollingHorizonConfig \<Rightarrow>
    53 Belief State option \<Rightarrow> Policy option \<Rightarrow> LoadStream option \<Rightarrow> OptimizationService \<Rightarrow>
    (RollingHorizonReport result \<times> 53 Belief State option \<times> OptimizationService) option" where
  "RollingHorizon_Run L J R learner ctxDone cfg initialState pol stream svc =
     (case RollingHorizon_Validate cfg of Inl e \<Rightarrow> Some (Inl e, None, svc) | Inr _ \<Rightarrow>
      case initialState of None \<Rightarrow> Some (Inl (ErrOther ''service: initialState cannot be nil''), None, svc) | Some s0 \<Rightarrow>
      case pol of None \<Rightarrow> Some (Inl (ErrOther ''service: policy cannot be nil''), None, svc) | Some p \<Rightarrow>
      case horizon_loop L J R ctxDone cfg p stream (RhStartEpoch cfg) s0 (horizon_init learner) svc of
        None \<Rightarrow> None
      | Some (Inl e, s, svc') \<Rightarrow> Some (Inl e, Some s, svc')
      | Some (Inr h, s, svc') \<Rightarrow> Some (Inr (horizon_report cfg h), Some s, svc'))"

section \<open>A completed run, epoch by epoch\<close>

definition next_horizon ::
  "RollingHorizonConfig \<Rightarrow> int \<Rightarrow> 53 Belief State \<Rightarrow> Load list \<Rightarrow> Action \<Rightarrow> DecisionProvenance \<Rightarrow> PiecewiseVFALearner option \<Rightarrow>
    RelayDispatchBatch option \<Rightarrow> horizon \<Rightarrow> horizon" where
  "next_horizon cfg ep s newLoads action prov learner batch h =
     add_day (day_snapshot cfg ep (rs_drivers (st_resource s)) (rs_loads (st_resource s)) action prov batch)
       (h\<lparr>hz_stats := RecordLoadOffers (int (length newLoads)) (hz_stats h), hz_learner := learner\<rparr>)"

lemma horizon_loop_Inr:
  assumes "horizon_loop L J R ctxDone cfg p stream ep s h svc = Some (Inr h', s', svc')"
  obtains (finished) "horizon_end cfg \<le> ep" "h' = h" "s' = s" "svc' = svc"
  | (more) action prov s1 svc1 learner batch where "ep < horizon_end cfg" "\<not> ctxDone ep"
      "OptimizeEpoch L J (Some s) (Some p) (ep + step_seconds cfg) (stream_loads stream ep) svc = Some (Inr (action, prov, s1), svc1)"
      "learn_step L cfg (hz_learner h) action prov (rs_drivers (st_resource s)) (rs_loads (st_resource s)) = Inr learner"
      "relay_step R cfg ep action (rs_drivers (st_resource s)) (rs_loads (st_resource s)) = Some (Inr batch)"
      "horizon_loop L J R ctxDone cfg p stream (ep + step_seconds cfg) s1
         (next_horizon cfg ep s (stream_loads stream ep) action prov learner batch h) svc1 = Some (Inr h', s', svc')"
proof (cases "horizon_end cfg \<le> ep")
  case True
  then show ?thesis using assms finished horizon_loop.simps [of L J R ctxDone cfg p stream ep s h svc] by simp
next
  case False
  then show ?thesis using assms unfolding horizon_loop.simps [of L J R ctxDone cfg p stream ep s h svc]
    by (auto simp: Let_def next_horizon_def split: if_splits option.splits sum.splits prod.splits intro!: more)
qed

lemma horizon_loop_step:
  assumes "ep < horizon_end cfg" "\<not> ctxDone ep"
    and "OptimizeEpoch L J (Some s) (Some p) (ep + step_seconds cfg) (stream_loads stream ep) svc = Some (Inr (action, prov, s1), svc1)"
    and "learn_step L cfg (hz_learner h) action prov (rs_drivers (st_resource s)) (rs_loads (st_resource s)) = Inr learner"
    and "relay_step R cfg ep action (rs_drivers (st_resource s)) (rs_loads (st_resource s)) = Some (Inr batch)"
  shows "horizon_loop L J R ctxDone cfg p stream ep s h svc =
    horizon_loop L J R ctxDone cfg p stream (ep + step_seconds cfg) s1
      (next_horizon cfg ep s (stream_loads stream ep) action prov learner batch h) svc1"
  using assms horizon_loop.simps [of L J R ctxDone cfg p stream ep s h svc] by (simp add: Let_def next_horizon_def)

lemma horizon_loop_induct [consumes 2, case_names finished more]:
  assumes "horizon_loop L J R ctxDone cfg p stream ep s h svc = Some (Inr h', s', svc')" and "0 < step_seconds cfg"
    and "\<And>ep h s svc. horizon_end cfg \<le> ep \<Longrightarrow> h' = h \<Longrightarrow> s' = s \<Longrightarrow> svc' = svc \<Longrightarrow> P ep s h svc"
    and "\<And>ep s h svc action prov s1 svc1 learner batch. ep < horizon_end cfg \<Longrightarrow> \<not> ctxDone ep \<Longrightarrow>
      OptimizeEpoch L J (Some s) (Some p) (ep + step_seconds cfg) (stream_loads stream ep) svc = Some (Inr (action, prov, s1), svc1) \<Longrightarrow>
      learn_step L cfg (hz_learner h) action prov (rs_drivers (st_resource s)) (rs_loads (st_resource s)) = Inr learner \<Longrightarrow>
      relay_step R cfg ep action (rs_drivers (st_resource s)) (rs_loads (st_resource s)) = Some (Inr batch) \<Longrightarrow>
      P (ep + step_seconds cfg) s1 (next_horizon cfg ep s (stream_loads stream ep) action prov learner batch h) svc1 \<Longrightarrow>
      P ep s h svc"
  shows "P ep s h svc"
  using assms(1)
proof (induction "nat (horizon_end cfg - ep)" arbitrary: ep s h svc rule: less_induct)
  case less
  from less.prems show ?case
  proof (cases rule: horizon_loop_Inr)
    case finished
    then show ?thesis using assms(3) by simp
  next
    case (more action prov s1 svc1 learner batch)
    have "nat (horizon_end cfg - (ep + step_seconds cfg)) < nat (horizon_end cfg - ep)" using more(1) assms(2) by simp
    from less.hyps [OF this more(6)] show ?thesis by (rule assms(4) [OF more(1-5)])
  qed
qed

section \<open>Learning changes nothing\<close>

lemma add_day_simps [simp]:
  "hz_epochs (add_day d h) = Suc (hz_epochs h)" "hz_snapshots (add_day d h) = hz_snapshots h @ [d]" "hz_stats (add_day d h) = hz_stats h"
  "hz_tours (add_day d h) = hz_tours h + DirectToursCount d" "hz_relays (add_day d h) = hz_relays h + RelayExchangesCount d"
  "hz_loaded (add_day d h) = hz_loaded h + DayLoadedMiles d" "hz_empty (add_day d h) = hz_empty h + DayEmptyMiles d"
  "hz_revenue (add_day d h) = hz_revenue h + DayGrossRevenue d" "hz_cost (add_day d h) = hz_cost h + DayOperatingCost d"
  "hz_net (add_day d h) = hz_net h + DayNetContribution d" "hz_learner (add_day d h) = hz_learner h"
  "(add_day d h)\<lparr>hz_learner := l\<rparr> = add_day d (h\<lparr>hz_learner := l\<rparr>)"
  by (simp_all add: add_day_def)

lemma next_horizon_learner:
  "(next_horizon cfg ep s ls action prov learner batch h)\<lparr>hz_learner := l\<rparr> = next_horizon cfg ep s ls action prov l batch (h\<lparr>hz_learner := l'\<rparr>)"
  by (simp add: next_horizon_def)

lemma horizon_loop_learning:
  fixes cfg :: RollingHorizonConfig and l :: "PiecewiseVFALearner option"
  defines "cfg' \<equiv> cfg\<lparr>EnableVFALearning := False\<rparr>"
  assumes "horizon_loop L J R ctxDone cfg p stream ep s h svc = Some (Inr h', s', svc')" and "0 < step_seconds cfg"
  shows "horizon_loop L J R ctxDone cfg' p stream ep s (h\<lparr>hz_learner := l\<rparr>) svc = Some (Inr (h'\<lparr>hz_learner := l\<rparr>), s', svc')"
  using assms(2,3)
proof (induction rule: horizon_loop_induct)
  case (finished ep h s svc)
  then show ?case using horizon_loop.simps [of L J R ctxDone cfg' p stream ep s "h\<lparr>hz_learner := l\<rparr>" svc]
    by (simp add: cfg'_def horizon_end_def)
next
  case (more ep s h svc action prov s1 svc1 learner batch)
  have eq: "horizon_end cfg' = horizon_end cfg" "step_seconds cfg' = step_seconds cfg" "relay_step R cfg' = relay_step R cfg"
    "day_snapshot cfg' = day_snapshot cfg"
    by (simp_all add: cfg'_def horizon_end_def step_seconds_def relay_step_def day_snapshot_def fun_eq_iff)
  have n: "next_horizon cfg' = next_horizon cfg" by (simp add: next_horizon_def eq fun_eq_iff)
  have learn: "learn_step L cfg' (hz_learner (h\<lparr>hz_learner := l\<rparr>)) action prov ds ls = Inr l" for ds ls
    by (simp add: learn_step_def cfg'_def)
  show ?case
    using horizon_loop_step [of ep cfg' ctxDone L J s p stream svc action prov s1 svc1 "h\<lparr>hz_learner := l\<rparr>", OF _ more(2) _ learn]
      more(1,3,5,6) by (simp add: eq n next_horizon_learner [where l' = l])
qed

text \<open>
  Property C35. A run that succeeds with a learner has the same report, final state and service as the run with learning switched
  off: what is learnt never reaches a decision.
\<close>

theorem RollingHorizon_learning_inert:
  assumes "RollingHorizon_Run L J R learner ctxDone cfg (Some s0) (Some p) stream svc = Some (Inr report, s, svc')"
  shows "RollingHorizon_Run L J R learner' ctxDone (cfg\<lparr>EnableVFALearning := False\<rparr>) (Some s0) (Some p) stream svc =
    Some (Inr report, s, svc')"
proof -
  let ?cfg = "cfg\<lparr>EnableVFALearning := False\<rparr>"
  have v: "RollingHorizon_Validate cfg = Inr ()" "0 < step_seconds cfg"
    using assms by (auto simp: RollingHorizon_Run_def RollingHorizon_Validate_def step_seconds_def split: if_splits)
  from assms v(1) obtain h s1 where
    h: "horizon_loop L J R ctxDone cfg p stream (RhStartEpoch cfg) s0 (horizon_init learner) svc = Some (Inr h, s1, svc')"
    "report = horizon_report cfg h" "s = Some s1"
    by (auto simp: RollingHorizon_Run_def split: option.splits sum.splits prod.splits)
  have i: "(horizon_init learner)\<lparr>hz_learner := learner'\<rparr> = horizon_init learner'" by (simp add: horizon_init_def)
  have r: "horizon_report ?cfg (h\<lparr>hz_learner := learner'\<rparr>) = horizon_report cfg h" by (simp add: horizon_report_def horizon_end_def)
  have "RollingHorizon_Validate ?cfg = Inr ()" using v(1) by (auto simp: RollingHorizon_Validate_def split: if_splits)
  then show ?thesis
    using horizon_loop_learning [OF h(1) v(2), of learner', unfolded i] r h(2,3) by (simp add: RollingHorizon_Run_def)
qed

section \<open>A run is a simulation\<close>

text \<open>The configuration of the plain simulation over the same epochs, and what a run records of it.\<close>

definition plain_run :: "RollingHorizonConfig \<Rightarrow> SimulationRunConfig" where
  "plain_run cfg = \<lparr>RunID = RhRunID cfg, StartEpoch = RhStartEpoch cfg, EndEpoch = horizon_end cfg - 1, StepSeconds = step_seconds cfg\<rparr>"

definition totals_of :: "horizon \<Rightarrow> nat \<times> nat \<times> nat \<times> f64 \<times> f64 \<times> f64 \<times> f64 \<times> f64" where
  "totals_of h = (hz_epochs h, hz_tours h, hz_relays h, hz_loaded h, hz_empty h, hz_revenue h, hz_cost h, hz_net h)"

lemma add_day_totals: "totals_of h = totals_of h' \<Longrightarrow> totals_of (add_day d h) = totals_of (add_day d h')"
  by (simp add: totals_of_def)

lemma fold_days_totals: "totals_of h = totals_of h' \<Longrightarrow> totals_of (fold add_day ds h) = totals_of (fold add_day ds h')"
proof (induction ds arbitrary: h h')
  case (Cons d ds)
  show ?case using Cons.IH [OF add_day_totals [OF Cons.prems]] by (simp only: fold_Cons comp_apply)
qed simp

lemma next_horizon_totals:
  "totals_of (next_horizon cfg ep s ls action prov learner batch h) =
    totals_of (add_day (day_snapshot cfg ep (rs_drivers (st_resource s)) (rs_loads (st_resource s)) action prov batch) h)"
  unfolding next_horizon_def by (rule add_day_totals) (simp add: totals_of_def)

lemma RecordLoadOffers_simps [simp]:
  "sc_loadsOffered (RecordLoadOffers (int k) sc) = sc_loadsOffered sc + int k"
  "sc_loadsServiced (RecordLoadOffers (int k) sc) = sc_loadsServiced sc"
  by (auto simp: RecordLoadOffers_def)

lemma fold_days_epochs [simp]: "hz_epochs (fold add_day ds h) = hz_epochs h + length ds"
  by (induction ds arbitrary: h) simp_all

lemma horizon_loop_sim:
  assumes "horizon_loop L J R ctxDone cfg p stream ep s h svc = Some (Inr h', s', svc')" and "0 < step_seconds cfg" and "service_inv svc"
  shows "\<forall>sc n. \<exists>sc' es ds. sim_loop L J ctxDone (plain_run cfg) p stream ep s sc n svc = Some (Inr (sc', n + length ds), s', svc') \<and>
    os_journal svc' = os_journal svc @ es \<and> hz_snapshots h' = hz_snapshots h @ ds \<and> totals_of h' = totals_of (fold add_day ds h) \<and>
    sc_loadsServiced (hz_stats h') = sc_loadsServiced (hz_stats h) \<and>
    sc_loadsOffered (hz_stats h') - sc_loadsOffered (hz_stats h) = sc_loadsOffered sc' - sc_loadsOffered sc \<and>
    list_all2 (\<lambda>d e. MatchedLoads d = length (JeMatches e)) ds es \<and> map DayEpoch ds = map (\<lambda>i. ep + int i * step_seconds cfg) [0..<length ds]"
  using assms
proof (induction rule: horizon_loop_induct)
  case (finished ep h s svc)
  have "sim_loop L J ctxDone (plain_run cfg) p stream ep s sc n svc = Some (Inr (sc, n), s, svc)" for sc n
    using finished(1) sim_loop.simps [of L J ctxDone "plain_run cfg" p stream ep s sc n svc] by (simp add: plain_run_def)
  then show ?case using finished by (intro allI exI [of _ sc for sc] exI [of _ "[]"]) (auto intro: exI [of _ "[]"])
next
  case (more ep s h svc action prov s1 svc1 learner batch)
  show ?case
  proof (intro allI)
    fix sc n
    let ?ls = "stream_loads stream ep"
    let ?sc = "fold record_arc (EvaluatedArcs prov) (record_offers (step_seconds cfg) s ?ls sc)"
    let ?d = "day_snapshot cfg ep (rs_drivers (st_resource s)) (rs_loads (st_resource s)) action prov batch"
    let ?h = "next_horizon cfg ep s ?ls action prov learner batch h"
    from epoch_entry [OF more(7,3)] obtain en where
      en: "os_journal svc1 = os_journal svc @ [en]" "JeMatches en = act_matches action" "service_inv svc1" by blast
    have L: "sim_loop L J ctxDone (plain_run cfg) p stream ep s sc n svc =
        sim_loop L J ctxDone (plain_run cfg) p stream (ep + step_seconds cfg) s1 ?sc (Suc n) svc1"
      using more(1-3) sim_loop.simps [of L J ctxDone "plain_run cfg" p stream ep s sc n svc] by (simp add: plain_run_def Let_def)
    from more(6) [OF en(3)] obtain sc' es ds where
      I: "sim_loop L J ctxDone (plain_run cfg) p stream (ep + step_seconds cfg) s1 ?sc (Suc n) svc1 = Some (Inr (sc', Suc n + length ds), s', svc')"
      "os_journal svc' = os_journal svc1 @ es" "hz_snapshots h' = hz_snapshots ?h @ ds" "totals_of h' = totals_of (fold add_day ds ?h)"
      "sc_loadsServiced (hz_stats h') = sc_loadsServiced (hz_stats ?h)"
      "sc_loadsOffered (hz_stats h') - sc_loadsOffered (hz_stats ?h) = sc_loadsOffered sc' - sc_loadsOffered ?sc"
      "list_all2 (\<lambda>d e. MatchedLoads d = length (JeMatches e)) ds es"
      "map DayEpoch ds = map (\<lambda>i. (ep + step_seconds cfg) + int i * step_seconds cfg) [0..<length ds]" by blast
    have t: "totals_of h' = totals_of (fold add_day (?d # ds) h)"
      unfolding I(4) using fold_days_totals [OF next_horizon_totals [of cfg ep s ?ls action prov learner batch h]] by simp
    have e: "map DayEpoch (?d # ds) = map (\<lambda>i. ep + int i * step_seconds cfg) [0..<length (?d # ds)]"
      using I(8) by (simp add: day_snapshot_def Let_def upt_conv_Cons map_Suc_upt [symmetric] algebra_simps del: upt_Suc)
    have n: "hz_snapshots ?h = hz_snapshots h @ [?d]" "hz_stats ?h = RecordLoadOffers (int (length ?ls)) (hz_stats h)" by (simp_all add: next_horizon_def)
    have m: "MatchedLoads ?d = length (JeMatches en)" by (simp add: day_snapshot_def Let_def en(2))
    have c: "sc_loadsOffered ?sc = sc_loadsOffered sc + int (length ?ls)" by (simp add: record_arcs)
    show "\<exists>sc' es ds. sim_loop L J ctxDone (plain_run cfg) p stream ep s sc n svc = Some (Inr (sc', n + length ds), s', svc') \<and>
      os_journal svc' = os_journal svc @ es \<and> hz_snapshots h' = hz_snapshots h @ ds \<and> totals_of h' = totals_of (fold add_day ds h) \<and>
      sc_loadsServiced (hz_stats h') = sc_loadsServiced (hz_stats h) \<and>
      sc_loadsOffered (hz_stats h') - sc_loadsOffered (hz_stats h) = sc_loadsOffered sc' - sc_loadsOffered sc \<and>
      list_all2 (\<lambda>d e. MatchedLoads d = length (JeMatches e)) ds es \<and> map DayEpoch ds = map (\<lambda>i. ep + int i * step_seconds cfg) [0..<length ds]"
      using I t e n m c L en(1) by (intro exI [of _ sc'] exI [of _ "en # es"] exI [of _ "?d # ds"] conjI) simp_all
  qed
qed


section \<open>A run of one day\<close>

definition demo_horizon :: RollingHorizonConfig where
  "demo_horizon = \<lparr>RhRunID = ''R'', RhStartEpoch = 1, HorizonDays = 1, DecisionStepHours = 24, EnableRelays = False,
     MinRelayHaulMiles = 0, EnableVFALearning = True\<rparr>"

definition demo_learner :: PiecewiseVFALearner where
  "demo_learner = \<lparr>vl_table = demo_table, vl_ckg = None, vl_regionManager = NewRegionManager 1 [], vl_regionIndexMap = Map.empty,
     vl_config = DefaultVFALearningConfig, vl_epochCount = 0\<rparr>"

definition canon_day :: "53 Belief State" where
  "canon_day = canon_next\<lparr>st_information := (st_information canon_state)\<lparr>epoch := 86401\<rparr>\<rparr>"

lemma canon_day_advance: "advance_state demo_libm None canon_state NewEmptyAction 86401 [] = Some (Inr canon_day)"
  by (simp add: advance_state_def Transition_def NewEmptyAction_def next_belief_def Info_Transition_def
      NewInformationState_def NewState_def canon_day_def canon_next_def Let_def)
     (simp add: canon_state_def one_fl_def zero_fl_def)

lemma canon_day_hash: "\<exists>h. HashState canon_lib (Some canon_day) = Inr h"
proof -
  have "\<forall>x\<in>set (state_floats canon_day). is_fin x" by code_simp
  then show ?thesis by (simp add: HashState_Inr)
qed

lemma canon_day_epoch:
  "\<exists>prov s svc'. OptimizeEpoch demo_libm canon_lib (Some canon_state) (Some idle_policy) 86401 [] NewOptimizationService =
     Some (Inr (NewEmptyAction, prov, s), svc')"
proof -
  obtain enc h where e: "encode_inputs canon_lib canon_state NewEmptyAction = Inr enc" "HashState canon_lib (Some canon_day) = Inr h"
    using canon_encode canon_day_hash by blast
  have v: "ValidateFeasibility NewEmptyAction (Some (st_resource canon_state)) = Inr ()"
    by (simp add: ValidateFeasibility_def NewEmptyAction_def)
  have t: "ThetaParameters (NewDecisionProvenance ''IDLE'' (Some canon_state) []) = []" by (simp add: NewDecisionProvenance_def Let_def)
  have f: "os_filter NewOptimizationService = None" by (simp add: NewOptimizationService_def)
  have "\<exists>name s prov enc nh ph p n. OptimizeEpoch demo_libm canon_lib (Some canon_state) (Some idle_policy) 86401 [] NewOptimizationService =
      Some (commit NewOptimizationService NewEmptyAction p n (crypto_record NewOptimizationService name s NewEmptyAction prov enc nh ph))"
    using e v t f canon_day_advance by (simp add: OptimizeEpoch_def idle_policy_def param_hash_def Let_def) blast
  then show ?thesis using commit_accepts [OF service_inv_New] by metis
qed

lemma demo_learns:
  "\<exists>l. learn_step L demo_horizon (Some demo_learner) NewEmptyAction prov ds ls = Inr (Some l)"
  by (simp add: learn_step_def demo_horizon_def UpdateFromMatching_def matching_solution_def NewEmptyAction_def)

lemma demo_horizon_run:
  "\<exists>report s svc'. RollingHorizon_Run demo_libm canon_lib R (Some demo_learner) (\<lambda>_. False) demo_horizon (Some canon_state) (Some idle_policy) None
     NewOptimizationService = Some (Inr report, s, svc')"
proof -
  obtain prov s svc' where o: "OptimizeEpoch demo_libm canon_lib (Some canon_state) (Some idle_policy) 86401 [] NewOptimizationService =
     Some (Inr (NewEmptyAction, prov, s), svc')" using canon_day_epoch by blast
  obtain l where l: "learn_step demo_libm demo_horizon (Some demo_learner) NewEmptyAction prov (rs_drivers (st_resource canon_state))
      (rs_loads (st_resource canon_state)) = Inr (Some l)" using demo_learns by blast
  have r: "relay_step R demo_horizon 1 NewEmptyAction ds ls = Some (Inr None)" for ds ls by (simp add: relay_step_def demo_horizon_def)
  have e: "horizon_end demo_horizon = 86401" "step_seconds demo_horizon = 86400" "RhStartEpoch demo_horizon = 1"
    by (simp_all add: horizon_end_def step_seconds_def demo_horizon_def)
  have b: "horizon_loop L J R c demo_horizon p stream 86401 s h svc = Some (Inr h, s, svc)" for L J c p stream s h svc
    using horizon_loop.simps [of L J R c demo_horizon p stream 86401 s h svc] by (simp add: e)
  have "\<exists>h s svc'. horizon_loop demo_libm canon_lib R (\<lambda>_. False) demo_horizon idle_policy None 1 canon_state (horizon_init (Some demo_learner))
      NewOptimizationService = Some (Inr h, s, svc')"
    using horizon_loop_step [of 1 demo_horizon "\<lambda>_. False" demo_libm canon_lib canon_state idle_policy None NewOptimizationService
        NewEmptyAction prov s svc' "horizon_init (Some demo_learner)" "Some l" R None] o l r b
    by (simp add: e stream_loads_def horizon_init_def)
  moreover have "RollingHorizon_Validate demo_horizon = Inr ()" by (simp add: RollingHorizon_Validate_def demo_horizon_def)
  ultimately show ?thesis by (auto simp: RollingHorizon_Run_def e)
qed

lemma RollingHorizon_learning_inert_witness:
  "\<exists>report s svc'. RollingHorizon_Run demo_libm canon_lib (\<lambda>_ _ _ _ _. None) (Some demo_learner) (\<lambda>_. False) demo_horizon (Some canon_state)
      (Some idle_policy) None NewOptimizationService = Some (Inr report, s, svc') \<and>
    RollingHorizon_Run demo_libm canon_lib (\<lambda>_ _ _ _ _. None) None (\<lambda>_. False) (demo_horizon\<lparr>EnableVFALearning := False\<rparr>) (Some canon_state)
      (Some idle_policy) None NewOptimizationService = Some (Inr report, s, svc')"
  using demo_horizon_run [of "\<lambda>_ _ _ _ _. None"] RollingHorizon_learning_inert by blast


end
