(* ===== verification/Competitive.thy ===== *)
theory Competitive
  imports Policies
begin

text \<open>
  \<open>internal/domain/policy/competitive.go\<close>: a policy that adds spot bids to the matches of another one, at a rate
  and with a margin that depend on the belief. The masses of the aggressive and the passive states are summed in the
  order in which Go ranges over a map, which is a parameter: a function from the map to the list of its
  entries. The classifiers of the configuration are functions; keys are ASCII.
\<close>

section \<open>Configuration\<close>

record CompetitivePricingConfig =
  BaselineRatePerMile :: f64
  SurplusRatePerMile :: f64
  BaseMarginHurdle :: f64
  AggressiveRiskHurdle :: f64
  PassiveSurplusThreshold :: f64
  AggressiveStates :: "string list"
  PassiveStates :: "string list"
  AggressiveClassifier :: "(string \<Rightarrow> bool) option"
  PassiveClassifier :: "(string \<Rightarrow> bool) option"

definition DefaultCompetitivePricingConfig :: CompetitivePricingConfig where
  "DefaultCompetitivePricingConfig = \<lparr>BaselineRatePerMile = rnd (252 / 100), SurplusRatePerMile = rnd (292 / 100),
     BaseMarginHurdle = Fin 75, AggressiveRiskHurdle = Fin 125, PassiveSurplusThreshold = rnd (65 / 100),
     AggressiveStates = [], PassiveStates = [], AggressiveClassifier = None, PassiveClassifier = None\<rparr>"

definition Pricing_Validate :: "CompetitivePricingConfig \<Rightarrow> unit result" where
  "Pricing_Validate c =
     (if BaselineRatePerMile c \<le> 0 then Inl (ErrOther ''policy: baseline rate per mile must be positive'')
      else if SurplusRatePerMile c < BaselineRatePerMile c then Inl (ErrOther ''policy: surplus rate must be >= baseline rate'')
      else if BaseMarginHurdle c < 0 then Inl (ErrOther ''policy: base margin hurdle must be non-negative'')
      else if AggressiveRiskHurdle c < 0 then Inl (ErrOther ''policy: aggressive risk hurdle must be non-negative'')
      else if PassiveSurplusThreshold c \<le> 0 \<or> PassiveSurplusThreshold c > 1
        then Inl (ErrOther ''policy: passive surplus threshold must be in (0, 1]'')
      else Inr ())"

record CompetitivePOMDPPolicy =
  cp_name :: string
  cp_underlying :: "53 Belief State \<Rightarrow> decision option"
  cp_pricingCfg :: CompetitivePricingConfig

definition NewCompetitivePOMDPPolicy ::
  "(string \<times> (53 Belief State \<Rightarrow> decision option)) option \<Rightarrow> CompetitivePricingConfig \<Rightarrow> CompetitivePOMDPPolicy result" where
  "NewCompetitivePOMDPPolicy underlying cfg =
     (case underlying of None \<Rightarrow> Inl (ErrOther ''policy: underlying matching policy cannot be nil'') | Some (nm, evaluate) \<Rightarrow>
      case Pricing_Validate cfg of Inl e \<Rightarrow> Inl e | Inr _ \<Rightarrow>
        Inr \<lparr>cp_name = nm, cp_underlying = evaluate, cp_pricingCfg = cfg\<rparr>)"

definition Competitive_Name :: "CompetitivePOMDPPolicy \<Rightarrow> string" where
  "Competitive_Name p = ''CompetitivePOMDP_'' @ cp_name p"

section \<open>Market postures\<close>

fun contains_str :: "string \<Rightarrow> string \<Rightarrow> bool" where
  "contains_str [] sub = (sub = [])"
| "contains_str (c # cs) sub = (take (length sub) (c # cs) = sub \<or> contains_str cs sub)"

text \<open>The classification, alike for the two postures but for the words it looks for.\<close>

definition classify :: "(string \<Rightarrow> bool) option \<Rightarrow> string list \<Rightarrow> string list \<Rightarrow> string \<Rightarrow> bool" where
  "classify classifier states patterns key =
     (if key = MonopolisticSingletonKey then False
      else case classifier of Some f \<Rightarrow> f key | None \<Rightarrow>
        if length states > 0 then key \<in> set states
        else list_ex (contains_str (ToUpper key)) patterns)"

definition isAggressive :: "CompetitivePricingConfig \<Rightarrow> string \<Rightarrow> bool" where
  "isAggressive c = classify (AggressiveClassifier c) (AggressiveStates c) [''AGGRESSIVE'', ''AGG'', ''TIGHT'', ''HIGH_CAPACITY'']"

definition isPassive :: "CompetitivePricingConfig \<Rightarrow> string \<Rightarrow> bool" where
  "isPassive c = classify (PassiveClassifier c) (PassiveStates c) [''PASSIVE'', ''PAS'', ''LOOSE'', ''DEFENSIVE'', ''SURPLUS'']"

definition posture_step :: "CompetitivePricingConfig \<Rightarrow> string \<times> f64 \<Rightarrow> f64 \<times> f64 \<Rightarrow> f64 \<times> f64" where
  "posture_step c = (\<lambda>(stateKey, prob) (agg, pas).
     (if isAggressive c stateKey then agg + prob else agg, if isPassive c stateKey then pas + prob else pas))"

definition computeMarketPostures ::
  "((string \<rightharpoonup> f64) \<Rightarrow> (string \<times> f64) list) \<Rightarrow> CompetitivePricingConfig \<Rightarrow> 53 Belief \<Rightarrow> f64 \<times> f64" where
  "computeMarketPostures range_of c belief =
     (if CompetitorDimension (bl_scale belief) = 0 then (0, 0)
      else fold (posture_step c) (range_of (Distribution belief)) (0, 0))"

section \<open>Bids\<close>

definition min_hurdle :: "CompetitivePricingConfig \<Rightarrow> f64 \<Rightarrow> f64" where
  "min_hurdle c aggressiveProb = BaseMarginHurdle c + AggressiveRiskHurdle c * aggressiveProb"

definition target_rate :: "CompetitivePricingConfig \<Rightarrow> f64 \<Rightarrow> f64" where
  "target_rate c passiveProb = (if passiveProb \<ge> PassiveSurplusThreshold c then SurplusRatePerMile c else BaselineRatePerMile c)"

definition cost_by_load :: "53 CandidateEvaluation list \<Rightarrow> string \<Rightarrow> f64" where
  "cost_by_load evals l =
     (case fold (\<lambda>ev m. if IsAssigned ev then m(EvLoadID ev \<mapsto> TcTotalCost (CostBreakdown ev)) else m) evals Map.empty l of
        None \<Rightarrow> 0 | Some c \<Rightarrow> c)"

definition cost_floor :: "53 CandidateEvaluation list \<Rightarrow> f64 \<Rightarrow> string \<Rightarrow> f64" where
  "cost_floor evals hurdle l = cost_by_load evals l + hurdle"

definition bid_price :: "libm \<Rightarrow> f64 \<Rightarrow> f64 \<Rightarrow> Load \<Rightarrow> f64" where
  "bid_price L rate costFloor load =
     (let bidPrice = DistanceMiles L (Origin load) (Destination load) * rate in if bidPrice < costFloor then costFloor else bidPrice)"

fun spot_bids ::
  "libm \<Rightarrow> f64 \<Rightarrow> (string \<Rightarrow> f64) \<Rightarrow> ResourceState \<Rightarrow> DriverLoadMatch list \<Rightarrow> SpotPriceBid list result" where
  "spot_bids L rate floors rs [] = Inr []"
| "spot_bids L rate floors rs (m # ms) =
     (case GetLoad rs (MLoadID m) of None \<Rightarrow> Inl (ErrOther ''policy: matched load not found in resource state'')
      | Some load \<Rightarrow>
          (case spot_bids L rate floors rs ms of Inl e \<Rightarrow> Inl e
           | Inr bs \<Rightarrow> Inr (\<lparr>BidLoadID = MLoadID m, BidPrice = bid_price L rate (floors (MLoadID m)) load\<rparr> # bs)))"

text \<open>The provenance: name, pricing variables, counts and belief.\<close>

definition competitive_prov ::
  "CompetitivePOMDPPolicy \<Rightarrow> 53 Belief State \<Rightarrow> f64 \<Rightarrow> f64 \<Rightarrow> f64 \<Rightarrow> f64 \<Rightarrow> nat \<Rightarrow> DecisionProvenance \<Rightarrow> DecisionProvenance" where
  "competitive_prov p s hurdle rate agg pas n prov =
     prov\<lparr>PolicyName := Competitive_Name p,
       PricingVariables := Some ((case PricingVariables prov of None \<Rightarrow> Map.empty | Some m \<Rightarrow> m)
         (''min_hurdle'' \<mapsto> hurdle, ''target_rate_per_mile'' \<mapsto> rate, ''aggressive_prob'' \<mapsto> agg, ''passive_prob'' \<mapsto> pas,
          ''spot_bids_count'' \<mapsto> of_int_fl (int n))),
       DriverCount := length (rs_drivers (st_resource s)), LoadCount := length (rs_loads (st_resource s)),
       ProvCompetitorDimension := CompetitorDimension (bl_scale (st_belief s)),
       ActiveBelief := Some (Distribution (st_belief s))\<rparr>"

definition Competitive_Evaluate ::
  "libm \<Rightarrow> ((string \<rightharpoonup> f64) \<Rightarrow> (string \<times> f64) list) \<Rightarrow> CompetitivePOMDPPolicy \<Rightarrow> 53 Belief State option \<Rightarrow> decision option" where
  "Competitive_Evaluate L range_of p state =
     (case state of None \<Rightarrow> Some (Inl (ErrOther ''policy: cannot evaluate nil state'')) | Some s \<Rightarrow>
      case cp_underlying p s of None \<Rightarrow> None | Some (Inl e) \<Rightarrow> Some (Inl e) | Some (Inr (baseAction, prov)) \<Rightarrow>
      (case computeMarketPostures range_of (cp_pricingCfg p) (st_belief s) of (agg, pas) \<Rightarrow>
       let hurdle = min_hurdle (cp_pricingCfg p) agg; rate = target_rate (cp_pricingCfg p) pas;
           matches = act_matches baseAction in
       (case spot_bids L rate (cost_floor (EvaluatedArcs prov) hurdle) (st_resource s) matches of
          Inl e \<Rightarrow> Some (Inl e)
        | Inr bs \<Rightarrow> Some (Inr (NewAction matches bs, competitive_prov p s hurdle rate agg pas (length bs) prov)))))"

section \<open>What the bids guarantee\<close>

lemma spot_bids_spec:
  assumes "spot_bids L rate floors rs ms = Inr bs"
  shows "map BidLoadID bs = map MLoadID ms \<and>
    (\<forall>b\<in>set bs. \<exists>l. GetLoad rs (BidLoadID b) = Some l \<and> BidPrice b = bid_price L rate (floors (BidLoadID b)) l)"
  using assms
proof (induction ms arbitrary: bs)
  case (Cons m ms)
  then show ?case by (cases "spot_bids L rate floors rs ms"; cases "GetLoad rs (MLoadID m)") auto
qed simp

lemma bid_price_cases: "bid_price L rate f l \<in> {f, DistanceMiles L (Origin l) (Destination l) * rate}"
  by (simp add: bid_price_def Let_def)

lemma bid_price_floor: "\<not> bid_price L rate f l < f"
proof -
  have "\<not> f < f" by (cases f) simp_all
  then show ?thesis by (simp add: bid_price_def Let_def)
qed

lemma bid_price_positive:
  assumes "0 < f"
  shows "\<not> bid_price L rate f l \<le> 0"
proof -
  have "\<not> x < f \<Longrightarrow> \<not> x \<le> 0" for x using assms by (cases x; cases f) (auto simp: zero_fl_def less_eq_fl_def)
  then show ?thesis using bid_price_floor by blast
qed

text \<open>
  Property C37. A decision keeps the matches of the policy beneath and adds exactly one bid for the load of every match. No bid lies
  below its floor, the cost of the trip and the margin the belief asks for, and every bid is the floor or the
  distance at the rate the belief allows. If the floors are positive, an action that was feasible stays
  feasible with its bids.
\<close>

theorem Competitive_Evaluate_bids:
  assumes "Competitive_Evaluate L range_of p (Some s) = Some (Inr (action, prov))"
  defines "post \<equiv> computeMarketPostures range_of (cp_pricingCfg p) (st_belief s)"
  shows "\<exists>base prov0. cp_underlying p s = Some (Inr (base, prov0)) \<and>
    mset (act_matches action) = mset (act_matches base) \<and>
    mset (map BidLoadID (act_bids action)) = mset (map MLoadID (act_matches base)) \<and>
    (let flr = cost_floor (EvaluatedArcs prov0) (min_hurdle (cp_pricingCfg p) (fst post)) in
      (\<forall>b\<in>set (act_bids action). \<exists>l. GetLoad (st_resource s) (BidLoadID b) = Some l \<and> \<not> BidPrice b < flr (BidLoadID b) \<and>
        BidPrice b \<in> {flr (BidLoadID b), DistanceMiles L (Origin l) (Destination l) * target_rate (cp_pricingCfg p) (snd post)}) \<and>
      (ValidateFeasibility base (Some (st_resource s)) = Inr () \<and> (\<forall>m\<in>set (act_matches base). 0 < flr (MLoadID m)) \<longrightarrow>
        ValidateFeasibility action (Some (st_resource s)) = Inr ()))"
proof -
  obtain agg pas where post: "post = (agg, pas)" by fastforce
  let ?c = "cp_pricingCfg p"
  from assms(1) post obtain base prov0 bs where
    u: "cp_underlying p s = Some (Inr (base, prov0))"
    and b: "spot_bids L (target_rate ?c pas) (cost_floor (EvaluatedArcs prov0) (min_hurdle ?c agg)) (st_resource s) (act_matches base) = Inr bs"
    and a: "action = NewAction (act_matches base) bs"
    unfolding post_def by (auto simp: Competitive_Evaluate_def Let_def split: option.splits sum.splits prod.splits)
  define flr where "flr = cost_floor (EvaluatedArcs prov0) (min_hurdle ?c agg)"
  note S = spot_bids_spec [OF b, folded flr_def]
  have m: "mset (act_matches action) = mset (act_matches base)" "mset (act_bids action) = mset bs"
    unfolding a by (simp_all add: NewAction_def)
  then have sets: "set (act_bids action) = set bs" "set (act_matches action) = set (act_matches base)" by (metis set_mset_mset)+
  have ids: "mset (map BidLoadID (act_bids action)) = mset (map MLoadID (act_matches base))" using m(2) S by (metis mset_map)
  have f: "ValidateFeasibility action (Some (st_resource s)) = Inr ()"
    if ok: "ValidateFeasibility base (Some (st_resource s)) = Inr ()" and pos: "\<forall>m\<in>set (act_matches base). 0 < flr (MLoadID m)"
  proof -
    have "distinct (map MDriverID (act_matches base))" "distinct (map MLoadID (act_matches base))"
      using ok unfolding ValidateFeasibility_split validate_matches_iff by blast+
    then have "distinct (map MDriverID (act_matches action))" "distinct (map MLoadID (act_matches action))"
      "distinct (map BidLoadID (act_bids action))" using m(1) ids by (metis mset_map mset_eq_imp_distinct_iff)+
    moreover have "\<not> BidPrice b \<le> 0 \<and> GetLoad (st_resource s) (BidLoadID b) \<noteq> None" if b: "b \<in> set bs" for b
    proof -
      have "BidLoadID b \<in> set (map MLoadID (act_matches base))" using S b by (metis image_eqI list.set_map)
      then have "0 < flr (BidLoadID b)" using pos by auto
      then show ?thesis using S b bid_price_positive by (metis option.distinct(1))
    qed
    ultimately show ?thesis
      using ok unfolding ValidateFeasibility_split validate_matches_iff validate_bids_iff sets by simp
  qed
  have B: "\<forall>b\<in>set (act_bids action). \<exists>l. GetLoad (st_resource s) (BidLoadID b) = Some l \<and> \<not> BidPrice b < flr (BidLoadID b) \<and>
      BidPrice b \<in> {flr (BidLoadID b), DistanceMiles L (Origin l) (Destination l) * target_rate ?c pas}"
    using S bid_price_floor bid_price_cases unfolding sets by metis
  show ?thesis
    unfolding post Let_def fst_conv snd_conv
    by (rule exI [of _ base], rule exI [of _ prov0], fold flr_def, intro conjI u m(1) ids B impI) (elim conjE, rule f)
qed

definition demo_pricing :: CompetitivePOMDPPolicy where
  "demo_pricing = \<lparr>cp_name = ''BASE'',
     cp_underlying = (\<lambda>s. Some (Inr (NewAction [demo_match ''D2'' ''L1''] [], NewDecisionProvenance ''BASE'' (Some s) []))),
     cp_pricingCfg = DefaultCompetitivePricingConfig\<rparr>"

definition demo_priced_state :: "53 Belief State" where
  "demo_priced_state = \<lparr>st_resource = demo_rs demo_A demo_B,
     st_information = \<lparr>epoch = 7, fuelPriceIndex = 1, nationalSpotRateIndex = 1, weatherAlertCount = 0\<rparr>,
     st_belief = NewMonopolisticBelief\<rparr>"

lemma Competitive_Evaluate_bids_witness:
  "\<exists>action prov. Competitive_Evaluate demo_libm (\<lambda>_. []) demo_pricing (Some demo_priced_state) = Some (Inr (action, prov)) \<and>
    map BidLoadID (act_bids action) = [''L1'']"
proof -
  have "validate_matches (demo_rs demo_A demo_B) {} {} [demo_match ''D2'' ''L1''] = Inr ()" by (rule demo_valid)
  then have "GetLoad (demo_rs demo_A demo_B) ''L1'' \<noteq> None" unfolding validate_matches_iff by (simp add: demo_match_def)
  then obtain action prov where r: "Competitive_Evaluate demo_libm (\<lambda>_. []) demo_pricing (Some demo_priced_state) = Some (Inr (action, prov))"
    by (simp add: Competitive_Evaluate_def demo_pricing_def demo_priced_state_def NewAction_def sort_slice_def demo_match_def Let_def
        computeMarketPostures_def NewMonopolisticBelief_def)
  from Competitive_Evaluate_bids [OF r] have "mset (map BidLoadID (act_bids action)) = {#''L1''#}"
    by (auto simp: demo_pricing_def NewAction_def demo_match_def sort_slice_def)
  then show ?thesis using r by (metis mset_eq_setD mset_single_iff_right mset.simps)
qed

section \<open>The rate depends on the order of a map\<close>

definition is_range :: "(string \<rightharpoonup> f64) \<Rightarrow> (string \<times> f64) list \<Rightarrow> bool" where
  "is_range m xs \<longleftrightarrow> map_of xs = m \<and> distinct (map fst xs)"

definition demo_market :: "53 Belief" where
  "demo_market = \<lparr>bl_scale = MultiCompetitor 3, bl_keys = [''NEUTRAL'', ''PASSIVE_A'', ''PASSIVE_B'', ''PASSIVE_C''],
     bl_probs = [rnd (35 / 100), rnd (1 / 10), rnd (25 / 100), rnd (3 / 10)],
     bl_index = [''NEUTRAL'' \<mapsto> 0, ''PASSIVE_A'' \<mapsto> 1, ''PASSIVE_B'' \<mapsto> 2, ''PASSIVE_C'' \<mapsto> 3]\<rparr>"

definition market_order :: "nat list \<Rightarrow> (string \<times> f64) list" where
  "market_order = map (\<lambda>i. (bl_keys demo_market ! i, bl_probs demo_market ! i))"

text \<open>
  With the default configuration and a valid belief, the order in which Go happens to range over the distribution
  decides the rate of every bid: the passive masses 0.1, 0.25 and 0.3 reach the threshold 0.65 in one order and
  miss it in another.
\<close>

theorem competitive_rate_order:
  "Belief_Validate demo_market = Inr () \<and>
   is_range (Distribution demo_market) (market_order [0, 1, 2, 3]) \<and> is_range (Distribution demo_market) (market_order [0, 1, 3, 2]) \<and>
   target_rate DefaultCompetitivePricingConfig
     (snd (computeMarketPostures (\<lambda>_. market_order [0, 1, 2, 3]) DefaultCompetitivePricingConfig demo_market)) = rnd (252 / 100) \<and>
   target_rate DefaultCompetitivePricingConfig
     (snd (computeMarketPostures (\<lambda>_. market_order [0, 1, 3, 2]) DefaultCompetitivePricingConfig demo_market)) = rnd (292 / 100)"
proof (intro conjI)
  have probs: "bl_probs demo_market = [Fin (3152519739159347 / 9007199254740992), Fin (3602879701896397 / 36028797018963968), Fin (1 / 4), Fin (5404319552844595 / 18014398509481984)]" by code_simp
  have "simplex_elements [Fin (3152519739159347 / 9007199254740992), Fin (3602879701896397 / 36028797018963968), Fin (1 / 4), Fin (5404319552844595 / 18014398509481984) :: f64] = Inr ()" 
  proof -
    have "(rnd (- (1 / 1000000000000000)) :: f64) < 0" by code_simp
    then have "\<not> Fin q < (rnd (- (1 / 1000000000000000)) :: f64)" if "0 \<le> q" for q
      using that by (cases "rnd (- (1 / 1000000000000000)) :: f64") (auto simp: zero_fl_def)
    then show ?thesis by simp
  qed
  moreover have "CompensatedSum [Fin (3152519739159347 / 9007199254740992), Fin (3602879701896397 / 36028797018963968), Fin (1 / 4), Fin (5404319552844595 / 18014398509481984)] = (1 :: f64)"
  proof -
    have "sum_step (Fin (3152519739159347/9007199254740992)) (0, 0) = (Fin (3152519739159347/9007199254740992), Fin 0 :: f64)" by code_simp
    moreover have "sum_step (Fin (3602879701896397/36028797018963968)) (Fin (3152519739159347/9007199254740992), Fin 0) =
      (Fin (2026619832316723/4503599627370496), Fin (1/36028797018963968) :: f64)" by code_simp
    moreover have "sum_step (Fin (1/4)) (Fin (2026619832316723/4503599627370496), Fin (1/36028797018963968)) =
      (Fin (3152519739159347/4503599627370496), Fin (1/36028797018963968) :: f64)" by code_simp
    moreover have "sum_step (Fin (5404319552844595/18014398509481984)) (Fin (3152519739159347/4503599627370496), Fin (1/36028797018963968)) =
      (Fin 1, Fin (- (1/36028797018963968)) :: f64)" by code_simp
    moreover have "Fin 1 + Fin (- (1/36028797018963968)) = (1 :: f64)" by code_simp
    ultimately show ?thesis by (simp add: CompensatedSum_def)
  qed
  moreover have "\<bar>1 - 1\<bar> = (0 :: f64)" "\<not> DefaultSimplexTolerance < (0 :: f64)" by code_simp+
  ultimately show "Belief_Validate demo_market = Inr ()" by (simp add: Belief_Validate_def ValidateSimplex_def Let_def probs)
  show "is_range (Distribution demo_market) (market_order [0, 1, 2, 3])" "is_range (Distribution demo_market) (market_order [0, 1, 3, 2])"
    by (simp_all add: is_range_def Distribution_def market_order_def demo_market_def) (auto simp: fun_eq_iff)
  have keys: "isPassive DefaultCompetitivePricingConfig ''NEUTRAL'' = False" "isPassive DefaultCompetitivePricingConfig ''PASSIVE_A'' = True"
    "isPassive DefaultCompetitivePricingConfig ''PASSIVE_B'' = True" "isPassive DefaultCompetitivePricingConfig ''PASSIVE_C'' = True"
    by code_simp+
  have post: "snd (fold (posture_step c) xs (a, b)) = fold (\<lambda>(k, p) s. if isPassive c k then s + p else s) xs b" for c xs a b
    by (induction xs arbitrary: a b) (auto simp: posture_step_def)
  have dim: "CompetitorDimension (bl_scale demo_market) = 3" by (simp add: demo_market_def)
  have bl_keys: "bl_keys demo_market = [''NEUTRAL'', ''PASSIVE_A'', ''PASSIVE_B'', ''PASSIVE_C'']" by (simp add: demo_market_def)
  have cm: "snd (computeMarketPostures (\<lambda>_. xs) c demo_market) = fold (\<lambda>(k, p) s. if isPassive c k then s + p else s) xs 0" for xs c
    unfolding computeMarketPostures_def dim using post by simp
  have ab: "target_rate DefaultCompetitivePricingConfig x =
      (if PassiveSurplusThreshold DefaultCompetitivePricingConfig \<le> x then rnd (292 / 100) else rnd (252 / 100))" for x
    by (simp add: target_rate_def) (simp add: DefaultCompetitivePricingConfig_def)
  show "target_rate DefaultCompetitivePricingConfig
     (snd (computeMarketPostures (\<lambda>_. market_order [0, 1, 2, 3]) DefaultCompetitivePricingConfig demo_market)) = rnd (252 / 100)"
  proof -
    have "\<not> PassiveSurplusThreshold DefaultCompetitivePricingConfig \<le> 0 + Fin (3602879701896397 / 36028797018963968) + Fin (1 / 4) + Fin (5404319552844595 / 18014398509481984)" by code_simp
    then show ?thesis unfolding cm ab by (simp add: market_order_def keys probs bl_keys)
  qed
  show "target_rate DefaultCompetitivePricingConfig
     (snd (computeMarketPostures (\<lambda>_. market_order [0, 1, 3, 2]) DefaultCompetitivePricingConfig demo_market)) = rnd (292 / 100)"
  proof -
    have "PassiveSurplusThreshold DefaultCompetitivePricingConfig \<le> 0 + Fin (3602879701896397 / 36028797018963968) + Fin (5404319552844595 / 18014398509481984) + Fin (1 / 4)" by code_simp
    then show ?thesis unfolding cm ab by (simp add: market_order_def keys probs bl_keys)
  qed
qed

end
