(* ===== verification/Reposition.thy ===== *)
theory Reposition
  imports Resource Region
begin

text \<open>
  \<open>internal/domain/policy/reposition\<close>: supply and demand by region, and the empty moves of unassigned drivers from
  regions with too many drivers to regions with too few. Go ranges over the balances in any order, and
  \<open>sort.Slice\<close> keeps none among equal prices: the order is a parameter, a function from the map to the list of
  its keys.
\<close>

section \<open>Data and configuration (\<open>types.go\<close>)\<close>

record RegionalBalanceSnapshot =
  SnapRegionID :: string
  AvailableDrivers :: int
  OutboundTenders :: int
  Deficit :: int
  ShadowPrice :: f64
  InboundFlow :: int
  AverageYieldPerTruck :: f64

record RepositioningMove =
  RmDriverID :: string
  OriginLocation :: Location
  TargetRegionID :: string
  TargetLocation :: Location
  RmStartEpoch :: int
  ArrivalEpoch :: int
  RmDeadheadMiles :: f64
  EstimatedCost :: f64
  ExpectedArbitrageYield :: f64
  NetRepositioningValue :: f64

record RepositioningConfig =
  MaxRepositionDistanceMiles :: f64
  EmptyMileCostRate :: f64
  MinArbitrageThreshold :: f64
  DeficitHurdle :: int
  AverageTransitSpeedMPH :: f64
  DefaultRegionalYield :: "(string \<times> f64) list"

definition DefaultRepositioningConfig :: RepositioningConfig where
  "DefaultRepositioningConfig = \<lparr>MaxRepositionDistanceMiles = Fin 450, EmptyMileCostRate = rnd (185 / 100),
     MinArbitrageThreshold = Fin 150, DeficitHurdle = 1, AverageTransitSpeedMPH = Fin 50,
     DefaultRegionalYield = [(''CHI'', Fin 1800), (''ATL'', Fin 1650), (''DAL'', Fin 1900), (''CLT'', Fin 1550), (''IND'', Fin 1700),
       (''KC'', Fin 1750), (''MIA'', Fin 900)]\<rparr>"

definition Reposition_Validate :: "RepositioningConfig \<Rightarrow> unit result" where
  "Reposition_Validate cfg =
     (if MaxRepositionDistanceMiles cfg \<le> 0 then Inl ErrInvalidConfig
      else if EmptyMileCostRate cfg \<le> 0 then Inl ErrInvalidConfig
      else if AverageTransitSpeedMPH cfg \<le> 0 then Inl ErrInvalidConfig
      else Inr ())"

section \<open>Balances (\<open>balance.go\<close>)\<close>

type_synonym balances = "string \<rightharpoonup> RegionalBalanceSnapshot"

definition count_region :: "string list \<Rightarrow> string \<Rightarrow> int" where
  "count_region regions r = int (length (filter (\<lambda>x. x = r \<and> x \<noteq> '''') regions))"

definition base_yield :: "(string \<times> f64) list \<Rightarrow> string \<Rightarrow> f64" where
  "base_yield yields r = (case map_of yields r of Some y \<Rightarrow> if y > 0 then y else Fin 1500 | None \<Rightarrow> Fin 1500)"

definition shadow_price :: "f64 \<Rightarrow> int \<Rightarrow> int \<Rightarrow> f64" where
  "shadow_price baseYield avail outbound =
     (if outbound > avail then
        (let shortageRatio = of_int_fl (outbound - avail) / of_int_fl (max 1 outbound) in
         baseYield * (1 + rnd (35 / 100) * shortageRatio))
      else if avail > outbound then
        (let surplusRatio = of_int_fl (avail - outbound) / of_int_fl (max 1 avail);
             decay = 1 - rnd (40 / 100) * surplusRatio;
             decay = (if decay < rnd (20 / 100) then rnd (20 / 100) else decay) in
         baseYield * decay)
      else baseYield)"

definition balance_snapshot :: "(string \<times> f64) list \<Rightarrow> string list \<Rightarrow> string list \<Rightarrow> string list \<Rightarrow> string \<Rightarrow> RegionalBalanceSnapshot" where
  "balance_snapshot yields driverRegs origRegs destRegs r =
     (let avail = count_region driverRegs r; outbound = count_region origRegs r; baseYield = base_yield yields r in
      \<lparr>SnapRegionID = r, AvailableDrivers = avail, OutboundTenders = outbound, Deficit = avail - outbound,
       ShadowPrice = shadow_price baseYield avail outbound, InboundFlow = count_region destRegs r, AverageYieldPerTruck = baseYield\<rparr>)"

definition ComputeBalance ::
  "ResourceState option \<Rightarrow> RegionManager option \<Rightarrow> (string \<times> f64) list \<Rightarrow> balances" where
  "ComputeBalance resource rm yields =
     (case resource of None \<Rightarrow> Map.empty | Some res \<Rightarrow> case rm of None \<Rightarrow> Map.empty | Some mgr \<Rightarrow>
      let driverRegs = map (GetRegionID mgr \<circ> CurrentLocation) (rs_drivers res);
          origRegs = map (GetRegionID mgr \<circ> Origin) (rs_loads res);
          destRegs = map (GetRegionID mgr \<circ> Destination) (rs_loads res) in
      (\<lambda>r. if r \<in> set (filter (\<lambda>x. x \<noteq> '''') (driverRegs @ origRegs @ destRegs) @ map fst yields)
           then Some (balance_snapshot yields driverRegs origRegs destRegs r) else None))"

text \<open>\<open>balances[r]\<close>, with the zero value for a missing key.\<close>

definition deficit_at :: "balances \<Rightarrow> string \<Rightarrow> int" where
  "deficit_at b r = (case b r of None \<Rightarrow> 0 | Some s \<Rightarrow> Deficit s)"

definition price_at :: "balances \<Rightarrow> string \<Rightarrow> f64" where
  "price_at b r = (case b r of None \<Rightarrow> 0 | Some s \<Rightarrow> ShadowPrice s)"

definition GetDeficitRegions :: "(balances \<Rightarrow> string list) \<Rightarrow> balances \<Rightarrow> int \<Rightarrow> string list" where
  "GetDeficitRegions range_of b hurdle =
     sort_slice (\<lambda>x y. deficit_at b x > deficit_at b y) (filter (\<lambda>r. deficit_at b r \<ge> hurdle) (range_of b))"

definition GetSurplusRegions :: "(balances \<Rightarrow> string list) \<Rightarrow> balances \<Rightarrow> string list" where
  "GetSurplusRegions range_of b =
     sort_slice (\<lambda>x y. price_at b x > price_at b y) (filter (\<lambda>r. deficit_at b r < 0) (range_of b))"

section \<open>Moves (\<open>synthesizer.go\<close>)\<close>

text \<open>The target of a region: the origin of its loads, the first with a node ID, else the last.\<close>

definition target_locs :: "RegionManager \<Rightarrow> balances \<Rightarrow> Load list \<Rightarrow> string \<rightharpoonup> Location" where
  "target_locs mgr b loads = fold (\<lambda>l m.
     let regID = GetRegionID mgr (Origin l) in
     if deficit_at b regID < 0 \<and> (case m regID of None \<Rightarrow> True | Some loc \<Rightarrow> NodeID loc = '''')
     then m(regID \<mapsto> Origin l) else m) loads Map.empty"

definition target_of :: "RegionManager \<Rightarrow> (string \<rightharpoonup> Location) \<Rightarrow> string \<Rightarrow> Location" where
  "target_of mgr targets r =
     (case targets r of Some loc \<Rightarrow> loc
      | None \<Rightarrow> (case GetRegion mgr r of
          Some reg \<Rightarrow> if \<not> feq (Lat (Centroid reg)) 0 \<or> \<not> feq (Lon (Centroid reg)) 0 then Centroid reg
                      else \<lparr>NodeID = r, Lat = 0, Lon = 0\<rparr>
        | None \<Rightarrow> \<lparr>NodeID = r, Lat = 0, Lon = 0\<rparr>))"

text \<open>The move of a driver to a region, where the distance and the remaining hours allow it.\<close>

definition move_to ::
  "libm \<Rightarrow> RepositioningConfig \<Rightarrow> balances \<Rightarrow> (string \<Rightarrow> Location) \<Rightarrow> Driver \<Rightarrow> string \<Rightarrow> string \<Rightarrow> RepositioningMove option" where
  "move_to L cfg b target driver currentReg targetReg =
     (if targetReg = currentReg then None
      else let targetLoc = target targetReg; dist = DistanceMiles L (CurrentLocation driver) targetLoc in
      if dist \<le> 0 \<or> dist > MaxRepositionDistanceMiles cfg then None
      else let transitHours = dist / AverageTransitSpeedMPH cfg in
      if transitHours > DriveHoursRemaining driver \<or> transitHours > DutyHoursRemaining driver then None
      else let deadheadCost = dist * EmptyMileCostRate cfg; targetYield = price_at b targetReg in
        Some \<lparr>RmDriverID = DrvID driver, OriginLocation = CurrentLocation driver, TargetRegionID = targetReg,
          TargetLocation = targetLoc, RmStartEpoch = AvailableEpoch driver,
          ArrivalEpoch = AvailableEpoch driver + to_int (transitHours * Fin 3600), RmDeadheadMiles = dist,
          EstimatedCost = deadheadCost, ExpectedArbitrageYield = targetYield,
          NetRepositioningValue = targetYield - deadheadCost - price_at b currentReg\<rparr>)"

definition better_move :: "RepositioningConfig \<Rightarrow> RepositioningMove option \<Rightarrow> RepositioningMove option \<Rightarrow> RepositioningMove option" where
  "better_move cfg move best =
     (case move of None \<Rightarrow> best | Some m \<Rightarrow>
      let net = NetRepositioningValue m; bestNet = (case best of None \<Rightarrow> Fin (- 1000000000) | Some m' \<Rightarrow> NetRepositioningValue m') in
      if net \<ge> MinArbitrageThreshold cfg \<and> net > bestNet then Some m else best)"

definition driver_move ::
  "libm \<Rightarrow> RepositioningConfig \<Rightarrow> RegionManager \<Rightarrow> balances \<Rightarrow> (string \<Rightarrow> Location) \<Rightarrow> string list \<Rightarrow> Driver \<Rightarrow> RepositioningMove option" where
  "driver_move L cfg mgr b target surplus driver =
     (let currentReg = GetRegionID mgr (CurrentLocation driver) in
      if b currentReg = None \<or> deficit_at b currentReg < DeficitHurdle cfg then None
      else fold (\<lambda>r best. better_move cfg (move_to L cfg b target driver currentReg r) best) surplus None)"

text \<open>The loop over the drivers; the context is asked before each.\<close>

fun driver_moves :: "(nat \<Rightarrow> bool) \<Rightarrow> (Driver \<Rightarrow> RepositioningMove option) \<Rightarrow> nat \<Rightarrow> Driver list \<Rightarrow> RepositioningMove list result" where
  "driver_moves ctxDone f i [] = Inr []"
| "driver_moves ctxDone f i (d # ds) =
     (if ctxDone i then Inl (ErrOther ''context canceled'')
      else case driver_moves ctxDone f (Suc i) ds of Inl e \<Rightarrow> Inl e
        | Inr ms \<Rightarrow> Inr (case f d of None \<Rightarrow> ms | Some m \<Rightarrow> m # ms))"

definition move_less :: "RepositioningMove \<Rightarrow> RepositioningMove \<Rightarrow> bool" where
  "move_less a b = (if RmDriverID a = RmDriverID b then TargetRegionID a < TargetRegionID b else RmDriverID a < RmDriverID b)"

definition SynthesizeRepositioningMoves ::
  "libm \<Rightarrow> (nat \<Rightarrow> bool) \<Rightarrow> (balances \<Rightarrow> string list) \<Rightarrow> ResourceState option \<Rightarrow> RegionManager option \<Rightarrow> Driver list \<Rightarrow>
    RepositioningConfig \<Rightarrow> RepositioningMove list result" where
  "SynthesizeRepositioningMoves L ctxDone range_of resource rm unassigned cfg =
     (case Reposition_Validate cfg of Inl e \<Rightarrow> Inl e | Inr _ \<Rightarrow>
      case resource of None \<Rightarrow> Inr [] | Some res \<Rightarrow> case rm of None \<Rightarrow> Inr [] | Some mgr \<Rightarrow>
      if unassigned = [] then Inr []
      else let b = ComputeBalance resource rm (DefaultRegionalYield cfg); surplus = GetSurplusRegions range_of b in
      if surplus = [] then Inr []
      else let targets = target_locs mgr b (rs_loads res) in
        case driver_moves ctxDone (driver_move L cfg mgr b (target_of mgr targets) surplus) 0 unassigned of
          Inl e \<Rightarrow> Inl e | Inr ms \<Rightarrow> Inr (sort_slice move_less ms))"

section \<open>The moves are sound and best\<close>

lemma driver_moves_map:
  "driver_moves ctxDone f i ds = Inr ms \<Longrightarrow> ms = List.map_filter f ds"
  by (induction ds arbitrary: i ms) (auto simp: map_filter_simps split: if_splits sum.splits option.splits)

lemma le_fl_number: "x \<le> y \<Longrightarrow> \<not> is_nan y" for x y :: "'p::len0 fl"
  by (cases x; cases y) (auto simp: less_eq_fl_def)

lemma less_fl_weak:
  fixes x y z :: "'p::len0 fl"
  assumes "z < x" and "\<not> y < x" and "\<not> is_nan y"
  shows "z < y"
  using assms by (cases x; cases y; cases z) auto

text \<open>The best of a list of moves: one of them, over the threshold, and not below any other that is.\<close>

definition worthwhile :: "RepositioningConfig \<Rightarrow> RepositioningMove \<Rightarrow> bool" where
  "worthwhile cfg m \<longleftrightarrow> NetRepositioningValue m \<ge> MinArbitrageThreshold cfg"

lemma best_move_spec:
  fixes cfg f
  defines "better \<equiv> \<lambda>r best. better_move cfg (f r) best"
  assumes "\<And>m. best = Some m \<Longrightarrow> worthwhile cfg m \<and> NetRepositioningValue m > Fin (- 1000000000)"
    and "fold better rs best = Some m"
  shows "(best = Some m \<or> (\<exists>r\<in>set rs. f r = Some m)) \<and> worthwhile cfg m \<and> NetRepositioningValue m > Fin (- 1000000000) \<and>
    (\<forall>m'. best = Some m' \<or> (\<exists>r\<in>set rs. f r = Some m' \<and> worthwhile cfg m') \<longrightarrow> \<not> NetRepositioningValue m' > NetRepositioningValue m)"
  using assms(2,3)
proof (induction rs arbitrary: best)
  case Nil
  then show ?case by simp
next
  case (Cons r rs)
  let ?b = "better r best"
  let ?net = "case best of None \<Rightarrow> Fin (- 1000000000) | Some m' \<Rightarrow> NetRepositioningValue m'"
  have keep: "(?b = best \<and> (\<forall>m. f r = Some m \<and> worthwhile cfg m \<longrightarrow> \<not> NetRepositioningValue m > ?net)) \<or>
      (\<exists>m. f r = Some m \<and> ?b = Some m \<and> worthwhile cfg m \<and> NetRepositioningValue m > ?net)"
    by (auto simp: better_def better_move_def worthwhile_def Let_def split: option.splits)
  have net: "Fin (- 1000000000) < x" if "?net < x" for x
    using that Cons.prems(1) less_fl_trans by (cases best) auto
  have inv: "worthwhile cfg m1 \<and> NetRepositioningValue m1 > Fin (- 1000000000)" if "?b = Some m1" for m1
    using keep that Cons.prems(1) net by auto
  from Cons.IH [OF inv] Cons.prems(2) have
    I: "?b = Some m \<or> (\<exists>r\<in>set rs. f r = Some m)" "worthwhile cfg m" "NetRepositioningValue m > Fin (- 1000000000)"
    and B: "\<And>m'. ?b = Some m' \<or> (\<exists>r\<in>set rs. f r = Some m' \<and> worthwhile cfg m') \<Longrightarrow> \<not> NetRepositioningValue m' > NetRepositioningValue m"
    by auto
  have num: "\<not> is_nan (NetRepositioningValue m)" using I(2) le_fl_number unfolding worthwhile_def by blast
  have "\<not> NetRepositioningValue m' > NetRepositioningValue m"
    if m': "best = Some m' \<or> f r = Some m' \<and> worthwhile cfg m'" and gt: "?b \<noteq> Some m'" for m'
  proof
    assume above: "NetRepositioningValue m' > NetRepositioningValue m"
    from keep show False
    proof (elim disjE exE conjE)
      assume k: "?b = best" "\<forall>m. f r = Some m \<and> worthwhile cfg m \<longrightarrow> \<not> NetRepositioningValue m > ?net"
      then have f: "\<not> ?net < NetRepositioningValue m'" using m' gt by auto
      have "?net < NetRepositioningValue m'"
      proof (cases best)
        case None
        then show ?thesis using less_fl_trans [OF I(3) above] by simp
      next
        case (Some m0)
        then have "\<not> NetRepositioningValue m < NetRepositioningValue m0" using B [of m0] k(1) by simp
        moreover have "\<not> is_nan (NetRepositioningValue m0)"
          using Cons.prems(1) [OF Some] le_fl_number unfolding worthwhile_def by blast
        ultimately show ?thesis using f above Some num
          by (cases "NetRepositioningValue m"; cases "NetRepositioningValue m0"; cases "NetRepositioningValue m'") auto
      qed
      then show False using f by simp
    next
      fix m1 assume k: "f r = Some m1" "?b = Some m1" "NetRepositioningValue m1 > ?net"
      then have "best = Some m'" using m' gt by auto
      then have "NetRepositioningValue m < NetRepositioningValue m1" using k(3) less_fl_trans [OF above] by simp
      then show False using B k(2) by blast
    qed
  qed
  then have "\<not> NetRepositioningValue m' > NetRepositioningValue m" if "best = Some m' \<or> f r = Some m' \<and> worthwhile cfg m'" for m'
    using that B [of m'] by blast
  moreover have "best = Some m \<or> (\<exists>r'\<in>set (r # rs). f r' = Some m)" using I(1) keep by auto
  ultimately show ?case using I(2,3) B by auto
qed

lemma map_filter_ids:
  assumes "\<And>d m. f d = Some m \<Longrightarrow> g m = h d"
  shows "mset (map g (List.map_filter f ds)) \<subseteq># mset (map h ds)"
proof (induction ds)
  case (Cons d ds)
  then show ?case using assms [of d]
    by (cases "f d") (auto simp: map_filter_simps intro: subset_mset.order_trans)
qed (simp add: map_filter_simps)

lemma driver_move_spec:
  assumes "driver_move L cfg mgr b target surplus d = Some m"
  defines "cur \<equiv> GetRegionID mgr (CurrentLocation d)"
  shows "deficit_at b cur \<ge> DeficitHurdle cfg \<and> TargetRegionID m \<in> set surplus \<and>
    move_to L cfg b target d cur (TargetRegionID m) = Some m \<and> worthwhile cfg m \<and>
    (\<forall>r\<in>set surplus. \<forall>m'. move_to L cfg b target d cur r = Some m' \<and> worthwhile cfg m' \<longrightarrow>
       \<not> NetRepositioningValue m' > NetRepositioningValue m)"
proof -
  have f: "fold (\<lambda>r best. better_move cfg (move_to L cfg b target d cur r) best) surplus None = Some m"
    and h: "deficit_at b cur \<ge> DeficitHurdle cfg"
    using assms by (auto simp: driver_move_def Let_def split: if_splits)
  from best_move_spec [OF _ f] obtain r where r: "r \<in> set surplus" "move_to L cfg b target d cur r = Some m" "worthwhile cfg m"
    and B: "\<forall>m'. (\<exists>r\<in>set surplus. move_to L cfg b target d cur r = Some m' \<and> worthwhile cfg m') \<longrightarrow>
      \<not> NetRepositioningValue m' > NetRepositioningValue m" by auto
  have "TargetRegionID m = r" using r(2) by (auto simp: move_to_def Let_def split: if_splits)
  then show ?thesis using r h B by blast
qed

lemma move_to_facts:
  assumes "move_to L cfg b target d cur r = Some m"
  shows "RmDriverID m = DrvID d" "TargetRegionID m = r" "r \<noteq> cur" "TargetLocation m = target r"
    "RmDeadheadMiles m = DistanceMiles L (CurrentLocation d) (target r)" "\<not> RmDeadheadMiles m > MaxRepositionDistanceMiles cfg"
    "\<not> RmDeadheadMiles m / AverageTransitSpeedMPH cfg > DriveHoursRemaining d"
    "\<not> RmDeadheadMiles m / AverageTransitSpeedMPH cfg > DutyHoursRemaining d"
  using assms by (auto simp: move_to_def Let_def split: if_splits)

lemma target_locs_spec:
  "(\<forall>loc. target_locs mgr b loads r = Some loc \<longrightarrow> (\<exists>l\<in>set loads. GetRegionID mgr (Origin l) = r \<and> loc = Origin l)) \<and>
   (deficit_at b r < 0 \<and> (\<exists>l\<in>set loads. GetRegionID mgr (Origin l) = r) \<longrightarrow> target_locs mgr b loads r \<noteq> None)"
proof (induction loads rule: rev_induct)
  case (snoc l loads)
  let ?m = "target_locs mgr b loads" and ?r = "GetRegionID mgr (Origin l)"
  have "target_locs mgr b (loads @ [l]) = (if deficit_at b ?r < 0 \<and> (case ?m ?r of None \<Rightarrow> True | Some loc \<Rightarrow> NodeID loc = '''')
      then ?m(?r \<mapsto> Origin l) else ?m)"
    by (simp add: target_locs_def Let_def)
  then show ?case using snoc by (auto split: option.splits)
qed (simp add: target_locs_def)

lemma deficit_load:
  assumes "deficit_at (ComputeBalance (Some res) (Some mgr) yields) r < 0"
  shows "\<exists>l\<in>set (rs_loads res). GetRegionID mgr (Origin l) = r"
proof -
  have "0 < count_region (map (GetRegionID mgr \<circ> Origin) (rs_loads res)) r"
    using assms by (auto simp: deficit_at_def ComputeBalance_def balance_snapshot_def Let_def count_region_def split: if_splits)
  then have "0 < length (filter (\<lambda>x. x = r \<and> x \<noteq> '''') (map (GetRegionID mgr \<circ> Origin) (rs_loads res)))"
    by (simp only: count_region_def of_nat_0_less_iff)
  then show ?thesis unfolding length_greater_0_conv filter_empty_conv by auto
qed

interpretation by_move: slice_order move_less UNIV
  by unfold_locales (auto simp: move_less_def split: if_splits)

text \<open>
  Property C38. Every move is that of one unassigned driver, no driver moves more often than it is listed, and the moves are sorted.
  A driver leaves a region whose surplus of drivers reaches the hurdle for the origin of a load in a region
  with fewer drivers than loads, within the distance and the driving and duty hours left, and no other such
  region that is worthwhile promises more. The choice looks at one driver alone: any number of drivers may
  be sent to the same gap.
\<close>

theorem SynthesizeRepositioningMoves_best:
  fixes L range_of res mgr unassigned cfg
  defines "b \<equiv> ComputeBalance (Some res) (Some mgr) (DefaultRegionalYield cfg)"
  defines "move \<equiv> \<lambda>d. move_to L cfg b (target_of mgr (target_locs mgr b (rs_loads res))) d (GetRegionID mgr (CurrentLocation d))"
  assumes "SynthesizeRepositioningMoves L ctxDone range_of (Some res) (Some mgr) unassigned cfg = Inr moves"
    and "set (range_of b) = dom b"
  shows "sorted_wrt (\<lambda>x y. \<not> move_less y x) moves \<and> mset (map RmDriverID moves) \<subseteq># mset (map DrvID unassigned) \<and>
    (\<forall>m\<in>set moves. \<exists>d\<in>set unassigned. RmDriverID m = DrvID d \<and>
       deficit_at b (GetRegionID mgr (CurrentLocation d)) \<ge> DeficitHurdle cfg \<and>
       TargetRegionID m \<noteq> GetRegionID mgr (CurrentLocation d) \<and> deficit_at b (TargetRegionID m) < 0 \<and>
       (\<exists>l\<in>set (rs_loads res). GetRegionID mgr (Origin l) = TargetRegionID m \<and> TargetLocation m = Origin l) \<and>
       RmDeadheadMiles m = DistanceMiles L (CurrentLocation d) (TargetLocation m) \<and>
       \<not> RmDeadheadMiles m > MaxRepositionDistanceMiles cfg \<and>
       \<not> RmDeadheadMiles m / AverageTransitSpeedMPH cfg > DriveHoursRemaining d \<and>
       \<not> RmDeadheadMiles m / AverageTransitSpeedMPH cfg > DutyHoursRemaining d \<and> worthwhile cfg m \<and>
       (\<forall>r m'. deficit_at b r < 0 \<and> move d r = Some m' \<and> worthwhile cfg m' \<longrightarrow>
          \<not> NetRepositioningValue m' > NetRepositioningValue m))"
proof (cases "unassigned = [] \<or> GetSurplusRegions range_of b = []")
  case True
  from assms(3) have "Reposition_Validate cfg = Inr ()" by (auto simp: SynthesizeRepositioningMoves_def split: sum.splits)
  then have "moves = []" using assms(3) True unfolding b_def by (cases "unassigned = []") (simp_all add: SynthesizeRepositioningMoves_def Let_def)
  then show ?thesis by simp
next
  case False
  let ?targets = "target_locs mgr b (rs_loads res)" and ?surplus = "GetSurplusRegions range_of b"
  let ?f = "driver_move L cfg mgr b (target_of mgr ?targets) ?surplus"
  from False assms(3) obtain ms where "driver_moves ctxDone ?f 0 unassigned = Inr ms" and moves: "moves = sort_slice move_less ms"
    by (auto simp: SynthesizeRepositioningMoves_def b_def Let_def split: sum.splits)
  then have ms: "ms = List.map_filter ?f unassigned" by (simp add: driver_moves_map)
  have surplus: "r \<in> set ?surplus \<longleftrightarrow> deficit_at b r < 0" for r
    using assms(4) by (auto simp: GetSurplusRegions_def set_sort_slice deficit_at_def split: option.splits)
  note M = driver_move_spec [of L cfg mgr b "target_of mgr ?targets" ?surplus]
  have "mset (map RmDriverID ms) \<subseteq># mset (map DrvID unassigned)"
    unfolding ms by (rule map_filter_ids) (use M move_to_facts(1) in blast)
  then have sub: "mset (map RmDriverID moves) \<subseteq># mset (map DrvID unassigned)" by (simp add: moves)
  have "\<exists>d\<in>set unassigned. ?f d = Some m" if "m \<in> set moves" for m
    using that by (auto simp: moves ms set_sort_slice map_filter_def)
  moreover have "target_of mgr ?targets r \<in> Origin ` {l \<in> set (rs_loads res). GetRegionID mgr (Origin l) = r}" if neg: "deficit_at b r < 0" for r
  proof -
    have "\<exists>l\<in>set (rs_loads res). GetRegionID mgr (Origin l) = r" using deficit_load neg unfolding b_def by blast
    then obtain loc where "?targets r = Some loc" using neg target_locs_spec [of mgr b "rs_loads res" r] by auto
    then show ?thesis using target_locs_spec [of mgr b "rs_loads res" r] by (auto simp: target_of_def)
  qed
  ultimately have each: "\<exists>d\<in>set unassigned. ?f d = Some m \<and> deficit_at b (TargetRegionID m) < 0 \<and>
      target_of mgr ?targets (TargetRegionID m) \<in> Origin ` {l \<in> set (rs_loads res). GetRegionID mgr (Origin l) = TargetRegionID m}"
    if "m \<in> set moves" for m using that M surplus by blast
  show ?thesis
  proof (intro conjI ballI sub)
    show "sorted_wrt (\<lambda>x y. \<not> move_less y x) moves" unfolding moves by (rule by_move.sorted_sort_slice) simp
    fix m assume "m \<in> set moves"
    then obtain d where d: "d \<in> set unassigned" "?f d = Some m" "deficit_at b (TargetRegionID m) < 0"
      "target_of mgr ?targets (TargetRegionID m) \<in> Origin ` {l \<in> set (rs_loads res). GetRegionID mgr (Origin l) = TargetRegionID m}"
      using each by blast
    note S = M [OF d(2)]
    from S have mv: "move_to L cfg b (target_of mgr ?targets) d (GetRegionID mgr (CurrentLocation d)) (TargetRegionID m) = Some m" by blast
    show "\<exists>d\<in>set unassigned. RmDriverID m = DrvID d \<and>
       deficit_at b (GetRegionID mgr (CurrentLocation d)) \<ge> DeficitHurdle cfg \<and>
       TargetRegionID m \<noteq> GetRegionID mgr (CurrentLocation d) \<and> deficit_at b (TargetRegionID m) < 0 \<and>
       (\<exists>l\<in>set (rs_loads res). GetRegionID mgr (Origin l) = TargetRegionID m \<and> TargetLocation m = Origin l) \<and>
       RmDeadheadMiles m = DistanceMiles L (CurrentLocation d) (TargetLocation m) \<and>
       \<not> RmDeadheadMiles m > MaxRepositionDistanceMiles cfg \<and>
       \<not> RmDeadheadMiles m / AverageTransitSpeedMPH cfg > DriveHoursRemaining d \<and>
       \<not> RmDeadheadMiles m / AverageTransitSpeedMPH cfg > DutyHoursRemaining d \<and> worthwhile cfg m \<and>
       (\<forall>r m'. deficit_at b r < 0 \<and> move d r = Some m' \<and> worthwhile cfg m' \<longrightarrow>
          \<not> NetRepositioningValue m' > NetRepositioningValue m)"
      using d S surplus move_to_facts [OF mv] unfolding move_def by (intro bexI [of _ d]) auto
  qed
qed

definition flat_libm :: libm where
  "flat_libm = demo_libm\<lparr>m_sin := (\<lambda>_. 0), m_atan2 := (\<lambda>_ _. Fin (1 / 64))\<rparr>"

definition demo_gap :: ResourceState where
  "demo_gap = NewResourceState [demo_driver ''D1'' demo_A] [demo_load ''L1'' demo_B demo_A]"

definition demo_repo :: RepositioningConfig where
  "demo_repo = DefaultRepositioningConfig\<lparr>DefaultRegionalYield := []\<rparr>"

lemma demo_regions:
  "GetRegionID (NewRegionManager 1 []) demo_A = ''REG_41_-88''" "GetRegionID (NewRegionManager 1 []) demo_B = ''REG_40_-80''"
  by code_simp+

lemma demo_numbers:
  "shadow_price (Fin 1500) 1 0 = Fin 900" "shadow_price (Fin 1500) 0 1 = Fin (8906044184985601 / 4398046511104)"
  "DistanceMiles flat_libm demo_A demo_B = Fin (4352746632039629 / 35184372088832)"
  "Fin (4352746632039629 / 35184372088832) / AverageTransitSpeedMPH demo_repo = Fin (5571515689010725 / 2251799813685248)"
  "Fin (8906044184985601 / 4398046511104) - Fin (4352746632039629 / 35184372088832) * EmptyMileCostRate demo_repo - Fin 900 =
    (Fin (3941229666332837 / 4398046511104) :: f64)"
proof -
  show "shadow_price (Fin 1500) 1 0 = Fin 900" "shadow_price (Fin 1500) 0 1 = Fin (8906044184985601 / 4398046511104)"
    by code_simp+
  have "DistanceMiles flat_libm demo_A demo_B = EarthRadiusMiles * (Fin 2 * Fin (1 / 64))"
    by (simp add: DistanceMiles_def flat_libm_def demo_loc_def feq_def Let_def del: times_fl.simps)
  also have "\<dots> = Fin (4352746632039629 / 35184372088832)" by code_simp
  finally show "DistanceMiles flat_libm demo_A demo_B = Fin (4352746632039629 / 35184372088832)" .
  show "Fin (4352746632039629 / 35184372088832) / AverageTransitSpeedMPH demo_repo = Fin (5571515689010725 / 2251799813685248)"
    by code_simp
  show "Fin (8906044184985601 / 4398046511104) - Fin (4352746632039629 / 35184372088832) * EmptyMileCostRate demo_repo - Fin 900 =
    (Fin (3941229666332837 / 4398046511104) :: f64)"
    by code_simp
qed

lemma demo_balance:
  defines "b \<equiv> ComputeBalance (Some demo_gap) (Some (NewRegionManager 1 [])) (DefaultRegionalYield demo_repo)"
  shows "dom b = {''REG_41_-88'', ''REG_40_-80''}" and "deficit_at b ''REG_41_-88'' = 1" and "deficit_at b ''REG_40_-80'' = -1"
    and "price_at b ''REG_41_-88'' = Fin 900" and "price_at b ''REG_40_-80'' = Fin (8906044184985601 / 4398046511104)"
proof -
  have y: "DefaultRegionalYield demo_repo = []" by (simp add: demo_repo_def)
  have ls: "map (GetRegionID (NewRegionManager 1 []) \<circ> CurrentLocation) (rs_drivers demo_gap) = [''REG_41_-88'']"
    "map (GetRegionID (NewRegionManager 1 []) \<circ> Origin) (rs_loads demo_gap) = [''REG_40_-80'']"
    "map (GetRegionID (NewRegionManager 1 []) \<circ> Destination) (rs_loads demo_gap) = [''REG_41_-88'']"
    by (simp_all add: demo_gap_def NewResourceState_def sort_slice_def demo_driver_def demo_load_def demo_regions Let_def)
  have b: "b = (\<lambda>r. if r \<in> {''REG_41_-88'', ''REG_40_-80''}
      then Some (balance_snapshot [] [''REG_41_-88''] [''REG_40_-80''] [''REG_41_-88''] r) else None)"
    unfolding b_def ComputeBalance_def option.case Let_def ls y by (rule ext) auto
  show "dom b = {''REG_41_-88'', ''REG_40_-80''}" by (auto simp: b split: if_splits)
  show "deficit_at b ''REG_41_-88'' = 1" "deficit_at b ''REG_40_-80'' = -1" "price_at b ''REG_41_-88'' = Fin 900"
    "price_at b ''REG_40_-80'' = Fin (8906044184985601 / 4398046511104)"
    by (simp_all add: b deficit_at_def price_at_def balance_snapshot_def count_region_def base_yield_def demo_numbers Let_def)
qed

lemma SynthesizeRepositioningMoves_best_witness:
  "\<exists>m. SynthesizeRepositioningMoves flat_libm (\<lambda>_. False) (\<lambda>_. [''REG_41_-88'', ''REG_40_-80'']) (Some demo_gap) (Some (NewRegionManager 1 []))
     [demo_driver ''D1'' demo_A] demo_repo = Inr [m] \<and> RmDriverID m = ''D1'' \<and> TargetLocation m = demo_B"
proof -
  let ?mgr = "NewRegionManager 1 []" and ?d = "demo_driver ''D1'' demo_A"
  let ?b = "ComputeBalance (Some demo_gap) (Some ?mgr) (DefaultRegionalYield demo_repo)"
  have cfg: "MaxRepositionDistanceMiles demo_repo = Fin 450" "MinArbitrageThreshold demo_repo = Fin 150" "DeficitHurdle demo_repo = 1"
    "Reposition_Validate demo_repo = Inr ()" by code_simp+
  have ls: "rs_loads demo_gap = [demo_load ''L1'' demo_B demo_A]" by (simp add: demo_gap_def NewResourceState_def sort_slice_def Let_def)
  have dr: "CurrentLocation ?d = demo_A" "DriveHoursRemaining ?d = Fin 11" "DutyHoursRemaining ?d = Fin 14" "DrvID ?d = ''D1''"
    by (simp_all add: demo_driver_def)
  have surplus: "GetSurplusRegions (\<lambda>_. [''REG_41_-88'', ''REG_40_-80'']) ?b = [''REG_40_-80'']"
    by (simp add: GetSurplusRegions_def demo_balance sort_slice_def)
  have t: "target_locs ?mgr ?b (rs_loads demo_gap) = [''REG_40_-80'' \<mapsto> demo_B]"
    by (simp add: target_locs_def ls demo_load_def demo_regions demo_balance)
  let ?move = "move_to flat_libm demo_repo ?b (target_of ?mgr [''REG_40_-80'' \<mapsto> demo_B]) ?d ''REG_41_-88'' ''REG_40_-80''"
  obtain m where m: "?move = Some m" "NetRepositioningValue m = Fin (3941229666332837 / 4398046511104)"
    by (simp add: move_to_def target_of_def dr demo_numbers cfg demo_balance zero_fl_def Let_def)
  have "?b ''REG_41_-88'' \<noteq> None" using demo_balance(1) by blast
  then have "driver_move flat_libm demo_repo ?mgr ?b (target_of ?mgr [''REG_40_-80'' \<mapsto> demo_B]) [''REG_40_-80''] ?d = Some m"
    using m by (simp add: driver_move_def dr demo_regions demo_balance cfg better_move_def Let_def)
  then have r: "SynthesizeRepositioningMoves flat_libm (\<lambda>_. False) (\<lambda>_. [''REG_41_-88'', ''REG_40_-80'']) (Some demo_gap) (Some ?mgr) [?d] demo_repo = Inr [m]"
    by (simp add: SynthesizeRepositioningMoves_def cfg surplus t sort_slice_def)
  have "set ((\<lambda>_. [''REG_41_-88'', ''REG_40_-80'']) ?b) = dom ?b" unfolding demo_balance(1) by simp
  from SynthesizeRepositioningMoves_best [OF r this] r show ?thesis by (auto simp: ls demo_load_def dr)
qed

end
