(* ===== verification/Dla.thy ===== *)
theory Dla
  imports Policies Rng
begin

text \<open>
  \<open>internal/domain/policy/dla.go\<close>: the direct lookahead policy. Every candidate arc is a branch: its immediate
  contribution plus the mean discounted contribution of Monte Carlo rollouts under a base policy. The base
  policy and the sampler of arrivals are parameters, as they are fields of the policy; the sampler returns the
  generator it leaves. Workers take the branches from a channel and send results into another: what the
  collector receives is given by a list of branch indices. The context is a predicate on the branch, the
  rollout and the step at which it is asked. \<open>None\<close> is a policy that does not return.
\<close>

section \<open>Parameters\<close>

record DLAParameters =
  Horizon :: int
  NumRollouts :: int
  DiscountFactor :: f64
  MaxConcurrentBranches :: int
  DlaStepSeconds :: int
  RandomSeed :: u64
  EnableAdaptivePruning :: bool
  ExplorationFactor :: f64
  BeamWidth :: int
  MinRollouts :: int
  MaxRollouts :: int

definition DefaultDLAParameters :: DLAParameters where
  "DefaultDLAParameters = \<lparr>Horizon = 2, NumRollouts = 1, DiscountFactor = rnd (95 / 100), MaxConcurrentBranches = 16,
     DlaStepSeconds = 10800, RandomSeed = 42, EnableAdaptivePruning = True, ExplorationFactor = rnd (1414 / 1000), BeamWidth = 24,
     MinRollouts = 1, MaxRollouts = 3\<rparr>"

type_synonym ArrivalSampler = "int \<Rightarrow> int \<Rightarrow> RNG \<Rightarrow> Load list \<times> RNG"

record DLAPolicy =
  dla_params :: DLAParameters
  dla_costCfg :: CostConfig
  dla_basePolicy :: "53 Belief State \<Rightarrow> decision option"
  dla_sampler :: "ArrivalSampler option"
  dla_regionManager :: RegionManager
  dla_ruleReg :: "CompiledRule list option"

definition NewDLAPolicy ::
  "DLAParameters \<Rightarrow> CostConfig \<Rightarrow> (53 Belief State \<Rightarrow> decision option) option \<Rightarrow> ArrivalSampler option \<Rightarrow> RegionManager option \<Rightarrow>
    CompiledRule list option \<Rightarrow> DLAPolicy result" where
  "NewDLAPolicy params costCfg basePolicy sampler rm ruleReg =
     (if Horizon params < 1 then Inl (ErrOther ''dla: horizon must be >= 1'')
      else if NumRollouts params < 1 then Inl (ErrOther ''dla: num rollouts must be >= 1'')
      else if DiscountFactor params \<le> 0 \<or> DiscountFactor params > 1 then Inl (ErrOther ''dla: discount factor must be in (0, 1]'')
      else if MaxConcurrentBranches params < 1 then Inl (ErrOther ''dla: max concurrent branches must be >= 1'')
      else if DlaStepSeconds params \<le> 0 then Inl (ErrOther ''dla: step seconds must be > 0'')
      else if ExplorationFactor params \<le> 0 then Inl (ErrOther ''dla: exploration factor must be > 0'')
      else if MinRollouts params < 1 then Inl (ErrOther ''dla: min rollouts must be >= 1'')
      else if MaxRollouts params < MinRollouts params then Inl (ErrOther ''dla: max rollouts cannot be less than min rollouts'')
      else case rm of None \<Rightarrow> Inl (ErrOther ''dla: region manager cannot be nil'') | Some mgr \<Rightarrow>
      case basePolicy of None \<Rightarrow> Inl (ErrOther ''dla: base policy cannot be nil'') | Some base \<Rightarrow>
        Inr \<lparr>dla_params = params, dla_costCfg = costCfg, dla_basePolicy = base, dla_sampler = sampler,
          dla_regionManager = mgr, dla_ruleReg = ruleReg\<rparr>)"

definition DLA_Name :: "DLAPolicy \<Rightarrow> string" where
  "DLA_Name p = ''DLA_Lookahead_H'' @ show_int (Horizon (dla_params p)) @ ''_K'' @ show_int (NumRollouts (dla_params p))"

section \<open>Rollouts\<close>

text \<open>One step ahead: the sampled arrivals join the loads and the information moves to the epoch of the step.\<close>

definition lookahead_state ::
  "DLAPolicy \<Rightarrow> int \<Rightarrow> int \<Rightarrow> RNG \<Rightarrow> 53 Belief State \<Rightarrow> 53 Belief State result \<times> RNG" where
  "lookahead_state p hEpoch h rng cur =
     (case (case dla_sampler p of None \<Rightarrow> ([], rng) | Some f \<Rightarrow> f hEpoch h rng) of (sampleLoads, rng') \<Rightarrow>
      let resH = NewResourceState (rs_drivers (st_resource cur)) (rs_loads (st_resource cur) @ sampleLoads);
          info = st_information cur in
      (case Info_Transition info hEpoch (fuelPriceIndex info) (nationalSpotRateIndex info) (weatherAlertCount info) of
         Inl e \<Rightarrow> Inl e
       | Inr infoH \<Rightarrow> NewState (Some resH) (Some infoH) (Some (st_belief cur)), rng'))"

text \<open>The steps from \<open>h\<close> on, \<open>n\<close> of them left; a decision without matches ends the rollout.\<close>

fun rollout ::
  "libm \<Rightarrow> (int \<Rightarrow> bool) \<Rightarrow> DLAPolicy \<Rightarrow> int \<Rightarrow> nat \<Rightarrow> int \<Rightarrow> RNG \<Rightarrow> 53 Belief State \<Rightarrow> f64 \<Rightarrow> f64 result option" where
  "rollout L ctxDone p ep 0 h rng cur reward = Some (Inr reward)"
| "rollout L ctxDone p ep (Suc n) h rng cur reward =
     (if ctxDone h then Some (Inl (ErrOther ''context canceled''))
      else case lookahead_state p (ep + h * DlaStepSeconds (dla_params p)) h rng cur of (r, rng') \<Rightarrow>
      (case r of Inl e \<Rightarrow> Some (Inl e) | Inr cur' \<Rightarrow>
       (case dla_basePolicy p cur' of
          None \<Rightarrow> None
        | Some (Inl e) \<Rightarrow> Some (Inl e)
        | Some (Inr (action, prov)) \<Rightarrow>
            if length (act_matches action) = 0 then Some (Inr reward)
            else let discount = m_pow L (DiscountFactor (dla_params p)) (of_int_fl h);
                     reward' = reward + discount * TotalNetContribution prov in
              (case State_Transition L cur' (Some action) [] of
                 None \<Rightarrow> None
               | Some (Inl e) \<Rightarrow> Some (Inl e)
               | Some (Inr next) \<Rightarrow> rollout L ctxDone p ep n (h + 1) rng' next reward'))))"

fun rollouts ::
  "libm \<Rightarrow> (int \<Rightarrow> int \<Rightarrow> bool) \<Rightarrow> DLAPolicy \<Rightarrow> int \<Rightarrow> u64 \<Rightarrow> 53 Belief State \<Rightarrow> int list \<Rightarrow> f64 \<Rightarrow> f64 result option" where
  "rollouts L ctxDone p ep branchIdx s [] rewards = Some (Inr rewards)"
| "rollouts L ctxDone p ep branchIdx s (k # ks) rewards =
     (case rollout L (ctxDone k) p ep (nat (Horizon (dla_params p))) 1
         (NewRNG (RandomSeed (dla_params p) + branchIdx * 1000 + word_of_int k)) s 0 of
        None \<Rightarrow> None
      | Some (Inl e) \<Rightarrow> Some (Inl e)
      | Some (Inr reward) \<Rightarrow> rollouts L ctxDone p ep branchIdx s ks (rewards + reward))"

definition evaluateBranchRollouts ::
  "libm \<Rightarrow> (int \<Rightarrow> int \<Rightarrow> bool) \<Rightarrow> DLAPolicy \<Rightarrow> 53 Belief State \<Rightarrow> Driver \<Rightarrow> Load \<Rightarrow> int \<Rightarrow> nat \<Rightarrow> f64 result option" where
  "evaluateBranchRollouts L ctxDone p s driver load ep branchIdx =
     (let firstAction = NewAction [\<lparr>MDriverID = DrvID driver, MLoadID = LdID load, DispatchEpoch = ep, EstimatedContribution = 0\<rparr>] [] in
      case State_Transition L s (Some firstAction) [] of
        None \<Rightarrow> None
      | Some (Inl e) \<Rightarrow> Some (Inl e)
      | Some (Inr sNext) \<Rightarrow>
          let rolloutCount = (if NumRollouts (dla_params p) < 1 then 1 else NumRollouts (dla_params p)) in
          map_option (map_sum id (\<lambda>t. t / of_int_fl rolloutCount))
            (rollouts L ctxDone p ep (of_nat branchIdx) sNext [0..rolloutCount - 1] 0))"

section \<open>Branches\<close>

record arcPreScore =
  psContribution :: f64
  psBreakdown :: "53 TripCostBreakdown"
  psInfeasible :: bool

definition pre_score :: "libm \<Rightarrow> DLAPolicy \<Rightarrow> ResourceState \<Rightarrow> CandidateArc \<Rightarrow> arcPreScore result" where
  "pre_score L p res arc =
     (case GetDriver res (ArcDriverID arc) of None \<Rightarrow> Inl (ErrOther ''dla: driver not found in resource state'') | Some driver \<Rightarrow>
      case GetLoad res (ArcLoadID arc) of None \<Rightarrow> Inl (ErrOther ''dla: load not found in resource state'') | Some load \<Rightarrow>
      let cb = CalculateTripCost L driver load arc (dla_costCfg p) in
      case dla_ruleReg p of
        None \<Rightarrow> Inr \<lparr>psContribution = NetContribution cb, psBreakdown = cb, psInfeasible = False\<rparr>
      | Some reg \<Rightarrow>
          (case Rules_Evaluate (Some reg) (BuildEvaluationContext driver load (DeadheadMiles arc) (LoadedMiles arc)) of
             Inl e \<Rightarrow> Inl e
           | Inr ruleRes \<Rightarrow>
               let cb' = (if IsInfeasible ruleRes then cb else CalculateTripCostWithRules L driver load arc (dla_costCfg p) ruleRes) in
               Inr \<lparr>psContribution = NetContribution cb', psBreakdown = cb', psInfeasible = IsInfeasible ruleRes\<rparr>))"

fun pre_scores :: "libm \<Rightarrow> DLAPolicy \<Rightarrow> ResourceState \<Rightarrow> CandidateArc list \<Rightarrow> arcPreScore list result" where
  "pre_scores L p res [] = Inr []"
| "pre_scores L p res (a # as) =
     (case pre_score L p res a of Inl e \<Rightarrow> Inl e | Inr s \<Rightarrow>
      (case pre_scores L p res as of Inl e \<Rightarrow> Inl e | Inr ss \<Rightarrow> Inr (s # ss)))"

text \<open>The beam: the indices of the branches that get rollouts.\<close>

definition active_branches :: "DLAParameters \<Rightarrow> arcPreScore list \<Rightarrow> nat set" where
  "active_branches ps pre =
     (if EnableAdaptivePruning ps \<and> BeamWidth ps > 0 \<and> int (length pre) > BeamWidth ps
      then set (take (nat (BeamWidth ps))
        (sort_slice (\<lambda>i j. psContribution (pre ! i) > psContribution (pre ! j)) [0..<length pre]))
      else set [0..<length pre])"

definition no_cost :: "53 TripCostBreakdown" where
  "no_cost = \<lparr>TcRevenue = 0, TcFixedCost = 0, TcLoadedCost = 0, TcEmptyCost = 0, TcEmptyToHomeCost = 0, TcDwellCost = 0,
     TcLatePenalty = 0, TcDriverBonus = 0, TcTotalCost = 0, NetContribution = 0\<rparr>"

definition no_eval :: "53 CandidateEvaluation" where
  "no_eval = \<lparr>EvDriverID = '''', EvLoadID = '''', CostBreakdown = no_cost, CFAAdjustment = 0, VFAValue = 0, DLAValue = 0,
     TotalScore = 0, PostDecisionRegion = '''', EvDeadheadMiles = 0, EvLoadedMiles = 0, EvInsertedDwellMin = 0,
     EvInsertedRestMin = 0, EvTotalTripMin = 0, IsAssigned = False\<rparr>"

definition banned_eval :: "CandidateArc \<Rightarrow> 53 CandidateEvaluation" where
  "banned_eval arc = no_eval\<lparr>EvDriverID := ArcDriverID arc, EvLoadID := ArcLoadID arc, TotalScore := Fin (- 1000000000)\<rparr>"

text \<open>What a worker computes for a branch.\<close>

definition branch_eval ::
  "libm \<Rightarrow> (nat \<Rightarrow> int \<Rightarrow> int \<Rightarrow> bool) \<Rightarrow> DLAPolicy \<Rightarrow> 53 Belief State \<Rightarrow> int \<Rightarrow> CandidateArc list \<Rightarrow> arcPreScore list \<Rightarrow> nat \<Rightarrow>
    53 CandidateEvaluation result option" where
  "branch_eval L ctxDone p s ep arcs pre arcIdx =
     (if ctxDone arcIdx 0 0 then Some (Inl (ErrOther ''context canceled''))
      else let arc = arcs ! arcIdx; pr = pre ! arcIdx in
      if psInfeasible pr then Some (Inr (banned_eval arc))
      else case GetDriver (st_resource s) (ArcDriverID arc) of
        None \<Rightarrow> Some (Inl (ErrOther ''dla: driver not found in resource state'')) | Some driver \<Rightarrow>
      (case GetLoad (st_resource s) (ArcLoadID arc) of
        None \<Rightarrow> Some (Inl (ErrOther ''dla: load not found in resource state'')) | Some load \<Rightarrow>
      let destRegion = GetRegionID (dla_regionManager p) (Destination load) in
      (case (if arcIdx \<in> active_branches (dla_params p) pre \<and> Horizon (dla_params p) > 0
             then evaluateBranchRollouts L (ctxDone arcIdx) p s driver load ep arcIdx else Some (Inr 0)) of
         None \<Rightarrow> None
       | Some (Inl e) \<Rightarrow> Some (Inl e)
       | Some (Inr downstream) \<Rightarrow>
           Some (Inr ((arc_eval arc (psBreakdown pr) 0 0 (psContribution pr + downstream) destRegion)\<lparr>DLAValue := downstream\<rparr>)))))"

text \<open>The results received, in the order of a schedule: the workers finish first, then an error ends the harvest.\<close>

fun run_branches :: "(nat \<Rightarrow> 'e result option) \<Rightarrow> nat list \<Rightarrow> (nat \<times> 'e result) list option" where
  "run_branches job [] = Some []"
| "run_branches job (i # is) =
     (case job i of None \<Rightarrow> None | Some r \<Rightarrow> map_option ((#) (i, r)) (run_branches job is))"

fun harvest :: "(nat \<times> 'e result) list \<Rightarrow> 'e list \<Rightarrow> 'e list result" where
  "harvest [] evals = Inr evals"
| "harvest ((i, r) # rs) evals = (case r of Inl e \<Rightarrow> Inl e | Inr ev \<Rightarrow> harvest rs (evals[i := ev]))"

text \<open>A schedule receives every branch once, or only some of them when a worker stopped at an error.\<close>

definition dla_schedule :: "(nat \<Rightarrow> 'e result option) \<Rightarrow> nat \<Rightarrow> nat list \<Rightarrow> bool" where
  "dla_schedule job n sched \<longleftrightarrow> distinct sched \<and> set sched \<subseteq> {..<n} \<and>
     (set sched = {..<n} \<or> (\<exists>i\<in>set sched. \<exists>e. job i = Some (Inl e)))"

definition decision_epoch :: "53 Belief State \<Rightarrow> int" where
  "decision_epoch s = (if epoch (st_information s) > 0 then epoch (st_information s) else AvailableEpoch (rs_drivers (st_resource s) ! 0))"

definition DLA_Evaluate ::
  "libm \<Rightarrow> (nat \<Rightarrow> int \<Rightarrow> int \<Rightarrow> bool) \<Rightarrow> nat list \<Rightarrow> DLAPolicy \<Rightarrow> 53 Belief State option \<Rightarrow> CandidateArc list result \<Rightarrow> decision option" where
  "DLA_Evaluate L ctxDone sched p state filtered =
     (case state of None \<Rightarrow> Some (Inl (ErrOther ''dla: cannot evaluate nil state'')) | Some s \<Rightarrow>
      let prov = NewDecisionProvenance (DLA_Name p) state
            [of_int_fl (Horizon (dla_params p)), of_int_fl (NumRollouts (dla_params p)), DiscountFactor (dla_params p)];
          drivers = rs_drivers (st_resource s); loads = rs_loads (st_resource s) in
      if length drivers = 0 \<or> length loads = 0 then Some (Inr (NewAction [] [], prov))
      else let ep = decision_epoch s in
      (case filtered of Inl e \<Rightarrow> Some (Inl e) | Inr arcs \<Rightarrow>
       if length arcs = 0 then Some (Inr (NewAction [] [], prov\<lparr>BatchEpoch := ep\<rparr>))
       else (case pre_scores L p (st_resource s) arcs of Inl e \<Rightarrow> Some (Inl e) | Inr pre \<Rightarrow>
        (case run_branches (branch_eval L ctxDone p s ep arcs pre) sched of
           None \<Rightarrow> None
         | Some rs \<Rightarrow>
             (case harvest rs (replicate (length arcs) no_eval) of
                Inl e \<Rightarrow> Some (Inl e)
              | Inr evals \<Rightarrow>
                  (case SolveMatching NewBipartiteMatcher evals ep False of
                     None \<Rightarrow> None
                   | Some (Inl e) \<Rightarrow> Some (Inl e)
                   | Some (Inr (matches, sortedEvals, totalObj, totalNetContrib)) \<Rightarrow>
                       Some (Inr (NewAction matches [],
                         prov\<lparr>BatchEpoch := ep, EvaluatedArcs := sortedEvals, MatchedCount := length matches,
                           TotalNetContribution := totalNetContrib, TotalObjectiveValue := totalObj\<rparr>))))))))"

section \<open>Schedules do not matter\<close>

lemma run_branches_Some:
  "run_branches job sched = Some rs \<Longrightarrow> map fst rs = sched \<and> (\<forall>(i, r)\<in>set rs. job i = Some r)"
  by (induction sched arbitrary: rs) (auto split: option.splits)

lemma run_branches_Inr:
  "(\<forall>i\<in>set sched. \<exists>e. job i = Some (Inr e)) \<Longrightarrow>
    run_branches job sched = Some (map (\<lambda>i. (i, Inr (projr (the (job i))))) sched)"
  by (induction sched) (auto)

lemma harvest_Inr:
  "harvest (map (\<lambda>i. (i, Inr (f i))) sched) evals = Inr (fold (\<lambda>i evs. evs[i := f i]) sched evals)"
  by (induction sched arbitrary: evals) simp_all

lemma harvest_error: "harvest rs evals = Inr evals' \<Longrightarrow> (i, Inl e) \<in> set rs \<Longrightarrow> False"
  by (induction rs arbitrary: evals) (auto split: sum.splits)

lemma fold_assign_nth:
  "distinct sched \<Longrightarrow> i < length xs \<Longrightarrow> fold (\<lambda>i evs. evs[i := f i]) sched xs ! i = (if i \<in> set sched then f i else xs ! i)"
  by (induction sched arbitrary: xs) auto

lemma length_fold_assign [simp]: "length (fold (\<lambda>i evs. evs[i := f i]) sched xs) = length xs"
  by (induction sched arbitrary: xs) auto

text \<open>A harvest that succeeds holds the result of every branch at its place.\<close>

lemma harvest_complete:
  assumes "dla_schedule job n sched" and "run_branches job sched = Some rs" and "harvest rs (replicate n z) = Inr evals"
  shows "(\<forall>i<n. job i = Some (Inr (evals ! i))) \<and> length evals = n"
proof -
  note R = run_branches_Some [OF assms(2)]
  have ok: "\<exists>e. job i = Some (Inr e)" if "i \<in> set sched" for i
  proof -
    have "i \<in> set (map fst rs)" using that R by simp
    then obtain r where r: "(i, r) \<in> set rs" by auto
    then have "job i = Some r" using R by blast
    then show ?thesis using harvest_error [OF assms(3), of i] r by (cases r) blast+
  qed
  have set: "set sched = {..<n}" using assms(1) ok unfolding dla_schedule_def by (metis Inr_not_Inl option.inject)
  have d: "distinct sched" using assms(1) unfolding dla_schedule_def by blast
  let ?f = "\<lambda>i. projr (the (job i))"
  have "\<forall>i\<in>set sched. \<exists>e. job i = Some (Inr e)" using ok by blast
  from run_branches_Inr [OF this] have "rs = map (\<lambda>i. (i, Inr (?f i))) sched" using assms(2) by (simp only: option.inject)
  then have ev: "evals = fold (\<lambda>i evs. evs[i := ?f i]) sched (replicate n z)"
    using assms(3) unfolding harvest_Inr [of ?f sched, symmetric] by (simp only: harvest_Inr sum.inject)
  have e: "length evals = n" "\<forall>i<n. evals ! i = ?f i"
    using fold_assign_nth [OF d, of _ "replicate n z" ?f] set unfolding ev by simp_all
  have "job i = Some (Inr (evals ! i))" if i: "i < n" for i
  proof -
    obtain x where "job i = Some (Inr x)" using ok set i by blast
    then show ?thesis using e(2) i by simp
  qed
  then show ?thesis using e(1) by blast
qed

lemma harvest_any:
  assumes "dla_schedule job n sched" and "\<forall>i<n. job i = Some (Inr (evals ! i))" and "length evals = n"
  shows "\<exists>rs. run_branches job sched = Some rs \<and> harvest rs (replicate n z) = Inr evals"
proof -
  have "\<not> (\<exists>i\<in>set sched. \<exists>e. job i = Some (Inl e))"
    using assms(1,2) unfolding dla_schedule_def by (metis Inr_not_Inl lessThan_iff option.inject subsetD)
  then have set: "set sched = {..<n}" and d: "distinct sched" using assms(1) unfolding dla_schedule_def by blast+
  let ?f = "\<lambda>i. projr (the (job i))"
  have r: "run_branches job sched = Some (map (\<lambda>i. (i, Inr (?f i))) sched)"
    by (rule run_branches_Inr) (use set assms(2) in auto)
  have "fold (\<lambda>i evs. evs[i := ?f i]) sched (replicate n z) = evals"
    using fold_assign_nth [OF d, of _ "replicate n z" ?f] set assms(2,3) by (intro nth_equalityI) auto
  then show ?thesis using r harvest_Inr [of ?f] by simp
qed

section \<open>What a decision guarantees\<close>

lemma branch_eval_facts:
  assumes "branch_eval L ctxDone p s ep arcs pre i = Some (Inr ev)"
  shows "EvDriverID ev = ArcDriverID (arcs ! i)" "EvLoadID ev = ArcLoadID (arcs ! i)" "\<not> IsAssigned ev"
    "\<not> TotalScore ev \<le> 0 \<Longrightarrow> \<not> psInfeasible (pre ! i)"
    "\<not> psInfeasible (pre ! i) \<Longrightarrow> CostBreakdown ev = psBreakdown (pre ! i) \<and> TotalScore ev = psContribution (pre ! i) + DLAValue ev"
  using assms by (auto simp: branch_eval_def banned_eval_def no_eval_def arc_eval_def zero_fl_def Let_def split: if_splits option.splits sum.splits)

lemma pre_scores_nth:
  "pre_scores L p res arcs = Inr pre \<Longrightarrow> length pre = length arcs \<and> (\<forall>i<length arcs. pre_score L p res (arcs ! i) = Inr (pre ! i))"
proof (induction arcs arbitrary: pre)
  case (Cons a arcs)
  then show ?case by (auto split: sum.splits simp: nth_Cons split: nat.splits)
qed simp

lemma pre_score_known:
  assumes "pre_score L p res arc = Inr s"
  shows "\<exists>d l. GetDriver res (ArcDriverID arc) = Some d \<and> GetLoad res (ArcLoadID arc) = Some l \<and>
    (psInfeasible s \<longleftrightarrow> (\<exists>reg r. dla_ruleReg p = Some reg \<and>
       Rules_Evaluate (Some reg) (BuildEvaluationContext d l (DeadheadMiles arc) (LoadedMiles arc)) = Inr r \<and> IsInfeasible r))"
  using assms by (auto simp: pre_score_def Let_def split: option.splits sum.splits)

text \<open>The arc of a match, and whether the rules ban it.\<close>

definition arc_banned :: "DLAPolicy \<Rightarrow> ResourceState \<Rightarrow> CandidateArc \<Rightarrow> bool" where
  "arc_banned p res arc =
     (case (dla_ruleReg p, GetDriver res (ArcDriverID arc), GetLoad res (ArcLoadID arc)) of
        (Some reg, Some d, Some l) \<Rightarrow>
          (case Rules_Evaluate (Some reg) (BuildEvaluationContext d l (DeadheadMiles arc) (LoadedMiles arc)) of
             Inr r \<Rightarrow> IsInfeasible r | Inl _ \<Rightarrow> False)
      | _ \<Rightarrow> False)"

lemma DLA_Evaluate_cases:
  assumes "DLA_Evaluate L ctxDone sched p (Some s) filtered = Some (Inr (action, prov))"
  obtains (none) "action = NewAction [] []"
  | (solved) arcs pre rs evals sol where "filtered = Inr arcs" "arcs \<noteq> []" "pre_scores L p (st_resource s) arcs = Inr pre"
      "run_branches (branch_eval L ctxDone p s (decision_epoch s) arcs pre) sched = Some rs"
      "harvest rs (replicate (length arcs) no_eval) = Inr evals"
      "SolveMatchingDetailed NewBipartiteMatcher evals (decision_epoch s) False = Some (Inr sol)" "action = NewAction (Matches sol) []"
proof (cases "length (rs_drivers (st_resource s)) = 0 \<or> length (rs_loads (st_resource s)) = 0")
  case True
  then show ?thesis using assms none by (auto simp: DLA_Evaluate_def Let_def)
next
  case False
  from False assms obtain arcs where a: "filtered = Inr arcs" by (auto simp: DLA_Evaluate_def Let_def split: sum.splits)
  show ?thesis
  proof (cases "arcs = []")
    case True
    then show ?thesis using False assms a none by (auto simp: DLA_Evaluate_def Let_def)
  next
    case ne: False
    from False assms a ne show ?thesis
      by (auto simp: DLA_Evaluate_def SolveMatching_def Let_def split: sum.splits option.splits prod.splits intro!: solved)
  qed
qed

lemma dla_matches:
  assumes "DLA_Evaluate L ctxDone sched p (Some s) filtered = Some (Inr (action, prov))"
    and "\<forall>arcs pre. filtered = Inr arcs \<and> pre_scores L p (st_resource s) arcs = Inr pre \<longrightarrow>
      dla_schedule (branch_eval L ctxDone p s (decision_epoch s) arcs pre) (length arcs) sched"
  shows "act_bids action = [] \<and> distinct (map MDriverID (act_matches action)) \<and> distinct (map MLoadID (act_matches action)) \<and>
    (\<forall>m\<in>set (act_matches action). \<exists>arcs a. filtered = Inr arcs \<and> a \<in> set arcs \<and> MDriverID m = ArcDriverID a \<and> MLoadID m = ArcLoadID a \<and>
      GetDriver (st_resource s) (MDriverID m) \<noteq> None \<and> GetLoad (st_resource s) (MLoadID m) \<noteq> None \<and> \<not> arc_banned p (st_resource s) a)"
  using assms(1)
proof (cases rule: DLA_Evaluate_cases)
  case none
  then show ?thesis by (simp add: NewAction_def sort_slice_def)
next
  case (solved arcs pre rs evals sol)
  have "dla_schedule (branch_eval L ctxDone p s (decision_epoch s) arcs pre) (length arcs) sched" using assms(2) solved(1,3) by blast
  note H = harvest_complete [OF this solved(4,5)]
  have u: "\<forall>ev\<in>set evals. \<not> IsAssigned ev"
    using H branch_eval_facts(3) by (metis in_set_conv_nth)
  note S = SolveMatching_one_to_one_spec [OF solved(6) u]
  have m: "mset (act_matches action) = mset (Matches sol)" unfolding solved(7) by (simp add: NewAction_def)
  then have ms: "set (act_matches action) = set (Matches sol)" by (metis set_mset_mset)
  have d: "distinct (map MDriverID (act_matches action))" "distinct (map MLoadID (act_matches action))"
    using S m by (metis mset_map mset_eq_imp_distinct_iff)+
  have "\<exists>a. a \<in> set arcs \<and> MDriverID mt = ArcDriverID a \<and> MLoadID mt = ArcLoadID a \<and>
      GetDriver (st_resource s) (MDriverID mt) \<noteq> None \<and> GetLoad (st_resource s) (MLoadID mt) \<noteq> None \<and> \<not> arc_banned p (st_resource s) a"
    if "mt \<in> set (act_matches action)" for mt
  proof -
    from that S obtain ev where ev: "ev \<in> set evals" "mt = new_match (decision_epoch s) ev" "\<not> TotalScore ev \<le> 0" unfolding ms by blast
    then obtain i where i: "i < length arcs" "ev = evals ! i" using H by (metis in_set_conv_nth)
    note B = branch_eval_facts [of L ctxDone p s "decision_epoch s" arcs pre i ev]
    have b: "branch_eval L ctxDone p s (decision_epoch s) arcs pre i = Some (Inr ev)" using H i by simp
    have pre: "pre_score L p (st_resource s) (arcs ! i) = Inr (pre ! i)" using pre_scores_nth [OF solved(3)] i(1) by blast
    from pre_score_known [OF this] obtain d l where k: "GetDriver (st_resource s) (ArcDriverID (arcs ! i)) = Some d"
      "GetLoad (st_resource s) (ArcLoadID (arcs ! i)) = Some l"
      "psInfeasible (pre ! i) \<longleftrightarrow> (\<exists>reg r. dla_ruleReg p = Some reg \<and>
         Rules_Evaluate (Some reg) (BuildEvaluationContext d l (DeadheadMiles (arcs ! i)) (LoadedMiles (arcs ! i))) = Inr r \<and> IsInfeasible r)"
      by blast
    have "\<not> arc_banned p (st_resource s) (arcs ! i)"
      using k B(4) [OF b ev(3)] by (auto simp: arc_banned_def split: option.splits sum.splits)
    then show ?thesis using B(1,2) [OF b] ev(2) k i(1) by (intro exI [of _ "arcs ! i"]) (auto simp: new_match_def)
  qed
  then show ?thesis using d solved(1) unfolding solved(7) by (auto simp: NewAction_def sort_slice_def)
qed

text \<open>The order in which the workers answer does not change the decision.\<close>

lemma DLA_Evaluate_schedule:
  assumes "DLA_Evaluate L ctxDone sched p (Some s) filtered = Some (Inr (action, prov))"
    and "\<And>arcs pre sc. filtered = Inr arcs \<Longrightarrow> pre_scores L p (st_resource s) arcs = Inr pre \<Longrightarrow> sc \<in> {sched, sched'} \<Longrightarrow>
      dla_schedule (branch_eval L ctxDone p s (decision_epoch s) arcs pre) (length arcs) sc"
  shows "DLA_Evaluate L ctxDone sched' p (Some s) filtered = Some (Inr (action, prov))"
proof (cases "length (rs_drivers (st_resource s)) = 0 \<or> length (rs_loads (st_resource s)) = 0 \<or> filtered = Inr []")
  case True
  then show ?thesis using assms(1) by (auto simp: DLA_Evaluate_def Let_def)
next
  case False
  with assms(1) obtain arcs pre rs evals where a: "filtered = Inr arcs" "arcs \<noteq> []" "pre_scores L p (st_resource s) arcs = Inr pre"
    "run_branches (branch_eval L ctxDone p s (decision_epoch s) arcs pre) sched = Some rs"
    "harvest rs (replicate (length arcs) no_eval) = Inr evals"
    by (auto simp: DLA_Evaluate_def Let_def split: sum.splits option.splits)
  have h: "\<forall>i<length arcs. branch_eval L ctxDone p s (decision_epoch s) arcs pre i = Some (Inr (evals ! i))" "length evals = length arcs"
    using harvest_complete [OF assms(2) [OF a(1,3), of sched, simplified] a(4,5)] by blast+
  from harvest_any [OF assms(2) [OF a(1,3), of sched', simplified] h] obtain rs' where
    "run_branches (branch_eval L ctxDone p s (decision_epoch s) arcs pre) sched' = Some rs'"
    "harvest rs' (replicate (length arcs) no_eval) = Inr evals" by blast
  then show ?thesis using assms(1) a False by (simp add: DLA_Evaluate_def Let_def)
qed


section \<open>A decision\<close>

definition ban_all :: DLAPolicy where
  "ban_all = \<lparr>dla_params = DefaultDLAParameters, dla_costCfg = DefaultCostConfig,
     dla_basePolicy = (\<lambda>s. Some (Inr (NewEmptyAction, NewDecisionProvenance ''BASE'' (Some s) []))), dla_sampler = None,
     dla_regionManager = NewRegionManager 1 [],
     dla_ruleReg = Some [\<lparr>CRule = demo_rule, ConditionProgram = \<lambda>_. Inr (AnyBool True), ValueProgram = None\<rparr>]\<rparr>"

definition one_pair :: "53 Belief State" where
  "one_pair = \<lparr>st_resource = NewResourceState [demo_driver ''D1'' demo_A] [demo_load ''L1'' demo_A demo_B],
     st_information = \<lparr>epoch = 7, fuelPriceIndex = 1, nationalSpotRateIndex = 1, weatherAlertCount = 0\<rparr>,
     st_belief = NewMonopolisticBelief\<rparr>"

lemma one_pair_lists: "rs_drivers (st_resource one_pair) = [demo_driver ''D1'' demo_A]"
  "rs_loads (st_resource one_pair) = [demo_load ''L1'' demo_A demo_B]"
  by (simp_all add: one_pair_def NewResourceState_def sort_slice_def Let_def)

lemma banned_match:
  "\<exists>sol. SolveMatchingDetailed NewBipartiteMatcher
     [no_eval\<lparr>EvDriverID := ''D1'', EvLoadID := ''L1'', TotalScore := Fin (- 1000000000)\<rparr>] 7 False = Some (Inr sol)"
proof -
  have "case_option False (case_sum (\<lambda>_. False) (\<lambda>_. True)) (SolveMatchingDetailed NewBipartiteMatcher
     [no_eval\<lparr>EvDriverID := ''D1'', EvLoadID := ''L1'', TotalScore := Fin (- 1000000000)\<rparr>] 7 False)" by code_simp
  then show ?thesis by (auto split: option.splits sum.splits)
qed


end
