(* ===== verification/Market.thy ===== *)
theory Market
  imports Belief_Filter Rng
begin

text \<open>
  \<open>internal/adapter/simulation/market_env.go\<close>: the simulated freight market. Its state is the generator, the
  epoch and the hidden posture of the competitors; a step moves the posture, draws the competitors' bids,
  awards the loads the carrier matched and reports what the carrier may see. Maps are partial functions.
\<close>

section \<open>Configuration and state\<close>

type_synonym CompetitorPosture = int

definition PostureAggressive :: CompetitorPosture where "PostureAggressive = 0"
definition PostureModerate :: CompetitorPosture where "PostureModerate = 1"
definition PosturePassive :: CompetitorPosture where "PosturePassive = 2"

definition Posture_String :: "CompetitorPosture \<Rightarrow> string" where
  "Posture_String p = (if p = PostureAggressive then ''AGGRESSIVE'' else if p = PostureModerate then ''MODERATE''
     else if p = PosturePassive then ''PASSIVE'' else ''UNKNOWN'')"

record MarketConfig =
  InitialPosture :: CompetitorPosture
  TransitionProb :: "f64 list list"
  PriceMultipliers :: "f64 list"
  PriceNoiseStdDev :: f64
  SpotRatePerMile :: f64
  FuelPricePerGal :: f64

definition DefaultMarketConfig :: MarketConfig where
  "DefaultMarketConfig = \<lparr>InitialPosture = PostureModerate,
     TransitionProb = [[rnd (70 / 100), rnd (20 / 100), rnd (10 / 100)], [rnd (15 / 100), rnd (70 / 100), rnd (15 / 100)],
       [rnd (10 / 100), rnd (20 / 100), rnd (70 / 100)]],
     PriceMultipliers = [rnd (86 / 100), 1, rnd (118 / 100)], PriceNoiseStdDev = rnd (3 / 100), SpotRatePerMile = rnd (250 / 100),
     FuelPricePerGal = rnd (385 / 100)\<rparr>"

record MarketEnvironment =
  me_cfg :: MarketConfig
  me_rng :: RNG
  me_epoch :: int
  me_latent :: CompetitorPosture

definition NewMarketEnvironment :: "MarketConfig \<Rightarrow> u64 \<Rightarrow> MarketEnvironment result" where
  "NewMarketEnvironment cfg seed =
     (if length (TransitionProb cfg) \<noteq> 3 \<or> length (PriceMultipliers cfg) \<noteq> 3
      then Inl (ErrOther ''market_env: invalid config dimensions (must be 3x3 for postures)'')
      else Inr \<lparr>me_cfg = cfg, me_rng = NewRNG seed, me_epoch = 0, me_latent = InitialPosture cfg\<rparr>)"

record MarketOutcome =
  mo_epoch :: int
  TrueCompetitorState :: CompetitorPosture
  CarrierBidLoads :: "string list"
  WonLoads :: "Load list"
  LostLoads :: "Load list"
  CarrierRevenues :: "string \<rightharpoonup> f64"
  CompetitorBids :: "string \<rightharpoonup> f64"
  ObservedFeedback :: "string \<rightharpoonup> f64"

section \<open>A step\<close>

text \<open>The next posture: the first whose cumulated probability reaches \<open>u\<close>, or the last.\<close>

fun next_posture :: "f64 \<Rightarrow> f64 list \<Rightarrow> int \<Rightarrow> f64 \<Rightarrow> CompetitorPosture \<Rightarrow> CompetitorPosture" where
  "next_posture u [] nextState cum latent = latent"
| "next_posture u (prob # row) nextState cum latent =
     (if u \<le> cum + prob \<or> row = [] then nextState else next_posture u row (nextState + 1) (cum + prob) latent)"

definition competitor_price :: "libm \<Rightarrow> MarketConfig \<Rightarrow> f64 \<Rightarrow> f64 \<Rightarrow> Load \<Rightarrow> f64" where
  "competitor_price L cfg multiplierMean r load =
     (let mileage = DistanceMiles L (Origin load) (Destination load);
          basePrice = mileage * SpotRatePerMile cfg;
          basePrice = (if basePrice \<le> 0 then Revenue load else basePrice);
          noise = (r - Fin (1 / 2)) * Fin 2 * PriceNoiseStdDev cfg in
      basePrice * go_max (Fin (1 / 2)) (multiplierMean + noise))"

fun competitor_bids ::
  "libm \<Rightarrow> MarketConfig \<Rightarrow> f64 \<Rightarrow> Load list \<Rightarrow> RNG \<Rightarrow> (string \<rightharpoonup> f64) \<Rightarrow> (string \<rightharpoonup> f64) \<times> RNG" where
  "competitor_bids L cfg mean [] rng bids = (bids, rng)"
| "competitor_bids L cfg mean (load # loads) rng bids =
     (case RNG_Float64 rng of (r, rng') \<Rightarrow>
      competitor_bids L cfg mean loads rng' (bids(LdID load \<mapsto> competitor_price L cfg mean r load)))"

definition matched_loads :: "Action option \<Rightarrow> string set" where
  "matched_loads action = (case action of None \<Rightarrow> {} | Some a \<Rightarrow> set (map MLoadID (act_matches a)))"

definition carrier_bids :: "Action option \<Rightarrow> string \<rightharpoonup> f64" where
  "carrier_bids action =
     (case action of None \<Rightarrow> Map.empty | Some a \<Rightarrow> fold (\<lambda>b m. m(BidLoadID b \<mapsto> BidPrice b)) (act_bids a) Map.empty)"

text \<open>\<open>m[k]\<close>, with the zero value for a missing key.\<close>

definition at0 :: "(string \<rightharpoonup> f64) \<Rightarrow> string \<Rightarrow> f64" where
  "at0 m k = (case m k of None \<Rightarrow> 0 | Some x \<Rightarrow> x)"

definition carrier_price :: "(string \<rightharpoonup> f64) \<Rightarrow> Load \<Rightarrow> f64" where
  "carrier_price bids load = (case bids (LdID load) of None \<Rightarrow> Revenue load | Some b \<Rightarrow> if b \<le> 0 then Revenue load else b)"

definition wins :: "f64 \<Rightarrow> f64 \<Rightarrow> bool" where
  "wins carrierBid compBid \<longleftrightarrow> carrierBid \<le> compBid * rnd (102 / 100)"

definition auction_load ::
  "string set \<Rightarrow> (string \<rightharpoonup> f64) \<Rightarrow> (string \<rightharpoonup> f64) \<Rightarrow> Load \<Rightarrow> MarketOutcome \<Rightarrow> MarketOutcome" where
  "auction_load matched bids rivals load mo =
     (if LdID load \<notin> matched then mo
      else let k = LdID load; carrierBid = carrier_price bids load; compBid = at0 rivals k;
               mo = mo\<lparr>CarrierBidLoads := CarrierBidLoads mo @ [k], ObservedFeedback := (ObservedFeedback mo)(k \<mapsto> compBid)\<rparr> in
        if wins carrierBid compBid
        then mo\<lparr>WonLoads := WonLoads mo @ [load], CarrierRevenues := (CarrierRevenues mo)(k \<mapsto> carrierBid)\<rparr>
        else mo\<lparr>LostLoads := LostLoads mo @ [load]\<rparr>)"

definition no_load :: Load where
  "no_load = \<lparr>LdID = '''', Origin = \<lparr>NodeID = '''', Lat = 0, Lon = 0\<rparr>, Destination = \<lparr>NodeID = '''', Lat = 0, Lon = 0\<rparr>,
     PickupEarliestEpoch = 0, PickupLatestEpoch = 0, DeliveryEarliestEpoch = 0, DeliveryLatestEpoch = 0, RequiredEquipment = '''',
     RequiredEndorsements = [], Revenue = 0, EstimatedTransitEpochs = 0\<rparr>"

definition load_by_id :: "Load list \<Rightarrow> string \<Rightarrow> Load" where
  "load_by_id loads k = (case fold (\<lambda>l m. m(LdID l \<mapsto> l)) loads Map.empty k of None \<Rightarrow> no_load | Some l \<Rightarrow> l)"

definition bid_feedback :: "libm \<Rightarrow> (string \<rightharpoonup> f64) \<Rightarrow> (string \<rightharpoonup> f64) \<Rightarrow> Load list \<Rightarrow> string \<Rightarrow> BidFeedback" where
  "bid_feedback L bids rivals loads loadID =
     (let compBid = at0 rivals loadID; load = load_by_id loads loadID;
          miles = DistanceMiles L (Origin load) (Destination load);
          ratePerMile = (if miles > 0 then compBid / miles else compBid) in
      \<lparr>FbLoadID = loadID, FbWon = wins (at0 bids loadID) compBid, FbWinningPrice = ratePerMile\<rparr>)"

definition Market_Step ::
  "libm \<Rightarrow> MarketEnvironment \<Rightarrow> int \<Rightarrow> Action option \<Rightarrow> Load list \<Rightarrow> (MarketOutcome \<times> Observation \<times> MarketEnvironment) result" where
  "Market_Step L m ep action loads =
     (if me_latent m < 0 \<or> me_latent m \<ge> int (length (TransitionProb (me_cfg m))) then Inl (Panic ''index out of range'')
      else case RNG_Float64 (me_rng m) of (u, rng) \<Rightarrow>
      let latent = next_posture u (TransitionProb (me_cfg m) ! nat (me_latent m)) 0 0 (me_latent m) in
      if latent \<ge> int (length (PriceMultipliers (me_cfg m))) then Inl (Panic ''index out of range'')
      else case competitor_bids L (me_cfg m) (PriceMultipliers (me_cfg m) ! nat latent) loads rng Map.empty of (rivals, rng') \<Rightarrow>
      let bids = carrier_bids action;
          outcome = fold (auction_load (matched_loads action) bids rivals) loads
            \<lparr>mo_epoch = ep, TrueCompetitorState = latent, CarrierBidLoads = [], WonLoads = [], LostLoads = [],
             CarrierRevenues = Map.empty, CompetitorBids = rivals, ObservedFeedback = Map.empty\<rparr>;
          feedbacks = map (bid_feedback L bids rivals loads) (CarrierBidLoads outcome) in
      Inr (outcome, NewObservation ep loads feedbacks, m\<lparr>me_rng := rng', me_epoch := ep, me_latent := latent\<rparr>))"

section \<open>What a step does\<close>

lemma next_posture_range:
  "row \<noteq> [] \<Longrightarrow> k \<le> next_posture u row k cum latent \<and> next_posture u row k cum latent < k + int (length row)"
proof (induction row arbitrary: k cum)
  case (Cons p row)
  show ?case
  proof (cases "row = []")
    case False
    from Cons.IH [OF this, of "k + 1" "cum + p"] show ?thesis by auto
  qed simp
qed simp

lemma competitor_bids_dom: "dom (fst (competitor_bids L cfg mean loads rng bids)) = dom bids \<union> LdID ` set loads"
  by (induction loads arbitrary: rng bids) (auto split: prod.split)

text \<open>The auction splits the matched loads, in their order, by the carrier's price.\<close>

lemma auction_fold:
  fixes matched bids rivals
  defines "won \<equiv> \<lambda>l. wins (carrier_price bids l) (at0 rivals (LdID l))"
  shows "let mo' = fold (auction_load matched bids rivals) loads mo; ls = filter (\<lambda>l. LdID l \<in> matched) loads in
    CarrierBidLoads mo' = CarrierBidLoads mo @ map LdID ls \<and>
    WonLoads mo' = WonLoads mo @ filter won ls \<and> LostLoads mo' = LostLoads mo @ filter (\<lambda>l. \<not> won l) ls \<and>
    (distinct (map LdID loads) \<longrightarrow>
      CarrierRevenues mo' = CarrierRevenues mo ++ map_of (map (\<lambda>l. (LdID l, carrier_price bids l)) (filter won ls)) \<and>
      ObservedFeedback mo' = ObservedFeedback mo ++ map_of (map (\<lambda>l. (LdID l, at0 rivals (LdID l))) ls)) \<and>
    TrueCompetitorState mo' = TrueCompetitorState mo \<and> CompetitorBids mo' = CompetitorBids mo"
proof (induction loads arbitrary: mo)
  case (Cons l loads)
  then show ?case
    using Cons.IH [of "auction_load matched bids rivals l mo"]
    by (auto simp: auction_load_def won_def Let_def map_add_upd_left dom_map_of_conv_image_fst image_iff)
qed simp

lemma load_map_fold:
  "distinct (map LdID loads) \<Longrightarrow>
    fold (\<lambda>l m. m(LdID l \<mapsto> l)) loads m k = (if \<exists>l\<in>set loads. LdID l = k then find (\<lambda>l. LdID l = k) loads else m k)"
  by (induction loads arbitrary: m) (auto simp: image_iff)

lemma load_by_id_distinct: "distinct (map LdID loads) \<Longrightarrow> l \<in> set loads \<Longrightarrow> load_by_id loads (LdID l) = l"
proof -
  assume d: "distinct (map LdID loads)" and l: "l \<in> set loads"
  have "find (\<lambda>x. LdID x = LdID l) loads = Some l" using d l by (induction loads) auto
  then show ?thesis using l by (auto simp: load_by_id_def load_map_fold [OF d])
qed

text \<open>A step that returns, in parts: the postures, the bids, the auction and what is reported.\<close>

lemma Market_Step_parts:
  assumes "Market_Step L m ep action loads = Inr (out, obs, m')" and "distinct (map LdID loads)"
  defines "ls \<equiv> filter (\<lambda>l. LdID l \<in> matched_loads action) loads" and "bids \<equiv> carrier_bids action"
    and "rivals \<equiv> CompetitorBids out"
  defines "won \<equiv> \<lambda>l. wins (carrier_price bids l) (at0 rivals (LdID l))"
  shows "me_latent m' = TrueCompetitorState out" "me_epoch m' = ep" "dom rivals = LdID ` set loads"
    "0 \<le> me_latent m" "me_latent m < int (length (TransitionProb (me_cfg m)))"
    "\<exists>u. me_latent m' = next_posture u (TransitionProb (me_cfg m) ! nat (me_latent m)) 0 0 (me_latent m)"
    "WonLoads out = filter won ls" "LostLoads out = filter (\<lambda>l. \<not> won l) ls"
    "CarrierRevenues out = map_of (map (\<lambda>l. (LdID l, carrier_price bids l)) (filter won ls))"
    "ObservedFeedback out = map_of (map (\<lambda>l. (LdID l, at0 rivals (LdID l))) ls)"
    "obs = NewObservation ep loads (map (bid_feedback L bids rivals loads \<circ> LdID) ls)"
proof -
  obtain u rng where u: "RNG_Float64 (me_rng m) = (u, rng)" by fastforce
  define latent where "latent = next_posture u (TransitionProb (me_cfg m) ! nat (me_latent m)) 0 0 (me_latent m)"
  obtain rv rng' where c: "competitor_bids L (me_cfg m) (PriceMultipliers (me_cfg m) ! nat latent) loads rng Map.empty = (rv, rng')" by fastforce
  define mo where "mo = \<lparr>mo_epoch = ep, TrueCompetitorState = latent, CarrierBidLoads = [], WonLoads = [], LostLoads = [],
     CarrierRevenues = Map.empty, CompetitorBids = rv, ObservedFeedback = Map.empty\<rparr>"
  let ?out = "fold (auction_load (matched_loads action) bids rv) loads mo"
  have b: "0 \<le> me_latent m" "me_latent m < int (length (TransitionProb (me_cfg m)))" and o: "out = ?out"
    and obs: "obs = NewObservation ep loads (map (bid_feedback L bids rv loads) (CarrierBidLoads ?out))"
    and m': "m' = m\<lparr>me_rng := rng', me_epoch := ep, me_latent := latent\<rparr>"
    using assms(1) u c unfolding latent_def mo_def bids_def
    by (auto simp: Market_Step_def Let_def split: if_splits)
  note A = auction_fold [of "matched_loads action" bids rv loads mo, unfolded Let_def, folded ls_def]
  have rv: "rivals = rv" unfolding rivals_def o using A by (simp add: mo_def)
  have w: "won = (\<lambda>l. wins (carrier_price bids l) (at0 rv (LdID l)))" by (simp add: won_def rv)
  note A' = A [folded w]
  show "0 \<le> me_latent m" "me_latent m < int (length (TransitionProb (me_cfg m)))" by (fact b)+
  show "me_latent m' = TrueCompetitorState out" "me_epoch m' = ep" using A' by (simp_all add: o m' mo_def)
  show "\<exists>u. me_latent m' = next_posture u (TransitionProb (me_cfg m) ! nat (me_latent m)) 0 0 (me_latent m)"
    by (auto simp: m' latent_def)
  show "dom rivals = LdID ` set loads"
    unfolding rv using competitor_bids_dom [of L "me_cfg m" "PriceMultipliers (me_cfg m) ! nat latent" loads rng Map.empty] by (simp add: c)
  show "WonLoads out = filter won ls" "LostLoads out = filter (\<lambda>l. \<not> won l) ls"
    "CarrierRevenues out = map_of (map (\<lambda>l. (LdID l, carrier_price bids l)) (filter won ls))"
    "ObservedFeedback out = map_of (map (\<lambda>l. (LdID l, at0 rivals (LdID l))) ls)"
    using A' assms(2) by (simp_all add: o mo_def rv won_def)
  show "obs = NewObservation ep loads (map (bid_feedback L bids rivals loads \<circ> LdID) ls)"
    using A' by (simp add: obs mo_def rv)
qed

text \<open>
  Property C39. The auction of a step: with different load IDs, the carrier wins exactly the loads it matched at a price of at most
  the rival bid and two percent, earns that price, and loses the other matched loads. It sees the bids of its rivals on
  the loads it matched and on no others, and the hidden posture stays one of the postures of the matrix.
\<close>

theorem Market_Step_auction:
  assumes "Market_Step L m ep action loads = Inr (out, obs, m')" and "distinct (map LdID loads)"
    and "\<forall>row\<in>set (TransitionProb (me_cfg m)). row \<noteq> []"
  shows "let mine = {l \<in> set loads. LdID l \<in> matched_loads action}; price = carrier_price (carrier_bids action);
      rival = at0 (CompetitorBids out) \<circ> LdID in
    set (WonLoads out) = {l \<in> mine. price l \<le> rival l * rnd (102 / 100)} \<and> set (LostLoads out) = mine - set (WonLoads out) \<and>
    CarrierRevenues out = map_of (map (\<lambda>l. (LdID l, price l)) (WonLoads out)) \<and>
    dom (CompetitorBids out) = LdID ` set loads \<and>
    dom (ObservedFeedback out) = LdID ` mine \<and> (\<forall>l\<in>mine. ObservedFeedback out (LdID l) = Some (rival l)) \<and>
    FbLoadID ` set (ob_feedback obs) = LdID ` mine \<and> set (ob_loads obs) = set loads \<and>
    me_latent m' = TrueCompetitorState out \<and> 0 \<le> me_latent m' \<and>
    me_latent m' < int (length (TransitionProb (me_cfg m) ! nat (me_latent m)))"
proof -
  note P = Market_Step_parts [OF assms(1,2)]
  let ?ls = "filter (\<lambda>l. LdID l \<in> matched_loads action) loads"
  have "TransitionProb (me_cfg m) ! nat (me_latent m) \<noteq> []" using P(4,5) assms(3) by simp
  from next_posture_range [OF this, of 0] have r: "0 \<le> me_latent m'"
    "me_latent m' < int (length (TransitionProb (me_cfg m) ! nat (me_latent m)))" using P(6) by auto
  have d: "distinct (map LdID ?ls)" using assms(2) by (simp add: distinct_map_filter)
  have fb: "FbLoadID ` set (ob_feedback obs) = LdID ` set ?ls"
    unfolding P(11) NewObservation_def by (auto simp: bid_feedback_def Let_def image_iff)
  have seen: "ObservedFeedback out (LdID l) = Some (at0 (CompetitorBids out) (LdID l))" if "l \<in> set ?ls" for l
    using that d unfolding P(10) by (intro map_of_is_SomeI) (auto simp: comp_def)
  have "dom (ObservedFeedback out) = LdID ` set ?ls" unfolding P(10) dom_map_of_conv_image_fst by force
  then show ?thesis
    using P(1,3) r fb seen unfolding Let_def P(7,8,9) by (auto simp: wins_def P(11) NewObservation_def)
qed

text \<open>
  Property C40. A matched load without an explicit bid is bid at its listed revenue, but the report to the carrier compares a bid of
  zero: it says won whenever the rival bid is not negative, also for a load the auction has just lost.
\<close>

theorem Market_Step_false_wins:
  assumes "Market_Step L m ep action loads = Inr (out, obs, m')" and "distinct (map LdID loads)"
    and "l \<in> set loads" and "LdID l \<in> matched_loads action" and "carrier_bids action (LdID l) = None"
  shows "(l \<in> set (WonLoads out) \<longleftrightarrow> Revenue l \<le> at0 (CompetitorBids out) (LdID l) * rnd (102 / 100)) \<and>
    (\<exists>fb\<in>set (ob_feedback obs). FbLoadID fb = LdID l \<and> (FbWon fb \<longleftrightarrow> 0 \<le> at0 (CompetitorBids out) (LdID l) * rnd (102 / 100)))"
proof -
  note P = Market_Step_parts [OF assms(1,2)]
  let ?fb = "bid_feedback L (carrier_bids action) (CompetitorBids out) loads (LdID l)"
  have "?fb \<in> set (ob_feedback obs)" using assms(3,4) unfolding P(11) NewObservation_def by auto
  moreover have "FbLoadID ?fb = LdID l" "FbWon ?fb \<longleftrightarrow> 0 \<le> at0 (CompetitorBids out) (LdID l) * rnd (102 / 100)"
    using assms(5) by (simp_all add: bid_feedback_def wins_def at0_def Let_def)
  ultimately show ?thesis using assms(3-5) unfolding P(7) by (auto simp: wins_def carrier_price_def)
qed

definition demo_env :: MarketEnvironment where
  "demo_env = \<lparr>me_cfg = \<lparr>InitialPosture = PostureAggressive, TransitionProb = [[1], [1], [1]],
     PriceMultipliers = [rnd (86 / 100), 1, rnd (118 / 100)], PriceNoiseStdDev = 0, SpotRatePerMile = Fin 2, FuelPricePerGal = Fin 4\<rparr>,
     me_rng = NewRNG 7, me_epoch = 0, me_latent = PostureAggressive\<rparr>"

definition demo_lane :: Load where
  "demo_lane = no_load\<lparr>LdID := ''L1'', Revenue := Fin 1000\<rparr>"

definition demo_bid :: "Action option" where
  "demo_bid = Some \<lparr>act_matches = [\<lparr>MDriverID = ''D1'', MLoadID = ''L1'', DispatchEpoch = 0, EstimatedContribution = 0\<rparr>], act_bids = []\<rparr>"

lemma demo_draws:
  "RNG_Float64 (NewRNG 7) = (Fin (3511274219185729 / 9007199254740992), \<lparr>rng_state = 11400714819323198492\<rparr>)"
  "RNG_Float64 \<lparr>rng_state = 11400714819323198492\<rparr> = (Fin (37803878490595 / 2251799813685248), \<lparr>rng_state = 4354685564936845361\<rparr>)"
  by code_simp+

lemma demo_price:
  "competitor_price demo_libm (me_cfg demo_env) (rnd (43 / 50)) (Fin (37803878490595 / 2251799813685248)) demo_lane = Fin 860"
  by code_simp

lemma demo_step:
  "\<exists>out obs m'. Market_Step demo_libm demo_env 7 demo_bid [demo_lane] = Inr (out, obs, m') \<and>
    at0 (CompetitorBids out) ''L1'' = Fin 860"
proof -
  have l: "LdID demo_lane = ''L1''" by (simp add: demo_lane_def)
  have e: "me_latent demo_env = 0" "TransitionProb (me_cfg demo_env) = [[1], [1], [1]]"
    "PriceMultipliers (me_cfg demo_env) = [rnd (86 / 100), 1, rnd (118 / 100)]" "me_rng demo_env = NewRNG 7"
    by (simp_all add: demo_env_def PostureAggressive_def)
  obtain out obs m' where s: "Market_Step demo_libm demo_env 7 demo_bid [demo_lane] = Inr (out, obs, m')"
    by (simp add: Market_Step_def e demo_draws Let_def)
  moreover have "CompetitorBids out = [''L1'' \<mapsto> Fin 860]"
    using s auction_fold [of "matched_loads demo_bid" "carrier_bids demo_bid" _ "[demo_lane]"]
    by (auto simp: Market_Step_def e demo_draws demo_price l Let_def)
  ultimately show ?thesis by (auto simp: at0_def)
qed

lemma demo_matched: "LdID demo_lane \<in> matched_loads demo_bid" "carrier_bids demo_bid (LdID demo_lane) = None"
  by (simp_all add: demo_lane_def demo_bid_def matched_loads_def carrier_bids_def)

lemma Market_Step_auction_witness:
  "\<exists>out obs m'. Market_Step demo_libm demo_env 7 demo_bid [demo_lane] = Inr (out, obs, m') \<and> LostLoads out \<noteq> []"
proof -
  obtain out obs m' where s: "Market_Step demo_libm demo_env 7 demo_bid [demo_lane] = Inr (out, obs, m')"
    and c: "at0 (CompetitorBids out) ''L1'' = Fin 860" using demo_step by blast
  have "\<forall>row\<in>set (TransitionProb (me_cfg demo_env)). row \<noteq> []" by (simp add: demo_env_def)
  from Market_Step_auction [OF s _ this]
  have "demo_lane \<in> set (LostLoads out) \<or> Revenue demo_lane \<le> at0 (CompetitorBids out) (LdID demo_lane) * rnd (102 / 100)"
    using demo_matched by (auto simp: carrier_price_def Let_def)
  moreover have "\<not> Fin 1000 \<le> (Fin 860 :: f64) * rnd (102 / 100)" by code_simp
  ultimately have "demo_lane \<in> set (LostLoads out)" by (simp add: demo_lane_def c)
  then show ?thesis using s by (intro exI [of _ out] exI [of _ obs] exI [of _ m']) auto
qed

lemma Market_Step_false_wins_witness:
  "\<exists>out obs m'. Market_Step demo_libm demo_env 7 demo_bid [demo_lane] = Inr (out, obs, m') \<and>
    demo_lane \<notin> set (WonLoads out) \<and> (\<exists>fb\<in>set (ob_feedback obs). FbLoadID fb = ''L1'' \<and> FbWon fb)"
proof -
  obtain out obs m' where s: "Market_Step demo_libm demo_env 7 demo_bid [demo_lane] = Inr (out, obs, m')"
    and c: "at0 (CompetitorBids out) ''L1'' = Fin 860" using demo_step by blast
  have "\<not> Fin 1000 \<le> (Fin 860 :: f64) * rnd (102 / 100)" "0 \<le> (Fin 860 :: f64) * rnd (102 / 100)" by code_simp+
  then show ?thesis
    using Market_Step_false_wins [OF s _ _ demo_matched] s c by (auto simp: demo_lane_def)
qed

end
